(* ===== verification/Bytes.thy ===== *)
theory Bytes
  imports Main "HOL-Library.Word" "HOL-Library.Monad_Syntax"
begin

text \<open>
  Prelude of the development: the C integer types of the driver, byte buffers with checked
  access, the byte-order macros of \<^verbatim>\<open>include/osdep_service.h\<close> and
  \<^verbatim>\<open>include/rtw_security.h\<close>, and the generic facts about words, byte lists and
  exclusive or that the component theories share.

  A C buffer is a list of 8-bit words. Where the driver's own indices decide whether an access
  stays inside the buffer, the checked operations \<open>rd\<close>, \<open>rdn\<close> and \<open>wrn\<close> are used: their
  result is \<^term>\<open>None\<close> when the C code would touch memory outside the buffer.
\<close>

unbundle bit_operations_syntax

type_synonym u8 = "8 word"
type_synonym u16 = "16 word"
type_synonym u32 = "32 word"
type_synonym u64 = "64 word"
type_synonym bytes = "u8 list"

named_theorems mem_simps \<open>laws of checked buffer reads and writes\<close>
named_theorems xor_simps \<open>cancellation laws for exclusive or\<close>
named_theorems crypto_len \<open>lengths of the buffers the cryptographic routines produce\<close>

section \<open>Checked buffers\<close>

definition rd :: "'a list \<Rightarrow> nat \<Rightarrow> 'a option" where
  "rd b i = (if i < length b then Some (b ! i) else None)"

definition rdn :: "'a list \<Rightarrow> nat \<Rightarrow> nat \<Rightarrow> 'a list option" where
  "rdn b i n = (if i + n \<le> length b then Some (take n (drop i b)) else None)"

definition wrn :: "'a list \<Rightarrow> nat \<Rightarrow> 'a list \<Rightarrow> 'a list option" where
  "wrn b i xs = (if i + length xs \<le> length b
     then Some (take i b @ xs @ drop (i + length xs) b) else None)"

lemma rd_Some_iff [mem_simps]: "rd b i = Some x \<longleftrightarrow> i < length b \<and> x = b ! i"
  by (auto simp: rd_def)

lemma rd_None_iff [mem_simps]: "rd b i = None \<longleftrightarrow> length b \<le> i"
  by (simp add: rd_def)

lemma rdn_Some_iff: "rdn b i n = Some xs \<longleftrightarrow> i + n \<le> length b \<and> xs = take n (drop i b)"
  by (auto simp: rdn_def)

lemma rdn_None_iff: "rdn b i n = None \<longleftrightarrow> length b < i + n"
  by (auto simp: rdn_def)

lemma rdn_length: "rdn b i n = Some xs \<Longrightarrow> length xs = n"
  by (auto simp: rdn_Some_iff)

lemma wrn_Some_iff: "wrn b i xs = Some b' \<longleftrightarrow>
    i + length xs \<le> length b \<and> b' = take i b @ xs @ drop (i + length xs) b"
  by (auto simp: wrn_def)

lemma wrn_length: "wrn b i xs = Some b' \<Longrightarrow> length b' = length b"
  by (auto simp: wrn_Some_iff)

text \<open>Accesses to a buffer given as prefix, middle and suffix.\<close>

lemma rdn_append [mem_simps]:
  "i = length p \<Longrightarrow> n = length m \<Longrightarrow> rdn (p @ m @ s) i n = Some m"
  by (simp add: rdn_def)

lemma rdn_append_end [mem_simps]:
  "i = length p \<Longrightarrow> n = length m \<Longrightarrow> rdn (p @ m) i n = Some m"
  by (simp add: rdn_def)

lemma wrn_append [mem_simps]:
  "i = length p \<Longrightarrow> length xs = length m \<Longrightarrow> wrn (p @ m @ s) i xs = Some (p @ xs @ s)"
  by (simp add: wrn_def)

lemma wrn_append_end [mem_simps]:
  "i = length p \<Longrightarrow> length xs = length m \<Longrightarrow> wrn (p @ m) i xs = Some (p @ xs)"
  by (simp add: wrn_def)

section \<open>Addresses\<close>

definition IS_MCAST :: "bytes \<Rightarrow> bool" where
  "IS_MCAST da \<longleftrightarrow> da ! 0 AND 0x01 \<noteq> 0"

section \<open>Flags\<close>

lemma le_1_cases: "(x :: u8) \<le> 1 \<Longrightarrow> x = 0 \<or> x = 1"
  by (auto simp: word_le_nat_alt le_Suc_eq unat_eq_zero intro: word_unat_eq_iff [THEN iffD2])

section \<open>Exclusive or\<close>

lemma xor_cancel_left [xor_simps]: "(a :: 'a::len word) XOR (a XOR b) = b"
  by (simp flip: xor.assoc)

lemma xor_cancel_right [xor_simps]: "(b XOR a) XOR a = (b :: 'a::len word)"
  by (simp add: xor.assoc)

lemma xor_right_cancel_iff [xor_simps]: "a XOR c = b XOR c \<longleftrightarrow> a = (b :: 'a::len word)"
  by (metis xor_cancel_right)

lemma xor_left_cancel_iff [xor_simps]: "c XOR a = c XOR b \<longleftrightarrow> a = (b :: 'a::len word)"
  by (metis xor_cancel_left)

definition xorl :: "'a::len word list \<Rightarrow> 'a word list \<Rightarrow> 'a word list" where
  "xorl a b = map2 (XOR) a b"

lemma length_xorl [simp, crypto_len]: "length (xorl a b) = min (length a) (length b)"
  by (simp add: xorl_def)

lemma nth_xorl [simp]: "i < length a \<Longrightarrow> i < length b \<Longrightarrow> xorl a b ! i = a ! i XOR b ! i"
  by (simp add: xorl_def)

lemma xorl_Cons [simp]: "xorl (x # xs) (y # ys) = (x XOR y) # xorl xs ys"
  by (simp add: xorl_def)

lemma xorl_Nil [simp]: "xorl [] ys = []" "xorl xs [] = []"
  by (simp_all add: xorl_def)

lemma xorl_cancel_left: "length b \<le> length a \<Longrightarrow> xorl a (xorl a b) = b"
  by (rule nth_equalityI) (simp_all add: xor_simps)

lemma xorl_append: "length a = length c \<Longrightarrow> xorl (a @ b) (c @ d) = xorl a c @ xorl b d"
  by (simp add: xorl_def)

lemma xorl_inject:
  "length b = length a \<Longrightarrow> length c = length a \<Longrightarrow> xorl a b = xorl a c \<longleftrightarrow> b = c"
  by (metis order_refl xorl_cancel_left)

lemma xorl_commute: "xorl a b = xorl b a"
  by (rule nth_equalityI) (simp_all add: xor.commute)

lemma xorl_assoc: "xorl (xorl a b) c = xorl a (xorl b c)"
  by (rule nth_equalityI) (simp_all add: xor.assoc)

lemma take_xorl: "take n (xorl a b) = xorl (take n a) (take n b)"
  by (simp add: xorl_def take_map take_zip)

lemma take_xorl_pad:
  "length r \<le> length k \<Longrightarrow> take (length r) (xorl k (r @ z)) = xorl k r"
  by (rule nth_equalityI) (simp_all add: nth_append)

section \<open>Byte order\<close>

definition le16_bytes :: "u16 \<Rightarrow> bytes" where
  "le16_bytes v = [ucast v, ucast (drop_bit 8 v)]"

definition le32_bytes :: "u32 \<Rightarrow> bytes" where
  "le32_bytes v = [ucast v, ucast (drop_bit 8 v), ucast (drop_bit 16 v), ucast (drop_bit 24 v)]"

definition bytes_le16 :: "u8 \<Rightarrow> u8 \<Rightarrow> u16" where
  "bytes_le16 a b = ucast a OR push_bit 8 (ucast b)"

lemma length_le32_bytes [simp, crypto_len]: "length (le32_bytes v) = 4"
  by (simp add: le32_bytes_def)

lemma length_le16_bytes [simp, crypto_len]: "length (le16_bytes v) = 2"
  by (simp add: le16_bytes_def)

definition RTW_GET_BE16 :: "bytes \<Rightarrow> nat \<Rightarrow> u16 option" where
  "RTW_GET_BE16 b i = do { h \<leftarrow> rd b i; l \<leftarrow> rd b (i + 1);
     Some (push_bit 8 (ucast h) OR ucast l) }"

definition RTW_GET_LE16 :: "bytes \<Rightarrow> nat \<Rightarrow> u16 option" where
  "RTW_GET_LE16 b i = do { h \<leftarrow> rd b (i + 1); l \<leftarrow> rd b i;
     Some (push_bit 8 (ucast h) OR ucast l) }"

definition RTW_GET_BE24 :: "bytes \<Rightarrow> nat \<Rightarrow> u32 option" where
  "RTW_GET_BE24 b i = do { x \<leftarrow> rd b i; y \<leftarrow> rd b (i + 1); z \<leftarrow> rd b (i + 2);
     Some (push_bit 16 (ucast x) OR push_bit 8 (ucast y) OR ucast z) }"

definition RTW_PUT_LE16 :: "bytes \<Rightarrow> nat \<Rightarrow> u16 \<Rightarrow> bytes option" where
  "RTW_PUT_LE16 b i v = wrn b i [ucast (v AND 0xff), ucast (drop_bit 8 v)]"

lemma bytes_le16_le16_bytes: "bytes_le16 (ucast v) (ucast (drop_bit 8 v)) = (v :: u16)"
  unfolding bytes_le16_def by (rule bit_word_eqI) (auto simp: bit_simps)

section \<open>Words as bytes\<close>

text \<open>Big-endian composition of four bytes, the common shape of \<^verbatim>\<open>GETU32\<close>
  and \<^verbatim>\<open>WPA_GET_BE32\<close>.\<close>

definition GETU32 :: "u8 \<Rightarrow> u8 \<Rightarrow> u8 \<Rightarrow> u8 \<Rightarrow> u32" where
  "GETU32 a b c d = push_bit 24 (ucast a) XOR push_bit 16 (ucast b) XOR push_bit 8 (ucast c)
     XOR ucast d"

definition PUTU32 :: "u32 \<Rightarrow> bytes" where
  "PUTU32 st = [ucast (drop_bit 24 st), ucast (drop_bit 16 st), ucast (drop_bit 8 st), ucast st]"

lemma bit_GETU32:
  "bit (GETU32 a b c d) n \<longleftrightarrow>
     (if n < 8 then bit d n else if n < 16 then bit c (n - 8)
      else if n < 24 then bit b (n - 16) else bit a (n - 24))"
  unfolding GETU32_def by (auto simp: bit_simps dest: bit_imp_le_length)

lemma PUTU32_GETU32 [simp]: "PUTU32 (GETU32 a b c d) = [a, b, c, d]"
  unfolding PUTU32_def list.inject
  by (intro conjI; (rule bit_word_eqI; simp add: bit_simps bit_GETU32)?; simp)

lemma GETU32_split:
  "GETU32 (ucast (drop_bit 24 w)) (ucast (drop_bit 16 w)) (ucast (drop_bit 8 w)) (ucast w) = w"
  by (rule bit_word_eqI) (auto simp: bit_GETU32 bit_simps)

lemma GETU32_PUTU32: "PUTU32 w = [a, b, c, d] \<Longrightarrow> GETU32 a b c d = w"
  unfolding PUTU32_def using GETU32_split [of w] by simp

lemma length_PUTU32 [simp, crypto_len]: "length (PUTU32 w) = 4"
  by (simp add: PUTU32_def)

lemma GETU32_xor: "GETU32 a b c d XOR GETU32 a' b' c' d'
    = GETU32 (a XOR a') (b XOR b') (c XOR c') (d XOR d')"
  by (rule bit_word_eqI) (simp add: bit_GETU32 bit_simps)

lemma GETU32_inject: "GETU32 a b c d = GETU32 a' b' c' d' \<longleftrightarrow> a = a' \<and> b = b' \<and> c = c' \<and> d = d'"
proof
  assume "GETU32 a b c d = GETU32 a' b' c' d'"
  then have "PUTU32 (GETU32 a b c d) = PUTU32 (GETU32 a' b' c' d')" by simp
  then show "a = a' \<and> b = b' \<and> c = c' \<and> d = d'" by simp
qed simp

lemma GETU32_cases: obtains a b c d where "w = GETU32 a b c d"
  by (rule that [OF GETU32_split [of w, symmetric]])

section \<open>Small list facts\<close>

lemma list16_cases:
  assumes "length xs = 16"
  obtains x0 x1 x2 x3 x4 x5 x6 x7 x8 x9 x10 x11 x12 x13 x14 x15
  where "xs = [x0, x1, x2, x3, x4, x5, x6, x7, x8, x9, x10, x11, x12, x13, x14, x15]"
proof -
  from assms have "length xs = Suc (Suc (Suc (Suc (Suc (Suc (Suc (Suc (Suc (Suc (Suc (Suc
    (Suc (Suc (Suc (Suc 0)))))))))))))))"
    by simp
  then show thesis
    using that by (simp only: length_Suc_conv length_0_conv) blast
qed

lemma list4_cases:
  assumes "length xs = 4"
  obtains x0 x1 x2 x3 where "xs = [x0, x1, x2, x3]"
proof -
  from assms have "length xs = Suc (Suc (Suc (Suc 0)))" by simp
  then show thesis using that by (simp only: length_Suc_conv length_0_conv) blast
qed

lemma all_u8: "(\<forall>x :: u8. P x) \<longleftrightarrow> list_all (\<lambda>n. P (of_nat n)) [0..<256]"
proof
  assume r: "list_all (\<lambda>n. P (of_nat n)) [0..<256]"
  show "\<forall>x :: u8. P x"
  proof
    fix x :: u8
    have "unat x \<in> set [0..<256]"
      using unsigned_less [of x] by simp
    with r have "P (of_nat (unat x))"
      unfolding list_all_iff by blast
    then show "P x" by simp
  qed
qed (simp add: list_all_iff)

lemma unat_u8_less: "unat (x :: u8) < 256"
  using unsigned_less [of x] by simp

lemma bit_and_255 [simp]: "bit (w AND 0xff :: 'a::len word) n \<longleftrightarrow> bit w n \<and> n < 8"
proof -
  have "(0xff :: 'a word) = mask 8" by (simp add: mask_eq_exp_minus_1)
  then have "w AND 0xff = take_bit 8 w" by (simp add: take_bit_eq_mask)
  then show ?thesis by (auto simp: bit_simps)
qed

lemma bit_and_not_255 [simp]: "bit (w AND NOT 0xff :: 'a::len word) n \<longleftrightarrow> bit w n \<and> 8 \<le> n"
proof -
  have "(0xff :: 'a word) = mask 8" by (simp add: mask_eq_exp_minus_1)
  then have "w AND NOT 0xff = w AND NOT (mask 8)" by (simp only:)
  then show ?thesis by (auto simp: bit_simps dest: bit_imp_le_length)
qed

lemma bit_and_m256 [simp]: "bit (w AND - 256 :: 'a::len word) n \<longleftrightarrow> bit w n \<and> 8 \<le> n"
  using bit_and_not_255 [of w n] by simp

lemma bit_0x80: "bit (0x80 :: u8) n \<longleftrightarrow> n = 7"
proof -
  have e: "(0x80 :: u8) = push_bit 7 1" by simp
  show ?thesis
    unfolding e by (simp only: bit_push_bit_iff) (auto simp: bit_1_iff)
qed

lemma and_0x80_nonzero: "(x :: u8) AND 0x80 \<noteq> 0 \<longleftrightarrow> bit x 7"
proof
  assume "bit x 7"
  then have "bit (x AND 0x80) 7" by (simp only: bit_and_iff bit_0x80)
  then show "x AND 0x80 \<noteq> 0" by auto
next
  assume "x AND 0x80 \<noteq> 0"
  then obtain n where "bit (x AND 0x80) n" by (metis bit_eqI bit_0_eq bot_apply bot_bool_def)
  then show "bit x 7" by (simp only: bit_and_iff bit_0x80) auto
qed

lemma and_0x80_eq: "(x :: u8) AND 0x80 = 0x80 \<longleftrightarrow> bit x 7"
proof
  assume "x AND 0x80 = 0x80"
  then have "bit (x AND 0x80) 7" by (simp only: bit_0x80)
  then show "bit x 7" by (simp only: bit_and_iff)
next
  assume "bit x 7"
  then show "x AND 0x80 = 0x80"
    by (intro bit_word_eqI) (auto simp only: bit_and_iff bit_0x80)
qed

lemma less_8_cases: "n < (8 :: nat) \<Longrightarrow> n = 0 \<or> n = 1 \<or> n = 2 \<or> n = 3 \<or> n = 4 \<or> n = 5 \<or> n = 6 \<or> n = 7"
  by arith

lemma unat_and_255_less: "unat (x AND 0xff :: u32) < 256"
proof -
  have "x AND 0xff \<le> 0xff" by (rule word_and_le1)
  then show ?thesis by (simp add: word_le_nat_alt)
qed

end
