(* ===== verification/Arc4.thy ===== *)
theory Arc4
  imports Bytes "HOL-Library.Multiset"
begin

text \<open>
  The RC4 stream cipher of \<^verbatim>\<open>core/rtw_security.c\<close> (\<open>arcfour_init\<close>,
  \<open>arcfour_byte\<close>, \<open>arcfour_encrypt\<close>), the invariant of its context, and the interface
  \<open>stream_cipher\<close> that the WEP and TKIP frame handlers rely on.
\<close>

section \<open>The context and its operations\<close>

record arc4context =
  arc4_x :: u32
  arc4_y :: u32
  arc4_state :: bytes

text \<open>One turn of the key-scheduling loop; \<open>counter\<close> is the loop variable, the triple holds
  \<open>keyindex\<close>, \<open>stateindex\<close> and the state array.\<close>

definition arcfour_init_step ::
  "bytes \<Rightarrow> u32 \<Rightarrow> nat \<Rightarrow> u32 \<times> u32 \<times> bytes \<Rightarrow> u32 \<times> u32 \<times> bytes" where
  "arcfour_init_step key key_len counter = (\<lambda>(keyindex, stateindex, state).
     let t = (ucast (state ! counter) :: u32);
         stateindex' = (stateindex + ucast (key ! unat keyindex) + t) AND 0xff;
         u = (ucast (state ! unat stateindex') :: u32);
         state' = state[unat stateindex' := ucast t];
         state'' = state'[counter := ucast u];
         keyindex' = keyindex + 1
     in (if key_len \<le> keyindex' then 0 else keyindex', stateindex', state''))"

definition arcfour_init :: "bytes \<Rightarrow> u32 \<Rightarrow> arc4context" where
  "arcfour_init key key_len =
     (let state = map of_nat [0..<256];
          (_, _, state') = fold (arcfour_init_step key key_len) [0..<256] (0, 0, state)
      in \<lparr>arc4_x = 0, arc4_y = 0, arc4_state = state'\<rparr>)"

definition arcfour_byte :: "arc4context \<Rightarrow> arc4context \<times> u32" where
  "arcfour_byte c =
     (let state = arc4_state c;
          x = (arc4_x c + 1) AND 0xff;
          sx = (ucast (state ! unat x) :: u32);
          y = (sx + arc4_y c) AND 0xff;
          sy = (ucast (state ! unat y) :: u32);
          state' = state[unat y := ucast sx];
          state'' = state'[unat x := ucast sy]
      in (\<lparr>arc4_x = x, arc4_y = y, arc4_state = state''\<rparr>,
          ucast (state'' ! unat ((sx + sy) AND 0xff))))"

text \<open>\<open>arcfour_encrypt(ctx, dest, src, len)\<close> with the \<open>len\<close> bytes of \<open>src\<close> as a list;
  the result is the advanced context and the \<open>len\<close> bytes written to \<open>dest\<close>.\<close>

fun arcfour_encrypt :: "arc4context \<Rightarrow> bytes \<Rightarrow> arc4context \<times> bytes" where
  "arcfour_encrypt c [] = (c, [])"
| "arcfour_encrypt c (b # bs) =
     (let (c1, k) = arcfour_byte c;
          (c2, ds) = arcfour_encrypt c1 bs
      in (c2, (b XOR ucast k) # ds))"

section \<open>The state array stays a permutation of the 256 byte values\<close>

definition arc4_perm :: "bytes \<Rightarrow> bool" where
  "arc4_perm st \<longleftrightarrow> mset st = mset (map of_nat [0..<256])"

definition arc4_wf :: "arc4context \<Rightarrow> bool" where
  "arc4_wf c \<longleftrightarrow> arc4_perm (arc4_state c) \<and> unat (arc4_x c) < 256 \<and> unat (arc4_y c) < 256"

lemma arc4_perm_length: "arc4_perm st \<Longrightarrow> length st = 256"
  unfolding arc4_perm_def by (drule mset_eq_length) simp

lemma ucast_ucast_u8 [simp]: "ucast (ucast (x :: u8) :: u32) = x"
  by (rule bit_word_eqI) (simp add: bit_simps)

lemma arc4_perm_swap:
  assumes "arc4_perm st" and "i < 256" and "j < 256"
  shows "arc4_perm (st[j := st ! i, i := st ! j])"
  using assms arc4_perm_length [OF assms(1)]
  by (simp add: arc4_perm_def mset_swap)

lemma arcfour_init_step_perm:
  assumes "arc4_perm st" and "counter < 256"
  shows "arc4_perm (snd (snd (arcfour_init_step key key_len counter (ki, si, st))))"
  using assms by (simp add: arcfour_init_step_def Let_def arc4_perm_swap unat_and_255_less)

lemma arcfour_init_fold_perm:
  assumes "\<forall>n \<in> set ns. n < 256" and "arc4_perm (snd (snd s))"
  shows "arc4_perm (snd (snd (fold (arcfour_init_step key key_len) ns s)))"
  using assms
proof (induction ns arbitrary: s)
  case (Cons n ns)
  obtain ki si st where s: "s = (ki, si, st)" by (cases s)
  have "arc4_perm (snd (snd (arcfour_init_step key key_len n s)))"
    unfolding s by (rule arcfour_init_step_perm) (use Cons.prems s in auto)
  then show ?case using Cons by simp
qed simp

lemma arcfour_init_wf: "arc4_wf (arcfour_init key key_len)"
proof -
  have "arc4_perm (snd (snd (fold (arcfour_init_step key key_len) [0..<256]
      (0, 0, map of_nat [0..<256]))))"
    by (rule arcfour_init_fold_perm) (simp_all add: arc4_perm_def)
  then show ?thesis
    by (simp add: arc4_wf_def arcfour_init_def case_prod_beta)
qed

lemma arcfour_byte_wf: "arc4_wf c \<Longrightarrow> arc4_wf (fst (arcfour_byte c))"
  by (simp add: arc4_wf_def arcfour_byte_def Let_def arc4_perm_swap unat_and_255_less)

lemma arcfour_encrypt_wf: "arc4_wf c \<Longrightarrow> arc4_wf (fst (arcfour_encrypt c bs))"
proof (induction bs arbitrary: c)
  case (Cons b bs)
  then show ?case
    using arcfour_byte_wf [OF Cons.prems] by (simp add: case_prod_beta Let_def)
qed simp

section \<open>Stream-cipher interface\<close>

text \<open>What a frame handler needs of the cipher: it works byte by byte, the context advances
  by the number of bytes only, and enciphering twice from the same context is the identity.\<close>

locale stream_cipher =
  fixes enc :: "'c \<Rightarrow> bytes \<Rightarrow> 'c \<times> bytes"
  assumes enc_Nil: "enc c [] = (c, [])"
    and enc_append: "enc c (a @ b) =
      (fst (enc (fst (enc c a)) b), snd (enc c a) @ snd (enc (fst (enc c a)) b))"
    and enc_length: "length (snd (enc c a)) = length a"
    and enc_ctx: "length a = length b \<Longrightarrow> fst (enc c a) = fst (enc c b)"
    and enc_twice: "snd (enc c (snd (enc c a))) = a"
begin

lemma enc_two_parts:
  "snd (enc c (snd (enc c a) @ snd (enc (fst (enc c a)) b))) = a @ b"
proof -
  have "fst (enc c (snd (enc c a))) = fst (enc c a)"
    by (rule enc_ctx) (rule enc_length)
  then show ?thesis
    by (simp add: enc_append enc_twice)
qed

lemma enc_inject:
  assumes "snd (enc c a) = snd (enc c b)"
  shows "a = b"
  using assms enc_twice by metis

end

lemma arcfour_encrypt_append:
  "arcfour_encrypt c (a @ b) =
     (fst (arcfour_encrypt (fst (arcfour_encrypt c a)) b),
      snd (arcfour_encrypt c a) @ snd (arcfour_encrypt (fst (arcfour_encrypt c a)) b))"
  by (induction a arbitrary: c) (simp_all add: case_prod_beta Let_def)

lemma arcfour_encrypt_length [crypto_len]: "length (snd (arcfour_encrypt c a)) = length a"
  by (induction a arbitrary: c) (simp_all add: case_prod_beta Let_def)

lemma arcfour_encrypt_ctx:
  "length a = length b \<Longrightarrow> fst (arcfour_encrypt c a) = fst (arcfour_encrypt c b)"
  by (induction a b arbitrary: c rule: list_induct2) (simp_all add: case_prod_beta Let_def)

lemma arcfour_encrypt_twice: "snd (arcfour_encrypt c (snd (arcfour_encrypt c a))) = a"
  by (induction a arbitrary: c) (simp_all add: case_prod_beta Let_def xor_simps)

interpretation rc4: stream_cipher arcfour_encrypt
  by unfold_locales
    (simp, rule arcfour_encrypt_append, rule arcfour_encrypt_length,
      erule arcfour_encrypt_ctx, rule arcfour_encrypt_twice)

section \<open>Properties\<close>

text \<open>The RC4 context is well formed after \<open>arcfour_init\<close> for every key, and generating
  any number of key-stream bytes keeps it so: the state array is always a permutation of the
  256 byte values and both indices stay below 256, so every array access of
  \<open>arcfour_byte\<close> is inside the array.\<close>

theorem arcfour_context_invariant:
  "arc4_wf (arcfour_init key key_len) \<and>
   arc4_wf (fst (arcfour_encrypt (arcfour_init key key_len) bs))"
  by (simp add: arcfour_init_wf arcfour_encrypt_wf)

end
