(* ===== verification/Crc32.thy ===== *)
theory Crc32
  imports Bytes
begin

text \<open>
  The CRC-32 integrity check value of WEP and TKIP (\<open>crc32_reverseBit\<close>,
  \<open>crc32_init\<close>, \<open>getcrc32\<close> of \<^verbatim>\<open>core/rtw_security.c\<close>), its
  equivalence with the bit-serial definition of the reflected CRC, and the error-detection
  strength that follows.
\<close>

section \<open>The code\<close>

definition CRC32_POLY :: u32 where
  "CRC32_POLY = 0x04c11db7"

definition crc32_reverseBit :: "u8 \<Rightarrow> u8" where
  "crc32_reverseBit data =
     (push_bit 7 data AND 0x80) OR (push_bit 5 data AND 0x40) OR (push_bit 3 data AND 0x20) OR
     (push_bit 1 data AND 0x10) OR (drop_bit 1 data AND 0x08) OR (drop_bit 3 data AND 0x04) OR
     (drop_bit 5 data AND 0x02) OR (drop_bit 7 data AND 0x01)"

text \<open>The inner loop of \<open>crc32_init\<close>: \<open>j\<close> counts down from 8.\<close>

fun crc32_init_inner :: "nat \<Rightarrow> u32 \<Rightarrow> u32" where
  "crc32_init_inner 0 c = c"
| "crc32_init_inner (Suc j) c =
     crc32_init_inner j
       (if c AND 0x80000000 \<noteq> 0 then push_bit 1 c XOR CRC32_POLY else push_bit 1 c)"

text \<open>One table entry. \<open>p\<close> points at the bytes of \<open>c\<close> and \<open>p1\<close> at those of the entry;
  on the little-endian machine of the model byte 0 is the low one.\<close>

definition crc32_entry :: "u8 \<Rightarrow> u32" where
  "crc32_entry i =
     (let k = crc32_reverseBit i;
          c = crc32_init_inner 8 (push_bit 24 (ucast k));
          p = le32_bytes c
      in GETU32 (crc32_reverseBit (p ! 0)) (crc32_reverseBit (p ! 1))
                (crc32_reverseBit (p ! 2)) (crc32_reverseBit (p ! 3)))"

definition crc32_table :: "u32 list" where
  "crc32_table = map (\<lambda>i. crc32_entry (of_nat i)) [0..<256]"

definition crc32_byte :: "u8 \<Rightarrow> u32 \<Rightarrow> u32" where
  "crc32_byte b crc = crc32_table ! unat ((crc XOR ucast b) AND 0xff) XOR drop_bit 8 crc"

text \<open>\<open>getcrc32\<close> returns the complement in little-endian order; the callers store it with
  \<open>*((__le32 *)crc) = getcrc32(\<dots>)\<close>, so the model returns the four bytes.\<close>

definition getcrc32 :: "bytes \<Rightarrow> bytes" where
  "getcrc32 buf = le32_bytes (NOT (fold crc32_byte buf 0xffffffff))"

lemma length_getcrc32 [simp, crypto_len]: "length (getcrc32 buf) = 4"
  by (simp add: getcrc32_def)

section \<open>The reflected bit-serial CRC as the reference\<close>

definition crc_step :: "u32 \<Rightarrow> u32" where
  "crc_step s = (if bit s 0 then drop_bit 1 s XOR 0xedb88320 else drop_bit 1 s)"

definition crc_ref_byte :: "u8 \<Rightarrow> u32 \<Rightarrow> u32" where
  "crc_ref_byte b s = (crc_step ^^ 8) (s XOR ucast b)"

definition crc_ref :: "bytes \<Rightarrow> u32" where
  "crc_ref buf = NOT (fold crc_ref_byte buf 0xffffffff)"

lemma crc_step_xor: "crc_step (a XOR b) = crc_step a XOR crc_step b"
proof -
  have "drop_bit 1 (a XOR b) = drop_bit 1 a XOR drop_bit 1 b"
    by (rule bit_word_eqI) (simp add: bit_simps)
  then show ?thesis
    by (simp add: crc_step_def bit_simps xor.assoc xor.commute xor.left_commute)
qed

lemma crc_step_pow_xor: "(crc_step ^^ n) (a XOR b) = (crc_step ^^ n) a XOR (crc_step ^^ n) b"
  by (induction n) (simp_all add: crc_step_xor)

lemma crc_step_shift:
  assumes "\<forall>i < n. \<not> bit s i"
  shows "(crc_step ^^ n) s = drop_bit n s"
  using assms
proof (induction n)
  case (Suc n)
  then have "(crc_step ^^ Suc n) s = crc_step (drop_bit n s)" by simp
  also have "\<dots> = drop_bit 1 (drop_bit n s)"
    using Suc.prems by (simp add: crc_step_def bit_simps)
  finally show ?case by (simp add: drop_bit_drop_bit)
qed simp

text \<open>The polynomial has its top bit set, so a step can be undone.\<close>

definition crc_unstep :: "u32 \<Rightarrow> u32" where
  "crc_unstep t = (if bit t 31 then push_bit 1 (t XOR 0xedb88320) OR 1 else push_bit 1 t)"

lemma crc_step_bit31: "bit (crc_step s) 31 \<longleftrightarrow> bit s 0"
proof -
  have "\<not> bit (drop_bit 1 s) 31" by (auto simp: bit_simps dest: bit_imp_le_length)
  then show ?thesis by (simp add: crc_step_def bit_xor_iff)
qed

lemma crc_unstep_step: "crc_unstep (crc_step s) = s"
proof (rule bit_word_eqI)
  fix n assume n: "n < LENGTH(32)"
  show "bit (crc_unstep (crc_step s)) n = bit s n"
  proof (cases "bit s 0")
    case True
    then have "crc_unstep (crc_step s) = push_bit 1 (drop_bit 1 s) OR 1"
      by (simp only: crc_unstep_def crc_step_bit31) (simp add: crc_step_def xor_simps)
    then show ?thesis using n True
      by (cases n) (simp_all only: bit_or_iff bit_push_bit_iff bit_drop_bit_eq, auto)
  next
    case False
    then have "crc_unstep (crc_step s) = push_bit 1 (drop_bit 1 s)"
      by (simp only: crc_unstep_def crc_step_bit31) (simp add: crc_step_def)
    then show ?thesis using n False
      by (cases n) (simp_all only: bit_or_iff bit_push_bit_iff bit_drop_bit_eq, auto)
  qed
qed

lemma crc_step_inject: "crc_step a = crc_step b \<longleftrightarrow> a = b"
  by (metis crc_unstep_step)

lemma crc_step_pow_inject: "(crc_step ^^ n) a = (crc_step ^^ n) b \<longleftrightarrow> a = b"
  by (induction n) (simp_all add: crc_step_inject)

section \<open>The table-driven code computes the reference\<close>

text \<open>\<open>crc32_init\<close> works most significant bit first between two bit reversals; the reference
  works least significant bit first.\<close>

definition brev32 :: "u32 \<Rightarrow> u32" where
  "brev32 c = GETU32 (crc32_reverseBit (le32_bytes c ! 0)) (crc32_reverseBit (le32_bytes c ! 1))
     (crc32_reverseBit (le32_bytes c ! 2)) (crc32_reverseBit (le32_bytes c ! 3))"

lemma bit_crc32_reverseBit: "n < 8 \<Longrightarrow> bit (crc32_reverseBit b) n = bit b (7 - n)"
  unfolding crc32_reverseBit_def bit_or_iff bit_and_iff bit_push_bit_iff bit_drop_bit_eq
  by (drule less_8_cases) (elim disjE; simp)

lemma bit_brev32:
  assumes "n < 32"
  shows "bit (brev32 c) n = bit c (31 - n)"
proof -
  consider "n < 8" | "8 \<le> n" "n < 16" | "16 \<le> n" "n < 24" | "24 \<le> n"
    by linarith
  then show ?thesis
  proof cases
    case 1
    then have "24 + (7 - n) = 31 - n" "7 - n < 8" by simp_all
    with 1 show ?thesis
      by (simp add: brev32_def bit_GETU32 le32_bytes_def bit_crc32_reverseBit bit_ucast_iff
          bit_drop_bit_eq)
  next
    case 2
    then have "16 + (7 - (n - 8)) = 31 - n" "n - 8 < 8" "15 - n < 8" by simp_all
    with 2 show ?thesis
      by (simp add: brev32_def bit_GETU32 le32_bytes_def bit_crc32_reverseBit bit_ucast_iff
          bit_drop_bit_eq)
  next
    case 3
    then have "8 + (7 - (n - 16)) = 31 - n" "n - 16 < 8" "23 - n < 8" by simp_all
    with 3 show ?thesis
      by (simp add: brev32_def bit_GETU32 le32_bytes_def bit_crc32_reverseBit bit_ucast_iff
          bit_drop_bit_eq)
  next
    case 4
    then have "7 - (n - 24) = 31 - n" "n - 24 < 8" "31 - n < 8" using assms by simp_all
    with 4 show ?thesis
      by (simp add: brev32_def bit_GETU32 le32_bytes_def bit_crc32_reverseBit bit_ucast_iff
          bit_drop_bit_eq)
  qed
qed

lemma brev32_xor: "brev32 (a XOR b) = brev32 a XOR brev32 b"
  by (rule bit_word_eqI) (simp add: bit_brev32 bit_xor_iff)

lemma brev32_shift: "brev32 (push_bit 1 c) = drop_bit 1 (brev32 c)"
proof (rule bit_word_eqI)
  fix n assume "n < LENGTH(32)"
  then have n: "n < 32" by simp
  show "bit (brev32 (push_bit 1 c)) n = bit (drop_bit 1 (brev32 c)) n"
  proof (cases "n = 31")
    case True
    then show ?thesis
      by (simp only: bit_brev32 bit_drop_bit_eq bit_push_bit_iff) (auto dest: bit_imp_le_length)
  next
    case False
    with n have "Suc n < 32" "31 - n = Suc (31 - Suc n)" "31 - Suc n < 31" by auto
    then show ?thesis
      by (simp only: bit_brev32 n bit_drop_bit_eq bit_push_bit_iff o_def plus_1_eq_Suc) simp
  qed
qed

lemma brev32_poly: "brev32 CRC32_POLY = 0xedb88320"
  by (simp add: brev32_def CRC32_POLY_def le32_bytes_def crc32_reverseBit_def GETU32_def)

lemma and_msb_iff: "(c :: u32) AND 0x80000000 \<noteq> 0 \<longleftrightarrow> bit c 31"
proof -
  have "(0x80000000 :: u32) = push_bit 31 1" by simp
  then show ?thesis
    by (simp only: and_exp_eq_0_iff_not_bit push_bit_of_1) simp
qed

lemma brev32_step:
  "brev32 (if c AND 0x80000000 \<noteq> 0 then push_bit 1 c XOR CRC32_POLY else push_bit 1 c)
     = crc_step (brev32 c)"
  by (simp only: and_msb_iff crc_step_def if_distrib [of brev32] brev32_xor brev32_shift
      brev32_poly bit_brev32) simp

lemma brev32_inner: "brev32 (crc32_init_inner n c) = (crc_step ^^ n) (brev32 c)"
  by (induction n arbitrary: c) (simp_all only: crc32_init_inner.simps brev32_step funpow_Suc_right
      o_def funpow_0)

lemma crc32_entry_eq: "crc32_entry i = (crc_step ^^ 8) (ucast i)"
proof -
  have "brev32 (push_bit 24 (ucast (crc32_reverseBit i))) = ucast i"
  proof (rule bit_word_eqI)
    fix n assume "n < LENGTH(32)"
    then have "31 - n - 24 = 7 - n" "n \<le> 7 \<Longrightarrow> 7 - (7 - n) = n" "n < 32" by simp_all
    moreover have "bit i n \<Longrightarrow> 7 - (7 - n) = n"
      using bit_imp_le_length [of i n] by simp
    ultimately show "bit (brev32 (push_bit 24 (ucast (crc32_reverseBit i)))) n = bit (ucast i :: u32) n"
      by (auto simp: bit_brev32 bit_push_bit_iff bit_ucast_iff bit_crc32_reverseBit
          dest: bit_imp_le_length)
  qed
  then show ?thesis
    by (simp only: crc32_entry_def Let_def flip: brev32_def) (simp only: brev32_inner)
qed

lemma crc32_table_nth: "crc32_table ! unat (w AND 0xff) = (crc_step ^^ 8) (w AND 0xff)"
proof -
  have "crc32_table ! unat (w AND 0xff) = crc32_entry (of_nat (unat (w AND 0xff)))"
    using unat_and_255_less [of w] by (simp add: crc32_table_def)
  also have "\<dots> = (crc_step ^^ 8) (ucast (of_nat (unat (w AND 0xff)) :: u8))"
    by (rule crc32_entry_eq)
  also have "ucast (of_nat (unat (w AND 0xff)) :: u8) = w AND 0xff"
  proof -
    have "(of_nat (unat (w AND 0xff)) :: u8) = ucast (w AND 0xff)"
      by simp
    moreover have "ucast (ucast (w AND 0xff) :: u8) = w AND 0xff"
      by (rule bit_word_eqI) (auto simp: bit_ucast_iff)
    ultimately show ?thesis by simp
  qed
  finally show ?thesis .
qed

lemma crc32_byte_eq: "crc32_byte b s = crc_ref_byte b s"
proof -
  let ?w = "s XOR ucast b"
  have split: "?w = (?w AND 0xff) XOR (?w AND NOT 0xff)"
    by (rule bit_word_eqI) (simp only: bit_xor_iff bit_and_255 bit_and_not_255, auto)
  have high: "(crc_step ^^ 8) (?w AND NOT 0xff) = drop_bit 8 s"
  proof -
    have "(crc_step ^^ 8) (?w AND NOT 0xff) = drop_bit 8 (?w AND NOT 0xff)"
      by (rule crc_step_shift) simp
    also have "\<dots> = drop_bit 8 s"
      by (rule bit_word_eqI)
        (simp only: bit_drop_bit_eq o_def bit_and_not_255 bit_xor_iff bit_ucast_iff,
          auto dest: bit_imp_le_length)
    finally show ?thesis .
  qed
  have "crc_ref_byte b s = (crc_step ^^ 8) ((?w AND 0xff) XOR (?w AND NOT 0xff))"
    using split by (simp add: crc_ref_byte_def)
  also have "\<dots> = crc32_table ! unat (?w AND 0xff) XOR drop_bit 8 s"
    by (simp only: crc_step_pow_xor high crc32_table_nth)
  finally show ?thesis by (simp add: crc32_byte_def)
qed

lemma crc32_byte_fold: "fold crc32_byte buf s = fold crc_ref_byte buf s"
  by (induction buf arbitrary: s) (simp_all add: crc32_byte_eq)

section \<open>Error detection\<close>

lemma crc_ref_byte_inject_state: "crc_ref_byte b s = crc_ref_byte b t \<longleftrightarrow> s = t"
  by (simp add: crc_ref_byte_def crc_step_pow_inject xor_simps)

lemma crc_ref_fold_inject_state: "fold crc_ref_byte bs s = fold crc_ref_byte bs t \<longleftrightarrow> s = t"
  by (induction bs arbitrary: s t) (simp_all add: crc_ref_byte_inject_state)

text \<open>Up to four bytes, the register after the bytes determines them: the bytes enter the
  register at disjoint positions before they are shifted out.\<close>

fun word_of_le :: "bytes \<Rightarrow> u32" where
  "word_of_le [] = 0"
| "word_of_le (b # bs) = ucast b XOR push_bit 8 (word_of_le bs)"

lemma crc_ref_byte_push:
  "crc_ref_byte b (s XOR push_bit 8 w) = crc_ref_byte b s XOR drop_bit 8 (push_bit 8 w)"
proof -
  have "s XOR push_bit 8 w XOR ucast b = (s XOR ucast b) XOR push_bit 8 w"
    by (simp add: ac_simps)
  moreover have "(crc_step ^^ 8) (push_bit 8 w) = drop_bit 8 (push_bit 8 w)"
    by (rule crc_step_shift) (simp add: bit_simps)
  ultimately show ?thesis
    by (simp only: crc_ref_byte_def crc_step_pow_xor ac_simps)
qed

lemma bit_word_of_le:
  "bit (word_of_le bs) n \<longleftrightarrow> n < 32 \<and> n div 8 < length bs \<and> bit (bs ! (n div 8)) (n mod 8)"
proof (induction bs arbitrary: n)
  case (Cons b bs)
  show ?case
  proof (cases "n < 8")
    case True
    then show ?thesis by (simp add: bit_xor_iff bit_push_bit_iff bit_ucast_iff)
  next
    case False
    then have "n div 8 = Suc ((n - 8) div 8)" "(n - 8) mod 8 = n mod 8"
      by (simp_all add: le_div_geq le_mod_geq)
    with False Cons [of "n - 8"] show ?thesis
      by (auto simp: bit_xor_iff bit_push_bit_iff bit_ucast_iff dest: bit_imp_le_length)
  qed
qed simp

lemma word_of_le_inject:
  assumes "length a = length b" and "length b \<le> 4" and "word_of_le a = word_of_le b"
  shows "a = b"
proof (rule nth_equalityI)
  fix i assume i: "i < length a"
  show "a ! i = b ! i"
  proof (rule bit_word_eqI)
    fix n assume "n < LENGTH(8)"
    then have n: "n < 8" by simp
    have *: "(8 * i + n) div 8 = i" "(8 * i + n) mod 8 = n" "8 * i + n < 32"
      using n i assms(1,2) by simp_all
    have "bit (word_of_le a) (8 * i + n) = bit (word_of_le b) (8 * i + n)"
      using assms(3) by simp
    then show "bit (a ! i) n = bit (b ! i) n"
      using i assms(1) * by (simp only: bit_word_of_le simp_thms)
  qed
qed (rule assms(1))

lemma drop_push_word_of_le:
  "length bs < 4 \<Longrightarrow> drop_bit 8 (push_bit 8 (word_of_le bs)) = word_of_le bs"
proof (rule bit_word_eqI)
  fix n assume "length bs < 4" "n < LENGTH(32)"
  then show "bit (drop_bit 8 (push_bit 8 (word_of_le bs))) n = bit (word_of_le bs) n"
    by (auto simp: bit_drop_bit_eq bit_push_bit_iff bit_word_of_le)
qed

lemma crc_step_funpow_add: "(crc_step ^^ (8 + n)) s = (crc_step ^^ n) ((crc_step ^^ 8) s)"
  by (simp only: add.commute [of 8 n] funpow_add o_apply)

lemma crc_ref_fold_word:
  "length bs \<le> 4 \<Longrightarrow> fold crc_ref_byte bs s = (crc_step ^^ (8 * length bs)) (s XOR word_of_le bs)"
proof (induction bs arbitrary: s)
  case (Cons b bs)
  have "(crc_step ^^ 8) (s XOR word_of_le (b # bs))
      = crc_ref_byte b (s XOR push_bit 8 (word_of_le bs))"
    by (simp only: crc_ref_byte_def word_of_le.simps) (simp only: ac_simps)
  also have "\<dots> = crc_ref_byte b s XOR word_of_le bs"
    using Cons.prems by (simp only: crc_ref_byte_push) (simp add: drop_push_word_of_le)
  finally have *: "(crc_step ^^ 8) (s XOR word_of_le (b # bs)) = crc_ref_byte b s XOR word_of_le bs" .
  have "fold crc_ref_byte (b # bs) s = (crc_step ^^ (8 * length bs)) (crc_ref_byte b s XOR word_of_le bs)"
    using Cons by simp
  also have "\<dots> = (crc_step ^^ (8 + 8 * length bs)) (s XOR word_of_le (b # bs))"
    by (simp only: crc_step_funpow_add *)
  finally show ?case by simp
qed simp

lemma getcrc32_eq_iff: "getcrc32 a = getcrc32 b \<longleftrightarrow> fold crc_ref_byte a 0xffffffff = fold crc_ref_byte b 0xffffffff"
proof
  assume "getcrc32 a = getcrc32 b"
  then have "rev (getcrc32 a) = rev (getcrc32 b)" by simp
  then have "PUTU32 (NOT (fold crc32_byte a 0xffffffff)) = PUTU32 (NOT (fold crc32_byte b 0xffffffff))"
    by (simp add: getcrc32_def le32_bytes_def PUTU32_def)
  then have "NOT (fold crc32_byte a 0xffffffff) = NOT (fold crc32_byte b 0xffffffff)"
    using GETU32_PUTU32 GETU32_cases PUTU32_GETU32 by metis
  then have "NOT (NOT (fold crc32_byte a 0xffffffff)) = NOT (NOT (fold crc32_byte b 0xffffffff))"
    by (simp only:)
  then show "fold crc_ref_byte a 0xffffffff = fold crc_ref_byte b 0xffffffff"
    by (simp only: crc32_byte_fold bit.double_compl)
qed (simp add: getcrc32_def crc32_byte_fold)

lemma crc_window:
  assumes "length a = length b" and "length b \<le> 4"
  shows "fold crc_ref_byte (p @ a @ s) i = fold crc_ref_byte (p @ b @ s) i \<longleftrightarrow> a = b"
proof -
  let ?s = "fold crc_ref_byte p i"
  have "fold crc_ref_byte (p @ a @ s) i = fold crc_ref_byte (p @ b @ s) i \<longleftrightarrow>
      fold crc_ref_byte a ?s = fold crc_ref_byte b ?s"
    by (simp add: crc_ref_fold_inject_state)
  also have "\<dots> \<longleftrightarrow> word_of_le a = word_of_le b"
    using assms by (simp add: crc_ref_fold_word crc_step_pow_inject xor_simps)
  also have "\<dots> \<longleftrightarrow> a = b"
    using assms word_of_le_inject by auto
  finally show ?thesis .
qed

lemma word_of_le_le32_bytes: "word_of_le (le32_bytes v) = v"
proof (rule bit_word_eqI)
  fix n assume "n < LENGTH(32)"
  then have n: "n < 32" by simp
  then consider "n < 8" | "8 \<le> n" "n < 16" | "16 \<le> n" "n < 24" | "24 \<le> n" by linarith
  then show "bit (word_of_le (le32_bytes v)) n = bit v n"
    using n
    by cases (auto simp: le32_bytes_def bit_xor_iff bit_push_bit_iff bit_ucast_iff bit_drop_bit_eq
        dest: bit_imp_le_length)
qed

text \<open>A message followed by its check value leaves a fixed residue in the register.\<close>

lemma crc_residue:
  assumes "length icv = 4"
  shows "fold crc_ref_byte (m @ icv) 0xffffffff = (crc_step ^^ 32) (- 1) \<longleftrightarrow> icv = getcrc32 m"
proof -
  let ?f = "fold crc_ref_byte m 0xffffffff"
  have "fold crc_ref_byte (m @ icv) 0xffffffff = (crc_step ^^ 32) (?f XOR word_of_le icv)"
    using assms by (simp add: crc_ref_fold_word)
  then have "fold crc_ref_byte (m @ icv) 0xffffffff = (crc_step ^^ 32) (- 1)
      \<longleftrightarrow> ?f XOR word_of_le icv = - 1"
    by (simp only: crc_step_pow_inject)
  also have "\<dots> \<longleftrightarrow> word_of_le icv = NOT ?f"
  proof -
    have "?f XOR NOT ?f = - 1" by simp
    then show ?thesis by (metis xor_left_cancel_iff)
  qed
  also have "\<dots> \<longleftrightarrow> word_of_le icv = word_of_le (le32_bytes (NOT ?f))"
    by (simp only: word_of_le_le32_bytes)
  also have "\<dots> \<longleftrightarrow> icv = getcrc32 m"
    using assms word_of_le_inject [of icv "getcrc32 m"]
    by (auto simp: getcrc32_def crc32_byte_fold)
  finally show ?thesis .
qed

section \<open>Properties\<close>

text \<open>C13. The table-driven \<open>getcrc32\<close>, with the table \<open>crc32_init\<close> builds between two bit
  reversals, computes the bit-serial reflected CRC-32 (polynomial 0xEDB88320, preset to all
  ones, complemented, sent low byte first) of every message.\<close>

theorem getcrc32_is_crc32: "getcrc32 buf = le32_bytes (crc_ref buf)"
  by (simp add: getcrc32_def crc_ref_def crc32_byte_fold)

text \<open>The integrity check value detects every change confined to four consecutive bytes,
  wherever they stand in the message: two messages that agree before and after such a window
  have the same check value only if they are equal.\<close>

theorem getcrc32_detects_burst:
  assumes "length a = length b" and "length b \<le> 4"
  shows "getcrc32 (p @ a @ s) = getcrc32 (p @ b @ s) \<longleftrightarrow> a = b"
  using crc_window [OF assms] by (simp only: getcrc32_eq_iff)

theorem getcrc32_detects_burst_witness:
  "getcrc32 ([1, 2] @ [3, 4, 5] @ [6]) \<noteq> getcrc32 ([1, 2] @ [3, 7, 5] @ [6])"
  using getcrc32_detects_burst [of "[3, 4, 5]" "[3, 7, 5]" "[1, 2]" "[6]"] by simp

text \<open>The check value of the nine bytes \<^verbatim>\<open>123456789\<close> is 0xCBF43926.\<close>

lemma crc_step_pow8: "(crc_step ^^ 8) s =
    crc_step (crc_step (crc_step (crc_step (crc_step (crc_step (crc_step (crc_step s)))))))"
  by (simp add: eval_nat_numeral)

lemma crc_ref_check_value:
  "crc_ref [0x31, 0x32, 0x33, 0x34, 0x35, 0x36, 0x37, 0x38, 0x39] = 0xcbf43926"
  by (simp add: crc_ref_def crc_ref_byte_def crc_step_pow8 crc_step_def)

end
