(* ===== verification/Michael.thy ===== *)
theory Michael
  imports Bytes
begin

text \<open>
  The Michael message integrity code of TKIP (\<open>secmicgetuint32\<close> to
  \<open>rtw_seccalctkipmic\<close> of \<^verbatim>\<open>core/rtw_security.c\<close>): the byte-wise
  accumulator of the code, its agreement with the word-wise definition of Michael, and the
  recovery of the key from a message and its code.
\<close>

section \<open>The code\<close>

record mic_data =
  K0 :: u32
  K1 :: u32
  mL :: u32
  mR :: u32
  mM :: u32
  nBytesInM :: nat

definition secmicgetuint32 :: "bytes \<Rightarrow> u32" where
  "secmicgetuint32 p = fold (\<lambda>i res. res OR push_bit (8 * i) (ucast (p ! i))) [0..<4] 0"

text \<open>The four bytes the loop of \<open>secmicputuint32\<close> stores.\<close>

fun secmicput_loop :: "nat \<Rightarrow> u32 \<Rightarrow> bytes" where
  "secmicput_loop 0 val = []"
| "secmicput_loop (Suc n) val = ucast (val AND 0xff) # secmicput_loop n (drop_bit 8 val)"

definition secmicputuint32 :: "u32 \<Rightarrow> bytes" where
  "secmicputuint32 val = secmicput_loop 4 val"

definition secmicclear :: "mic_data \<Rightarrow> mic_data" where
  "secmicclear m = m\<lparr>mL := K0 m, mR := K1 m, nBytesInM := 0, mM := 0\<rparr>"

definition rtw_secmicsetkey :: "mic_data \<Rightarrow> bytes \<Rightarrow> mic_data" where
  "rtw_secmicsetkey m key =
     secmicclear (m\<lparr>K0 := secmicgetuint32 key, K1 := secmicgetuint32 (drop 4 key)\<rparr>)"

definition ROL32 :: "u32 \<Rightarrow> nat \<Rightarrow> u32" where
  "ROL32 A n = push_bit n A OR (drop_bit (32 - n) A AND (push_bit n 1 - 1))"

definition ROR32 :: "u32 \<Rightarrow> nat \<Rightarrow> u32" where
  "ROR32 A n = ROL32 A (32 - n)"

definition mic_swap :: "u32 \<Rightarrow> u32" where
  "mic_swap l = drop_bit 8 (l AND 0xff00ff00) OR push_bit 8 (l AND 0x00ff00ff)"

definition rtw_secmicappendbyte :: "u8 \<Rightarrow> mic_data \<Rightarrow> mic_data" where
  "rtw_secmicappendbyte b m =
     (let m = m\<lparr>mM := mM m OR push_bit (8 * nBytesInM m) (ucast b)\<rparr>;
          m = m\<lparr>nBytesInM := nBytesInM m + 1\<rparr>
      in if 4 \<le> nBytesInM m
         then let m = m\<lparr>mL := mL m XOR mM m\<rparr>;
                  m = m\<lparr>mR := mR m XOR ROL32 (mL m) 17\<rparr>;
                  m = m\<lparr>mL := mL m + mR m\<rparr>;
                  m = m\<lparr>mR := mR m XOR mic_swap (mL m)\<rparr>;
                  m = m\<lparr>mL := mL m + mR m\<rparr>;
                  m = m\<lparr>mR := mR m XOR ROL32 (mL m) 3\<rparr>;
                  m = m\<lparr>mL := mL m + mR m\<rparr>;
                  m = m\<lparr>mR := mR m XOR ROR32 (mL m) 2\<rparr>;
                  m = m\<lparr>mL := mL m + mR m\<rparr>
              in m\<lparr>mM := 0, nBytesInM := 0\<rparr>
         else m)"

definition rtw_secmicappend :: "bytes \<Rightarrow> mic_data \<Rightarrow> mic_data" where
  "rtw_secmicappend src m = fold rtw_secmicappendbyte src m"

text \<open>The padding loop \<open>while (pmicdata->nBytesInM != 0)\<close>.\<close>

lemma secmicappendbyte_count:
  "nBytesInM (rtw_secmicappendbyte b m) = (if 3 \<le> nBytesInM m then 0 else nBytesInM m + 1)"
  by (simp add: rtw_secmicappendbyte_def Let_def)

function secmicpad :: "mic_data \<Rightarrow> mic_data" where
  "secmicpad m = (if nBytesInM m \<noteq> 0 then secmicpad (rtw_secmicappendbyte 0 m) else m)"
  by pat_completeness auto
termination
  by (relation "measure (\<lambda>m. if nBytesInM m = 0 then 0
        else if nBytesInM m < 4 then 4 - nBytesInM m else 1)")
    (auto simp: secmicappendbyte_count)

declare secmicpad.simps [simp del]

definition rtw_secgetmic :: "mic_data \<Rightarrow> bytes \<times> mic_data" where
  "rtw_secgetmic m =
     (let m = rtw_secmicappendbyte 0x5a m;
          m = rtw_secmicappendbyte 0 m;
          m = rtw_secmicappendbyte 0 m;
          m = rtw_secmicappendbyte 0 m;
          m = rtw_secmicappendbyte 0 m;
          m = secmicpad m
      in (secmicputuint32 (mL m) @ secmicputuint32 (mR m), secmicclear m))"

definition rtw_seccalctkipmic :: "bytes \<Rightarrow> bytes \<Rightarrow> bytes \<Rightarrow> u8 \<Rightarrow> bytes" where
  "rtw_seccalctkipmic key header data pri =
     (let m = rtw_secmicsetkey \<lparr>K0 = 0, K1 = 0, mL = 0, mR = 0, mM = 0, nBytesInM = 0\<rparr> key;
          priority = [pri, 0, 0, 0];
          m = (if header ! 1 AND 1 \<noteq> 0
               then let m = rtw_secmicappend (take 6 (drop 16 header)) m
                    in if header ! 1 AND 2 \<noteq> 0
                       then rtw_secmicappend (take 6 (drop 24 header)) m
                       else rtw_secmicappend (take 6 (drop 10 header)) m
               else let m = rtw_secmicappend (take 6 (drop 4 header)) m
                    in if header ! 1 AND 2 \<noteq> 0
                       then rtw_secmicappend (take 6 (drop 16 header)) m
                       else rtw_secmicappend (take 6 (drop 10 header)) m);
          m = rtw_secmicappend priority m;
          m = rtw_secmicappend data m
      in fst (rtw_secgetmic m))"

section \<open>Michael word by word\<close>

definition michael_block :: "u32 \<times> u32 \<Rightarrow> u32 \<Rightarrow> u32 \<times> u32" where
  "michael_block = (\<lambda>(l, r) w.
     let l = l XOR w;
         r = r XOR ROL32 l 17; l = l + r;
         r = r XOR mic_swap l; l = l + r;
         r = r XOR ROL32 l 3; l = l + r;
         r = r XOR ROR32 l 2; l = l + r
     in (l, r))"

definition michael_unblock :: "u32 \<times> u32 \<Rightarrow> u32 \<Rightarrow> u32 \<times> u32" where
  "michael_unblock = (\<lambda>(l, r) w.
     let l = l - r; r = r XOR ROR32 l 2;
         l = l - r; r = r XOR ROL32 l 3;
         l = l - r; r = r XOR mic_swap l;
         l = l - r; r = r XOR ROL32 l 17
     in (l XOR w, r))"

fun michael_words :: "u32 \<times> u32 \<Rightarrow> bytes \<Rightarrow> u32 \<times> u32" where
  "michael_words s (a # b # c # d # bs) = michael_words (michael_block s (GETU32 d c b a)) bs"
| "michael_words s _ = s"

text \<open>Padding: the byte 0x5a, then four to seven zero bytes up to a multiple of four.\<close>

definition michael_pad :: "bytes \<Rightarrow> bytes" where
  "michael_pad msg = msg @ 0x5a # replicate (7 - length msg mod 4) 0"

definition michael_addresses :: "bytes \<Rightarrow> bytes" where
  "michael_addresses header =
     (case (header ! 1 AND 1 \<noteq> 0, header ! 1 AND 2 \<noteq> 0) of
        (True, True) \<Rightarrow> take 6 (drop 16 header) @ take 6 (drop 24 header)
      | (True, False) \<Rightarrow> take 6 (drop 16 header) @ take 6 (drop 10 header)
      | (False, True) \<Rightarrow> take 6 (drop 4 header) @ take 6 (drop 16 header)
      | (False, False) \<Rightarrow> take 6 (drop 4 header) @ take 6 (drop 10 header))"

definition michael_ref :: "bytes \<Rightarrow> bytes \<Rightarrow> bytes" where
  "michael_ref key msg =
     (let (l, r) = michael_words (secmicgetuint32 key, secmicgetuint32 (drop 4 key))
                     (michael_pad msg)
      in le32_bytes l @ le32_bytes r)"

lemma michael_unblock_block: "michael_unblock (michael_block s w) w = s"
  by (cases s) (simp add: michael_block_def michael_unblock_def Let_def xor_simps)

lemma michael_words_inject_state: "michael_words s bs = michael_words t bs \<longleftrightarrow> s = t"
proof (induction s bs arbitrary: t rule: michael_words.induct)
  case (1 s a b c d bs)
  then show ?case by simp (metis michael_unblock_block)
qed simp_all

section \<open>The accumulator computes Michael\<close>

lemma secmicgetuint32_GETU32: "secmicgetuint32 (a # b # c # d # bs) = GETU32 d c b a"
proof -
  have "[0..<4] = [0, 1, 2, 3]" by (simp add: upt_rec)
  then show ?thesis
    by (intro bit_word_eqI)
      (auto simp: secmicgetuint32_def bit_GETU32 bit_or_iff bit_push_bit_iff bit_ucast_iff
        dest: bit_imp_le_length)
qed

lemma le32_bytes_PUTU32: "le32_bytes w = rev (PUTU32 w)"
  by (simp add: le32_bytes_def PUTU32_def)

lemma ucast_and_255: "ucast (w AND 0xff :: u32) = (ucast w :: u8)"
  by (rule bit_word_eqI) (auto simp: bit_ucast_iff)

lemma secmicputuint32_le32: "secmicputuint32 w = le32_bytes w"
  by (simp add: secmicputuint32_def le32_bytes_def numeral_eq_Suc ucast_and_255
      drop_bit_drop_bit)

lemma secmicappend_four:
  assumes "nBytesInM m = 0" and "mM m = 0"
  shows "fold rtw_secmicappendbyte [a, b, c, d] m =
    (case michael_block (mL m, mR m) (GETU32 d c b a) of (l, r) \<Rightarrow> m\<lparr>mL := l, mR := r\<rparr>)"
proof -
  have "secmicgetuint32 [a, b, c, d] = GETU32 d c b a" by (rule secmicgetuint32_GETU32)
  moreover have "[0..<4] = [0, 1, 2, 3]" by (simp add: upt_rec)
  ultimately have w: "((ucast a OR push_bit 8 (ucast b)) OR push_bit 16 (ucast c))
      OR push_bit 24 (ucast d) = GETU32 d c b a"
    by (simp add: secmicgetuint32_def)
  from assms obtain k0 k1 l r where m:
      "m = \<lparr>K0 = k0, K1 = k1, mL = l, mR = r, mM = 0, nBytesInM = 0\<rparr>"
    by (cases m) simp
  show ?thesis
    unfolding m
    by (simp add: rtw_secmicappendbyte_def Let_def michael_block_def w)
qed

lemma secmicappend_words:
  assumes "nBytesInM m = 0" and "mM m = 0" and "length bs mod 4 = 0"
  shows "fold rtw_secmicappendbyte bs m =
    (case michael_words (mL m, mR m) bs of (l, r) \<Rightarrow> m\<lparr>mL := l, mR := r\<rparr>)"
  using assms
proof (induction "(mL m, mR m)" bs arbitrary: m rule: michael_words.induct)
  case (1 a b c d bs)
  obtain l r where lr: "michael_block (mL m, mR m) (GETU32 d c b a) = (l, r)"
    by (cases "michael_block (mL m, mR m) (GETU32 d c b a)")
  have "fold rtw_secmicappendbyte (a # b # c # d # bs) m =
      fold rtw_secmicappendbyte bs (fold rtw_secmicappendbyte [a, b, c, d] m)"
    by simp
  also have "\<dots> = fold rtw_secmicappendbyte bs (m\<lparr>mL := l, mR := r\<rparr>)"
    using 1 by (simp only: secmicappend_four lr prod.case)
  also have "\<dots> = (case michael_words (l, r) bs of (l, r) \<Rightarrow> m\<lparr>mL := l, mR := r\<rparr>)"
    using 1 lr by (simp add: case_prod_beta)
  finally show ?case using lr by simp
qed (simp_all)

lemma secmicappend_count:
  "nBytesInM m < 4 \<Longrightarrow> nBytesInM (fold rtw_secmicappendbyte bs m) = (nBytesInM m + length bs) mod 4"
proof (induction bs arbitrary: m)
  case (Cons b bs)
  then have "nBytesInM (rtw_secmicappendbyte b m) < 4"
    by (auto simp: secmicappendbyte_count)
  with Cons have "nBytesInM (fold rtw_secmicappendbyte (b # bs) m)
      = (nBytesInM (rtw_secmicappendbyte b m) + length bs) mod 4"
    by simp
  also have "\<dots> = (nBytesInM m + length (b # bs)) mod 4"
    using Cons.prems by (cases "nBytesInM m = 3") (auto simp: secmicappendbyte_count mod_Suc_eq)
  finally show ?case .
qed simp

lemma secmicpad_zeros:
  "nBytesInM m < 4 \<Longrightarrow> secmicpad m = fold rtw_secmicappendbyte (replicate ((4 - nBytesInM m) mod 4) 0) m"
proof (induction m rule: secmicpad.induct)
  case (1 m)
  show ?case
  proof (cases "nBytesInM m = 0")
    case False
    let ?m = "rtw_secmicappendbyte 0 m" and ?k = "(4 - nBytesInM m) mod 4"
    have k: "?k = Suc ((4 - nBytesInM ?m) mod 4)" and small: "nBytesInM ?m < 4"
      using "1.prems" False by (auto simp: secmicappendbyte_count)
    have "secmicpad m = secmicpad ?m"
      using False by (simp add: secmicpad.simps [of m])
    also have "\<dots> = fold rtw_secmicappendbyte (replicate ((4 - nBytesInM ?m) mod 4) 0) ?m"
      using False small by (rule "1.IH")
    finally show ?thesis by (simp only: k replicate_Suc fold_simps)
  qed (simp add: secmicpad.simps [of m])
qed

lemma michael_pad_length: "length (michael_pad msg) mod 4 = 0"
proof -
  have "(length msg + Suc (7 - length msg mod 4)) mod 4 = 0" by presburger
  then show ?thesis by (simp add: michael_pad_def)
qed

text \<open>From a cleared accumulator, appending a message and finishing gives the word-wise value.\<close>

lemma secgetmic_michael:
  assumes "nBytesInM m = 0" and "mM m = 0"
  shows "fst (rtw_secgetmic (fold rtw_secmicappendbyte msg m)) =
    (case michael_words (mL m, mR m) (michael_pad msg) of (l, r) \<Rightarrow> le32_bytes l @ le32_bytes r)"
proof -
  let ?body = "msg @ [0x5a, 0, 0, 0, 0]"
  let ?f = "fold rtw_secmicappendbyte ?body m"
  have count: "nBytesInM ?f = (length msg + 5) mod 4"
    using secmicappend_count [of m ?body] assms by (simp add: add.commute)
  have pad: "michael_pad msg = ?body @ replicate ((4 - (length msg + 5) mod 4) mod 4) 0"
  proof -
    have "7 - length msg mod 4 = 4 + (4 - (length msg + 5) mod 4) mod 4"
    proof -
      consider "length msg mod 4 = 0" | "length msg mod 4 = 1" | "length msg mod 4 = 2"
        | "length msg mod 4 = 3" by linarith
      moreover have "(length msg + 5) mod 4 = (length msg mod 4 + 1) mod 4" by arith
      ultimately show ?thesis by cases (simp_all only:, simp_all)
    qed
    moreover have "replicate 4 (0 :: u8) = [0, 0, 0, 0]" by (simp add: eval_nat_numeral)
    ultimately show ?thesis
      by (simp only: michael_pad_def replicate_add append_assoc append_Cons append_Nil)
  qed
  have "fst (rtw_secgetmic (fold rtw_secmicappendbyte msg m)) =
      le32_bytes (mL (secmicpad ?f)) @ le32_bytes (mR (secmicpad ?f))"
    by (simp add: rtw_secgetmic_def Let_def secmicputuint32_le32)
  also have "secmicpad ?f = fold rtw_secmicappendbyte (michael_pad msg) m"
  proof -
    have "nBytesInM ?f < 4" by (simp only: count)
    then show ?thesis
      unfolding secmicpad_zeros [OF \<open>nBytesInM ?f < 4\<close>] count
      by (simp only: pad fold_append o_apply)
  qed
  also have "\<dots> = (case michael_words (mL m, mR m) (michael_pad msg) of (l, r) \<Rightarrow> m\<lparr>mL := l, mR := r\<rparr>)"
    using assms michael_pad_length by (rule secmicappend_words)
  finally show ?thesis by (simp add: case_prod_beta)
qed

lemma rtw_seccalctkipmic_fold:
  "rtw_seccalctkipmic key header data pri = fst (rtw_secgetmic
     (fold rtw_secmicappendbyte (michael_addresses header @ [pri, 0, 0, 0] @ data)
       (rtw_secmicsetkey \<lparr>K0 = 0, K1 = 0, mL = 0, mR = 0, mM = 0, nBytesInM = 0\<rparr> key)))"
  by (simp add: rtw_seccalctkipmic_def michael_addresses_def rtw_secmicappend_def Let_def)

lemma le32_bytes_inject: "le32_bytes a = le32_bytes b \<longleftrightarrow> a = b"
proof
  assume "le32_bytes a = le32_bytes b"
  then have "PUTU32 a = PUTU32 b" by (simp add: le32_bytes_PUTU32)
  then show "a = b" by (metis GETU32_PUTU32 PUTU32_def)
qed simp

lemma seccalctkipmic_words:
  "rtw_seccalctkipmic key header data pri =
     michael_ref key (michael_addresses header @ [pri, 0, 0, 0] @ data)"
  unfolding rtw_seccalctkipmic_fold
  by (subst secgetmic_michael)
    (simp_all add: rtw_secmicsetkey_def secmicclear_def michael_ref_def Let_def)

section \<open>Properties\<close>

text \<open>C14. The byte-wise accumulator of the code computes Michael: for every header, data and
  priority the eight bytes of \<open>rtw_seccalctkipmic\<close> are the word-wise Michael value of
  destination, source, priority and data, with the addresses chosen by the ToDS and FromDS
  bits of the header and the standard padding.\<close>

theorem rtw_seccalctkipmic_is_michael:
  "rtw_seccalctkipmic key header data pri =
     michael_ref key (michael_addresses header @ [pri, 0, 0, 0] @ data)"
  by (rule seccalctkipmic_words)

text \<open>Michael hides nothing of its key: for a fixed frame, the message integrity code
  computed by the code determines the eight key bytes, since every block step is a
  permutation of the two state words.\<close>

theorem rtw_seccalctkipmic_key_inject:
  assumes "length key = 8" and "length key' = 8"
  shows "rtw_seccalctkipmic key header data pri = rtw_seccalctkipmic key' header data pri
    \<longleftrightarrow> key = key'"
proof
  let ?msg = "michael_pad (michael_addresses header @ [pri, 0, 0, 0] @ data)"
  let ?s = "\<lambda>k. (secmicgetuint32 k, secmicgetuint32 (drop 4 k))"
  assume "rtw_seccalctkipmic key header data pri = rtw_seccalctkipmic key' header data pri"
  then have "michael_ref key (michael_addresses header @ [pri, 0, 0, 0] @ data)
      = michael_ref key' (michael_addresses header @ [pri, 0, 0, 0] @ data)"
    by (simp only: seccalctkipmic_words)
  then have "michael_words (?s key) ?msg = michael_words (?s key') ?msg"
    by (simp add: michael_ref_def case_prod_beta Let_def le32_bytes_inject prod_eq_iff)
  then have "?s key = ?s key'" by (simp only: michael_words_inject_state)
  moreover obtain a b c d where "take 4 key = [a, b, c, d]"
    using assms by (auto intro: list4_cases [of "take 4 key"])
  moreover obtain e f g h where "drop 4 key = [e, f, g, h]"
    using assms by (auto intro: list4_cases [of "drop 4 key"])
  moreover obtain a' b' c' d' where "take 4 key' = [a', b', c', d']"
    using assms by (auto intro: list4_cases [of "take 4 key'"])
  moreover obtain e' f' g' h' where "drop 4 key' = [e', f', g', h']"
    using assms by (auto intro: list4_cases [of "drop 4 key'"])
  ultimately show "key = key'"
    by (metis append_take_drop_id append_Cons append_Nil secmicgetuint32_GETU32 GETU32_inject prod.inject)
qed simp

theorem rtw_seccalctkipmic_key_inject_witness:
  "rtw_seccalctkipmic [1, 2, 3, 4, 5, 6, 7, 8] (replicate 24 0) [9, 10] 0
     \<noteq> rtw_seccalctkipmic [1, 2, 3, 4, 5, 6, 7, 9] (replicate 24 0) [9, 10] 0"
  using rtw_seccalctkipmic_key_inject [of "[1, 2, 3, 4, 5, 6, 7, 8]" "[1, 2, 3, 4, 5, 6, 7, 9]"
      "replicate 24 0" "[9, 10]" 0] by simp

end
