(* ===== verification/Tkip_Mix.thy ===== *)
theory Tkip_Mix
  imports Bytes
begin

text \<open>
  The TKIP key-mixing function (\<open>phase1\<close> and \<open>phase2\<close> of
  \<^verbatim>\<open>core/rtw_security.c\<close>, with their macros and the table \<open>Sbox1\<close>). The
  comments of the source promise that each phase is a keyed permutation and that the per-packet
  RC4 key is unique; both are proved here.
\<close>

section \<open>The table and the macros\<close>

text \<open>\<open>Sbox1[0]\<close> and \<open>Sbox1[1]\<close>.\<close>

definition Sbox1_0 :: "u16 list" where
  "Sbox1_0 = [
    0xc6a5, 0xf884, 0xee99, 0xf68d, 0xff0d, 0xd6bd, 0xdeb1, 0x9154,
    0x6050, 0x0203, 0xcea9, 0x567d, 0xe719, 0xb562, 0x4de6, 0xec9a,
    0x8f45, 0x1f9d, 0x8940, 0xfa87, 0xef15, 0xb2eb, 0x8ec9, 0xfb0b,
    0x41ec, 0xb367, 0x5ffd, 0x45ea, 0x23bf, 0x53f7, 0xe496, 0x9b5b,
    0x75c2, 0xe11c, 0x3dae, 0x4c6a, 0x6c5a, 0x7e41, 0xf502, 0x834f,
    0x685c, 0x51f4, 0xd134, 0xf908, 0xe293, 0xab73, 0x6253, 0x2a3f,
    0x080c, 0x9552, 0x4665, 0x9d5e, 0x3028, 0x37a1, 0x0a0f, 0x2fb5,
    0x0e09, 0x2436, 0x1b9b, 0xdf3d, 0xcd26, 0x4e69, 0x7fcd, 0xea9f,
    0x121b, 0x1d9e, 0x5874, 0x342e, 0x362d, 0xdcb2, 0xb4ee, 0x5bfb,
    0xa4f6, 0x764d, 0xb761, 0x7dce, 0x527b, 0xdd3e, 0x5e71, 0x1397,
    0xa6f5, 0xb968, 0x0000, 0xc12c, 0x4060, 0xe31f, 0x79c8, 0xb6ed,
    0xd4be, 0x8d46, 0x67d9, 0x724b, 0x94de, 0x98d4, 0xb0e8, 0x854a,
    0xbb6b, 0xc52a, 0x4fe5, 0xed16, 0x86c5, 0x9ad7, 0x6655, 0x1194,
    0x8acf, 0xe910, 0x0406, 0xfe81, 0xa0f0, 0x7844, 0x25ba, 0x4be3,
    0xa2f3, 0x5dfe, 0x80c0, 0x058a, 0x3fad, 0x21bc, 0x7048, 0xf104,
    0x63df, 0x77c1, 0xaf75, 0x4263, 0x2030, 0xe51a, 0xfd0e, 0xbf6d,
    0x814c, 0x1814, 0x2635, 0xc32f, 0xbee1, 0x35a2, 0x88cc, 0x2e39,
    0x9357, 0x55f2, 0xfc82, 0x7a47, 0xc8ac, 0xbae7, 0x322b, 0xe695,
    0xc0a0, 0x1998, 0x9ed1, 0xa37f, 0x4466, 0x547e, 0x3bab, 0x0b83,
    0x8cca, 0xc729, 0x6bd3, 0x283c, 0xa779, 0xbce2, 0x161d, 0xad76,
    0xdb3b, 0x6456, 0x744e, 0x141e, 0x92db, 0x0c0a, 0x486c, 0xb8e4,
    0x9f5d, 0xbd6e, 0x43ef, 0xc4a6, 0x39a8, 0x31a4, 0xd337, 0xf28b,
    0xd532, 0x8b43, 0x6e59, 0xdab7, 0x018c, 0xb164, 0x9cd2, 0x49e0,
    0xd8b4, 0xacfa, 0xf307, 0xcf25, 0xcaaf, 0xf48e, 0x47e9, 0x1018,
    0x6fd5, 0xf088, 0x4a6f, 0x5c72, 0x3824, 0x57f1, 0x73c7, 0x9751,
    0xcb23, 0xa17c, 0xe89c, 0x3e21, 0x96dd, 0x61dc, 0x0d86, 0x0f85,
    0xe090, 0x7c42, 0x71c4, 0xccaa, 0x90d8, 0x0605, 0xf701, 0x1c12,
    0xc2a3, 0x6a5f, 0xaef9, 0x69d0, 0x1791, 0x9958, 0x3a27, 0x27b9,
    0xd938, 0xeb13, 0x2bb3, 0x2233, 0xd2bb, 0xa970, 0x0789, 0x33a7,
    0x2db6, 0x3c22, 0x1592, 0xc920, 0x8749, 0xaaff, 0x5078, 0xa57a,
    0x038f, 0x59f8, 0x0980, 0x1a17, 0x65da, 0xd731, 0x84c6, 0xd0b8,
    0x82c3, 0x29b0, 0x5a77, 0x1e11, 0x7bcb, 0xa8fc, 0x6dd6, 0x2c3a]"

definition Sbox1_1 :: "u16 list" where
  "Sbox1_1 = [
    0xa5c6, 0x84f8, 0x99ee, 0x8df6, 0x0dff, 0xbdd6, 0xb1de, 0x5491,
    0x5060, 0x0302, 0xa9ce, 0x7d56, 0x19e7, 0x62b5, 0xe64d, 0x9aec,
    0x458f, 0x9d1f, 0x4089, 0x87fa, 0x15ef, 0xebb2, 0xc98e, 0x0bfb,
    0xec41, 0x67b3, 0xfd5f, 0xea45, 0xbf23, 0xf753, 0x96e4, 0x5b9b,
    0xc275, 0x1ce1, 0xae3d, 0x6a4c, 0x5a6c, 0x417e, 0x02f5, 0x4f83,
    0x5c68, 0xf451, 0x34d1, 0x08f9, 0x93e2, 0x73ab, 0x5362, 0x3f2a,
    0x0c08, 0x5295, 0x6546, 0x5e9d, 0x2830, 0xa137, 0x0f0a, 0xb52f,
    0x090e, 0x3624, 0x9b1b, 0x3ddf, 0x26cd, 0x694e, 0xcd7f, 0x9fea,
    0x1b12, 0x9e1d, 0x7458, 0x2e34, 0x2d36, 0xb2dc, 0xeeb4, 0xfb5b,
    0xf6a4, 0x4d76, 0x61b7, 0xce7d, 0x7b52, 0x3edd, 0x715e, 0x9713,
    0xf5a6, 0x68b9, 0x0000, 0x2cc1, 0x6040, 0x1fe3, 0xc879, 0xedb6,
    0xbed4, 0x468d, 0xd967, 0x4b72, 0xde94, 0xd498, 0xe8b0, 0x4a85,
    0x6bbb, 0x2ac5, 0xe54f, 0x16ed, 0xc586, 0xd79a, 0x5566, 0x9411,
    0xcf8a, 0x10e9, 0x0604, 0x81fe, 0xf0a0, 0x4478, 0xba25, 0xe34b,
    0xf3a2, 0xfe5d, 0xc080, 0x8a05, 0xad3f, 0xbc21, 0x4870, 0x04f1,
    0xdf63, 0xc177, 0x75af, 0x6342, 0x3020, 0x1ae5, 0x0efd, 0x6dbf,
    0x4c81, 0x1418, 0x3526, 0x2fc3, 0xe1be, 0xa235, 0xcc88, 0x392e,
    0x5793, 0xf255, 0x82fc, 0x477a, 0xacc8, 0xe7ba, 0x2b32, 0x95e6,
    0xa0c0, 0x9819, 0xd19e, 0x7fa3, 0x6644, 0x7e54, 0xab3b, 0x830b,
    0xca8c, 0x29c7, 0xd36b, 0x3c28, 0x79a7, 0xe2bc, 0x1d16, 0x76ad,
    0x3bdb, 0x5664, 0x4e74, 0x1e14, 0xdb92, 0x0a0c, 0x6c48, 0xe4b8,
    0x5d9f, 0x6ebd, 0xef43, 0xa6c4, 0xa839, 0xa431, 0x37d3, 0x8bf2,
    0x32d5, 0x438b, 0x596e, 0xb7da, 0x8c01, 0x64b1, 0xd29c, 0xe049,
    0xb4d8, 0xfaac, 0x07f3, 0x25cf, 0xafca, 0x8ef4, 0xe947, 0x1810,
    0xd56f, 0x88f0, 0x6f4a, 0x725c, 0x2438, 0xf157, 0xc773, 0x5197,
    0x23cb, 0x7ca1, 0x9ce8, 0x213e, 0xdd96, 0xdc61, 0x860d, 0x850f,
    0x90e0, 0x427c, 0xc471, 0xaacc, 0xd890, 0x0506, 0x01f7, 0x121c,
    0xa3c2, 0x5f6a, 0xf9ae, 0xd069, 0x9117, 0x5899, 0x273a, 0xb927,
    0x38d9, 0x13eb, 0xb32b, 0x3322, 0xbbd2, 0x70a9, 0x8907, 0xa733,
    0xb62d, 0x223c, 0x9215, 0x20c9, 0x4987, 0xffaa, 0x7850, 0x7aa5,
    0x8f03, 0xf859, 0x8009, 0x171a, 0xda65, 0x31d7, 0xc684, 0xb8d0,
    0xc382, 0xb029, 0x775a, 0x111e, 0xcb7b, 0xfca8, 0xd66d, 0x3a2c]"

definition RotR1 :: "u16 \<Rightarrow> u16" where
  "RotR1 v16 = (drop_bit 1 v16 AND 0x7FFF) XOR push_bit 15 (v16 AND 1)"

definition Lo8 :: "u16 \<Rightarrow> u8" where
  "Lo8 v16 = ucast (v16 AND 0x00FF)"

definition Hi8 :: "u16 \<Rightarrow> u8" where
  "Hi8 v16 = ucast (drop_bit 8 v16 AND 0x00FF)"

definition Lo16 :: "u32 \<Rightarrow> u16" where
  "Lo16 v32 = ucast (v32 AND 0xFFFF)"

definition Hi16 :: "u32 \<Rightarrow> u16" where
  "Hi16 v32 = ucast (drop_bit 16 v32 AND 0xFFFF)"

definition Mk16 :: "u8 \<Rightarrow> u8 \<Rightarrow> u16" where
  "Mk16 hi lo = ucast lo XOR push_bit 8 (ucast hi)"

definition TK16 :: "bytes \<Rightarrow> nat \<Rightarrow> u16" where
  "TK16 tk N = Mk16 (tk ! (2 * N + 1)) (tk ! (2 * N))"

definition S_box :: "u16 \<Rightarrow> u16" where
  "S_box v16 = Sbox1_0 ! unat (Lo8 v16) XOR Sbox1_1 ! unat (Hi8 v16)"

section \<open>Phase 1 and phase 2\<close>

text \<open>The body of the loop of \<open>phase1\<close>, with the loop variable \<open>i\<close>.\<close>

definition phase1_round :: "bytes \<Rightarrow> nat \<Rightarrow> u16 list \<Rightarrow> u16 list" where
  "phase1_round tk i p =
     (let p = p[0 := p ! 0 + S_box (p ! 4 XOR TK16 tk (i mod 2 + 0))];
          p = p[1 := p ! 1 + S_box (p ! 0 XOR TK16 tk (i mod 2 + 2))];
          p = p[2 := p ! 2 + S_box (p ! 1 XOR TK16 tk (i mod 2 + 4))];
          p = p[3 := p ! 3 + S_box (p ! 2 XOR TK16 tk (i mod 2 + 6))];
          p = p[4 := p ! 4 + S_box (p ! 3 XOR TK16 tk (i mod 2 + 0))]
      in p[4 := p ! 4 + of_nat i])"

definition phase1_init :: "bytes \<Rightarrow> u32 \<Rightarrow> u16 list" where
  "phase1_init ta iv32 = [Lo16 iv32, Hi16 iv32, Mk16 (ta ! 1) (ta ! 0),
     Mk16 (ta ! 3) (ta ! 2), Mk16 (ta ! 5) (ta ! 4)]"

definition PHASE1_LOOP_CNT :: nat where
  "PHASE1_LOOP_CNT = 8"

definition phase1 :: "bytes \<Rightarrow> bytes \<Rightarrow> u32 \<Rightarrow> u16 list" where
  "phase1 tk ta iv32 = fold (phase1_round tk) [0..<PHASE1_LOOP_CNT] (phase1_init ta iv32)"

definition phase2_ppk :: "bytes \<Rightarrow> u16 list \<Rightarrow> u16 \<Rightarrow> u16 list" where
  "phase2_ppk tk p1k iv16 =
     (let k = map ((!) p1k) [0..<5] @ [p1k ! 4 + iv16];
          k = k[0 := k ! 0 + S_box (k ! 5 XOR TK16 tk 0)];
          k = k[1 := k ! 1 + S_box (k ! 0 XOR TK16 tk 1)];
          k = k[2 := k ! 2 + S_box (k ! 1 XOR TK16 tk 2)];
          k = k[3 := k ! 3 + S_box (k ! 2 XOR TK16 tk 3)];
          k = k[4 := k ! 4 + S_box (k ! 3 XOR TK16 tk 4)];
          k = k[5 := k ! 5 + S_box (k ! 4 XOR TK16 tk 5)];
          k = k[0 := k ! 0 + RotR1 (k ! 5 XOR TK16 tk 6)];
          k = k[1 := k ! 1 + RotR1 (k ! 0 XOR TK16 tk 7)];
          k = k[2 := k ! 2 + RotR1 (k ! 1)];
          k = k[3 := k ! 3 + RotR1 (k ! 2)];
          k = k[4 := k ! 4 + RotR1 (k ! 3)]
      in k[5 := k ! 5 + RotR1 (k ! 4)])"

definition phase2 :: "bytes \<Rightarrow> u16 list \<Rightarrow> u16 \<Rightarrow> bytes" where
  "phase2 tk p1k iv16 =
     (let PPK = phase2_ppk tk p1k iv16
      in [Hi8 iv16, (Hi8 iv16 OR 0x20) AND 0x7F, Lo8 iv16,
          Lo8 (drop_bit 1 (PPK ! 5 XOR TK16 tk 0))]
         @ concat (map (\<lambda>i. [Lo8 (PPK ! i), Hi8 (PPK ! i)]) [0..<6]))"

section \<open>Every mixing step is a permutation\<close>

definition mixadd :: "nat \<Rightarrow> nat \<Rightarrow> (u16 \<Rightarrow> u16) \<Rightarrow> u16 list \<Rightarrow> u16 list" where
  "mixadd k j f p = p[k := p ! k + f (p ! j)]"

lemma length_mixadd [simp]: "length (mixadd k j f p) = length p"
  by (simp add: mixadd_def)

lemma mixadd_inject:
  assumes "k < length p" and "j \<noteq> k" and "length p = length q"
  shows "mixadd k j f p = mixadd k j f q \<longleftrightarrow> p = q"
proof
  assume eq: "mixadd k j f p = mixadd k j f q"
  have nth: "mixadd k j f p ! i = mixadd k j f q ! i" for i by (simp only: eq)
  have other: "p ! i = q ! i" if "i \<noteq> k" for i
    using nth [of i] that by (simp add: mixadd_def)
  have "p ! k = q ! k"
    using nth [of k] other [OF assms(2)] assms(1,3) by (simp add: mixadd_def)
  with other assms(3) show "p = q" by (metis nth_equalityI)
qed simp

text \<open>A chain of mixing steps, applied from left to right.\<close>

definition mixchain :: "(nat \<times> nat \<times> (u16 \<Rightarrow> u16)) list \<Rightarrow> u16 list \<Rightarrow> u16 list" where
  "mixchain steps p = fold (\<lambda>(k, j, f). mixadd k j f) steps p"

lemma length_mixchain [simp]: "length (mixchain steps p) = length p"
  by (induction steps arbitrary: p) (auto simp: mixchain_def)

lemma mixchain_inject:
  assumes "\<forall>(k, j, f) \<in> set steps. k < length p \<and> j \<noteq> k" and "length p = length q"
  shows "mixchain steps p = mixchain steps q \<longleftrightarrow> p = q"
  using assms
proof (induction steps arbitrary: p q)
  case (Cons s steps)
  obtain k j f where s: "s = (k, j, f)" by (cases s)
  have "mixchain (s # steps) p = mixchain (s # steps) q \<longleftrightarrow>
      mixchain steps (mixadd k j f p) = mixchain steps (mixadd k j f q)"
    by (simp add: mixchain_def s)
  also have "\<dots> \<longleftrightarrow> mixadd k j f p = mixadd k j f q"
    using Cons.prems by (intro Cons.IH) auto
  also have "\<dots> \<longleftrightarrow> p = q"
    using Cons.prems s by (intro mixadd_inject) auto
  finally show ?case .
qed (simp add: mixchain_def)

lemma phase1_round_chain:
  "phase1_round tk i = mixchain
     [(0, 4, \<lambda>x. S_box (x XOR TK16 tk (i mod 2 + 0))), (1, 0, \<lambda>x. S_box (x XOR TK16 tk (i mod 2 + 2))),
      (2, 1, \<lambda>x. S_box (x XOR TK16 tk (i mod 2 + 4))), (3, 2, \<lambda>x. S_box (x XOR TK16 tk (i mod 2 + 6))),
      (4, 3, \<lambda>x. S_box (x XOR TK16 tk (i mod 2 + 0))), (4, 3, \<lambda>_. of_nat i)]"
  by (rule ext) (simp add: phase1_round_def mixchain_def mixadd_def Let_def)

lemma phase1_fold_inject:
  "length p = 5 \<Longrightarrow> length q = 5 \<Longrightarrow>
    fold (phase1_round tk) is p = fold (phase1_round tk) is q \<longleftrightarrow> p = q"
proof (induction "is" arbitrary: p q)
  case (Cons i "is")
  then show ?case
    by (simp add: phase1_round_chain mixchain_inject)
qed simp

lemma length_phase1: "length (phase1 tk ta iv32) = 5"
proof -
  have "length (fold (phase1_round tk) is p) = length p" for "is" p
    by (induction "is" arbitrary: p) (simp_all add: phase1_round_chain)
  then show ?thesis by (simp add: phase1_def phase1_init_def)
qed

lemma phase2_ppk_chain:
  "phase2_ppk tk p1k iv16 = mixchain
     [(0, 5, \<lambda>x. S_box (x XOR TK16 tk 0)), (1, 0, \<lambda>x. S_box (x XOR TK16 tk 1)),
      (2, 1, \<lambda>x. S_box (x XOR TK16 tk 2)), (3, 2, \<lambda>x. S_box (x XOR TK16 tk 3)),
      (4, 3, \<lambda>x. S_box (x XOR TK16 tk 4)), (5, 4, \<lambda>x. S_box (x XOR TK16 tk 5)),
      (0, 5, \<lambda>x. RotR1 (x XOR TK16 tk 6)), (1, 0, \<lambda>x. RotR1 (x XOR TK16 tk 7)),
      (2, 1, RotR1), (3, 2, RotR1), (4, 3, RotR1), (5, 4, RotR1)]
     (map ((!) p1k) [0..<5] @ [p1k ! 4 + iv16])"
  by (simp only: phase2_ppk_def mixchain_def mixadd_def Let_def fold_simps prod.case id_apply)

lemma phase2_ppk_inject:
  assumes "length p = 5" and "length q = 5"
  shows "phase2_ppk tk p i = phase2_ppk tk q j \<longleftrightarrow> p = q \<and> i = j"
proof -
  have "phase2_ppk tk p i = phase2_ppk tk q j \<longleftrightarrow>
      map ((!) p) [0..<5] @ [p ! 4 + i] = map ((!) q) [0..<5] @ [q ! 4 + j]"
    unfolding phase2_ppk_chain by (rule mixchain_inject) auto
  also have "map ((!) p) [0..<5] = p" using assms map_nth [of p] by simp
  also have "map ((!) q) [0..<5] = q" using assms map_nth [of q] by simp
  finally show ?thesis by auto
qed

section \<open>Splitting words into bytes loses nothing\<close>

lemma bit_and_ffff: "bit (w AND 0xffff :: 'a::len word) n \<longleftrightarrow> bit w n \<and> n < 16"
proof -
  have "(0xffff :: 'a word) = mask 16" by (simp add: mask_eq_exp_minus_1)
  then have "w AND 0xffff = take_bit 16 w" by (simp add: take_bit_eq_mask)
  then show ?thesis by (auto simp: bit_simps)
qed

lemma Mk16_Hi8_Lo8: "Mk16 (Hi8 w) (Lo8 w) = w"
proof (rule bit_word_eqI)
  fix n assume "n < LENGTH(16)"
  then show "bit (Mk16 (Hi8 w) (Lo8 w)) n = bit w n"
    by (cases "n < 8")
      (auto simp: Mk16_def Hi8_def Lo8_def bit_xor_iff bit_push_bit_iff bit_ucast_iff bit_drop_bit_eq)
qed

lemma Lo8_Mk16: "Lo8 (Mk16 h l) = l"
  by (rule bit_word_eqI)
    (auto simp: Mk16_def Lo8_def bit_xor_iff bit_push_bit_iff bit_ucast_iff)

lemma Hi8_Mk16: "Hi8 (Mk16 h l) = h"
  by (rule bit_word_eqI)
    (auto simp: Mk16_def Hi8_def bit_xor_iff bit_push_bit_iff bit_ucast_iff bit_drop_bit_eq
      dest: bit_imp_le_length)

lemma Mk16_inject: "Mk16 h l = Mk16 h' l' \<longleftrightarrow> h = h' \<and> l = l'"
  by (metis Hi8_Mk16 Lo8_Mk16)

lemma Lo16_Hi16_inject: "Lo16 a = Lo16 b \<and> Hi16 a = Hi16 b \<longleftrightarrow> a = b"
proof
  assume eq: "Lo16 a = Lo16 b \<and> Hi16 a = Hi16 b"
  show "a = b"
  proof (rule bit_word_eqI)
    fix n assume n: "n < LENGTH(32)"
    have "bit (Lo16 a) n = bit (Lo16 b) n" "bit (Hi16 a) (n - 16) = bit (Hi16 b) (n - 16)"
      using eq by simp_all
    then show "bit a n = bit b n"
      using n by (cases "n < 16")
        (auto simp: Lo16_def Hi16_def bit_ucast_iff bit_and_ffff bit_drop_bit_eq)
  qed
qed simp

lemma phase1_init_inject:
  assumes "length ta = 6" and "length ta' = 6"
  shows "phase1_init ta iv = phase1_init ta' iv' \<longleftrightarrow> ta = ta' \<and> iv = iv'"
proof -
  have "ta = map ((!) ta) [0, 1, 2, 3, 4, 5]" if "length ta = 6" for ta :: bytes
    using that map_nth [of ta] by (simp add: upt_rec numeral_eq_Suc)
  with assms have "ta = ta' \<longleftrightarrow> map ((!) ta) [0, 1, 2, 3, 4, 5] = map ((!) ta') [0, 1, 2, 3, 4, 5]"
    by metis
  then show ?thesis
    using Lo16_Hi16_inject [of iv iv'] by (auto simp: phase1_init_def Mk16_inject)
qed

lemma phase2_inject:
  assumes "length p = 5" and "length q = 5"
  shows "phase2 tk p i = phase2 tk q j \<longleftrightarrow> p = q \<and> i = j"
proof
  let ?P = "phase2_ppk tk p i" and ?Q = "phase2_ppk tk q j"
  assume "phase2 tk p i = phase2 tk q j"
  then have "Lo8 (?P ! n) = Lo8 (?Q ! n) \<and> Hi8 (?P ! n) = Hi8 (?Q ! n)" if "n < 6" for n
    using that by (auto simp: phase2_def Let_def upt_rec less_Suc_eq numeral_eq_Suc)
  then have "?P ! n = ?Q ! n" if "n < 6" for n
    using that by (metis Mk16_Hi8_Lo8)
  then have "?P = ?Q"
    by (intro nth_equalityI) (simp_all add: phase2_ppk_chain)
  with assms show "p = q \<and> i = j" by (simp only: phase2_ppk_inject)
qed simp

section \<open>Properties\<close>

text \<open>\<open>phase1\<close> is injective: under one temporal key, two phase 1 keys are equal only for the
  same transmitter address and the same upper 32 bits of the sequence counter.\<close>

theorem phase1_injective:
  assumes "length ta = 6" and "length ta' = 6"
  shows "phase1 tk ta iv32 = phase1 tk ta' iv32' \<longleftrightarrow> ta = ta' \<and> iv32 = iv32'"
  unfolding phase1_def
  by (subst phase1_fold_inject) (simp_all add: phase1_init_inject assms, simp_all add: phase1_init_def)

theorem phase1_injective_witness:
  "phase1 [0, 1, 2, 3, 4, 5, 6, 7, 8, 9, 10, 11, 12, 13, 14, 15] [1, 2, 3, 4, 5, 6] 7
     \<noteq> phase1 [0, 1, 2, 3, 4, 5, 6, 7, 8, 9, 10, 11, 12, 13, 14, 15] [1, 2, 3, 4, 5, 6] 8"
  by (subst phase1_injective) simp_all

text \<open>C15. The per-packet RC4 key is unique, as the comments of \<open>phase2\<close> promise: under one
  temporal key, two packets get the same 16-byte RC4 key only if transmitter address and all
  48 bits of the sequence counter agree.\<close>

theorem tkip_packet_key_unique:
  assumes "length ta = 6" and "length ta' = 6"
  shows "phase2 tk (phase1 tk ta iv32) iv16 = phase2 tk (phase1 tk ta' iv32') iv16'
    \<longleftrightarrow> ta = ta' \<and> iv32 = iv32' \<and> iv16 = iv16'"
proof -
  have "phase1 tk ta iv32 = phase1 tk ta' iv32' \<longleftrightarrow> ta = ta' \<and> iv32 = iv32'"
    unfolding phase1_def
    by (subst phase1_fold_inject) (simp_all add: phase1_init_inject assms, simp_all add: phase1_init_def)
  then show ?thesis
    by (simp add: phase2_inject length_phase1)
qed

theorem tkip_packet_key_unique_witness:
  "phase2 (replicate 16 9) (phase1 (replicate 16 9) [1, 2, 3, 4, 5, 6] 7) 1
     \<noteq> phase2 (replicate 16 9) (phase1 (replicate 16 9) [1, 2, 3, 4, 5, 6] 7) 2"
  by (subst tkip_packet_key_unique) simp_all

end
