(* ===== verification/Block_Modes.thy ===== *)
theory Block_Modes
  imports Bytes
begin

text \<open>
  Reference definitions of the two modes of operation that the CCMP and CMAC code interleaves
  with its buffer handling, over an arbitrary block cipher: the CBC chain over a zero-padded
  message and counter-mode encryption. The interface \<open>block_cipher\<close> states what they need of the
  cipher; it is met by both AES implementations of the driver.
\<close>

section \<open>Reference definitions\<close>

definition pad16 :: "bytes \<Rightarrow> bytes" where
  "pad16 b = b @ replicate (16 - length b) 0"

text \<open>\<open>cbc E a p\<close>: continue the CBC chain from the last cipher block \<open>a\<close> over the message \<open>p\<close>,
  the last block padded with zeros.\<close>

function cbc :: "(bytes \<Rightarrow> bytes) \<Rightarrow> bytes \<Rightarrow> bytes \<Rightarrow> bytes" where
  "cbc E a p = (if p = [] then a else cbc E (E (xorl a (pad16 (take 16 p)))) (drop 16 p))"
  by pat_completeness auto
termination by (relation "measure (\<lambda>(E, a, p). length p)") auto

declare cbc.simps [simp del]

text \<open>\<open>ctr_xor E blk i p\<close>: counter mode, where \<open>blk i\<close> is the counter block number \<open>i\<close>.\<close>

function ctr_xor :: "(bytes \<Rightarrow> bytes) \<Rightarrow> (nat \<Rightarrow> bytes) \<Rightarrow> nat \<Rightarrow> bytes \<Rightarrow> bytes" where
  "ctr_xor E blk i p =
     (if p = [] then [] else xorl (E (blk i)) (take 16 p) @ ctr_xor E blk (i + 1) (drop 16 p))"
  by pat_completeness auto
termination by (relation "measure (\<lambda>(E, blk, i, p). length p)") auto

declare ctr_xor.simps [simp del]

lemma cbc_Nil [simp]: "cbc E a [] = a"
  by (simp add: cbc.simps)

lemma ctr_xor_Nil [simp]: "ctr_xor E blk i [] = []"
  by (simp add: ctr_xor.simps)

lemma pad16_full: "length b = 16 \<Longrightarrow> pad16 b = b"
  by (simp add: pad16_def)

lemma length_pad16 [simp]: "length b \<le> 16 \<Longrightarrow> length (pad16 b) = 16"
  by (simp add: pad16_def)

lemma cbc_block:
  assumes "length b = 16"
  shows "cbc E a (b @ p) = cbc E (E (xorl a b)) p"
  using assms by (subst cbc.simps) (auto simp: pad16_full)

lemma cbc_short:
  assumes "b \<noteq> []" and "length b \<le> 16"
  shows "cbc E a b = E (xorl a (pad16 b))"
  using assms by (subst cbc.simps) simp

lemma ctr_xor_block:
  assumes "length b = 16"
  shows "ctr_xor E blk i (b @ p) = xorl (E (blk i)) b @ ctr_xor E blk (Suc i) p"
  using assms by (subst ctr_xor.simps) auto

lemma ctr_xor_short:
  assumes "b \<noteq> []" and "length b \<le> 16"
  shows "ctr_xor E blk i b = xorl (E (blk i)) b"
  using assms by (subst ctr_xor.simps) simp

text \<open>A message as its full blocks and the remainder, the way the driver's loops walk it.\<close>

lemma cbc_append:
  assumes "length b = 16 * n"
  shows "cbc E a (b @ p) = cbc E (cbc E a b) p"
  using assms
proof (induction n arbitrary: a b)
  case (Suc n)
  have "length (take 16 b) = 16" using Suc.prems by simp
  then show ?case
    using Suc.IH [of "drop 16 b"] Suc.prems cbc_block [of "take 16 b" E a "drop 16 b @ p"]
      cbc_block [of "take 16 b" E a "drop 16 b"]
    by (simp flip: append_assoc)
qed simp

lemma ctr_xor_append:
  assumes "length b = 16 * n"
  shows "ctr_xor E blk i (b @ p) = ctr_xor E blk i b @ ctr_xor E blk (i + n) p"
  using assms
proof (induction n arbitrary: i b)
  case (Suc n)
  have "length (take 16 b) = 16" using Suc.prems by simp
  then show ?case
    using Suc.IH [of "drop 16 b" "Suc i"] Suc.prems ctr_xor_block [of "take 16 b" E blk i "drop 16 b @ p"]
      ctr_xor_block [of "take 16 b" E blk i "drop 16 b"]
    by (simp flip: append_assoc)
qed simp

section \<open>The block-cipher interface\<close>

locale block_cipher =
  fixes E :: "bytes \<Rightarrow> bytes"
  assumes length_E: "length x = 16 \<Longrightarrow> length (E x) = 16"
begin

lemma length_ctr_xor:
  assumes "\<And>j. length (blk j) = 16"
  shows "length (ctr_xor E blk i p) = length p"
proof (induction "length p" arbitrary: p i rule: less_induct)
  case less
  show ?case
  proof (cases "p = []")
    case False
    then show ?thesis
      using less [of "drop 16 p" "i + 1"] assms
      by (subst ctr_xor.simps) (simp add: length_E)
  qed simp
qed

lemma ctr_xor_twice:
  assumes "\<And>j. length (blk j) = 16"
  shows "ctr_xor E blk i (ctr_xor E blk i p) = p"
proof (induction "length p" arbitrary: p i rule: less_induct)
  case less
  show ?case
  proof (cases "length p \<le> 16")
    case True
    then show ?thesis
      using assms by (cases "p = []")
        (simp_all add: ctr_xor_short length_E xorl_cancel_left flip: length_greater_0_conv)
  next
    case False
    let ?b = "take 16 p" and ?r = "drop 16 p"
    have p: "p = ?b @ ?r" and b: "length ?b = 16" using False by simp_all
    have "ctr_xor E blk i p = xorl (E (blk i)) ?b @ ctr_xor E blk (Suc i) ?r"
      using ctr_xor_block [OF b, of E blk i ?r] by simp
    then have "ctr_xor E blk i (ctr_xor E blk i p) =
        xorl (E (blk i)) (xorl (E (blk i)) ?b) @ ctr_xor E blk (Suc i) (ctr_xor E blk (Suc i) ?r)"
      using assms b by (simp add: ctr_xor_block length_E)
    also have "\<dots> = ?b @ ?r"
      using less [of ?r "Suc i"] False assms by (simp add: length_E xorl_cancel_left)
    finally show ?thesis by simp
  qed
qed

lemma length_cbc:
  assumes "length a = 16"
  shows "length (cbc E a p) = 16"
  using assms
proof (induction "length p" arbitrary: p a rule: less_induct)
  case less
  show ?case
  proof (cases "p = []")
    case False
    have "length (E (xorl a (pad16 (take 16 p)))) = 16"
      using less.prems by (intro length_E) simp
    then show ?thesis
      using less.hyps [of "drop 16 p"] False by (subst cbc.simps) simp
  qed (simp add: less.prems)
qed

end

text \<open>With an injective cipher the chain never forgets a difference in its last block.\<close>

locale block_permutation = block_cipher E for E :: "bytes \<Rightarrow> bytes" +
  assumes E_inject: "length x = 16 \<Longrightarrow> length y = 16 \<Longrightarrow> E x = E y \<longleftrightarrow> x = y"
begin

lemma cbc_last_block:
  assumes "length a = 16" and "length b = 16" and "length p \<le> 16" and "length q = length p"
  shows "cbc E a p = cbc E b q \<longleftrightarrow> xorl a (pad16 p) = xorl b (pad16 q)"
proof (cases "p = []")
  case True
  have "xorl c (pad16 []) = c" if "length c = 16" for c
    using that by (intro nth_equalityI) (simp_all add: pad16_def)
  with True assms show ?thesis by simp
next
  case False
  with assms have "q \<noteq> []" by auto
  with False assms show ?thesis
    by (simp add: cbc_short E_inject)
qed

lemma cbc_start:
  assumes "length a = 16" and "length b = 16"
  shows "cbc E a p = cbc E b p \<longleftrightarrow> a = b"
  using assms
proof (induction "length p" arbitrary: p a b rule: less_induct)
  case less
  show ?case
  proof (cases "p = []")
    case False
    let ?x = "pad16 (take 16 p)"
    have x: "length ?x = 16" by simp
    have "cbc E a p = cbc E b p \<longleftrightarrow> cbc E (E (xorl a ?x)) (drop 16 p) = cbc E (E (xorl b ?x)) (drop 16 p)"
      using False by (simp add: cbc.simps [of E _ p])
    also have "\<dots> \<longleftrightarrow> E (xorl a ?x) = E (xorl b ?x)"
      using less.prems False x by (intro less.hyps) (simp_all add: length_E)
    also have "\<dots> \<longleftrightarrow> xorl a ?x = xorl b ?x"
      using less.prems x by (intro E_inject) simp_all
    also have "\<dots> \<longleftrightarrow> a = b"
      using less.prems x by (simp add: xorl_commute [of _ ?x] xorl_inject)
    finally show ?thesis .
  qed simp
qed

end

end
