(* ===== verification/Aes_Block.thy ===== *)
theory Aes_Block
  imports Block_Modes "HOL-Library.Multiset"
begin

text \<open>
  The two AES-128 block encryptions of \<^verbatim>\<open>core/rtw_security.c\<close>: the byte-oriented
  \<open>aes128k128d\<close> used by CCMP and the table-driven \<open>rijndaelKeySetupEnc\<close> /
  \<open>rijndaelEncrypt\<close> used by CMAC, with the proof that they compute the same function, and
  the interface \<open>block_cipher\<close> the modes of operation rely on.
\<close>

section \<open>Byte-oriented encryption\<close>

definition sbox_table :: bytes where
  "sbox_table = [
     0x63, 0x7c, 0x77, 0x7b, 0xf2, 0x6b, 0x6f, 0xc5, 0x30, 0x01, 0x67, 0x2b,
     0xfe, 0xd7, 0xab, 0x76, 0xca, 0x82, 0xc9, 0x7d, 0xfa, 0x59, 0x47, 0xf0,
     0xad, 0xd4, 0xa2, 0xaf, 0x9c, 0xa4, 0x72, 0xc0, 0xb7, 0xfd, 0x93, 0x26,
     0x36, 0x3f, 0xf7, 0xcc, 0x34, 0xa5, 0xe5, 0xf1, 0x71, 0xd8, 0x31, 0x15,
     0x04, 0xc7, 0x23, 0xc3, 0x18, 0x96, 0x05, 0x9a, 0x07, 0x12, 0x80, 0xe2,
     0xeb, 0x27, 0xb2, 0x75, 0x09, 0x83, 0x2c, 0x1a, 0x1b, 0x6e, 0x5a, 0xa0,
     0x52, 0x3b, 0xd6, 0xb3, 0x29, 0xe3, 0x2f, 0x84, 0x53, 0xd1, 0x00, 0xed,
     0x20, 0xfc, 0xb1, 0x5b, 0x6a, 0xcb, 0xbe, 0x39, 0x4a, 0x4c, 0x58, 0xcf,
     0xd0, 0xef, 0xaa, 0xfb, 0x43, 0x4d, 0x33, 0x85, 0x45, 0xf9, 0x02, 0x7f,
     0x50, 0x3c, 0x9f, 0xa8, 0x51, 0xa3, 0x40, 0x8f, 0x92, 0x9d, 0x38, 0xf5,
     0xbc, 0xb6, 0xda, 0x21, 0x10, 0xff, 0xf3, 0xd2, 0xcd, 0x0c, 0x13, 0xec,
     0x5f, 0x97, 0x44, 0x17, 0xc4, 0xa7, 0x7e, 0x3d, 0x64, 0x5d, 0x19, 0x73,
     0x60, 0x81, 0x4f, 0xdc, 0x22, 0x2a, 0x90, 0x88, 0x46, 0xee, 0xb8, 0x14,
     0xde, 0x5e, 0x0b, 0xdb, 0xe0, 0x32, 0x3a, 0x0a, 0x49, 0x06, 0x24, 0x5c,
     0xc2, 0xd3, 0xac, 0x62, 0x91, 0x95, 0xe4, 0x79, 0xe7, 0xc8, 0x37, 0x6d,
     0x8d, 0xd5, 0x4e, 0xa9, 0x6c, 0x56, 0xf4, 0xea, 0x65, 0x7a, 0xae, 0x08,
     0xba, 0x78, 0x25, 0x2e, 0x1c, 0xa6, 0xb4, 0xc6, 0xe8, 0xdd, 0x74, 0x1f,
     0x4b, 0xbd, 0x8b, 0x8a, 0x70, 0x3e, 0xb5, 0x66, 0x48, 0x03, 0xf6, 0x0e,
     0x61, 0x35, 0x57, 0xb9, 0x86, 0xc1, 0x1d, 0x9e, 0xe1, 0xf8, 0x98, 0x11,
     0x69, 0xd9, 0x8e, 0x94, 0x9b, 0x1e, 0x87, 0xe9, 0xce, 0x55, 0x28, 0xdf,
     0x8c, 0xa1, 0x89, 0x0d, 0xbf, 0xe6, 0x42, 0x68, 0x41, 0x99, 0x2d, 0x0f,
     0xb0, 0x54, 0xbb, 0x16]"

definition xor_128 :: "bytes \<Rightarrow> bytes \<Rightarrow> bytes" where
  "xor_128 a b = map (\<lambda>i. a ! i XOR b ! i) [0..<16]"

definition xor_32 :: "bytes \<Rightarrow> bytes \<Rightarrow> bytes" where
  "xor_32 a b = map (\<lambda>i. a ! i XOR b ! i) [0..<4]"

definition sbox :: "u8 \<Rightarrow> u8" where
  "sbox a = sbox_table ! unat a"

definition rcon_table :: bytes where
  "rcon_table = [0x01, 0x02, 0x04, 0x08, 0x10, 0x20, 0x40, 0x80, 0x1b, 0x36, 0x36, 0x36]"

definition next_key :: "bytes \<Rightarrow> nat \<Rightarrow> bytes" where
  "next_key key round =
     (let sbox_key = [sbox (key ! 13), sbox (key ! 14), sbox (key ! 15), sbox (key ! 12)];
          rcon = rcon_table ! round;
          k0 = xor_32 key sbox_key;
          k0 = k0[0 := k0 ! 0 XOR rcon];
          k4 = xor_32 (drop 4 key) k0;
          k8 = xor_32 (drop 8 key) k4;
          k12 = xor_32 (drop 12 key) k8
      in k0 @ k4 @ k8 @ k12)"

definition byte_sub :: "bytes \<Rightarrow> bytes" where
  "byte_sub inp = map (\<lambda>i. sbox (inp ! i)) [0..<16]"

definition shift_row :: "bytes \<Rightarrow> bytes" where
  "shift_row inp = [inp ! 0, inp ! 5, inp ! 10, inp ! 15, inp ! 4, inp ! 9, inp ! 14, inp ! 3,
     inp ! 8, inp ! 13, inp ! 2, inp ! 7, inp ! 12, inp ! 1, inp ! 6, inp ! 11]"

text \<open>The shift loop \<open>for (i = 3; i > 0; i--)\<close> of \<open>mix_column\<close> works on \<open>andf7\<close> in place.\<close>

definition mix_shift :: "nat \<Rightarrow> bytes \<Rightarrow> bytes" where
  "mix_shift i andf7 =
     (let andf7 = andf7[i := push_bit 1 (andf7 ! i)]
      in if andf7 ! (i - 1) AND 0x80 = 0x80 then andf7[i := andf7 ! i OR 0x01] else andf7)"

definition mix_column :: "bytes \<Rightarrow> bytes" where
  "mix_column inp =
     (let add1b = map (\<lambda>i. if inp ! i AND 0x80 = 0x80 then 0x1b else 0x00) [0..<4];
          swap_halfs = [inp ! 2, inp ! 3, inp ! 0, inp ! 1];
          rotl = [inp ! 3, inp ! 0, inp ! 1, inp ! 2];
          andf7 = [inp ! 0 AND 0x7f, inp ! 1 AND 0x7f, inp ! 2 AND 0x7f, inp ! 3 AND 0x7f];
          andf7 = fold mix_shift [3, 2, 1] andf7;
          andf7 = andf7[0 := push_bit 1 (andf7 ! 0)];
          andf7 = andf7[0 := andf7 ! 0 AND 0xfe];
          add1bf7 = xor_32 add1b andf7;
          rotr = xor_32 inp add1bf7;
          temp0 = rotr ! 0;
          rotr = [rotr ! 1, rotr ! 2, rotr ! 3, temp0];
          temp = xor_32 add1bf7 rotr;
          tempb = xor_32 swap_halfs rotl
      in xor_32 temp tempb)"

text \<open>One turn of the round loop; the pair holds \<open>round_key\<close> and \<open>ciphertext\<close>.\<close>

definition aes128_round :: "bytes \<Rightarrow> nat \<Rightarrow> bytes \<times> bytes \<Rightarrow> bytes \<times> bytes" where
  "aes128_round data round = (\<lambda>(round_key, ciphertext).
     if round = 0 then (next_key round_key round, xor_128 round_key data)
     else if round = 10 then
       (let intermediatea = byte_sub ciphertext; intermediateb = shift_row intermediatea
        in (round_key, xor_128 intermediateb round_key))
     else
       (let intermediatea = byte_sub ciphertext; intermediateb = shift_row intermediatea;
            intermediatea = mix_column intermediateb @ mix_column (drop 4 intermediateb)
              @ mix_column (drop 8 intermediateb) @ mix_column (drop 12 intermediateb)
        in (next_key round_key round, xor_128 intermediatea round_key)))"

definition aes128k128d :: "bytes \<Rightarrow> bytes \<Rightarrow> bytes" where
  "aes128k128d key data = snd (fold (aes128_round data) [0..<11] (take 16 key, []))"

section \<open>Table-driven encryption\<close>

definition Te0 :: "u32 list" where
  "Te0 = [
     0xc66363a5, 0xf87c7c84, 0xee777799, 0xf67b7b8d, 0xfff2f20d, 0xd66b6bbd,
     0xde6f6fb1, 0x91c5c554, 0x60303050, 0x02010103, 0xce6767a9, 0x562b2b7d,
     0xe7fefe19, 0xb5d7d762, 0x4dababe6, 0xec76769a, 0x8fcaca45, 0x1f82829d,
     0x89c9c940, 0xfa7d7d87, 0xeffafa15, 0xb25959eb, 0x8e4747c9, 0xfbf0f00b,
     0x41adadec, 0xb3d4d467, 0x5fa2a2fd, 0x45afafea, 0x239c9cbf, 0x53a4a4f7,
     0xe4727296, 0x9bc0c05b, 0x75b7b7c2, 0xe1fdfd1c, 0x3d9393ae, 0x4c26266a,
     0x6c36365a, 0x7e3f3f41, 0xf5f7f702, 0x83cccc4f, 0x6834345c, 0x51a5a5f4,
     0xd1e5e534, 0xf9f1f108, 0xe2717193, 0xabd8d873, 0x62313153, 0x2a15153f,
     0x0804040c, 0x95c7c752, 0x46232365, 0x9dc3c35e, 0x30181828, 0x379696a1,
     0x0a05050f, 0x2f9a9ab5, 0x0e070709, 0x24121236, 0x1b80809b, 0xdfe2e23d,
     0xcdebeb26, 0x4e272769, 0x7fb2b2cd, 0xea75759f, 0x1209091b, 0x1d83839e,
     0x582c2c74, 0x341a1a2e, 0x361b1b2d, 0xdc6e6eb2, 0xb45a5aee, 0x5ba0a0fb,
     0xa45252f6, 0x763b3b4d, 0xb7d6d661, 0x7db3b3ce, 0x5229297b, 0xdde3e33e,
     0x5e2f2f71, 0x13848497, 0xa65353f5, 0xb9d1d168, 0x00000000, 0xc1eded2c,
     0x40202060, 0xe3fcfc1f, 0x79b1b1c8, 0xb65b5bed, 0xd46a6abe, 0x8dcbcb46,
     0x67bebed9, 0x7239394b, 0x944a4ade, 0x984c4cd4, 0xb05858e8, 0x85cfcf4a,
     0xbbd0d06b, 0xc5efef2a, 0x4faaaae5, 0xedfbfb16, 0x864343c5, 0x9a4d4dd7,
     0x66333355, 0x11858594, 0x8a4545cf, 0xe9f9f910, 0x04020206, 0xfe7f7f81,
     0xa05050f0, 0x783c3c44, 0x259f9fba, 0x4ba8a8e3, 0xa25151f3, 0x5da3a3fe,
     0x804040c0, 0x058f8f8a, 0x3f9292ad, 0x219d9dbc, 0x70383848, 0xf1f5f504,
     0x63bcbcdf, 0x77b6b6c1, 0xafdada75, 0x42212163, 0x20101030, 0xe5ffff1a,
     0xfdf3f30e, 0xbfd2d26d, 0x81cdcd4c, 0x180c0c14, 0x26131335, 0xc3ecec2f,
     0xbe5f5fe1, 0x359797a2, 0x884444cc, 0x2e171739, 0x93c4c457, 0x55a7a7f2,
     0xfc7e7e82, 0x7a3d3d47, 0xc86464ac, 0xba5d5de7, 0x3219192b, 0xe6737395,
     0xc06060a0, 0x19818198, 0x9e4f4fd1, 0xa3dcdc7f, 0x44222266, 0x542a2a7e,
     0x3b9090ab, 0x0b888883, 0x8c4646ca, 0xc7eeee29, 0x6bb8b8d3, 0x2814143c,
     0xa7dede79, 0xbc5e5ee2, 0x160b0b1d, 0xaddbdb76, 0xdbe0e03b, 0x64323256,
     0x743a3a4e, 0x140a0a1e, 0x924949db, 0x0c06060a, 0x4824246c, 0xb85c5ce4,
     0x9fc2c25d, 0xbdd3d36e, 0x43acacef, 0xc46262a6, 0x399191a8, 0x319595a4,
     0xd3e4e437, 0xf279798b, 0xd5e7e732, 0x8bc8c843, 0x6e373759, 0xda6d6db7,
     0x018d8d8c, 0xb1d5d564, 0x9c4e4ed2, 0x49a9a9e0, 0xd86c6cb4, 0xac5656fa,
     0xf3f4f407, 0xcfeaea25, 0xca6565af, 0xf47a7a8e, 0x47aeaee9, 0x10080818,
     0x6fbabad5, 0xf0787888, 0x4a25256f, 0x5c2e2e72, 0x381c1c24, 0x57a6a6f1,
     0x73b4b4c7, 0x97c6c651, 0xcbe8e823, 0xa1dddd7c, 0xe874749c, 0x3e1f1f21,
     0x964b4bdd, 0x61bdbddc, 0x0d8b8b86, 0x0f8a8a85, 0xe0707090, 0x7c3e3e42,
     0x71b5b5c4, 0xcc6666aa, 0x904848d8, 0x06030305, 0xf7f6f601, 0x1c0e0e12,
     0xc26161a3, 0x6a35355f, 0xae5757f9, 0x69b9b9d0, 0x17868691, 0x99c1c158,
     0x3a1d1d27, 0x279e9eb9, 0xd9e1e138, 0xebf8f813, 0x2b9898b3, 0x22111133,
     0xd26969bb, 0xa9d9d970, 0x078e8e89, 0x339494a7, 0x2d9b9bb6, 0x3c1e1e22,
     0x15878792, 0xc9e9e920, 0x87cece49, 0xaa5555ff, 0x50282878, 0xa5dfdf7a,
     0x038c8c8f, 0x59a1a1f8, 0x09898980, 0x1a0d0d17, 0x65bfbfda, 0xd7e6e631,
     0x844242c6, 0xd06868b8, 0x824141c3, 0x299999b0, 0x5a2d2d77, 0x1e0f0f11,
     0x7bb0b0cb, 0xa85454fc, 0x6dbbbbd6, 0x2c16163a]"

definition rcons :: bytes where
  "rcons = [0x01, 0x02, 0x04, 0x08, 0x10, 0x20, 0x40, 0x80, 0x1B, 0x36]"

definition RCON :: "nat \<Rightarrow> u32" where
  "RCON i = push_bit 24 (ucast (rcons ! i))"

definition rotr :: "u32 \<Rightarrow> nat \<Rightarrow> u32" where
  "rotr val bits = drop_bit bits val OR push_bit (32 - bits) val"

definition Te0_at :: "nat \<Rightarrow> u32 \<Rightarrow> u32" where
  "Te0_at sh i = Te0 ! unat (drop_bit sh i AND 0xff)"

definition TE0 :: "u32 \<Rightarrow> u32" where "TE0 i = Te0_at 24 i"
definition TE1 :: "u32 \<Rightarrow> u32" where "TE1 i = rotr (Te0_at 16 i) 8"
definition TE2 :: "u32 \<Rightarrow> u32" where "TE2 i = rotr (Te0_at 8 i) 16"
definition TE3 :: "u32 \<Rightarrow> u32" where "TE3 i = rotr (Te0_at 0 i) 24"
definition TE41 :: "u32 \<Rightarrow> u32" where "TE41 i = push_bit 8 (Te0_at 24 i) AND 0xff000000"
definition TE42 :: "u32 \<Rightarrow> u32" where "TE42 i = Te0_at 16 i AND 0x00ff0000"
definition TE43 :: "u32 \<Rightarrow> u32" where "TE43 i = Te0_at 8 i AND 0x0000ff00"
definition TE44 :: "u32 \<Rightarrow> u32" where "TE44 i = drop_bit 8 (Te0_at 0 i) AND 0x000000ff"
definition TE421 :: "u32 \<Rightarrow> u32" where "TE421 i = push_bit 8 (Te0_at 16 i) AND 0xff000000"
definition TE432 :: "u32 \<Rightarrow> u32" where "TE432 i = Te0_at 8 i AND 0x00ff0000"
definition TE443 :: "u32 \<Rightarrow> u32" where "TE443 i = Te0_at 0 i AND 0x0000ff00"
definition TE414 :: "u32 \<Rightarrow> u32" where "TE414 i = drop_bit 8 (Te0_at 24 i) AND 0x000000ff"

definition getu32 :: "bytes \<Rightarrow> u32" where
  "getu32 pt = GETU32 (pt ! 0) (pt ! 1) (pt ! 2) (pt ! 3)"

text \<open>The schedule is the list of the words written so far; turn \<open>i\<close> of the loop finds its
  \<open>rk\<close> pointer at word \<open>4 * i\<close>.\<close>

definition key_setup_step :: "nat \<Rightarrow> u32 list \<Rightarrow> u32 list" where
  "key_setup_step i rk =
     (let o4 = 4 * i;
          temp = rk ! (o4 + 3);
          rk4 = rk ! o4 XOR TE421 temp XOR TE432 temp XOR TE443 temp XOR TE414 temp XOR RCON i;
          rk5 = rk ! (o4 + 1) XOR rk4;
          rk6 = rk ! (o4 + 2) XOR rk5;
          rk7 = rk ! (o4 + 3) XOR rk6
      in rk @ [rk4, rk5, rk6, rk7])"

definition rijndaelKeySetupEnc :: "bytes \<Rightarrow> u32 list" where
  "rijndaelKeySetupEnc cipherKey = fold key_setup_step [0..<10]
     [getu32 cipherKey, getu32 (drop 4 cipherKey), getu32 (drop 8 cipherKey),
      getu32 (drop 12 cipherKey)]"

type_synonym cipher_state = "u32 \<times> u32 \<times> u32 \<times> u32"

text \<open>The macro \<open>ROUND(i,d,s)\<close>, with the position of \<open>rk[4 * i]\<close> in the schedule.\<close>

definition ROUND :: "u32 list \<Rightarrow> nat \<Rightarrow> cipher_state \<Rightarrow> cipher_state" where
  "ROUND rk p = (\<lambda>(s0, s1, s2, s3).
     (TE0 s0 XOR TE1 s1 XOR TE2 s2 XOR TE3 s3 XOR rk ! p,
      TE0 s1 XOR TE1 s2 XOR TE2 s3 XOR TE3 s0 XOR rk ! (p + 1),
      TE0 s2 XOR TE1 s3 XOR TE2 s0 XOR TE3 s1 XOR rk ! (p + 2),
      TE0 s3 XOR TE1 s0 XOR TE2 s1 XOR TE3 s2 XOR rk ! (p + 3)))"

text \<open>The \<open>for (;;)\<close> loop: \<open>p\<close> is the position of the \<open>rk\<close> pointer, \<open>Suc r\<close> the value of the
  C variable \<open>r\<close> when the body starts.\<close>

fun rijndael_rounds :: "u32 list \<Rightarrow> nat \<Rightarrow> nat \<Rightarrow> cipher_state \<Rightarrow> cipher_state \<times> nat" where
  "rijndael_rounds rk p r s =
     (let t = ROUND rk (p + 4) s; p = p + 8
      in case r of 0 \<Rightarrow> (t, p) | Suc r' \<Rightarrow> rijndael_rounds rk p r' (ROUND rk p t))"

definition rijndaelEncrypt :: "u32 list \<Rightarrow> bytes \<Rightarrow> bytes" where
  "rijndaelEncrypt rk pt =
     (let s = (getu32 pt XOR rk ! 0, getu32 (drop 4 pt) XOR rk ! 1,
               getu32 (drop 8 pt) XOR rk ! 2, getu32 (drop 12 pt) XOR rk ! 3);
          ((t0, t1, t2, t3), p) = rijndael_rounds rk 0 4 s
      in PUTU32 (TE41 t0 XOR TE42 t1 XOR TE43 t2 XOR TE44 t3 XOR rk ! p)
       @ PUTU32 (TE41 t1 XOR TE42 t2 XOR TE43 t3 XOR TE44 t0 XOR rk ! (p + 1))
       @ PUTU32 (TE41 t2 XOR TE42 t3 XOR TE43 t0 XOR TE44 t1 XOR rk ! (p + 2))
       @ PUTU32 (TE41 t3 XOR TE42 t0 XOR TE43 t1 XOR TE44 t2 XOR rk ! (p + 3)))"

definition aes_128_encrypt :: "u32 list \<Rightarrow> bytes \<Rightarrow> bytes" where
  "aes_128_encrypt ctx plain = rijndaelEncrypt ctx plain"

declare rijndael_rounds.simps [simp del]

section \<open>Words as bytes through the tables\<close>

definition xtime :: "u8 \<Rightarrow> u8" where
  "xtime x = push_bit 1 (x AND 0x7f) XOR (if x AND 0x80 = 0x80 then 0x1b else 0)"

lemma upt4: "[0..<4] = [0, 1, 2, 3 :: nat]"
  by (simp add: upt_rec)

lemma upt16: "[0..<16] = [0, 1, 2, 3, 4, 5, 6, 7, 8, 9, 10, 11, 12, 13, 14, 15 :: nat]"
  by (simp add: upt_rec)

lemma Te0_table: "Te0 = map (\<lambda>s. GETU32 (xtime s) s s (xtime s XOR s)) sbox_table"
  by code_simp

lemma length_sbox_table: "length sbox_table = 256"
  by (simp add: sbox_table_def)

lemma Te0_sbox: "Te0 ! unat x = GETU32 (xtime (sbox x)) (sbox x) (sbox x) (xtime (sbox x) XOR sbox x)"
  using unat_u8_less [of x] by (simp add: Te0_table sbox_def length_sbox_table)

lemma GETU32_and: "GETU32 a b c d AND GETU32 a' b' c' d'
    = GETU32 (a AND a') (b AND b') (c AND c') (d AND d')"
  by (rule bit_word_eqI) (simp add: bit_GETU32 bit_simps)

lemma u8_and_255: "x AND 255 = (x :: u8)"
  by (rule bit_word_eqI) simp

lemma masks: "0xff000000 = GETU32 255 0 0 0" "0x00ff0000 = GETU32 0 255 0 0"
  "0x0000ff00 = GETU32 0 0 255 0" "0x000000ff = GETU32 0 0 0 255"
  by (simp_all add: GETU32_def)

lemma GETU32_mask:
  "GETU32 a b c d AND 0xff000000 = GETU32 a 0 0 0"
  "GETU32 a b c d AND 0x00ff0000 = GETU32 0 b 0 0"
  "GETU32 a b c d AND 0x0000ff00 = GETU32 0 0 c 0"
  "GETU32 a b c d AND 0x000000ff = GETU32 0 0 0 d"
  unfolding masks GETU32_and u8_and_255 by simp_all

lemma GETU32_shift:
  "push_bit 8 (GETU32 a b c d) = GETU32 b c d 0"
  "drop_bit 8 (GETU32 a b c d) = GETU32 0 a b c"
  "drop_bit 16 (GETU32 a b c d) = GETU32 0 0 a b"
  "drop_bit 24 (GETU32 a b c d) = GETU32 0 0 0 a"
  by (rule bit_word_eqI; auto simp: bit_GETU32 bit_simps dest: bit_imp_le_length)+

lemma rotr_GETU32:
  "rotr (GETU32 a b c d) 8 = GETU32 d a b c"
  "rotr (GETU32 a b c d) 16 = GETU32 c d a b"
  "rotr (GETU32 a b c d) 24 = GETU32 b c d a"
  unfolding rotr_def
  by (rule bit_word_eqI; auto simp: bit_GETU32 bit_simps dest: bit_imp_le_length)+

lemma unat_ucast_u8_u32 [simp]: "unat (ucast (x :: u8) :: u32) = unat x"
  using unat_u8_less [of x] by (simp add: unsigned_ucast_eq take_bit_nat_eq_self)

lemma unat_GETU32_low: "unat (GETU32 a b c d AND 0xff) = unat d"
  unfolding GETU32_mask by (simp add: GETU32_def)

lemma Te0_at_GETU32:
  "Te0_at 24 (GETU32 a b c d) = GETU32 (xtime (sbox a)) (sbox a) (sbox a) (xtime (sbox a) XOR sbox a)"
  "Te0_at 16 (GETU32 a b c d) = GETU32 (xtime (sbox b)) (sbox b) (sbox b) (xtime (sbox b) XOR sbox b)"
  "Te0_at 8 (GETU32 a b c d) = GETU32 (xtime (sbox c)) (sbox c) (sbox c) (xtime (sbox c) XOR sbox c)"
  "Te0_at 0 (GETU32 a b c d) = GETU32 (xtime (sbox d)) (sbox d) (sbox d) (xtime (sbox d) XOR sbox d)"
  by (simp_all only: Te0_at_def GETU32_shift drop_bit_0 id_apply unat_GETU32_low Te0_sbox)

lemmas TE_GETU32 =
  TE0_def TE1_def TE2_def TE3_def TE41_def TE42_def TE43_def TE44_def TE421_def TE432_def
  TE443_def TE414_def Te0_at_GETU32 rotr_GETU32 GETU32_shift GETU32_mask

lemma mix_column_xtime: "mix_column (a # b # c # d # rest) =
   [xtime a XOR xtime b XOR b XOR c XOR d, xtime b XOR xtime c XOR c XOR d XOR a,
    xtime c XOR xtime d XOR d XOR a XOR b, xtime d XOR xtime a XOR a XOR b XOR c]"
proof -
  define dbl where "dbl x = push_bit 1 (x AND 0x7f)" for x :: u8
  have fe: "push_bit 1 x AND 0xfe = dbl x" for x :: u8
  proof -
    have "(0xfe :: u8) = push_bit 1 (mask 7)" "(0x7f :: u8) = mask 7"
      by (simp_all add: mask_eq_exp_minus_1)
    then show ?thesis unfolding dbl_def
      by (simp only:) (rule bit_word_eqI, simp only: bit_and_iff bit_push_bit_iff, auto simp: bit_simps)
  qed
  have *: "(x AND 0x7f) AND 0x7f = x AND 0x7f" for x :: u8
    by simp
  have dbl: "(x AND 0x7f) * 2 = dbl x" "x * 2 AND 0xfe = dbl x" "dbl x AND 0xfe = dbl x" for x :: u8
    using fe [of x] fe [of "x AND 0x7f"] unfolding dbl_def *
    by (simp_all only: push_bit_eq_mult power_one_right)
  have "(x AND 0x7f) AND 0x80 = 0" for x :: u8
    by (simp add: and.assoc)
  then show ?thesis
    by (simp add: mix_column_def mix_shift_def Let_def xor_32_def upt4 dbl xtime_def
        xor.assoc xor.commute xor.left_commute)
qed

section \<open>One round\<close>

text \<open>A block as four big-endian words.\<close>

definition block_of :: "cipher_state \<Rightarrow> bytes" where
  "block_of = (\<lambda>(s0, s1, s2, s3). PUTU32 s0 @ PUTU32 s1 @ PUTU32 s2 @ PUTU32 s3)"

definition words_at :: "u32 list \<Rightarrow> nat \<Rightarrow> cipher_state" where
  "words_at rk p = (rk ! p, rk ! (p + 1), rk ! (p + 2), rk ! (p + 3))"

lemma full_round:
  "xor_128 (let b = shift_row (byte_sub (block_of s))
            in mix_column b @ mix_column (drop 4 b) @ mix_column (drop 8 b) @ mix_column (drop 12 b))
     (block_of (words_at rk p)) = block_of (ROUND rk p s)"
proof -
  obtain s0 s1 s2 s3 where s: "s = (s0, s1, s2, s3)" by (cases s)
  obtain a0 a1 a2 a3 where a: "s0 = GETU32 a0 a1 a2 a3" by (rule GETU32_cases)
  obtain b0 b1 b2 b3 where b: "s1 = GETU32 b0 b1 b2 b3" by (rule GETU32_cases)
  obtain c0 c1 c2 c3 where c: "s2 = GETU32 c0 c1 c2 c3" by (rule GETU32_cases)
  obtain d0 d1 d2 d3 where d: "s3 = GETU32 d0 d1 d2 d3" by (rule GETU32_cases)
  obtain e0 e1 e2 e3 where e: "rk ! p = GETU32 e0 e1 e2 e3" by (rule GETU32_cases)
  obtain f0 f1 f2 f3 where f: "rk ! (p + 1) = GETU32 f0 f1 f2 f3" by (rule GETU32_cases)
  obtain g0 g1 g2 g3 where g: "rk ! (p + 2) = GETU32 g0 g1 g2 g3" by (rule GETU32_cases)
  obtain h0 h1 h2 h3 where h: "rk ! (p + 3) = GETU32 h0 h1 h2 h3" by (rule GETU32_cases)
  have sub: "byte_sub (block_of s) = map sbox (block_of s)"
    by (simp add: byte_sub_def upt16 block_of_def s a b c d)
  show ?thesis
    unfolding sub unfolding s a b c d block_of_def words_at_def prod.case e f g h ROUND_def TE_GETU32 GETU32_xor
      PUTU32_GETU32
    by (simp add: shift_row_def Let_def mix_column_xtime xor_128_def upt16 xor.assoc xor.commute xor.left_commute)
qed

lemma last_round:
  "xor_128 (shift_row (byte_sub (block_of (t0, t1, t2, t3)))) (block_of (words_at rk p))
   = PUTU32 (TE41 t0 XOR TE42 t1 XOR TE43 t2 XOR TE44 t3 XOR rk ! p)
       @ PUTU32 (TE41 t1 XOR TE42 t2 XOR TE43 t3 XOR TE44 t0 XOR rk ! (p + 1))
       @ PUTU32 (TE41 t2 XOR TE42 t3 XOR TE43 t0 XOR TE44 t1 XOR rk ! (p + 2))
       @ PUTU32 (TE41 t3 XOR TE42 t0 XOR TE43 t1 XOR TE44 t2 XOR rk ! (p + 3))"
proof -
  obtain a0 a1 a2 a3 where a: "t0 = GETU32 a0 a1 a2 a3" by (rule GETU32_cases)
  obtain b0 b1 b2 b3 where b: "t1 = GETU32 b0 b1 b2 b3" by (rule GETU32_cases)
  obtain c0 c1 c2 c3 where c: "t2 = GETU32 c0 c1 c2 c3" by (rule GETU32_cases)
  obtain d0 d1 d2 d3 where d: "t3 = GETU32 d0 d1 d2 d3" by (rule GETU32_cases)
  obtain e0 e1 e2 e3 where e: "rk ! p = GETU32 e0 e1 e2 e3" by (rule GETU32_cases)
  obtain f0 f1 f2 f3 where f: "rk ! (p + 1) = GETU32 f0 f1 f2 f3" by (rule GETU32_cases)
  obtain g0 g1 g2 g3 where g: "rk ! (p + 2) = GETU32 g0 g1 g2 g3" by (rule GETU32_cases)
  obtain h0 h1 h2 h3 where h: "rk ! (p + 3) = GETU32 h0 h1 h2 h3" by (rule GETU32_cases)
  show ?thesis
    unfolding a b c d block_of_def words_at_def prod.case e f g h TE_GETU32 GETU32_xor
      PUTU32_GETU32
    by (simp add: shift_row_def byte_sub_def xor_128_def upt16)
qed

lemma getu32_block:
  assumes "length pt = 16"
  shows "block_of (getu32 pt, getu32 (drop 4 pt), getu32 (drop 8 pt), getu32 (drop 12 pt)) = pt"
  by (rule list16_cases [OF assms]) (simp add: block_of_def getu32_def)

definition xor_state :: "cipher_state \<Rightarrow> cipher_state \<Rightarrow> cipher_state" where
  "xor_state = (\<lambda>(a, b, c, d) (e, f, g, h). (a XOR e, b XOR f, c XOR g, d XOR h))"

lemma xor_128_block: "xor_128 (block_of s) (block_of t) = block_of (xor_state s t)"
proof -
  have *: "PUTU32 (v XOR w) = xorl (PUTU32 v) (PUTU32 w)" for v w
    by (rule GETU32_cases [of v], rule GETU32_cases [of w]) (simp add: GETU32_xor)
  show ?thesis
    by (cases s; cases t)
      (simp add: block_of_def xor_state_def *, simp add: xor_128_def upt16 PUTU32_def)
qed

section \<open>The key schedule\<close>

definition key_words :: "cipher_state \<Rightarrow> nat \<Rightarrow> cipher_state" where
  "key_words = (\<lambda>(k0, k1, k2, k3) i.
     let r4 = k0 XOR TE421 k3 XOR TE432 k3 XOR TE443 k3 XOR TE414 k3 XOR RCON i;
         r5 = k1 XOR r4; r6 = k2 XOR r5
     in (r4, r5, r6, k3 XOR r6))"

lemma RCON_rcon_table: "i < 10 \<Longrightarrow> RCON i = GETU32 (rcon_table ! i) 0 0 0"
  by (auto simp: less_Suc_eq numeral_eq_Suc RCON_def rcons_def rcon_table_def GETU32_def)

lemma next_key_words:
  assumes "i < 10"
  shows "next_key (block_of k) i = block_of (key_words k i)"
proof -
  obtain s0 s1 s2 s3 where s: "k = (s0, s1, s2, s3)" by (cases k)
  obtain a0 a1 a2 a3 where a: "s0 = GETU32 a0 a1 a2 a3" by (rule GETU32_cases)
  obtain b0 b1 b2 b3 where b: "s1 = GETU32 b0 b1 b2 b3" by (rule GETU32_cases)
  obtain c0 c1 c2 c3 where c: "s2 = GETU32 c0 c1 c2 c3" by (rule GETU32_cases)
  obtain d0 d1 d2 d3 where d: "s3 = GETU32 d0 d1 d2 d3" by (rule GETU32_cases)
  show ?thesis
    unfolding s a b c d block_of_def key_words_def prod.case TE_GETU32 Let_def GETU32_xor
      PUTU32_GETU32 RCON_rcon_table [OF assms]
    by (simp add: next_key_def xor_32_def upt4 Let_def xor.assoc xor.commute xor.left_commute)
qed

definition schedule :: "cipher_state \<Rightarrow> nat \<Rightarrow> cipher_state" where
  "schedule k i = fold (\<lambda>j w. key_words w j) [0..<i] k"

lemma schedule_simps [simp]: "schedule k 0 = k" "schedule k (Suc i) = key_words (schedule k i) i"
  by (simp_all add: schedule_def)

lemma key_setup_words:
  "length (fold key_setup_step [0..<n] [k0, k1, k2, k3]) = 4 * Suc n \<and>
   (\<forall>i \<le> n. words_at (fold key_setup_step [0..<n] [k0, k1, k2, k3]) (4 * i) = schedule (k0, k1, k2, k3) i)"
proof (induction n)
  case 0
  show ?case by (simp add: words_at_def)
next
  case (Suc n)
  define rk where "rk = fold key_setup_step [0..<n] [k0, k1, k2, k3]"
  have len: "length rk = 4 * Suc n" and IH: "i \<le> n \<Longrightarrow> words_at rk (4 * i) = schedule (k0, k1, k2, k3) i" for i
    using Suc.IH by (auto simp: rk_def)
  have ext: "fold key_setup_step [0..<Suc n] [k0, k1, k2, k3] = key_setup_step n rk"
    by (simp add: rk_def)
  have old: "words_at (key_setup_step n rk) (4 * i) = words_at rk (4 * i)" if "i \<le> n" for i
    using that len by (simp add: words_at_def key_setup_step_def Let_def nth_append)
  have new: "words_at (key_setup_step n rk) (4 * Suc n) = key_words (words_at rk (4 * n)) n"
    using len by (simp add: words_at_def key_setup_step_def key_words_def Let_def nth_append)
  show ?case
    unfolding ext using len old new IH
    by (auto simp: le_Suc_eq key_setup_step_def Let_def)
qed

lemma rijndael_rounds_Suc: "rijndael_rounds rk p (Suc r) s =
    rijndael_rounds rk (p + 8) r (ROUND rk (p + 8) (ROUND rk (p + 4) s))"
  by (subst rijndael_rounds.simps) (simp add: Let_def)

lemma rijndael_rounds_0: "rijndael_rounds rk p 0 s = (ROUND rk (p + 4) s, p + 8)"
  by (subst rijndael_rounds.simps) (simp add: Let_def)

lemma aes128_round_middle:
  assumes "0 < r" and "r < 10" and "k = block_of (words_at rk (4 * r))"
  shows "aes128_round data r (k, block_of s) =
    (block_of (key_words (words_at rk (4 * r)) r), block_of (ROUND rk (4 * r) s))"
  using assms full_round [of s rk "4 * r"]
  by (simp add: aes128_round_def Let_def next_key_words)

lemma rijndael_is_aes128:
  assumes key: "length key = 16" and data: "length data = 16"
  shows "rijndaelEncrypt (rijndaelKeySetupEnc key) data = aes128k128d key data"
proof -
  define rk where "rk = rijndaelKeySetupEnc key"
  define k0 where "k0 = (getu32 key, getu32 (drop 4 key), getu32 (drop 8 key), getu32 (drop 12 key))"
  define d0 where "d0 = (getu32 data, getu32 (drop 4 data), getu32 (drop 8 data), getu32 (drop 12 data))"
  have rk: "words_at rk (4 * i) = schedule k0 i" if "i \<le> 10" for i
    using that key_setup_words [of 10] by (simp add: rk_def rijndaelKeySetupEnc_def k0_def)
  have kb: "take 16 key = block_of (words_at rk 0)"
    using getu32_block [OF key] key rk [of 0] by (simp add: k0_def)
  have db: "data = block_of d0"
    using getu32_block [OF data] by (simp add: d0_def)
  define w where "w r = fold (\<lambda>i s. ROUND rk (4 * Suc i) s) [0..<r] (xor_state (words_at rk 0) d0)" for r
  have w0: "w 0 = xor_state (words_at rk 0) d0" and wS: "w (Suc r) = ROUND rk (4 * Suc r) (w r)" for r
    by (simp_all add: w_def)
  have inv: "fold (aes128_round data) [0..<Suc r] (take 16 key, []) =
      (block_of (words_at rk (4 * Suc r)), block_of (w r))" if "r < 10" for r
    using that
  proof (induction r)
    case 0
    have "key_words (words_at rk 0) 0 = words_at rk 4"
      using rk [of 0] rk [of 1] by simp
    then show ?case
      by (simp add: aes128_round_def kb next_key_words db [symmetric] w0)
        (simp add: db xor_128_block)
  next
    case (Suc r)
    have "key_words (words_at rk (4 * Suc r)) (Suc r) = words_at rk (4 * Suc (Suc r))"
      using rk [of "Suc r"] rk [of "Suc (Suc r)"] Suc.prems by simp
    then show ?case
      using Suc aes128_round_middle [of "Suc r" _ rk data "w r"]
      by (simp add: wS)
  qed
  have w9: "rijndael_rounds rk 0 4 (xor_state (words_at rk 0) d0) = (w 9, 40)"
    by (simp add: eval_nat_numeral rijndael_rounds_Suc rijndael_rounds_0 wS w0)
  obtain t0 t1 t2 t3 where t: "w 9 = (t0, t1, t2, t3)" by (cases "w 9")
  have "fold (aes128_round data) [0..<11] (take 16 key, []) =
      aes128_round data 10 (fold (aes128_round data) [0..<Suc 9] (take 16 key, []))"
    by (simp add: eval_nat_numeral)
  then have "aes128k128d key data = xor_128 (shift_row (byte_sub (block_of (w 9)))) (block_of (words_at rk 40))"
    using inv [of 9] by (simp add: aes128k128d_def aes128_round_def)
  also have "\<dots> = rijndaelEncrypt rk data"
  proof -
    have st: "(getu32 data XOR rk ! 0, getu32 (drop 4 data) XOR rk ! 1,
        getu32 (drop 8 data) XOR rk ! 2, getu32 (drop 12 data) XOR rk ! 3)
      = xor_state (words_at rk 0) d0"
      by (simp add: xor_state_def words_at_def d0_def xor.commute numeral_2_eq_2)
    show ?thesis
      unfolding t last_round rijndaelEncrypt_def st w9 Let_def prod.case by simp
  qed
  finally show ?thesis by (simp add: rk_def)
qed

section \<open>The cipher is a permutation of the blocks\<close>

lemma xtime_xor: "xtime (x XOR y) = xtime x XOR xtime y"
proof -
  have "push_bit 1 ((x XOR y) AND 0x7f) = push_bit 1 (x AND 0x7f) XOR push_bit 1 (y AND 0x7f)"
    by (rule bit_word_eqI) (simp only: bit_and_iff bit_xor_iff bit_push_bit_iff, blast)
  then show ?thesis
    by (simp only: xtime_def and_0x80_eq bit_xor_iff) (simp add: xor.assoc xor.commute xor.left_commute)
qed

lemma mix_column_4: "mix_column (mix_column (mix_column (mix_column [a, b, c, d]))) = [a, b, c, d]"
  by (simp add: mix_column_xtime xtime_xor xor_simps xor.assoc xor.commute xor.left_commute)

lemma mix_column_inject:
  "mix_column (a # b # c # d # xs) = mix_column (e # f # g # h # ys) \<longleftrightarrow> a = e \<and> b = f \<and> c = g \<and> d = h"
proof
  have trunc: "mix_column (a # b # c # d # xs) = mix_column [a, b, c, d]" for a b c d xs
    by (simp add: mix_column_xtime)
  assume "mix_column (a # b # c # d # xs) = mix_column (e # f # g # h # ys)"
  then have "mix_column [a, b, c, d] = mix_column [e, f, g, h]"
    by (simp only: trunc [of a b c d xs] trunc [of e f g h ys])
  then have "[a, b, c, d] = [e, f, g, h]"
    by (metis mix_column_4)
  then show "a = e \<and> b = f \<and> c = g \<and> d = h" by simp
qed (simp add: mix_column_xtime)

lemma length_mix_column: "length (mix_column xs) = 4"
  by (simp add: mix_column_def Let_def xor_32_def)

lemma sbox_inject: "sbox x = sbox y \<longleftrightarrow> x = y"
proof -
  have "sort (map uint sbox_table) = [0..255]"
    by code_simp
  then have "distinct (sort (map uint sbox_table))"
    by (simp only: distinct_upto)
  then have "distinct (map uint sbox_table)"
    by (simp only: distinct_sort)
  then have "distinct sbox_table"
    by (simp add: distinct_map)
  then have "sbox_table ! unat x = sbox_table ! unat y \<longleftrightarrow> unat x = unat y"
    using unat_u8_less [of x] unat_u8_less [of y]
    by (simp only: nth_eq_iff_index_eq length_sbox_table)
  then show ?thesis
    unfolding sbox_def word_unat_eq_iff [of x y] .
qed

lemma length_xor_128 [simp]: "length (xor_128 a b) = 16"
  by (simp add: xor_128_def)

lemma xor_128_commute: "xor_128 a b = xor_128 b a"
  by (simp add: xor_128_def xor.commute)

lemma xor_128_inject:
  assumes "length a = 16" and "length b = 16"
  shows "xor_128 k a = xor_128 k b \<longleftrightarrow> a = b"
  using assms by (auto simp: xor_128_def xor_simps intro: nth_equalityI)

lemma sub_shift_inject:
  assumes "length a = 16" and "length b = 16"
  shows "shift_row (byte_sub a) = shift_row (byte_sub b) \<longleftrightarrow> a = b"
  by (rule list16_cases [OF assms(1)], rule list16_cases [OF assms(2)])
    (auto simp: byte_sub_def shift_row_def upt16 sbox_inject)

lemma length_shift_row: "length (shift_row a) = 16"
  by (simp add: shift_row_def)

lemma mix_columns_inject:
  assumes "length a = 16" and "length b = 16"
  shows "mix_column a @ mix_column (drop 4 a) @ mix_column (drop 8 a) @ mix_column (drop 12 a)
      = mix_column b @ mix_column (drop 4 b) @ mix_column (drop 8 b) @ mix_column (drop 12 b)
    \<longleftrightarrow> a = b"
  by (rule list16_cases [OF assms(1)], rule list16_cases [OF assms(2)])
    (auto simp: length_mix_column mix_column_inject)

lemma aes128_round_inject:
  assumes "length a = 16" and "length b = 16" and "r \<noteq> 0"
  shows "aes128_round data r (k, a) = aes128_round data' r (k, b) \<longleftrightarrow> a = b"
proof -
  have "length (mix_column x @ mix_column y @ mix_column z @ mix_column w) = 16" for x y z w
    by (simp add: length_mix_column)
  with assms show ?thesis
    unfolding aes128_round_def Let_def prod.case xor_128_commute [of _ k]
    by (simp add: xor_128_inject length_shift_row mix_columns_inject sub_shift_inject
        xor_128_commute [of _ k])
qed

lemma aes128_rounds_inject:
  assumes "length a = 16" and "length b = 16" and "0 \<notin> set rs"
  shows "fold (aes128_round data) rs (k, a) = fold (aes128_round data') rs (k, b) \<longleftrightarrow> a = b"
  using assms
proof (induction rs arbitrary: k a b)
  case (Cons r rs)
  have len: "length (snd (aes128_round d r (k, x))) = 16" for d x
    by (simp add: aes128_round_def Let_def)
  have key: "fst (aes128_round data r (k, a)) = fst (aes128_round data' r (k, b))"
    using Cons.prems by (simp add: aes128_round_def Let_def)
  obtain k1 a1 b1 where *: "aes128_round data r (k, a) = (k1, a1)" "aes128_round data' r (k, b) = (k1, b1)"
    using key by (metis prod.collapse)
  have "fold (aes128_round data) rs (k1, a1) = fold (aes128_round data') rs (k1, b1) \<longleftrightarrow> a1 = b1"
    using len [of data a] len [of data' b] * Cons.prems by (intro Cons.IH) auto
  also have "\<dots> \<longleftrightarrow> a = b"
    using aes128_round_inject [of a b r data k data'] Cons.prems * by auto
  finally show ?case using * by simp
qed simp

lemma length_aes128k128d [simp, crypto_len]: "length (aes128k128d key data) = 16"
proof -
  have "length (snd (fold (aes128_round data) (rs @ [r]) s)) = 16" for rs r s
    by (cases "fold (aes128_round data) rs s") (simp add: aes128_round_def Let_def)
  from this [of "[0..<10]" 10] show ?thesis
    by (simp add: aes128k128d_def eval_nat_numeral)
qed

lemma fold_key_irrelevant: "fst (fold (aes128_round data) rs (k, a)) = fst (fold (aes128_round data') rs (k, b))"
proof (induction rs arbitrary: k a b)
  case (Cons r rs)
  have "fst (aes128_round data r (k, a)) = fst (aes128_round data' r (k, b))"
    by (simp add: aes128_round_def Let_def)
  then show ?case
    using Cons.IH by (metis fold_simps(2) prod.collapse)
qed simp

lemma aes128k128d_inject:
  assumes "length x = 16" and "length y = 16"
  shows "aes128k128d key x = aes128k128d key y \<longleftrightarrow> x = y"
proof -
  let ?k = "next_key (take 16 key) 0" and ?z = "xor_128 (take 16 key)"
  have split: "fold (aes128_round d) [0..<11] (take 16 key, []) =
      fold (aes128_round d) [1..<11] (?k, ?z d)" for d
  proof -
    have "[0..<11] = 0 # [1..<11 :: nat]" by (simp add: upt_rec)
    then show ?thesis by (simp add: aes128_round_def)
  qed
  have "aes128k128d key x = aes128k128d key y \<longleftrightarrow>
      fold (aes128_round x) [1..<11] (?k, ?z x) = fold (aes128_round y) [1..<11] (?k, ?z y)"
    unfolding aes128k128d_def split by (metis fold_key_irrelevant prod.collapse)
  also have "\<dots> \<longleftrightarrow> ?z x = ?z y"
    by (rule aes128_rounds_inject) simp_all
  finally show ?thesis using assms by (simp only: xor_128_inject)
qed

section \<open>Both encryptions provide the block-cipher interface\<close>

interpretation aes: block_permutation "aes128k128d key" for key
  by unfold_locales (simp_all add: aes128k128d_inject)

lemma length_aes_128_encrypt [simp, crypto_len]: "length (aes_128_encrypt rk pt) = 16"
  by (simp add: aes_128_encrypt_def rijndaelEncrypt_def Let_def case_prod_beta)

interpretation rijndael: block_cipher "aes_128_encrypt rk" for rk
  by unfold_locales simp

section \<open>Properties\<close>

text \<open>The table-driven AES of the CMAC code (key schedule \<open>rijndaelKeySetupEnc\<close>, then
  \<open>rijndaelEncrypt\<close>) and the byte-oriented AES of the CCMP code (\<open>aes128k128d\<close>) compute the same
  function of key and block.\<close>

theorem aes_implementations_agree:
  assumes "length key = 16" and "length data = 16"
  shows "rijndaelEncrypt (rijndaelKeySetupEnc key) data = aes128k128d key data"
  using assms by (rule rijndael_is_aes128)

theorem aes_implementations_agree_witness:
  "rijndaelEncrypt (rijndaelKeySetupEnc (replicate 16 7)) (replicate 16 9)
     = aes128k128d (replicate 16 7) (replicate 16 9)"
  by (rule aes_implementations_agree) simp_all

text \<open>For every key, \<open>aes128k128d\<close> maps the 16-byte blocks injectively to 16-byte blocks, so
  it is a permutation of the block space: no round loses information.\<close>

theorem aes128k128d_permutation:
  assumes "length x = 16" and "length y = 16"
  shows "length (aes128k128d key x) = 16 \<and> (aes128k128d key x = aes128k128d key y \<longleftrightarrow> x = y)"
  using assms by (simp add: aes128k128d_inject)

theorem aes128k128d_permutation_witness:
  "aes128k128d (replicate 16 7) (replicate 16 1) \<noteq> aes128k128d (replicate 16 7) (replicate 16 2)"
  using aes128k128d_permutation [of "replicate 16 1" "replicate 16 2" "replicate 16 7"]
  by (simp add: numeral_eq_Suc)

end
