(* ===== verification/Ccmp.thy ===== *)
theory Ccmp
  imports Aes_Block "HOL-Library.Signed_Division"
begin

text \<open>
  CCMP encryption and decryption of one fragment (\<open>construct_mic_iv\<close> to \<open>aes_cipher\<close> and
  \<open>aes_decipher\<close> of \<^verbatim>\<open>core/rtw_security.c\<close>) on checked buffers, the CCM
  construction they are meant to compute, and the proof that they do.

  Frames are byte lists and every access the driver computes an index for is checked, so the
  result \<^term>\<open>None\<close> stands for an access outside the frame or outside the static buffer
  \<open>message\<close>. The parameter \<open>w\<close> is true when the driver is built with \<open>CONFIG_IEEE80211W\<close>;
  \<open>CONSISTENT_PN_ORDER\<close> is not defined anywhere.
\<close>

section \<open>Frame control field\<close>

definition GetFrameType :: "bytes \<Rightarrow> u16 option" where
  "GetFrameType pbuf = do { v \<leftarrow> RTW_GET_LE16 pbuf 0; Some (v AND 0x0c) }"

definition GetFrameSubType :: "bytes \<Rightarrow> u16 option" where
  "GetFrameSubType pbuf = do { v \<leftarrow> RTW_GET_LE16 pbuf 0; Some (v AND 0xfc) }"

definition WIFI_MGT_TYPE :: u16 where "WIFI_MGT_TYPE = 0"
definition WIFI_DATA :: u16 where "WIFI_DATA = 0x08"
definition WIFI_DATA_CFACK :: u16 where "WIFI_DATA_CFACK = 0x18"
definition WIFI_DATA_CFPOLL :: u16 where "WIFI_DATA_CFPOLL = 0x28"
definition WIFI_DATA_CFACKPOLL :: u16 where "WIFI_DATA_CFACKPOLL = 0x38"
definition WLAN_HDR_A3_LEN :: nat where "WLAN_HDR_A3_LEN = 24"
definition WLAN_HDR_A3_QOS_LEN :: nat where "WLAN_HDR_A3_QOS_LEN = 26"
definition MAX_MSG_SIZE :: nat where "MAX_MSG_SIZE = 2048"

section \<open>Block constructors\<close>

definition qos_tc :: "bool \<Rightarrow> bool \<Rightarrow> bytes \<Rightarrow> u8 option" where
  "qos_tc qc_exists a4_exists mpdu =
     (if qc_exists \<and> a4_exists then do { b \<leftarrow> rd mpdu 30; Some (b AND 0x0f) }
      else if qc_exists then do { b \<leftarrow> rd mpdu 24; Some (b AND 0x0f) }
      else Some 0)"

definition mgt_bit :: "bool \<Rightarrow> u16 \<Rightarrow> u8 \<Rightarrow> u8" where
  "mgt_bit w frtype b = (if w \<and> frtype = WIFI_MGT_TYPE then b OR 0x10 else b)"

definition construct_mic_iv ::
  "bool \<Rightarrow> bool \<Rightarrow> bool \<Rightarrow> bytes \<Rightarrow> nat \<Rightarrow> bytes \<Rightarrow> u16 \<Rightarrow> bytes option" where
  "construct_mic_iv w qc_exists a4_exists mpdu payload_length pn_vector frtype = do {
     tc \<leftarrow> qos_tc qc_exists a4_exists mpdu;
     a2 \<leftarrow> rdn mpdu 10 6;
     Some ([0x59, mgt_bit w frtype tc] @ a2 @ rev pn_vector @
       [of_nat (payload_length div 256), of_nat (payload_length mod 256)]) }"

definition construct_mic_header1 :: "bool \<Rightarrow> nat \<Rightarrow> bytes \<Rightarrow> u16 \<Rightarrow> bytes option" where
  "construct_mic_header1 w header_length mpdu frtype = do {
     b0 \<leftarrow> rd mpdu 0;
     b1 \<leftarrow> rd mpdu 1;
     a12 \<leftarrow> rdn mpdu 4 12;
     Some ([of_int ((int header_length - 2) sdiv 256), of_int ((int header_length - 2) smod 256),
            if w \<and> frtype = WIFI_MGT_TYPE then b0 else b0 AND 0xcf, b1 AND 0xc7] @ a12) }"

definition construct_mic_header2 :: "bytes \<Rightarrow> bool \<Rightarrow> bool \<Rightarrow> bytes option" where
  "construct_mic_header2 mpdu a4_exists qc_exists = do {
     a3 \<leftarrow> rdn mpdu 16 6;
     rest \<leftarrow> (if \<not> qc_exists \<and> a4_exists then do { a4 \<leftarrow> rdn mpdu 24 6; Some (a4 @ [0, 0]) }
       else if qc_exists \<and> \<not> a4_exists then
         do { q0 \<leftarrow> rd mpdu 24; q1 \<leftarrow> rd mpdu 25;
              Some ([q0 AND 0x0f, q1 AND 0] @ replicate 6 0) }
       else if qc_exists \<and> a4_exists then
         do { a4 \<leftarrow> rdn mpdu 24 6; q0 \<leftarrow> rd mpdu 30; q1 \<leftarrow> rd mpdu 31;
              Some (a4 @ [q0 AND 0x0f, q1 AND 0]) }
       else Some (replicate 8 0));
     Some (a3 @ [0, 0] @ rest) }"

definition construct_ctr_preload ::
  "bool \<Rightarrow> bool \<Rightarrow> bool \<Rightarrow> bytes \<Rightarrow> bytes \<Rightarrow> nat \<Rightarrow> u16 \<Rightarrow> bytes option" where
  "construct_ctr_preload w a4_exists qc_exists mpdu pn_vector c frtype = do {
     tc \<leftarrow> qos_tc qc_exists a4_exists mpdu;
     a2 \<leftarrow> rdn mpdu 10 6;
     Some ([0x01, mgt_bit w frtype tc] @ a2 @ rev pn_vector @
       [of_nat (c div 256), of_nat (c mod 256)]) }"

definition bitwise_xor :: "bytes \<Rightarrow> bytes \<Rightarrow> bytes" where
  "bitwise_xor ina inb = map (\<lambda>i. ina ! i XOR inb ! i) [0..<16]"

section \<open>The passes over the payload\<close>

text \<open>Which header fields the frame has, and the header length both routines continue with.
  \<open>frsubtype\<close> has already been shifted right by four.\<close>

definition ccmp_classify :: "nat \<Rightarrow> u16 \<Rightarrow> u16 \<Rightarrow> nat \<times> bool \<times> bool" where
  "ccmp_classify hdrlen frtype frsubtype =
     (let a4_exists = \<not> (hdrlen = WLAN_HDR_A3_LEN \<or> hdrlen = WLAN_HDR_A3_QOS_LEN);
          hdrlen' = (if hdrlen \<noteq> WLAN_HDR_A3_QOS_LEN then hdrlen + 2 else hdrlen)
      in if frtype OR frsubtype = WIFI_DATA_CFACK \<or> frtype OR frsubtype = WIFI_DATA_CFPOLL
            \<or> frtype OR frsubtype = WIFI_DATA_CFACKPOLL
         then (hdrlen', True, a4_exists)
         else if frtype = WIFI_DATA \<and> (frsubtype = 0x08 \<or> frsubtype = 0x09 \<or> frsubtype = 0x0a
            \<or> frsubtype = 0x0b)
         then (hdrlen', True, a4_exists)
         else (hdrlen, False, a4_exists))"

definition ccmp_pn :: "bytes \<Rightarrow> nat \<Rightarrow> bytes option" where
  "ccmp_pn pframe hdrlen = do {
     lo \<leftarrow> rdn pframe hdrlen 2;
     hi \<leftarrow> rdn pframe (hdrlen + 4) 4;
     Some (lo @ hi) }"

text \<open>\<open>for (i = 0; i < num_blocks; i++)\<close> of the MIC calculation.\<close>

fun mic_loop :: "bytes \<Rightarrow> bytes \<Rightarrow> nat \<Rightarrow> nat \<Rightarrow> bytes \<Rightarrow> (bytes \<times> nat) option" where
  "mic_loop key buf 0 payload_index aes_out = Some (aes_out, payload_index)"
| "mic_loop key buf (Suc n) payload_index aes_out = do {
     blk \<leftarrow> rdn buf payload_index 16;
     mic_loop key buf n (payload_index + 16) (aes128k128d key (bitwise_xor aes_out blk)) }"

definition ccmp_mic ::
  "bool \<Rightarrow> bytes \<Rightarrow> nat \<Rightarrow> bool \<Rightarrow> bool \<Rightarrow> u16 \<Rightarrow> bytes \<Rightarrow> bytes \<Rightarrow> nat \<Rightarrow> (bytes \<times> nat) option" where
  "ccmp_mic w key hdrlen qc_exists a4_exists frtype pn_vector buf plen = do {
     mic_iv \<leftarrow> construct_mic_iv w qc_exists a4_exists buf plen pn_vector frtype;
     mic_header1 \<leftarrow> construct_mic_header1 w hdrlen buf frtype;
     mic_header2 \<leftarrow> construct_mic_header2 buf a4_exists qc_exists;
     let aes_out = aes128k128d key mic_iv;
     let aes_out = aes128k128d key (bitwise_xor aes_out mic_header1);
     let aes_out = aes128k128d key (bitwise_xor aes_out mic_header2);
     (aes_out, payload_index) \<leftarrow> mic_loop key buf (plen div 16) (hdrlen + 8) aes_out;
     if 0 < plen mod 16 then do {
       r \<leftarrow> rdn buf payload_index (plen mod 16);
       let padded_buffer = r @ replicate (16 - plen mod 16) 0;
       Some (take 8 (aes128k128d key (bitwise_xor aes_out padded_buffer)), payload_index + plen mod 16) }
     else Some (take 8 aes_out, payload_index) }"

text \<open>The counter-mode loop, in place; \<open>i\<close> is the loop variable.\<close>

fun ctr_loop ::
  "bool \<Rightarrow> bytes \<Rightarrow> bool \<Rightarrow> bool \<Rightarrow> u16 \<Rightarrow> bytes \<Rightarrow> nat \<Rightarrow> nat \<Rightarrow> nat \<Rightarrow> bytes \<Rightarrow> (bytes \<times> nat) option" where
  "ctr_loop w key qc_exists a4_exists frtype pn_vector 0 i payload_index buf = Some (buf, payload_index)"
| "ctr_loop w key qc_exists a4_exists frtype pn_vector (Suc n) i payload_index buf = do {
     ctr_preload \<leftarrow> construct_ctr_preload w a4_exists qc_exists buf pn_vector (i + 1) frtype;
     blk \<leftarrow> rdn buf payload_index 16;
     buf \<leftarrow> wrn buf payload_index (bitwise_xor (aes128k128d key ctr_preload) blk);
     ctr_loop w key qc_exists a4_exists frtype pn_vector n (i + 1) (payload_index + 16) buf }"

definition ccmp_ctr ::
  "bool \<Rightarrow> bytes \<Rightarrow> nat \<Rightarrow> bool \<Rightarrow> bool \<Rightarrow> u16 \<Rightarrow> bytes \<Rightarrow> bytes \<Rightarrow> nat \<Rightarrow> (bytes \<times> nat) option" where
  "ccmp_ctr w key hdrlen qc_exists a4_exists frtype pn_vector buf plen = do {
     (buf, payload_index) \<leftarrow>
       ctr_loop w key qc_exists a4_exists frtype pn_vector (plen div 16) 0 (hdrlen + 8) buf;
     if 0 < plen mod 16 then do {
       ctr_preload \<leftarrow> construct_ctr_preload w a4_exists qc_exists buf pn_vector (plen div 16 + 1) frtype;
       r \<leftarrow> rdn buf payload_index (plen mod 16);
       let padded_buffer = r @ replicate (16 - plen mod 16) 0;
       let chain_buffer = bitwise_xor (aes128k128d key ctr_preload) padded_buffer;
       buf \<leftarrow> wrn buf payload_index (take (plen mod 16) chain_buffer);
       Some (buf, payload_index + plen mod 16) }
     else Some (buf, payload_index) }"

text \<open>From the construction of the MIC blocks to the encrypted MIC: the part \<open>aes_cipher\<close> runs on
  the frame and \<open>aes_decipher\<close> repeats on its copy \<open>message\<close>.\<close>

definition ccmp_protect ::
  "bool \<Rightarrow> bytes \<Rightarrow> nat \<Rightarrow> bool \<Rightarrow> bool \<Rightarrow> u16 \<Rightarrow> bytes \<Rightarrow> bytes \<Rightarrow> nat \<Rightarrow> bytes option" where
  "ccmp_protect w key hdrlen qc_exists a4_exists frtype pn_vector buf plen = do {
     (mic, payload_index) \<leftarrow> ccmp_mic w key hdrlen qc_exists a4_exists frtype pn_vector buf plen;
     buf \<leftarrow> wrn buf payload_index mic;
     (buf, payload_index) \<leftarrow> ccmp_ctr w key hdrlen qc_exists a4_exists frtype pn_vector buf plen;
     ctr_preload \<leftarrow> construct_ctr_preload w a4_exists qc_exists buf pn_vector 0 frtype;
     m \<leftarrow> rdn buf (hdrlen + 8 + plen) 8;
     let padded_buffer = m @ replicate 8 0;
     let chain_buffer = bitwise_xor (aes128k128d key ctr_preload) padded_buffer;
     wrn buf payload_index (take 8 chain_buffer) }"

definition aes_cipher :: "bool \<Rightarrow> bytes \<Rightarrow> nat \<Rightarrow> bytes \<Rightarrow> u32 \<Rightarrow> bytes option" where
  "aes_cipher w key hdrlen pframe plen = do {
     frtype \<leftarrow> GetFrameType pframe;
     frsubtype \<leftarrow> GetFrameSubType pframe;
     let frsubtype = drop_bit 4 frsubtype;
     let (hdrlen, qc_exists, a4_exists) = ccmp_classify hdrlen frtype frsubtype;
     pn_vector \<leftarrow> ccmp_pn pframe hdrlen;
     ccmp_protect w key hdrlen qc_exists a4_exists frtype pn_vector pframe (unat plen) }"

text \<open>The result is \<open>res == _SUCCESS\<close>, the frame and the static buffer \<open>message\<close>.\<close>

definition aes_decipher ::
  "bool \<Rightarrow> bytes \<Rightarrow> nat \<Rightarrow> bytes \<Rightarrow> u32 \<Rightarrow> bytes \<Rightarrow> (bool \<times> bytes \<times> bytes) option" where
  "aes_decipher w key hdrlen pframe plen message = do {
     frtype \<leftarrow> GetFrameType pframe;
     frsubtype \<leftarrow> GetFrameSubType pframe;
     let frsubtype = drop_bit 4 frsubtype;
     let plen8 = unat (plen - 8);
     pn_vector \<leftarrow> ccmp_pn pframe hdrlen;
     let (hdrlen, qc_exists, a4_exists) = ccmp_classify hdrlen frtype frsubtype;
     (pframe, _) \<leftarrow> ccmp_ctr w key hdrlen qc_exists a4_exists frtype pn_vector pframe plen8;
     let total = unat (of_nat hdrlen + plen + 8 :: u32);
     message \<leftarrow> (if total \<le> MAX_MSG_SIZE then do { c \<leftarrow> rdn pframe 0 total; wrn message 0 c }
                else Some message);
     pn_vector \<leftarrow> ccmp_pn pframe hdrlen;
     message \<leftarrow> ccmp_protect w key hdrlen qc_exists a4_exists frtype pn_vector message plen8;
     a \<leftarrow> rdn pframe (hdrlen + 8 + unat plen - 8) 8;
     b \<leftarrow> rdn message (hdrlen + 8 + unat plen - 8) 8;
     Some (a = b, pframe, message) }"

section \<open>The CCM construction\<close>

text \<open>Counter with CBC-MAC (RFC 3610, \<open>M = 8\<close>, \<open>L = 2\<close>) over a block cipher \<open>E\<close>.\<close>

definition be16 :: "nat \<Rightarrow> bytes" where
  "be16 n = [of_nat (n div 256), of_nat (n mod 256)]"

definition ccm_tag :: "(bytes \<Rightarrow> bytes) \<Rightarrow> bytes \<Rightarrow> bytes \<Rightarrow> bytes \<Rightarrow> bytes" where
  "ccm_tag E nonce aad p =
     take 8 (cbc E (cbc E (E ([0x59] @ nonce @ be16 (length p))) (be16 (length aad) @ aad)) p)"

definition ccm_ctr :: "bytes \<Rightarrow> nat \<Rightarrow> bytes" where
  "ccm_ctr nonce i = [0x01] @ nonce @ be16 i"

definition ccm_encrypt :: "(bytes \<Rightarrow> bytes) \<Rightarrow> bytes \<Rightarrow> bytes \<Rightarrow> bytes \<Rightarrow> bytes" where
  "ccm_encrypt E nonce aad p = ctr_xor E (ccm_ctr nonce) 1 p
     @ xorl (E (ccm_ctr nonce 0)) (ccm_tag E nonce aad p)"

text \<open>The nonce and the additional data the driver takes from the frame header.\<close>

definition hdr_ft :: "bytes \<Rightarrow> u16" where "hdr_ft hdr = bytes_le16 (hdr ! 0) (hdr ! 1) AND 0x0c"
definition hdr_fst :: "bytes \<Rightarrow> u16" where
  "hdr_fst hdr = drop_bit 4 (bytes_le16 (hdr ! 0) (hdr ! 1) AND 0xfc)"
definition hdr_qc :: "bytes \<Rightarrow> bool" where
  "hdr_qc hdr = fst (snd (ccmp_classify (length hdr) (hdr_ft hdr) (hdr_fst hdr)))"
definition hdr_a4 :: "bytes \<Rightarrow> bool" where
  "hdr_a4 hdr = snd (snd (ccmp_classify (length hdr) (hdr_ft hdr) (hdr_fst hdr)))"

definition ccmp_nonce :: "bool \<Rightarrow> bytes \<Rightarrow> bytes \<Rightarrow> bytes" where
  "ccmp_nonce w hdr iv = mgt_bit w (hdr_ft hdr) (if hdr_qc hdr then hdr ! 24 AND 0x0f else 0)
     # take 6 (drop 10 hdr) @ [iv ! 7, iv ! 6, iv ! 5, iv ! 4, iv ! 1, iv ! 0]"

definition ccmp_aad :: "bool \<Rightarrow> bytes \<Rightarrow> bytes" where
  "ccmp_aad w hdr = [if w \<and> hdr_ft hdr = WIFI_MGT_TYPE then hdr ! 0 else hdr ! 0 AND 0xcf, hdr ! 1 AND 0xc7]
     @ take 18 (drop 4 hdr) @ [0, 0]
     @ (if hdr_a4 hdr then take 6 (drop 24 hdr) else [])
     @ (if hdr_qc hdr then [hdr ! 24 AND 0x0f, 0] else [])"

text \<open>The headers the driver builds: the length passed is the length of the header, QoS field
  included, and there is no frame with both a fourth address and a QoS field.\<close>

definition ccmp_header :: "bytes \<Rightarrow> bool" where
  "ccmp_header hdr \<longleftrightarrow> length hdr = 24 + (if hdr_a4 hdr then 6 else 0) + (if hdr_qc hdr then 2 else 0)
     \<and> \<not> (hdr_a4 hdr \<and> hdr_qc hdr)"

section \<open>Reading a header through a longer buffer\<close>

lemma rd_header [mem_simps]: "i < length hdr \<Longrightarrow> rd (hdr @ rest) i = Some (hdr ! i)"
  by (simp add: rd_def nth_append)

lemma rdn_header [mem_simps]: "i + n \<le> length hdr \<Longrightarrow> rdn (hdr @ rest) i n = Some (take n (drop i hdr))"
  by (simp add: rdn_def)

lemma bitwise_xor_xorl: "length a = 16 \<Longrightarrow> length b = 16 \<Longrightarrow> bitwise_xor a b = xorl a b"
  by (rule nth_equalityI) (simp_all add: bitwise_xor_def)

lemma frame_type_header:
  assumes "2 \<le> length hdr"
  shows "GetFrameType (hdr @ rest) = Some (hdr_ft hdr)"
    and "GetFrameSubType (hdr @ rest) = Some (bytes_le16 (hdr ! 0) (hdr ! 1) AND 0xfc)"
proof -
  have "rd (hdr @ rest) 0 = Some (hdr ! 0)" "rd (hdr @ rest) 1 = Some (hdr ! 1)"
    using assms by (auto simp: rd_def nth_append)
  then show "GetFrameType (hdr @ rest) = Some (hdr_ft hdr)"
    and "GetFrameSubType (hdr @ rest) = Some (bytes_le16 (hdr ! 0) (hdr ! 1) AND 0xfc)"
    by (simp_all add: GetFrameType_def GetFrameSubType_def RTW_GET_LE16_def hdr_ft_def
        bytes_le16_def or.commute)
qed

lemma classify_header:
  assumes "ccmp_header hdr"
  shows "ccmp_classify (length hdr) (hdr_ft hdr) (hdr_fst hdr) = (length hdr, hdr_qc hdr, hdr_a4 hdr)"
proof -
  have "fst (ccmp_classify (length hdr) (hdr_ft hdr) (hdr_fst hdr)) = length hdr"
    using assms by (auto simp: ccmp_header_def hdr_qc_def hdr_a4_def ccmp_classify_def Let_def
        WLAN_HDR_A3_LEN_def WLAN_HDR_A3_QOS_LEN_def split: if_splits)
  then show ?thesis by (simp add: hdr_qc_def hdr_a4_def prod_eq_iff)
qed

lemma header_length:
  "ccmp_header hdr \<Longrightarrow> 24 \<le> length hdr"
  "ccmp_header hdr \<Longrightarrow> hdr_a4 hdr \<Longrightarrow> length hdr = 30 \<and> \<not> hdr_qc hdr"
  "ccmp_header hdr \<Longrightarrow> hdr_qc hdr \<Longrightarrow> length hdr = 26 \<and> \<not> hdr_a4 hdr"
  by (auto simp: ccmp_header_def)

lemma ctr_preload_header:
  assumes "ccmp_header hdr" and "length iv = 8"
  shows "construct_ctr_preload w (hdr_a4 hdr) (hdr_qc hdr) (hdr @ rest)
      [iv ! 0, iv ! 1, iv ! 4, iv ! 5, iv ! 6, iv ! 7] c (hdr_ft hdr)
    = Some (ccm_ctr (ccmp_nonce w hdr iv) c)"
  using header_length [OF assms(1)]
  by (cases "hdr_qc hdr")
    (simp_all add: construct_ctr_preload_def qos_tc_def mem_simps ccm_ctr_def ccmp_nonce_def be16_def)

lemma mic_iv_header:
  assumes "ccmp_header hdr" and "length iv = 8"
  shows "construct_mic_iv w (hdr_qc hdr) (hdr_a4 hdr) (hdr @ rest) n
      [iv ! 0, iv ! 1, iv ! 4, iv ! 5, iv ! 6, iv ! 7] (hdr_ft hdr)
    = Some ([0x59] @ ccmp_nonce w hdr iv @ be16 n)"
  using header_length [OF assms(1)]
  by (cases "hdr_qc hdr")
    (simp_all add: construct_mic_iv_def qos_tc_def mem_simps ccmp_nonce_def be16_def)

lemma length_ccmp_aad: "ccmp_header hdr \<Longrightarrow> length (ccmp_aad w hdr) = length hdr - 2"
  by (auto simp: ccmp_aad_def ccmp_header_def)

lemma mic_headers_header:
  assumes "ccmp_header hdr"
  obtains h1 h2 where "construct_mic_header1 w (length hdr) (hdr @ rest) (hdr_ft hdr) = Some h1"
    and "construct_mic_header2 (hdr @ rest) (hdr_a4 hdr) (hdr_qc hdr) = Some h2"
    and "length h1 = 16" and "length h2 = 16"
    and "cbc E a (be16 (length (ccmp_aad w hdr)) @ ccmp_aad w hdr) = E (xorl (E (xorl a h1)) h2)"
proof -
  note len = header_length [OF assms]
  define h1 where "h1 = be16 (length hdr - 2) @ take 14 (ccmp_aad w hdr)"
  define h2 where "h2 = pad16 (drop 14 (ccmp_aad w hdr))"
  have aad: "length (ccmp_aad w hdr) = length hdr - 2" using assms by (rule length_ccmp_aad)
  have le: "length hdr \<le> 30" using assms by (auto simp: ccmp_header_def split: if_splits)
  have be: "be16 (length hdr - 2) =
      [of_int ((int (length hdr) - 2) sdiv 256), of_int ((int (length hdr) - 2) smod 256)]"
  proof -
    have "length hdr = 24 \<or> length hdr = 26 \<or> length hdr = 30"
      using assms by (auto simp: ccmp_header_def)
    then show ?thesis
      by (elim disjE) (simp_all add: be16_def signed_divide_int_def signed_modulo_int_def)
  qed
  have d: "take 18 (drop 4 hdr) = take 12 (drop 4 hdr) @ take 6 (drop 16 hdr)"
    using take_add [of 12 6 "drop 4 hdr"] by simp
  have 1: "construct_mic_header1 w (length hdr) (hdr @ rest) (hdr_ft hdr) = Some h1"
  proof -
    have "rd (hdr @ rest) 0 = Some (hdr ! 0)" "rd (hdr @ rest) 1 = Some (hdr ! 1)"
      "rdn (hdr @ rest) 4 12 = Some (take 12 (drop 4 hdr))"
      using len(1) by (auto simp: rd_def nth_append rdn_header)
    then show ?thesis
      using len(1) unfolding construct_mic_header1_def h1_def be ccmp_aad_def d by simp
  qed
  define tl where "tl = take 6 (drop 16 hdr) @ [0, 0] @ (if hdr_a4 hdr then take 6 (drop 24 hdr) else [])
     @ (if hdr_qc hdr then [hdr ! 24 AND 0x0f, 0] else [])"
  have tl: "drop 14 (ccmp_aad w hdr) = tl"
    using len(1) by (simp add: ccmp_aad_def d tl_def)
  have rep: "replicate 2 (0 :: u8) = [0, 0]" by (simp add: numeral_2_eq_2)
  have 2: "construct_mic_header2 (hdr @ rest) (hdr_a4 hdr) (hdr_qc hdr) = Some h2"
    using len by (cases "hdr_qc hdr"; cases "hdr_a4 hdr")
      (simp_all add: construct_mic_header2_def h2_def tl tl_def mem_simps pad16_def rep)
  have "be16 (length (ccmp_aad w hdr)) @ ccmp_aad w hdr = h1 @ drop 14 (ccmp_aad w hdr)"
    unfolding h1_def aad by simp
  moreover have l1: "length h1 = 16" and l2: "length h2 = 16" 
    using len(1) le by (simp_all add: h1_def h2_def aad be16_def)
  moreover have "drop 14 (ccmp_aad w hdr) \<noteq> []" "length (drop 14 (ccmp_aad w hdr)) \<le> 16"
    using len(1) le by (simp_all add: aad)
  ultimately have "cbc E a (be16 (length (ccmp_aad w hdr)) @ ccmp_aad w hdr) = E (xorl (E (xorl a h1)) h2)"
    by (simp add: cbc_block cbc_short h2_def)
  with 1 2 l1 l2 that show thesis by blast
qed

section \<open>The passes compute CCM\<close>

lemma mic_loop_cbc:
  assumes "length a = 16" and "length b = 16 * n"
  shows "mic_loop key (pre @ b @ rest) n (length pre) a
    = Some (cbc (aes128k128d key) a b, length pre + 16 * n)"
  using assms
proof (induction n arbitrary: pre a b)
  case (Suc n)
  let ?c = "take 16 b" and ?d = "drop 16 b"
  have c: "length ?c = 16" and d: "length ?d = 16 * n" using Suc.prems by simp_all
  have b: "b = ?c @ ?d" by simp
  have buf: "pre @ b @ rest = (pre @ ?c) @ ?d @ rest" by simp
  have "mic_loop key (pre @ b @ rest) (Suc n) (length pre) a =
      mic_loop key ((pre @ ?c) @ ?d @ rest) n (length (pre @ ?c)) (aes128k128d key (xorl a ?c))"
    using c Suc.prems(1) unfolding buf
    by (simp add: rdn_append [of "length pre" pre 16 ?c "?d @ rest"] bitwise_xor_xorl)
  also have "\<dots> = Some (cbc (aes128k128d key) (aes128k128d key (xorl a ?c)) ?d, length (pre @ ?c) + 16 * n)"
    using d by (intro Suc.IH) simp_all
  also have "cbc (aes128k128d key) (aes128k128d key (xorl a ?c)) ?d = cbc (aes128k128d key) a b"
    using cbc_block [OF c, of "aes128k128d key" a ?d] by simp
  finally show ?case using c by simp
qed simp

lemma ctr_loop_ctr:
  assumes "ccmp_header hdr" and "length iv = 8" and "length b = 16 * n"
  shows "ctr_loop w key (hdr_qc hdr) (hdr_a4 hdr) (hdr_ft hdr)
      [iv ! 0, iv ! 1, iv ! 4, iv ! 5, iv ! 6, iv ! 7] n i (length (hdr @ pre)) (hdr @ pre @ b @ rest)
    = Some (hdr @ pre @ ctr_xor (aes128k128d key) (ccm_ctr (ccmp_nonce w hdr iv)) (i + 1) b @ rest,
            length (hdr @ pre) + 16 * n)"
  using assms(3)
proof (induction n arbitrary: pre i b)
  case (Suc n)
  let ?c = "take 16 b" and ?d = "drop 16 b" and ?blk = "ccm_ctr (ccmp_nonce w hdr iv)"
  let ?x = "xorl (aes128k128d key (?blk (i + 1))) ?c"
  have c: "length ?c = 16" and d: "length ?d = 16 * n" using Suc.prems by simp_all
  have x: "length ?x = length ?c" using c by simp
  have buf: "hdr @ pre @ b @ rest = (hdr @ pre) @ ?c @ (?d @ rest)" by simp
  have rd: "rdn (hdr @ pre @ b @ rest) (length (hdr @ pre)) 16 = Some ?c"
    unfolding buf by (rule rdn_append) (simp_all only: c)
  have wr: "wrn (hdr @ pre @ b @ rest) (length (hdr @ pre)) ?x = Some (hdr @ (pre @ ?x) @ ?d @ rest)"
    using wrn_append [of "length (hdr @ pre)" "hdr @ pre" ?x ?c "?d @ rest"] x unfolding buf by simp
  have pos: "length (hdr @ pre) + 16 = length (hdr @ pre @ ?x)" using c by simp
  have "ctr_loop w key (hdr_qc hdr) (hdr_a4 hdr) (hdr_ft hdr)
      [iv ! 0, iv ! 1, iv ! 4, iv ! 5, iv ! 6, iv ! 7] (Suc n) i (length (hdr @ pre)) (hdr @ pre @ b @ rest)
    = ctr_loop w key (hdr_qc hdr) (hdr_a4 hdr) (hdr_ft hdr)
      [iv ! 0, iv ! 1, iv ! 4, iv ! 5, iv ! 6, iv ! 7] n (i + 1) (length (hdr @ pre @ ?x))
      (hdr @ (pre @ ?x) @ ?d @ rest)"
    unfolding ctr_loop.simps ctr_preload_header [OF assms(1,2)] rd bind.bind_lunit
      bitwise_xor_xorl [OF length_aes128k128d c] wr pos ..
  also have "\<dots> = Some (hdr @ (pre @ ?x) @ ctr_xor (aes128k128d key) ?blk (i + 1 + 1) ?d @ rest,
      length (hdr @ pre @ ?x) + 16 * n)"
    using Suc.IH [OF d, of "i + 1" "pre @ ?x"] by (simp only: append_assoc)
  also have "(pre @ ?x) @ ctr_xor (aes128k128d key) ?blk (i + 1 + 1) ?d @ rest
      = pre @ ctr_xor (aes128k128d key) ?blk (i + 1) b @ rest"
    using ctr_xor_block [OF c, of "aes128k128d key" ?blk "i + 1" ?d] by simp
  finally show ?case using c by simp
qed simp


lemma length_nonce: "ccmp_header hdr \<Longrightarrow> length (ccmp_nonce w hdr iv) = 13"
  by (drule header_length(1)) (simp add: ccmp_nonce_def)

lemma length_ccm_ctr: "ccmp_header hdr \<Longrightarrow> length (ccm_ctr (ccmp_nonce w hdr iv) i) = 16"
  by (simp add: ccm_ctr_def length_nonce be16_def)

lemma ccmp_pn_header:
  assumes "length iv = 8"
  shows "ccmp_pn (hdr @ iv @ rest) (length hdr) = Some [iv ! 0, iv ! 1, iv ! 4, iv ! 5, iv ! 6, iv ! 7]"
  using assms
  by (auto simp: numeral_eq_Suc length_Suc_conv ccmp_pn_def rdn_def)

text \<open>The payload as full blocks and remainder.\<close>

lemma payload_split:
  obtains b r where "p = b @ r" and "length b = 16 * (length p div 16)" and "length r = length p mod 16"
proof -
  let ?m = "16 * (length p div 16)"
  have "length (take ?m p) = ?m" by (simp add: min.absorb2)
  moreover have "length (drop ?m p) = length p mod 16" by (simp add: minus_mult_div_eq_mod)
  ultimately show thesis using that [of "take ?m p" "drop ?m p"] by simp
qed

lemma ccmp_ctr_header:
  assumes "ccmp_header hdr" and "length iv = 8"
  shows "ccmp_ctr w key (length hdr) (hdr_qc hdr) (hdr_a4 hdr) (hdr_ft hdr)
      [iv ! 0, iv ! 1, iv ! 4, iv ! 5, iv ! 6, iv ! 7] (hdr @ iv @ p @ rest) (length p)
    = Some (hdr @ iv @ ctr_xor (aes128k128d key) (ccm_ctr (ccmp_nonce w hdr iv)) 1 p @ rest,
            length hdr + 8 + length p)"
proof -
  let ?E = "aes128k128d key" and ?blk = "ccm_ctr (ccmp_nonce w hdr iv)" and ?n = "length p div 16"
  obtain b r where p: "p = b @ r" and b: "length b = 16 * ?n" and r: "length r = length p mod 16"
    by (rule payload_split)
  have loop: "ctr_loop w key (hdr_qc hdr) (hdr_a4 hdr) (hdr_ft hdr)
      [iv ! 0, iv ! 1, iv ! 4, iv ! 5, iv ! 6, iv ! 7] ?n 0 (length hdr + 8) (hdr @ iv @ p @ rest)
    = Some (hdr @ iv @ ctr_xor ?E ?blk 1 b @ r @ rest, length hdr + 8 + 16 * ?n)"
    using ctr_loop_ctr [OF assms b, of w key 0 iv "r @ rest"] assms(2) by (simp add: p)
  have split: "ctr_xor ?E ?blk 1 p = ctr_xor ?E ?blk 1 b @ ctr_xor ?E ?blk (1 + ?n) r"
    using ctr_xor_append [OF b, of ?E ?blk 1 r] by (simp only: p [symmetric])
  have lb: "length (ctr_xor ?E ?blk 1 b) = length b"
    using assms(1) by (intro aes.length_ctr_xor length_ccm_ctr)
  have len: "length p = 16 * ?n + length r" using b p by simp
  show ?thesis
  proof (cases "r = []")
    case True
    then have "length p mod 16 = 0" using r by simp
    then show ?thesis
      unfolding ccmp_ctr_def loop split using True len by simp
  next
    case False
    let ?pre = "hdr @ iv @ ctr_xor ?E ?blk 1 b" and ?k = "?E (?blk (1 + ?n))"
    have pos: "0 < length p mod 16" unfolding r [symmetric] using False by simp
    have r16: "length r < 16" unfolding r by simp
    have prelen: "length ?pre = length hdr + 8 + 16 * ?n" using assms(2) lb b by simp
    have rd: "rdn (hdr @ iv @ ctr_xor ?E ?blk 1 b @ r @ rest) (length hdr + 8 + 16 * ?n) (length p mod 16) = Some r"
      using rdn_append [of "length ?pre" ?pre "length r" r rest] by (simp only: prelen r append_assoc)
    have x: "take (length p mod 16) (bitwise_xor ?k (r @ replicate (16 - length p mod 16) 0)) = xorl ?k r"
      using r16 unfolding r [symmetric] by (simp add: bitwise_xor_xorl take_xorl_pad)
    have wr: "wrn (hdr @ iv @ ctr_xor ?E ?blk 1 b @ r @ rest) (length hdr + 8 + 16 * ?n) (xorl ?k r)
        = Some (hdr @ iv @ ctr_xor ?E ?blk 1 b @ xorl ?k r @ rest)"
      using wrn_append [of "length ?pre" ?pre "xorl ?k r" r rest] r16 by (simp only: prelen append_assoc) simp
    have "ctr_xor ?E ?blk (1 + ?n) r = xorl ?k r"
      using False r16 by (simp add: ctr_xor_short)
    then show ?thesis
      unfolding ccmp_ctr_def loop bind.bind_lunit prod.case if_P [OF pos] add.commute [of ?n 1]
        ctr_preload_header [OF assms] rd Let_def x wr split
      using len r by simp
  qed
qed

lemma ccmp_mic_header:
  assumes "ccmp_header hdr" and "length iv = 8"
  shows "ccmp_mic w key (length hdr) (hdr_qc hdr) (hdr_a4 hdr) (hdr_ft hdr)
      [iv ! 0, iv ! 1, iv ! 4, iv ! 5, iv ! 6, iv ! 7] (hdr @ iv @ p @ rest) (length p)
    = Some (ccm_tag (aes128k128d key) (ccmp_nonce w hdr iv) (ccmp_aad w hdr) p, length hdr + 8 + length p)"
proof -
  let ?E = "aes128k128d key" and ?n = "length p div 16"
  let ?start = "?E ([0x59] @ ccmp_nonce w hdr iv @ be16 (length p))"
  obtain b r where p: "p = b @ r" and b: "length b = 16 * ?n" and r: "length r = length p mod 16"
    by (rule payload_split)
  obtain h1 h2 where h: "construct_mic_header1 w (length hdr) (hdr @ iv @ p @ rest) (hdr_ft hdr) = Some h1"
    "construct_mic_header2 (hdr @ iv @ p @ rest) (hdr_a4 hdr) (hdr_qc hdr) = Some h2"
    and h12: "length h1 = 16" "length h2 = 16"
    and aad: "cbc ?E ?start (be16 (length (ccmp_aad w hdr)) @ ccmp_aad w hdr) = ?E (xorl (?E (xorl ?start h1)) h2)"
    using mic_headers_header [OF assms(1)] by metis
  let ?a = "?E (xorl (?E (xorl ?start h1)) h2)"
  have a: "?E (bitwise_xor (?E (bitwise_xor ?start h1)) h2) = ?a"
    using h12 by (simp add: bitwise_xor_xorl)
  have loop: "mic_loop key (hdr @ iv @ p @ rest) ?n (length hdr + 8) ?a
      = Some (cbc ?E ?a b, length hdr + 8 + 16 * ?n)"
    using mic_loop_cbc [where a = ?a and key = key and pre = "hdr @ iv" and rest = "r @ rest",
        OF length_aes128k128d b] assms(2) by (simp add: p)
  have split: "cbc ?E ?a p = cbc ?E (cbc ?E ?a b) r"
    using cbc_append [OF b, of ?E ?a r] by (simp only: p [symmetric])
  have len: "length p = 16 * ?n + length r" using b p by simp
  have tag: "ccm_tag ?E (ccmp_nonce w hdr iv) (ccmp_aad w hdr) p = take 8 (cbc ?E (cbc ?E ?a b) r)"
    unfolding ccm_tag_def aad split ..
  have iv: "construct_mic_iv w (hdr_qc hdr) (hdr_a4 hdr) (hdr @ iv @ p @ rest) (length p)
      [iv ! 0, iv ! 1, iv ! 4, iv ! 5, iv ! 6, iv ! 7] (hdr_ft hdr)
    = Some ([0x59] @ ccmp_nonce w hdr iv @ be16 (length p))"
    by (rule mic_iv_header [OF assms])
  show ?thesis
  proof (cases "r = []")
    case True
    then have "length p mod 16 = 0" using r by simp
    then show ?thesis
      unfolding ccmp_mic_def iv h bind.bind_lunit Let_def a loop tag using True len by simp
  next
    case False
    let ?pre = "hdr @ iv @ b"
    have pos: "0 < length p mod 16" unfolding r [symmetric] using False by simp
    have r16: "length r < 16" unfolding r by simp
    have prelen: "length ?pre = length hdr + 8 + 16 * ?n" using assms(2) b by simp
    have rd: "rdn (hdr @ iv @ p @ rest) (length hdr + 8 + 16 * ?n) (length p mod 16) = Some r"
      using rdn_append [of "length ?pre" ?pre "length r" r rest] by (simp only: prelen r p append_assoc)
    have "length (cbc ?E ?a b) = 16" by (rule aes.length_cbc) simp
    then have x: "bitwise_xor (cbc ?E ?a b) (r @ replicate (16 - length p mod 16) 0)
        = xorl (cbc ?E ?a b) (pad16 r)"
      using r r16 by (simp add: bitwise_xor_xorl pad16_def)
    have "cbc ?E (cbc ?E ?a b) r = ?E (xorl (cbc ?E ?a b) (pad16 r))"
      using False r16 by (simp add: cbc_short)
    then show ?thesis
      unfolding ccmp_mic_def iv h bind.bind_lunit Let_def a loop tag prod.case if_P [OF pos] rd x
      using len r by simp
  qed
qed

lemma length_ccm_tag: "length (ccm_tag (aes128k128d key) nonce aad p) = 8"
  unfolding ccm_tag_def by (simp add: aes.length_cbc)

lemma ccmp_protect_header:
  assumes "ccmp_header hdr" and "length iv = 8" and "length room = 8"
  shows "ccmp_protect w key (length hdr) (hdr_qc hdr) (hdr_a4 hdr) (hdr_ft hdr)
      [iv ! 0, iv ! 1, iv ! 4, iv ! 5, iv ! 6, iv ! 7] (hdr @ iv @ p @ room @ rest) (length p)
    = Some (hdr @ iv @ ccm_encrypt (aes128k128d key) (ccmp_nonce w hdr iv) (ccmp_aad w hdr) p @ rest)"
proof -
  let ?E = "aes128k128d key" and ?blk = "ccm_ctr (ccmp_nonce w hdr iv)"
  let ?t = "ccm_tag ?E (ccmp_nonce w hdr iv) (ccmp_aad w hdr) p" and ?c = "ctr_xor ?E ?blk 1 p"
  have t: "length ?t = 8" by (rule length_ccm_tag)
  have c: "length ?c = length p"
    using assms(1) by (intro aes.length_ctr_xor length_ccm_ctr)
  have w1: "wrn (hdr @ iv @ p @ room @ rest) (length hdr + 8 + length p) ?t = Some (hdr @ iv @ p @ ?t @ rest)"
    using wrn_append [of "length hdr + 8 + length p" "hdr @ iv @ p" ?t room rest] t assms(2,3) by simp
  have rd: "rdn (hdr @ iv @ ?c @ ?t @ rest) (length hdr + 8 + length p) 8 = Some ?t"
  proof -
    have "rdn ((hdr @ iv @ ?c) @ ?t @ rest) (length hdr + 8 + length p) 8 = Some ?t"
      by (rule rdn_append) (simp_all add: t c [simplified] assms(2))
    then show ?thesis by (simp only: append_assoc)
  qed
  have x: "take 8 (bitwise_xor (?E (?blk 0)) (?t @ replicate 8 0)) = xorl (?E (?blk 0)) ?t"
    using t take_xorl_pad [of ?t "?E (?blk 0)"] by (simp add: bitwise_xor_xorl)
  have w2: "wrn (hdr @ iv @ ?c @ ?t @ rest) (length hdr + 8 + length p) (xorl (?E (?blk 0)) ?t)
      = Some (hdr @ iv @ ?c @ xorl (?E (?blk 0)) ?t @ rest)"
    using wrn_append [of "length hdr + 8 + length p" "hdr @ iv @ ?c" "xorl (?E (?blk 0)) ?t" ?t rest]
      t c assms(2) by simp
  show ?thesis
    unfolding ccmp_protect_def ccmp_mic_header [OF assms(1,2)] bind.bind_lunit prod.case w1
      ccmp_ctr_header [OF assms(1,2)] ctr_preload_header [OF assms(1,2)] rd Let_def x w2
    by (simp add: ccm_encrypt_def)
qed


lemma aes_cipher_ccm:
  assumes "ccmp_header hdr" and "length iv = 8" and "length room = 8" and "unat plen = length p"
  shows "aes_cipher w key (length hdr) (hdr @ iv @ p @ room @ rest) plen
    = Some (hdr @ iv @ ccm_encrypt (aes128k128d key) (ccmp_nonce w hdr iv) (ccmp_aad w hdr) p @ rest)"
proof -
  have "2 \<le> length hdr" using header_length(1) [OF assms(1)] by simp
  note ft = frame_type_header [OF this]
  show ?thesis
    unfolding aes_cipher_def ft bind.bind_lunit Let_def hdr_fst_def [symmetric]
      classify_header [OF assms(1)] prod.case ccmp_pn_header [OF assms(2)] assms(4)
    by (rule ccmp_protect_header [OF assms(1-3)])
qed

lemma length_ccm_encrypt:
  "ccmp_header hdr \<Longrightarrow>
    length (ccm_encrypt (aes128k128d key) (ccmp_nonce w hdr iv) aad p) = length p + 8"
  by (simp add: ccm_encrypt_def aes.length_ctr_xor length_ccm_ctr length_ccm_tag)

lemma aes_decipher_ccm:
  fixes key c hdr iv w
  defines "p \<equiv> ctr_xor (aes128k128d key) (ccm_ctr (ccmp_nonce w hdr iv)) 1 c"
  assumes hdr: "ccmp_header hdr" and iv: "length iv = 8" and m: "length m = 8"
    and plen: "unat plen = length c + 8"
    and message: "length message = MAX_MSG_SIZE" and room: "length hdr + 16 + length c \<le> MAX_MSG_SIZE"
  shows "aes_decipher w key (length hdr) (hdr @ iv @ c @ m @ rest) plen message
    = Some (c @ m = ccm_encrypt (aes128k128d key) (ccmp_nonce w hdr iv) (ccmp_aad w hdr) p,
            hdr @ iv @ p @ m @ rest,
            hdr @ iv @ ccm_encrypt (aes128k128d key) (ccmp_nonce w hdr iv) (ccmp_aad w hdr) p
              @ drop (length hdr + 16 + length c) message)"
proof -
  let ?E = "aes128k128d key" and ?blk = "ccm_ctr (ccmp_nonce w hdr iv)"
  let ?x = "ccm_encrypt ?E (ccmp_nonce w hdr iv) (ccmp_aad w hdr) p"
  let ?n = "length hdr + 16 + length c" and ?rest = "drop (length hdr + 16 + length c) message"
  have "2 \<le> length hdr" using header_length(1) [OF hdr] by simp
  note ft = frame_type_header [OF this]
  have p: "length p = length c"
    unfolding p_def using hdr by (intro aes.length_ctr_xor length_ccm_ctr)
  have cp: "ctr_xor ?E ?blk 1 p = c"
    unfolding p_def using hdr by (intro aes.ctr_xor_twice length_ccm_ctr)
  have x: "?x = c @ xorl (?E (?blk 0)) (ccm_tag ?E (ccmp_nonce w hdr iv) (ccmp_aad w hdr) p)"
    unfolding ccm_encrypt_def cp ..
  have lx: "length ?x = length c + 8" using length_ccm_encrypt [OF hdr] p by simp
  have pl: "plen = of_nat (length c + 8)"
  proof -
    have "plen = of_nat (unat plen)" by simp
    then show ?thesis unfolding plen .
  qed
  have plen8: "unat (plen - 8) = length c"
    using plen by (simp add: unat_sub word_le_nat_alt)
  have total: "unat (of_nat (length hdr) + plen + 8 :: u32) = ?n"
  proof -
    have "of_nat (length hdr) + plen + 8 = (of_nat ?n :: u32)" unfolding pl by simp
    then have "unat (of_nat (length hdr) + plen + 8 :: u32) = ?n mod 2 ^ LENGTH(32)"
      by (simp only: unat_of_nat)
    then show ?thesis using room by (simp add: MAX_MSG_SIZE_def)
  qed
  have le: "(?n \<le> MAX_MSG_SIZE) = True" using room by simp
  have copy: "rdn (hdr @ iv @ p @ m @ rest) 0 ?n = Some (hdr @ iv @ p @ m)"
    using rdn_append [of 0 "[]" ?n "hdr @ iv @ p @ m" rest] iv m p by simp
  have store: "wrn message 0 (hdr @ iv @ p @ m) = Some (hdr @ iv @ p @ m @ ?rest)"
    using iv m p message room by (simp add: wrn_def add.assoc)
  have prot: "ccmp_protect w key (length hdr) (hdr_qc hdr) (hdr_a4 hdr) (hdr_ft hdr)
      [iv ! 0, iv ! 1, iv ! 4, iv ! 5, iv ! 6, iv ! 7] (hdr @ iv @ p @ m @ ?rest) (length c)
    = Some (hdr @ iv @ ?x @ ?rest)"
    using ccmp_protect_header [OF hdr iv m, of w key p ?rest] p by simp
  have pos: "length hdr + 8 + unat plen - 8 = length (hdr @ iv @ c)" using plen iv by simp
  have ra: "rdn (hdr @ iv @ p @ m @ rest) (length (hdr @ iv @ c)) 8 = Some m"
    using rdn_append [of "length (hdr @ iv @ c)" "hdr @ iv @ p" 8 m rest] m p by simp
  have rb: "rdn (hdr @ iv @ ?x @ ?rest) (length (hdr @ iv @ c)) 8 = Some (drop (length c) ?x)"
    using rdn_append [of "length (hdr @ iv @ c)" "hdr @ iv @ c" 8 "drop (length c) ?x" ?rest] lx
    unfolding x by simp
  have eq: "m = drop (length c) ?x \<longleftrightarrow> c @ m = ?x" unfolding x by simp
  show ?thesis
    unfolding aes_decipher_def ft bind.bind_lunit Let_def hdr_fst_def [symmetric] plen8
      ccmp_pn_header [OF iv] classify_header [OF hdr] prod.case ccmp_ctr_header [OF hdr iv]
      p_def [symmetric] total le if_True copy store prot pos ra rb eq ..
qed

lemma wrn_bind_length: "wrn b i xs = Some b' \<Longrightarrow> length b' = length b"
  by (rule wrn_length)

lemma ctr_loop_length:
  "ctr_loop w key qc a4 ft pn n i idx buf = Some (buf', idx') \<Longrightarrow> length buf' = length buf"
  by (induction n arbitrary: i idx buf) (auto simp: bind_eq_Some_conv dest!: wrn_length)

lemma ccmp_ctr_length:
  "ccmp_ctr w key h qc a4 ft pn buf n = Some (buf', idx') \<Longrightarrow> length buf' = length buf"
  by (auto simp: ccmp_ctr_def bind_eq_Some_conv Let_def split: if_splits
      dest!: wrn_length ctr_loop_length)

lemma ccmp_protect_length:
  "ccmp_protect w key h qc a4 ft pn buf n = Some buf' \<Longrightarrow> length buf' = length buf"
  by (auto simp: ccmp_protect_def bind_eq_Some_conv Let_def dest!: wrn_length ccmp_ctr_length)

section \<open>Properties\<close>

text \<open>C16. Encryption of a fragment is CCM: for a frame laid out as header, 8-byte CCMP header,
  payload and 8 free bytes, \<open>aes_cipher\<close> stays inside the buffer, replaces payload and free bytes
  by the CCM encryption of the payload under the nonce and additional data of the header, and
  leaves everything else unchanged.\<close>

theorem aes_cipher_is_ccm:
  assumes "ccmp_header hdr" and "length iv = 8" and "length room = 8" and "unat plen = length p"
  shows "aes_cipher w key (length hdr) (hdr @ iv @ p @ room @ rest) plen
    = Some (hdr @ iv @ ccm_encrypt (aes128k128d key) (ccmp_nonce w hdr iv) (ccmp_aad w hdr) p @ rest)"
  using assms by (rule aes_cipher_ccm)

theorem aes_cipher_is_ccm_witness:
  "aes_cipher False (replicate 16 1) 24 (([0x08, 0x42] @ replicate 22 3) @ replicate 8 5 @ [1, 2, 3] @ replicate 8 0 @ [9]) 3
    = Some (([0x08, 0x42] @ replicate 22 3) @ replicate 8 5 @ ccm_encrypt (aes128k128d (replicate 16 1))
        (ccmp_nonce False ([0x08, 0x42] @ replicate 22 3) (replicate 8 5))
        (ccmp_aad False ([0x08, 0x42] @ replicate 22 3)) [1, 2, 3] @ [9])"
proof -
  have "ccmp_header ([0x08, 0x42] @ replicate 22 3)" by code_simp
  from aes_cipher_is_ccm [OF this, of "replicate 8 5" "replicate 8 0" 3 "[1, 2, 3]" False
      "replicate 16 1" "[9]"] show ?thesis by simp
qed

text \<open>C17. Decryption verifies exactly the CCM tag: \<open>aes_decipher\<close> decrypts the payload in place,
  recomputes the encryption of what it decrypted in the static buffer \<open>message\<close>, and succeeds if
  and only if the received ciphertext and tag are the CCM encryption of the decrypted payload.\<close>

theorem aes_decipher_accepts_iff_tag:
  assumes "ccmp_header hdr" and "length iv = 8" and "length m = 8" and "unat plen = length c + 8"
    and "length message = MAX_MSG_SIZE" and "length hdr + 16 + length c \<le> MAX_MSG_SIZE"
  shows "\<exists>message'. aes_decipher w key (length hdr) (hdr @ iv @ c @ m @ rest) plen message
    = Some (c @ m = ccm_encrypt (aes128k128d key) (ccmp_nonce w hdr iv) (ccmp_aad w hdr)
              (ctr_xor (aes128k128d key) (ccm_ctr (ccmp_nonce w hdr iv)) 1 c),
            hdr @ iv @ ctr_xor (aes128k128d key) (ccm_ctr (ccmp_nonce w hdr iv)) 1 c @ m @ rest,
            message')"
  using aes_decipher_ccm [OF assms] by blast

theorem aes_decipher_accepts_iff_tag_witness:
  "\<exists>res pframe' message'. aes_decipher False (replicate 16 1) 24
     (([0x08, 0x42] @ replicate 22 3) @ replicate 8 5 @ [1, 2, 3] @ replicate 8 0 @ [9]) 11 (replicate 2048 0)
     = Some (res, pframe', message')"
proof -
  have "ccmp_header ([0x08, 0x42] @ replicate 22 3)" by code_simp
  from aes_decipher_accepts_iff_tag [OF this, of "replicate 8 5" "replicate 8 0" 11 "[1, 2, 3]"
      "replicate 2048 0" False "replicate 16 1" "[9]"] show ?thesis
    by (auto simp: MAX_MSG_SIZE_def)
qed

text \<open>Round trip: what \<open>aes_cipher\<close> produces, \<open>aes_decipher\<close> accepts and decrypts to the
  original payload, whatever the static buffer held before.\<close>

theorem ccmp_roundtrip:
  assumes "ccmp_header hdr" and "length iv = 8" and "length room = 8"
    and "unat plen = length p" and "unat plen' = length p + 8"
    and "length message = MAX_MSG_SIZE" and "length hdr + 16 + length p \<le> MAX_MSG_SIZE"
  shows "\<exists>f f' m message'.
     aes_cipher w key (length hdr) (hdr @ iv @ p @ room @ rest) plen = Some f
     \<and> aes_decipher w key (length hdr) f plen' message = Some (True, f', message')
     \<and> length m = 8 \<and> f' = hdr @ iv @ p @ m @ rest"
proof -
  let ?E = "aes128k128d key" and ?blk = "ccm_ctr (ccmp_nonce w hdr iv)"
  let ?c = "ctr_xor ?E ?blk 1 p"
  let ?m = "xorl (?E (?blk 0)) (ccm_tag ?E (ccmp_nonce w hdr iv) (ccmp_aad w hdr) p)"
  have c: "length ?c = length p" using assms(1) by (intro aes.length_ctr_xor length_ccm_ctr)
  have m: "length ?m = 8" by (simp add: length_ccm_tag)
  have p: "ctr_xor ?E ?blk 1 ?c = p" using assms(1) by (intro aes.ctr_xor_twice length_ccm_ctr)
  have enc: "aes_cipher w key (length hdr) (hdr @ iv @ p @ room @ rest) plen = Some (hdr @ iv @ ?c @ ?m @ rest)"
    using aes_cipher_ccm [OF assms(1-4)] by (simp add: ccm_encrypt_def)
  have "unat plen' = length ?c + 8" "length hdr + 16 + length ?c \<le> MAX_MSG_SIZE"
    using c assms by simp_all
  from aes_decipher_ccm [OF assms(1,2) m this(1) assms(6) this(2), of w key rest, unfolded p]
  have "\<exists>message'. aes_decipher w key (length hdr) (hdr @ iv @ ?c @ ?m @ rest) plen' message
      = Some (True, hdr @ iv @ p @ ?m @ rest, message')"
    by (simp add: ccm_encrypt_def)
  with enc m show ?thesis by blast
qed

theorem ccmp_roundtrip_witness:
  "\<exists>f f' m message'.
     aes_cipher True (replicate 16 1) 26 (([0x88, 0x42] @ replicate 24 3) @ replicate 8 5 @ [1, 2, 3] @ replicate 8 0 @ []) 3 = Some f
     \<and> aes_decipher True (replicate 16 1) 26 f 11 (replicate 2048 7) = Some (True, f', message')
     \<and> length m = 8 \<and> f' = ([0x88, 0x42] @ replicate 24 3) @ replicate 8 5 @ [1, 2, 3] @ m @ []"
proof -
  have "ccmp_header ([0x88, 0x42] @ replicate 24 3)" by code_simp
  from ccmp_roundtrip [OF this, of "replicate 8 5" "replicate 8 0" 3 "[1, 2, 3]" 11
      "replicate 2048 7" True "replicate 16 1" "[]"] show ?thesis
    by (simp add: MAX_MSG_SIZE_def)
qed

text \<open>The length check of \<open>aes_decipher\<close> guards only the copy: a frame with
  \<open>hdrlen + plen + 8 > MAX_MSG_SIZE\<close> is not rejected, the routine goes on and reads and writes the
  static buffer \<open>message\<close> beyond its end (the result \<^term>\<open>None\<close> of the model), whatever the frame
  holds.\<close>

theorem aes_decipher_overrun:
  assumes "length message = MAX_MSG_SIZE" and "MAX_MSG_SIZE < hdrlen + unat plen + 8"
    and "hdrlen + unat plen + 10 < 2 ^ 32"
  shows "aes_decipher w key hdrlen pframe plen message = None"
proof -
  have no_copy: "\<not> unat (of_nat h + plen + 8 :: u32) \<le> MAX_MSG_SIZE"
    if "hdrlen \<le> h" "h \<le> hdrlen + 2" for h
  proof -
    have "of_nat h + plen + 8 = (of_nat (h + unat plen + 8) :: u32)" by simp
    then have "unat (of_nat h + plen + 8 :: u32) = h + unat plen + 8"
      using that assms(3) by (simp only: unat_of_nat) simp
    then show ?thesis using that assms(2) by simp
  qed
  have h: "hdrlen \<le> fst (ccmp_classify hdrlen ft fs) \<and> fst (ccmp_classify hdrlen ft fs) \<le> hdrlen + 2"
    for ft fs by (simp add: ccmp_classify_def Let_def)
  show ?thesis
  proof (rule ccontr)
    assume "aes_decipher w key hdrlen pframe plen message \<noteq> None"
    then obtain r where r: "aes_decipher w key hdrlen pframe plen message = Some r" by blast
    obtain ft fs where f: "GetFrameType pframe = Some ft" "GetFrameSubType pframe = Some fs"
      using r by (cases "GetFrameType pframe"; cases "GetFrameSubType pframe")
        (auto simp: aes_decipher_def)
    obtain h' qc a4 where cl: "ccmp_classify hdrlen ft (drop_bit 4 fs) = (h', qc, a4)"
      by (rule prod_cases3)
    have h': "hdrlen \<le> h'" "h' \<le> hdrlen + 2" using h [of ft "drop_bit 4 fs"] cl by auto
    obtain pn message' b where "ccmp_protect w key h' qc a4 ft pn message (unat (plen - 8)) = Some message'"
      and "rdn message' (h' + 8 + unat plen - 8) 8 = Some b"
      using r no_copy [OF h'] unfolding aes_decipher_def f bind.bind_lunit Let_def cl prod.case
      by (auto simp: bind_eq_Some_conv)
    then show False
      using assms(1,2) h' by (auto dest!: ccmp_protect_length simp: rdn_Some_iff)
  qed
qed

theorem aes_decipher_overrun_witness:
  "aes_decipher False (replicate 16 1) 24 (replicate 3000 0) 2017 (replicate 2048 0) = None"
  by (rule aes_decipher_overrun) (simp_all add: MAX_MSG_SIZE_def)

end
