(* ===== verification/Sha256.thy ===== *)
theory Sha256
  imports Bytes
begin

text \<open>
  SHA-256, HMAC-SHA256 and the IEEE 802.11r pseudo-random function of
  \<^verbatim>\<open>core/rtw_security.c\<close>, the proof that the streaming interface hashes the
  concatenation of its inputs, that the keyed hash is HMAC of RFC 2104, and the TDLS peer-key
  derivation built on them.
\<close>

section \<open>Compression\<close>

definition K256 :: "u32 list" where
  "K256 = [
     0x428A2F98, 0x71374491, 0xB5C0FBCF, 0xE9B5DBA5, 0x3956C25B, 0x59F111F1,
     0x923F82A4, 0xAB1C5ED5, 0xD807AA98, 0x12835B01, 0x243185BE, 0x550C7DC3,
     0x72BE5D74, 0x80DEB1FE, 0x9BDC06A7, 0xC19BF174, 0xE49B69C1, 0xEFBE4786,
     0x0FC19DC6, 0x240CA1CC, 0x2DE92C6F, 0x4A7484AA, 0x5CB0A9DC, 0x76F988DA,
     0x983E5152, 0xA831C66D, 0xB00327C8, 0xBF597FC7, 0xC6E00BF3, 0xD5A79147,
     0x06CA6351, 0x14292967, 0x27B70A85, 0x2E1B2138, 0x4D2C6DFC, 0x53380D13,
     0x650A7354, 0x766A0ABB, 0x81C2C92E, 0x92722C85, 0xA2BFE8A1, 0xA81A664B,
     0xC24B8B70, 0xC76C51A3, 0xD192E819, 0xD6990624, 0xF40E3585, 0x106AA070,
     0x19A4C116, 0x1E376C08, 0x2748774C, 0x34B0BCB5, 0x391C0CB3, 0x4ED8AA4A,
     0x5B9CCA4F, 0x682E6FF3, 0x748F82EE, 0x78A5636F, 0x84C87814, 0x8CC70208,
     0x90BEFFFA, 0xA4506CEB, 0xBEF9A3F7, 0xC67178F2]"

definition RORc :: "u32 \<Rightarrow> nat \<Rightarrow> u32" where
  "RORc x y = drop_bit (y mod 32) x OR push_bit (32 - y mod 32) x"

definition Ch :: "u32 \<Rightarrow> u32 \<Rightarrow> u32 \<Rightarrow> u32" where
  "Ch x y z = z XOR (x AND (y XOR z))"

definition Maj :: "u32 \<Rightarrow> u32 \<Rightarrow> u32 \<Rightarrow> u32" where
  "Maj x y z = ((x OR y) AND z) OR (x AND y)"

definition Sigma0 :: "u32 \<Rightarrow> u32" where
  "Sigma0 x = RORc x 2 XOR RORc x 13 XOR RORc x 22"

definition Sigma1 :: "u32 \<Rightarrow> u32" where
  "Sigma1 x = RORc x 6 XOR RORc x 11 XOR RORc x 25"

definition Gamma0 :: "u32 \<Rightarrow> u32" where
  "Gamma0 x = RORc x 7 XOR RORc x 18 XOR drop_bit 3 x"

definition Gamma1 :: "u32 \<Rightarrow> u32" where
  "Gamma1 x = RORc x 17 XOR RORc x 19 XOR drop_bit 10 x"

definition WPA_GET_BE32 :: "bytes \<Rightarrow> u32" where
  "WPA_GET_BE32 a = push_bit 24 (ucast (a ! 0)) OR push_bit 16 (ucast (a ! 1))
     OR push_bit 8 (ucast (a ! 2)) OR ucast (a ! 3)"

definition WPA_PUT_BE32 :: "u32 \<Rightarrow> bytes" where
  "WPA_PUT_BE32 val = [ucast (drop_bit 24 val AND 0xff), ucast (drop_bit 16 val AND 0xff),
     ucast (drop_bit 8 val AND 0xff), ucast (val AND 0xff)]"

definition WPA_PUT_BE64 :: "u64 \<Rightarrow> bytes" where
  "WPA_PUT_BE64 val = map (\<lambda>k. ucast (drop_bit k val)) [56, 48, 40, 32, 24, 16, 8, 0]"

definition WPA_PUT_LE16 :: "u16 \<Rightarrow> bytes" where
  "WPA_PUT_LE16 val = [ucast (val AND 0xff), ucast (drop_bit 8 val)]"

text \<open>The message schedule \<open>W\<close>: sixteen words of the block, then the filling loop.\<close>

definition sha256_W :: "bytes \<Rightarrow> u32 list" where
  "sha256_W buf = fold (\<lambda>i W. W @ [Gamma1 (W ! (i - 2)) + W ! (i - 7) + Gamma0 (W ! (i - 15)) + W ! (i - 16)])
     [16..<64] (map (\<lambda>i. WPA_GET_BE32 (drop (4 * i) buf)) [0..<16])"

text \<open>\<open>RND(S[0], ..., S[7], i)\<close> and the rotation of \<open>S\<close> that follows it.\<close>

definition sha256_rnd :: "u32 list \<Rightarrow> nat \<Rightarrow> u32 list \<Rightarrow> u32 list" where
  "sha256_rnd W i S =
     (let t0 = S ! 7 + Sigma1 (S ! 4) + Ch (S ! 4) (S ! 5) (S ! 6) + K256 ! i + W ! i;
          t1 = Sigma0 (S ! 0) + Maj (S ! 0) (S ! 1) (S ! 2);
          d = S ! 3 + t0;
          h = t0 + t1
      in [h, S ! 0, S ! 1, S ! 2, d, S ! 4, S ! 5, S ! 6])"

record sha256_state =
  sha_length :: u64
  sha_st :: "u32 list"
  sha_curlen :: nat
  sha_buf :: bytes

definition compress_words :: "u32 list \<Rightarrow> bytes \<Rightarrow> u32 list" where
  "compress_words st buf =
     (let S = fold (sha256_rnd (sha256_W buf)) [0..<64] st
      in map (\<lambda>i. st ! i + S ! i) [0..<8])"

definition sha256_compress :: "sha256_state \<Rightarrow> bytes \<Rightarrow> sha256_state" where
  "sha256_compress md buf = md\<lparr>sha_st := compress_words (sha_st md) buf\<rparr>"

section \<open>Streaming interface\<close>

definition sha256_iv :: "u32 list" where
  "sha256_iv = [0x6A09E667, 0xBB67AE85, 0x3C6EF372, 0xA54FF53A, 0x510E527F, 0x9B05688C,
     0x1F83D9AB, 0x5BE0CD19]"

text \<open>\<open>sha256_init\<close> leaves the buffer as it is on the stack.\<close>

definition sha256_init :: "sha256_state \<Rightarrow> sha256_state" where
  "sha256_init md = md\<lparr>sha_curlen := 0, sha_length := 0, sha_st := sha256_iv\<rparr>"

text \<open>The \<open>while (inlen > 0)\<close> loop. With \<open>curlen = 64\<close> it would make no progress, so it is a
  partial function; \<^term>\<open>None\<close> stands for a loop that does not end.\<close>

partial_function (option) sha256_process_loop :: "sha256_state \<Rightarrow> bytes \<Rightarrow> sha256_state option" where
  "sha256_process_loop md inp =
     (if inp = [] then Some md
      else if sha_curlen md = 0 \<and> 64 \<le> length inp then
        (let md = sha256_compress md (take 64 inp);
             md = md\<lparr>sha_length := sha_length md + 64 * 8\<rparr>
         in sha256_process_loop md (drop 64 inp))
      else
        (let n = min (length inp) (64 - sha_curlen md);
             md = md\<lparr>sha_buf := take (sha_curlen md) (sha_buf md) @ take n inp
                     @ drop (sha_curlen md + n) (sha_buf md)\<rparr>;
             md = md\<lparr>sha_curlen := sha_curlen md + n\<rparr>;
             md = (if sha_curlen md = 64
                   then let md = sha256_compress md (sha_buf md)
                        in md\<lparr>sha_length := sha_length md + 8 * 64, sha_curlen := 0\<rparr>
                   else md)
         in sha256_process_loop md (drop n inp)))"

declare sha256_process_loop.simps [code]

text \<open>The inner \<^term>\<open>None\<close> is the error return \<open>-1\<close>.\<close>

definition sha256_process :: "sha256_state \<Rightarrow> bytes \<Rightarrow> sha256_state option option" where
  "sha256_process md inp =
     (if 64 < sha_curlen md then Some None else map_option Some (sha256_process_loop md inp))"

definition sha256_done :: "sha256_state \<Rightarrow> bytes option" where
  "sha256_done md =
     (if 64 \<le> sha_curlen md then None
      else
        (let md = md\<lparr>sha_length := sha_length md + of_nat (sha_curlen md) * 8\<rparr>;
             md = md\<lparr>sha_buf := (sha_buf md)[sha_curlen md := 0x80], sha_curlen := sha_curlen md + 1\<rparr>;
             md = (if 56 < sha_curlen md
                   then let md = md\<lparr>sha_buf := take (sha_curlen md) (sha_buf md)
                                    @ replicate (64 - sha_curlen md) 0\<rparr>;
                            md = sha256_compress md (sha_buf md)
                        in md\<lparr>sha_curlen := 0\<rparr>
                   else md);
             md = md\<lparr>sha_buf := take (sha_curlen md) (sha_buf md) @ replicate (56 - sha_curlen md) 0
                     @ drop 56 (sha_buf md)\<rparr>;
             md = md\<lparr>sha_buf := take 56 (sha_buf md) @ WPA_PUT_BE64 (sha_length md)\<rparr>;
             md = sha256_compress md (sha_buf md)
         in Some (concat (map (\<lambda>i. WPA_PUT_BE32 (sha_st md ! i)) [0..<8]))))"

text \<open>\<open>sha256_vector\<close>: the elements in order; outer \<^term>\<open>None\<close> is non-termination, inner
  \<^term>\<open>None\<close> the return value \<open>-1\<close>. \<open>ctx\<close> is the uninitialised local.\<close>

fun sha256_process_all :: "sha256_state \<Rightarrow> bytes list \<Rightarrow> sha256_state option option" where
  "sha256_process_all md [] = Some (Some md)"
| "sha256_process_all md (a # as) =
     (case sha256_process md a of None \<Rightarrow> None | Some None \<Rightarrow> Some None
      | Some (Some md) \<Rightarrow> sha256_process_all md as)"

definition sha256_vector :: "sha256_state \<Rightarrow> bytes list \<Rightarrow> bytes option option" where
  "sha256_vector ctx addr =
     (case sha256_process_all (sha256_init ctx) addr of None \<Rightarrow> None | Some None \<Rightarrow> Some None
      | Some (Some md) \<Rightarrow> Some (sha256_done md))"

section \<open>HMAC, the pseudo-random function and the TDLS peer key\<close>

text \<open>A call of \<open>sha256_vector\<close> whose return value is ignored: on \<open>-1\<close> the output buffer keeps
  what it held.\<close>

definition hash_into :: "sha256_state \<Rightarrow> bytes list \<Rightarrow> bytes \<Rightarrow> bytes option" where
  "hash_into ctx addr old = (case sha256_vector ctx addr of None \<Rightarrow> None
     | Some None \<Rightarrow> Some old | Some (Some h) \<Rightarrow> Some h)"

definition k_pad :: "bytes \<Rightarrow> u8 \<Rightarrow> bytes" where
  "k_pad key x = map (\<lambda>b. b XOR x) (key @ replicate (64 - length key) 0)"

text \<open>\<open>mac\<close> is the content of the output buffer before the call; \<open>tk\<close> and \<open>ctx\<close> are the
  uninitialised locals.\<close>

definition hmac_sha256_vector ::
  "sha256_state \<Rightarrow> bytes \<Rightarrow> bytes \<Rightarrow> bytes list \<Rightarrow> bytes \<Rightarrow> bytes option" where
  "hmac_sha256_vector ctx tk key addr mac =
     (if 5 < length addr then Some mac
      else do {
        key \<leftarrow> (if 64 < length key then hash_into ctx [key] tk else Some key);
        mac \<leftarrow> hash_into ctx (k_pad key 0x36 # addr) mac;
        hash_into ctx [k_pad key 0x5c, mac] mac })"

text \<open>\<open>os_strlen\<close> counts in a \<open>u8\<close>.\<close>

definition os_strlen :: "bytes \<Rightarrow> u8" where
  "os_strlen s = of_nat (length (takeWhile (\<lambda>b. b \<noteq> 0) s))"

text \<open>The difference of the first two bytes that differ; \<^term>\<open>None\<close> when an operand ends first.\<close>

fun os_memcmp :: "bytes \<Rightarrow> bytes \<Rightarrow> nat \<Rightarrow> int option" where
  "os_memcmp s1 s2 0 = Some 0"
| "os_memcmp (a # s1) (b # s2) (Suc n) =
     (if a = b then os_memcmp s1 s2 n else Some (uint a - uint b))"
| "os_memcmp _ _ (Suc n) = None"

text \<open>The loop \<open>while (pos < buf_len)\<close>: \<open>buf\<close> is the part of the output not yet written, the
  result what is written to it; \<open>hash\<close> is the local for the last, partial block.\<close>

function sha256_prf_loop ::
  "sha256_state \<Rightarrow> bytes \<Rightarrow> bytes \<Rightarrow> bytes \<Rightarrow> bytes \<Rightarrow> bytes \<Rightarrow> bytes \<Rightarrow> u16 \<Rightarrow> bytes \<Rightarrow> bytes option" where
  "sha256_prf_loop ctx tk hash key label data length_le counter buf =
     (if buf = [] then Some []
      else
        (let addr = [WPA_PUT_LE16 counter, label, data, length_le]
         in if 32 \<le> length buf then do {
              h \<leftarrow> hmac_sha256_vector ctx tk key addr (take 32 buf);
              rest \<leftarrow> sha256_prf_loop ctx tk hash key label data length_le (counter + 1) (drop 32 buf);
              Some (h @ rest) }
            else do {
              h \<leftarrow> hmac_sha256_vector ctx tk key addr hash;
              Some (take (length buf) h) }))"
  by pat_completeness auto
termination
  by (relation "measure (\<lambda>(ctx, tk, hash, key, label, data, length_le, counter, buf). length buf)") auto

declare sha256_prf_loop.simps [simp del]

definition sha256_prf ::
  "sha256_state \<Rightarrow> bytes \<Rightarrow> bytes \<Rightarrow> bytes \<Rightarrow> bytes \<Rightarrow> bytes \<Rightarrow> bytes \<Rightarrow> bytes option" where
  "sha256_prf ctx tk hash key label data buf =
     sha256_prf_loop ctx tk hash key (take (unat (os_strlen label)) label) data
       (WPA_PUT_LE16 (of_nat (length buf * 8))) 1 buf"

definition TDLS_PMK_LABEL :: bytes where
  "TDLS_PMK_LABEL = [0x54, 0x44, 0x4c, 0x53, 0x20, 0x50, 0x4d, 0x4b, 0]"

text \<open>The station's nonces, its address and the adapter's own address and BSSID are arguments;
  \<open>tpk\<close> is the key buffer before the call (32 bytes).\<close>

definition wpa_tdls_generate_tpk ::
  "sha256_state \<Rightarrow> bytes \<Rightarrow> bytes \<Rightarrow> bytes \<Rightarrow> bytes \<Rightarrow> bytes \<Rightarrow> bytes \<Rightarrow> bytes \<Rightarrow> bytes \<Rightarrow> bytes option" where
  "wpa_tdls_generate_tpk ctx tk hash SNonce ANonce myid hwaddr bssid tpk = do {
     c \<leftarrow> os_memcmp SNonce ANonce 32;
     let nonce = (if c < 0 then [SNonce, ANonce] else [ANonce, SNonce]);
     key_input \<leftarrow> hash_into ctx nonce hash;
     d \<leftarrow> os_memcmp myid hwaddr 6;
     let data = (if d < 0 then myid @ hwaddr else hwaddr @ myid) @ bssid;
     sha256_prf ctx tk hash key_input TDLS_PMK_LABEL data tpk }"

section \<open>The streaming interface hashes the concatenation\<close>

text \<open>SHA-256 of a whole message: padding of FIPS 180-4, then one compression per block.\<close>

function sha_blocks :: "u32 list \<Rightarrow> bytes \<Rightarrow> u32 list" where
  "sha_blocks st m = (if length m < 64 then st else sha_blocks (compress_words st (take 64 m)) (drop 64 m))"
  by pat_completeness auto
termination by (relation "measure (\<lambda>(st, m). length m)") auto

declare sha_blocks.simps [simp del]

definition sha_pad :: "bytes \<Rightarrow> bytes" where
  "sha_pad m = m @ [0x80] @ replicate ((119 - length m mod 64) mod 64) 0
     @ WPA_PUT_BE64 (of_nat (8 * length m))"

definition sha256 :: "bytes \<Rightarrow> bytes" where
  "sha256 m = concat (map (\<lambda>i. WPA_PUT_BE32 (sha_blocks sha256_iv (sha_pad m) ! i)) [0..<8])"

lemma sha_blocks_one: "length b = 64 \<Longrightarrow> sha_blocks st (b @ m) = sha_blocks (compress_words st b) m"
  by (subst sha_blocks.simps) simp

lemma sha_blocks_append:
  assumes "length a = 64 * k"
  shows "sha_blocks st (a @ b) = sha_blocks (sha_blocks st a) b"
  using assms
proof (induction k arbitrary: a st)
  case 0
  then show ?case by (simp add: sha_blocks.simps [of st "[]"])
next
  case (Suc k)
  have "length (take 64 a) = 64" using Suc.prems by simp
  from sha_blocks_one [OF this, of st "drop 64 a @ b"] sha_blocks_one [OF this, of st "drop 64 a"]
  show ?case using Suc.IH [of "drop 64 a"] Suc.prems by (simp flip: append_assoc)
qed

lemma sha_blocks_snoc:
  assumes "length a = 64 * k" and "length b = 64"
  shows "sha_blocks st (a @ b) = compress_words (sha_blocks st a) b"
proof -
  have "sha_blocks s b = compress_words s b" for s
    using sha_blocks_one [OF assms(2), of s "[]"] by (simp add: sha_blocks.simps [of _ "[]"])
  then show ?thesis by (simp add: sha_blocks_append [OF assms(1)])
qed

text \<open>What the state represents after the bytes \<open>m\<close>: the full blocks are compressed, the rest
  is in the buffer.\<close>

definition sha_rep :: "sha256_state \<Rightarrow> bytes \<Rightarrow> bool" where
  "sha_rep md m \<longleftrightarrow> (\<exists>k full r. m = full @ r \<and> length full = 64 * k \<and> length r < 64
     \<and> sha_curlen md = length r \<and> length (sha_buf md) = 64 \<and> take (length r) (sha_buf md) = r
     \<and> sha_st md = sha_blocks sha256_iv full \<and> sha_length md = of_nat (512 * k))"

lemma sha_rep_init: "length (sha_buf ctx) = 64 \<Longrightarrow> sha_rep (sha256_init ctx) []"
  by (auto simp: sha_rep_def sha256_init_def sha_blocks.simps)

lemma sha_rep_curlen: "sha_rep md m \<Longrightarrow> sha_curlen md < 64"
  by (auto simp: sha_rep_def)

lemma sha_rep_block:
  assumes "sha_rep md m" and "sha_curlen md = 0" and "length b = 64"
  shows "sha_rep ((sha256_compress md b)\<lparr>sha_length := sha_length md + 64 * 8\<rparr>) (m @ b)"
proof -
  from assms obtain k where k: "length m = 64 * k" "length (sha_buf md) = 64"
    "sha_st md = sha_blocks sha256_iv m" "sha_length md = of_nat (512 * k)"
    by (auto simp: sha_rep_def)
  show ?thesis
    unfolding sha_rep_def
    by (rule exI [of _ "Suc k"], rule exI [of _ "m @ b"], rule exI [of _ "[]"])
      (use k assms(2,3) in \<open>simp add: sha256_compress_def sha_blocks_snoc\<close>)
qed

lemma sha_rep_buffer:
  assumes "sha_rep md m" and "sha_curlen md + length b \<le> 64" 
    and md': "md' = md\<lparr>sha_buf := take (sha_curlen md) (sha_buf md) @ b @ drop (sha_curlen md + length b) (sha_buf md),
                     sha_curlen := sha_curlen md + length b\<rparr>"
  shows "sha_rep (if sha_curlen md' = 64 then (sha256_compress md' (sha_buf md'))
            \<lparr>sha_length := sha_length md' + 8 * 64, sha_curlen := 0\<rparr> else md') (m @ b)"
proof -
  from assms(1) obtain k full r where m: "m = full @ r" "length full = 64 * k" "length r < 64"
    "sha_curlen md = length r" "length (sha_buf md) = 64" "take (length r) (sha_buf md) = r"
    "sha_st md = sha_blocks sha256_iv full" "sha_length md = of_nat (512 * k)"
    by (auto simp: sha_rep_def)
  show ?thesis
  proof (cases "length r + length b = 64")
    case True
    then have d: "drop (length r + length b) (sha_buf md) = []" using m by simp
    show ?thesis
      unfolding sha_rep_def
      by (rule exI [of _ "Suc k"], rule exI [of _ "full @ r @ b"], rule exI [of _ "[]"])
        (use m True d in \<open>simp add: md' sha256_compress_def sha_blocks_snoc\<close>)
  next
    case False
    show ?thesis
      unfolding sha_rep_def
      by (rule exI [of _ k], rule exI [of _ full], rule exI [of _ "r @ b"])
        (use m False assms(2) in \<open>simp add: md'\<close>)
  qed
qed

lemma sha256_process_loop_rep:
  assumes "sha_rep md m"
  shows "\<exists>md'. sha256_process_loop md inp = Some md' \<and> sha_rep md' (m @ inp)"
  using assms
proof (induction "length inp" arbitrary: inp md m rule: less_induct)
  case less
  note c = sha_rep_curlen [OF less.prems]
  consider "inp = []" | "inp \<noteq> []" "sha_curlen md = 0 \<and> 64 \<le> length inp"
    | "inp \<noteq> []" "\<not> (sha_curlen md = 0 \<and> 64 \<le> length inp)" by blast
  then show ?case
  proof cases
    case 1
    then show ?thesis using less.prems by (simp add: sha256_process_loop.simps)
  next
    case 2
    let ?md = "(sha256_compress md (take 64 inp))\<lparr>sha_length := sha_length md + 64 * 8\<rparr>"
    have "sha_rep ?md (m @ take 64 inp)"
      using less.prems 2 by (intro sha_rep_block) auto
    from less.hyps [OF _ this, of "drop 64 inp"] 2
    obtain md' where "sha256_process_loop ?md (drop 64 inp) = Some md'" "sha_rep md' (m @ inp)"
      by auto
    then show ?thesis
      using 2 by (subst sha256_process_loop.simps) (simp add: Let_def sha256_compress_def)
  next
    case 3
    let ?n = "min (length inp) (64 - sha_curlen md)"
    define md1 where "md1 = md\<lparr>sha_buf := take (sha_curlen md) (sha_buf md) @ take ?n inp
        @ drop (sha_curlen md + ?n) (sha_buf md), sha_curlen := sha_curlen md + ?n\<rparr>"
    let ?md2 = "if sha_curlen md1 = 64 then (sha256_compress md1 (sha_buf md1))
            \<lparr>sha_length := sha_length md1 + 8 * 64, sha_curlen := 0\<rparr> else md1"
    have n: "length (take ?n inp) = ?n" by simp
    have pos: "0 < ?n" using c 3 by simp
    have "sha_rep ?md2 (m @ take ?n inp)"
      using less.prems c by (intro sha_rep_buffer) (auto simp: md1_def n)
    from less.hyps [OF _ this, of "drop ?n inp"] pos 3
    obtain md' where md': "sha256_process_loop ?md2 (drop ?n inp) = Some md'" "sha_rep md' (m @ inp)"
      by auto
    have "sha256_process_loop md inp = sha256_process_loop ?md2 (drop ?n inp)"
      unfolding sha256_process_loop.simps [of md inp] if_not_P [OF 3(1)] if_not_P [OF 3(2)] Let_def
      by (simp add: md1_def sha256_compress_def)
    with md' show ?thesis by auto
  qed
qed

lemma sha256_process_rep:
  assumes "sha_rep md m"
  obtains md' where "sha256_process md inp = Some (Some md')" and "sha_rep md' (m @ inp)"
  using sha256_process_loop_rep [OF assms, of inp] sha_rep_curlen [OF assms] that
  by (auto simp: sha256_process_def)

lemma sha256_process_all_rep:
  assumes "sha_rep md m"
  shows "\<exists>md'. sha256_process_all md addr = Some (Some md') \<and> sha_rep md' (m @ concat addr)"
  using assms
proof (induction addr arbitrary: md m)
  case (Cons a as)
  obtain md1 where "sha256_process md a = Some (Some md1)" "sha_rep md1 (m @ a)"
    by (rule sha256_process_rep [OF Cons.prems])
  then show ?case using Cons.IH [of md1 "m @ a"] by auto
qed auto

lemma length_WPA_PUT_BE64 [simp]: "length (WPA_PUT_BE64 v) = 8"
  by (simp add: WPA_PUT_BE64_def)

lemma sha256_done_rep:
  assumes "sha_rep md m"
  shows "sha256_done md = Some (sha256 m)"
proof -
  from assms obtain k full r where m: "m = full @ r" "length full = 64 * k" "length r < 64"
    "sha_curlen md = length r" "length (sha_buf md) = 64" "take (length r) (sha_buf md) = r"
    "sha_st md = sha_blocks sha256_iv full" "sha_length md = of_nat (512 * k)"
    by (auto simp: sha_rep_def)
  have mod: "length m mod 64 = length r" using m by simp
  have len: "sha_length md + of_nat (length r) * 8 = of_nat (8 * length m)"
    using m by simp
  let ?L = "WPA_PUT_BE64 (of_nat (8 * length m))"
  have buf: "(sha_buf md)[length r := 0x80] = r @ 0x80 # drop (length r + 1) (sha_buf md)"
    using m upd_conv_take_nth_drop [of "length r" "sha_buf md" "0x80"] by simp
  show ?thesis
  proof (cases "length r + 1 \<le> 56")
    case True
    let ?b = "r @ [0x80] @ replicate (55 - length r) 0 @ ?L"
    have pad: "sha_pad m = full @ ?b"
    proof -
      have "(119 - length r) mod 64 = 55 - length r" using True by (simp add: mod_if)
      then show ?thesis unfolding sha_pad_def mod by (simp add: m(1))
    qed
    have b: "length ?b = 64" using True by simp
    have "sha_blocks sha256_iv (sha_pad m) = compress_words (sha_st md) ?b"
      unfolding pad m(7) using m(2) b by (rule sha_blocks_snoc)
    then show ?thesis
      unfolding sha256_def sha256_done_def
      using True m len buf by (simp add: Let_def sha256_compress_def mult.commute)
  next
    case False
    let ?b1 = "r @ [0x80] @ replicate (63 - length r) 0" and ?b2 = "replicate 56 0 @ ?L"
    have pad: "sha_pad m = (full @ ?b1) @ ?b2"
    proof -
      have "(119 - length r) mod 64 = (63 - length r) + 56" using False m(3) by (simp add: mod_if)
      then have "replicate ((119 - length r) mod 64) (0 :: u8)
          = replicate (63 - length r) 0 @ replicate 56 0"
        by (simp only: replicate_add)
      then show ?thesis unfolding sha_pad_def mod by (simp only: m(1) append_assoc)
    qed
    have b1: "length ?b1 = 64" and b2: "length ?b2 = 64" using False m(3) by simp_all
    have fb: "length (full @ ?b1) = 64 * Suc k" using m(2) b1 by simp
    have "sha_blocks sha256_iv (sha_pad m) = compress_words (compress_words (sha_st md) ?b1) ?b2"
      unfolding pad m(7) sha_blocks_snoc [OF fb b2] sha_blocks_snoc [OF m(2) b1] ..
    then show ?thesis
      unfolding sha256_def sha256_done_def
      using False m len buf by (simp add: Let_def sha256_compress_def mult.commute)
  qed
qed

lemma sha256_vector_sha256:
  assumes "length (sha_buf ctx) = 64"
  shows "sha256_vector ctx addr = Some (Some (sha256 (concat addr)))"
  using sha256_process_all_rep [OF sha_rep_init [OF assms], of addr]
  by (auto simp: sha256_vector_def sha256_done_rep)

lemma length_sha256 [simp, crypto_len]: "length (sha256 m) = 32"
  by (simp add: sha256_def WPA_PUT_BE32_def length_concat comp_def upt_rec)

lemma hash_into_sha256:
  "length (sha_buf ctx) = 64 \<Longrightarrow> hash_into ctx addr old = Some (sha256 (concat addr))"
  by (simp add: hash_into_def sha256_vector_sha256)

text \<open>HMAC of RFC 2104 with the hash function as parameter (\<open>B = 64\<close>).\<close>

definition hmac :: "(bytes \<Rightarrow> bytes) \<Rightarrow> bytes \<Rightarrow> bytes \<Rightarrow> bytes" where
  "hmac H key text =
     (let key0 = (if 64 < length key then H key else key);
          key1 = key0 @ replicate (64 - length key0) 0
      in H (map (\<lambda>b. b XOR 0x5c) key1 @ H (map (\<lambda>b. b XOR 0x36) key1 @ text)))"

lemma hmac_sha256_vector_hmac:
  assumes "length (sha_buf ctx) = 64" and "length addr \<le> 5"
  shows "hmac_sha256_vector ctx tk key addr mac = Some (hmac sha256 key (concat addr))"
  using assms by (simp add: hmac_sha256_vector_def hash_into_sha256 hmac_def k_pad_def Let_def)

lemma length_hmac: "length (hmac sha256 key text) = 32"
  by (simp add: hmac_def Let_def)

text \<open>The key-derivation function of IEEE 802.11r: blocks numbered from \<open>i\<close>.\<close>

function kdf_blocks :: "bytes \<Rightarrow> bytes \<Rightarrow> bytes \<Rightarrow> nat \<Rightarrow> nat \<Rightarrow> nat \<Rightarrow> bytes" where
  "kdf_blocks key label context bits8 i n = (if n = 0 then []
     else take n (hmac sha256 key (le16_bytes (of_nat i) @ label @ context @ le16_bytes (of_nat (8 * bits8))))
       @ kdf_blocks key label context bits8 (i + 1) (n - 32))"
  by pat_completeness auto
termination by (relation "measure (\<lambda>(key, label, context, bits8, i, n). n)") auto

declare kdf_blocks.simps [simp del]

lemma WPA_PUT_LE16_le16: "WPA_PUT_LE16 v = le16_bytes v"
proof -
  have "ucast (v AND 0xff) = (ucast v :: u8)" by (rule bit_word_eqI) (simp add: bit_ucast_iff)
  then show ?thesis by (simp add: WPA_PUT_LE16_def le16_bytes_def)
qed

lemma sha256_prf_loop_kdf:
  assumes "length (sha_buf ctx) = 64"
  shows "sha256_prf_loop ctx tk hash key label data (le16_bytes (of_nat (8 * bits8))) (of_nat i) buf
    = Some (kdf_blocks key label data bits8 i (length buf))"
proof (induction "length buf" arbitrary: buf i rule: less_induct)
  case less
  note h = hmac_sha256_vector_hmac [OF assms]
  consider "buf = []" | "buf \<noteq> []" "32 \<le> length buf" | "buf \<noteq> []" "\<not> 32 \<le> length buf" by blast
  then show ?case
  proof cases
    case 1
    then show ?thesis by (simp add: sha256_prf_loop.simps kdf_blocks.simps)
  next
    case 2
    have "sha256_prf_loop ctx tk hash key label data (le16_bytes (of_nat (8 * bits8))) (of_nat i + 1) (drop 32 buf)
        = Some (kdf_blocks key label data bits8 (i + 1) (length buf - 32))"
      using less.hyps [of "drop 32 buf" "i + 1"] 2 by (simp add: add.commute)
    then show ?thesis
      using 2 by (subst sha256_prf_loop.simps, subst kdf_blocks.simps)
        (simp add: h WPA_PUT_LE16_le16 length_hmac)
  next
    case 3
    then have "length buf - 32 = 0" by simp
    then have "kdf_blocks key label data bits8 (i + 1) (length buf - 32) = []"
      by (simp add: kdf_blocks.simps)
    then show ?thesis
      using 3 by (subst sha256_prf_loop.simps, subst kdf_blocks.simps)
        (simp add: h WPA_PUT_LE16_le16)
  qed
qed

lemma sha256_prf_kdf:
  assumes "length (sha_buf ctx) = 64" and "0 \<notin> set lab" and "length lab < 256"
  shows "sha256_prf ctx tk hash key (lab @ [0]) data buf
    = Some (kdf_blocks key lab data (length buf) 1 (length buf))"
proof -
  have "takeWhile (\<lambda>b. b \<noteq> 0) (lab @ [0]) = lab"
    using assms(2) by (simp add: takeWhile_append)
  then have "take (unat (os_strlen (lab @ [0]))) (lab @ [0]) = lab"
    using assms(3) by (simp add: os_strlen_def unat_of_nat)
  then show ?thesis
    using sha256_prf_loop_kdf [OF assms(1), of tk hash key lab data "length buf" 1 buf]
    by (simp add: sha256_prf_def WPA_PUT_LE16_le16 mult.commute)
qed

lemma os_memcmp_neg:
  "length a = n \<Longrightarrow> length b = n \<Longrightarrow>
    \<exists>d. os_memcmp a b n = Some d \<and> os_memcmp b a n = Some (- d) \<and> (d = 0 \<longleftrightarrow> a = b)"
proof (induction n arbitrary: a b)
  case (Suc n)
  then obtain x xs y ys where ab: "a = x # xs" "b = y # ys" "length xs = n" "length ys = n"
    by (metis length_Suc_conv)
  then show ?case
    using Suc.IH [of xs ys] by (auto simp: word_uint_eq_iff)
qed simp

section \<open>Properties\<close>

text \<open>C18. The streaming SHA-256 interface hashes the concatenation of its elements: whatever the
  way the message is cut into elements (empty ones included), \<open>sha256_vector\<close> terminates, succeeds
  and returns the SHA-256 value of the whole message, padded as FIPS 180-4 prescribes.\<close>

theorem sha256_vector_streaming:
  assumes "length (sha_buf ctx) = 64"
  shows "sha256_vector ctx addr = Some (Some (sha256 (concat addr)))"
  using assms by (rule sha256_vector_sha256)

theorem sha256_vector_streaming_witness:
  "sha256_vector \<lparr>sha_length = 0, sha_st = [], sha_curlen = 0, sha_buf = replicate 64 0\<rparr>
     [[0x61], [], [0x62, 0x63]] = Some (Some (sha256 [0x61, 0x62, 0x63]))"
  using sha256_vector_streaming [of "\<lparr>sha_length = 0, sha_st = [], sha_curlen = 0, sha_buf = replicate 64 0\<rparr>"
      "[[0x61], [], [0x62, 0x63]]"] by simp

text \<open>\<open>hmac_sha256_vector\<close> computes HMAC of RFC 2104 with SHA-256 over the concatenation of at
  most five elements; with more elements it returns without writing the code.\<close>

theorem hmac_sha256_vector_is_hmac:
  assumes "length (sha_buf ctx) = 64"
  shows "hmac_sha256_vector ctx tk key addr mac =
    Some (if length addr \<le> 5 then hmac sha256 key (concat addr) else mac)"
  using hmac_sha256_vector_hmac [OF assms, of addr tk key mac]
  by (simp add: hmac_sha256_vector_def)

theorem hmac_sha256_vector_is_hmac_witness:
  "hmac_sha256_vector \<lparr>sha_length = 0, sha_st = [], sha_curlen = 0, sha_buf = replicate 64 0\<rparr> []
     [1, 2, 3] [[4], [5]] [] = Some (hmac sha256 [1, 2, 3] [4, 5])"
  by (subst hmac_sha256_vector_is_hmac) simp_all

text \<open>Both ends of a TDLS link derive the same peer key: exchanging the two station addresses
  (and even the two nonces) does not change the result of \<open>wpa_tdls_generate_tpk\<close>, which is the
  802.11r key-derivation function of the ordered nonces and addresses.\<close>

theorem tdls_peers_derive_same_key:
  assumes "length (sha_buf ctx) = 64" and "length SNonce = 32" and "length ANonce = 32"
    and "length myid = 6" and "length hwaddr = 6" and "length (sha_buf ctx') = 64"
    and "length tpk = 32" and "length tpk' = 32"
  shows "\<exists>key. length key = 32
    \<and> wpa_tdls_generate_tpk ctx tk hash SNonce ANonce myid hwaddr bssid tpk = Some key
    \<and> wpa_tdls_generate_tpk ctx' tk' hash' ANonce SNonce hwaddr myid bssid tpk' = Some key
    \<and> wpa_tdls_generate_tpk ctx' tk' hash' SNonce ANonce hwaddr myid bssid tpk' = Some key"
proof -
  obtain c where c: "os_memcmp SNonce ANonce 32 = Some c" "os_memcmp ANonce SNonce 32 = Some (- c)"
    "c = 0 \<longleftrightarrow> SNonce = ANonce"
    using os_memcmp_neg [OF assms(2,3)] by auto
  obtain d where d: "os_memcmp myid hwaddr 6 = Some d" "os_memcmp hwaddr myid 6 = Some (- d)"
    "d = 0 \<longleftrightarrow> myid = hwaddr"
    using os_memcmp_neg [OF assms(4,5)] by auto
  define n where "n = (if c < 0 then SNonce @ ANonce else ANonce @ SNonce)"
  define a where "a = (if d < 0 then myid @ hwaddr else hwaddr @ myid) @ bssid"
  have lab: "TDLS_PMK_LABEL = [0x54, 0x44, 0x4c, 0x53, 0x20, 0x50, 0x4d, 0x4b] @ [0]"
    by (simp add: TDLS_PMK_LABEL_def)
  let ?key = "kdf_blocks (sha256 n) [0x54, 0x44, 0x4c, 0x53, 0x20, 0x50, 0x4d, 0x4b] a 32 1 32"
  have kdf: "sha256_prf cx t h (sha256 n) TDLS_PMK_LABEL a tp = Some ?key"
    if "length (sha_buf cx) = 64" "length tp = 32" for cx t h tp
    unfolding lab using that by (subst sha256_prf_kdf) simp_all
  have len: "length ?key = 32"
    by (simp add: kdf_blocks.simps length_hmac)
  have n2: "concat (if - c < 0 then [ANonce, SNonce] else [SNonce, ANonce]) = n"
    "concat (if c < 0 then [SNonce, ANonce] else [ANonce, SNonce]) = n"
    using c(3) by (auto simp: n_def)
  have a2: "(if - d < 0 then hwaddr @ myid else myid @ hwaddr) @ bssid = a"
    "(if d < 0 then myid @ hwaddr else hwaddr @ myid) @ bssid = a"
    using d(3) by (auto simp: a_def)
  show ?thesis
    unfolding wpa_tdls_generate_tpk_def c d bind.bind_lunit Let_def
      hash_into_sha256 [OF assms(1)] hash_into_sha256 [OF assms(6)] n2 a2
      kdf [OF assms(1,7)] kdf [OF assms(6,8)]
    using len by simp
qed

theorem tdls_peers_derive_same_key_witness:
  "wpa_tdls_generate_tpk \<lparr>sha_length = 0, sha_st = [], sha_curlen = 0, sha_buf = replicate 64 0\<rparr> [] []
       (replicate 32 1) (replicate 32 2) [2, 0, 0, 0, 0, 1] [2, 0, 0, 0, 0, 9] (replicate 6 7) (replicate 32 0)
   = wpa_tdls_generate_tpk \<lparr>sha_length = 5, sha_st = [], sha_curlen = 0, sha_buf = replicate 64 3\<rparr> [] []
       (replicate 32 1) (replicate 32 2) [2, 0, 0, 0, 0, 9] [2, 0, 0, 0, 0, 1] (replicate 6 7) (replicate 32 4)"
  using tdls_peers_derive_same_key
    [of "\<lparr>sha_length = 0, sha_st = [], sha_curlen = 0, sha_buf = replicate 64 0\<rparr>" "replicate 32 1"
      "replicate 32 2" "[2, 0, 0, 0, 0, 1]" "[2, 0, 0, 0, 0, 9]"
      "\<lparr>sha_length = 5, sha_st = [], sha_curlen = 0, sha_buf = replicate 64 3\<rparr>"
      "replicate 32 0" "replicate 32 4" "[]" "[]" "replicate 6 7" "[]" "[]"] by auto

end
