(* ===== verification/Cmac.thy ===== *)
theory Cmac
  imports Aes_Block
begin

text \<open>
  AES-CMAC (\<open>omac1_aes_128_vector\<close>, \<open>omac1_aes_128\<close>) of \<^verbatim>\<open>core/rtw_security.c\<close>, its
  agreement with CMAC of NIST SP 800-38B, and the MIC of TDLS frames (\<open>wpa_tdls_ftie_mic\<close>,
  \<open>tdls_verify_mic\<close>).
\<close>

section \<open>OMAC1\<close>

text \<open>\<open>aes_encrypt_init\<close>: the parameter says whether \<open>rtw_malloc\<close> succeeds.\<close>

definition aes_encrypt_init :: "bool \<Rightarrow> bytes \<Rightarrow> nat \<Rightarrow> u32 list option" where
  "aes_encrypt_init malloc_ok key len =
     (if len \<noteq> 16 then None else if malloc_ok then Some (rijndaelKeySetupEnc key) else None)"

definition gf_mulx :: "bytes \<Rightarrow> bytes" where
  "gf_mulx pad =
     (let carry = pad ! 0 AND 0x80;
          pad = fold (\<lambda>i pad. pad[i := push_bit 1 (pad ! i) OR drop_bit 7 (pad ! (i + 1))]) [0..<15] pad;
          pad = pad[15 := push_bit 1 (pad ! 15)]
      in if carry \<noteq> 0 then pad[15 := pad ! 15 XOR 0x87] else pad)"

text \<open>The read pointer: \<open>rp_e\<close> is \<open>e\<close>, \<open>rp_pos\<close> the offset of \<open>pos\<close> in the element it points
  into, \<open>rp_cur\<close> that element. After the last byte of the last element the code loads
  \<open>addr[num_elem]\<close>, an entry beyond the array; \<open>junk\<close> is whatever that entry points to.\<close>

record read_ptr =
  rp_e :: nat
  rp_pos :: nat
  rp_cur :: bytes

definition addr_at :: "bytes \<Rightarrow> bytes list \<Rightarrow> nat \<Rightarrow> bytes" where
  "addr_at junk addr e = (if e < length addr then addr ! e else junk)"

text \<open>\<open>cbc[i] ^= *pos++; if (pos >= end) { e++; pos = addr[e]; end = pos + len[e]; }\<close>\<close>

definition omac1_byte :: "bytes \<Rightarrow> bytes list \<Rightarrow> nat \<Rightarrow> bytes \<times> read_ptr \<Rightarrow> (bytes \<times> read_ptr) option" where
  "omac1_byte junk addr i = (\<lambda>(cbc, rp). do {
     b \<leftarrow> rd (rp_cur rp) (rp_pos rp);
     let cbc = cbc[i := cbc ! i XOR b];
     let rp = rp\<lparr>rp_pos := rp_pos rp + 1\<rparr>;
     Some (cbc, if length (rp_cur rp) \<le> rp_pos rp
       then \<lparr>rp_e = rp_e rp + 1, rp_pos = 0, rp_cur = addr_at junk addr (rp_e rp + 1)\<rparr> else rp) })"

fun omac1_bytes :: "bytes \<Rightarrow> bytes list \<Rightarrow> nat list \<Rightarrow> bytes \<times> read_ptr \<Rightarrow> (bytes \<times> read_ptr) option" where
  "omac1_bytes junk addr [] s = Some s"
| "omac1_bytes junk addr (i # is) s = do { s \<leftarrow> omac1_byte junk addr i s; omac1_bytes junk addr is s }"

function omac1_blocks ::
  "u32 list \<Rightarrow> bytes \<Rightarrow> bytes list \<Rightarrow> nat \<Rightarrow> bytes \<times> read_ptr \<Rightarrow> (bytes \<times> read_ptr \<times> nat) option" where
  "omac1_blocks ctx junk addr left s =
     (if 16 \<le> left then do {
        (cbc, rp) \<leftarrow> omac1_bytes junk addr [0..<16] s;
        let cbc = (if 16 < left then aes_128_encrypt ctx cbc else cbc);
        omac1_blocks ctx junk addr (left - 16) (cbc, rp) }
      else Some (fst s, snd s, left))"
  by pat_completeness auto
termination by (relation "measure (\<lambda>(ctx, junk, addr, left, s). left)") auto

declare omac1_blocks.simps [simp del]

text \<open>Outer \<^term>\<open>None\<close>: an access outside an element; inner \<^term>\<open>None\<close>: the return value \<open>-1\<close>.\<close>

definition omac1_aes_128_vector :: "bool \<Rightarrow> bytes \<Rightarrow> bytes \<Rightarrow> bytes list \<Rightarrow> bytes option option" where
  "omac1_aes_128_vector malloc_ok junk key addr =
     (case aes_encrypt_init malloc_ok key 16 of
        None \<Rightarrow> Some None
      | Some ctx \<Rightarrow> do {
          let total_len = sum_list (map length addr);
          let cbc = replicate 16 0;
          let rp = \<lparr>rp_e = 0, rp_pos = 0, rp_cur = addr_at junk addr 0\<rparr>;
          (cbc, rp, left) \<leftarrow> omac1_blocks ctx junk addr total_len (cbc, rp);
          let pad = gf_mulx (aes_128_encrypt ctx (replicate 16 0));
          (cbc, pad) \<leftarrow> (if left \<noteq> 0 \<or> total_len = 0 then do {
             (cbc, rp) \<leftarrow> omac1_bytes junk addr [0..<left] (cbc, rp);
             let cbc = cbc[left := cbc ! left XOR 0x80];
             Some (cbc, gf_mulx pad) }
           else Some (cbc, pad));
          let pad = map (\<lambda>i. pad ! i XOR cbc ! i) [0..<16];
          Some (Some (aes_128_encrypt ctx pad)) })"

definition omac1_aes_128 :: "bool \<Rightarrow> bytes \<Rightarrow> bytes \<Rightarrow> bytes \<Rightarrow> bytes option option" where
  "omac1_aes_128 malloc_ok junk key data = omac1_aes_128_vector malloc_ok junk key [data]"

section \<open>The MIC of TDLS frames\<close>

text \<open>Elements are buffers that start with the element id and the length byte. Outer
  \<^term>\<open>None\<close>: an access outside a buffer; inner \<^term>\<open>None\<close>: the return value \<open>-1\<close>. The copy of
  the FT element is the last part of \<open>buf\<close>, so clearing the MIC field must stay inside it.\<close>

definition wpa_tdls_ftie_mic ::
  "bool \<Rightarrow> bytes \<Rightarrow> bytes \<Rightarrow> u8 \<Rightarrow> bytes \<Rightarrow> bytes \<Rightarrow> bytes \<Rightarrow> bytes \<Rightarrow> bytes option option" where
  "wpa_tdls_ftie_mic malloc_ok junk kck trans_seq lnkid rsnie timeoutie ftie = do {
     l \<leftarrow> rd lnkid 1; r \<leftarrow> rd rsnie 1; t \<leftarrow> rd timeoutie 1; f \<leftarrow> rd ftie 1;
     if \<not> malloc_ok then Some None
     else do {
       init_sta \<leftarrow> rdn lnkid 8 6;
       resp_sta \<leftarrow> rdn lnkid 14 6;
       lnk \<leftarrow> rdn lnkid 0 (2 + unat l);
       rsn \<leftarrow> rdn rsnie 0 (2 + unat r);
       tmo \<leftarrow> rdn timeoutie 0 (2 + unat t);
       ft \<leftarrow> rdn ftie 0 (2 + unat f);
       ft \<leftarrow> wrn ft 4 (replicate 16 0);
       omac1_aes_128 malloc_ok junk kck
         (init_sta @ resp_sta @ [trans_seq] @ lnk @ rsn @ tmo @ ft) } }"

text \<open>\<^term>\<open>None\<close> as argument is the null pointer; the result is whether 1 is returned. The final
  comparison is \<open>os_memcmp(mic, rx_ftie, 16) == 0\<close>.\<close>

definition tdls_verify_mic ::
  "bool \<Rightarrow> bytes \<Rightarrow> bytes \<Rightarrow> u8 \<Rightarrow> bytes option \<Rightarrow> bytes option \<Rightarrow> bytes option \<Rightarrow> bytes option
    \<Rightarrow> bool option" where
  "tdls_verify_mic malloc_ok junk kck trans_seq lnkid rsnie timeoutie ftie =
     (case (lnkid, rsnie, timeoutie, ftie) of
        (Some lnkid, Some rsnie, Some timeoutie, Some ftie) \<Rightarrow> do {
          r \<leftarrow> rd rsnie 1; t \<leftarrow> rd timeoutie 1; f \<leftarrow> rd ftie 1;
          if \<not> malloc_ok then Some False
          else do {
            init_sta \<leftarrow> rdn lnkid 8 6;
            resp_sta \<leftarrow> rdn lnkid 14 6;
            lnk \<leftarrow> rdn lnkid 0 20;
            rsn \<leftarrow> rdn rsnie 0 (2 + unat r);
            tmo \<leftarrow> rdn timeoutie 0 (2 + unat t);
            ft \<leftarrow> rdn ftie 0 (2 + unat f);
            ft \<leftarrow> wrn ft 4 (replicate 16 0);
            ret \<leftarrow> omac1_aes_128 malloc_ok junk kck
              (init_sta @ resp_sta @ [trans_seq] @ lnk @ rsn @ tmo @ ft);
            case ret of None \<Rightarrow> Some False
            | Some mic \<Rightarrow> do { rx \<leftarrow> rdn ftie 4 16; Some (mic = rx) } } }
      | _ \<Rightarrow> Some False)"

section \<open>CMAC\<close>

text \<open>Doubling in \<open>GF(2^128)\<close>, on the number the 16 bytes stand for (most significant first).\<close>

definition num_of :: "bytes \<Rightarrow> 128 word" where
  "num_of b = foldl (\<lambda>n x. push_bit 8 n OR ucast x) 0 b"

definition bytes_of :: "128 word \<Rightarrow> bytes" where
  "bytes_of n = map (\<lambda>i. ucast (drop_bit (8 * (15 - i)) n)) [0..<16]"

definition dbl128 :: "128 word \<Rightarrow> 128 word" where
  "dbl128 n = push_bit 1 n XOR (if bit n 127 then 0x87 else 0)"

definition cmac_dbl :: "bytes \<Rightarrow> bytes" where
  "cmac_dbl b = bytes_of (dbl128 (num_of b))"

text \<open>The message as all blocks but the last, and the last block (empty only when the message is).\<close>

definition cmac_split :: "bytes \<Rightarrow> bytes \<times> bytes" where
  "cmac_split m = (let k = 16 * ((length m - 1) div 16) in (take k m, drop k m))"

definition cmac :: "(bytes \<Rightarrow> bytes) \<Rightarrow> bytes \<Rightarrow> bytes" where
  "cmac E m =
     (let (front, last) = cmac_split m;
          k1 = cmac_dbl (E (replicate 16 0));
          k2 = cmac_dbl k1;
          last' = (if length last = 16 then xorl last k1
                   else xorl (pad16 (last @ [0x80])) k2)
      in E (xorl (cbc E (replicate 16 0) front) last'))"

section \<open>The shift loop is doubling in the field\<close>

lemma shift_loop_nth:
  assumes "n < length p"
  shows "length (fold (\<lambda>i p. p[i := f (p ! i) (p ! (i + 1))]) [0..<n] p) = length p \<and>
    (\<forall>j < length p. fold (\<lambda>i p. p[i := f (p ! i) (p ! (i + 1))]) [0..<n] p ! j
       = (if j < n then f (p ! j) (p ! (j + 1)) else p ! j))"
  using assms
proof (induction n)
  case (Suc n)
  then show ?case by (auto simp: nth_list_update less_Suc_eq)
qed simp

lemma bit_num_of:
  assumes "8 * length b \<le> 128"
  shows "bit (num_of b) k \<longleftrightarrow> k < 8 * length b \<and> bit (b ! (length b - 1 - k div 8)) (k mod 8)"
  using assms
proof (induction b arbitrary: k rule: rev_induct)
  case Nil
  then show ?case by (simp add: num_of_def)
next
  case (snoc x b)
  have step: "num_of (b @ [x]) = push_bit 8 (num_of b) OR ucast x"
    by (simp add: num_of_def)
  show ?case
  proof (cases "k < 8")
    case True
    then show ?thesis
      by (auto simp: step bit_or_iff bit_push_bit_iff bit_ucast_iff nth_append)
  next
    case False
    have div: "(k - 8) div 8 = k div 8 - 1" and mod: "(k - 8) mod 8 = k mod 8" and pos: "0 < k div 8"
      using False le_div_geq [of 8 k] by (simp_all add: le_mod_geq [of 8 k])
    have "bit (num_of (b @ [x])) k \<longleftrightarrow> k < 128 \<and> bit (num_of b) (k - 8)"
      using False by (auto simp: step bit_or_iff bit_push_bit_iff bit_ucast_iff dest: bit_imp_le_length)
    also have "\<dots> \<longleftrightarrow> k - 8 < 8 * length b \<and> bit (b ! (length b - 1 - (k div 8 - 1))) (k mod 8)"
    proof -
      have "8 * length b \<le> 128" using snoc.prems by simp
      from snoc.IH [OF this, of "k - 8"] show ?thesis
        unfolding div mod using snoc.prems False by auto
    qed
    also have "length b - 1 - (k div 8 - 1) = length b - k div 8" using pos by simp
    also have "k - 8 < 8 * length b \<and> bit (b ! (length b - k div 8)) (k mod 8)
        \<longleftrightarrow> k < 8 * length (b @ [x]) \<and> bit ((b @ [x]) ! (length (b @ [x]) - 1 - k div 8)) (k mod 8)"
    proof -
      have "k - 8 < 8 * length b \<Longrightarrow> length b - k div 8 < length b" using False pos by simp
      then show ?thesis using False by (auto simp: nth_append)
    qed
    finally show ?thesis .
  qed
qed

lemma bit_0x87: "bit (0x87 :: 128 word) k \<longleftrightarrow> k < 8 \<and> bit (0x87 :: u8) k"
proof -
  have "(0x87 :: 128 word) = ucast (0x87 :: u8)" by simp
  then show ?thesis by (simp only: bit_ucast_iff) (auto dest: bit_imp_le_length)
qed

lemma bit_dbl128:
  assumes "k < 128"
  shows "bit (dbl128 n) k \<longleftrightarrow>
    (0 < k \<and> bit n (k - 1)) \<noteq> (bit n 127 \<and> k < 8 \<and> bit (0x87 :: u8) k)"
proof -
  have "bit (push_bit 1 n) k \<longleftrightarrow> 0 < k \<and> bit n (k - 1)"
    using assms by (simp only: bit_push_bit_iff) auto
  then show ?thesis
    unfolding dbl128_def bit_xor_iff
    by (cases "bit n 127") (simp_all only: if_True if_False bit_0x87 bit_0_eq bot_apply bot_bool_def simp_thms)
qed

lemma gf_mulx_dbl:
  assumes "length b = 16"
  shows "gf_mulx b = cmac_dbl b"
proof -
  define f where "f x y = push_bit 1 x OR drop_bit 7 y" for x y :: u8
  define g where "g = fold (\<lambda>i p. p[i := f (p ! i) (p ! (i + 1))]) [0..<15] b"
  have g: "length g = 16" "\<And>j. j < 16 \<Longrightarrow> g ! j = (if j < 15 then f (b ! j) (b ! (j + 1)) else b ! j)"
    using shift_loop_nth [of 15 b f] assms by (simp_all add: g_def)
  have carry: "b ! 0 AND 0x80 \<noteq> 0 \<longleftrightarrow> bit (b ! 0) 7"
    by (rule and_0x80_nonzero)
  have top: "bit (num_of b) 127 \<longleftrightarrow> bit (b ! 0) 7"
    using assms by (simp add: bit_num_of)
  define r where "r = gf_mulx b"
  have r: "r = (let p = g[15 := push_bit 1 (g ! 15)]
      in if b ! 0 AND 0x80 \<noteq> 0 then p[15 := p ! 15 XOR 0x87] else p)"
    unfolding r_def gf_mulx_def g_def f_def Let_def ..
  have len: "length r = 16" using g(1) by (simp add: r Let_def)
  have "r ! i = bytes_of (dbl128 (num_of b)) ! i" if i: "i < 16" for i
  proof (rule bit_word_eqI)
    fix j assume j: "j < LENGTH(8)"
    let ?k = "8 * (15 - i) + j"
    have k: "?k < 128" "?k div 8 = 15 - i" "?k mod 8 = j" using i j by simp_all
    have rhs: "bit (bytes_of (dbl128 (num_of b)) ! i) j
        \<longleftrightarrow> (0 < ?k \<and> bit (num_of b) (?k - 1)) \<noteq> (bit (b ! 0) 7 \<and> ?k < 8 \<and> bit (0x87 :: u8) ?k)"
    proof -
      have "bit (bytes_of n ! i) j \<longleftrightarrow> bit n ?k" for n
        using i j by (simp add: bytes_of_def bit_ucast_iff bit_drop_bit_eq)
      then show ?thesis by (simp only: bit_dbl128 [OF k(1)] top)
    qed
    have lo: "0 < ?k \<and> bit (num_of b) (?k - 1) \<longleftrightarrow>
        (if 0 < j then bit (b ! i) (j - 1) else i < 15 \<and> bit (b ! (i + 1)) 7)"
    proof (cases "0 < j")
      case True
      then have "(?k - 1) div 8 = 15 - i" "(?k - 1) mod 8 = j - 1" "?k - 1 < 128" 
      proof -
        obtain j' where "j = Suc j'" using True by (cases j) auto
        then show "(?k - 1) div 8 = 15 - i" "(?k - 1) mod 8 = j - 1" "?k - 1 < 128"
          using i j by simp_all
      qed
      then show ?thesis using True assms i by (simp add: bit_num_of)
    next
      case False
      show ?thesis
      proof (cases "i = 15")
        case True
        then show ?thesis using False by simp
      next
        case F2: False
        have "(?k - 1) div 8 = 14 - i" "(?k - 1) mod 8 = 7" "?k - 1 < 128" 
        proof -
          obtain m where "15 - i = Suc m" "14 - i = m" using i F2 by (cases "15 - i") auto
          then have "?k - 1 = 7 + 8 * m" using False by simp
          then show "(?k - 1) div 8 = 14 - i" "(?k - 1) mod 8 = 7" "?k - 1 < 128"
            using \<open>14 - i = m\<close> by simp_all
        qed
        then show ?thesis using False F2 assms i by (simp add: bit_num_of)
      qed
    qed
    have bf: "bit (f x y) j \<longleftrightarrow> (if 0 < j then bit x (j - 1) else bit y 7)" for x y
    proof -
      have "\<not> bit y (7 + j)" if "0 < j" using that bit_imp_le_length [of y "7 + j"] by auto
      moreover have "bit (push_bit 1 x) j \<longleftrightarrow> 0 < j \<and> bit x (j - 1)"
        using j by (simp only: bit_push_bit_iff) auto
      ultimately show ?thesis unfolding f_def bit_or_iff bit_drop_bit_eq o_def by auto
    qed
    show "bit (r ! i) j = bit (bytes_of (dbl128 (num_of b)) ! i) j"
    proof (cases "i = 15")
      case True
      have "r ! i = push_bit 1 (b ! 15) XOR (if bit (b ! 0) 7 then 0x87 else 0)"
        using g True by (simp add: r Let_def carry)
      moreover have "bit (push_bit 1 (b ! 15)) j \<longleftrightarrow> 0 < j \<and> bit (b ! 15) (j - 1)"
        using j by (simp only: bit_push_bit_iff) auto
      ultimately show ?thesis
        unfolding rhs lo using True j by (simp only: bit_xor_iff) auto
    next
      case False
      then have "r ! i = f (b ! i) (b ! (i + 1))"
        using i g by (simp add: r Let_def)
      then show ?thesis
        unfolding rhs lo using False i by (simp only: bf) auto
    qed
  qed
  then have "r = bytes_of (dbl128 (num_of b))"
    using len by (intro nth_equalityI) (simp_all add: bytes_of_def)
  then show ?thesis by (simp add: r_def cmac_dbl_def)
qed

section \<open>Reading the elements\<close>

text \<open>\<open>m\<close> is what is left to read: the rest of the current element and the later ones, or
  nothing when the pointer has run past the last element.\<close>

definition rp_rep :: "bytes list \<Rightarrow> read_ptr \<Rightarrow> bytes \<Rightarrow> bool" where
  "rp_rep addr rp m \<longleftrightarrow>
     (rp_e rp < length addr \<and> rp_cur rp = addr ! rp_e rp \<and> rp_pos rp < length (rp_cur rp)
        \<and> m = drop (rp_pos rp) (rp_cur rp) @ concat (drop (Suc (rp_e rp)) addr))
     \<or> (length addr \<le> rp_e rp \<and> m = [])"

lemma rp_rep_start:
  assumes "\<forall>a \<in> set addr. a \<noteq> []"
  shows "rp_rep addr \<lparr>rp_e = e, rp_pos = 0, rp_cur = addr_at junk addr e\<rparr> (concat (drop e addr))"
proof (cases "e < length addr")
  case True
  then have "addr ! e \<noteq> []" using assms by simp
  moreover have "drop e addr = addr ! e # drop (Suc e) addr" using True by (simp add: Cons_nth_drop_Suc)
  ultimately show ?thesis using True by (simp add: rp_rep_def addr_at_def)
qed (simp add: rp_rep_def)

lemma omac1_byte_rep:
  assumes "\<forall>a \<in> set addr. a \<noteq> []" and "rp_rep addr rp (b # m)"
  shows "\<exists>rp'. omac1_byte junk addr i (acc, rp) = Some (acc[i := acc ! i XOR b], rp') \<and> rp_rep addr rp' m"
proof -
  from assms(2) have e: "rp_e rp < length addr" "rp_cur rp = addr ! rp_e rp" "rp_pos rp < length (rp_cur rp)"
    and m: "b # m = drop (rp_pos rp) (rp_cur rp) @ concat (drop (Suc (rp_e rp)) addr)"
    by (auto simp: rp_rep_def)
  have d: "drop (rp_pos rp) (rp_cur rp) = rp_cur rp ! rp_pos rp # drop (Suc (rp_pos rp)) (rp_cur rp)"
    using e(3) by (simp add: Cons_nth_drop_Suc)
  have b: "rp_cur rp ! rp_pos rp = b"
    and m': "m = drop (Suc (rp_pos rp)) (rp_cur rp) @ concat (drop (Suc (rp_e rp)) addr)"
    using m unfolding d by simp_all
  have r: "rd (rp_cur rp) (rp_pos rp) = Some b" using e(3) b by (simp add: rd_def)
  show ?thesis
  proof (cases "length (rp_cur rp) \<le> rp_pos rp + 1")
    case True
    then show ?thesis
      using r m' rp_rep_start [OF assms(1), of "rp_e rp + 1" junk] by (simp add: omac1_byte_def)
  next
    case False
    then have "rp_rep addr (rp\<lparr>rp_pos := rp_pos rp + 1\<rparr>) m"
      using e m' by (simp add: rp_rep_def)
    then show ?thesis using r False by (simp add: omac1_byte_def)
  qed
qed

lemma omac1_bytes_rep:
  assumes "\<forall>a \<in> set addr. a \<noteq> []" and "rp_rep addr rp (b @ m)" and "i + length b \<le> length acc"
  shows "\<exists>acc' rp'. omac1_bytes junk addr [i..<i + length b] (acc, rp) = Some (acc', rp')
    \<and> rp_rep addr rp' m \<and> length acc' = length acc
    \<and> (\<forall>j < length acc. acc' ! j = acc ! j XOR (if i \<le> j \<and> j < i + length b then b ! (j - i) else 0))"
  using assms(2,3)
proof (induction b arbitrary: i acc rp)
  case (Cons x b)
  obtain rp1 where 1: "omac1_byte junk addr i (acc, rp) = Some (acc[i := acc ! i XOR x], rp1)"
    "rp_rep addr rp1 (b @ m)"
    using omac1_byte_rep [OF assms(1), of rp x "b @ m" junk i acc] Cons.prems(1) by auto
  let ?c = "acc[i := acc ! i XOR x]"
  obtain acc' rp' where 2: "omac1_bytes junk addr [Suc i..<Suc i + length b] (?c, rp1) = Some (acc', rp')"
    "rp_rep addr rp' m" "length acc' = length acc"
    "\<forall>j < length acc. acc' ! j = ?c ! j XOR (if Suc i \<le> j \<and> j < Suc i + length b then b ! (j - Suc i) else 0)"
    using Cons.IH [OF 1(2), of "Suc i" ?c] Cons.prems(2) by auto
  have u: "[i..<i + length (x # b)] = i # [Suc i..<Suc i + length b]" by (simp add: upt_rec)
  have "acc' ! j = acc ! j XOR (if i \<le> j \<and> j < i + length (x # b) then (x # b) ! (j - i) else 0)"
    if "j < length acc" for j
  proof -
    consider "j = i" | "Suc i \<le> j" | "j < i" by linarith
    then show ?thesis
    proof cases
      case 2: 2
      then have "j - i = Suc (j - Suc i)" by simp
      then show ?thesis using 2 that \<open>\<forall>j < length acc. acc' ! j = _\<close> by simp
    qed (use that \<open>\<forall>j < length acc. acc' ! j = _\<close> in auto)
  qed
  with 1 2 show ?case unfolding u by auto
qed auto

lemma omac1_bytes_xorl:
  assumes "\<forall>a \<in> set addr. a \<noteq> []" and "rp_rep addr rp (b @ m)" and "length b \<le> 16" and "length acc = 16"
  shows "\<exists>rp'. omac1_bytes junk addr [0..<length b] (acc, rp) = Some (xorl acc (pad16 b), rp') \<and> rp_rep addr rp' m"
proof -
  obtain acc' rp' where c: "omac1_bytes junk addr [0..<length b] (acc, rp) = Some (acc', rp')"
    "rp_rep addr rp' m" "length acc' = 16"
    "\<forall>j < 16. acc' ! j = acc ! j XOR (if j < length b then b ! j else 0)"
    using omac1_bytes_rep [OF assms(1,2), of 0 acc junk] assms(3,4) by auto
  have "acc' = xorl acc (pad16 b)"
    using c(3,4) assms(3,4) by (intro nth_equalityI) (auto simp: pad16_def nth_append)
  with c show ?thesis by auto
qed

lemma cmac_split_step:
  assumes "16 < length m"
  shows "cmac_split m = (take 16 m @ fst (cmac_split (drop 16 m)), snd (cmac_split (drop 16 m)))"
proof -
  have "(length m - 1) div 16 = Suc ((length m - 17) div 16)"
    using assms le_div_geq [of 16 "length m - 1"] by simp
  moreover have "length m - 16 - 1 = length m - 17" by simp
  ultimately show ?thesis
    by (simp add: cmac_split_def Let_def take_add add.commute)
qed

lemma cmac_split_short: "length m \<le> 16 \<Longrightarrow> cmac_split m = ([], m)"
  by (simp add: cmac_split_def)

text \<open>After the block loop: the chain is one block short of the end when the message is a whole
  number of blocks, and complete otherwise.\<close>

lemma omac1_blocks_rep:
  assumes "\<forall>a \<in> set addr. a \<noteq> []" and "rp_rep addr rp m" and "length a = 16"
  shows "\<exists>rp'. omac1_blocks ctx junk addr (length m) (a, rp) =
     (let c = cbc (aes_128_encrypt ctx) a (fst (cmac_split m)); l = snd (cmac_split m)
      in if length l = 16 then Some (xorl c l, rp', 0) else Some (c, rp', length l))
    \<and> (length (snd (cmac_split m)) \<noteq> 16 \<longrightarrow> rp_rep addr rp' (snd (cmac_split m)))"
  using assms(2,3)
proof (induction "length m" arbitrary: m a rp rule: less_induct)
  case less
  let ?E = "aes_128_encrypt ctx"
  consider "length m < 16" | "length m = 16" | "16 < length m" by linarith
  then show ?case
  proof cases
    case 1
    then show ?thesis
      using less.prems by (subst omac1_blocks.simps) (auto simp: cmac_split_short Let_def)
  next
    case 2
    then obtain rp' where "omac1_bytes junk addr [0..<16] (a, rp) = Some (xorl a (pad16 m), rp')"
      using omac1_bytes_xorl [OF assms(1), of rp m "[]" a junk] less.prems by auto
    with 2 show ?thesis
      by (subst omac1_blocks.simps, simp, subst omac1_blocks.simps)
        (simp add: cmac_split_short pad16_full Let_def)
  next
    case 3
    let ?b = "take 16 m" and ?r = "drop 16 m"
    have b: "length ?b = 16" using 3 by simp
    obtain rp1 where 1: "omac1_bytes junk addr [0..<16] (a, rp) = Some (xorl a ?b, rp1)" "rp_rep addr rp1 ?r"
      using omac1_bytes_xorl [OF assms(1), of rp ?b ?r a junk] less.prems b by (auto simp: pad16_full)
    have "cbc ?E a (fst (cmac_split m)) = cbc ?E (?E (xorl a ?b)) (fst (cmac_split ?r))"
      using cmac_split_step [OF 3] b by (simp add: cbc_block)
    moreover have "omac1_blocks ctx junk addr (length m) (a, rp)
        = omac1_blocks ctx junk addr (length ?r) (?E (xorl a ?b), rp1)"
      using 3 1 by (subst omac1_blocks.simps) simp
    moreover have "snd (cmac_split m) = snd (cmac_split ?r)" using cmac_split_step [OF 3] by simp
    ultimately show ?thesis
      using less.hyps [OF _ 1(2), of "?E (xorl a ?b)"] 3 by simp
  qed
qed

lemma length_cmac_last: "m \<noteq> [] \<Longrightarrow> 0 < length (snd (cmac_split m)) \<and> length (snd (cmac_split m)) \<le> 16"
proof -
  assume "m \<noteq> []"
  then obtain n where n: "length m = Suc n" by (cases m) auto
  have "length (snd (cmac_split m)) = Suc n - 16 * (n div 16)"
    by (simp add: cmac_split_def Let_def n)
  also have "\<dots> = Suc (n mod 16)"
    using minus_mult_div_eq_mod [of n 16] by (simp add: Suc_diff_le)
  finally show ?thesis by (simp add: Suc_le_eq)
qed

lemma cmac_split_Nil: "m = [] \<Longrightarrow> snd (cmac_split m) = []"
  by (simp add: cmac_split_def)

lemma omac1_vector_cmac:
  assumes "\<forall>a \<in> set addr. a \<noteq> []"
  shows "omac1_aes_128_vector True junk key addr
    = Some (Some (cmac (aes_128_encrypt (rijndaelKeySetupEnc key)) (concat addr)))"
proof -
  let ?ctx = "rijndaelKeySetupEnc key" and ?m = "concat addr" and ?z = "replicate 16 (0 :: u8)"
  let ?E = "aes_128_encrypt ?ctx"
  let ?c = "cbc ?E ?z (fst (cmac_split ?m))" and ?l = "snd (cmac_split ?m)"
  let ?rp = "\<lparr>rp_e = 0, rp_pos = 0, rp_cur = addr_at junk addr 0\<rparr>"
  have total: "sum_list (map length addr) = length ?m" by (simp add: length_concat)
  have start: "rp_rep addr ?rp ?m" using rp_rep_start [OF assms, of 0 junk] by simp
  obtain rp' where blocks: "omac1_blocks ?ctx junk addr (length ?m) (?z, ?rp)
      = (if length ?l = 16 then Some (xorl ?c ?l, rp', 0) else Some (?c, rp', length ?l))"
    and rp': "length ?l \<noteq> 16 \<Longrightarrow> rp_rep addr rp' ?l"
    using omac1_blocks_rep [OF assms start, of ?z ?ctx junk] by (auto simp: Let_def)
  have c: "length ?c = 16" by (rule rijndael.length_cbc) simp
  have dbl: "gf_mulx (?E x) = cmac_dbl (?E x)" "length (cmac_dbl y) = 16" for x y
    by (simp_all add: gf_mulx_dbl cmac_dbl_def bytes_of_def)
  have xor: "map (\<lambda>i. p ! i XOR q ! i) [0..<16] = xorl q p" if "length p = 16" "length q = 16" for p q :: bytes
    using that by (intro nth_equalityI) (simp_all add: xor.commute)
  show ?thesis
  proof (cases "length ?l = 16")
    case True
    then have "?m \<noteq> []" using cmac_split_Nil [of ?m] by (metis list.size(3) zero_neq_numeral)
    moreover have "omac1_blocks ?ctx junk addr (length ?m) (?z, ?rp) = Some (xorl ?c ?l, rp', 0)"
      using blocks True by (simp only: if_True simp_thms)
    ultimately show ?thesis
      unfolding omac1_aes_128_vector_def aes_encrypt_init_def Let_def total
      using True c by (auto simp: dbl xor cmac_def case_prod_beta Let_def xorl_assoc)
  next
    case False
    have l: "length ?l < 16" using False length_cmac_last [of ?m] cmac_split_Nil [of ?m]
      by (metis le_neq_implies_less list.size(3) zero_less_numeral)
    have cond: "length ?l \<noteq> 0 \<or> length ?m = 0" using length_cmac_last [of ?m]
      by (metis length_0_conv less_numeral_extra(3))
    obtain rp2 where rest: "omac1_bytes junk addr [0..<length ?l] (?c, rp') = Some (xorl ?c (pad16 ?l), rp2)"
      using omac1_bytes_xorl [OF assms, of rp' ?l "[]" ?c junk] rp' [OF False] l c by auto
    have pad: "(xorl ?c (pad16 ?l))[length ?l := xorl ?c (pad16 ?l) ! length ?l XOR 0x80]
        = xorl ?c (pad16 (?l @ [0x80]))"
      using l c by (intro nth_equalityI) (auto simp: nth_list_update pad16_def nth_append nth_Cons' xor.assoc)
    have bl: "omac1_blocks ?ctx junk addr (length ?m) (?z, ?rp) = Some (?c, rp', length ?l)"
      using blocks False by (simp only: if_False simp_thms)
    have condT: "(length ?l \<noteq> 0 \<or> length ?m = 0) = True" using cond by blast
    show ?thesis
      unfolding omac1_aes_128_vector_def aes_encrypt_init_def Let_def total simp_thms if_True if_False
        option.case bl bind.bind_lunit prod.case condT rest pad
      using False c l by (simp add: dbl gf_mulx_dbl xor cmac_def case_prod_beta Let_def xorl_assoc Suc_le_eq)
  qed
qed

lemma cbc_cong:
  assumes "\<And>x. length x = 16 \<Longrightarrow> E x = E' x" and "\<And>x. length x = 16 \<Longrightarrow> length (E x) = 16"
    and "length a = 16"
  shows "cbc E a p = cbc E' a p"
  using assms(3)
proof (induction "length p" arbitrary: p a rule: less_induct)
  case less
  show ?case
  proof (cases "p = []")
    case False
    let ?x = "xorl a (pad16 (take 16 p))"
    have x: "length ?x = 16" using less.prems by simp
    then have "cbc E (E ?x) (drop 16 p) = cbc E' (E ?x) (drop 16 p)"
      using less.hyps [of "drop 16 p" "E ?x"] False assms(2) by simp
    then show ?thesis
      using False assms(1) [OF x] by (subst (1 2) cbc.simps) simp
  qed simp
qed

lemma cmac_cong:
  assumes E: "\<And>x. length x = 16 \<Longrightarrow> E x = E' x" and len: "\<And>x. length x = 16 \<Longrightarrow> length (E x) = 16"
  shows "cmac E m = cmac E' m"
proof -
  let ?z = "replicate 16 (0 :: u8)"
  have z: "E ?z = E' ?z" by (rule E) simp
  have c: "cbc E ?z p = cbc E' ?z p" for p by (rule cbc_cong [OF E len]) simp_all
  have lc: "length (cbc E' ?z p) = 16" for p
  proof -
    have "block_cipher E" by unfold_locales (rule len)
    then show ?thesis unfolding c [symmetric] by (rule block_cipher.length_cbc) simp
  qed
  have "length (snd (cmac_split m)) \<le> 16"
    using length_cmac_last [of m] cmac_split_Nil [of m] by (cases "m = []") auto
  then have l: "length (if length (snd (cmac_split m)) = 16 then xorl (snd (cmac_split m)) (cmac_dbl k)
      else xorl (pad16 (snd (cmac_split m) @ [0x80])) (cmac_dbl k')) = 16" for k k'
    by (simp add: cmac_dbl_def bytes_of_def)
  show ?thesis
    unfolding cmac_def Let_def case_prod_beta z c
    by (rule E) (simp only: length_xorl lc l)
qed

lemma omac1_aes_128_cmac:
  assumes "length key = 16" and "data \<noteq> []"
  shows "omac1_aes_128 True junk key data = Some (Some (cmac (aes128k128d key) data))"
  using omac1_vector_cmac [of "[data]" junk key] assms
    cmac_cong [of "aes_128_encrypt (rijndaelKeySetupEnc key)" "aes128k128d key" data]
  by (simp add: omac1_aes_128_def aes_128_encrypt_def rijndael_is_aes128)

section \<open>Properties\<close>

text \<open>C19. \<open>omac1_aes_128_vector\<close> is AES-CMAC (SP 800-38B) of the concatenation of its elements,
  for any list of non-empty elements: the result does not depend on how the message is cut, nor on
  what the pointer loaded from beyond the end of \<open>addr\<close> points to.\<close>

theorem omac1_aes_128_vector_is_cmac:
  assumes "length key = 16" and "\<forall>a \<in> set addr. a \<noteq> []"
  shows "omac1_aes_128_vector True junk key addr = Some (Some (cmac (aes128k128d key) (concat addr)))"
  using omac1_vector_cmac [OF assms(2), of junk key] assms(1)
    cmac_cong [of "aes_128_encrypt (rijndaelKeySetupEnc key)" "aes128k128d key" "concat addr"]
  by (simp add: aes_128_encrypt_def rijndael_is_aes128)

theorem omac1_aes_128_vector_is_cmac_witness:
  "omac1_aes_128_vector True [] (replicate 16 7) [[1, 2], [3]]
     = Some (Some (cmac (aes128k128d (replicate 16 7)) [1, 2, 3]))"
  using omac1_aes_128_vector_is_cmac [of "replicate 16 7" "[[1, 2], [3]]" "[]"] by simp

text \<open>The receiver's check accepts what the sender computes: when the FT element carries the
  code \<open>wpa_tdls_ftie_mic\<close> returned for it (whatever its MIC field held at that time),
  \<open>tdls_verify_mic\<close> returns 1; and with any other 16 bytes there it returns 0.\<close>

theorem tdls_mic_roundtrip:
  assumes "length kck = 16" and "length lnkid = 20" and "lnkid ! 1 = 18"
    and "length rsnie = 2 + unat (rsnie ! 1)" and "length timeoutie = 2 + unat (timeoutie ! 1)"
    and "length mic0 = 16" and "length head = 4" and "unat (head ! 1) = 18 + length body"
    and "length mic = 16"
  shows "\<exists>mic1. wpa_tdls_ftie_mic True junk kck seq lnkid rsnie timeoutie (head @ mic0 @ body)
        = Some (Some mic1)
    \<and> tdls_verify_mic True junk' kck seq (Some lnkid) (Some rsnie) (Some timeoutie)
        (Some (head @ mic @ body)) = Some (mic = mic1)"
proof -
  have h: "rd (head @ x) 1 = Some (head ! 1)" for x
    using assms(7) by (auto simp: rd_def nth_append)
  have ft: "rdn (head @ m @ body) 0 (2 + unat (head ! 1)) = Some (head @ m @ body)"
    if "length m = 16" for m
    using that assms(7,8) by (simp add: rdn_def)
  have clear: "wrn (head @ m @ body) 4 (replicate 16 0) = Some (head @ replicate 16 0 @ body)"
    if "length m = 16" for m
    using that assms(7) by (intro wrn_append) simp_all
  have field: "rdn (head @ mic @ body) 4 16 = Some mic"
    using assms(7,9) by (intro rdn_append) simp_all
  have r: "rd lnkid 1 = Some 18" "rd rsnie 1 = Some (rsnie ! 1)" "rd timeoutie 1 = Some (timeoutie ! 1)"
    "rdn rsnie 0 (2 + unat (rsnie ! 1)) = Some rsnie"
    "rdn timeoutie 0 (2 + unat (timeoutie ! 1)) = Some timeoutie"
    "rdn lnkid 8 6 = Some (take 6 (drop 8 lnkid))" "rdn lnkid 14 6 = Some (take 6 (drop 14 lnkid))"
    "rdn lnkid 0 20 = Some lnkid" "rdn lnkid 0 (2 + unat (18 :: u8)) = Some lnkid"
    using assms(2-5) by (simp_all add: rd_def rdn_def)
  have "take 6 (drop 8 lnkid) @ take 6 (drop 14 lnkid) @ [seq] @ lnkid @ rsnie @ timeoutie
      @ head @ replicate 16 0 @ body \<noteq> []" by simp
  note o = omac1_aes_128_cmac [OF assms(1) this]
  show ?thesis
    unfolding wpa_tdls_ftie_mic_def tdls_verify_mic_def option.case prod.case h r bind.bind_lunit
      ft [OF assms(6)] ft [OF assms(9)] clear [OF assms(6)] clear [OF assms(9)] o field
    by auto
qed

theorem tdls_mic_roundtrip_witness:
  "\<exists>mic1. wpa_tdls_ftie_mic True [] (replicate 16 1) 2 ([101, 18] @ replicate 18 3) [48, 1, 9] [56, 1, 4]
        ([55, 19, 0, 0] @ replicate 16 5 @ [6]) = Some (Some mic1)
    \<and> tdls_verify_mic True [] (replicate 16 1) 2 (Some ([101, 18] @ replicate 18 3)) (Some [48, 1, 9])
        (Some [56, 1, 4]) (Some ([55, 19, 0, 0] @ replicate 16 8 @ [6])) = Some (replicate 16 8 = mic1)"
  by (rule tdls_mic_roundtrip) simp_all

end
