(* ===== verification/Frame_Crypto.thy ===== *)
theory Frame_Crypto
  imports Arc4 Crc32 Tkip_Mix Ccmp
begin

text \<open>
  The software encryption and decryption of whole frames (\<open>rtw_wep_encrypt\<close> to
  \<open>rtw_aes_decrypt\<close> of \<^verbatim>\<open>core/rtw_security.c\<close>): key selection, the walk over the
  fragments of a transmit buffer, the integrity check value, the statistics counters, and the
  small state machines of \<open>security_priv\<close> (TKIP countermeasures, WEP key restore).

  The host is little-endian, so the store \<^verbatim>\<open>*((__le32 *)crc) = getcrc32(...)\<close> writes the
  bytes of \<open>getcrc32\<close> in order. A length that comes out negative makes the routines run over
  4 GiB, which the checked access reports as \<^term>\<open>None\<close>.
\<close>

section \<open>State\<close>

definition WEP40 :: u8 where "WEP40 = 0x1"
definition TKIP :: u8 where "TKIP = 0x2"
definition AES :: u8 where "AES = 0x4"
definition WEP104 :: u8 where "WEP104 = 0x5"
definition WEP_WPA_MIXED :: u8 where "WEP_WPA_MIXED = 0x7"
definition BIP :: u8 where "BIP = 0x8"

definition security_type_str :: "bool \<Rightarrow> u8 \<Rightarrow> string option" where
  "security_type_str w value =
     (if value \<le> (if w then BIP else WEP_WPA_MIXED)
      then Some ([''N/A'', ''WEP40'', ''TKIP'', ''TKIP_WM'', ''AES'', ''WEP104'', ''SMS4'', ''WEP_WPA'',
        ''BIP''] ! unat value)
      else None)"

text \<open>Three counters of one kind: broadcast, multicast, unicast.\<close>

record sw_cnt =
  cnt_bc :: u64
  cnt_mc :: u64
  cnt_uc :: u64

record security_priv =
  dot11PrivacyAlgrthm :: u32
  dot11PrivacyKeyIndex :: nat
  dot11DefKey :: "bytes list"
  dot11DefKeylen :: "nat list"
  key_mask :: u8
  dot118021XGrpKeyid :: nat
  dot118021XGrpKey :: "bytes list"
  binstallGrpkey :: bool
  busetkipkey :: bool
  btkip_countermeasure :: bool
  btkip_countermeasure_time :: u32
  wep_sw_enc_cnt :: sw_cnt
  wep_sw_dec_cnt :: sw_cnt
  tkip_sw_enc_cnt :: sw_cnt
  tkip_sw_dec_cnt :: sw_cnt
  aes_sw_enc_cnt :: sw_cnt
  aes_sw_dec_cnt :: sw_cnt

record pkt_attrib =
  encrypt :: u8
  hdrlen :: nat
  iv_len :: nat
  icv_len :: nat
  nr_frags :: nat
  last_txcmdsz :: nat
  attrib_ra :: bytes
  attrib_ta :: bytes
  attrib_UncstKey :: bytes

record rx_pkt_attrib =
  rx_encrypt :: u8
  rx_key_index :: nat
  rx_hdrlen :: nat
  rx_iv_len :: nat
  rx_ra :: bytes
  rx_ta :: bytes

definition is_multicast_mac_addr :: "bytes \<Rightarrow> bool" where
  "is_multicast_mac_addr addr \<longleftrightarrow> addr ! 0 \<noteq> 0xff \<and> 0x01 AND addr ! 0 \<noteq> 0"

definition is_broadcast_mac_addr :: "bytes \<Rightarrow> bool" where
  "is_broadcast_mac_addr addr \<longleftrightarrow> addr ! 0 = 0xff \<and> addr ! 1 = 0xff \<and> addr ! 2 = 0xff
     \<and> addr ! 3 = 0xff \<and> addr ! 4 = 0xff \<and> addr ! 5 = 0xff"

text \<open>The macros \<open>WEP_SW_ENC_CNT_INC\<close> to \<open>AES_SW_DEC_CNT_INC\<close>, which differ in the field only.\<close>

definition sw_cnt_inc :: "bytes \<Rightarrow> sw_cnt \<Rightarrow> sw_cnt" where
  "sw_cnt_inc ra c =
     (if is_broadcast_mac_addr ra then c\<lparr>cnt_bc := cnt_bc c + 1\<rparr>
      else if is_multicast_mac_addr ra then c\<lparr>cnt_mc := cnt_mc c + 1\<rparr>
      else c\<lparr>cnt_uc := cnt_uc c + 1\<rparr>)"

definition rdz :: "bytes \<Rightarrow> nat \<Rightarrow> int \<Rightarrow> bytes option" where
  "rdz b i n = (if n < 0 then None else rdn b i (nat n))"

section \<open>Walk over the fragments of a transmit buffer\<close>

definition RND4 :: "nat \<Rightarrow> nat" where
  "RND4 x = (x div 4 + (if x mod 4 = 0 then 0 else 1)) * 4"

text \<open>\<open>buf\<close> is the memory behind \<open>pxmitframe->buf_addr\<close>, \<open>base\<close> the value of that pointer (the
  rounding of \<open>pframe\<close> is on addresses) and \<open>pframe\<close> an offset into \<open>buf\<close>. \<open>n\<close> is
  \<open>nr_frags - curfragnum\<close>.\<close>

fun frag_loop ::
  "nat \<Rightarrow> 'a pkt_attrib_scheme \<Rightarrow> nat \<Rightarrow> (nat \<Rightarrow> int \<Rightarrow> bytes \<Rightarrow> bytes option) \<Rightarrow> nat \<Rightarrow> nat \<Rightarrow> bytes \<Rightarrow> bytes option" where
  "frag_loop base pattrib frag_len enc 0 pframe buf = Some buf"
| "frag_loop base pattrib frag_len enc (Suc n) pframe buf =
     (if n = 0 then
        (let dlen = int (last_txcmdsz pattrib) - int (hdrlen pattrib) - int (iv_len pattrib)
               - int (icv_len pattrib)
         in enc pframe dlen buf)
      else
        (let dlen = int frag_len - int (hdrlen pattrib) - int (iv_len pattrib) - int (icv_len pattrib)
         in do {
           buf \<leftarrow> enc pframe dlen buf;
           frag_loop base pattrib frag_len enc n (RND4 (base + (pframe + frag_len)) - base) buf }))"

definition hw_hdr_offset :: "int \<Rightarrow> nat" where
  "hw_hdr_offset pkt_offset = unat (of_int (40 + pkt_offset * 8) :: u8)"

section \<open>WEP\<close>

text \<open>Encryption of the data at \<open>payload\<close> and of its check value behind it, shared by WEP and
  TKIP.\<close>

definition rc4_frag :: "bytes \<Rightarrow> u32 \<Rightarrow> nat \<Rightarrow> int \<Rightarrow> bytes \<Rightarrow> bytes option" where
  "rc4_frag key keylen payload dlen buf = do {
     data \<leftarrow> rdz buf payload dlen;
     let crc = getcrc32 data;
     let mycontext = arcfour_init key keylen;
     let (mycontext, c) = arcfour_encrypt mycontext data;
     buf \<leftarrow> wrn buf payload c;
     let (mycontext, c) = arcfour_encrypt mycontext crc;
     wrn buf (payload + nat dlen) c }"

text \<open>\<open>wepkey\<close> has 16 bytes: the IV, then \<open>keylength\<close> bytes of the default key.\<close>

definition wep_key :: "'s security_priv_scheme \<Rightarrow> nat \<Rightarrow> bytes \<Rightarrow> (bytes \<times> nat) option" where
  "wep_key sec idx iv = do {
     keylength \<leftarrow> rd (dot11DefKeylen sec) idx;
     skey \<leftarrow> rd (dot11DefKey sec) idx;
     k \<leftarrow> rdn skey 0 keylength;
     if 16 < 3 + keylength then None else Some (iv @ k, 3 + keylength) }"

definition wep_encrypt_frag :: "'s security_priv_scheme \<Rightarrow> 'a pkt_attrib_scheme \<Rightarrow> nat \<Rightarrow> int \<Rightarrow> bytes \<Rightarrow> bytes option" where
  "wep_encrypt_frag sec pattrib pframe dlen buf = do {
     iv \<leftarrow> rdn buf (pframe + hdrlen pattrib) 3;
     (wepkey, keylen) \<leftarrow> wep_key sec (dot11PrivacyKeyIndex sec) iv;
     rc4_frag wepkey (of_nat keylen) (pframe + iv_len pattrib + hdrlen pattrib) dlen buf }"

text \<open>\<open>buf = None\<close> is a null \<open>buf_addr\<close>; the result is the buffer and \<open>security_priv\<close>.\<close>

definition rtw_wep_encrypt ::
  "'s security_priv_scheme \<Rightarrow> nat \<Rightarrow> int \<Rightarrow> nat \<Rightarrow> 'a pkt_attrib_scheme \<Rightarrow> bytes option \<Rightarrow> (bytes option \<times> 's security_priv_scheme) option" where
  "rtw_wep_encrypt sec base pkt_offset frag_len pattrib buf =
     (case buf of None \<Rightarrow> Some (None, sec)
      | Some b \<Rightarrow>
         if encrypt pattrib = WEP40 \<or> encrypt pattrib = WEP104 then do {
           b \<leftarrow> frag_loop base pattrib frag_len (wep_encrypt_frag sec pattrib) (nr_frags pattrib)
             (hw_hdr_offset pkt_offset) b;
           Some (Some b, sec\<lparr>wep_sw_enc_cnt := sw_cnt_inc (attrib_ra pattrib) (wep_sw_enc_cnt sec)\<rparr>) }
         else Some (Some b, sec))"

text \<open>\<open>frame\<close> starts at \<open>rx_data\<close>, \<open>len\<close> is \<open>u.hdr.len\<close>. The comparison of the check value only
  prints a message, but it reads the last four bytes of the payload.\<close>

definition icv_check :: "bytes \<Rightarrow> nat \<Rightarrow> int \<Rightarrow> bool option" where
  "icv_check frame payload dlen = do {
     data \<leftarrow> rdz frame payload (dlen - 4);
     let crc = getcrc32 data;
     last4 \<leftarrow> rdn frame (payload + nat (dlen - 4)) 4;
     Some (crc = last4) }"

definition rtw_wep_decrypt ::
  "'s security_priv_scheme \<Rightarrow> 'a rx_pkt_attrib_scheme \<Rightarrow> nat \<Rightarrow> bytes \<Rightarrow> (bytes \<times> 's security_priv_scheme) option" where
  "rtw_wep_decrypt sec prxattrib len frame =
     (if rx_encrypt prxattrib = WEP40 \<or> rx_encrypt prxattrib = WEP104 then do {
        iv \<leftarrow> rdn frame (rx_hdrlen prxattrib) 3;
        (wepkey, keylen) \<leftarrow> wep_key sec (rx_key_index prxattrib) iv;
        let dlen = int len - int (rx_hdrlen prxattrib) - int (rx_iv_len prxattrib);
        let payload = rx_iv_len prxattrib + rx_hdrlen prxattrib;
        data \<leftarrow> rdz frame payload dlen;
        let (mycontext, c) = arcfour_encrypt (arcfour_init wepkey (of_nat keylen)) data;
        frame \<leftarrow> wrn frame payload c;
        _ \<leftarrow> icv_check frame payload dlen;
        Some (frame, sec\<lparr>wep_sw_dec_cnt := sw_cnt_inc (rx_ra prxattrib) (wep_sw_dec_cnt sec)\<rparr>) }
      else Some (frame, sec))"

section \<open>TKIP\<close>

text \<open>\<open>GET_TKIP_PN\<close>, \<open>pnl\<close> and \<open>pnh\<close>: the six bytes of the sequence counter, TSC0 first.\<close>

definition GET_TKIP_PN :: "bytes \<Rightarrow> bytes" where
  "GET_TKIP_PN iv = [iv ! 2, iv ! 0, iv ! 4, iv ! 5, iv ! 6, iv ! 7]"

definition tkip_pnl :: "bytes \<Rightarrow> u16" where
  "tkip_pnl tsc = ucast (tsc ! 0) OR push_bit 8 (ucast (tsc ! 1))"

definition tkip_pnh :: "bytes \<Rightarrow> u32" where
  "tkip_pnh tsc = ucast (tsc ! 2) OR push_bit 8 (ucast (tsc ! 3)) OR push_bit 16 (ucast (tsc ! 4))
     OR push_bit 24 (ucast (tsc ! 5))"

definition tkip_rc4key :: "bytes \<Rightarrow> bytes \<Rightarrow> bytes \<Rightarrow> bytes" where
  "tkip_rc4key prwskey ta iv =
     (let tsc = GET_TKIP_PN iv;
          ttkey = phase1 prwskey ta (tkip_pnh tsc)
      in phase2 prwskey ttkey (tkip_pnl tsc))"

definition tkip_encrypt_frag :: "bytes \<Rightarrow> 'a pkt_attrib_scheme \<Rightarrow> nat \<Rightarrow> int \<Rightarrow> bytes \<Rightarrow> bytes option" where
  "tkip_encrypt_frag prwskey pattrib pframe dlen buf = do {
     iv \<leftarrow> rdn buf (pframe + hdrlen pattrib) 8;
     rc4_frag (tkip_rc4key prwskey (attrib_ta pattrib) iv) 16
       (pframe + iv_len pattrib + hdrlen pattrib) dlen buf }"

definition tx_key :: "'s security_priv_scheme \<Rightarrow> 'a pkt_attrib_scheme \<Rightarrow> bytes option" where
  "tx_key sec pattrib =
     (if IS_MCAST (attrib_ra pattrib) then rd (dot118021XGrpKey sec) (dot118021XGrpKeyid sec)
      else Some (attrib_UncstKey pattrib))"

text \<open>The first component is \<open>res == _SUCCESS\<close>.\<close>

definition rtw_tkip_encrypt ::
  "'s security_priv_scheme \<Rightarrow> nat \<Rightarrow> int \<Rightarrow> nat \<Rightarrow> 'a pkt_attrib_scheme \<Rightarrow> bytes option
    \<Rightarrow> (bool \<times> bytes option \<times> 's security_priv_scheme) option" where
  "rtw_tkip_encrypt sec base pkt_offset frag_len pattrib buf =
     (case buf of None \<Rightarrow> Some (False, None, sec)
      | Some b \<Rightarrow>
         if encrypt pattrib = TKIP then do {
           prwskey \<leftarrow> tx_key sec pattrib;
           b \<leftarrow> frag_loop base pattrib frag_len (tkip_encrypt_frag prwskey pattrib) (nr_frags pattrib)
             (hw_hdr_offset pkt_offset) b;
           Some (True, Some b,
             sec\<lparr>tkip_sw_enc_cnt := sw_cnt_inc (attrib_ra pattrib) (tkip_sw_enc_cnt sec)\<rparr>) }
         else Some (True, Some b, sec))"

text \<open>The static variables of the two decryption routines that count frames received before a
  group key is installed. \<open>now\<close> is \<open>rtw_get_current_time()\<close>, \<open>passing\<close> is
  \<open>rtw_get_passing_time_ms\<close>, both services of the operating system.\<close>

record gkey_stat =
  gk_start :: u32
  gk_bc_cnt :: u32
  gk_mc_cnt :: u32

definition gkey_missing :: "u32 \<Rightarrow> (u32 \<Rightarrow> u32) \<Rightarrow> bytes \<Rightarrow> gkey_stat \<Rightarrow> gkey_stat" where
  "gkey_missing now passing ra s =
     (let s = (if gk_start s = 0 then s\<lparr>gk_start := now\<rparr> else s);
          s = (if is_broadcast_mac_addr ra then s\<lparr>gk_bc_cnt := gk_bc_cnt s + 1\<rparr>
               else s\<lparr>gk_mc_cnt := gk_mc_cnt s + 1\<rparr>)
      in if 1000 < passing (gk_start s)
         then s\<lparr>gk_start := now, gk_bc_cnt := 0, gk_mc_cnt := 0\<rparr> else s)"

definition gkey_reset :: "gkey_stat \<Rightarrow> gkey_stat" where
  "gkey_reset s = s\<lparr>gk_start := 0, gk_bc_cnt := 0, gk_mc_cnt := 0\<rparr>"

text \<open>\<open>stainfo\<close> is the unicast key of the station \<open>rtw_get_stainfo\<close> finds for the transmitter
  address, \<^term>\<open>None\<close> when there is none.\<close>

definition rtw_tkip_decrypt ::
  "u32 \<Rightarrow> (u32 \<Rightarrow> u32) \<Rightarrow> 's security_priv_scheme \<Rightarrow> gkey_stat \<Rightarrow> bytes option \<Rightarrow> 'a rx_pkt_attrib_scheme \<Rightarrow> nat \<Rightarrow> bytes
    \<Rightarrow> (bool \<times> bytes \<times> 's security_priv_scheme \<times> gkey_stat) option" where
  "rtw_tkip_decrypt now passing sec gk stainfo prxattrib len frame =
     (if rx_encrypt prxattrib = TKIP then
        (case stainfo of None \<Rightarrow> Some (False, frame, sec, gk)
         | Some unicast_key \<Rightarrow>
            if IS_MCAST (rx_ra prxattrib) \<and> \<not> binstallGrpkey sec
            then Some (False, frame, sec, gkey_missing now passing (rx_ra prxattrib) gk)
            else do {
              let gk = (if IS_MCAST (rx_ra prxattrib) then gkey_reset gk else gk);
              prwskey \<leftarrow> (if IS_MCAST (rx_ra prxattrib)
                then rd (dot118021XGrpKey sec) (rx_key_index prxattrib) else Some unicast_key);
              let payload = rx_iv_len prxattrib + rx_hdrlen prxattrib;
              let dlen = int len - int (rx_hdrlen prxattrib) - int (rx_iv_len prxattrib);
              iv \<leftarrow> rdn frame (rx_hdrlen prxattrib) 8;
              let rc4key = tkip_rc4key prwskey (rx_ta prxattrib) iv;
              data \<leftarrow> rdz frame payload dlen;
              let (mycontext, c) = arcfour_encrypt (arcfour_init rc4key 16) data;
              frame \<leftarrow> wrn frame payload c;
              icv_ok \<leftarrow> icv_check frame payload dlen;
              Some (icv_ok, frame,
                sec\<lparr>tkip_sw_dec_cnt := sw_cnt_inc (rx_ra prxattrib) (tkip_sw_dec_cnt sec)\<rparr>, gk) })
      else Some (True, frame, sec, gk))"

section \<open>CCMP\<close>

definition aes_encrypt_frag :: "bool \<Rightarrow> bytes \<Rightarrow> 'a pkt_attrib_scheme \<Rightarrow> nat \<Rightarrow> int \<Rightarrow> bytes \<Rightarrow> bytes option" where
  "aes_encrypt_frag w prwskey pattrib pframe dlen buf = do {
     f \<leftarrow> aes_cipher w prwskey (hdrlen pattrib) (drop pframe buf) (of_int dlen);
     Some (take pframe buf @ f) }"

definition rtw_aes_encrypt ::
  "bool \<Rightarrow> 's security_priv_scheme \<Rightarrow> nat \<Rightarrow> int \<Rightarrow> nat \<Rightarrow> 'a pkt_attrib_scheme \<Rightarrow> bytes option
    \<Rightarrow> (bool \<times> bytes option \<times> 's security_priv_scheme) option" where
  "rtw_aes_encrypt w sec base pkt_offset frag_len pattrib buf =
     (case buf of None \<Rightarrow> Some (False, None, sec)
      | Some b \<Rightarrow>
         if encrypt pattrib = AES then do {
           prwskey \<leftarrow> tx_key sec pattrib;
           b \<leftarrow> frag_loop base pattrib frag_len (aes_encrypt_frag w prwskey pattrib) (nr_frags pattrib)
             (hw_hdr_offset pkt_offset) b;
           Some (True, Some b,
             sec\<lparr>aes_sw_enc_cnt := sw_cnt_inc (attrib_ra pattrib) (aes_sw_enc_cnt sec)\<rparr>) }
         else Some (True, Some b, sec))"

text \<open>\<open>message\<close> is the static buffer of \<open>aes_decipher\<close>.\<close>

definition rtw_aes_decrypt ::
  "bool \<Rightarrow> u32 \<Rightarrow> (u32 \<Rightarrow> u32) \<Rightarrow> 's security_priv_scheme \<Rightarrow> gkey_stat \<Rightarrow> bytes \<Rightarrow> bytes option \<Rightarrow> 'a rx_pkt_attrib_scheme \<Rightarrow> nat
    \<Rightarrow> bytes \<Rightarrow> (bool \<times> bytes \<times> 's security_priv_scheme \<times> gkey_stat \<times> bytes) option" where
  "rtw_aes_decrypt w now passing sec gk message stainfo prxattrib len frame =
     (if rx_encrypt prxattrib = AES then
        (case stainfo of None \<Rightarrow> Some (False, frame, sec, gk, message)
         | Some unicast_key \<Rightarrow>
            if IS_MCAST (rx_ra prxattrib) \<and> \<not> binstallGrpkey sec
            then Some (False, frame, sec, gkey_missing now passing (rx_ra prxattrib) gk, message)
            else do {
              let gk = (if IS_MCAST (rx_ra prxattrib) then gkey_reset gk else gk);
              prwskey \<leftarrow> (if IS_MCAST (rx_ra prxattrib)
                then rd (dot118021XGrpKey sec) (rx_key_index prxattrib) else Some unicast_key);
              if IS_MCAST (rx_ra prxattrib) \<and> dot118021XGrpKeyid sec \<noteq> rx_key_index prxattrib
              then Some (False, frame, sec, gk, message)
              else do {
                let dlen = int len - int (rx_hdrlen prxattrib) - int (rx_iv_len prxattrib);
                (res, frame, message) \<leftarrow>
                  aes_decipher w prwskey (rx_hdrlen prxattrib) frame (of_int dlen) message;
                Some (res, frame,
                  sec\<lparr>aes_sw_dec_cnt := sw_cnt_inc (rx_ra prxattrib) (aes_sw_dec_cnt sec)\<rparr>, gk, message) } })
      else Some (True, frame, sec, gk, message))"

section \<open>Key restore and countermeasures\<close>

definition rtw_use_tkipkey_handler :: "'s security_priv_scheme \<Rightarrow> 's security_priv_scheme" where
  "rtw_use_tkipkey_handler sec = sec\<lparr>busetkipkey := True\<rparr>"

text \<open>The calls \<open>rtw_set_key(adapter, securitypriv, keyid, set_tx, _FALSE)\<close>, in order, as pairs
  \<open>keyid\<close>, \<open>set_tx\<close>.\<close>

definition rtw_sec_restore_wep_key :: "'s security_priv_scheme \<Rightarrow> (nat \<times> bool) list" where
  "rtw_sec_restore_wep_key sec =
     (if dot11PrivacyAlgrthm sec = ucast WEP40 \<or> dot11PrivacyAlgrthm sec = ucast WEP104
      then map (\<lambda>keyid. (keyid, keyid = dot11PrivacyKeyIndex sec))
        (filter (\<lambda>keyid. bit (key_mask sec) keyid) [0..<4])
      else [])"

definition rtw_handle_tkip_countermeasure ::
  "(u32 \<Rightarrow> u32) \<Rightarrow> 's security_priv_scheme \<Rightarrow> bool \<times> 's security_priv_scheme" where
  "rtw_handle_tkip_countermeasure passing sec =
     (if btkip_countermeasure sec then
        (if 60 * 1000 < passing (btkip_countermeasure_time sec)
         then (True, sec\<lparr>btkip_countermeasure := False, btkip_countermeasure_time := 0\<rparr>)
         else (False, sec))
      else (True, sec))"

section \<open>One fragment\<close>

lemma rdz_append [mem_simps]:
  "rdz (p @ m @ s) i n = Some m" if "i = length p" "n = int (length m)"
  using that by (simp add: rdz_def rdn_append)

lemma rdz_append_end:
  "rdz (p @ m) i n = Some m" if "i = length p" "n = int (length m)"
  using that by (simp add: rdz_def rdn_append_end)

text \<open>What a fragment looks like after encryption: data and check value under one key stream.\<close>

definition rc4_cipher :: "bytes \<Rightarrow> u32 \<Rightarrow> bytes \<Rightarrow> bytes" where
  "rc4_cipher key keylen p = snd (arcfour_encrypt (arcfour_init key keylen) p)"

lemma length_rc4_cipher [simp]: "length (rc4_cipher key keylen p) = length p"
  by (simp add: rc4_cipher_def arcfour_encrypt_length)

lemma rc4_cipher_twice: "rc4_cipher key keylen (rc4_cipher key keylen p) = p"
  by (simp add: rc4_cipher_def rc4.enc_twice)

lemma rc4_frag_cipher:
  assumes "payload = length p" and "dlen = int (length m)" and "length room = 4"
  shows "rc4_frag key keylen payload dlen (p @ m @ room @ s)
    = Some (p @ rc4_cipher key keylen (m @ getcrc32 m) @ s)"
proof -
  let ?c = "arcfour_init key keylen"
  obtain c1 x where x: "arcfour_encrypt ?c m = (c1, x)" by (cases "arcfour_encrypt ?c m")
  obtain c2 y where y: "arcfour_encrypt c1 (getcrc32 m) = (c2, y)" by (cases "arcfour_encrypt c1 (getcrc32 m)")
  have len: "length x = length m" "length y = 4"
    using arcfour_encrypt_length [of ?c m] arcfour_encrypt_length [of c1 "getcrc32 m"] x y by simp_all
  have "rc4_cipher key keylen (m @ getcrc32 m) = x @ y"
    by (simp add: rc4_cipher_def rc4.enc_append x y)
  moreover have "wrn (p @ m @ room @ s) (length p) x = Some (p @ x @ room @ s)"
    using len by (intro wrn_append) simp_all
  moreover have "wrn (p @ x @ room @ s) (length p + length m) y = Some (p @ x @ y @ s)"
    using wrn_append [of "length p + length m" "p @ x" y room s] len assms by simp
  ultimately show ?thesis
    using assms x y by (simp add: rc4_frag_def rdz_append)
qed

lemma icv_check_iff:
  assumes "payload = length p" and "dlen = int (length m) + 4" and "length icv = 4"
  shows "icv_check (p @ m @ icv @ s) payload dlen = Some (getcrc32 m = icv)"
proof -
  have "rdn (p @ m @ icv @ s) (payload + nat (dlen - 4)) 4 = Some icv"
    using rdn_append [of "payload + nat (dlen - 4)" "p @ m" 4 icv s] assms by simp
  then show ?thesis using assms by (simp add: icv_check_def rdz_append)
qed

text \<open>Decryption of a ciphertext \<open>c\<close> of data and check value, and the comparison.\<close>

lemma rc4_decrypt_frag:
  assumes "payload = length p" and "dlen = int (length c)" and "4 \<le> length c"
    and "q = rc4_cipher key keylen c"
  shows "rdz (p @ c @ s) payload dlen = Some c"
    and "wrn (p @ c @ s) payload (snd (arcfour_encrypt (arcfour_init key keylen) c)) = Some (p @ q @ s)"
    and "icv_check (p @ q @ s) payload dlen
      = Some (getcrc32 (take (length c - 4) q) = drop (length c - 4) q)"
proof -
  show "rdz (p @ c @ s) payload dlen = Some c" using assms by (simp add: rdz_append)
  have q: "length q = length c" using assms(4) by simp
  show "wrn (p @ c @ s) payload (snd (arcfour_encrypt (arcfour_init key keylen) c)) = Some (p @ q @ s)"
    using assms q by (simp add: wrn_append rc4_cipher_def)
  let ?m = "take (length c - 4) q" and ?i = "drop (length c - 4) q"
  have "icv_check (p @ ?m @ ?i @ s) payload dlen = Some (getcrc32 ?m = ?i)"
    by (rule icv_check_iff) (use assms q in simp_all)
  then show "icv_check (p @ q @ s) payload dlen = Some (getcrc32 ?m = ?i)"
    by (simp only: append_assoc [symmetric] append_take_drop_id)
qed

section \<open>Transmit side: a frame of one fragment\<close>

definition tx_frame :: "'a pkt_attrib_scheme \<Rightarrow> bytes \<Rightarrow> bytes \<Rightarrow> bytes \<Rightarrow> bool" where
  "tx_frame pattrib hdr iv m \<longleftrightarrow> nr_frags pattrib = 1 \<and> length hdr = hdrlen pattrib
     \<and> length iv = iv_len pattrib
     \<and> last_txcmdsz pattrib = hdrlen pattrib + iv_len pattrib + length m + icv_len pattrib"

lemma frag_loop_one:
  assumes "tx_frame pattrib hdr iv m"
  shows "frag_loop base pattrib frag_len enc (nr_frags pattrib) pframe buf = enc pframe (int (length m)) buf"
proof -
  have "nr_frags pattrib = Suc 0" using assms by (simp add: tx_frame_def)
  then show ?thesis using assms by (simp add: tx_frame_def)
qed

lemma wep_encrypt_frag_cipher:
  assumes "tx_frame pattrib hdr iv m" and "3 \<le> length iv" and "length room = 4"
    and "wep_key sec (dot11PrivacyKeyIndex sec) (take 3 iv) = Some (k, kl)"
  shows "wep_encrypt_frag sec pattrib (length pre) (int (length m)) (pre @ hdr @ iv @ m @ room @ s)
    = Some (pre @ hdr @ iv @ rc4_cipher k (of_nat kl) (m @ getcrc32 m) @ s)"
proof -
  have "rdn (pre @ hdr @ iv @ m @ room @ s) (length pre + hdrlen pattrib) 3 = Some (take 3 iv)"
    using rdn_append [of "length pre + hdrlen pattrib" "pre @ hdr" 3 "take 3 iv" "drop 3 iv @ m @ room @ s"]
      assms(1,2) by (simp add: tx_frame_def flip: append_assoc)
  then show ?thesis
    using rc4_frag_cipher [of "length pre + iv_len pattrib + hdrlen pattrib" "pre @ hdr @ iv" "int (length m)" m room k "of_nat kl" s]
      assms by (simp add: wep_encrypt_frag_def tx_frame_def)
qed

lemma tkip_encrypt_frag_cipher:
  assumes "tx_frame pattrib hdr iv m" and "length iv = 8" and "length room = 4"
  shows "tkip_encrypt_frag key pattrib (length pre) (int (length m)) (pre @ hdr @ iv @ m @ room @ s)
    = Some (pre @ hdr @ iv @ rc4_cipher (tkip_rc4key key (attrib_ta pattrib) iv) 16 (m @ getcrc32 m) @ s)"
proof -
  have "rdn (pre @ hdr @ iv @ m @ room @ s) (length pre + hdrlen pattrib) 8 = Some iv"
    using rdn_append [of "length pre + hdrlen pattrib" "pre @ hdr" 8 iv "m @ room @ s"]
      assms(1,2) by (simp add: tx_frame_def)
  then show ?thesis
    using rc4_frag_cipher [of "length pre + iv_len pattrib + hdrlen pattrib" "pre @ hdr @ iv" "int (length m)" m room
        "tkip_rc4key key (attrib_ta pattrib) iv" 16 s]
      assms by (simp add: tkip_encrypt_frag_def tx_frame_def)
qed

section \<open>Receive side\<close>

text \<open>The key \<open>rtw_tkip_decrypt\<close> and \<open>rtw_aes_decrypt\<close> select, \<^term>\<open>None\<close> when they find none.\<close>

definition rx_key :: "'s security_priv_scheme \<Rightarrow> bytes option \<Rightarrow> 'a rx_pkt_attrib_scheme \<Rightarrow> bytes option" where
  "rx_key sec stainfo prx = do {
     unicast_key \<leftarrow> stainfo;
     if IS_MCAST (rx_ra prx)
     then (if binstallGrpkey sec then rd (dot118021XGrpKey sec) (rx_key_index prx) else None)
     else Some unicast_key }"

lemma tkip_decrypt_cipher:
  assumes "rx_encrypt prx = TKIP" and "rx_key sec stainfo prx = Some key"
    and "rx_hdrlen prx = length hdr" and "rx_iv_len prx = 8" and "length iv = 8"
    and "len = length hdr + 8 + length c" and "4 \<le> length c"
    and "q = rc4_cipher (tkip_rc4key key (rx_ta prx) iv) 16 c"
  shows "\<exists>sec2 gk2. rtw_tkip_decrypt now passing sec gk stainfo prx len (hdr @ iv @ c @ s)
    = Some (getcrc32 (take (length c - 4) q) = drop (length c - 4) q, hdr @ iv @ q @ s, sec2, gk2)"
proof -
  have rd: "rdn (hdr @ iv @ c @ s) (length hdr) 8 = Some iv"
    using assms(5) by (simp add: rdn_append)
  have dl: "int len - int (length hdr) - int 8 = int (length c)"
    using assms(6) by simp
  have pl: "8 + length hdr = length (hdr @ iv)" using assms(5) by simp
  note d = rc4_decrypt_frag [OF pl dl assms(7,8), of s, simplified append_assoc]
  obtain u where u: "stainfo = Some u"
    and key: "(if IS_MCAST (rx_ra prx) then rd (dot118021XGrpKey sec) (rx_key_index prx) else Some u) = Some key"
    and inst: "(IS_MCAST (rx_ra prx) \<and> \<not> binstallGrpkey sec) = False"
    using assms(2) by (auto simp: rx_key_def bind_eq_Some_conv split: if_splits)
  show ?thesis
    unfolding rtw_tkip_decrypt_def u option.case inst if_False Let_def key bind.bind_lunit assms(3,4) rd
    using assms(1) d by (simp add: case_prod_beta Let_def)
qed

lemma tkip_encrypt_cipher:
  assumes "tx_frame pattrib hdr iv m" and "length iv = 8" and "length room = 4"
    and "encrypt pattrib = TKIP" and "hw_hdr_offset pkt_offset = length pre"
    and "tx_key sec pattrib = Some key"
  shows "\<exists>sec1. rtw_tkip_encrypt sec base pkt_offset frag_len pattrib (Some (pre @ hdr @ iv @ m @ room @ s))
    = Some (True, Some (pre @ hdr @ iv
        @ rc4_cipher (tkip_rc4key key (attrib_ta pattrib) iv) 16 (m @ getcrc32 m) @ s), sec1)"
  using tkip_encrypt_frag_cipher [OF assms(1-3), of key pre s] assms(4-6)
  by (simp add: rtw_tkip_encrypt_def frag_loop_one [OF assms(1)])

text \<open>Changing a window of the ciphertext changes the same window of the plaintext and nothing
  else.\<close>

lemma rc4_cipher_window:
  assumes "length a = length b" and "a \<noteq> b"
  obtains X A B Y where "rc4_cipher k kl (x @ a @ y) = X @ A @ Y" and "rc4_cipher k kl (x @ b @ y) = X @ B @ Y"
    and "length A = length a" and "length B = length a" and "A \<noteq> B"
proof -
  let ?c = "arcfour_init k kl"
  let ?c1 = "fst (arcfour_encrypt ?c x)"
  let ?A = "snd (arcfour_encrypt ?c1 a)" and ?B = "snd (arcfour_encrypt ?c1 b)"
  have ctx: "fst (arcfour_encrypt ?c1 a) = fst (arcfour_encrypt ?c1 b)"
    using assms(1) by (rule rc4.enc_ctx)
  show thesis
  proof (rule that)
    show "rc4_cipher k kl (x @ a @ y) = snd (arcfour_encrypt ?c x) @ ?A
        @ snd (arcfour_encrypt (fst (arcfour_encrypt ?c1 a)) y)"
      by (simp add: rc4_cipher_def rc4.enc_append)
    show "rc4_cipher k kl (x @ b @ y) = snd (arcfour_encrypt ?c x) @ ?B
        @ snd (arcfour_encrypt (fst (arcfour_encrypt ?c1 a)) y)"
      by (simp add: rc4_cipher_def rc4.enc_append ctx)
    show "?A \<noteq> ?B" using assms(2) rc4.enc_inject by blast
  qed (simp_all add: rc4.enc_length assms(1))
qed

lemma icv_detects_window:
  assumes "rc4_cipher k kl (x @ a @ y) = m @ getcrc32 m" and "length a = length b" and "length b \<le> 4"
    and "a \<noteq> b" and "q = rc4_cipher k kl (x @ b @ y)" and "n + 4 = length (x @ b @ y)"
  shows "getcrc32 (take n q) \<noteq> drop n q"
proof
  assume eq: "getcrc32 (take n q) = drop n q"
  obtain X A B Y where w: "m @ getcrc32 m = X @ A @ Y" "q = X @ B @ Y"
    "length A = length a" "length B = length a" "A \<noteq> B"
    using rc4_cipher_window [OF assms(2,4), of k kl x y] assms(1,5) by metis
  have lq: "length (drop n q) = 4" using assms(5,6) by simp
  have "fold crc_ref_byte (X @ A @ Y) 0xffffffff = (crc_step ^^ 32) (- 1)"
    unfolding w(1) [symmetric] by (subst crc_residue) simp_all
  moreover have "fold crc_ref_byte (X @ B @ Y) 0xffffffff = (crc_step ^^ 32) (- 1)"
  proof -
    have "fold crc_ref_byte (take n q @ drop n q) 0xffffffff = (crc_step ^^ 32) (- 1)"
      using crc_residue [OF lq, of "take n q"] eq by simp
    then show ?thesis by (simp only: append_take_drop_id w(2))
  qed
  ultimately have "fold crc_ref_byte (X @ A @ Y) 0xffffffff = fold crc_ref_byte (X @ B @ Y) 0xffffffff"
    by (simp only:)
  then have "A = B"
    using crc_window [of A B X Y "0xffffffff"] w assms(2,3) by (simp only:)
  with w show False by simp
qed

section \<open>Properties\<close>

text \<open>Concrete values for the witnesses: an adapter with one WEP key and a group key, and frames
  with a 24-byte header.\<close>

definition ex_sec :: security_priv where
  "ex_sec = \<lparr>dot11PrivacyAlgrthm = 1, dot11PrivacyKeyIndex = 0,
     dot11DefKey = [[1, 2, 3, 4, 5] @ replicate 11 0], dot11DefKeylen = [5], key_mask = 5,
     dot118021XGrpKeyid = 1, dot118021XGrpKey = [replicate 16 3, replicate 16 4],
     binstallGrpkey = False, busetkipkey = False, btkip_countermeasure = True,
     btkip_countermeasure_time = 7,
     wep_sw_enc_cnt = \<lparr>cnt_bc = 0, cnt_mc = 0, cnt_uc = 0\<rparr>,
     wep_sw_dec_cnt = \<lparr>cnt_bc = 0, cnt_mc = 0, cnt_uc = 0\<rparr>,
     tkip_sw_enc_cnt = \<lparr>cnt_bc = 0, cnt_mc = 0, cnt_uc = 0\<rparr>,
     tkip_sw_dec_cnt = \<lparr>cnt_bc = 0, cnt_mc = 0, cnt_uc = 0\<rparr>,
     aes_sw_enc_cnt = \<lparr>cnt_bc = 0, cnt_mc = 0, cnt_uc = 0\<rparr>,
     aes_sw_dec_cnt = \<lparr>cnt_bc = 0, cnt_mc = 0, cnt_uc = 0\<rparr>\<rparr>"

definition ex_attrib :: "u8 \<Rightarrow> nat \<Rightarrow> pkt_attrib" where
  "ex_attrib alg ivl = \<lparr>encrypt = alg, hdrlen = 24, iv_len = ivl, icv_len = 4, nr_frags = 1,
     last_txcmdsz = 24 + ivl + 3 + 4, attrib_ra = [2, 0, 0, 0, 0, 5], attrib_ta = [2, 0, 0, 0, 0, 6],
     attrib_UncstKey = replicate 16 9\<rparr>"

definition ex_rx :: "u8 \<Rightarrow> nat \<Rightarrow> rx_pkt_attrib" where
  "ex_rx alg ivl = \<lparr>rx_encrypt = alg, rx_key_index = 0, rx_hdrlen = 24, rx_iv_len = ivl,
     rx_ra = [2, 0, 0, 0, 0, 5], rx_ta = [2, 0, 0, 0, 0, 6]\<rparr>"

text \<open>WEP: what \<open>rtw_wep_encrypt\<close> makes of a one-fragment frame, \<open>rtw_wep_decrypt\<close> turns back
  into the same data followed by its integrity check value, when the receiver holds the same key
  under the key index of the frame; the code before and behind the payload is untouched.\<close>

theorem wep_roundtrip:
  assumes "tx_frame pattrib hdr iv m" and "iv_len pattrib = 4" and "length room = 4"
    and "encrypt pattrib = WEP40 \<or> encrypt pattrib = WEP104" and "hw_hdr_offset pkt_offset = length pre"
    and "wep_key sec (dot11PrivacyKeyIndex sec) (take 3 iv) = Some (k, kl)"
    and "wep_key sec' (rx_key_index prx) (take 3 iv) = Some (k, kl)"
    and "rx_encrypt prx = encrypt pattrib" and "rx_hdrlen prx = length hdr" and "rx_iv_len prx = 4"
    and "len = length hdr + 4 + length m + 4"
  shows "\<exists>c sec1 sec2. rtw_wep_encrypt sec base pkt_offset frag_len pattrib
        (Some (pre @ hdr @ iv @ m @ room @ s)) = Some (Some (pre @ hdr @ iv @ c @ s), sec1)
    \<and> length c = length m + 4
    \<and> rtw_wep_decrypt sec' prx len (hdr @ iv @ c @ s') = Some (hdr @ iv @ m @ getcrc32 m @ s', sec2)"
proof -
  let ?c = "rc4_cipher k (of_nat kl) (m @ getcrc32 m)"
  have iv: "length iv = 4" using assms(1,2) by (simp add: tx_frame_def)
  have 1: "\<exists>sec1. rtw_wep_encrypt sec base pkt_offset frag_len pattrib
        (Some (pre @ hdr @ iv @ m @ room @ s)) = Some (Some (pre @ hdr @ iv @ ?c @ s), sec1)"
    using wep_encrypt_frag_cipher [OF assms(1) _ assms(3,6), of pre s] assms(4,5) iv
    by (simp add: rtw_wep_encrypt_def frag_loop_one [OF assms(1)])
  have rd: "rdn (hdr @ iv @ ?c @ s') (length hdr) 3 = Some (take 3 iv)"
    using rdn_append [of "length hdr" hdr 3 "take 3 iv" "drop 3 iv @ ?c @ s'"] iv
    by (simp flip: append_assoc)
  have lc: "length ?c = length m + 4" by simp
  have dl: "int len - int (length hdr) - int 4 = int (length ?c)"
    using assms(11) by simp
  have pl: "4 + length hdr = length (hdr @ iv)" using iv by simp
  have four: "4 \<le> length ?c" by simp
  note d = rc4_decrypt_frag [OF pl dl four refl [of "rc4_cipher k (of_nat kl) ?c"], of s', simplified append_assoc]
  have 2: "\<exists>sec2. rtw_wep_decrypt sec' prx len (hdr @ iv @ ?c @ s') = Some (hdr @ iv @ m @ getcrc32 m @ s', sec2)"
    using assms(4,7-10) d rd unfolding rtw_wep_decrypt_def
    by (simp add: case_prod_beta Let_def rc4_cipher_twice)
  from 1 2 lc show ?thesis by blast
qed

theorem wep_roundtrip_witness:
  "\<exists>c sec1 sec2. rtw_wep_encrypt ex_sec 0 0 0 (ex_attrib WEP40 4)
        (Some (replicate 40 0 @ replicate 24 1 @ [9, 8, 7, 0] @ [1, 2, 3] @ replicate 4 0 @ []))
      = Some (Some (replicate 40 0 @ replicate 24 1 @ [9, 8, 7, 0] @ c @ []), sec1)
    \<and> length c = length [1, 2, 3 :: u8] + 4
    \<and> rtw_wep_decrypt ex_sec (ex_rx WEP40 4) 35 (replicate 24 1 @ [9, 8, 7, 0] @ c @ [])
      = Some (replicate 24 1 @ [9, 8, 7, 0] @ [1, 2, 3] @ getcrc32 [1, 2, 3] @ [], sec2)"
  by (rule wep_roundtrip [where k = "[9, 8, 7, 1, 2, 3, 4, 5]" and kl = 8])
    (simp_all add: tx_frame_def ex_attrib_def ex_rx_def ex_sec_def wep_key_def rd_def rdn_def
      hw_hdr_offset_def)

text \<open>TKIP: what \<open>rtw_tkip_encrypt\<close> makes of a one-fragment frame, \<open>rtw_tkip_decrypt\<close> accepts
  and turns back into the same data, for unicast and for group-addressed frames, when the key it
  selects and the transmitter address are the sender's.\<close>

theorem tkip_roundtrip:
  assumes "tx_frame pattrib hdr iv m" and "length iv = 8" and "length room = 4"
    and "encrypt pattrib = TKIP" and "hw_hdr_offset pkt_offset = length pre"
    and "tx_key sec pattrib = Some key" and "rx_key sec' stainfo prx = Some key"
    and "rx_encrypt prx = TKIP" and "rx_hdrlen prx = length hdr" and "rx_iv_len prx = 8"
    and "rx_ta prx = attrib_ta pattrib" and "len = length hdr + 8 + length m + 4"
  shows "\<exists>c sec1 sec2 gk2. rtw_tkip_encrypt sec base pkt_offset frag_len pattrib
        (Some (pre @ hdr @ iv @ m @ room @ s)) = Some (True, Some (pre @ hdr @ iv @ c @ s), sec1)
    \<and> length c = length m + 4
    \<and> rtw_tkip_decrypt now passing sec' gk stainfo prx len (hdr @ iv @ c @ s')
        = Some (True, hdr @ iv @ m @ getcrc32 m @ s', sec2, gk2)"
proof -
  let ?k = "tkip_rc4key key (attrib_ta pattrib) iv"
  let ?c = "rc4_cipher ?k 16 (m @ getcrc32 m)"
  have lc: "length ?c = length m + 4" by simp
  have "len = length hdr + 8 + length ?c" using assms(12) by simp
  from tkip_decrypt_cipher [OF assms(8,7,9,10,2) this, of "rc4_cipher ?k 16 ?c" now passing gk s'] assms(11)
  have "\<exists>sec2 gk2. rtw_tkip_decrypt now passing sec' gk stainfo prx len (hdr @ iv @ ?c @ s')
        = Some (True, hdr @ iv @ m @ getcrc32 m @ s', sec2, gk2)"
    by (simp add: rc4_cipher_twice)
  with tkip_encrypt_cipher [OF assms(1-6), of base frag_len s] lc show ?thesis by blast
qed

theorem tkip_roundtrip_witness:
  "\<exists>c sec1 sec2 gk2. rtw_tkip_encrypt ex_sec 0 0 0 (ex_attrib TKIP 8)
        (Some (replicate 40 0 @ replicate 24 1 @ replicate 8 6 @ [1, 2, 3] @ replicate 4 0 @ []))
      = Some (True, Some (replicate 40 0 @ replicate 24 1 @ replicate 8 6 @ c @ []), sec1)
    \<and> length c = length [1, 2, 3 :: u8] + 4
    \<and> rtw_tkip_decrypt 0 (\<lambda>_. 0) ex_sec \<lparr>gk_start = 0, gk_bc_cnt = 0, gk_mc_cnt = 0\<rparr>
        (Some (replicate 16 9)) (ex_rx TKIP 8) 39 (replicate 24 1 @ replicate 8 6 @ c @ [])
      = Some (True, replicate 24 1 @ replicate 8 6 @ [1, 2, 3] @ getcrc32 [1, 2, 3] @ [], sec2, gk2)"
  by (rule tkip_roundtrip [where key = "replicate 16 9"])
    (simp_all add: tx_frame_def ex_attrib_def ex_rx_def hw_hdr_offset_def tx_key_def rx_key_def
      IS_MCAST_def)

text \<open>TKIP decryption detects every change of the encrypted payload (data or check value)
  that is confined to four consecutive bytes: it returns \<open>_FAIL\<close>.\<close>

theorem tkip_detects_burst:
  assumes "tx_frame pattrib hdr iv m" and "length iv = 8" and "length room = 4"
    and "encrypt pattrib = TKIP" and "hw_hdr_offset pkt_offset = length pre"
    and "tx_key sec pattrib = Some key" and "rx_key sec' stainfo prx = Some key"
    and "rx_encrypt prx = TKIP" and "rx_hdrlen prx = length hdr" and "rx_iv_len prx = 8"
    and "rx_ta prx = attrib_ta pattrib"
    and "rtw_tkip_encrypt sec base pkt_offset frag_len pattrib (Some (pre @ hdr @ iv @ m @ room @ s))
      = Some (True, Some (pre @ hdr @ iv @ x @ a @ y @ s), sec1)"
    and "length b = length a" and "length b \<le> 4" and "a \<noteq> b"
    and "len = length hdr + 8 + length (x @ b @ y)"
  shows "\<exists>f sec2 gk2. rtw_tkip_decrypt now passing sec' gk stainfo prx len (hdr @ iv @ (x @ b @ y) @ s')
    = Some (False, f, sec2, gk2)"
proof -
  let ?k = "tkip_rc4key key (attrib_ta pattrib) iv"
  let ?q = "rc4_cipher ?k 16 (x @ b @ y)"
  have "(x @ a @ y) @ s = rc4_cipher ?k 16 (m @ getcrc32 m) @ s"
    using assms(12) tkip_encrypt_cipher [OF assms(1-6), of base frag_len s] by auto
  then have c: "x @ a @ y = rc4_cipher ?k 16 (m @ getcrc32 m)" by (simp only: append_same_eq)
  have "length (x @ a @ y) = length m + 4" unfolding c by simp
  then have n: "length m + 4 = length (x @ b @ y)" using assms(13) by simp
  then have four: "4 \<le> length (x @ b @ y)" and m: "length (x @ b @ y) - 4 = length m" by simp_all
  have "getcrc32 (take (length m) ?q) \<noteq> drop (length m) ?q"
    by (rule icv_detects_window [OF _ _ _ assms(15) refl n])
      (use assms(13,14) in \<open>simp_all add: c rc4_cipher_twice\<close>)
  then show ?thesis
    using tkip_decrypt_cipher [OF assms(8,7,9,10,2,16) four refl, of now passing gk s', unfolded m] assms(11)
    by auto
qed

theorem tkip_detects_burst_witness:
  "\<exists>c b f sec1 sec2 gk2. rtw_tkip_encrypt ex_sec 0 0 0 (ex_attrib TKIP 8)
        (Some (replicate 40 0 @ replicate 24 1 @ replicate 8 6 @ [1, 2, 3] @ replicate 4 0 @ []))
      = Some (True, Some (replicate 40 0 @ replicate 24 1 @ replicate 8 6 @ c @ []), sec1)
    \<and> rtw_tkip_decrypt 0 (\<lambda>_. 0) ex_sec \<lparr>gk_start = 0, gk_bc_cnt = 0, gk_mc_cnt = 0\<rparr>
        (Some (replicate 16 9)) (ex_rx TKIP 8) 39 (replicate 24 1 @ replicate 8 6 @ (b # tl c) @ [])
      = Some (False, f, sec2, gk2)"
proof -
  have tx: "tx_frame (ex_attrib TKIP 8) (replicate 24 1) (replicate 8 6) [1, 2, 3]"
    by (simp add: tx_frame_def ex_attrib_def)
  have a: "encrypt (ex_attrib TKIP 8) = TKIP" "hw_hdr_offset 0 = length (replicate 40 (0 :: u8))"
    "tx_key ex_sec (ex_attrib TKIP 8) = Some (replicate 16 9)"
    "rx_key ex_sec (Some (replicate 16 9)) (ex_rx TKIP 8) = Some (replicate 16 9)"
    "rx_encrypt (ex_rx TKIP 8) = TKIP" "rx_hdrlen (ex_rx TKIP 8) = length (replicate 24 (1 :: u8))"
    "rx_iv_len (ex_rx TKIP 8) = 8" "rx_ta (ex_rx TKIP 8) = attrib_ta (ex_attrib TKIP 8)"
    by (simp_all add: ex_attrib_def ex_rx_def hw_hdr_offset_def tx_key_def rx_key_def IS_MCAST_def)
  let ?c = "rc4_cipher (tkip_rc4key (replicate 16 9) (attrib_ta (ex_attrib TKIP 8)) (replicate 8 6)) 16
      ([1, 2, 3] @ getcrc32 [1, 2, 3])"
  obtain x y where c: "?c = [] @ [x] @ y" and y: "length y = 6"
  proof -
    have "length ?c = Suc 6" by (simp only: length_rc4_cipher) simp
    from iffD1 [OF length_Suc_conv this] obtain b bs where "?c = b # bs" "length bs = 6" by blast
    then show thesis by (intro that [of b bs]) (simp_all only: append_Nil append_Cons)
  qed
  obtain sec1 where e: "rtw_tkip_encrypt ex_sec 0 0 0 (ex_attrib TKIP 8)
        (Some (replicate 40 0 @ replicate 24 1 @ replicate 8 6 @ [1, 2, 3] @ replicate 4 0 @ []))
      = Some (True, Some (replicate 40 0 @ replicate 24 1 @ replicate 8 6 @ ([] @ [x] @ y) @ []), sec1)"
    using tkip_encrypt_cipher [OF tx _ _ a(1-3), of "replicate 4 0" 0 0 "[]"] unfolding c by auto
  from tkip_detects_burst [OF tx _ _ a, of "replicate 4 0" 0 0 "[]" "[]" "[x]" y sec1 "[x + 1]" 39 0 "\<lambda>_. 0"
      "\<lparr>gk_start = 0, gk_bc_cnt = 0, gk_mc_cnt = 0\<rparr>" "[]"] e y
  obtain f sec2 gk2 where "rtw_tkip_decrypt 0 (\<lambda>_. 0) ex_sec \<lparr>gk_start = 0, gk_bc_cnt = 0, gk_mc_cnt = 0\<rparr>
        (Some (replicate 16 9)) (ex_rx TKIP 8) 39 (replicate 24 1 @ replicate 8 6 @ ((x + 1) # y) @ [])
      = Some (False, f, sec2, gk2)"
    by auto
  with e show ?thesis by (metis append_Cons append_Nil list.sel(3))
qed

text \<open>Without a usable key nothing is decrypted: a group-addressed TKIP or AES frame that
  arrives before a group key is installed, and a frame from an unknown station are rejected, and
  frame, security state and the static buffer stay as they are.\<close>

theorem decrypt_rejects_without_key:
  assumes "stainfo = None \<or> IS_MCAST (rx_ra prx) \<and> \<not> binstallGrpkey sec"
  shows "(rx_encrypt prx = TKIP \<longrightarrow>
      (\<exists>gk'. rtw_tkip_decrypt now passing sec gk stainfo prx len frame = Some (False, frame, sec, gk')))
    \<and> (rx_encrypt prx = AES \<longrightarrow>
      (\<exists>gk'. rtw_aes_decrypt w now passing sec gk message stainfo prx len frame
        = Some (False, frame, sec, gk', message)))"
  using assms by (cases stainfo) (auto simp: rtw_tkip_decrypt_def rtw_aes_decrypt_def)


theorem decrypt_rejects_without_key_witness:
  "\<exists>gk'. rtw_tkip_decrypt 5 (\<lambda>_. 2000) ex_sec \<lparr>gk_start = 0, gk_bc_cnt = 0, gk_mc_cnt = 0\<rparr>
       (Some (replicate 16 9)) ((ex_rx TKIP 8)\<lparr>rx_ra := replicate 6 0xff\<rparr>) 39 (replicate 39 1)
     = Some (False, replicate 39 1, ex_sec, gk')"
proof -
  have "Some (replicate 16 (9 :: u8)) = None
      \<or> IS_MCAST (rx_ra ((ex_rx TKIP 8)\<lparr>rx_ra := replicate 6 0xff\<rparr>)) \<and> \<not> binstallGrpkey ex_sec"
    by (simp add: IS_MCAST_def ex_sec_def)
  from decrypt_rejects_without_key [OF this] show ?thesis by (simp add: ex_rx_def)
qed

text \<open>TKIP countermeasures: \<open>rtw_handle_tkip_countermeasure\<close> refuses exactly while
  countermeasures are active and at most 60 seconds old, a refusal changes nothing, and a success
  leaves them switched off, so that the next call succeeds whatever the clock says.\<close>

theorem tkip_countermeasure_state:
  "fst (rtw_handle_tkip_countermeasure passing sec) \<longleftrightarrow>
      \<not> (btkip_countermeasure sec \<and> passing (btkip_countermeasure_time sec) \<le> 60000)
   \<and> (if fst (rtw_handle_tkip_countermeasure passing sec)
      then rtw_handle_tkip_countermeasure passing' (snd (rtw_handle_tkip_countermeasure passing sec))
        = (True, snd (rtw_handle_tkip_countermeasure passing sec))
      else snd (rtw_handle_tkip_countermeasure passing sec) = sec)"
  by (auto simp: rtw_handle_tkip_countermeasure_def not_le)

text \<open>After a hardware reset \<open>rtw_sec_restore_wep_key\<close> writes back exactly the installed WEP
  keys, each once, in ascending order, and marks exactly the current transmit key.\<close>

theorem restore_wep_keys:
  "set (rtw_sec_restore_wep_key sec) = {(k, tx).
     (dot11PrivacyAlgrthm sec = 1 \<or> dot11PrivacyAlgrthm sec = 5) \<and> k < 4 \<and> bit (key_mask sec) k
     \<and> tx = (k = dot11PrivacyKeyIndex sec)}
   \<and> sorted (map fst (rtw_sec_restore_wep_key sec)) \<and> distinct (map fst (rtw_sec_restore_wep_key sec))"
proof -
  have "sorted (filter (bit (key_mask sec)) [0..<4])"
    by (intro sorted_wrt_filter) simp
  then show ?thesis
    by (auto simp: rtw_sec_restore_wep_key_def WEP40_def WEP104_def comp_def)
qed

end
