(* ===== verification/Ie_Core.thy ===== *)
theory Ie_Core
  imports Bytes
begin

text \<open>
  Supported-rate tables and the construction, search and removal of information elements of
  \<^verbatim>\<open>core/rtw_ieee80211.c\<close> (\<open>rtw_get_bit_value_from_ieee_value\<close> to
  \<open>rtw_get_rateset_len\<close>), with the abstract view of a buffer as a list of elements.

  A search returns an outer option for the memory accesses (\<^term>\<open>None\<close>: outside the buffer)
  and an inner one for the pointer (\<^term>\<open>None\<close>: \<open>NULL\<close>); pointers are offsets.
\<close>

section \<open>Rates\<close>

definition dot11_rate_table :: bytes where
  "dot11_rate_table = [2, 4, 11, 22, 12, 18, 24, 36, 48, 72, 96, 108, 0]"

fun rate_bit_loop :: "bytes \<Rightarrow> u8 \<Rightarrow> nat \<Rightarrow> u32" where
  "rate_bit_loop (r # rs) val i =
     (if r \<noteq> 0 then (if r = val then push_bit i 1 else rate_bit_loop rs val (i + 1)) else 0)"
| "rate_bit_loop [] val i = 0"

definition rtw_get_bit_value_from_ieee_value :: "u8 \<Rightarrow> u32" where
  "rtw_get_bit_value_from_ieee_value val = rate_bit_loop dot11_rate_table val 0"

definition is_cck_rate :: "u8 \<Rightarrow> bool" where
  "is_cck_rate r \<longleftrightarrow> r AND 0x7f = 2 \<or> r AND 0x7f = 4 \<or> r AND 0x7f = 11 \<or> r AND 0x7f = 22"

text \<open>The rate lists end with a zero byte; \<^term>\<open>None\<close> when it is missing.\<close>

fun rtw_is_cckrates_included :: "bytes \<Rightarrow> bool option" where
  "rtw_is_cckrates_included (r # rs) =
     (if r \<noteq> 0 then (if is_cck_rate r then Some True else rtw_is_cckrates_included rs) else Some False)"
| "rtw_is_cckrates_included [] = None"

fun rtw_is_cckratesonly_included :: "bytes \<Rightarrow> bool option" where
  "rtw_is_cckratesonly_included (r # rs) =
     (if r \<noteq> 0 then (if \<not> is_cck_rate r then Some False else rtw_is_cckratesonly_included rs)
      else Some True)"
| "rtw_is_cckratesonly_included [] = None"

definition WIRELESS_INVALID :: u32 where "WIRELESS_INVALID = 0"
definition WIRELESS_11B :: u32 where "WIRELESS_11B = 1"
definition WIRELESS_11G :: u32 where "WIRELESS_11G = 2"
definition WIRELESS_11A :: u32 where "WIRELESS_11A = 4"
definition WIRELESS_11_24N :: u32 where "WIRELESS_11_24N = 8"
definition WIRELESS_11_5N :: u32 where "WIRELESS_11_5N = 16"
definition WIRELESS_11AC :: u32 where "WIRELESS_11AC = 64"
definition WIRELESS_11BG :: u32 where "WIRELESS_11BG = WIRELESS_11B OR WIRELESS_11G"

definition rtw_check_network_type :: "bytes \<Rightarrow> int \<Rightarrow> u32 option" where
  "rtw_check_network_type rate channel =
     (if channel > 14 then do {
        cck \<leftarrow> rtw_is_cckrates_included rate;
        Some (if cck then WIRELESS_INVALID else WIRELESS_11A) }
      else do {
        only \<leftarrow> rtw_is_cckratesonly_included rate;
        if only then Some WIRELESS_11B
        else do {
          cck \<leftarrow> rtw_is_cckrates_included rate;
          Some (if cck then WIRELESS_11BG else WIRELESS_11G) } })"

definition WIFI_CCKRATES :: bytes where "WIFI_CCKRATES = [0x82, 0x84, 0x8B, 0x96]"

definition WIFI_OFDMRATES :: bytes where
  "WIFI_OFDMRATES = [0x0C, 0x12, 0x18, 0x24, 0x30, 0x48, 0x60, 0x6C]"

definition rtw_set_supported_rate :: "u32 \<Rightarrow> bytes" where
  "rtw_set_supported_rate mode =
     (if mode = WIRELESS_11B then WIFI_CCKRATES @ replicate 12 0
      else if mode \<in> {WIRELESS_11G, WIRELESS_11A, WIRELESS_11_5N, WIRELESS_11A OR WIRELESS_11_5N,
          WIRELESS_11A OR WIRELESS_11AC}
      then WIFI_OFDMRATES @ replicate 8 0
      else if mode \<in> {WIRELESS_11BG, WIRELESS_11G OR WIRELESS_11_24N, WIRELESS_11_24N,
          WIRELESS_11B OR WIRELESS_11G OR WIRELESS_11_24N}
      then WIFI_CCKRATES @ WIFI_OFDMRATES @ replicate 4 0
      else replicate 16 0)"

function rateset_len_loop :: "bytes \<Rightarrow> nat \<Rightarrow> nat option" where
  "rateset_len_loop rateset i = do {
     r \<leftarrow> rd rateset i;
     if r = 0 then Some i else if i > 12 then Some i else rateset_len_loop rateset (i + 1) }"
  by pat_completeness auto
termination by (relation "measure (\<lambda>(rateset, i). 14 - i)") auto

declare rateset_len_loop.simps [simp del]

definition rtw_get_rateset_len :: "bytes \<Rightarrow> nat option" where
  "rtw_get_rateset_len rateset = rateset_len_loop rateset 0"

section \<open>Writing elements\<close>

text \<open>The writers return the buffer, the position behind what they wrote and the frame length.\<close>

definition rtw_set_fixed_ie :: "bytes \<Rightarrow> nat \<Rightarrow> bytes \<Rightarrow> nat \<Rightarrow> (bytes \<times> nat \<times> nat) option" where
  "rtw_set_fixed_ie buf pos source frlen = do {
     buf \<leftarrow> wrn buf pos source;
     Some (buf, pos + length source, frlen + length source) }"

text \<open>\<open>len\<close> bytes of \<open>source\<close>; the length byte of the element is \<open>(u8)len\<close>.\<close>

definition rtw_set_ie :: "bytes \<Rightarrow> nat \<Rightarrow> u32 \<Rightarrow> nat \<Rightarrow> bytes \<Rightarrow> nat \<Rightarrow> (bytes \<times> nat \<times> nat) option" where
  "rtw_set_ie buf pos index len source frlen = do {
     buf \<leftarrow> wrn buf pos [ucast index, of_nat len];
     src \<leftarrow> rdn source 0 len;
     buf \<leftarrow> wrn buf (pos + 2) src;
     Some (buf, pos + len + 2, frlen + (len + 2)) }"

definition rtw_set_ie_ch_switch ::
  "bytes \<Rightarrow> nat \<Rightarrow> nat \<Rightarrow> u8 \<Rightarrow> u8 \<Rightarrow> u8 \<Rightarrow> (bytes \<times> nat \<times> nat) option" where
  "rtw_set_ie_ch_switch buf pos buf_len ch_switch_mode new_ch ch_switch_cnt =
     rtw_set_ie buf pos 37 3 [ch_switch_mode, new_ch, ch_switch_cnt] buf_len"

definition SCN :: u8 where "SCN = 0"
definition SCA :: u8 where "SCA = 1"
definition SCB :: u8 where "SCB = 3"
definition HAL_PRIME_CHNL_OFFSET_DONT_CARE :: u8 where "HAL_PRIME_CHNL_OFFSET_DONT_CARE = 0"
definition HAL_PRIME_CHNL_OFFSET_LOWER :: u8 where "HAL_PRIME_CHNL_OFFSET_LOWER = 1"
definition HAL_PRIME_CHNL_OFFSET_UPPER :: u8 where "HAL_PRIME_CHNL_OFFSET_UPPER = 2"

definition secondary_ch_offset_to_hal_ch_offset :: "u8 \<Rightarrow> u8" where
  "secondary_ch_offset_to_hal_ch_offset ch_offset =
     (if ch_offset = SCN then HAL_PRIME_CHNL_OFFSET_DONT_CARE
      else if ch_offset = SCA then HAL_PRIME_CHNL_OFFSET_UPPER
      else if ch_offset = SCB then HAL_PRIME_CHNL_OFFSET_LOWER
      else HAL_PRIME_CHNL_OFFSET_DONT_CARE)"

definition hal_ch_offset_to_secondary_ch_offset :: "u8 \<Rightarrow> u8" where
  "hal_ch_offset_to_secondary_ch_offset ch_offset =
     (if ch_offset = HAL_PRIME_CHNL_OFFSET_DONT_CARE then SCN
      else if ch_offset = HAL_PRIME_CHNL_OFFSET_LOWER then SCB
      else if ch_offset = HAL_PRIME_CHNL_OFFSET_UPPER then SCA
      else SCN)"

definition rtw_set_ie_secondary_ch_offset :: "bytes \<Rightarrow> nat \<Rightarrow> nat \<Rightarrow> u8 \<Rightarrow> (bytes \<times> nat \<times> nat) option" where
  "rtw_set_ie_secondary_ch_offset buf pos buf_len secondary_ch_offset =
     rtw_set_ie buf pos 62 1 [secondary_ch_offset] buf_len"

definition rtw_set_ie_mesh_ch_switch_parm ::
  "bytes \<Rightarrow> nat \<Rightarrow> nat \<Rightarrow> u8 \<Rightarrow> u8 \<Rightarrow> u16 \<Rightarrow> u16 \<Rightarrow> (bytes \<times> nat \<times> nat) option" where
  "rtw_set_ie_mesh_ch_switch_parm buf pos buf_len ttl flags reason precedence =
     rtw_set_ie buf pos 0x118 6 ([ttl, flags] @ le16_bytes reason @ le16_bytes precedence) buf_len"

section \<open>Searching and removing elements\<close>

function get_ie_loop :: "bytes \<Rightarrow> int \<Rightarrow> nat \<Rightarrow> nat \<Rightarrow> (nat \<times> u8) option option" where
  "get_ie_loop pbuf index limit i = do {
     b \<leftarrow> rd pbuf i;
     l \<leftarrow> rd pbuf (i + 1);
     if uint b = index then Some (Some (i, l))
     else (let i' = i + (unat l + 2)
           in if limit \<le> i' then Some None else get_ie_loop pbuf index limit i') }"
  by pat_completeness auto
termination by (relation "measure (\<lambda>(pbuf, index, limit, i). limit - i)") (auto simp: Let_def)

declare get_ie_loop.simps [simp del]

definition rtw_get_ie :: "bytes \<Rightarrow> int \<Rightarrow> int \<Rightarrow> (nat \<times> u8) option option" where
  "rtw_get_ie pbuf index limit = (if limit < 1 then Some None else get_ie_loop pbuf index (nat limit) 0)"

text \<open>The result is the offset of the element and \<open>*ielen\<close>. The copy to \<open>ie\<close> is the destination
  buffer after the call; \<^term>\<open>None\<close> stands for a null \<open>ie\<close> or \<open>oui\<close>. The length byte of the element found is
  read for \<open>ie\<close> and \<open>ielen\<close>; the model takes one of them to be passed, as all callers of this file do.\<close>

function get_ie_ex_loop ::
  "bytes \<Rightarrow> nat \<Rightarrow> u8 \<Rightarrow> bytes option \<Rightarrow> bytes option \<Rightarrow> nat \<Rightarrow> ((nat \<times> nat) option \<times> bytes option) option" where
  "get_ie_ex_loop in_ie in_len eid oui ie cnt =
     (if cnt < in_len then do {
        b \<leftarrow> rd in_ie cnt;
        hit \<leftarrow> (if b = eid then (case oui of None \<Rightarrow> Some True
                  | Some ou \<Rightarrow> do { x \<leftarrow> rdn in_ie (cnt + 2) (length ou); Some (x = ou) })
               else Some False);
        l \<leftarrow> rd in_ie (cnt + 1);
        if hit then do {
          ie \<leftarrow> (case ie of None \<Rightarrow> Some None
            | Some d \<Rightarrow> do { x \<leftarrow> rdn in_ie cnt (unat l + 2); d \<leftarrow> wrn d 0 x; Some (Some d) });
          Some (Some (cnt, unat l + 2), ie) }
        else get_ie_ex_loop in_ie in_len eid oui ie (cnt + (unat l + 2)) }
      else Some (None, ie))"
  by pat_completeness auto
termination by (relation "measure (\<lambda>(in_ie, in_len, eid, oui, ie, cnt). in_len - cnt)") auto

declare get_ie_ex_loop.simps [simp del]

definition rtw_get_ie_ex ::
  "bytes option \<Rightarrow> nat \<Rightarrow> u8 \<Rightarrow> bytes option \<Rightarrow> bytes option \<Rightarrow> ((nat \<times> nat) option \<times> bytes option) option" where
  "rtw_get_ie_ex in_ie in_len eid oui ie =
     (case in_ie of None \<Rightarrow> Some (None, ie)
      | Some b \<Rightarrow> if in_len \<le> 0 then Some (None, ie) else get_ie_ex_loop b in_len eid oui ie 0)"

definition MAX_IE_SZ :: nat where "MAX_IE_SZ = 768"

text \<open>The \<open>while (1)\<close> loop of \<open>rtw_ies_remove_ie\<close>. \<open>start\<close> is an offset into \<open>ies\<close>, \<open>search_len\<close> the
  number of bytes behind it; the remainder is copied through the local \<open>buf\<close> of
  \<open>MAX_IE_SZ\<close> bytes. An element that overruns \<open>search_len\<close> makes \<open>remain_len\<close> wrap around, and the
  copy runs out of the buffer. Every turn shortens \<open>search_len\<close>.\<close>

function ies_remove_loop ::
  "u8 \<Rightarrow> bytes option \<Rightarrow> bytes \<Rightarrow> nat \<Rightarrow> nat \<Rightarrow> nat \<Rightarrow> bool \<Rightarrow> (bool \<times> bytes \<times> nat) option" where
  "ies_remove_loop eid oui ies ies_len start search_len ret =
     (case rtw_get_ie_ex (Some (drop start ies)) search_len eid oui None of
        None \<Rightarrow> None
      | Some (None, _) \<Rightarrow> Some (ret, ies, ies_len)
      | Some (Some (target_ie, target_ielen), _) \<Rightarrow>
          (if target_ielen = 0 then Some (ret, ies, ies_len)
           else if search_len < target_ie + target_ielen then None
           else
             (let remain_len = search_len - (target_ie + target_ielen)
              in if MAX_IE_SZ < remain_len then None
                 else (case rdn ies (start + target_ie + target_ielen) remain_len of
                     None \<Rightarrow> None
                   | Some buf \<Rightarrow> (case wrn ies (start + target_ie) buf of
                       None \<Rightarrow> None
                     | Some ies \<Rightarrow> ies_remove_loop eid oui ies (ies_len - target_ielen)
                         (start + target_ie) remain_len True)))))"
  by pat_completeness auto
termination
  by (relation "measure (\<lambda>(eid, oui, ies, ies_len, start, search_len, ret). search_len)") auto

declare ies_remove_loop.simps [simp del]

definition rtw_ies_remove_ie ::
  "bytes option \<Rightarrow> nat \<Rightarrow> nat \<Rightarrow> u8 \<Rightarrow> bytes option \<Rightarrow> (bool \<times> bytes option \<times> nat) option" where
  "rtw_ies_remove_ie ies ies_len offset eid oui =
     (case ies of None \<Rightarrow> Some (False, None, ies_len)
      | Some b \<Rightarrow>
          if ies_len \<le> offset then Some (False, Some b, ies_len)
          else do {
            (ret, b, ies_len) \<leftarrow> ies_remove_loop eid oui b ies_len offset (ies_len - offset) False;
            Some (ret, Some b, ies_len) })"

section \<open>Buffers as lists of elements\<close>

type_synonym element = "u8 \<times> bytes"

definition ie_bytes :: "element \<Rightarrow> bytes" where
  "ie_bytes e = fst e # of_nat (length (snd e)) # snd e"

definition ies_of :: "element list \<Rightarrow> bytes" where
  "ies_of es = concat (map ie_bytes es)"

text \<open>Every data part fits the length byte.\<close>

definition wf_ies :: "element list \<Rightarrow> bool" where
  "wf_ies es \<longleftrightarrow> list_all (\<lambda>(e, d). length d < 256) es"

fun find_ie :: "(element \<Rightarrow> bool) \<Rightarrow> element list \<Rightarrow> nat \<Rightarrow> (nat \<times> nat) option" where
  "find_ie P [] off = None"
| "find_ie P ((e, d) # es) off =
     (if P (e, d) then Some (off, length d) else find_ie P es (off + 2 + length d))"

lemma ies_of_simps [simp]:
  "ies_of [] = []"
  "ies_of ((e, d) # es) = e # of_nat (length d) # d @ ies_of es"
  "ies_of (es @ es') = ies_of es @ ies_of es'"
  by (simp_all add: ies_of_def ie_bytes_def)

lemma wf_ies_simps [simp]:
  "wf_ies []" "wf_ies ((e, d) # es) \<longleftrightarrow> length d < 256 \<and> wf_ies es"
  "wf_ies (es @ es') \<longleftrightarrow> wf_ies es \<and> wf_ies es'"
  by (simp_all add: wf_ies_def)

lemma unat_length_byte: "length d < 256 \<Longrightarrow> unat (of_nat (length d) :: u8) = length d"
  by (simp add: unat_of_nat)

text \<open>Every list either has no match or splits at the first one.\<close>

lemma find_ie_None: "find_ie P es off = None \<longleftrightarrow> (\<forall>x \<in> set es. \<not> P x)"
  by (induction es arbitrary: off) (auto split: if_splits)

lemma find_ie_split:
  "find_ie P (es1 @ (e, d) # es2) off = Some (off + length (ies_of es1), length d)"
  if "P (e, d)" "\<forall>x \<in> set es1. \<not> P x"
  using that by (induction es1 arbitrary: off) (auto simp: add.assoc)

lemma first_match_cases:
  assumes "\<exists>x \<in> set es. P x"
  obtains es1 e d es2 where "es = es1 @ (e, d) # es2" "P (e, d)" "\<forall>x \<in> set es1. \<not> P x"
  using assms split_list_first_prop [of es P] by (metis surj_pair)

lemma rd_here [mem_simps]:
  "rd (p @ x # s) i = Some x" if "i = length p"
  using that by (simp add: rd_def)

lemma rd_next [mem_simps]:
  "rd (p @ x # y # s) i = Some y" if "i = length p + 1"
  using that by (simp add: rd_def nth_append)

lemma get_ie_loop_find:
  assumes "wf_ies es" "es \<noteq> []"
  shows "get_ie_loop (p @ ies_of es @ rest) (uint eid) (length p + length (ies_of es)) (length p)
    = Some (map_option (\<lambda>(i, n). (i, of_nat n)) (find_ie (\<lambda>(e, d). e = eid) es (length p)))"
  using assms
proof (induction es arbitrary: p)
  case (Cons x es)
  obtain e d where x: "x = (e, d)" by force
  have d: "unat (of_nat (length d) :: u8) = length d" using Cons.prems x by (simp add: unat_length_byte)
  have step: "get_ie_loop (p @ ies_of (x # es) @ rest) (uint eid) l (length p) =
     (if e = eid then Some (Some (length p, of_nat (length d)))
      else if l \<le> length p + (length d + 2) then Some None
      else get_ie_loop (p @ ies_of (x # es) @ rest) (uint eid) l (length p + (length d + 2)))" for l
    by (subst get_ie_loop.simps) (simp add: x mem_simps d Let_def word_uint_eq_iff [of e eid])
  show ?case
  proof (cases "es = [] \<or> e = eid")
    case True
    then show ?thesis by (subst step) (auto simp: x)
  next
    case False
    with Cons.prems x have ne: "es \<noteq> []" "wf_ies es" by auto
    then have pos: "0 < length (ies_of es)" by (cases es) auto
    have b: "p @ ies_of (x # es) @ rest = (p @ ie_bytes x) @ ies_of es @ rest"
      and l: "length (p @ ie_bytes x) = length p + (length d + 2)"
      by (simp_all add: x ie_bytes_def)
    from Cons.IH [OF ne(2,1), of "p @ ie_bytes x"] pos False show ?thesis
      by (subst step) (simp add: b l x ie_bytes_def add.commute add.left_commute add.assoc)
  qed
qed simp

lemma rtw_get_ie_find:
  assumes "wf_ies es"
  shows "rtw_get_ie (ies_of es @ rest) (uint eid) (int (length (ies_of es)))
    = Some (map_option (\<lambda>(i, n). (i, of_nat n)) (find_ie (\<lambda>(e, d). e = eid) es 0))"
proof (cases "es = []")
  case True
  then show ?thesis by (simp add: rtw_get_ie_def)
next
  case False
  then have "0 < length (ies_of es)" by (cases es) auto
  then show ?thesis
    using get_ie_loop_find [OF assms False, of "[]" rest eid] by (simp add: rtw_get_ie_def)
qed

section \<open>Removal\<close>

definition ie_matches :: "u8 \<Rightarrow> bytes option \<Rightarrow> element \<Rightarrow> bool" where
  "ie_matches eid oui x \<longleftrightarrow> fst x = eid \<and> (case oui of None \<Rightarrow> True | Some ou \<Rightarrow> take (length ou) (snd x) = ou)"

text \<open>The comparison with the OUI reads as many bytes as the OUI has, whatever the length byte says.\<close>

definition oui_fits :: "u8 \<Rightarrow> bytes option \<Rightarrow> element list \<Rightarrow> bool" where
  "oui_fits eid oui es \<longleftrightarrow>
     list_all (\<lambda>(e, d). e = eid \<longrightarrow> (case oui of None \<Rightarrow> True | Some ou \<Rightarrow> length ou \<le> length d)) es"

lemma oui_fits_simps [simp]:
  "oui_fits eid oui []" 
  "oui_fits eid oui ((e, d) # es) \<longleftrightarrow>
     (e = eid \<longrightarrow> (case oui of None \<Rightarrow> True | Some ou \<Rightarrow> length ou \<le> length d)) \<and> oui_fits eid oui es"
  "oui_fits eid oui (es @ es') \<longleftrightarrow> oui_fits eid oui es \<and> oui_fits eid oui es'"
  by (simp_all add: oui_fits_def)

lemma get_ie_ex_loop_find:
  assumes "wf_ies es" "oui_fits eid oui es"
  shows "get_ie_ex_loop (p @ ies_of es @ rest) (length p + length (ies_of es)) eid oui None (length p)
    = Some (map_option (\<lambda>(i, n). (i, n + 2)) (find_ie (ie_matches eid oui) es (length p)), None)"
  using assms
proof (induction es arbitrary: p)
  case Nil
  then show ?case by (subst get_ie_ex_loop.simps) simp
next
  case (Cons x es)
  obtain e d where x: "x = (e, d)" by force
  have d: "unat (of_nat (length d) :: u8) = length d" using Cons.prems x by (simp add: unat_length_byte)
  have oui: "(case oui of None \<Rightarrow> Some True
      | Some ou \<Rightarrow> do { y \<leftarrow> rdn (p @ ies_of (x # es) @ rest) (length p + 2) (length ou); Some (y = ou) })
      = Some (ie_matches eid oui x)" if "e = eid"
    using Cons.prems that by (auto simp: x ie_matches_def rdn_def split: option.splits)
  have step: "get_ie_ex_loop (p @ ies_of (x # es) @ rest) l eid oui None (length p) =
     (if length p < l then if ie_matches eid oui x then Some (Some (length p, length d + 2), None)
        else get_ie_ex_loop (p @ ies_of (x # es) @ rest) l eid oui None (length p + (length d + 2))
      else Some (None, None))" for l
  proof (cases "e = eid")
    case True
    then show ?thesis using oui
      by (subst get_ie_ex_loop.simps) (simp add: x mem_simps d)
  next
    case False
    then show ?thesis
      by (subst get_ie_ex_loop.simps) (simp add: x mem_simps d ie_matches_def)
  qed
  have b: "p @ ies_of (x # es) @ rest = (p @ ie_bytes x) @ ies_of es @ rest"
    and l: "length (p @ ie_bytes x) = length p + (length d + 2)"
    and n: "length p < length p + length (ies_of (x # es))"
    by (simp_all add: x ie_bytes_def)
  from Cons.IH [of "p @ ie_bytes x"] Cons.prems show ?case
    by (subst step) (simp add: b l x ie_bytes_def add.commute add.left_commute add.assoc)
qed

lemma rtw_get_ie_ex_find:
  assumes "wf_ies es" "oui_fits eid oui es"
  shows "rtw_get_ie_ex (Some (ies_of es @ rest)) (length (ies_of es)) eid oui None
    = Some (map_option (\<lambda>(i, n). (i, n + 2)) (find_ie (ie_matches eid oui) es 0), None)"
  using get_ie_ex_loop_find [OF assms, of "[]" rest]
  by (cases es) (auto simp: rtw_get_ie_ex_def)

lemma ies_remove_loop_filter:
  assumes "wf_ies es" "oui_fits eid oui es" "length (ies_of es) \<le> MAX_IE_SZ"
  shows "\<exists>tail'. ies_remove_loop eid oui (p @ ies_of es @ tail) (n + length (ies_of es)) (length p) (length (ies_of es)) ret
    = Some (ret \<or> (\<exists>x \<in> set es. ie_matches eid oui x),
            p @ ies_of (filter (\<lambda>x. \<not> ie_matches eid oui x) es) @ tail',
            n + length (ies_of (filter (\<lambda>x. \<not> ie_matches eid oui x) es)))
    \<and> length tail' + length (ies_of (filter (\<lambda>x. \<not> ie_matches eid oui x) es)) = length tail + length (ies_of es)"
  using assms
proof (induction "length es" arbitrary: es p tail n ret rule: less_induct)
  case less
  have ex: "rtw_get_ie_ex (Some (ies_of es @ tail)) (length (ies_of es)) eid oui None
    = Some (map_option (\<lambda>(i, n). (i, n + 2)) (find_ie (ie_matches eid oui) es 0), None)"
    using rtw_get_ie_ex_find [OF less.prems(1,2)] by simp
  note unfold = ies_remove_loop.simps [of eid oui "p @ ies_of es @ tail" _ "length p" "length (ies_of es)"]
  show ?case
  proof (cases "\<exists>x \<in> set es. ie_matches eid oui x")
    case False
    then have f: "filter (\<lambda>x. \<not> ie_matches eid oui x) es = es" "find_ie (ie_matches eid oui) es 0 = None"
      by (auto simp: filter_id_conv find_ie_None)
    show ?thesis
      using False by (subst unfold) (auto simp: ex f)
  next
    case True
    then obtain es1 e d es2 where es: "es = es1 @ (e, d) # es2" and m: "ie_matches eid oui (e, d)"
      and n1: "\<forall>x \<in> set es1. \<not> ie_matches eid oui x"
      by (rule first_match_cases)
    have f1: "filter (\<lambda>x. \<not> ie_matches eid oui x) es1 = es1" using n1 by (simp add: filter_id_conv)
    have w: "wf_ies es2" "oui_fits eid oui es2" "length (ies_of es2) \<le> MAX_IE_SZ"
      using less.prems by (simp_all add: es)
    have find: "find_ie (ie_matches eid oui) es 0 = Some (length (ies_of es1), length d)"
      using find_ie_split [OF m n1, of es2 0] by (simp add: es)
    let ?tail = "drop (length (ies_of es2)) (ie_bytes (e, d) @ ies_of es2 @ tail)"
    have r: "rdn (p @ ies_of es @ tail) (length p + length (ies_of es1) + (length d + 2)) (length (ies_of es2))
        = Some (ies_of es2)"
      by (simp add: rdn_def es ie_bytes_def)
    have wr: "wrn (p @ ies_of es @ tail) (length p + length (ies_of es1)) (ies_of es2)
        = Some ((p @ ies_of es1) @ ies_of es2 @ ?tail)"
      by (simp add: wrn_def es ie_bytes_def)
    have len: "length es2 < length es" by (simp add: es)
    have pl: "length (p @ ies_of es1) = length p + length (ies_of es1)" by simp
    have L: "length (ies_of es) = length (ies_of es1) + (length d + 2) + length (ies_of es2)"
      by (simp add: es)
    have drop_app: "drop (length p) (p @ ies_of es @ tail) = ies_of es @ tail" by simp
    have step: "ies_remove_loop eid oui (p @ ies_of es @ tail) (n + length (ies_of es)) (length p)
        (length (ies_of es)) ret
      = ies_remove_loop eid oui ((p @ ies_of es1) @ ies_of es2 @ ?tail)
          ((n + length (ies_of es1)) + length (ies_of es2)) (length (p @ ies_of es1)) (length (ies_of es2)) True"
      apply (subst unfold)
      apply (simp only: drop_app ex find
        option.map option.case prod.case)
      using less.prems(3) r wr by (simp add: L Let_def add.assoc)
    show ?thesis
      using less.hyps [OF len w, of "p @ ies_of es1" ?tail "n + length (ies_of es1)" True] m
      unfolding step by (auto simp: es f1 ie_bytes_def)
  qed
qed

lemma wrn_here: "wrn (p @ room) (length p) xs = Some (p @ xs @ drop (length xs) room)" if "length xs \<le> length room"
  using that by (simp add: wrn_def)

lemma rtw_set_ie_bytes:
  assumes "length source < 256" "length source + 2 \<le> length room" "pos = length p"
  shows "rtw_set_ie (p @ room) pos index (length source) source frlen
    = Some (p @ ie_bytes (ucast index, source) @ drop (length source + 2) room,
        pos + length source + 2, frlen + (length source + 2))"
proof -
  let ?h = "[ucast index, of_nat (length source)] :: bytes"
  have h: "wrn (p @ room) pos ?h = Some ((p @ ?h) @ drop 2 room)"
    using assms by (simp add: wrn_def)
  have s: "wrn ((p @ ?h) @ drop 2 room) (pos + 2) source
      = Some ((p @ ?h) @ source @ drop (length source) (drop 2 room))"
    using wrn_here [of source "drop 2 room" "p @ ?h"] assms by simp
  show ?thesis
    using s by (simp add: rtw_set_ie_def h rdn_def ie_bytes_def)
qed

lemma rtw_ies_remove_ie_filter:
  assumes "wf_ies es" "oui_fits eid oui es" "length (ies_of es) \<le> MAX_IE_SZ"
  shows "\<exists>tail'. rtw_ies_remove_ie (Some (pre @ ies_of es @ tail)) (length pre + length (ies_of es)) (length pre) eid oui
    = Some (\<exists>x \<in> set es. ie_matches eid oui x,
            Some (pre @ ies_of (filter (\<lambda>x. \<not> ie_matches eid oui x) es) @ tail'),
            length pre + length (ies_of (filter (\<lambda>x. \<not> ie_matches eid oui x) es)))"
proof (cases "es = []")
  case True
  then show ?thesis by (auto simp: rtw_ies_remove_ie_def)
next
  case False
  then have "0 < length (ies_of es)" by (cases es) auto
  then show ?thesis
    using ies_remove_loop_filter [OF assms, of pre tail "length pre" False]
    by (auto simp: rtw_ies_remove_ie_def)
qed

lemma mesh_element_id:
  "8 \<le> length room \<Longrightarrow> \<exists>buf. rtw_set_ie_mesh_ch_switch_parm room 0 n ttl flags reason precedence = Some (buf, 8, n + 8)
     \<and> buf ! 0 = 0x18"
  using rtw_set_ie_bytes [of "[ttl, flags] @ le16_bytes reason @ le16_bytes precedence" room 0 "[]" "0x118" n]
  by (simp add: rtw_set_ie_mesh_ch_switch_parm_def ie_bytes_def)

lemma ch_offset_roundtrip:
  "secondary_ch_offset_to_hal_ch_offset (hal_ch_offset_to_secondary_ch_offset x) =
     (if x = HAL_PRIME_CHNL_OFFSET_LOWER \<or> x = HAL_PRIME_CHNL_OFFSET_UPPER then x else HAL_PRIME_CHNL_OFFSET_DONT_CARE)"
  by (simp add: secondary_ch_offset_to_hal_ch_offset_def hal_ch_offset_to_secondary_ch_offset_def
      HAL_PRIME_CHNL_OFFSET_LOWER_def HAL_PRIME_CHNL_OFFSET_UPPER_def HAL_PRIME_CHNL_OFFSET_DONT_CARE_def
      SCN_def SCA_def SCB_def)

section \<open>Properties\<close>

text \<open>Search: in a buffer that holds a list of elements, \<open>rtw_get_ie\<close> returns the offset and
  the length byte of the first element with the given id and \<open>NULL\<close> exactly if there is none, and
  reads nothing beyond the elements, whatever follows them.\<close>

theorem rtw_get_ie_finds_first:
  assumes "wf_ies es"
  shows "rtw_get_ie (ies_of es @ rest) (uint eid) (int (length (ies_of es)))
    = Some (map_option (\<lambda>(i, n). (i, of_nat n)) (find_ie (\<lambda>(e, d). e = eid) es 0))"
  using assms by (rule rtw_get_ie_find)

theorem rtw_get_ie_finds_first_witness:
  "rtw_get_ie (ies_of [(0, [1, 2]), (48, [9]), (48, [])] @ [7]) 48 9 = Some (Some (4, 1))"
  using rtw_get_ie_finds_first [of "[(0, [1, 2]), (48, [9]), (48, [])]" "[7]" 48] by simp

text \<open>Building and searching agree: \<open>rtw_set_ie\<close> behind a list of elements writes exactly one
  more element, advances position and length by its size, and \<open>rtw_get_ie\<close> over the longer list
  finds it if no earlier element has its id.\<close>

theorem rtw_set_ie_then_get:
  assumes "wf_ies es" and "length source < 256" and "length source + 2 \<le> length room"
    and "eid \<notin> fst ` set es"
  shows "rtw_set_ie (ies_of es @ room) (length (ies_of es)) (ucast eid) (length source) source
        (length (ies_of es))
      = Some (ies_of (es @ [(eid, source)]) @ drop (length source + 2) room,
          length (ies_of (es @ [(eid, source)])), length (ies_of (es @ [(eid, source)])))
    \<and> rtw_get_ie (ies_of (es @ [(eid, source)]) @ drop (length source + 2) room) (uint eid)
        (int (length (ies_of (es @ [(eid, source)]))))
      = Some (Some (length (ies_of es), of_nat (length source)))"
proof (rule conjI)
  show "rtw_set_ie (ies_of es @ room) (length (ies_of es)) (ucast eid) (length source) source
        (length (ies_of es))
      = Some (ies_of (es @ [(eid, source)]) @ drop (length source + 2) room,
          length (ies_of (es @ [(eid, source)])), length (ies_of (es @ [(eid, source)])))"
    using assms by (subst rtw_set_ie_bytes) (simp_all add: ie_bytes_def ucast_up_ucast_id is_up)
  have "find_ie (\<lambda>(e, d). e = eid) (es @ [(eid, source)]) 0 = Some (0 + length (ies_of es), length source)"
    using assms(4) by (intro find_ie_split) force+
  then show "rtw_get_ie (ies_of (es @ [(eid, source)]) @ drop (length source + 2) room) (uint eid)
        (int (length (ies_of (es @ [(eid, source)]))))
      = Some (Some (length (ies_of es), of_nat (length source)))"
    using assms(1,2) by (subst rtw_get_ie_find) simp_all
qed

theorem rtw_set_ie_then_get_witness:
  "rtw_set_ie ([0, 1, 65] @ replicate 8 0) 3 37 3 [1, 6, 5] 3
     = Some ([0, 1, 65, 37, 3, 1, 6, 5] @ replicate 3 0, 8, 8)"
proof -
  have n: "Suc (Suc (Suc 0)) = 3" "Suc (Suc (Suc (Suc (Suc (Suc (Suc (Suc 0))))))) = 8" by simp_all
  from rtw_set_ie_then_get [of "[(0, [65])]" "[1, 6, 5]" "replicate 8 0" 37] show ?thesis
    by (simp add: n)
qed

text \<open>Removal is filtering: if the elements behind \<open>offset\<close> fit the local buffer of
  \<open>MAX_IE_SZ\<close> bytes, \<open>rtw_ies_remove_ie\<close> terminates with exactly the elements that do not match id
  and OUI, in their order, the bytes before \<open>offset\<close> untouched and the length updated, and it
  reports success exactly if something was removed.\<close>

theorem rtw_ies_remove_ie_filters:
  assumes "wf_ies es" and "oui_fits eid oui es" and "length (ies_of es) \<le> MAX_IE_SZ"
  shows "\<exists>tail'. rtw_ies_remove_ie (Some (pre @ ies_of es @ tail)) (length pre + length (ies_of es)) (length pre) eid oui
    = Some (\<exists>x \<in> set es. ie_matches eid oui x,
            Some (pre @ ies_of (filter (\<lambda>x. \<not> ie_matches eid oui x) es) @ tail'),
            length pre + length (ies_of (filter (\<lambda>x. \<not> ie_matches eid oui x) es)))"
  using assms by (rule rtw_ies_remove_ie_filter)

theorem rtw_ies_remove_ie_filters_witness:
  "\<exists>tail'. rtw_ies_remove_ie (Some (replicate 12 0 @ ies_of [(0, [65]), (221, [0, 0x50, 0xf2, 4]), (221, [1, 2, 3, 4])] @ [])) 27 12
      221 (Some [0, 0x50, 0xf2, 4])
    = Some (True, Some (replicate 12 0 @ ies_of [(0, [65]), (221, [1, 2, 3, 4])] @ tail'), 21)"
  using rtw_ies_remove_ie_filters [of "[(0, [65]), (221, [0, 0x50, 0xf2, 4]), (221, [1, 2, 3, 4])]" 221
      "Some [0, 0x50, 0xf2, 4]" "replicate 12 0" "[]"]
  by (simp add: oui_fits_def ie_matches_def MAX_IE_SZ_def)

end
