(* ===== verification/Ie_Security.thy ===== *)
theory Ie_Security
  imports Ie_Core
begin

text \<open>
  The security elements of \<^verbatim>\<open>core/rtw_ieee80211.c\<close>: search for the WPA and RSN elements
  (\<open>rtw_get_wpa_ie\<close>, \<open>rtw_get_wpa2_ie\<close>), their parsers (\<open>rtw_parse_wpa_ie\<close>,
  \<open>rtw_parse_wpa2_ie\<close>) and the extraction from beacons (\<open>rtw_get_sec_ie\<close>, \<open>rtw_get_wapi_ie\<close>).

  The extraction routines contain a loop over an 8-bit index that may not end, so their result
  has two levels: \<^term>\<open>None\<close> when the call does not return, \<open>Fault\<close> when it reads or writes
  outside a buffer.
\<close>

datatype 'a res = Fault | Done 'a

section \<open>Searching\<close>

definition wpa_oui_type :: bytes where "wpa_oui_type = [0x00, 0x50, 0xf2, 0x01]"

text \<open>\<open>off\<close> is \<open>pbuf - pie\<close>; \<open>limit_new\<close> is \<open>limit - off\<close> in every turn.\<close>

function get_wpa_ie_loop :: "bytes \<Rightarrow> int \<Rightarrow> nat \<Rightarrow> (nat \<times> u8) option option" where
  "get_wpa_ie_loop pie limit off =
     (case rtw_get_ie (drop off pie) 0xdd (limit - int off) of
        None \<Rightarrow> None
      | Some None \<Rightarrow> Some None
      | Some (Some (i, len)) \<Rightarrow> do {
          let pbuf = off + i;
          oui \<leftarrow> rdn pie (pbuf + 2) 4;
          ok \<leftarrow> (if oui \<noteq> wpa_oui_type then Some False
            else do { val16 \<leftarrow> RTW_GET_LE16 pie (pbuf + 6); Some (val16 = 1) });
          if ok then Some (Some (pbuf, len))
          else if limit - int pbuf - 2 - int (unat len) \<le> 0 then Some None
          else get_wpa_ie_loop pie limit (pbuf + (2 + unat len)) })"
  by pat_completeness auto
termination by (relation "measure (\<lambda>(pie, limit, off). nat (limit - int off))")
    (auto, (smt (verit) of_nat_0_le_iff unsigned_greater_eq)+)

declare get_wpa_ie_loop.simps [simp del]

definition rtw_get_wpa_ie :: "bytes \<Rightarrow> int \<Rightarrow> (nat \<times> u8) option option" where
  "rtw_get_wpa_ie pie limit = get_wpa_ie_loop pie limit 0"

definition rtw_get_wpa2_ie :: "bytes \<Rightarrow> int \<Rightarrow> (nat \<times> u8) option option" where
  "rtw_get_wpa2_ie pie limit = rtw_get_ie pie 0x30 limit"

section \<open>Parsing\<close>

definition WPA_CIPHER_NONE :: u32 where "WPA_CIPHER_NONE = 1"
definition WPA_CIPHER_WEP40 :: u32 where "WPA_CIPHER_WEP40 = 2"
definition WPA_CIPHER_WEP104 :: u32 where "WPA_CIPHER_WEP104 = 4"
definition WPA_CIPHER_TKIP :: u32 where "WPA_CIPHER_TKIP = 8"
definition WPA_CIPHER_CCMP :: u32 where "WPA_CIPHER_CCMP = 16"

definition rtw_get_wpa_cipher_suite :: "bytes \<Rightarrow> u32" where
  "rtw_get_wpa_cipher_suite s =
     (if s = [0x00, 0x50, 0xf2, 0] then WPA_CIPHER_NONE
      else if s = [0x00, 0x50, 0xf2, 1] then WPA_CIPHER_WEP40
      else if s = [0x00, 0x50, 0xf2, 2] then WPA_CIPHER_TKIP
      else if s = [0x00, 0x50, 0xf2, 4] then WPA_CIPHER_CCMP
      else if s = [0x00, 0x50, 0xf2, 5] then WPA_CIPHER_WEP104 else 0)"

definition rtw_get_wpa2_cipher_suite :: "bytes \<Rightarrow> u32" where
  "rtw_get_wpa2_cipher_suite s =
     (if s = [0x00, 0x0f, 0xac, 0] then WPA_CIPHER_NONE
      else if s = [0x00, 0x0f, 0xac, 1] then WPA_CIPHER_WEP40
      else if s = [0x00, 0x0f, 0xac, 2] then WPA_CIPHER_TKIP
      else if s = [0x00, 0x0f, 0xac, 4] then WPA_CIPHER_CCMP
      else if s = [0x00, 0x0f, 0xac, 5] then WPA_CIPHER_WEP104 else 0)"

text \<open>The output parameters: \<open>is_8021x\<close> is \<^term>\<open>None\<close> for a null pointer.\<close>

record cipher_out =
  group_cipher :: u32
  pairwise_cipher :: u32
  is_8021x :: "u32 option"

fun pairwise_loop :: "(bytes \<Rightarrow> u32) \<Rightarrow> bytes \<Rightarrow> nat \<Rightarrow> nat \<Rightarrow> u32 \<Rightarrow> u32 option" where
  "pairwise_loop suite ie pos 0 pw = Some pw"
| "pairwise_loop suite ie pos (Suc n) pw = do {
     s \<leftarrow> rdn ie pos 4;
     pairwise_loop suite ie (pos + 4) n (pw OR suite s) }"

text \<open>The common tail of the two parsers, from the group cipher on. The first component of the
  result is \<open>ret == _SUCCESS\<close>.\<close>

definition parse_1x :: "bytes \<Rightarrow> bytes \<Rightarrow> nat \<Rightarrow> int \<Rightarrow> cipher_out \<Rightarrow> (bool \<times> cipher_out) option" where
  "parse_1x SUITE_1X ie pos left out =
     (if is_8021x out \<noteq> None \<and> 6 \<le> left then do {
        s \<leftarrow> rdn ie (pos + 2) 4;
        Some (True, if s = SUITE_1X then out\<lparr>is_8021x := Some 1\<rparr> else out) }
      else Some (True, out))"

definition parse_pairwise ::
  "(bytes \<Rightarrow> u32) \<Rightarrow> bytes \<Rightarrow> bytes \<Rightarrow> nat \<Rightarrow> int \<Rightarrow> cipher_out \<Rightarrow> (bool \<times> cipher_out) option" where
  "parse_pairwise suite SUITE_1X ie pos left out =
     (if 2 \<le> left then do {
        c \<leftarrow> RTW_GET_LE16 ie pos;
        let count = unat c; let pos = pos + 2; let left = left - 2;
        if count = 0 \<or> left < int count * 4 then Some (False, out)
        else do {
          pw \<leftarrow> pairwise_loop suite ie pos count (pairwise_cipher out);
          parse_1x SUITE_1X ie (pos + 4 * count) (left - 4 * int count)
            (out\<lparr>pairwise_cipher := pw\<rparr>) } }
      else if left = 1 then Some (False, out)
      else parse_1x SUITE_1X ie pos left out)"

definition parse_group ::
  "(bytes \<Rightarrow> u32) \<Rightarrow> bytes \<Rightarrow> bytes \<Rightarrow> nat \<Rightarrow> int \<Rightarrow> cipher_out \<Rightarrow> (bool \<times> cipher_out) option" where
  "parse_group suite SUITE_1X ie pos left out =
     (if 4 \<le> left then do {
        s \<leftarrow> rdn ie pos 4;
        parse_pairwise suite SUITE_1X ie (pos + 4) (left - 4) (out\<lparr>group_cipher := suite s\<rparr>) }
      else if 0 < left then Some (False, out)
      else parse_pairwise suite SUITE_1X ie pos left out)"

definition rtw_parse_wpa_ie :: "bytes \<Rightarrow> int \<Rightarrow> cipher_out \<Rightarrow> (bool \<times> cipher_out) option" where
  "rtw_parse_wpa_ie wpa_ie wpa_ie_len out =
     (if wpa_ie_len \<le> 0 then Some (False, out)
      else do {
        b0 \<leftarrow> rd wpa_ie 0;
        if b0 \<noteq> 0xdd then Some (False, out)
        else do {
          b1 \<leftarrow> rd wpa_ie 1;
          if b1 \<noteq> of_int (wpa_ie_len - 2) then Some (False, out)
          else do {
            oui \<leftarrow> rdn wpa_ie 2 4;
            if oui \<noteq> wpa_oui_type then Some (False, out)
            else parse_group rtw_get_wpa_cipher_suite [0x00, 0x50, 0xf2, 1] wpa_ie 8 (wpa_ie_len - 8) out } } })"

definition rtw_parse_wpa2_ie :: "bytes \<Rightarrow> int \<Rightarrow> cipher_out \<Rightarrow> (bool \<times> cipher_out) option" where
  "rtw_parse_wpa2_ie rsn_ie rsn_ie_len out =
     (if rsn_ie_len \<le> 0 then Some (False, out)
      else do {
        b0 \<leftarrow> rd rsn_ie 0;
        if b0 \<noteq> 0x30 then Some (False, out)
        else do {
          b1 \<leftarrow> rd rsn_ie 1;
          if b1 \<noteq> of_int (rsn_ie_len - 2) then Some (False, out)
          else parse_group rtw_get_wpa2_cipher_suite [0x00, 0x0f, 0xac, 1] rsn_ie 4 (rsn_ie_len - 4) out } })"

section \<open>Extraction\<close>

text \<open>\<open>for (i = 0; i < n; i = i + 8)\<close> with \<open>u8 i\<close>, whose body only prints.\<close>

partial_function (option) dump_loop :: "nat \<Rightarrow> u8 \<Rightarrow> unit option" where
  "dump_loop n i = (if unat i < n then dump_loop n (i + 8) else Some ())"

text \<open>Copy of the \<open>n\<close> bytes of the element at \<open>cnt\<close> to \<open>dest\<close>, unless \<open>dest\<close> is null.\<close>

definition copy_ie :: "bytes \<Rightarrow> nat \<Rightarrow> nat \<Rightarrow> bytes option \<Rightarrow> bytes option res option" where
  "copy_ie in_ie cnt n dest =
     (case dest of None \<Rightarrow> Some (Done None)
      | Some d \<Rightarrow> (case rdn in_ie cnt n \<bind> wrn d 0 of
          None \<Rightarrow> Some Fault
        | Some d \<Rightarrow> (case dump_loop n 0 of None \<Rightarrow> None | Some _ \<Rightarrow> Some (Done (Some d)))))"

record sec_out =
  rsn_ie :: "bytes option"
  rsn_len :: u16
  wpa_ie :: "bytes option"
  wpa_len :: u16

function get_sec_loop :: "bytes \<Rightarrow> nat \<Rightarrow> nat \<Rightarrow> sec_out \<Rightarrow> sec_out res option" where
  "get_sec_loop in_ie in_len cnt out =
     (if cnt < in_len then
        (case (do { authmode \<leftarrow> rd in_ie cnt;
                    is_wpa \<leftarrow> (if authmode = 0xdd
                      then do { x \<leftarrow> rdn in_ie (cnt + 2) 4; Some (x = wpa_oui_type) } else Some False);
                    l \<leftarrow> rd in_ie (cnt + 1);
                    Some (authmode, is_wpa, unat l + 2) }) of
           None \<Rightarrow> Some Fault
         | Some (authmode, is_wpa, n) \<Rightarrow>
             (if is_wpa then
                (case copy_ie in_ie cnt n (wpa_ie out) of
                   None \<Rightarrow> None | Some Fault \<Rightarrow> Some Fault
                 | Some (Done d) \<Rightarrow>
                     get_sec_loop in_ie in_len (cnt + n) (out\<lparr>wpa_ie := d, wpa_len := of_nat n\<rparr>))
              else if authmode = 0x30 then
                (case copy_ie in_ie cnt n (rsn_ie out) of
                   None \<Rightarrow> None | Some Fault \<Rightarrow> Some Fault
                 | Some (Done d) \<Rightarrow>
                     get_sec_loop in_ie in_len (cnt + n) (out\<lparr>rsn_ie := d, rsn_len := of_nat n\<rparr>))
              else get_sec_loop in_ie in_len (cnt + n) out))
      else Some (Done out))"
  by pat_completeness auto
termination
  by (relation "measure (\<lambda>(in_ie, in_len, cnt, out). in_len - cnt)")
    (auto simp: bind_eq_Some_conv)

declare get_sec_loop.simps [simp del]

text \<open>The return value is \<open>*rsn_len + *wpa_len\<close>.\<close>

definition rtw_get_sec_ie :: "bytes \<Rightarrow> nat \<Rightarrow> sec_out \<Rightarrow> (nat \<times> sec_out) res option" where
  "rtw_get_sec_ie in_ie in_len out =
     (case get_sec_loop in_ie in_len 12 out of
        None \<Rightarrow> None | Some Fault \<Rightarrow> Some Fault
      | Some (Done out) \<Rightarrow> Some (Done (unat (rsn_len out) + unat (wpa_len out), out)))"

text \<open>\<open>wapi_len\<close> is \<^term>\<open>None\<close> for a null pointer; the second \<open>memcmp\<close> is reached when the first
  fails and reads the same bytes.\<close>

function get_wapi_loop :: "bytes \<Rightarrow> nat \<Rightarrow> nat \<Rightarrow> bytes option \<Rightarrow> u16 option \<Rightarrow> (bytes option \<times> u16 option) res option" where
  "get_wapi_loop in_ie in_len cnt wapi_ie wapi_len =
     (if cnt < in_len then
        (case (do { authmode \<leftarrow> rd in_ie cnt;
                    hit \<leftarrow> (if authmode = 68
                      then do { x \<leftarrow> rdn in_ie (cnt + 6) 4;
                                Some (x = [0x0, 0x14, 0x72, 0x01] \<or> x = [0x0, 0x14, 0x72, 0x02]) }
                      else Some False);
                    l \<leftarrow> rd in_ie (cnt + 1);
                    Some (hit, unat l + 2) }) of
           None \<Rightarrow> Some Fault
         | Some (hit, n) \<Rightarrow>
             (if hit then
                (case copy_ie in_ie cnt n wapi_ie of
                   None \<Rightarrow> None | Some Fault \<Rightarrow> Some Fault
                 | Some (Done d) \<Rightarrow>
                     get_wapi_loop in_ie in_len (cnt + n) d (map_option (\<lambda>_. of_nat n) wapi_len))
              else get_wapi_loop in_ie in_len (cnt + n) wapi_ie wapi_len))
      else Some (Done (wapi_ie, wapi_len)))"
  by pat_completeness auto
termination
  by (relation "measure (\<lambda>(in_ie, in_len, cnt, wapi_ie, wapi_len). in_len - cnt)")
    (auto simp: bind_eq_Some_conv)

declare get_wapi_loop.simps [simp del]

definition rtw_get_wapi_ie ::
  "bytes option \<Rightarrow> nat \<Rightarrow> bytes option \<Rightarrow> u16 option \<Rightarrow> (nat \<times> bytes option \<times> u16 option) res option" where
  "rtw_get_wapi_ie in_ie in_len wapi_ie wapi_len =
     (let wapi_len = map_option (\<lambda>_. 0) wapi_len
      in case in_ie of None \<Rightarrow> Some (Done (0, wapi_ie, wapi_len))
         | Some b \<Rightarrow>
             if in_len \<le> 0 then Some (Done (0, wapi_ie, wapi_len))
             else (case get_wapi_loop b in_len 12 wapi_ie wapi_len of
                 None \<Rightarrow> None | Some Fault \<Rightarrow> Some Fault
               | Some (Done (wapi_ie, wapi_len)) \<Rightarrow>
                   Some (Done (case wapi_len of None \<Rightarrow> 0 | Some l \<Rightarrow> unat l, wapi_ie, wapi_len))))"

section \<open>Search on lists of elements\<close>

definition is_wpa :: "element \<Rightarrow> bool" where
  "is_wpa x \<longleftrightarrow> fst x = 0xdd \<and> take 4 (snd x) = wpa_oui_type \<and> snd x ! 4 = 1 \<and> snd x ! 5 = 0"

lemma find_ie_skip:
  "\<forall>x \<in> set es1. \<not> P x \<Longrightarrow> find_ie P (es1 @ es2) off = find_ie P es2 (off + length (ies_of es1))"
  by (induction es1 arbitrary: off) (auto simp: add.assoc)

lemma le16_parts:
  "ucast (push_bit 8 (ucast (h :: u8)) OR ucast (l :: u8) :: u16) = l"
  "ucast (drop_bit 8 (push_bit 8 (ucast (h :: u8)) OR ucast (l :: u8) :: u16)) = h"
  by (rule bit_word_eqI; auto simp: bit_simps dest: bit_imp_le_length)+

lemma le16_is_1: "(push_bit 8 (ucast (h :: u8)) OR ucast (l :: u8) :: u16) = 1 \<longleftrightarrow> l = 1 \<and> h = 0"
proof
  assume a: "(push_bit 8 (ucast h) OR ucast l :: u16) = 1"
  show "l = 1 \<and> h = 0"
    using le16_parts [of h l, unfolded a] by simp
qed simp

lemma get_wpa_ie_loop_find:
  assumes "wf_ies es" "\<forall>x \<in> set es. fst x = 0xdd \<longrightarrow> 6 \<le> length (snd x)"
  shows "get_wpa_ie_loop (p @ ies_of es @ rest) (int (length p + length (ies_of es))) (length p)
    = Some (map_option (\<lambda>(i, n). (i, of_nat n)) (find_ie is_wpa es (length p)))"
  using assms
proof (induction "length es" arbitrary: es p rule: less_induct)
  case less
  have g: "rtw_get_ie (drop (length p) (p @ ies_of es @ rest)) 0xdd
      (int (length p + length (ies_of es)) - int (length p))
    = Some (map_option (\<lambda>(i, n). (i, of_nat n)) (find_ie (\<lambda>(e, d). e = 0xdd) es 0))"
    using rtw_get_ie_find [OF less.prems(1), of rest "0xdd"] by simp
  show ?case
  proof (cases "\<exists>x \<in> set es. (\<lambda>(e, d). e = 0xdd) x")
    case False
    then have "find_ie (\<lambda>(e, d). e = 0xdd) es 0 = None" "find_ie is_wpa es (length p) = None"
      unfolding find_ie_None is_wpa_def by auto
    then show ?thesis by (subst get_wpa_ie_loop.simps) (simp only: g, simp)
  next
    case True
    obtain es1 e d es2 where es: "es = es1 @ (e, d) # es2" and e: "e = 0xdd"
      and n1: "\<forall>x \<in> set es1. \<not> (\<lambda>(e, d). e = 0xdd) x"
      by (rule first_match_cases [OF True]) auto
    have f: "find_ie (\<lambda>(e, d). e = 0xdd) es 0 = Some (length (ies_of es1), length d)"
      using find_ie_split [of "\<lambda>(e, d). e = 0xdd" e d es1 es2 0] e n1 by (simp add: es)
    have d: "6 \<le> length d" "length d < 256" using less.prems e by (auto simp: es)
    have n2: "\<forall>x \<in> set es1. \<not> is_wpa x" using n1 by (auto simp: is_wpa_def)
    let ?b = "p @ ies_of es @ rest"
    have b: "?b = (p @ ies_of es1 @ [e, of_nat (length d)]) @ d @ ies_of es2 @ rest"
      by (simp add: es)
    have oui: "rdn ?b (length p + length (ies_of es1) + 2) 4 = Some (take 4 d)"
      unfolding b rdn_def using d by simp
    have ver: "RTW_GET_LE16 ?b (length p + length (ies_of es1) + 6)
        = Some (push_bit 8 (ucast (d ! 5)) OR ucast (d ! 4))"
      unfolding b RTW_GET_LE16_def rd_def using d by (simp add: nth_append)
    have w: "is_wpa (e, d) \<longleftrightarrow> take 4 d = wpa_oui_type \<and> (push_bit 8 (ucast (d ! 5)) OR ucast (d ! 4) :: u16) = 1"
      unfolding is_wpa_def le16_is_1 by (auto simp: e)
    have l: "unat (of_nat (length d) :: u8) = length d" using d by (simp add: unat_length_byte)
    have step: "get_wpa_ie_loop ?b (int (length p + length (ies_of es))) (length p) =
       (if is_wpa (e, d) then Some (Some (length p + length (ies_of es1), of_nat (length d)))
        else if es2 = [] then Some None
        else get_wpa_ie_loop ?b (int (length p + length (ies_of es))) (length p + length (ies_of es1) + (2 + length d)))"
    proof -
      have z: "int (length p + length (ies_of es)) - int (length p + length (ies_of es1)) - 2 - int (length d) \<le> 0
          \<longleftrightarrow> es2 = []"
        by (cases es2) (auto simp: es)
      show ?thesis
        apply (subst get_wpa_ie_loop.simps)
        apply (simp only: g f option.map option.case prod.case Let_def oui ver bind.bind_lunit l z)
        using w by (auto simp del: of_nat_add)
    qed
    show ?thesis
    proof (cases "is_wpa (e, d) \<or> es2 = []")
      case True
      then show ?thesis using n2 by (subst step) (auto simp: es find_ie_skip)
    next
      case False
      have "length es2 < length es" "wf_ies es2" "\<forall>x \<in> set es2. fst x = 0xdd \<longrightarrow> 6 \<le> length (snd x)"
        using less.prems by (simp_all add: es)
      from less.hyps [OF this, of "p @ ies_of es1 @ ie_bytes (e, d)"] False n2 show ?thesis
        by (subst step) (simp add: es find_ie_skip ie_bytes_def add.assoc add.commute add.left_commute)
    qed
  qed
qed

section \<open>The parsers\<close>

lemma pairwise_loop_concat:
  assumes "\<forall>s \<in> set ss. length s = 4"
  shows "pairwise_loop suite (p @ concat ss @ rest) (length p) (length ss) acc
    = Some (fold (\<lambda>s acc. acc OR suite s) ss acc)"
  using assms
proof (induction ss arbitrary: p acc)
  case (Cons s ss)
  from Cons.IH [of "p @ s" "acc OR suite s"] Cons.prems show ?case
    by (simp add: rdn_append)
qed simp

lemma pairwise_loop_safe: "pos + 4 * n \<le> length ie \<Longrightarrow> pairwise_loop suite ie pos n acc \<noteq> None"
  by (induction n arbitrary: pos acc) (auto simp: rdn_def)

lemma RTW_GET_LE16_safe: "i + 1 < length b \<Longrightarrow> \<exists>v. RTW_GET_LE16 b i = Some v"
  by (simp add: RTW_GET_LE16_def rd_def)

lemma parse_1x_safe: "int pos + left \<le> int (length ie) \<Longrightarrow> parse_1x X ie pos left out \<noteq> None"
  by (auto simp: parse_1x_def rdn_def)

lemma parse_pairwise_safe: 
  assumes "int pos + left \<le> int (length ie)"
  shows "parse_pairwise suite X ie pos left out \<noteq> None"
proof (cases "2 \<le> left")
  case True
  with assms obtain c where c: "RTW_GET_LE16 ie pos = Some c"
    using RTW_GET_LE16_safe [of pos ie] by auto
  show ?thesis
  proof (cases "unat c = 0 \<or> left - 2 < int (unat c) * 4")
    case True
    then show ?thesis using \<open>2 \<le> left\<close> by (auto simp: parse_pairwise_def c)
  next
    case False
    then have "pairwise_loop suite ie (pos + 2) (unat c) (pairwise_cipher out) \<noteq> None"
      using assms by (intro pairwise_loop_safe) linarith
    then obtain pw where pw: "pairwise_loop suite ie (pos + 2) (unat c) (pairwise_cipher out) = Some pw" by blast
    have "parse_1x X ie (pos + 2 + 4 * unat c) (left - 2 - 4 * int (unat c)) (out\<lparr>pairwise_cipher := pw\<rparr>) \<noteq> None"
      using assms by (intro parse_1x_safe) simp
    with False \<open>2 \<le> left\<close> show ?thesis
      unfolding parse_pairwise_def c bind.bind_lunit Let_def pw by simp
  qed
next
  case False
  then show ?thesis using parse_1x_safe [OF assms] unfolding parse_pairwise_def by auto
qed

lemma parse_group_safe: 
  assumes "int pos + left \<le> int (length ie)"
  shows "parse_group suite X ie pos left out \<noteq> None"
proof (cases "4 \<le> left")
  case True
  then obtain s where "rdn ie pos 4 = Some s" using assms by (auto simp: rdn_def)
  with True assms show ?thesis by (simp add: parse_group_def parse_pairwise_safe)
next
  case False
  then show ?thesis using parse_pairwise_safe [OF assms] unfolding parse_group_def by auto
qed

text \<open>The body of a security element: group suite, pairwise suites, key management suites and
  whatever follows.\<close>

definition sec_body :: "bytes \<Rightarrow> bytes list \<Rightarrow> bytes list \<Rightarrow> bytes \<Rightarrow> bytes" where
  "sec_body g ps akms caps = g @ le16_bytes (of_nat (length ps)) @ concat ps
     @ le16_bytes (of_nat (length akms)) @ concat akms @ caps"

definition sec_out_of :: "(bytes \<Rightarrow> u32) \<Rightarrow> bytes \<Rightarrow> bytes \<Rightarrow> bytes list \<Rightarrow> bytes list \<Rightarrow> cipher_out \<Rightarrow> cipher_out" where
  "sec_out_of suite X g ps akms out = out\<lparr>group_cipher := suite g,
     pairwise_cipher := fold (\<lambda>s acc. acc OR suite s) ps (pairwise_cipher out),
     is_8021x := (if hd akms = X then map_option (\<lambda>_. 1) (is_8021x out) else is_8021x out)\<rparr>"

definition suites :: "bytes list \<Rightarrow> bool" where
  "suites ss \<longleftrightarrow> ss \<noteq> [] \<and> list_all (\<lambda>s. length s = 4) ss"

lemma length_concat_suites: "suites ss \<Longrightarrow> length (concat ss) = 4 * length ss"
  unfolding suites_def by (induction ss) (auto, metis length_0_conv list.pred_inject(1) list.size(3) mult_0_right concat.simps(1))

lemma RTW_GET_LE16_le16_bytes:
  "RTW_GET_LE16 (p @ le16_bytes v @ s) i = Some v" if "i = length p"
  using that bytes_le16_le16_bytes [of v]
  by (simp add: RTW_GET_LE16_def rd_def nth_append le16_bytes_def bytes_le16_def or.commute)

lemma parse_group_body:
  assumes "length g = 4" "suites ps" "suites akms" "length (sec_body g ps akms caps) < 256"
  shows "parse_group suite X (h @ sec_body g ps akms caps) (length h) (int (length (sec_body g ps akms caps))) out
    = Some (True, sec_out_of suite X g ps akms out)"
proof -
  let ?ie = "h @ sec_body g ps akms caps"
  have lp: "length (concat ps) = 4 * length ps" "length (concat akms) = 4 * length akms"
    using assms(2,3) length_concat_suites by auto
  obtain a as where akms: "akms = a # as" "length a = 4" using assms(3) by (cases akms) (auto simp: suites_def)
  have L: "length (sec_body g ps akms caps) = 4 + (2 + 4 * length ps + (2 + 4 * length akms + length caps))"
    using assms(1) lp by (simp add: sec_body_def)
  have c: "unat (of_nat (length ps) :: u16) = length ps" "length ps \<noteq> 0"
    using assms(2,4) L by (auto simp: unat_of_nat suites_def)
  have rg: "rdn ?ie (length h) 4 = Some g" using assms(1) by (simp add: sec_body_def rdn_append)
  have rc: "RTW_GET_LE16 ?ie (length h + 4) = Some (of_nat (length ps))"
    using RTW_GET_LE16_le16_bytes [of "length h + 4" "h @ g"] assms(1) by (simp add: sec_body_def)
  have rp: "pairwise_loop suite ?ie (length h + 4 + 2) (length ps) acc = Some (fold (\<lambda>s acc. acc OR suite s) ps acc)" for acc
    using pairwise_loop_concat [of ps suite "h @ g @ le16_bytes (of_nat (length ps))"
        "le16_bytes (of_nat (length akms)) @ concat akms @ caps" acc] assms(1,2)
    by (simp add: sec_body_def suites_def list_all_iff add.commute)
  have ra: "rdn ?ie (length h + 4 + 2 + 4 * length ps + 2) 4 = Some a"
  proof -
    have "?ie = (h @ g @ le16_bytes (of_nat (length ps)) @ concat ps @ le16_bytes (of_nat (length akms)))
        @ a @ concat as @ caps"
      by (simp add: sec_body_def akms(1))
    then show ?thesis
      by (elim ssubst) (rule rdn_append, simp_all add: assms(1) lp(1) akms(2))
  qed
  have p1: "parse_1x X ?ie (length h + 4 + 2 + 4 * length ps) (int (2 + 4 * length akms + length caps)) o1
      = Some (True, o1\<lparr>is_8021x := (if a = X then map_option (\<lambda>_. 1) (is_8021x o1) else is_8021x o1)\<rparr>)" for o1
  proof (cases "is_8021x o1")
    case (Some x)
    have "6 \<le> int (2 + 4 * length akms + length caps)" using akms(1) by simp
    with Some show ?thesis unfolding parse_1x_def by (simp only: ra) auto
  qed (simp add: parse_1x_def)
  have p2: "parse_pairwise suite X ?ie (length h + 4) (int (2 + 4 * length ps + (2 + 4 * length akms + length caps))) o1
      = parse_1x X ?ie (length h + 4 + 2 + 4 * length ps) (int (2 + 4 * length akms + length caps))
          (o1\<lparr>pairwise_cipher := fold (\<lambda>s acc. acc OR suite s) ps (pairwise_cipher o1)\<rparr>)" for o1
    unfolding parse_pairwise_def rc bind.bind_lunit Let_def c(1) rp using c(2) by simp
  have "parse_group suite X ?ie (length h) (int (length (sec_body g ps akms caps))) out
      = parse_pairwise suite X ?ie (length h + 4) (int (2 + 4 * length ps + (2 + 4 * length akms + length caps)))
          (out\<lparr>group_cipher := suite g\<rparr>)"
    unfolding parse_group_def rg bind.bind_lunit L by simp
  moreover have "hd akms = a" using akms(1) by simp
  ultimately show ?thesis
    unfolding p2 p1 sec_out_of_def by simp
qed

section \<open>The debug loop\<close>

lemma dump_loop_ends: "n \<le> 248 \<Longrightarrow> unat i mod 8 = 0 \<Longrightarrow> dump_loop n i = Some ()"
proof (induction "256 - unat i" arbitrary: i rule: less_induct)
  case less
  show ?case
  proof (cases "unat i < n")
    case True
    have "unat (i + 8) = unat i + 8" using True less.prems
      by (simp add: unat_word_ariths)
    then show ?thesis
      using True less.hyps [of "i + 8"] less.prems by (subst dump_loop.simps) simp
  qed (subst dump_loop.simps, simp)
qed

lemma dump_loop_hangs_aux:
  "dump_loop n i = Some r \<Longrightarrow> 249 \<le> n \<Longrightarrow> unat i mod 8 = 0 \<Longrightarrow> False"
proof (induction rule: dump_loop.raw_induct [rotated 1, consumes 1])
  case (1 dump n i r)
  have "unat i < 256" by (rule unat_u8_less)
  with 1(4) have i: "unat i \<le> 248" by presburger
  have m: "unat (i + 8) mod 8 = 0"
    using 1(4) by (simp add: unat_word_ariths mod_mod_cancel mod_add_eq)
  have "dump n (i + 8) = Some r" using 1(2,3) i by (auto split: if_splits)
  from 1(1) [OF this 1(3) m] show ?case .
qed

lemma dump_loop_None: "dump_loop n 0 = None \<longleftrightarrow> 249 \<le> n"
proof
  assume "249 \<le> n"
  then show "dump_loop n 0 = None"
    using dump_loop_hangs_aux [of n 0] by (cases "dump_loop n 0") auto
next
  assume "dump_loop n 0 = None"
  then show "249 \<le> n" using dump_loop_ends [of n 0] by (cases "249 \<le> n") auto
qed

section \<open>Extraction from element lists\<close>

definition put_ie :: "element \<Rightarrow> bytes option \<Rightarrow> bytes option" where
  "put_ie x = map_option (\<lambda>d. ie_bytes x @ drop (length (snd x) + 2) d)"

definition sec_step :: "element \<Rightarrow> sec_out \<Rightarrow> sec_out" where
  "sec_step x out =
     (if fst x = 0xdd \<and> take 4 (snd x) = wpa_oui_type
      then out\<lparr>wpa_ie := put_ie x (wpa_ie out), wpa_len := of_nat (length (snd x) + 2)\<rparr>
      else if fst x = 0x30
      then out\<lparr>rsn_ie := put_ie x (rsn_ie out), rsn_len := of_nat (length (snd x) + 2)\<rparr>
      else out)"

text \<open>No security element is longer than 246 bytes, and vendor elements hold an OUI.\<close>

definition sec_ok :: "element list \<Rightarrow> bool" where
  "sec_ok es \<longleftrightarrow> list_all (\<lambda>(e, d). (e = 0xdd \<longrightarrow> 4 \<le> length d) \<and> (e = 0xdd \<or> e = 0x30 \<longrightarrow> length d < 247)) es"

definition room_for :: "nat \<Rightarrow> bytes option \<Rightarrow> bool" where
  "room_for n dest \<longleftrightarrow> (case dest of None \<Rightarrow> True | Some d \<Rightarrow> n \<le> length d)"

lemma length_ie_bytes: "length (ie_bytes x) = length (snd x) + 2"
  by (simp add: ie_bytes_def)

lemma room_for_put_ie: "room_for n dest \<Longrightarrow> room_for n (put_ie x dest)"
  by (auto simp: room_for_def put_ie_def length_ie_bytes split: option.splits)

lemma put_ie_None [simp]: "put_ie x dest = None \<longleftrightarrow> dest = None"
  by (simp add: put_ie_def)

lemma copy_ie_element:
  assumes "room_for (length (snd x) + 2) dest"
  shows "copy_ie (p @ ie_bytes x @ rest) (length p) (length (snd x) + 2) dest
    = (if dest \<noteq> None \<and> 247 \<le> length (snd x) then None else Some (Done (put_ie x dest)))"
proof (cases dest)
  case None
  then show ?thesis by (simp add: copy_ie_def put_ie_def)
next
  case (Some d)
  have r: "rdn (p @ ie_bytes x @ rest) (length p) (length (snd x) + 2) = Some (ie_bytes x)"
    by (rule rdn_append) (simp_all add: length_ie_bytes)
  have w: "wrn d 0 (ie_bytes x) = Some (ie_bytes x @ drop (length (snd x) + 2) d)"
    using assms Some by (simp add: wrn_def length_ie_bytes room_for_def)
  have d: "dump_loop (length (snd x) + 2) 0 = (if 247 \<le> length (snd x) then None else Some ())"
    using dump_loop_None [of "length (snd x) + 2"]
    by (cases "dump_loop (length (snd x) + 2) 0") auto
  show ?thesis
    unfolding copy_ie_def Some option.case r bind.bind_lunit w d by (simp add: put_ie_def)
qed

lemma get_sec_loop_step:
  assumes "length (snd x) < 256" "fst x = 0xdd \<longrightarrow> 4 \<le> length (snd x)" "length p < limit"
    "room_for (length (snd x) + 2) (wpa_ie out)" "room_for (length (snd x) + 2) (rsn_ie out)"
  shows "get_sec_loop (p @ ie_bytes x @ rest) limit (length p) out =
    (if (fst x = 0xdd \<and> take 4 (snd x) = wpa_oui_type \<and> wpa_ie out \<noteq> None \<or> fst x = 0x30 \<and> rsn_ie out \<noteq> None)
        \<and> 247 \<le> length (snd x) then None
     else get_sec_loop (p @ ie_bytes x @ rest) limit (length p + (length (snd x) + 2)) (sec_step x out))"
proof -
  obtain e d where x: "x = (e, d)" by force
  have l: "unat (of_nat (length d) :: u8) = length d" using assms(1) x by (simp add: unat_length_byte)
  have r0: "rd (p @ ie_bytes x @ rest) (length p) = Some e"
    and r1: "rd (p @ ie_bytes x @ rest) (length p + 1) = Some (of_nat (length d))"
    by (simp_all add: x ie_bytes_def mem_simps)
  have o: "rdn (p @ ie_bytes x @ rest) (length p + 2) 4 = Some (take 4 d)" if "e = 0xdd"
    using assms(2) that by (simp add: x ie_bytes_def rdn_def)
  have head: "(do { authmode \<leftarrow> rd (p @ ie_bytes x @ rest) (length p);
                    is_wpa \<leftarrow> (if authmode = 0xdd
                      then do { x \<leftarrow> rdn (p @ ie_bytes x @ rest) (length p + 2) 4; Some (x = wpa_oui_type) } else Some False);
                    l \<leftarrow> rd (p @ ie_bytes x @ rest) (length p + 1);
                    Some (authmode, is_wpa, unat l + 2) })
    = Some (e, e = 0xdd \<and> take 4 d = wpa_oui_type, length d + 2)"
    unfolding r0 r1 bind.bind_lunit l using o by simp
  have c: "copy_ie (p @ ie_bytes x @ rest) (length p) (length d + 2) dest
    = (if dest \<noteq> None \<and> 247 \<le> length d then None else Some (Done (put_ie x dest)))"
    if "room_for (length d + 2) dest" for dest
    using copy_ie_element [of x dest p rest] that by (simp add: x)
  show ?thesis
    apply (subst get_sec_loop.simps)
    apply (simp only: head option.case prod.case assms(3) if_True
        c [OF assms(4) [unfolded x snd_conv]] c [OF assms(5) [unfolded x snd_conv]])
    by (auto simp: x sec_step_def)
qed

lemma get_sec_loop_prefix:
  assumes "wf_ies es" "sec_ok es" "length p + length (ies_of es) \<le> limit"
    "room_for 248 (wpa_ie out)" "room_for 248 (rsn_ie out)"
  shows "get_sec_loop (p @ ies_of es @ rest) limit (length p) out =
    get_sec_loop (p @ ies_of es @ rest) limit (length p + length (ies_of es)) (fold sec_step es out)
    \<and> room_for 248 (wpa_ie (fold sec_step es out)) \<and> room_for 248 (rsn_ie (fold sec_step es out))"
  using assms
proof (induction es arbitrary: p out)
  case (Cons x es)
  obtain e d where x: "x = (e, d)" by force
  have b: "p @ ies_of (x # es) @ rest = (p @ ie_bytes x) @ ies_of es @ rest" by (simp add: x ie_bytes_def)
  have sm: "room_for 248 (wpa_ie (sec_step x out))" "room_for 248 (rsn_ie (sec_step x out))"
    using Cons.prems(4,5) by (auto simp: sec_step_def room_for_put_ie simp del: not_None_eq)
  have st: "get_sec_loop (p @ ies_of (x # es) @ rest) limit (length p) out
      = get_sec_loop (p @ ies_of (x # es) @ rest) limit (length p + (length d + 2)) (sec_step x out)"
  proof (cases "e = 0xdd \<or> e = 0x30")
    case True
    then have d: "length d < 247" "e = 0xdd \<longrightarrow> 4 \<le> length d" using Cons.prems(2) by (auto simp: sec_ok_def x)
    then have "room_for (length d + 2) (wpa_ie out)" "room_for (length d + 2) (rsn_ie out)"
      using Cons.prems(4,5) by (auto simp: room_for_def split: option.splits)
    then show ?thesis
      using get_sec_loop_step [of x p limit out "ies_of es @ rest"] d Cons.prems(3)
      by (simp add: x ie_bytes_def)
  next
    case False
    then show ?thesis
      using Cons.prems(1,3) by (subst get_sec_loop.simps)
        (simp add: x mem_simps unat_length_byte sec_step_def)
  qed
  have l: "length (p @ ie_bytes x) = length p + (length d + 2)" by (simp add: x ie_bytes_def)
  have "get_sec_loop ((p @ ie_bytes x) @ ies_of es @ rest) limit (length (p @ ie_bytes x)) (sec_step x out) =
    get_sec_loop ((p @ ie_bytes x) @ ies_of es @ rest) limit (length (p @ ie_bytes x) + length (ies_of es)) (fold sec_step es (sec_step x out))
    \<and> room_for 248 (wpa_ie (fold sec_step es (sec_step x out))) \<and> room_for 248 (rsn_ie (fold sec_step es (sec_step x out)))"
    using Cons.prems(1-3) sm by (intro Cons.IH) (simp_all add: x sec_ok_def ie_bytes_def)
  with st show ?case by (simp add: x ie_bytes_def add.assoc)
qed simp

section \<open>Properties\<close>

text \<open>\<open>rtw_get_wpa_ie\<close> returns the first WPA element of a list of elements: vendor specific, with
  the OUI type 00:50:F2:01 and version 1, skipping every other vendor element, and \<open>NULL\<close> exactly if
  there is none; the search ends inside the list.\<close>

theorem rtw_get_wpa_ie_finds_first:
  assumes "wf_ies es" and "\<forall>x \<in> set es. fst x = 0xdd \<longrightarrow> 6 \<le> length (snd x)"
  shows "rtw_get_wpa_ie (ies_of es @ rest) (int (length (ies_of es)))
    = Some (map_option (\<lambda>(i, n). (i, of_nat n)) (find_ie is_wpa es 0))"
  using get_wpa_ie_loop_find [OF assms, of "[]" rest] by (simp add: rtw_get_wpa_ie_def)

theorem rtw_get_wpa_ie_finds_first_witness:
  "rtw_get_wpa_ie (ies_of [(0, [65]), (0xdd, [0, 0x50, 0xf2, 4, 1, 0]), (0xdd, [0, 0x50, 0xf2, 1, 1, 0])] @ []) 19
    = Some (Some (11, 6))"
  using rtw_get_wpa_ie_finds_first [of "[(0, [65]), (0xdd, [0, 0x50, 0xf2, 4, 1, 0]), (0xdd, [0, 0x50, 0xf2, 1, 1, 0])]" "[]"]
  by (simp add: is_wpa_def wpa_oui_type_def)

lemma rtw_parse_wpa_ie_reads:
  assumes "n \<le> int (length wpa)"
  shows "rtw_parse_wpa_ie wpa n out = None \<longleftrightarrow>
    0 < n \<and> length wpa < 6 \<and> wpa ! 0 = 0xdd \<and> (length wpa = 1 \<or> wpa ! 1 = of_int (n - 2))"
proof (cases "0 < n")
  case False
  then show ?thesis by (simp add: rtw_parse_wpa_ie_def)
next
  case True
  then have r: "rd wpa 0 = Some (wpa ! 0)" using assms by (cases wpa) (simp_all add: rd_def)
  have g: "parse_group suite X wpa 8 (n - 8) out \<noteq> None" for suite X by (rule parse_group_safe) (use assms in simp)
  show ?thesis
  proof (cases "length wpa = 1 \<or> length wpa < 6")
    case short: True
    then have "rdn wpa 2 4 = None" by (auto simp: rdn_def)
    then show ?thesis using True short assms by (auto simp: rtw_parse_wpa_ie_def r rd_def)
  next
    case False
    then have "rd wpa 1 = Some (wpa ! 1)" "rdn wpa 2 4 \<noteq> None" by (auto simp: rd_def rdn_def)
    then show ?thesis using True False g by (auto simp: rtw_parse_wpa_ie_def r)
  qed
qed

lemma rtw_parse_wpa2_ie_reads:
  assumes "n \<le> int (length rsn)"
  shows "rtw_parse_wpa2_ie rsn n out = None \<longleftrightarrow> 0 < n \<and> rsn = [0x30]"
proof (cases "0 < n")
  case False
  then show ?thesis by (simp add: rtw_parse_wpa2_ie_def)
next
  case True
  then obtain b bs where e: "rsn = b # bs" using assms by (cases rsn) auto
  have "parse_group suite X rsn 4 (n - 4) out \<noteq> None" for suite X by (rule parse_group_safe) (use assms in simp)
  then show ?thesis using True by (cases bs) (auto simp: rtw_parse_wpa2_ie_def rd_def e)
qed

text \<open>C20. What the parsers read outside the element they are given, when their length argument does not exceed it. The
  one for WPA elements does so for an element of fewer than 6 bytes with the right id that is a single byte or has the
  right length byte: the comparison of the OUI precedes every check of the length. The one for RSN elements does so
  only for the single byte 0x30. Every other element, whatever suite counts it holds, is parsed inside its bounds.\<close>

theorem security_parsers_reads:
  assumes "wpa_ie_len \<le> int (length wpa)" and "rsn_ie_len \<le> int (length rsn)"
  shows "(rtw_parse_wpa_ie wpa wpa_ie_len out = None \<longleftrightarrow> 0 < wpa_ie_len \<and> length wpa < 6 \<and> wpa ! 0 = 0xdd
      \<and> (length wpa = 1 \<or> wpa ! 1 = of_int (wpa_ie_len - 2)))
    \<and> (rtw_parse_wpa2_ie rsn rsn_ie_len out = None \<longleftrightarrow> 0 < rsn_ie_len \<and> rsn = [0x30])"
  by (intro conjI rtw_parse_wpa_ie_reads rtw_parse_wpa2_ie_reads assms)

text \<open>Four bytes with the right length byte are read beyond their end; a count of suites that does not fit is not
  followed.\<close>

theorem security_parsers_reads_witness:
  "rtw_parse_wpa_ie [0xdd, 2, 0, 0x50] 4 \<lparr>group_cipher = 0, pairwise_cipher = 0, is_8021x = None\<rparr> = None
   \<and> rtw_parse_wpa2_ie [0x30, 9, 1, 0, 0, 0x0f, 0xac, 4, 255, 255, 0] 11
     \<lparr>group_cipher = 0, pairwise_cipher = 0, is_8021x = None\<rparr> \<noteq> None"
proof -
  have l: "4 \<le> int (length [0xdd, 2, 0, 0x50 :: u8])" "11 \<le> int (length [0x30, 9, 1, 0, 0, 0x0f, 0xac, 4, 255, 255, 0 :: u8])"
    by simp_all
  note r = security_parsers_reads [OF l, of "\<lparr>group_cipher = 0, pairwise_cipher = 0, is_8021x = None\<rparr>"]
  show ?thesis unfolding r [THEN conjunct1] r [THEN conjunct2] by simp
qed

text \<open>The parsers read back what a well-formed element says: for every group suite, non-empty lists
  of pairwise and key management suites and whatever follows them, parsing succeeds, the group cipher
  is the flag of the group suite, the pairwise ciphers are the union of the flags, and 802.1X is
  reported exactly if the first key management suite is the 802.1X suite and the caller asked.\<close>

theorem security_parsers_read_suites:
  assumes "length g = 4" and "suites ps" and "suites akms" and "length (sec_body g ps akms caps) < 250"
  shows "rtw_parse_wpa_ie (ie_bytes (0xdd, wpa_oui_type @ [1, 0] @ sec_body g ps akms caps))
        (int (8 + length (sec_body g ps akms caps))) out
      = Some (True, sec_out_of rtw_get_wpa_cipher_suite [0x00, 0x50, 0xf2, 1] g ps akms out)
    \<and> rtw_parse_wpa2_ie (ie_bytes (0x30, [1, 0] @ sec_body g ps akms caps))
        (int (4 + length (sec_body g ps akms caps))) out
      = Some (True, sec_out_of rtw_get_wpa2_cipher_suite [0x00, 0x0f, 0xac, 1] g ps akms out)"
proof -
  have b: "length (sec_body g ps akms caps) < 256" using assms(4) by simp
  have g: "parse_group suite X (h @ sec_body g ps akms caps) k (int (length (sec_body g ps akms caps))) out
      = Some (True, sec_out_of suite X g ps akms out)" if "length h = k" for suite X h k
    using that parse_group_body [OF assms(1-3) b] by auto
  let ?n = "length (sec_body g ps akms caps)"
  have w: "ie_bytes (0xdd, wpa_oui_type @ [1, 0] @ sec_body g ps akms caps)
      = [0xdd, of_nat (6 + ?n), 0x00, 0x50, 0xf2, 0x01, 1, 0] @ sec_body g ps akms caps"
    and r: "ie_bytes (0x30, [1, 0] @ sec_body g ps akms caps)
      = [0x30, of_nat (2 + ?n), 1, 0] @ sec_body g ps akms caps"
    by (simp_all add: ie_bytes_def wpa_oui_type_def)
  have "parse_group suite X ([0xdd, of_nat (6 + ?n), 0x00, 0x50, 0xf2, 0x01, 1, 0] @ sec_body g ps akms caps)
      8 (int (8 + ?n) - 8) out = Some (True, sec_out_of suite X g ps akms out)" for suite X
    using g [of "[0xdd, of_nat (6 + ?n), 0x00, 0x50, 0xf2, 0x01, 1, 0]" 8 suite X] by simp
  moreover have "parse_group suite X ([0x30, of_nat (2 + ?n), 1, 0] @ sec_body g ps akms caps)
      4 (int (4 + ?n) - 4) out = Some (True, sec_out_of suite X g ps akms out)" for suite X
    using g [of "[0x30, of_nat (2 + ?n), 1, 0]" 4 suite X] by simp
  ultimately show ?thesis
    unfolding w r rtw_parse_wpa_ie_def rtw_parse_wpa2_ie_def
    by (simp add: rd_def rdn_def wpa_oui_type_def)
qed

theorem security_parsers_read_suites_witness:
  "rtw_parse_wpa2_ie (ie_bytes (0x30, [1, 0] @ sec_body [0, 0x0f, 0xac, 4] [[0, 0x0f, 0xac, 4]] [[0, 0x0f, 0xac, 2]] [0, 0])) 22
     \<lparr>group_cipher = 0, pairwise_cipher = 0, is_8021x = Some 0\<rparr>
   = Some (True, \<lparr>group_cipher = WPA_CIPHER_CCMP, pairwise_cipher = WPA_CIPHER_CCMP, is_8021x = Some 0\<rparr>)"
proof -
  have n: "length (sec_body [0, 0x0f, 0xac, 4] [[0, 0x0f, 0xac, 4]] [[0, 0x0f, 0xac, 2]] [0, 0]) = 18"
    by (simp add: sec_body_def)
  show ?thesis
    using security_parsers_read_suites [of "[0, 0x0f, 0xac, 4]" "[[0, 0x0f, 0xac, 4]]" "[[0, 0x0f, 0xac, 2]]" "[0, 0]"
        "\<lparr>group_cipher = 0, pairwise_cipher = 0, is_8021x = Some 0\<rparr>"]
    unfolding n by (simp add: suites_def sec_out_of_def rtw_get_wpa2_cipher_suite_def WPA_CIPHER_CCMP_def)
qed

text \<open>\<open>rtw_get_sec_ie\<close> walks the elements behind the twelve fixed bytes of a beacon and leaves in the
  two destination buffers the last RSN and the last WPA element, with their lengths, provided that no
  security element is longer than 246 bytes; it returns, inside all buffers.\<close>

theorem rtw_get_sec_ie_extracts:
  assumes "length fixed = 12" and "wf_ies es" and "sec_ok es"
    and "room_for 248 (wpa_ie out)" and "room_for 248 (rsn_ie out)"
  shows "rtw_get_sec_ie (fixed @ ies_of es @ rest) (12 + length (ies_of es)) out
    = Some (Done (unat (rsn_len (fold sec_step es out)) + unat (wpa_len (fold sec_step es out)), fold sec_step es out))"
proof -
  have "get_sec_loop (fixed @ ies_of es @ rest) (12 + length (ies_of es)) 12 out
      = get_sec_loop (fixed @ ies_of es @ rest) (12 + length (ies_of es)) (12 + length (ies_of es)) (fold sec_step es out)"
    using get_sec_loop_prefix [OF assms(2,3), of fixed "12 + length (ies_of es)" out rest] assms by simp
  also have "\<dots> = Some (Done (fold sec_step es out))" by (subst get_sec_loop.simps) simp
  finally show ?thesis by (simp add: rtw_get_sec_ie_def)
qed

theorem rtw_get_sec_ie_extracts_witness:
  "rtw_get_sec_ie (replicate 12 0 @ ies_of [(0, [65]), (0x30, [1, 0])] @ []) 19
     \<lparr>rsn_ie = Some (replicate 256 0), rsn_len = 0, wpa_ie = None, wpa_len = 0\<rparr>
   = Some (Done (4, \<lparr>rsn_ie = Some ([0x30, 2, 1, 0] @ replicate 252 0), rsn_len = 4, wpa_ie = None, wpa_len = 0\<rparr>))"
  using rtw_get_sec_ie_extracts [of "replicate 12 0" "[(0, [65]), (0x30, [1, 0])]"
      "\<lparr>rsn_ie = Some (replicate 256 0), rsn_len = 0, wpa_ie = None, wpa_len = 0\<rparr>" "[]"]
  by (simp add: sec_ok_def room_for_def sec_step_def put_ie_def ie_bytes_def)

text \<open>A long RSN element hangs the driver: the debug loop of \<open>rtw_get_sec_ie\<close> counts in steps of 8
  with an 8-bit index, so for an RSN element of 247 or more data bytes (which any access point can
  send) the call does not return, whatever stands before and after it.\<close>

theorem rtw_get_sec_ie_hangs:
  assumes "length fixed = 12" and "wf_ies es" and "sec_ok es"
    and "247 \<le> length d" and "length d < 256"
    and "room_for 257 (wpa_ie out)" and "rsn_ie out = Some b" and "257 \<le> length b"
    and "12 + length (ies_of es) < in_len"
  shows "rtw_get_sec_ie (fixed @ ies_of es @ ie_bytes (0x30, d) @ rest) in_len out = None"
proof -
  let ?out = "fold sec_step es out"
  have len: "room_for 257 (rsn_ie (fold sec_step es o1)) \<and> room_for 257 (wpa_ie (fold sec_step es o1))
      \<and> (rsn_ie o1 \<noteq> None \<longrightarrow> rsn_ie (fold sec_step es o1) \<noteq> None)"
    if "room_for 257 (rsn_ie o1)" "room_for 257 (wpa_ie o1)" for o1
    using that
  proof (induction es arbitrary: o1)
    case (Cons x es)
    have "room_for 257 (rsn_ie (sec_step x o1))" "room_for 257 (wpa_ie (sec_step x o1))"
      "rsn_ie o1 \<noteq> None \<longrightarrow> rsn_ie (sec_step x o1) \<noteq> None"
      using Cons.prems by (auto simp: sec_step_def room_for_put_ie simp del: not_None_eq)
    with Cons.IH [of "sec_step x o1"] show ?case by simp
  qed simp
  have o: "room_for 257 (rsn_ie out)" using assms(7,8) by (simp add: room_for_def)
  have rm: "room_for 248 (wpa_ie out)" "room_for 248 (rsn_ie out)"
    using assms(6) o by (auto simp: room_for_def split: option.splits)
  have rm2: "room_for (length d + 2) (wpa_ie ?out)" "room_for (length d + 2) (rsn_ie ?out)" "rsn_ie ?out \<noteq> None"
    using len [OF o assms(6)] assms(5,7) by (auto simp: room_for_def split: option.splits)
  have "get_sec_loop (fixed @ ies_of es @ ie_bytes (0x30, d) @ rest) in_len 12 out
      = get_sec_loop ((fixed @ ies_of es) @ ie_bytes (0x30, d) @ rest) in_len (length (fixed @ ies_of es)) ?out"
    using get_sec_loop_prefix [OF assms(2,3), of fixed in_len out "ie_bytes (0x30, d) @ rest"] assms(1,9) rm
    by simp
  also have "\<dots> = None"
    using assms rm2 by (subst get_sec_loop_step) simp_all
  finally show ?thesis by (simp add: rtw_get_sec_ie_def)
qed

theorem rtw_get_sec_ie_hangs_witness:
  "rtw_get_sec_ie (replicate 12 0 @ ies_of [(0, [65])] @ ie_bytes (0x30, replicate 247 1) @ []) 264
     \<lparr>rsn_ie = Some (replicate 300 0), rsn_len = 0, wpa_ie = None, wpa_len = 0\<rparr> = None"
  using rtw_get_sec_ie_hangs [of "replicate 12 0" "[(0, [65])]" "replicate 247 1"
      "\<lparr>rsn_ie = Some (replicate 300 0), rsn_len = 0, wpa_ie = None, wpa_len = 0\<rparr>" "replicate 300 0" 264 "[]"]
  by (simp add: sec_ok_def room_for_def)

end
