(* ===== verification/Ie_Attr.thy ===== *)
theory Ie_Attr
  imports Ie_Core
begin

text \<open>
  Attributes inside vendor elements, \<^verbatim>\<open>core/rtw_ieee80211.c\<close> from \<open>rtw_is_wps_ie\<close> to
  \<open>rtw_get_wps_attr_content\<close> (Wi-Fi Protected Setup), from \<open>rtw_get_p2p_merged_ies_len\<close> to
  \<open>rtw_WLAN_BSSID_EX_remove_p2p_attr\<close> (Wi-Fi Direct) and from \<open>rtw_get_wfd_ie\<close> to
  \<open>rtw_get_wfd_attr_content\<close> (Wi-Fi Display).

  The element searches end and use the results of \<^theory_text>\<open>Ie_Core\<close>. The attribute walks need not end:
  their result has a further outer option, \<^term>\<open>None\<close> for a loop that never ends, then
  \<^term>\<open>Some None\<close> for an access outside the buffer. An optional buffer argument is the destination of a
  copy, returned as it is after the call.
\<close>

section \<open>Results of walks that may not end\<close>

type_synonym 'a run = "'a option option"

definition run_bind :: "'a run \<Rightarrow> ('a \<Rightarrow> 'b run) \<Rightarrow> 'b run" where
  "run_bind r f = (case r of None \<Rightarrow> None | Some None \<Rightarrow> Some None | Some (Some x) \<Rightarrow> f x)"

definition ended :: "'a \<Rightarrow> 'a run" where "ended x = Some (Some x)"

text \<open>Copy \<open>n\<close> bytes from \<open>b\<close> to the start of the destination, if there is one.\<close>

definition copy_out :: "bytes \<Rightarrow> nat \<Rightarrow> nat \<Rightarrow> bytes option \<Rightarrow> bytes option option" where
  "copy_out b i n dst =
     (case dst of None \<Rightarrow> Some None | Some d \<Rightarrow> do { x \<leftarrow> rdn b i n; d \<leftarrow> wrn d 0 x; Some (Some d) })"

section \<open>Vendor elements\<close>

definition wps_oui :: bytes where "wps_oui = [0x00, 0x50, 0xF2, 0x04]"

definition p2p_oui :: bytes where "p2p_oui = [0x50, 0x6F, 0x9A, 0x09]"

definition wfd_oui :: bytes where "wfd_oui = [0x50, 0x6F, 0x9A, 0x0A]"

definition rtw_is_wps_ie :: "bytes \<Rightarrow> (bool \<times> nat) option" where
  "rtw_is_wps_ie ie_ptr = do {
     eid \<leftarrow> rd ie_ptr 0;
     oui \<leftarrow> (if eid = 0xdd then rdn ie_ptr 2 4 else Some []);
     if eid = 0xdd \<and> oui = wps_oui then do { l \<leftarrow> rd ie_ptr 1; Some (True, unat l + 2) }
     else Some (False, 0) }"

text \<open>The loop the WPS and the WFD search have in common.\<close>

function vendor_ie_loop ::
  "bytes \<Rightarrow> bytes \<Rightarrow> nat \<Rightarrow> bytes option \<Rightarrow> nat \<Rightarrow> ((nat \<times> nat) option \<times> bytes option) option" where
  "vendor_ie_loop oui in_ie in_len ie cnt =
     (if cnt < in_len then do {
        eid \<leftarrow> rd in_ie cnt;
        hit \<leftarrow> (if eid = 0xdd then do { x \<leftarrow> rdn in_ie (cnt + 2) 4; Some (x = oui) } else Some False);
        l \<leftarrow> rd in_ie (cnt + 1);
        if hit then do { ie \<leftarrow> copy_out in_ie cnt (unat l + 2) ie; Some (Some (cnt, unat l + 2), ie) }
        else vendor_ie_loop oui in_ie in_len ie (cnt + (unat l + 2)) }
      else Some (None, ie))"
  by pat_completeness auto
termination by (relation "measure (\<lambda>(oui, in_ie, in_len, ie, cnt). in_len - cnt)") auto

declare vendor_ie_loop.simps [simp del]

definition rtw_get_wps_ie :: "bytes \<Rightarrow> nat \<Rightarrow> bytes option \<Rightarrow> ((nat \<times> nat) option \<times> bytes option) option" where
  "rtw_get_wps_ie in_ie in_len wps_ie =
     (if in_len = 0 then Some (None, wps_ie) else vendor_ie_loop wps_oui in_ie in_len wps_ie 0)"

text \<open>\<open>frame_type\<close> 1 and 3 are beacon and probe response, 2 is a probe request. A length below the fixed
  part wraps around.\<close>

definition rtw_get_wps_ie_from_scan_queue ::
  "bytes \<Rightarrow> u32 \<Rightarrow> bytes option \<Rightarrow> u8 \<Rightarrow> ((nat \<times> nat) option \<times> bytes option) option" where
  "rtw_get_wps_ie_from_scan_queue in_ie in_len wps_ie frame_type =
     (if frame_type = 1 \<or> frame_type = 3
      then map_option (apfst (map_option (apfst ((+) 12))))
        (rtw_get_wps_ie (drop 12 in_ie) (unat (in_len - 12)) wps_ie)
      else if frame_type = 2 then rtw_get_wps_ie in_ie (unat in_len) wps_ie
      else Some (None, wps_ie))"

text \<open>\<open>rtw_get_wfd_ie\<close> returns the position behind the element, 0 (\<open>_FALSE\<close>) when there is none.\<close>

definition rtw_get_wfd_ie :: "bytes \<Rightarrow> int \<Rightarrow> bytes option \<Rightarrow> (nat \<times> nat \<times> bytes option) option" where
  "rtw_get_wfd_ie in_ie in_len wfd_ie =
     (if in_len < 0 then Some (0, 0, wfd_ie)
      else do {
        (r, wfd_ie) \<leftarrow> vendor_ie_loop wfd_oui in_ie (nat in_len) wfd_ie 0;
        case r of None \<Rightarrow> Some (0, 0, wfd_ie) | Some (cnt, len) \<Rightarrow> Some (cnt + len, len, wfd_ie) })"

definition rtw_get_wfd_ie_from_scan_queue ::
  "bytes \<Rightarrow> int \<Rightarrow> bytes option \<Rightarrow> u8 \<Rightarrow> (nat \<times> nat \<times> bytes option) option" where
  "rtw_get_wfd_ie_from_scan_queue in_ie in_len wfd_ie frame_type =
     (if frame_type = 1 \<or> frame_type = 3 then rtw_get_wfd_ie (drop 12 in_ie) (in_len - 12) wfd_ie
      else if frame_type = 2 then rtw_get_wfd_ie in_ie in_len wfd_ie
      else Some (0, 0, wfd_ie))"

text \<open>A negative \<open>in_len\<close> is huge in the comparison with the unsigned \<open>cnt\<close>, so the first byte is read.\<close>

function p2p_ie_loop ::
  "bytes \<Rightarrow> int \<Rightarrow> bytes option \<Rightarrow> nat \<Rightarrow> ((nat \<times> nat) option \<times> bytes option) option" where
  "p2p_ie_loop in_ie in_len p2p_ie cnt =
     (if in_len < 0 \<or> int cnt < in_len then do {
        eid \<leftarrow> rd in_ie cnt;
        if in_len < 0 \<or> MAX_IE_SZ < cnt then Some (None, p2p_ie)
        else do {
          hit \<leftarrow> (if eid = 0xdd then do { x \<leftarrow> rdn in_ie (cnt + 2) 4; Some (x = p2p_oui) } else Some False);
          l \<leftarrow> rd in_ie (cnt + 1);
          if hit then do { p2p_ie \<leftarrow> copy_out in_ie cnt (unat l + 2) p2p_ie; Some (Some (cnt, unat l + 2), p2p_ie) }
          else p2p_ie_loop in_ie in_len p2p_ie (cnt + (unat l + 2)) } }
      else Some (None, p2p_ie))"
  by pat_completeness auto
termination by (relation "measure (\<lambda>(in_ie, in_len, p2p_ie, cnt). nat in_len - cnt)") auto

declare p2p_ie_loop.simps [simp del]

definition rtw_get_p2p_ie :: "bytes \<Rightarrow> int \<Rightarrow> bytes option \<Rightarrow> ((nat \<times> nat) option \<times> bytes option) option" where
  "rtw_get_p2p_ie in_ie in_len p2p_ie = p2p_ie_loop in_ie in_len p2p_ie 0"

definition rtw_get_p2p_ie_from_scan_queue ::
  "bytes \<Rightarrow> int \<Rightarrow> bytes option \<Rightarrow> u8 \<Rightarrow> ((nat \<times> nat) option \<times> bytes option) option" where
  "rtw_get_p2p_ie_from_scan_queue in_ie in_len p2p_ie frame_type =
     (if frame_type = 1 \<or> frame_type = 3
      then map_option (apfst (map_option (apfst ((+) 12)))) (rtw_get_p2p_ie (drop 12 in_ie) (in_len - 12) p2p_ie)
      else if frame_type = 2 then rtw_get_p2p_ie in_ie in_len p2p_ie
      else Some (None, p2p_ie))"

section \<open>Attribute walks\<close>

text \<open>What a turn of a walk reads at \<open>p\<close>: the attribute's id and its length with the header. WPS and P2P keep
  that length in 16 bits, WFD does not.\<close>

definition wps_attr_hdr :: "bytes \<Rightarrow> nat \<Rightarrow> (u16 \<times> nat) option" where
  "wps_attr_hdr ie p = do {
     attr_id \<leftarrow> RTW_GET_BE16 ie p;
     attr_data_len \<leftarrow> RTW_GET_BE16 ie (p + 2);
     Some (attr_id, unat (attr_data_len + 4)) }"

definition p2p_attr_hdr :: "bytes \<Rightarrow> nat \<Rightarrow> (u8 \<times> nat) option" where
  "p2p_attr_hdr ie p = do {
     attr_id \<leftarrow> rd ie p;
     attr_data_len \<leftarrow> RTW_GET_LE16 ie (p + 1);
     Some (attr_id, unat (attr_data_len + 3)) }"

definition wfd_attr_hdr :: "bytes \<Rightarrow> nat \<Rightarrow> (u8 \<times> nat) option" where
  "wfd_attr_hdr ie p = do {
     attrlen \<leftarrow> RTW_GET_BE16 ie (p + 1);
     attr_id \<leftarrow> rd ie p;
     Some (attr_id, unat attrlen + 3) }"

text \<open>The \<open>while\<close> loop of the three searches: offset and length of the attribute found.\<close>

partial_function (option) attr_loop ::
  "(bytes \<Rightarrow> nat \<Rightarrow> ('i \<times> nat) option) \<Rightarrow> bytes \<Rightarrow> nat \<Rightarrow> 'i \<Rightarrow> nat \<Rightarrow> (nat \<times> nat) option run" where
  "attr_loop hdr ie ielen target p =
     (if p < ielen then
        (case hdr ie p of
           None \<Rightarrow> Some None
         | Some (attr_id, attr_len) \<Rightarrow>
             if attr_id = target then Some (Some (Some (p, attr_len)))
             else attr_loop hdr ie ielen target (p + attr_len))
      else Some (Some None))"

text \<open>The check of the element in front of the walk.\<close>

definition attr_search ::
  "bytes \<Rightarrow> (bytes \<Rightarrow> nat \<Rightarrow> ('i \<times> nat) option) \<Rightarrow> bytes \<Rightarrow> nat \<Rightarrow> 'i \<Rightarrow> (nat \<times> nat) option run" where
  "attr_search oui hdr ie ielen target =
     run_bind (Some (rd ie 0)) (\<lambda>eid.
       if eid \<noteq> 0xdd then ended None
       else run_bind (Some (rdn ie 2 4)) (\<lambda>x. if x \<noteq> oui then ended None else attr_loop hdr ie ielen target 6))"

definition rtw_get_wps_attr ::
  "bytes \<Rightarrow> nat \<Rightarrow> u16 \<Rightarrow> bytes option \<Rightarrow> ((nat \<times> nat) option \<times> bytes option) run" where
  "rtw_get_wps_attr wps_ie wps_ielen target_attr_id buf_attr =
     run_bind (attr_search wps_oui wps_attr_hdr wps_ie wps_ielen target_attr_id) (\<lambda>r.
       case r of None \<Rightarrow> ended (None, buf_attr)
       | Some (p, attr_len) \<Rightarrow> run_bind (Some (copy_out wps_ie p attr_len buf_attr)) (\<lambda>buf. ended (r, buf)))"

text \<open>Offset and length of the content. The subtraction is on \<open>u32\<close>.\<close>

definition rtw_get_wps_attr_content ::
  "bytes \<Rightarrow> nat \<Rightarrow> u16 \<Rightarrow> bytes option \<Rightarrow> ((nat \<times> u32) option \<times> bytes option) run" where
  "rtw_get_wps_attr_content wps_ie wps_ielen target_attr_id buf_content =
     run_bind (rtw_get_wps_attr wps_ie wps_ielen target_attr_id None) (\<lambda>(r, _).
       case r of None \<Rightarrow> ended (None, buf_content)
       | Some (p, attr_len) \<Rightarrow>
           (let n = of_nat attr_len - 4 :: u32
            in if attr_len \<noteq> 0
               then run_bind (Some (copy_out wps_ie (p + 4) (unat n) buf_content)) (\<lambda>buf. ended (Some (p + 4, n), buf))
               else ended (None, buf_content)))"

definition rtw_get_p2p_attr ::
  "bytes \<Rightarrow> nat \<Rightarrow> u8 \<Rightarrow> bytes option \<Rightarrow> ((nat \<times> nat) option \<times> bytes option) run" where
  "rtw_get_p2p_attr p2p_ie p2p_ielen target_attr_id buf_attr =
     run_bind (attr_search p2p_oui p2p_attr_hdr p2p_ie p2p_ielen target_attr_id) (\<lambda>r.
       case r of None \<Rightarrow> ended (None, buf_attr)
       | Some (p, attr_len) \<Rightarrow> run_bind (Some (copy_out p2p_ie p attr_len buf_attr)) (\<lambda>buf. ended (r, buf)))"

definition rtw_get_p2p_attr_content ::
  "bytes \<Rightarrow> nat \<Rightarrow> u8 \<Rightarrow> bytes option \<Rightarrow> ((nat \<times> u32) option \<times> bytes option) run" where
  "rtw_get_p2p_attr_content p2p_ie p2p_ielen target_attr_id buf_content =
     run_bind (rtw_get_p2p_attr p2p_ie p2p_ielen target_attr_id None) (\<lambda>(r, _).
       case r of None \<Rightarrow> ended (None, buf_content)
       | Some (p, attr_len) \<Rightarrow>
           (let n = of_nat attr_len - 3 :: u32
            in if attr_len \<noteq> 0
               then run_bind (Some (copy_out p2p_ie (p + 3) (unat n) buf_content)) (\<lambda>buf. ended (Some (p + 3, n), buf))
               else ended (None, buf_content)))"

text \<open>Length of the content and the destination; \<^term>\<open>None\<close> when there is no such attribute.\<close>

definition rtw_get_wfd_attr_content ::
  "bytes \<Rightarrow> nat \<Rightarrow> u8 \<Rightarrow> bytes option \<Rightarrow> (nat option \<times> bytes option) run" where
  "rtw_get_wfd_attr_content wfd_ie wfd_ielen target_attr_id attr_content =
     run_bind (attr_search wfd_oui wfd_attr_hdr wfd_ie wfd_ielen target_attr_id) (\<lambda>r.
       case r of None \<Rightarrow> ended (None, attr_content)
       | Some (p, len) \<Rightarrow>
           run_bind (Some (copy_out wfd_ie (p + 3) (len - 3) attr_content)) (\<lambda>buf. ended (Some (len - 3), buf)))"

section \<open>Writing and removing P2P attributes\<close>

definition rtw_set_p2p_attr_content :: "bytes \<Rightarrow> u8 \<Rightarrow> u16 \<Rightarrow> bytes option \<Rightarrow> (bytes \<times> u32) option" where
  "rtw_set_p2p_attr_content pbuf attr_id attr_len pdata_attr = do {
     pbuf \<leftarrow> wrn pbuf 0 [attr_id];
     pbuf \<leftarrow> RTW_PUT_LE16 pbuf 1 attr_len;
     pbuf \<leftarrow> (case pdata_attr of None \<Rightarrow> Some pbuf
       | Some d \<Rightarrow> do { x \<leftarrow> rdn d 0 (unat attr_len); wrn pbuf 3 x });
     Some (pbuf, ucast attr_len + 3) }"

text \<open>One turn of the loop of \<open>rtw_p2p_attr_remove\<close>: the rest moves down over the attribute at \<open>p\<close>.
  \<open>remain_len\<close> wraps around when the attribute ends behind the element.\<close>

definition p2p_attr_cut :: "bytes \<Rightarrow> nat \<Rightarrow> nat \<Rightarrow> nat \<Rightarrow> bytes option" where
  "p2p_attr_cut ie ielen p n =
     (let remain_len = unat (of_nat ielen - of_nat (p + n) :: u32)
      in do {
        ie \<leftarrow> wrn ie p (replicate n 0);
        x \<leftarrow> rdn ie (p + n) remain_len;
        ie \<leftarrow> wrn ie p x;
        ie \<leftarrow> wrn ie (p + remain_len) (replicate n 0);
        l \<leftarrow> rd ie 1;
        wrn ie 1 [l - of_nat n] })"

partial_function (option) rtw_p2p_attr_remove :: "bytes \<Rightarrow> nat \<Rightarrow> u8 \<Rightarrow> (bytes \<times> nat) run" where
  "rtw_p2p_attr_remove ie ielen attr_id =
     (case rtw_get_p2p_attr ie ielen attr_id None of
        None \<Rightarrow> None
      | Some None \<Rightarrow> Some None
      | Some (Some (None, _)) \<Rightarrow> Some (Some (ie, ielen))
      | Some (Some (Some (p, n), _)) \<Rightarrow>
          if n = 0 then Some (Some (ie, ielen))
          else (case p2p_attr_cut ie ielen p n of
                  None \<Rightarrow> Some None
                | Some ie \<Rightarrow> rtw_p2p_attr_remove ie (ielen - n) attr_id))"

text \<open>\<open>IEs\<close> and \<open>IELength\<close> of the network; the element is a part of \<open>IEs\<close>.\<close>

definition rtw_WLAN_BSSID_EX_remove_p2p_attr :: "bytes \<Rightarrow> u32 \<Rightarrow> u8 \<Rightarrow> (bytes \<times> u32) run" where
  "rtw_WLAN_BSSID_EX_remove_p2p_attr IEs IELength attr_id =
     run_bind (Some (rtw_get_p2p_ie (drop 12 IEs) (sint (IELength - 12)) None)) (\<lambda>(r, _).
       case r of None \<Rightarrow> ended (IEs, IELength)
       | Some (cnt, len_ori) \<Rightarrow>
           (let off = 12 + cnt
            in run_bind (rtw_p2p_attr_remove (drop off IEs) len_ori attr_id) (\<lambda>(p2p_ie, len).
                 let IEs = take off IEs @ p2p_ie
                 in if len = len_ori then ended (IEs, IELength)
                    else (let remain_len = unat (IELength - of_nat (off + len_ori))
                      in run_bind (Some (rdn IEs (off + len_ori) remain_len)) (\<lambda>x.
                         run_bind (Some (wrn IEs (off + len) x)) (\<lambda>IEs.
                         run_bind (Some (wrn IEs (off + len + remain_len) (replicate (len_ori - len) 0))) (\<lambda>IEs.
                         ended (IEs, IELength - of_nat (len_ori - len)))))))))"

section \<open>Merging P2P elements\<close>

text \<open>A vendor element with the OUI shorter than four bytes makes the copied length negative.\<close>

function p2p_merged_len_loop :: "bytes \<Rightarrow> nat \<Rightarrow> nat \<Rightarrow> int \<Rightarrow> int option" where
  "p2p_merged_len_loop in_ie in_len i len =
     (if i < in_len then do {
        eid \<leftarrow> rd in_ie i;
        x \<leftarrow> (if eid = 0xdd then rdn in_ie (i + 2) 4 else Some []);
        l \<leftarrow> rd in_ie (i + 1);
        p2p_merged_len_loop in_ie in_len (i + (unat l + 2))
          (if eid = 0xdd \<and> x = p2p_oui then len + int (unat l) - 4 else len) }
      else Some len)"
  by pat_completeness auto
termination by (relation "measure (\<lambda>(in_ie, in_len, i, len). in_len - i)") auto

declare p2p_merged_len_loop.simps [simp del]

definition rtw_get_p2p_merged_ies_len :: "bytes \<Rightarrow> nat \<Rightarrow> u32 option" where
  "rtw_get_p2p_merged_ies_len in_ie in_len =
     do { len \<leftarrow> p2p_merged_len_loop in_ie in_len 0 0; Some (of_int (len + 4)) }"

text \<open>\<open>len\<close> is a \<open>u8\<close>; \<open>m\<close> is the position in \<open>merge_ie\<close>. A length below four would be converted to a huge
  \<open>size_t\<close>: the copy leaves every buffer.\<close>

function p2p_merge_loop :: "bytes \<Rightarrow> nat \<Rightarrow> nat \<Rightarrow> bytes \<Rightarrow> nat \<Rightarrow> u8 \<Rightarrow> (bytes \<times> u8) option" where
  "p2p_merge_loop in_ie in_len i merge_ie m len =
     (if i < in_len then do {
        eid \<leftarrow> rd in_ie i;
        x \<leftarrow> (if eid = 0xdd then rdn in_ie (i + 2) 4 else Some []);
        l \<leftarrow> rd in_ie (i + 1);
        if eid = 0xdd \<and> x = p2p_oui then
          (if unat l < 4 then None
           else do {
             d \<leftarrow> rdn in_ie (i + 6) (unat l - 4);
             merge_ie \<leftarrow> wrn merge_ie m d;
             p2p_merge_loop in_ie in_len (i + (unat l + 2)) merge_ie (m + (unat l - 4)) (len + (l - 4)) })
        else p2p_merge_loop in_ie in_len (i + (unat l + 2)) merge_ie m len }
      else Some (merge_ie, len))"
  by pat_completeness auto
termination by (relation "measure (\<lambda>(in_ie, in_len, i, merge_ie, m, len). in_len - i)") auto

declare p2p_merge_loop.simps [simp del]

definition rtw_p2p_merge_ies :: "bytes \<Rightarrow> nat \<Rightarrow> bytes option \<Rightarrow> (bytes option \<times> nat) option" where
  "rtw_p2p_merge_ies in_ie in_len merge_ie =
     (case merge_ie of None \<Rightarrow> Some (None, 0)
      | Some d \<Rightarrow> do {
          d \<leftarrow> wrn d 0 ([0xDD, 0x00] @ p2p_oui);
          (d, len) \<leftarrow> p2p_merge_loop in_ie in_len 0 d 6 0;
          Some (Some d, unat len + 4) })"

section \<open>Formats of attributes\<close>

lemma run_bind_simps [simp]:
  "run_bind (Some (Some x)) f = f x" "run_bind (Some None) f = Some None" "run_bind None f = None"
  "run_bind (ended x) f = f x"
  by (simp_all add: run_bind_def ended_def)

lemma attr_loop_stuck:
  fixes hdr :: "bytes \<Rightarrow> nat \<Rightarrow> ('i \<times> nat) option"
  assumes "p < ielen" "hdr ie p = Some (j, 0)" "j \<noteq> i"
  shows "attr_loop hdr ie ielen i p = None"
proof (cases "attr_loop hdr ie ielen i p")
  case (Some r)
  have "\<not> (p < ielen \<and> hdr ie p = Some (j, 0) \<and> j \<noteq> i)"
  proof (rule attr_loop.raw_induct [where P = "\<lambda>hdr ie ielen i p r. \<not> (p < ielen \<and> hdr ie p = Some (j, 0) \<and> j \<noteq> i)", OF _ Some])
    fix f and hdr :: "bytes \<Rightarrow> nat \<Rightarrow> ('i \<times> nat) option" and ie ielen i p r
    assume ih: "\<And>hdr ie ielen i p r. f hdr ie ielen i p = Some r \<Longrightarrow> \<not> (p < ielen \<and> hdr ie p = Some (j, 0) \<and> j \<noteq> i)"
      and "(if p < ielen then (case hdr ie p of None \<Rightarrow> Some None
        | Some (attr_id, attr_len) \<Rightarrow> if attr_id = i then Some (Some (Some (p, attr_len)))
            else f hdr ie ielen i (p + attr_len)) else Some (Some None)) = Some r"
    then show "\<not> (p < ielen \<and> hdr ie p = Some (j, 0) \<and> j \<noteq> i)"
      using ih [of hdr ie ielen i p r] by (auto split: if_splits)
  qed
  then show ?thesis using assms by simp
qed simp

text \<open>What a walk needs of a format: reading a header where one was written gives the id and the length
  with the header.\<close>

locale attribute_format =
  fixes hdr :: "bytes \<Rightarrow> nat \<Rightarrow> ('i \<times> nat) option" and put :: "'i \<Rightarrow> nat \<Rightarrow> bytes"
    and hlen :: nat and maxlen :: nat
  assumes put_length_law: "length (put i n) = hlen"
    and hlen_law: "0 < hlen"
    and hdr_put_law: "n < maxlen \<Longrightarrow> hdr (pre @ put i n @ rest) (length pre) = Some (i, n + hlen)"
begin

definition attr_bytes :: "'i \<times> bytes \<Rightarrow> bytes" where
  "attr_bytes a = put (fst a) (length (snd a)) @ snd a"

definition attrs_bytes :: "('i \<times> bytes) list \<Rightarrow> bytes" where
  "attrs_bytes as = concat (map attr_bytes as)"

definition wf_attrs :: "('i \<times> bytes) list \<Rightarrow> bool" where
  "wf_attrs as \<longleftrightarrow> (\<forall>a \<in> set as. length (snd a) < maxlen)"

fun attr_at :: "'i \<Rightarrow> ('i \<times> bytes) list \<Rightarrow> nat \<Rightarrow> (nat \<times> nat) option" where
  "attr_at i [] p = None"
| "attr_at i (a # as) p =
     (if fst a = i then Some (p, length (snd a) + hlen) else attr_at i as (p + hlen + length (snd a)))"

lemma attrs_bytes_simps:
  "attrs_bytes [] = []" "attrs_bytes (a # as) = put (fst a) (length (snd a)) @ snd a @ attrs_bytes as"
  "attrs_bytes (as @ bs) = attrs_bytes as @ attrs_bytes bs"
  by (simp_all add: attrs_bytes_def attr_bytes_def)

lemma attr_at_split:
  "attr_at i as p = Some (q, n) \<Longrightarrow>
    \<exists>us a vs. as = us @ a # vs \<and> fst a = i \<and> (\<forall>u \<in> set us. fst u \<noteq> i) \<and> q = p + length (attrs_bytes us) \<and> n = length (snd a) + hlen"
proof (induction as arbitrary: p)
  case (Cons b as)
  show ?case
  proof (cases "fst b = i")
    case True
    then show ?thesis using Cons.prems by (intro exI [of _ "[]"] exI [of _ b] exI [of _ as]) (auto simp: attrs_bytes_simps)
  next
    case False
    then obtain us a vs where "as = us @ a # vs \<and> fst a = i \<and> (\<forall>u \<in> set us. fst u \<noteq> i)
        \<and> q = p + hlen + length (snd b) + length (attrs_bytes us) \<and> n = length (snd a) + hlen"
      using Cons.IH [of "p + hlen + length (snd b)"] Cons.prems by auto
    then show ?thesis
      using False by (intro exI [of _ "b # us"] exI [of _ a] exI [of _ vs])
        (auto simp: attrs_bytes_simps put_length_law)
  qed
qed simp

lemma attr_at_None: "attr_at i as p = None \<longleftrightarrow> (\<forall>a \<in> set as. fst a \<noteq> i)"
  by (induction as arbitrary: p) auto

lemma walk:
  "wf_attrs as \<Longrightarrow> p = length pre \<Longrightarrow> ielen = length pre + length (attrs_bytes as) \<Longrightarrow>
    attr_loop hdr (pre @ attrs_bytes as @ rest) ielen i p = Some (Some (attr_at i as p))"
proof (induction as arbitrary: pre p)
  case Nil
  then show ?case by (subst attr_loop.simps) (simp add: attrs_bytes_simps)
next
  case (Cons a as)
  let ?pre = "pre @ put (fst a) (length (snd a)) @ snd a"
  have h: "hdr (pre @ attrs_bytes (a # as) @ rest) p = Some (fst a, length (snd a) + hlen)"
    using hdr_put_law [of "length (snd a)" pre "fst a" "snd a @ attrs_bytes as @ rest"] Cons.prems(1,2)
    by (simp add: attrs_bytes_simps wf_attrs_def)
  have e: "pre @ attrs_bytes (a # as) @ rest = ?pre @ attrs_bytes as @ rest" by (simp add: attrs_bytes_simps)
  have p: "p < ielen" using Cons.prems(2,3) hlen_law by (simp add: attrs_bytes_simps put_length_law)
  have "attr_loop hdr (?pre @ attrs_bytes as @ rest) ielen i (p + (length (snd a) + hlen))
      = Some (Some (attr_at i as (p + (length (snd a) + hlen))))"
    by (rule Cons.IH) (use Cons.prems in \<open>simp_all add: wf_attrs_def attrs_bytes_simps put_length_law\<close>)
  then show ?case
    by (subst attr_loop.simps) (use h p in \<open>simp add: e ac_simps\<close>)
qed

lemma walk_stuck:
  assumes "wf_attrs as" "\<forall>a \<in> set as. fst a \<noteq> i" "p = length pre"
    and "p + length (attrs_bytes as) < ielen"
    and "hdr (pre @ attrs_bytes as @ rest) (p + length (attrs_bytes as)) = Some (j, 0)" "j \<noteq> i"
  shows "attr_loop hdr (pre @ attrs_bytes as @ rest) ielen i p = None"
  using assms
proof (induction as arbitrary: pre p)
  case Nil
  show ?case
    by (rule attr_loop_stuck) (use Nil in \<open>auto simp: attrs_bytes_simps\<close>)
next
  case (Cons a as)
  let ?pre = "pre @ put (fst a) (length (snd a)) @ snd a"
  have h: "hdr (pre @ attrs_bytes (a # as) @ rest) p = Some (fst a, length (snd a) + hlen)"
    using hdr_put_law [of "length (snd a)" pre "fst a" "snd a @ attrs_bytes as @ rest"] Cons.prems(1,3)
    by (simp add: attrs_bytes_simps wf_attrs_def)
  have e: "pre @ attrs_bytes (a # as) @ rest = ?pre @ attrs_bytes as @ rest" by (simp add: attrs_bytes_simps)
  have "attr_loop hdr (?pre @ attrs_bytes as @ rest) ielen i (p + (length (snd a) + hlen)) = None"
    by (rule Cons.IH)
      (use Cons.prems in \<open>simp_all add: wf_attrs_def attrs_bytes_simps put_length_law ac_simps\<close>)
  then show ?case
    by (subst attr_loop.simps) (use h Cons.prems in \<open>simp add: e ac_simps\<close>)
qed

end

section \<open>The three formats\<close>

definition be16 :: "u16 \<Rightarrow> bytes" where
  "be16 v = [ucast (drop_bit 8 v), ucast v]"

lemma be16_word: "push_bit 8 (ucast (ucast (drop_bit 8 v) :: u8)) OR ucast (ucast v :: u8) = (v :: u16)"
  unfolding or.commute [of "push_bit 8 _"] bytes_le16_def [symmetric] by (rule bytes_le16_le16_bytes)

lemma get_be16: "i = length pre \<Longrightarrow> RTW_GET_BE16 (pre @ be16 v @ rest) i = Some v"
  by (simp add: RTW_GET_BE16_def be16_def rd_def nth_append be16_word)

lemma get_le16: "i = length pre \<Longrightarrow> RTW_GET_LE16 (pre @ le16_bytes v @ rest) i = Some v"
  by (simp add: RTW_GET_LE16_def le16_bytes_def rd_def nth_append be16_word)

lemma unat_of_nat_add: "n + k < 65536 \<Longrightarrow> unat (of_nat n + of_nat k :: u16) = n + k"
  unfolding of_nat_add [symmetric] unsigned_of_nat by (simp add: take_bit_nat_eq_self)

interpretation wps: attribute_format wps_attr_hdr "\<lambda>i n. be16 i @ be16 (of_nat n)" 4 65532
proof (unfold_locales, goal_cases)
  case (3 n pre i rest)
  have "RTW_GET_BE16 ((pre @ be16 i) @ be16 (of_nat n) @ rest) (length pre + 2) = Some (of_nat n)"
    by (rule get_be16) (simp add: be16_def)
  then show ?case using 3 get_be16 [of "length pre" pre i "be16 (of_nat n) @ rest"] unat_of_nat_add [of n 4]
    by (simp add: wps_attr_hdr_def)
qed (simp_all add: be16_def)

interpretation p2p: attribute_format p2p_attr_hdr "\<lambda>i n. i # le16_bytes (of_nat n)" 3 65533
proof (unfold_locales, goal_cases)
  case (3 n pre i rest)
  have "RTW_GET_LE16 ((pre @ [i]) @ le16_bytes (of_nat n) @ rest) (length pre + 1) = Some (of_nat n)"
    by (rule get_le16) simp
  then show ?case using 3 unat_of_nat_add [of n 3]
    by (simp add: p2p_attr_hdr_def rd_def nth_append)
qed (simp_all)

interpretation wfd: attribute_format wfd_attr_hdr "\<lambda>i n. i # be16 (of_nat n)" 3 65536
proof (unfold_locales, goal_cases)
  case (3 n pre i rest)
  have "RTW_GET_BE16 ((pre @ [i]) @ be16 (of_nat n) @ rest) (length pre + 1) = Some (of_nat n)"
    by (rule get_be16) simp
  then show ?case using 3 unat_of_nat_add [of n 0]
    by (simp add: wfd_attr_hdr_def rd_def nth_append)
qed (simp_all add: be16_def)

section \<open>Elements with attributes\<close>

text \<open>An element is followed by other bytes of the frame.\<close>

definition attr_element :: "bytes \<Rightarrow> u8 \<Rightarrow> bytes \<Rightarrow> bytes" where
  "attr_element oui l attrs = 0xdd # l # oui @ attrs"

lemma attr_search_element:
  "length oui = 4 \<Longrightarrow> attr_search oui hdr (attr_element oui l attrs @ rest) ielen i
    = attr_loop hdr (attr_element oui l attrs @ rest) ielen i 6"
  by (simp add: attr_search_def attr_element_def rd_def rdn_def)

lemma oui_length [simp]: "length wps_oui = 4" "length p2p_oui = 4" "length wfd_oui = 4"
  by (simp_all add: wps_oui_def p2p_oui_def wfd_oui_def)

lemma length_attr_element: "length (attr_element oui l attrs) = length oui + length attrs + 2"
  by (simp add: attr_element_def)

lemma copy_out_None [simp]: "copy_out b i n None = Some None"
  by (simp add: copy_out_def)

lemma copy_out_slice:
  "i = length pre \<Longrightarrow> n = length c \<Longrightarrow> n \<le> length d \<Longrightarrow> copy_out (pre @ c @ rest) i n (Some d) = Some (Some (c @ drop n d))"
  by (simp add: copy_out_def rdn_def wrn_def)

lemma copy_out_fault: "length d < n \<Longrightarrow> copy_out b i n (Some d) = None"
  by (auto simp: copy_out_def rdn_def wrn_def)

context attribute_format
begin

text \<open>The attribute a search returns, in place.\<close>

lemma search_element:
  assumes "length oui = 4" "wf_attrs as"
  shows "attr_search oui hdr (attr_element oui l (attrs_bytes as) @ rest) (6 + length (attrs_bytes as)) i
    = Some (Some (attr_at i as 6))"
proof -
  have "attr_loop hdr ((attr_element oui l []) @ attrs_bytes as @ rest) (6 + length (attrs_bytes as)) i 6 = Some (Some (attr_at i as 6))"
    by (rule walk [OF assms(2)]) (simp_all add: attr_element_def assms(1))
  then show ?thesis unfolding attr_search_element [OF assms(1)] by (simp add: attr_element_def)
qed

lemma found_in_place:
  assumes "length oui = 4" "map_of as i = Some c"
  obtains q pre post where "attr_at i as 6 = Some (q, length c + hlen)"
    "attr_element oui l (attrs_bytes as) @ rest = pre @ c @ post" "q + hlen = length pre"
proof -
  have "attr_at i as 6 \<noteq> None"
  proof
    assume "attr_at i as 6 = None"
    then show False using map_of_SomeD [OF assms(2)] unfolding attr_at_None by fastforce
  qed
  then obtain q n where "attr_at i as 6 = Some (q, n)" by auto
  then obtain us a vs where s: "as = us @ a # vs" "fst a = i" "\<forall>u \<in> set us. fst u \<noteq> i"
      "q = 6 + length (attrs_bytes us)" "n = length (snd a) + hlen" "attr_at i as 6 = Some (q, n)"
    using attr_at_split [of i as 6 q n] by blast
  have "map_of us i = None" using s(3) by (simp add: map_of_eq_None_iff image_iff) blast
  then have "snd a = c" using assms(2) s(1,2) by (cases a) (simp add: map_add_def)
  then show thesis
    using that [of q "attr_element oui l (attrs_bytes us @ put i (length c))" "attrs_bytes vs @ rest"] s assms(1)
    by (simp add: attrs_bytes_simps attr_element_def put_length_law)
qed

lemma not_found: "map_of as i = None \<Longrightarrow> attr_at i as 6 = None"
  by (auto simp: attr_at_None map_of_eq_None_iff)

text \<open>What the content functions make of a search.\<close>

lemma content_element:
  assumes "length oui = 4" "wf_attrs as" "list_all (\<lambda>a. length (snd a) \<le> length d) as"
  shows "run_bind (attr_search oui hdr (attr_element oui l (attrs_bytes as) @ rest) (6 + length (attrs_bytes as)) i)
      (\<lambda>r. case r of None \<Rightarrow> ended (None, Some d)
        | Some (p, n) \<Rightarrow> run_bind (Some (copy_out (attr_element oui l (attrs_bytes as) @ rest) (p + hlen) (n - hlen) (Some d)))
            (\<lambda>buf. ended (Some (n - hlen), buf)))
    = ended (case map_of as i of None \<Rightarrow> (None, Some d) | Some c \<Rightarrow> (Some (length c), Some (c @ drop (length c) d)))"
proof (cases "map_of as i")
  case None
  then show ?thesis by (simp add: search_element [OF assms(1,2)] not_found)
next
  case (Some c)
  obtain q pre post where f: "attr_at i as 6 = Some (q, length c + hlen)"
    "attr_element oui l (attrs_bytes as) @ rest = pre @ c @ post" "q + hlen = length pre"
    by (rule found_in_place [OF assms(1) Some])
  have "(i, c) \<in> set as" using Some by (rule map_of_SomeD)
  then have "length c \<le> length d" using assms(3) by (auto simp: list_all_iff)
  moreover have "attr_search oui hdr (pre @ c @ post) (6 + length (attrs_bytes as)) i = Some (Some (Some (q, length c + hlen)))"
    using search_element [OF assms(1,2), of l rest i] f(1,2) by simp
  ultimately show ?thesis
    unfolding f(2) using Some f(3) copy_out_slice [of "q + hlen" pre "length c" c d post] by simp
qed

end

lemma content_length_u32: "n + k < 65536 \<Longrightarrow> unat (of_nat (n + k) - of_nat k :: u32) = n"
proof -
  assume "n + k < 65536"
  then have "unat (of_nat n :: u32) = n" unfolding unsigned_of_nat by (simp add: take_bit_nat_eq_self)
  then show ?thesis by simp
qed

definition content_of :: "(nat \<times> u32) option \<times> bytes option \<Rightarrow> nat option \<times> bytes option" where
  "content_of r = (map_option (unat \<circ> snd) (fst r), snd r)"

text \<open>The common body of the WPS and P2P content functions, for regular attributes.\<close>

lemma content_body:
  assumes "\<forall>p n. S = Some (Some (Some (p, n))) \<longrightarrow> k \<le> n \<and> n < 65536" "0 < k"
  shows "map_option (map_option content_of) (run_bind (run_bind S (\<lambda>r. case r of None \<Rightarrow> ended (None, None)
          | Some (p, n) \<Rightarrow> run_bind (Some (copy_out ie p n None)) (\<lambda>buf. ended (r, buf))))
        (\<lambda>(r, _). case r of None \<Rightarrow> ended (None, d)
          | Some (p, n) \<Rightarrow> (let m = of_nat n - of_nat k :: u32 in if n \<noteq> 0
              then run_bind (Some (copy_out ie (p + k) (unat m) d)) (\<lambda>buf. ended (Some (p + k, m), buf)) else ended (None, d))))
    = run_bind S (\<lambda>r. case r of None \<Rightarrow> ended (None, d)
        | Some (p, n) \<Rightarrow> run_bind (Some (copy_out ie (p + k) (n - k) d)) (\<lambda>buf. ended (Some (n - k), buf)))"
proof -
  consider "S = None" | "S = Some None" | "S = Some (Some None)" | p n where "S = Some (Some (Some (p, n)))"
    by (metis not_None_eq surj_pair)
  then show ?thesis
  proof cases
    case (4 p n)
    then have n: "k \<le> n" "n < 65536" using assms(1) by auto
    then have "unat (of_nat n - of_nat k :: u32) = n - k" using content_length_u32 [of "n - k" k] by simp
    then show ?thesis using 4 n assms(2)
      by (cases "copy_out ie (p + k) (n - k) d") (simp_all add: ended_def content_of_def run_bind_def)
  qed (simp_all add: ended_def content_of_def)
qed

context attribute_format
begin

lemma attr_at_bounds:
  "wf_attrs as \<Longrightarrow> attr_at i as p = Some (q, n) \<Longrightarrow> hlen \<le> n \<and> n < maxlen + hlen"
  using attr_at_split [of i as p q n] by (auto simp: wf_attrs_def)

end

lemma wps_content_element:
  assumes "wps.wf_attrs as" "list_all (\<lambda>a. length (snd a) \<le> length d) as"
  shows "map_option (map_option content_of) (rtw_get_wps_attr_content
      (attr_element wps_oui l (wps.attrs_bytes as) @ rest) (6 + length (wps.attrs_bytes as)) i (Some d))
    = ended (case map_of as i of None \<Rightarrow> (None, Some d) | Some c \<Rightarrow> (Some (length c), Some (c @ drop (length c) d)))"
proof -
  let ?S = "attr_search wps_oui wps_attr_hdr (attr_element wps_oui l (wps.attrs_bytes as) @ rest) (6 + length (wps.attrs_bytes as)) i"
  have b: "\<forall>p n. ?S = Some (Some (Some (p, n))) \<longrightarrow> 4 \<le> n \<and> n < 65536"
    using wps.search_element [OF oui_length(1) assms(1)] wps.attr_at_bounds [OF assms(1)] by fastforce
  show ?thesis
    using content_body [OF b, of "attr_element wps_oui l (wps.attrs_bytes as) @ rest" "Some d", unfolded of_nat_numeral] wps.content_element [OF oui_length(1) assms]
    by (simp add: rtw_get_wps_attr_content_def rtw_get_wps_attr_def)
qed

lemma p2p_content_element:
  assumes "p2p.wf_attrs as" "list_all (\<lambda>a. length (snd a) \<le> length d) as"
  shows "map_option (map_option content_of) (rtw_get_p2p_attr_content
      (attr_element p2p_oui l (p2p.attrs_bytes as) @ rest) (6 + length (p2p.attrs_bytes as)) i (Some d))
    = ended (case map_of as i of None \<Rightarrow> (None, Some d) | Some c \<Rightarrow> (Some (length c), Some (c @ drop (length c) d)))"
proof -
  let ?S = "attr_search p2p_oui p2p_attr_hdr (attr_element p2p_oui l (p2p.attrs_bytes as) @ rest) (6 + length (p2p.attrs_bytes as)) i"
  have b: "\<forall>p n. ?S = Some (Some (Some (p, n))) \<longrightarrow> 3 \<le> n \<and> n < 65536"
    using p2p.search_element [OF oui_length(2) assms(1)] p2p.attr_at_bounds [OF assms(1)] by fastforce
  show ?thesis
    using content_body [OF b, of "attr_element p2p_oui l (p2p.attrs_bytes as) @ rest" "Some d", unfolded of_nat_numeral] p2p.content_element [OF oui_length(2) assms]
    by (simp add: rtw_get_p2p_attr_content_def rtw_get_p2p_attr_def)
qed

lemma wfd_content_element:
  assumes "wfd.wf_attrs as" "list_all (\<lambda>a. length (snd a) \<le> length d) as"
  shows "rtw_get_wfd_attr_content (attr_element wfd_oui l (wfd.attrs_bytes as) @ rest) (6 + length (wfd.attrs_bytes as)) i (Some d)
    = ended (case map_of as i of None \<Rightarrow> (None, Some d) | Some c \<Rightarrow> (Some (length c), Some (c @ drop (length c) d)))"
  using wfd.content_element [OF oui_length(3) assms] by (simp add: rtw_get_wfd_attr_content_def)

section \<open>Searches for vendor elements\<close>

lemma copy_out_get:
  "copy_out b cnt n ie = (case ie of None \<Rightarrow> Some None | Some d \<Rightarrow> do { x \<leftarrow> rdn b cnt n; d \<leftarrow> wrn d 0 x; Some (Some d) })"
  by (simp add: copy_out_def)

lemma vendor_ie_loop_eq:
  assumes "length oui = 4"
  shows "vendor_ie_loop oui in_ie in_len ie cnt = get_ie_ex_loop in_ie in_len 0xdd (Some oui) ie cnt"
  using assms
proof (induction oui in_ie in_len ie cnt rule: vendor_ie_loop.induct)
  case (1 oui in_ie in_len ie cnt)
  show ?case
    by (subst vendor_ie_loop.simps, subst get_ie_ex_loop.simps)
      (use 1 in \<open>auto simp: copy_out_def split: option.splits Option.bind_splits intro!: Option.bind_cong\<close>)
qed

lemma p2p_ie_loop_eq:
  assumes "0 \<le> in_len" "in_len \<le> int MAX_IE_SZ"
  shows "p2p_ie_loop in_ie in_len ie cnt = get_ie_ex_loop in_ie (nat in_len) 0xdd (Some p2p_oui) ie cnt"
  using assms
proof (induction in_ie in_len ie cnt rule: p2p_ie_loop.induct)
  case (1 in_ie in_len ie cnt)
  show ?case
    by (subst p2p_ie_loop.simps, subst get_ie_ex_loop.simps)
      (use 1 in \<open>auto simp: copy_out_def split: option.splits Option.bind_splits intro!: Option.bind_cong\<close>)
qed

lemma p2p_ie_loop_nat:
  "n \<le> MAX_IE_SZ \<Longrightarrow> p2p_ie_loop in_ie (int n) ie cnt = get_ie_ex_loop in_ie n 0xdd (Some p2p_oui) ie cnt"
  by (simp add: p2p_ie_loop_eq)

section \<open>Removing attributes\<close>

lemma p2p_attr_cut_slices:
  assumes "2 \<le> length h" "n = length x" "ielen = length h + length x + length r" "ielen < 2 ^ 32"
  shows "p2p_attr_cut (h @ x @ r @ t) ielen (length h) n = Some (h[1 := h ! 1 - of_nat n] @ r @ replicate n 0 @ t)"
proof -
  have "(of_nat ielen - of_nat (length h + n) :: u32) = of_nat (length r)" using assms(2,3) by simp
  then have rem: "unat (of_nat ielen - of_nat (length h + n) :: u32) = length r"
  proof -
    assume e: "(of_nat ielen - of_nat (length h + n) :: u32) = of_nat (length r)"
    have "length r < 2 ^ LENGTH(32)" using assms(3,4) by simp
    then show ?thesis unfolding e unsigned_of_nat by (simp only: take_bit_nat_eq_self of_nat_id)
  qed
  let ?m = "replicate n 0 @ r"
  have s: "?m = take (length r) ?m @ drop (length r) ?m" by (rule append_take_drop_id [symmetric])
  have a: "wrn (h @ x @ r @ t) (length h) (replicate n 0) = Some (h @ ?m @ t)"
    using wrn_append [of "length h" h "replicate n 0" x "r @ t"] assms(2) by simp
  have b: "rdn (h @ ?m @ t) (length h + n) (length r) = Some r"
    using rdn_append [of "length h + n" "h @ replicate n 0" "length r" r t] by simp
  have c: "wrn (h @ ?m @ t) (length h) r = Some (h @ r @ drop (length r) ?m @ t)"
    using wrn_append [of "length h" h r "take (length r) ?m" "drop (length r) ?m @ t"]
    unfolding append.assoc [symmetric, of "take (length r) ?m"] s [symmetric] by simp
  have d: "wrn (h @ r @ drop (length r) ?m @ t) (length h + length r) (replicate n 0) = Some (h @ r @ replicate n 0 @ t)"
    using wrn_append [of "length h + length r" "h @ r" "replicate n 0" "drop (length r) ?m" t] by simp
  have e: "wrn (h @ r @ replicate n 0 @ t) 1 [h ! 1 - of_nat n] = Some (h[1 := h ! 1 - of_nat n] @ r @ replicate n 0 @ t)"
    using assms(1) by (simp add: wrn_def upd_conv_take_nth_drop)
  show ?thesis
    unfolding p2p_attr_cut_def Let_def rem a b c d bind.bind_lunit
    using assms(1) e by (simp add: rd_def nth_append)
qed

lemma p2p_attr_remove_element:
  assumes "p2p.wf_attrs as" "length (p2p.attrs_bytes as) < 2 ^ 31"
  shows "length (p2p.attrs_bytes (filter (\<lambda>a. fst a \<noteq> i) as)) \<le> length (p2p.attrs_bytes as)
    \<and> rtw_p2p_attr_remove (attr_element p2p_oui l (p2p.attrs_bytes as) @ t) (6 + length (p2p.attrs_bytes as)) i
      = (let keep = filter (\<lambda>a. fst a \<noteq> i) as; k = length (p2p.attrs_bytes as) - length (p2p.attrs_bytes keep)
         in ended (attr_element p2p_oui (l - of_nat k) (p2p.attrs_bytes keep) @ replicate k 0 @ t, 6 + length (p2p.attrs_bytes keep)))"
  using assms unfolding Let_def
proof (induction "length as" arbitrary: as l t rule: less_induct)
  case less
  let ?ie = "attr_element p2p_oui l (p2p.attrs_bytes as) @ t" and ?n = "6 + length (p2p.attrs_bytes as)"
  have g: "rtw_get_p2p_attr ?ie ?n i None = ended (p2p.attr_at i as 6, None)"
    unfolding rtw_get_p2p_attr_def p2p.search_element [OF oui_length(2) less.prems(1)]
    by (auto simp: ended_def run_bind_def split: option.splits)
  show ?case
  proof (cases "p2p.attr_at i as 6")
    case None
    then have "filter (\<lambda>a. fst a \<noteq> i) as = as" by (auto simp: p2p.attr_at_None intro: filter_True)
    then show ?thesis
      using None g by (subst rtw_p2p_attr_remove.simps) (simp add: ended_def)
  next
    case (Some pn)
    obtain p n where pn: "pn = (p, n)" by (cases pn)
    obtain us a vs where s: "as = us @ a # vs" "fst a = i" "\<forall>u \<in> set us. fst u \<noteq> i"
      "p = 6 + length (p2p.attrs_bytes us)" "n = length (snd a) + 3"
      using p2p.attr_at_split Some unfolding pn by blast
    let ?h = "attr_element p2p_oui l (p2p.attrs_bytes us)" and ?x = "p2p.attr_bytes a" and ?r = "p2p.attrs_bytes vs"
    have x: "length ?x = n" using s(5) by (simp add: p2p.attr_bytes_def)
    have b: "p2p.attrs_bytes as = p2p.attrs_bytes us @ ?x @ ?r"
      unfolding s(1) by (simp add: p2p.attrs_bytes_simps p2p.attr_bytes_def)
    have ie: "?ie = ?h @ ?x @ ?r @ t" by (simp add: b attr_element_def)
    have h: "length ?h = p" by (simp add: length_attr_element s(4))
    have cut: "p2p_attr_cut ?ie ?n p n = Some (attr_element p2p_oui (l - of_nat n) (p2p.attrs_bytes (us @ vs)) @ replicate n 0 @ t)"
    proof -
      have "p2p_attr_cut (?h @ ?x @ ?r @ t) ?n (length ?h) n
          = Some (?h[1 := ?h ! 1 - of_nat n] @ ?r @ replicate n 0 @ t)"
        by (rule p2p_attr_cut_slices) (use less.prems(2) x in \<open>simp_all add: length_attr_element b\<close>)
      then have "p2p_attr_cut ?ie ?n p n = Some (?h[1 := ?h ! 1 - of_nat n] @ ?r @ replicate n 0 @ t)"
        unfolding ie [symmetric] h .
      then show ?thesis by (simp only:) (simp add: attr_element_def p2p.attrs_bytes_simps)
    qed
    have wf: "p2p.wf_attrs (us @ vs)" using less.prems(1) by (simp add: s(1) p2p.wf_attrs_def)
    have len: "?n - n = 6 + length (p2p.attrs_bytes (us @ vs))" by (simp add: b x p2p.attrs_bytes_simps)
    have f: "filter (\<lambda>a. fst a \<noteq> i) as = filter (\<lambda>a. fst a \<noteq> i) (us @ vs)" using s(1,2) by simp
    let ?k = "length (p2p.attrs_bytes (us @ vs)) - length (p2p.attrs_bytes (filter (\<lambda>a. fst a \<noteq> i) (us @ vs)))"
    have lb: "length (p2p.attrs_bytes as) = length (p2p.attrs_bytes (us @ vs)) + n" by (simp add: b x p2p.attrs_bytes_simps)
    then have ih: "length (p2p.attrs_bytes (filter (\<lambda>a. fst a \<noteq> i) (us @ vs))) \<le> length (p2p.attrs_bytes (us @ vs))"
      "rtw_p2p_attr_remove (attr_element p2p_oui (l - of_nat n) (p2p.attrs_bytes (us @ vs)) @ replicate n 0 @ t) (?n - n) i
        = ended (attr_element p2p_oui (l - of_nat n - of_nat ?k) (p2p.attrs_bytes (filter (\<lambda>a. fst a \<noteq> i) (us @ vs)))
            @ replicate ?k 0 @ replicate n 0 @ t, 6 + length (p2p.attrs_bytes (filter (\<lambda>a. fst a \<noteq> i) (us @ vs))))"
      using less.hyps [of "us @ vs" "l - of_nat n" "replicate n 0 @ t"] wf less.prems(2) unfolding len by (simp_all add: s(1))
    have k: "length (p2p.attrs_bytes as) - length (p2p.attrs_bytes (filter (\<lambda>a. fst a \<noteq> i) (us @ vs))) = ?k + n"
      using lb ih(1) by simp
    have z: "replicate (?k + n) 0 @ t = replicate ?k 0 @ replicate n 0 @ t" by (simp add: replicate_add)
    have "rtw_p2p_attr_remove ?ie ?n i = rtw_p2p_attr_remove (attr_element p2p_oui (l - of_nat n) (p2p.attrs_bytes (us @ vs)) @ replicate n 0 @ t) (?n - n) i"
      using g Some pn cut s(5) by (subst rtw_p2p_attr_remove.simps) (simp add: ended_def)
    then show ?thesis unfolding f k z using ih lb by (simp add: algebra_simps)
  qed
qed

section \<open>Removing attributes from a network\<close>

lemma p2p_ie_found:
  assumes "wf_ies (es1 @ [(0xdd, p2p_oui @ d)])" "oui_fits 0xdd (Some p2p_oui) es1" "\<forall>e \<in> set es1. \<not> ie_matches 0xdd (Some p2p_oui) e"
    and "length (ies_of (es1 @ (0xdd, p2p_oui @ d) # es2)) \<le> MAX_IE_SZ" "wf_ies es2" "oui_fits 0xdd (Some p2p_oui) es2"
  shows "rtw_get_p2p_ie (ies_of (es1 @ (0xdd, p2p_oui @ d) # es2) @ rest) (int (length (ies_of (es1 @ (0xdd, p2p_oui @ d) # es2)))) None
    = Some (Some (length (ies_of es1), 6 + length d), None)"
proof -
  let ?es = "es1 @ (0xdd, p2p_oui @ d) # es2"
  have wf: "wf_ies ?es" "oui_fits 0xdd (Some p2p_oui) ?es" using assms by simp_all
  have "find_ie P (us @ (e, x) # vs) off = Some (off + length (ies_of us), length x)"
    if "\<forall>u \<in> set us. \<not> P u" "P (e, x)" for P us vs e x and off :: nat
    using that
  proof (induction us arbitrary: off)
    case (Cons u us)
    then show ?case by (cases u) simp
  qed simp
  then have "find_ie (ie_matches 0xdd (Some p2p_oui)) ?es 0 = Some (length (ies_of es1), 4 + length d)"
    using assms(3) by (simp add: ie_matches_def)
  then show ?thesis
    unfolding rtw_get_p2p_ie_def p2p_ie_loop_nat [OF assms(4)]
    using get_ie_ex_loop_find [OF wf, of "[]" rest] by simp
qed

definition p2p_element :: "(u8 \<times> bytes) list \<Rightarrow> element" where
  "p2p_element as = (0xdd, p2p_oui @ p2p.attrs_bytes as)"

lemma ies_of_p2p_element:
  "ies_of (p2p_element as # es) = attr_element p2p_oui (of_nat (4 + length (p2p.attrs_bytes as))) (p2p.attrs_bytes as) @ ies_of es"
  by (simp add: p2p_element_def attr_element_def)

lemma sint_u32_small: "n < 2 ^ 31 \<Longrightarrow> sint (of_nat n :: u32) = int n"
  by (simp add: signed_of_nat signed_take_bit_int_eq_self)

lemma unat_u32_small: "n < 2 ^ 32 \<Longrightarrow> unat (of_nat n :: u32) = n"
  unfolding unsigned_of_nat by (simp add: take_bit_nat_eq_self)

lemma bssid_remove_p2p_attr:
  assumes "length fixed = 12" "wf_ies (es1 @ p2p_element as # es2)" "oui_fits 0xdd (Some p2p_oui) (es1 @ es2)"
    and "\<forall>e \<in> set es1. \<not> ie_matches 0xdd (Some p2p_oui) e"
    and "length (ies_of (es1 @ p2p_element as # es2)) \<le> MAX_IE_SZ"
  shows "rtw_WLAN_BSSID_EX_remove_p2p_attr (fixed @ ies_of (es1 @ p2p_element as # es2) @ pad)
      (of_nat (12 + length (ies_of (es1 @ p2p_element as # es2)))) i
    = (let keep = filter (\<lambda>a. fst a \<noteq> i) as; k = length (p2p.attrs_bytes as) - length (p2p.attrs_bytes keep)
       in ended (fixed @ ies_of (es1 @ p2p_element keep # es2) @ replicate k 0 @ pad,
            of_nat (12 + length (ies_of (es1 @ p2p_element keep # es2)))))"
proof -
  let ?keep = "filter (\<lambda>a. fst a \<noteq> i) as" and ?A = "p2p.attrs_bytes as"
  let ?K = "p2p.attrs_bytes ?keep" and ?L = "length (ies_of (es1 @ p2p_element as # es2))"
  let ?k = "length ?A - length ?K" and ?E = "ies_of es1" and ?F = "ies_of es2"
  have lens: "?L = length ?E + 6 + length ?A + length ?F" by (simp add: ies_of_p2p_element length_attr_element)
  have a: "length ?A < 252" "?L \<le> 768" using assms(2,5) by (simp_all add: p2p_element_def MAX_IE_SZ_def)
  have wf: "p2p.wf_attrs as"
    unfolding p2p.wf_attrs_def
  proof
    fix x assume "x \<in> set as"
    then have "length (p2p.attr_bytes x) \<le> length ?A"
      by (auto simp: p2p.attrs_bytes_def dest!: split_list)
    then show "length (snd x) < 65533" using a by (simp add: p2p.attr_bytes_def)
  qed
  have len12: "(of_nat (12 + ?L) - 12 :: u32) = of_nat ?L" by simp
  have s: "sint (of_nat (12 + ?L) - 12 :: u32) = int ?L" unfolding len12 by (rule sint_u32_small) (use a in simp)
  have get: "rtw_get_p2p_ie (drop 12 (fixed @ ies_of (es1 @ p2p_element as # es2) @ pad)) (int ?L) None
      = Some (Some (length ?E, 6 + length ?A), None)"
    using p2p_ie_found [of es1 ?A es2 pad] assms by (simp add: p2p_element_def)
  have off: "drop (12 + length ?E) (fixed @ ies_of (es1 @ p2p_element as # es2) @ pad)
      = attr_element p2p_oui (of_nat (4 + length ?A)) ?A @ ?F @ pad"
    "take (12 + length ?E) (fixed @ ies_of (es1 @ p2p_element as # es2) @ pad) = fixed @ ?E"
    using assms(1) by (simp_all add: ies_of_p2p_element)
  note rem = p2p_attr_remove_element [OF wf, where l = "of_nat (4 + length ?A)" and t = "?F @ pad" and i = i, unfolded Let_def]
  have kle: "length ?K \<le> length ?A" using rem a by simp
  have l: "(of_nat (4 + length ?A) - of_nat ?k :: u8) = of_nat (4 + length ?K)"
    using kle by (simp add: of_nat_diff)
  have rem2: "rtw_p2p_attr_remove (attr_element p2p_oui (of_nat (4 + length ?A)) ?A @ ?F @ pad) (6 + length ?A) i
      = ended (attr_element p2p_oui (of_nat (4 + length ?K)) ?K @ replicate ?k 0 @ ?F @ pad, 6 + length ?K)"
    using rem a unfolding l by simp
  let ?H = "fixed @ ?E @ attr_element p2p_oui (of_nat (4 + length ?K)) ?K"
  have h: "length ?H = 12 + length ?E + (6 + length ?K)" using assms(1) by (simp add: length_attr_element)
  show ?thesis
  proof (cases "?k = 0")
    case True
    then have "length ?K = length ?A" using kle by simp
    then show ?thesis
      unfolding rtw_WLAN_BSSID_EX_remove_p2p_attr_def s get
      unfolding off rem2 Let_def run_bind_simps prod.case option.case
      by (simp add: ies_of_p2p_element length_attr_element)
  next
    case False
    have ne: "6 + length ?K \<noteq> 6 + length ?A" using False by simp
    have "(of_nat (12 + ?L) - of_nat (12 + length ?E + (6 + length ?A)) :: u32) = of_nat (length ?F)"
      unfolding lens by simp
    then have r: "unat (of_nat (12 + ?L) - of_nat (12 + length ?E + (6 + length ?A)) :: u32) = length ?F"
      using a unat_u32_small [of "length ?F"] unfolding lens by simp
    have z: "?H @ replicate ?k 0 @ ?F @ pad = (?H @ replicate ?k 0) @ ?F @ pad" by simp
    have b: "rdn (?H @ replicate ?k 0 @ ?F @ pad) (12 + length ?E + (6 + length ?A)) (length ?F) = Some ?F"
      unfolding z by (rule rdn_append) (use h kle in simp_all)
    let ?m = "replicate ?k 0 @ ?F"
    have c: "wrn (?H @ replicate ?k 0 @ ?F @ pad) (12 + length ?E + (6 + length ?K)) ?F = Some (?H @ ?F @ drop (length ?F) ?m @ pad)"
      using wrn_append [of "12 + length ?E + (6 + length ?K)" ?H ?F "take (length ?F) ?m" "drop (length ?F) ?m @ pad"] h
      unfolding append.assoc [symmetric, of "take (length ?F) ?m"] append_take_drop_id by simp
    have d: "wrn (?H @ ?F @ drop (length ?F) ?m @ pad) (12 + length ?E + (6 + length ?K) + length ?F) (replicate ?k 0)
        = Some (?H @ ?F @ replicate ?k 0 @ pad)"
      using wrn_append [of "12 + length ?E + (6 + length ?K) + length ?F" "?H @ ?F" "replicate ?k 0" "drop (length ?F) ?m" pad] h by simp
    have k6: "6 + length ?A - (6 + length ?K) = ?k" by simp
    have e: "(of_nat (12 + ?L) - of_nat ?k :: u32) = of_nat (12 + length (ies_of (es1 @ p2p_element ?keep # es2)))"
      unfolding lens using kle by (simp add: ies_of_p2p_element length_attr_element of_nat_diff)
    have H: "fixed @ ies_of (es1 @ p2p_element ?keep # es2) @ replicate ?k 0 @ pad = ?H @ ?F @ replicate ?k 0 @ pad"
      by (simp add: ies_of_p2p_element)
    have pre: "(fixed @ ?E) @ attr_element p2p_oui (of_nat (4 + length ?K)) ?K @ replicate ?k 0 @ ?F @ pad
        = ?H @ replicate ?k 0 @ ?F @ pad" by simp
    show ?thesis
      unfolding rtw_WLAN_BSSID_EX_remove_p2p_attr_def s get Let_def run_bind_simps prod.case option.case off rem2 pre r
        if_not_P [OF ne] b c k6 d e H ..
  qed
qed

section \<open>Walks that never end and copies that never fit\<close>

text \<open>The length with the header is zero in 16 bits.\<close>

lemma wps_walk_stuck:
  assumes "wps.wf_attrs as" "\<forall>a \<in> set as. fst a \<noteq> i" "j \<noteq> i" "6 + length (wps.attrs_bytes as) < ielen"
  shows "rtw_get_wps_attr (attr_element wps_oui l (wps.attrs_bytes as) @ be16 j @ be16 0xFFFC @ rest) ielen i d = None"
proof -
  let ?ie = "attr_element wps_oui l [] @ wps.attrs_bytes as @ be16 j @ be16 0xFFFC @ rest"
  have h: "length (attr_element wps_oui l [] @ wps.attrs_bytes as) = 6 + length (wps.attrs_bytes as)"
    by (simp add: length_attr_element)
  have "RTW_GET_BE16 ?ie (6 + length (wps.attrs_bytes as)) = Some j"
    using get_be16 [OF h [symmetric], of j] by simp
  moreover have "RTW_GET_BE16 ?ie (6 + length (wps.attrs_bytes as) + 2) = Some 0xFFFC"
    using get_be16 [of "6 + length (wps.attrs_bytes as) + 2" "attr_element wps_oui l [] @ wps.attrs_bytes as @ be16 j" "0xFFFC"]
    by (simp add: length_attr_element be16_def)
  ultimately have "wps_attr_hdr ?ie (6 + length (wps.attrs_bytes as)) = Some (j, 0)" by (simp add: wps_attr_hdr_def)
  then have "attr_loop wps_attr_hdr ?ie ielen i 6 = None"
    by (intro wps.walk_stuck [OF assms(1,2) _ assms(4) _ assms(3)]) (simp_all add: length_attr_element)
  then show ?thesis
    using attr_search_element [OF oui_length(1), of wps_attr_hdr l "wps.attrs_bytes as"]
    by (simp add: rtw_get_wps_attr_def attr_element_def)
qed

lemma p2p_walk_stuck:
  assumes "p2p.wf_attrs as" "\<forall>a \<in> set as. fst a \<noteq> i" "j \<noteq> i" "6 + length (p2p.attrs_bytes as) < ielen"
  shows "rtw_get_p2p_attr (attr_element p2p_oui l (p2p.attrs_bytes as) @ j # le16_bytes 0xFFFD @ rest) ielen i d = None"
proof -
  let ?ie = "attr_element p2p_oui l [] @ p2p.attrs_bytes as @ j # le16_bytes 0xFFFD @ rest"
  have "RTW_GET_LE16 ?ie (6 + length (p2p.attrs_bytes as) + 1) = Some 0xFFFD"
    using get_le16 [of "6 + length (p2p.attrs_bytes as) + 1" "attr_element p2p_oui l [] @ p2p.attrs_bytes as @ [j]" "0xFFFD"]
    by (simp add: length_attr_element)
  then have "p2p_attr_hdr ?ie (6 + length (p2p.attrs_bytes as)) = Some (j, 0)"
    by (simp add: p2p_attr_hdr_def rd_def nth_append length_attr_element)
  then have "attr_loop p2p_attr_hdr ?ie ielen i 6 = None"
    by (intro p2p.walk_stuck [OF assms(1,2) _ assms(4) _ assms(3)]) (simp_all add: length_attr_element)
  then show ?thesis
    using attr_search_element [OF oui_length(2), of p2p_attr_hdr l "p2p.attrs_bytes as"]
    by (simp add: rtw_get_p2p_attr_def attr_element_def)
qed

text \<open>The WFD walk always advances.\<close>

lemma attr_loop_ends:
  assumes "\<And>p i n. hdr ie p = Some (i, n) \<Longrightarrow> 0 < n"
  shows "attr_loop hdr ie ielen t p \<noteq> None"
proof (induction "ielen - p" arbitrary: p rule: less_induct)
  case less
  show ?case
  proof (cases "p < ielen \<and> hdr ie p \<noteq> None")
    case True
    then obtain i n where h: "hdr ie p = Some (i, n)" by auto
    then have "ielen - (p + n) < ielen - p" using assms True by fastforce
    then show ?thesis using less [of "p + n"] True h by (subst attr_loop.simps) simp
  next
    case False
    then show ?thesis by (subst attr_loop.simps) (cases "hdr ie p", auto)
  qed
qed

lemma rtw_get_wfd_attr_content_ends: "rtw_get_wfd_attr_content ie ielen i d \<noteq> None"
proof -
  have "attr_loop wfd_attr_hdr ie ielen i 6 \<noteq> None"
    by (rule attr_loop_ends) (auto simp: wfd_attr_hdr_def split: Option.bind_splits)
  then have "attr_search wfd_oui wfd_attr_hdr ie ielen i \<noteq> None"
    by (cases "rd ie 0"; cases "rdn ie 2 4") (auto simp: attr_search_def ended_def)
  then show ?thesis
    by (auto simp: rtw_get_wfd_attr_content_def run_bind_def ended_def split: option.splits)
qed

text \<open>The content is copied whatever the size of its destination.\<close>

lemma wps_content_too_long:
  assumes "wps.wf_attrs as" "map_of as i = Some c" "length d < length c"
  shows "rtw_get_wps_attr_content (attr_element wps_oui l (wps.attrs_bytes as) @ rest)
    (6 + length (wps.attrs_bytes as)) i (Some d) = Some None"
proof -
  obtain q pre post where f: "wps.attr_at i as 6 = Some (q, length c + 4)"
    by (rule wps.found_in_place [OF oui_length(1) assms(2)])
  have "length c < 65532" using assms(1) map_of_SomeD [OF assms(2)] by (auto simp: wps.wf_attrs_def)
  then have "unat (of_nat (length c) :: u32) = length c" by (intro unat_u32_small) simp
  then show ?thesis
    using copy_out_fault [OF assms(3)] f
    by (simp add: rtw_get_wps_attr_content_def rtw_get_wps_attr_def wps.search_element [OF oui_length(1) assms(1)])
qed

section \<open>Merged elements\<close>

definition p2p_payload :: "element list \<Rightarrow> bytes" where
  "p2p_payload es = concat (map (\<lambda>e. if ie_matches 0xdd (Some p2p_oui) e then drop 4 (snd e) else []) es)"

lemma p2p_payload_simps [simp]:
  "p2p_payload [] = []"
  "p2p_payload (e # es) = (if ie_matches 0xdd (Some p2p_oui) e then drop 4 (snd e) else []) @ p2p_payload es"
  by (simp_all add: p2p_payload_def)

lemma read_element:
  assumes "length d < 256" "e = 0xdd \<longrightarrow> 4 \<le> length d"
  shows "rd (p @ e # of_nat (length d) # d @ t) (length p) = Some e"
    "rd (p @ e # of_nat (length d) # d @ t) (length p + 1) = Some (of_nat (length d))"
    "e = 0xdd \<Longrightarrow> rdn (p @ e # of_nat (length d) # d @ t) (length p + 2) 4 = Some (take 4 d)"
    "e = 0xdd \<Longrightarrow> rdn (p @ e # of_nat (length d) # d @ t) (length p + 6) (length d - 4) = Some (drop 4 d)"
  using assms by (simp_all add: rd_def nth_append rdn_def)

lemma p2p_merged_len_loop_ies:
  "wf_ies es \<Longrightarrow> oui_fits 0xdd (Some p2p_oui) es \<Longrightarrow>
    p2p_merged_len_loop (p @ ies_of es @ t) (length p + length (ies_of es)) (length p) len = Some (len + int (length (p2p_payload es)))"
proof (induction es arbitrary: p len)
  case Nil
  then show ?case by (subst p2p_merged_len_loop.simps) simp
next
  case (Cons x es)
  obtain e d where x: "x = (e, d)" by (cases x)
  have d: "length d < 256" "e = 0xdd \<longrightarrow> 4 \<le> length d" using Cons.prems by (simp_all add: x)
  let ?p = "p @ e # of_nat (length d) # d"
  have ih: "p2p_merged_len_loop (?p @ ies_of es @ t) (length ?p + length (ies_of es)) (length ?p) len'
      = Some (len' + int (length (p2p_payload es)))" for len'
    using Cons.IH [of ?p len'] Cons.prems by (simp add: x)
  show ?case
    by (subst p2p_merged_len_loop.simps)
      (use ih read_element [OF d, of p "ies_of es @ t"] d in
        \<open>auto simp: x unat_length_byte ie_matches_def add.assoc of_nat_diff\<close>)
qed

lemma p2p_merge_loop_ies:
  "wf_ies es \<Longrightarrow> oui_fits 0xdd (Some p2p_oui) es \<Longrightarrow> length (p2p_payload es) \<le> length room \<Longrightarrow>
    p2p_merge_loop (p @ ies_of es @ t) (length p + length (ies_of es)) (length p) (h @ room) (length h) len
      = Some (h @ p2p_payload es @ drop (length (p2p_payload es)) room, len + of_nat (length (p2p_payload es)))"
proof (induction es arbitrary: p h room len)
  case Nil
  then show ?case by (subst p2p_merge_loop.simps) simp
next
  case (Cons x es)
  obtain e d where x: "x = (e, d)" by (cases x)
  have d: "length d < 256" "e = 0xdd \<longrightarrow> 4 \<le> length d" using Cons.prems by (simp_all add: x)
  let ?p = "p @ e # of_nat (length d) # d"
  note rds = read_element [OF d, of p "ies_of es @ t"]
  show ?case
  proof (cases "ie_matches 0xdd (Some p2p_oui) x")
    case True
    let ?c = "drop 4 d"
    have e: "e = 0xdd" "take 4 d = p2p_oui" using True by (simp_all add: x ie_matches_def)
    have room: "length ?c \<le> length room" "length (p2p_payload es) \<le> length (drop (length ?c) room)"
      using Cons.prems(3) True by (simp_all add: x)
    have w: "wrn (h @ room) (length h) ?c = Some ((h @ ?c) @ drop (length ?c) room)"
      using wrn_here [OF room(1), of h] by simp
    have "p2p_merge_loop (?p @ ies_of es @ t) (length ?p + length (ies_of es)) (length ?p) ((h @ ?c) @ drop (length ?c) room) (length (h @ ?c)) (len + (of_nat (length d) - 4))
        = Some ((h @ ?c) @ p2p_payload es @ drop (length (p2p_payload es)) (drop (length ?c) room), len + (of_nat (length d) - 4) + of_nat (length (p2p_payload es)))"
      using Cons.IH [of "drop (length ?c) room" ?p "h @ ?c"] Cons.prems room(2) by (simp add: x)
    then show ?thesis
      by (subst p2p_merge_loop.simps)
        (use rds w e d True in \<open>auto simp: x unat_length_byte of_nat_diff algebra_simps\<close>)
  next
    case False
    have "p2p_merge_loop (?p @ ies_of es @ t) (length ?p + length (ies_of es)) (length ?p) (h @ room) (length h) len
        = Some (h @ p2p_payload es @ drop (length (p2p_payload es)) room, len + of_nat (length (p2p_payload es)))"
      using Cons.IH [of room ?p h len] Cons.prems False by (simp add: x)
    then show ?thesis
      by (subst p2p_merge_loop.simps)
        (use rds d False in \<open>auto simp: x unat_length_byte ie_matches_def add.assoc\<close>)
  qed
qed

lemma rtw_p2p_merge_ies_payload:
  assumes "wf_ies es" "oui_fits 0xdd (Some p2p_oui) es" "6 + length (p2p_payload es) \<le> length d"
  shows "rtw_p2p_merge_ies (ies_of es @ t) (length (ies_of es)) (Some d)
    = Some (Some (attr_element p2p_oui 0 (p2p_payload es) @ drop (6 + length (p2p_payload es)) d),
        unat (of_nat (length (p2p_payload es)) :: u8) + 4)"
proof -
  have w: "wrn d 0 ([0xDD, 0x00] @ p2p_oui) = Some (([0xDD, 0x00] @ p2p_oui) @ drop 6 d)"
    using wrn_here [of "[0xDD, 0x00] @ p2p_oui" d "[]"] assms(3) by simp
  have "p2p_merge_loop (ies_of es @ t) (length (ies_of es)) 0 (([0xDD, 0x00] @ p2p_oui) @ drop 6 d) 6 0
      = Some (([0xDD, 0x00] @ p2p_oui) @ p2p_payload es @ drop (length (p2p_payload es)) (drop 6 d), 0 + of_nat (length (p2p_payload es)))"
    using p2p_merge_loop_ies [OF assms(1,2), of "drop 6 d" "[]" t "[0xDD, 0x00] @ p2p_oui" 0] assms(3) by simp
  then show ?thesis unfolding rtw_p2p_merge_ies_def option.case w by (simp add: attr_element_def add.commute)
qed

lemma length_be16: "length (be16 v) = 2"
  by (simp add: be16_def)

lemma find_ie_first:
  "\<forall>u \<in> set us. \<not> P u \<Longrightarrow> P (e, x) \<Longrightarrow> find_ie P (us @ (e, x) # vs) off = Some (off + length (ies_of us), length x)"
proof (induction us arbitrary: off)
  case (Cons u us)
  then show ?case by (cases u) simp
qed simp

lemma merged_len_ies:
  assumes "wf_ies es" "oui_fits 0xdd (Some p2p_oui) es"
  shows "rtw_get_p2p_merged_ies_len (ies_of es @ t) (length (ies_of es)) = Some (of_nat (length (p2p_payload es) + 4))"
  using p2p_merged_len_loop_ies [OF assms, of "[]" t 0] by (simp add: rtw_get_p2p_merged_ies_len_def)

lemma wps_ie_found:
  assumes "wf_ies (es1 @ (0xdd, wps_oui @ c) # es2)" "oui_fits 0xdd (Some wps_oui) (es1 @ es2)"
    and "\<forall>e \<in> set es1. \<not> ie_matches 0xdd (Some wps_oui) e"
  shows "rtw_get_wps_ie (ies_of (es1 @ (0xdd, wps_oui @ c) # es2) @ rest) (length (ies_of (es1 @ (0xdd, wps_oui @ c) # es2))) None
    = Some (Some (length (ies_of es1), 6 + length c), None)"
proof -
  have o: "oui_fits 0xdd (Some wps_oui) (es1 @ (0xdd, wps_oui @ c) # es2)" using assms(2) by simp
  have "find_ie (ie_matches 0xdd (Some wps_oui)) (es1 @ (0xdd, wps_oui @ c) # es2) 0 = Some (length (ies_of es1), 4 + length c)"
    using find_ie_first [where us = es1 and P = "ie_matches 0xdd (Some wps_oui)" and e = "0xdd" and x = "wps_oui @ c"
        and vs = es2 and off = 0] assms(3) by (simp add: ie_matches_def)
  then show ?thesis
    using get_ie_ex_loop_find [OF assms(1) o, of "[]" rest]
    unfolding rtw_get_wps_ie_def vendor_ie_loop_eq [OF oui_length(1)] by simp
qed

section \<open>Properties\<close>

text \<open>A WPS attribute of a beacon: from the elements behind the 12 fixed octets
  \<open>rtw_get_wps_ie_from_scan_queue\<close> returns the first WPS element, and \<open>rtw_get_wps_attr_content\<close> on it
  copies the content of the first attribute with the id asked for, and finds nothing when there is none.\<close>

theorem wps_attribute_of_beacon:
  assumes "length fixed = 12" "wf_ies (es1 @ (0xdd, wps_oui @ wps.attrs_bytes as) # es2)"
    and "oui_fits 0xdd (Some wps_oui) (es1 @ es2)" "\<forall>e \<in> set es1. \<not> ie_matches 0xdd (Some wps_oui) e"
    and "list_all (\<lambda>a. length (snd a) \<le> length d) as" "frame_type = 1 \<or> frame_type = 3"
    and "beacon = fixed @ ies_of (es1 @ (0xdd, wps_oui @ wps.attrs_bytes as) # es2)" "length beacon < 2 ^ 32"
  shows "\<exists>off len. rtw_get_wps_ie_from_scan_queue beacon (of_nat (length beacon)) None frame_type = Some (Some (off, len), None)
    \<and> map_option (map_option content_of) (rtw_get_wps_attr_content (drop off beacon) len i (Some d))
      = ended (case map_of as i of None \<Rightarrow> (None, Some d) | Some c \<Rightarrow> (Some (length c), Some (c @ drop (length c) d)))"
proof -
  let ?A = "wps.attrs_bytes as"
  let ?es = "es1 @ (0xdd, wps_oui @ ?A) # es2"
  have wf: "wps.wf_attrs as"
    unfolding wps.wf_attrs_def
  proof
    fix x assume "x \<in> set as"
    then have "length (wps.attr_bytes x) \<le> length ?A" by (auto simp: wps.attrs_bytes_def dest!: split_list)
    then show "length (snd x) < 65532" using assms(2) unfolding wps.attr_bytes_def by (simp add: length_be16)
  qed
  have e12: "(of_nat (length beacon) - 12 :: u32) = of_nat (length (ies_of ?es))" using assms(1,7) by simp
  have "unat (of_nat (length beacon) - 12 :: u32) = length (ies_of ?es)"
    unfolding e12 by (rule unat_u32_small) (use assms(7,8) in simp)
  then have q: "rtw_get_wps_ie_from_scan_queue beacon (of_nat (length beacon)) None frame_type
      = Some (Some (12 + length (ies_of es1), 6 + length ?A), None)"
  proof -
    assume u: "unat (of_nat (length beacon) - 12 :: u32) = length (ies_of ?es)"
    have "drop 12 beacon = ies_of ?es" using assms(1,7) by simp
    then show ?thesis
      unfolding rtw_get_wps_ie_from_scan_queue_def u
      using wps_ie_found [OF assms(2-4), of "[]", unfolded append_Nil2] assms(6) by auto
  qed
  have "drop (12 + length (ies_of es1)) beacon = attr_element wps_oui (of_nat (4 + length ?A)) ?A @ ies_of es2"
    using assms(1,7) by (simp add: attr_element_def)
  then show ?thesis using q wps_content_element [OF wf assms(5)] by simp
qed

theorem wps_attribute_of_beacon_witness:
  "\<exists>off len. rtw_get_wps_ie_from_scan_queue (replicate 12 7 @ ies_of [(0, [65, 66]), (0xdd, wps_oui @ wps.attrs_bytes [(0x1041, [1]), (0x1012, [0, 4])])])
       33 None 1 = Some (Some (off, len), None)
    \<and> map_option (map_option content_of) (rtw_get_wps_attr_content (drop off (replicate 12 7
        @ ies_of [(0, [65, 66]), (0xdd, wps_oui @ wps.attrs_bytes [(0x1041, [1]), (0x1012, [0, 4])])])) len 0x1012 (Some [9, 9]))
      = ended (Some 2, Some [0, 4])"
proof -
  let ?as = "[(0x1041, [1]), (0x1012, [0, 4])] :: (u16 \<times> bytes) list"
  let ?b = "replicate 12 7 @ ies_of ([(0, [65, 66])] @ (0xdd, wps_oui @ wps.attrs_bytes ?as) # [])"
  have l: "length (wps.attrs_bytes ?as) = 11" unfolding wps.attrs_bytes_simps by (simp add: length_be16)
  then have b: "length ?b = 33" by simp
  have c: "(case map_of ?as 0x1012 of None \<Rightarrow> (None, Some [9, 9])
      | Some c \<Rightarrow> (Some (length c), Some (c @ drop (length c) [9, 9]))) = (Some 2, Some [0, 4 :: u8])" by simp
  have w: "wf_ies ([(0, [65, 66])] @ (0xdd, wps_oui @ wps.attrs_bytes ?as) # [])" using l by simp
  have "\<exists>off len. rtw_get_wps_ie_from_scan_queue ?b (of_nat (length ?b)) None 1 = Some (Some (off, len), None)
    \<and> map_option (map_option content_of) (rtw_get_wps_attr_content (drop off ?b) len 0x1012 (Some [9, 9]))
      = ended (case map_of ?as 0x1012 of None \<Rightarrow> (None, Some [9, 9]) | Some c \<Rightarrow> (Some (length c), Some (c @ drop (length c) [9, 9])))"
    by (rule wps_attribute_of_beacon [OF _ w]) (use b in \<open>simp_all add: ie_matches_def\<close>)
  then show ?thesis unfolding c b by simp
qed

text \<open>Wi-Fi Direct attributes may be spread over several elements: \<open>rtw_p2p_merge_ies\<close> into a buffer of
  the size that \<open>rtw_get_p2p_merged_ies_len\<close> tells, followed by \<open>rtw_get_p2p_attr_content\<close>, finds the
  content of the first attribute with the id in the concatenated contents of the elements.\<close>

theorem p2p_merge_then_search:
  assumes "wf_ies es" "oui_fits 0xdd (Some p2p_oui) es" "p2p_payload es = p2p.attrs_bytes as" "p2p.wf_attrs as"
    and "list_all (\<lambda>a. length (snd a) \<le> length d) as" "length (p2p_payload es) < 2 ^ 31"
  shows "\<exists>n merged ret. rtw_get_p2p_merged_ies_len (ies_of es) (length (ies_of es)) = Some n
    \<and> rtw_p2p_merge_ies (ies_of es) (length (ies_of es)) (Some (replicate (unat n + 2) 0)) = Some (Some merged, ret)
    \<and> map_option (map_option content_of) (rtw_get_p2p_attr_content merged (unat n + 2) i (Some d))
      = ended (case map_of as i of None \<Rightarrow> (None, Some d) | Some c \<Rightarrow> (Some (length c), Some (c @ drop (length c) d)))"
proof -
  have n: "unat (of_nat (length (p2p_payload es) + 4) :: u32) + 2 = 6 + length (p2p_payload es)"
    using unat_u32_small [of "length (p2p_payload es) + 4"] assms(6) by simp
  have m: "rtw_p2p_merge_ies (ies_of es) (length (ies_of es)) (Some (replicate (6 + length (p2p_payload es)) 0))
      = Some (Some (attr_element p2p_oui 0 (p2p_payload es)), unat (of_nat (length (p2p_payload es)) :: u8) + 4)"
    using rtw_p2p_merge_ies_payload [OF assms(1,2), of "replicate (6 + length (p2p_payload es)) 0" "[]"] by simp
  show ?thesis
    using merged_len_ies [OF assms(1,2), of "[]"] m p2p_content_element [OF assms(4,5), of 0 "[]" i]
    by (intro exI [of _ "of_nat (length (p2p_payload es) + 4)"]) (simp only: n append_Nil2, simp add: assms(3))
qed

theorem p2p_merge_then_search_witness:
  "\<exists>n merged ret. rtw_get_p2p_merged_ies_len (ies_of [(0xdd, p2p_oui @ [2, 2]), (0, [65]), (0xdd, p2p_oui @ [0, 7, 8])])
      (length (ies_of [(0xdd, p2p_oui @ [2, 2]), (0, [65]), (0xdd, p2p_oui @ [0, 7, 8])])) = Some n
    \<and> rtw_p2p_merge_ies (ies_of [(0xdd, p2p_oui @ [2, 2]), (0, [65]), (0xdd, p2p_oui @ [0, 7, 8])])
      (length (ies_of [(0xdd, p2p_oui @ [2, 2]), (0, [65]), (0xdd, p2p_oui @ [0, 7, 8])])) (Some (replicate (unat n + 2) 0)) = Some (Some merged, ret)
    \<and> map_option (map_option content_of) (rtw_get_p2p_attr_content merged (unat n + 2) 2 (Some [9, 9])) = ended (Some 2, Some [7, 8])"
proof -
  let ?es = "[(0xdd, p2p_oui @ [2, 2]), (0, [65]), (0xdd, p2p_oui @ [0, 7, 8])] :: element list"
  have "p2p_payload ?es = p2p.attrs_bytes [(2, [7, 8])]"
    unfolding p2p.attrs_bytes_simps by (simp add: ie_matches_def le16_bytes_def p2p_oui_def)
  moreover have "p2p.wf_attrs [(2, [7, 8])]" by (simp add: p2p.wf_attrs_def)
  moreover have "length (p2p_payload ?es) < 2 ^ 31" by (simp add: ie_matches_def)
  moreover have "wf_ies ?es" "oui_fits 0xdd (Some p2p_oui) ?es" by simp_all
  moreover have "(case map_of [(2 :: u8, [7, 8])] 2 of None \<Rightarrow> (None, Some [9, 9])
      | Some c \<Rightarrow> (Some (length c), Some (c @ drop (length c) [9, 9]))) = (Some 2, Some [7, 8 :: u8])" by simp
  moreover have "list_all (\<lambda>a. length (snd a) \<le> length [9, 9 :: u8]) [(2 :: u8, [7, 8 :: u8])]" by simp
  ultimately show ?thesis
    using p2p_merge_then_search [of ?es "[(2, [7, 8])]" "[9, 9]" 2] by (simp only:)
qed

text \<open>C32. An attribute whose data length is 0xFFFC in a WPS element, or 0xFFFD in a Wi-Fi Direct element,
  and whose id is not the one asked for, makes the search loop forever: its length with the header is zero in
  16 bits. Such attributes can be in any received beacon. The Wi-Fi Display search always ends.\<close>

theorem attribute_walks_hang:
  assumes "wps.wf_attrs ws" "\<forall>a \<in> set ws. fst a \<noteq> i" "j \<noteq> i" "6 + length (wps.attrs_bytes ws) < wlen"
    and "p2p.wf_attrs ps" "\<forall>a \<in> set ps. fst a \<noteq> i'" "j' \<noteq> i'" "6 + length (p2p.attrs_bytes ps) < plen"
  shows "rtw_get_wps_attr (attr_element wps_oui l (wps.attrs_bytes ws) @ be16 j @ be16 0xFFFC @ rest) wlen i d = None
    \<and> rtw_get_p2p_attr (attr_element p2p_oui l (p2p.attrs_bytes ps) @ j' # le16_bytes 0xFFFD @ rest) plen i' d = None
    \<and> rtw_get_wfd_attr_content wfd_ie wfd_ielen i' d \<noteq> None"
  using wps_walk_stuck [OF assms(1-4)] p2p_walk_stuck [OF assms(5-8)] rtw_get_wfd_attr_content_ends by blast

theorem attribute_walks_hang_witness:
  "rtw_get_wps_attr (attr_element wps_oui 8 (wps.attrs_bytes []) @ be16 0x1049 @ be16 0xFFFC @ []) 10 0x1041 None = None
    \<and> rtw_get_p2p_attr (attr_element p2p_oui 8 (p2p.attrs_bytes []) @ 0 # le16_bytes 0xFFFD @ []) 9 2 None = None
    \<and> rtw_get_wfd_attr_content [] 0 2 None \<noteq> None"
  by (rule attribute_walks_hang) (simp_all add: wps.wf_attrs_def p2p.wf_attrs_def wps.attrs_bytes_simps p2p.attrs_bytes_simps)

text \<open>The content of a WPS attribute is copied with the length that the frame gives, whatever the size
  of the destination: a longer one is written past its end.\<close>

theorem rtw_get_wps_attr_content_overflows:
  assumes "wps.wf_attrs as" "map_of as i = Some c" "length d < length c"
  shows "rtw_get_wps_attr_content (attr_element wps_oui l (wps.attrs_bytes as) @ rest)
    (6 + length (wps.attrs_bytes as)) i (Some d) = Some None"
  by (rule wps_content_too_long [OF assms])

theorem rtw_get_wps_attr_content_overflows_witness:
  "rtw_get_wps_attr_content (attr_element wps_oui 10 (wps.attrs_bytes [(0x1041, [1, 2])]) @ [])
    (6 + length (wps.attrs_bytes [(0x1041, [1, 2])])) 0x1041 (Some [0]) = Some None"
  by (rule rtw_get_wps_attr_content_overflows [where c = "[1, 2]"]) (simp_all add: wps.wf_attrs_def)

text \<open>Removing a Wi-Fi Direct attribute from a network removes every attribute with the id from its first
  P2P element, corrects the length of the element and of the whole list, keeps all other elements and
  attributes in order and clears the bytes behind.\<close>

theorem rtw_WLAN_BSSID_EX_remove_p2p_attr_filters:
  assumes "length fixed = 12" "wf_ies (es1 @ p2p_element as # es2)" "oui_fits 0xdd (Some p2p_oui) (es1 @ es2)"
    and "\<forall>e \<in> set es1. \<not> ie_matches 0xdd (Some p2p_oui) e"
    and "length (ies_of (es1 @ p2p_element as # es2)) \<le> MAX_IE_SZ"
  shows "rtw_WLAN_BSSID_EX_remove_p2p_attr (fixed @ ies_of (es1 @ p2p_element as # es2) @ pad)
      (of_nat (12 + length (ies_of (es1 @ p2p_element as # es2)))) i
    = (let keep = filter (\<lambda>a. fst a \<noteq> i) as; k = length (p2p.attrs_bytes as) - length (p2p.attrs_bytes keep)
       in ended (fixed @ ies_of (es1 @ p2p_element keep # es2) @ replicate k 0 @ pad,
            of_nat (12 + length (ies_of (es1 @ p2p_element keep # es2)))))"
  by (rule bssid_remove_p2p_attr [OF assms])

theorem rtw_WLAN_BSSID_EX_remove_p2p_attr_filters_witness:
  "rtw_WLAN_BSSID_EX_remove_p2p_attr (replicate 12 0 @ ies_of ([(0, [65])] @ p2p_element [(12, [1]), (2, [0x25, 0])] # []) @ [])
      (of_nat (12 + length (ies_of ([(0, [65])] @ p2p_element [(12, [1]), (2, [0x25, 0])] # [])))) 12
    = (let keep = filter (\<lambda>a. fst a \<noteq> 12) [(12, [1]), (2, [0x25, 0])];
           k = length (p2p.attrs_bytes [(12, [1]), (2, [0x25, 0])]) - length (p2p.attrs_bytes keep)
       in ended (replicate 12 0 @ ies_of ([(0, [65])] @ p2p_element keep # []) @ replicate k 0 @ [],
            of_nat (12 + length (ies_of ([(0, [65])] @ p2p_element keep # [])))))"
  by (rule rtw_WLAN_BSSID_EX_remove_p2p_attr_filters)
    (simp_all add: p2p_element_def p2p.attrs_bytes_simps ie_matches_def MAX_IE_SZ_def)

end
