(* ===== verification/Rx_Reorder.thy ===== *)
theory Rx_Reorder
  imports Bytes "HOL-Library.Multiset"
begin

text \<open>
  The receive reordering of \<^verbatim>\<open>core/rtw_recv.c\<close> for block-acknowledgement sessions:
  \<open>check_indicate_seq\<close>, \<open>enqueue_reorder_recvframe\<close>, \<open>recv_indicatepkts_in_order\<close>,
  \<open>recv_indicatepkt_reorder\<close> and the timeout handler, over \<open>struct recv_reorder_ctrl\<close>.

  What a handler does to the outside is the list of its events. \<open>amsdu_to_msdu\<close> and the upper
  layer are not modelled: whether the former succeeds is the argument \<open>amsdu_ok\<close>. \<open>running\<close> is
  \<open>bDriverStopped == _FALSE && bSurpriseRemoved == _FALSE\<close>.
\<close>

section \<open>State and operations\<close>

text \<open>A frame: sequence number, A-MSDU flag and QoS flag of \<open>rx_pkt_attrib\<close>, and its identity.\<close>

record recv_frame =
  seq_num :: u16
  amsdu :: u8
  qos :: u8
  frame_id :: nat

record recv_reorder_ctrl =
  enable :: bool
  indicate_seq :: u16
  wsize_b :: u8
  pending :: "recv_frame list"
  dbg_drop :: u64
  dbg_forced :: u64
  dbg_loss :: u64
  dbg_shift :: u64

datatype rx_event =
    Indicatepkt recv_frame
  | Amsdu_to_msdu recv_frame
  | Free_recvframe recv_frame
  | Set_timer
  | Cancel_timer

text \<open>The operands are promoted to \<open>int\<close> before the subtraction.\<close>

definition SN_LESS :: "u16 \<Rightarrow> u16 \<Rightarrow> bool" where
  "SN_LESS a b \<longleftrightarrow> (uint a - uint b) AND 0x800 \<noteq> 0"

definition SN_EQUAL :: "u16 \<Rightarrow> u16 \<Rightarrow> bool" where
  "SN_EQUAL a b \<longleftrightarrow> a = b"

definition check_indicate_seq :: "recv_reorder_ctrl \<Rightarrow> u16 \<Rightarrow> bool \<times> recv_reorder_ctrl" where
  "check_indicate_seq c seq =
     (let wsize = uint (wsize_b c);
          wend = (of_int (uint (indicate_seq c) + wsize - 1) :: u16) AND 0xFFF;
          c = (if indicate_seq c = 0xFFFF then c\<lparr>indicate_seq := seq\<rparr> else c)
      in if SN_LESS seq (indicate_seq c) then (False, c)
         else if SN_EQUAL seq (indicate_seq c)
           then (True, c\<lparr>indicate_seq := (indicate_seq c + 1) AND 0xFFF\<rparr>)
         else if SN_LESS wend seq
           then (True, c\<lparr>indicate_seq :=
               of_int (if wsize - 1 \<le> uint seq then uint seq + 1 - wsize
                       else 0xFFF - (wsize - (uint seq + 1)) + 1),
             dbg_shift := dbg_shift c + 1\<rparr>)
         else (True, c))"

text \<open>\<^term>\<open>None\<close> is the duplicate.\<close>

fun enqueue_reorder_recvframe :: "recv_frame list \<Rightarrow> recv_frame \<Rightarrow> recv_frame list option" where
  "enqueue_reorder_recvframe [] f = Some [f]"
| "enqueue_reorder_recvframe (p # ps) f =
     (if SN_LESS (seq_num p) (seq_num f)
      then (case enqueue_reorder_recvframe ps f of None \<Rightarrow> None | Some q \<Rightarrow> Some (p # q))
      else if SN_EQUAL (seq_num p) (seq_num f) then None
      else Some (f # p # ps))"

definition recv_indicatepkts_pkt_loss_cnt :: "u64 \<Rightarrow> u64 \<Rightarrow> u64 \<Rightarrow> u64" where
  "recv_indicatepkts_pkt_loss_cnt loss prev_seq current_seq =
     (if current_seq < prev_seq then loss + (4096 + current_seq - prev_seq)
      else loss + (current_seq - prev_seq))"

definition indicate_events :: "bool \<Rightarrow> (recv_frame \<Rightarrow> bool) \<Rightarrow> recv_frame \<Rightarrow> rx_event list" where
  "indicate_events running amsdu_ok f =
     (if amsdu f = 0 then if running then [Indicatepkt f] else []
      else if amsdu f = 1
        then Amsdu_to_msdu f # (if amsdu_ok f then [] else [Free_recvframe f])
      else [])"

text \<open>The loop of \<open>recv_indicatepkts_in_order\<close>: window start, queue, events and \<open>bPktInBuf\<close>.\<close>

fun in_order_loop ::
  "bool \<Rightarrow> (recv_frame \<Rightarrow> bool) \<Rightarrow> u16 \<Rightarrow> recv_frame list \<Rightarrow> bool
    \<Rightarrow> u16 \<times> recv_frame list \<times> rx_event list \<times> bool" where
  "in_order_loop running amsdu_ok ind [] bPktInBuf = (ind, [], [], bPktInBuf)"
| "in_order_loop running amsdu_ok ind (f # fs) bPktInBuf =
     (if \<not> SN_LESS ind (seq_num f) then
        (let ind = (if SN_EQUAL ind (seq_num f) then (ind + 1) AND 0xFFF else ind);
             (ind, fs, evs, b) = in_order_loop running amsdu_ok ind fs False
         in (ind, fs, indicate_events running amsdu_ok f @ evs, b))
      else (ind, f # fs, [], True))"

definition recv_indicatepkts_in_order ::
  "bool \<Rightarrow> (recv_frame \<Rightarrow> bool) \<Rightarrow> recv_reorder_ctrl \<Rightarrow> bool \<Rightarrow> bool \<times> recv_reorder_ctrl \<times> rx_event list" where
  "recv_indicatepkts_in_order running amsdu_ok c bforced =
     (let c = (if bforced then c\<lparr>dbg_forced := dbg_forced c + 1\<rparr> else c)
      in if bforced \<and> pending c = [] then (True, c, [])
         else
           (let c = (if bforced then
                 c\<lparr>dbg_loss := recv_indicatepkts_pkt_loss_cnt (dbg_loss c) (ucast (indicate_seq c))
                     (ucast (seq_num (hd (pending c)))),
                   indicate_seq := seq_num (hd (pending c))\<rparr> else c);
                (ind, fs, evs, b) = in_order_loop running amsdu_ok (indicate_seq c) (pending c) False
            in (b, c\<lparr>indicate_seq := ind, pending := fs\<rparr>, evs)))"

text \<open>The first component is \<open>ret == _SUCCESS\<close>. The header conversion \<open>wlanhdr_to_ethhdr\<close>, whose
  result the code ignores, is part of what the upper layer gets and not modelled.\<close>

definition recv_indicatepkt_reorder ::
  "bool \<Rightarrow> (recv_frame \<Rightarrow> bool) \<Rightarrow> recv_frame \<Rightarrow> recv_reorder_ctrl \<Rightarrow> bool \<times> recv_reorder_ctrl \<times> rx_event list" where
  "recv_indicatepkt_reorder running amsdu_ok f c =
     (if amsdu f = 0 \<and> qos f \<noteq> 1 then (if running then (True, c, [Indicatepkt f]) else (False, c, []))
      else if amsdu f = 0 \<and> \<not> enable c
        then (True, c\<lparr>indicate_seq := (seq_num f + 1) mod 4096\<rparr>, [Indicatepkt f])
      else if amsdu f = 1 \<and> \<not> enable c
        then (amsdu_ok f, c\<lparr>indicate_seq := (seq_num f + 1) mod 4096\<rparr>, [Amsdu_to_msdu f])
      else
        (let (ok, c) = check_indicate_seq c (seq_num f)
         in if \<not> ok then (False, c\<lparr>dbg_drop := dbg_drop c + 1\<rparr>, [])
            else (case enqueue_reorder_recvframe (pending c) f of
                None \<Rightarrow> (False, c, [])
              | Some q \<Rightarrow>
                  (let (b, c, evs) = recv_indicatepkts_in_order running amsdu_ok (c\<lparr>pending := q\<rparr>) False
                   in (True, c, evs @ [if b then Set_timer else Cancel_timer])))))"

definition rtw_reordering_ctrl_timeout_handler ::
  "bool \<Rightarrow> (recv_frame \<Rightarrow> bool) \<Rightarrow> recv_reorder_ctrl \<Rightarrow> recv_reorder_ctrl \<times> rx_event list" where
  "rtw_reordering_ctrl_timeout_handler running amsdu_ok c =
     (if \<not> running then (c, [])
      else (let (b, c, evs) = recv_indicatepkts_in_order running amsdu_ok c True
            in (c, evs @ (if b then [Set_timer] else []))))"

section \<open>Runs\<close>

text \<open>The frames handed on, in order.\<close>

fun handed :: "rx_event list \<Rightarrow> recv_frame list" where
  "handed [] = []"
| "handed (Indicatepkt f # es) = f # handed es"
| "handed (Amsdu_to_msdu f # es) = f # handed es"
| "handed (_ # es) = handed es"

text \<open>A session: the driver runs, reordering is enabled, and QoS frames with 12-bit sequence numbers
  arrive in any order between any number of timeouts. \<open>acc\<close> collects the frames the driver
  accepted.\<close>

inductive reorder_run ::
  "(recv_frame \<Rightarrow> bool) \<Rightarrow> recv_reorder_ctrl \<Rightarrow> rx_event list \<Rightarrow> recv_frame multiset \<Rightarrow> recv_reorder_ctrl \<Rightarrow> bool"
  for amsdu_ok :: "recv_frame \<Rightarrow> bool" and c0 :: recv_reorder_ctrl where
  start: "enable c0 \<Longrightarrow> indicate_seq c0 = 0xFFFF \<Longrightarrow> pending c0 = [] \<Longrightarrow> wsize_b c0 \<noteq> 0 \<Longrightarrow>
    reorder_run amsdu_ok c0 [] {#} c0"
| arrival: "reorder_run amsdu_ok c0 evs acc c \<Longrightarrow> seq_num f < 4096 \<Longrightarrow> qos f = 1 \<Longrightarrow> amsdu f \<le> 1 \<Longrightarrow>
    recv_indicatepkt_reorder True amsdu_ok f c = (ret, c', evs') \<Longrightarrow>
    reorder_run amsdu_ok c0 (evs @ evs') (if ret then add_mset f acc else acc) c'"
| timeout: "reorder_run amsdu_ok c0 evs acc c \<Longrightarrow>
    rtw_reordering_ctrl_timeout_handler True amsdu_ok c = (c', evs') \<Longrightarrow>
    reorder_run amsdu_ok c0 (evs @ evs') acc c'"

section \<open>Sequence numbers as integers\<close>

text \<open>The 12-bit number of an unbounded one.\<close>

definition sn :: "int \<Rightarrow> u16" where
  "sn v = of_int (v mod 4096)"

lemma uint_sn: "uint (sn v) = v mod 4096"
proof -
  have "0 \<le> v mod 4096" "v mod 4096 < 4096" by simp_all
  then show ?thesis by (simp add: sn_def uint_word_of_int)
qed

lemma sn_eq_iff: "sn v = sn w \<longleftrightarrow> v mod 4096 = w mod 4096"
  by (metis uint_sn word_uint_eq_iff)

lemma sn_near_eq: "\<bar>v - w\<bar> < 4096 \<Longrightarrow> sn v = sn w \<longleftrightarrow> v = w"
proof -
  assume a: "\<bar>v - w\<bar> < 4096"
  have "4096 dvd v - w \<longleftrightarrow> v = w"
  proof
    assume "4096 dvd v - w"
    then show "v = w" using a zdvd_not_zless [of "\<bar>v - w\<bar>" 4096] by (cases "v = w") auto
  qed simp
  then show ?thesis unfolding sn_eq_iff mod_eq_dvd_iff .
qed

lemma and_0x800: "(x AND 0x800 :: int) \<noteq> 0 \<longleftrightarrow> odd (x div 2048)"
proof -
  have "(0x800 :: int) = 2 ^ 11" by simp
  then have "x AND 0x800 \<noteq> 0 \<longleftrightarrow> bit x 11"
    by (metis and_exp_eq_0_iff_not_bit)
  then show ?thesis by (simp add: bit_iff_odd)
qed

lemma SN_LESS_sn:
  assumes "- 2048 \<le> v - w" "v - w < 2048"
  shows "SN_LESS (sn v) (sn w) \<longleftrightarrow> v < w"
proof -
  let ?k = "v div 4096 - w div 4096"
  have "v mod 4096 - w mod 4096 = (v - w) + (- 2 * ?k) * 2048"
    by (simp add: minus_div_mult_eq_mod [symmetric])
  then have d: "(v mod 4096 - w mod 4096) div 2048 = (v - w) div 2048 + (- 2 * ?k)"
    by (simp only: div_mult_self1 [of 2048])
  have "odd ((v mod 4096 - w mod 4096) div 2048) \<longleftrightarrow> odd ((v - w) div 2048)"
    unfolding d by simp
  moreover have "(v - w) div 2048 = (if v < w then - 1 else 0)"
    using assms int_div_pos_eq [of "v - w" 2048 "- 1" "v - w + 2048"] by auto
  ultimately show ?thesis
    unfolding SN_LESS_def and_0x800 uint_sn by auto
qed

lemma sn_surj: "s < 4096 \<Longrightarrow> sn (uint s) = s"
proof -
  assume "s < 4096"
  then have "uint s < 4096" by (simp add: word_less_alt)
  then have "uint s mod 4096 = uint s" by (intro mod_pos_pos_trivial) simp_all
  then show ?thesis by (simp add: sn_def)
qed

lemma uint_and_fff: "uint (x AND 0xFFF :: u16) = uint x mod 4096"
proof -
  have "(0xFFF :: u16) = mask 12" by (simp add: mask_eq_exp_minus_1)
  then have e: "x AND 0xFFF = take_bit 12 x" by (simp only: take_bit_eq_mask)
  show ?thesis unfolding e unsigned_take_bit_eq by (simp add: take_bit_eq_mod)
qed

lemma uint_of_int_mod: "uint (of_int x :: u16) mod 4096 = x mod 4096"
  by (simp add: uint_word_of_int mod_mod_cancel)

lemma mod_4096_add: "(x mod 4096 + y - z) mod 4096 = (x + y - z) mod (4096 :: int)"
  by (simp only: add_diff_eq [symmetric] mod_add_left_eq)

text \<open>The representative of a sequence number next to a window start.\<close>

lemma near_rep:
  assumes "s < 4096"
  obtains v where "s = sn v" "w - 2048 \<le> v" "v \<le> w + 2047"
proof -
  let ?m = "(uint s - w + 2048) mod 4096"
  let ?v = "w + ?m - 2048"
  have "?v mod 4096 = (?m + w - 2048) mod 4096" by (simp add: add.commute)
  then have "?v mod 4096 = uint s mod 4096" unfolding mod_4096_add by simp
  then have "sn ?v = sn (uint s)" by (simp add: sn_eq_iff)
  with assms have "s = sn ?v" by (simp add: sn_surj)
  moreover have "0 \<le> ?m" "?m < 4096" by simp_all
  ultimately show thesis by (intro that [of ?v]) linarith+
qed

lemma eq_snI: "uint x = v mod 4096 \<Longrightarrow> x = sn v"
  by (simp add: word_uint_eq_iff uint_sn)

lemma next_sn: "(sn w + 1) AND 0xFFF = sn (w + 1)"
  by (rule eq_snI) (simp add: uint_and_fff uint_word_ariths uint_sn mod_mod_cancel mod_simps)

lemma wend_sn: "(of_int (uint (sn w) + k - 1) :: u16) AND 0xFFF = sn (w + k - 1)"
  by (rule eq_snI) (simp only: uint_and_fff uint_of_int_mod uint_sn mod_4096_add)

lemma shift_sn:
  assumes "0 < k" "k < 256"
  shows "of_int (if k - 1 \<le> uint (sn v) then uint (sn v) + 1 - k
      else 0xFFF - (k - (uint (sn v) + 1)) + 1) = sn (v + 1 - k)"
proof (rule eq_snI)
  have small: "uint (of_int x :: u16) = x" if "0 \<le> x" "x < 65536" for x
    using that by (simp add: uint_word_of_int)
  let ?u = "v mod 4096"
  let ?x = "if k - 1 \<le> uint (sn v) then uint (sn v) + 1 - k else 0xFFF - (k - (uint (sn v) + 1)) + 1"
  have u: "0 \<le> ?u" "?u < 4096" by simp_all
  have x: "0 \<le> ?x" "?x < 4096" using assms u unfolding uint_sn by auto
  have "?x mod 4096 = (?u + 1 - k) mod 4096"
  proof (cases "k - 1 \<le> uint (sn v)")
    case False
    have "0xFFF - (k - (?u + 1)) + 1 = (?u + 1 - k) + 4096" by simp
    with False show ?thesis by (simp only: uint_sn if_False mod_add_self2)
  qed (simp add: uint_sn)
  also have "\<dots> = (v + 1 - k) mod 4096" by (rule mod_4096_add)
  finally have "?x = (v + 1 - k) mod 4096" using x by simp
  then show "uint (of_int ?x :: u16) = (v + 1 - k) mod 4096" using x small [of ?x] by simp
qed

section \<open>The operations on numbered frames\<close>

type_synonym nframe = "int \<times> recv_frame"

definition numbered :: "nframe list \<Rightarrow> bool" where
  "numbered ps \<longleftrightarrow> list_all (\<lambda>(v, f). seq_num f = sn v) ps"

definition increasing :: "nframe list \<Rightarrow> bool" where
  "increasing ps \<longleftrightarrow> sorted_wrt (<) (map fst ps)"

lemma numbered_simps [simp]:
  "numbered []" "numbered ((v, f) # ps) \<longleftrightarrow> seq_num f = sn v \<and> numbered ps"
  "numbered (ps @ qs) \<longleftrightarrow> numbered ps \<and> numbered qs"
  by (simp_all add: numbered_def)

lemma increasing_simps [simp]:
  "increasing []" "increasing ((v, f) # ps) \<longleftrightarrow> (\<forall>x \<in> set ps. v < fst x) \<and> increasing ps"
  by (simp_all add: increasing_def)

fun put :: "nframe \<Rightarrow> nframe list \<Rightarrow> nframe list" where
  "put x [] = [x]"
| "put x (p # ps) = (if fst p < fst x then p # put x ps else x # p # ps)"

lemma set_put: "set (put x ps) = insert x (set ps)"
  by (induction ps) auto

lemma mset_put: "mset (put x ps) = add_mset x (mset ps)"
  by (induction ps) auto

lemma increasing_put: "increasing ps \<Longrightarrow> fst x \<notin> fst ` set ps \<Longrightarrow> increasing (put x ps)"
  by (induction ps) (auto simp: increasing_def set_put)

lemma numbered_put: "numbered ((v, f) # ps) \<Longrightarrow> numbered (put (v, f) ps)"
  by (induction ps) auto

lemma put_not_Nil [simp]: "put x ps \<noteq> []"
  by (cases ps) auto

lemma enqueue_put:
  assumes "numbered ps" "seq_num f = sn v" "increasing ps" "\<forall>x \<in> set ps. \<bar>fst x - v\<bar> < 2048"
  shows "enqueue_reorder_recvframe (map snd ps) f
    = (if v \<in> fst ` set ps then None else Some (map snd (put (v, f) ps)))"
  using assms
proof (induction ps)
  case (Cons p ps)
  obtain u g where p: "p = (u, g)" by force
  have l: "SN_LESS (sn u) (sn v) \<longleftrightarrow> u < v" "sn u = sn v \<longleftrightarrow> u = v"
    using Cons.prems(4) by (simp_all add: p SN_LESS_sn sn_near_eq abs_if split: if_splits)
  show ?case
    using Cons by (auto simp: p l SN_EQUAL_def)
qed simp

fun sweep :: "int \<Rightarrow> nframe list \<Rightarrow> nframe list \<times> int \<times> nframe list" where
  "sweep w [] = ([], w, [])"
| "sweep w (p # ps) = (if w < fst p then ([], w, p # ps)
     else (let (d, w', r) = sweep (if fst p = w then w + 1 else w) ps in (p # d, w', r)))"

lemma handed_append [simp]: "handed (a @ b) = handed a @ handed b"
  by (induction a rule: handed.induct) auto

lemma handed_indicate_events: "amsdu f \<le> 1 \<Longrightarrow> handed (indicate_events True ok f) = [f]"
  using le_1_cases [of "amsdu f"] by (auto simp: indicate_events_def)

lemma in_order_loop_sweep:
  assumes "numbered ps" "increasing ps" "\<forall>x \<in> set ps. \<bar>fst x - w\<bar> < 2048"
    "\<forall>x \<in> set ps. amsdu (snd x) \<le> 1" "sweep w ps = (d, w', r)"
  shows "\<exists>evs. in_order_loop True ok (sn w) (map snd ps) b
      = (sn w', map snd r, evs, if r \<noteq> [] then True else if ps = [] then b else False)
    \<and> handed evs = map snd d"
  using assms
proof (induction ps arbitrary: w b d w' r)
  case (Cons p ps)
  obtain v f where p: "p = (v, f)" by force
  have l: "SN_LESS (sn w) (sn v) \<longleftrightarrow> w < v" "sn w = sn v \<longleftrightarrow> w = v"
    using Cons.prems(3) by (simp_all add: p SN_LESS_sn sn_near_eq abs_if split: if_splits)
  show ?case
  proof (cases "w < v")
    case True
    then have "d = []" "w' = w" "r = p # ps" using Cons.prems(5) by (simp_all add: p)
    then show ?thesis using Cons.prems(1) True by (simp add: p l)
  next
    case False
    let ?w = "if v = w then w + 1 else w"
    obtain d2 w2 r2 where s: "sweep ?w ps = (d2, w2, r2)" by (rule prod_cases3)
    have e: "d = p # d2" "w' = w2" "r = r2" using Cons.prems(5) False s by (simp_all add: p)
    have "\<forall>x \<in> set ps. \<bar>fst x - ?w\<bar> < 2048" using Cons.prems(2,3) by (force simp: p)
    with Cons.IH [OF _ _ this _ s, of False] Cons.prems
    obtain evs where "in_order_loop True ok (sn ?w) (map snd ps) False
        = (sn w2, map snd r2, evs, if r2 \<noteq> [] then True else if ps = [] then False else False)"
      "handed evs = map snd d2" by (auto simp: p)
    moreover have "(if SN_EQUAL (sn w) (sn v) then (sn w + 1) AND 0xFFF else sn w) = sn ?w"
      using l by (auto simp: SN_EQUAL_def next_sn)
    ultimately show ?thesis
      using False Cons.prems(1,4) e
      by (auto simp: p l handed_indicate_events Let_def simp del: if_split)
  qed
qed auto

lemma sweep_split: "sweep w ps = (d, w', r) \<Longrightarrow> ps = d @ r"
  by (induction ps arbitrary: w d w' r) (auto split: if_splits prod.splits)

lemma sweep_bounds:
  assumes "sweep w ps = (d, w', r)" "increasing ps"
  shows "w \<le> w' \<and> (\<forall>x \<in> set d. fst x < w') \<and> (\<forall>x \<in> set r. w' < fst x)
    \<and> (d \<noteq> [] \<longrightarrow> w' = w \<or> fst (last d) = w' - 1) \<and> (d = [] \<longrightarrow> w' = w)"
  using assms
proof (induction ps arbitrary: w d w' r)
  case (Cons p ps)
  show ?case
  proof (cases "w < fst p")
    case True
    then show ?thesis using Cons.prems by (cases p) force
  next
    case False
    obtain d2 w2 r2 where s: "sweep (if fst p = w then w + 1 else w) ps = (d2, w2, r2)" by (rule prod_cases3)
    have e: "d = p # d2" "w' = w2" "r = r2" using Cons.prems(1) False s by simp_all
    show ?thesis
      using Cons.IH [OF s] Cons.prems(2) False sweep_split [OF s] unfolding e
      by (cases p) (auto split: if_splits dest!: last_in_set, (metis UnI1 leD)+)
  qed
qed simp

section \<open>The session invariant\<close>

text \<open>\<open>w\<close> is the unbounded window start, \<open>d\<close> the number of the last frame handed on.\<close>

definition window :: "recv_reorder_ctrl \<Rightarrow> int \<Rightarrow> nframe list \<Rightarrow> int \<Rightarrow> bool" where
  "window c w ps d \<longleftrightarrow> enable c \<and> wsize_b c \<noteq> 0 \<and> indicate_seq c = sn w \<and> pending c = map snd ps
     \<and> numbered ps \<and> increasing ps \<and> (\<forall>x \<in> set ps. amsdu (snd x) \<le> 1)
     \<and> (\<forall>x \<in> set ps. w < fst x \<and> fst x < w + uint (wsize_b c))
     \<and> d < w \<and> (ps = [] \<longrightarrow> w = d + 1) \<and> (ps \<noteq> [] \<longrightarrow> fst (hd ps) \<le> d + 2048)"

definition fresh :: "recv_reorder_ctrl \<Rightarrow> bool" where
  "fresh c \<longleftrightarrow> enable c \<and> wsize_b c \<noteq> 0 \<and> indicate_seq c = 0xFFFF \<and> pending c = []"

fun chain :: "int \<Rightarrow> nframe list \<Rightarrow> bool" where
  "chain d [] = True"
| "chain d (p # ps) \<longleftrightarrow> d < fst p \<and> fst p \<le> d + 2048 \<and> chain (fst p) ps"

definition last_of :: "int \<Rightarrow> nframe list \<Rightarrow> int" where
  "last_of d ps = (if ps = [] then d else fst (last ps))"

lemma last_of_simps [simp]: "last_of d [] = d" "last_of d (p # ps) = last_of (fst p) ps"
  by (simp_all add: last_of_def)

lemma last_of_append: "last_of d (ps @ qs) = last_of (last_of d ps) qs"
  by (simp add: last_of_def)

lemma chain_append: "chain d (ps @ qs) \<longleftrightarrow> chain d ps \<and> chain (last_of d ps) qs"
  by (induction ps arbitrary: d) auto

lemma chain_increasing:
  assumes "increasing ps" "ps \<noteq> [] \<longrightarrow> d < fst (hd ps) \<and> fst (hd ps) \<le> d + 2048"
    "\<forall>x \<in> set ps. \<forall>y \<in> set ps. fst x - fst y < 2048"
  shows "chain d ps"
  using assms
proof (induction ps arbitrary: d)
  case (Cons p ps)
  obtain v f where p: "p = (v, f)" by force
  have "chain v ps"
  proof (rule Cons.IH)
    show "ps \<noteq> [] \<longrightarrow> v < fst (hd ps) \<and> fst (hd ps) \<le> v + 2048"
    proof
      assume "ps \<noteq> []"
      then have "hd ps \<in> set ps" by simp
      then show "v < fst (hd ps) \<and> fst (hd ps) \<le> v + 2048"
        using Cons.prems(1,3) by (force simp: p)
    qed
  qed (use Cons.prems in \<open>auto simp: p\<close>)
  with Cons.prems(2) show ?case by (simp add: p)
qed simp

lemma sweep_flush:
  assumes s: "sweep w qs = (del, w', r)" and i: "increasing qs"
    and ne: "qs \<noteq> []" and h: "d < fst (hd qs)" "fst (hd qs) \<le> d + 2048" and d: "d < w"
    and l: "w \<le> fst (last qs) + 1" and k: "\<forall>x \<in> set qs. fst x < w + k"
    and g: "\<forall>x \<in> set qs. \<forall>y \<in> set qs. fst x - fst y < 2048"
  shows "chain d del \<and> last_of d del < w' \<and> (r = [] \<longrightarrow> w' = last_of d del + 1)
    \<and> (r \<noteq> [] \<longrightarrow> fst (hd r) \<le> last_of d del + 2048)
    \<and> (\<forall>x \<in> set r. w' < fst x \<and> fst x < w' + k)"
proof -
  have q: "qs = del @ r" using s by (rule sweep_split)
  note b = sweep_bounds [OF s i]
  have "chain d qs" using i h g by (intro chain_increasing) auto
  then have c: "chain d del" "chain (last_of d del) r" by (simp_all add: q chain_append)
  have "last_of d del < w'" using b d by (auto simp: last_of_def)
  moreover have "r = [] \<longrightarrow> w' = last_of d del + 1"
  proof
    assume r: "r = []"
    then have "fst (last del) < w'" "w \<le> fst (last del) + 1" "del \<noteq> []" using b l ne q by auto
    moreover have "last del \<in> set del" using \<open>del \<noteq> []\<close> by simp
    ultimately show "w' = last_of d del + 1" using b by (fastforce simp: last_of_def)
  qed
  moreover have "r \<noteq> [] \<longrightarrow> fst (hd r) \<le> last_of d del + 2048" using c(2) by (cases r) auto
  moreover have "\<forall>x \<in> set r. w' < fst x \<and> fst x < w' + k" using b k q by force
  ultimately show ?thesis using c(1) by blast
qed

text \<open>One run of the delivery loop over a queue that holds a window.\<close>

lemma in_order_window:
  assumes "recv_indicatepkts_in_order True ok c False = (b, c', evs)"
    and "enable c" "wsize_b c \<noteq> 0" "indicate_seq c = sn w" "pending c = map snd qs" "numbered qs"
    and "\<forall>x \<in> set qs. amsdu (snd x) \<le> 1" "\<forall>x \<in> set qs. \<bar>fst x - w\<bar> < 2048"
    and "increasing qs" "qs \<noteq> []" "d < fst (hd qs)" "fst (hd qs) \<le> d + 2048" "d < w"
      "w \<le> fst (last qs) + 1" "\<forall>x \<in> set qs. fst x < w + uint (wsize_b c)"
      "\<forall>x \<in> set qs. \<forall>y \<in> set qs. fst x - fst y < 2048"
  shows "\<exists>del w' r. qs = del @ r \<and> handed evs = map snd del \<and> chain d del
    \<and> window c' w' r (last_of d del) \<and> b = (pending c' \<noteq> []) \<and> wsize_b c' = wsize_b c
    \<and> (\<forall>x \<in> set del. fst x < w') \<and> w \<le> w'"
proof -
  obtain del w' r where s: "sweep w qs = (del, w', r)" by (rule prod_cases3)
  obtain es where e: "in_order_loop True ok (sn w) (map snd qs) False
      = (sn w', map snd r, es, if r \<noteq> [] then True else if qs = [] then False else False)"
    "handed es = map snd del"
    using in_order_loop_sweep [OF assms(6,9,8,7) s] by blast
  have c': "c' = c\<lparr>indicate_seq := sn w', pending := map snd r\<rparr>" "evs = es" "b = (r \<noteq> [])"
    using assms(1,4,5) e(1) by (auto simp: recv_indicatepkts_in_order_def)
  have q: "qs = del @ r" using s by (rule sweep_split)
  have i: "increasing r" using assms(9) by (simp add: q increasing_def sorted_wrt_append)
  note fl = sweep_flush [OF s assms(9-16)]
  have "window c' w' r (last_of d del)"
    using fl assms(2,3,6,7) i unfolding window_def c' by (auto simp: q)
  moreover have "b = (pending c' \<noteq> [])" "wsize_b c' = wsize_b c" "handed evs = map snd del"
    using c' e(2) by simp_all
  moreover have "(\<forall>x \<in> set del. fst x < w') \<and> w \<le> w'"
    using sweep_bounds [OF s assms(9)] by simp
  ultimately show ?thesis
    using q fl by blast
qed

section \<open>Arrival and timeout\<close>

lemma sn_not_ffff: "sn w \<noteq> 0xFFFF"
proof
  assume "sn w = 0xFFFF"
  then have "uint (sn w) = 65535" by simp
  moreover have "w mod 4096 < 4096" by simp
  ultimately show False unfolding uint_sn by simp
qed

lemma uint_u8_bounds: "0 \<le> uint (k :: u8)" "uint k < 256" "k \<noteq> 0 \<Longrightarrow> 0 < uint k"
  using uint_bounded [of k] by (simp_all add: less_le word_uint_eq_iff)

lemma check_indicate_seq_window:
  assumes "indicate_seq c = sn w" "wsize_b c \<noteq> 0" "w - 2048 \<le> v" "v \<le> w + 2047"
  shows "check_indicate_seq c (sn v) =
    (if v < w then (False, c)
     else if v = w then (True, c\<lparr>indicate_seq := sn (w + 1)\<rparr>)
     else if w + uint (wsize_b c) - 1 < v
       then (True, c\<lparr>indicate_seq := sn (v + 1 - uint (wsize_b c)), dbg_shift := dbg_shift c + 1\<rparr>)
     else (True, c))"
proof -
  note k = uint_u8_bounds(2) [of "wsize_b c"] uint_u8_bounds(3) [OF assms(2)]
  have l: "SN_LESS (sn v) (sn w) \<longleftrightarrow> v < w" "sn v = sn w \<longleftrightarrow> v = w"
    using assms by (auto simp: SN_LESS_sn sn_near_eq)
  have e: "w \<le> v \<Longrightarrow> SN_LESS (sn (w + uint (wsize_b c) - 1)) (sn v) \<longleftrightarrow> w + uint (wsize_b c) - 1 < v"
    using assms k by (intro SN_LESS_sn) auto
  have "indicate_seq c \<noteq> 0xFFFF" using sn_not_ffff assms(1) by simp
  then show ?thesis
    unfolding check_indicate_seq_def Let_def assms(1) SN_EQUAL_def wend_sn
    using shift_sn [OF k(2,1), of v] l e by (auto simp: next_sn assms(1))
qed

lemma hd_put: "hd (put x ps) = (if ps \<noteq> [] \<and> fst (hd ps) < fst x then hd ps else x)"
  by (cases ps) auto

lemma last_increasing: "increasing ps \<Longrightarrow> x \<in> set ps \<Longrightarrow> fst x \<le> fst (last ps)"
proof (induction ps)
  case (Cons p ps)
  show ?case
  proof (cases "ps = []")
    case False
    then have "last ps \<in> set ps" by simp
    then have "fst p < fst (last ps)" using Cons.prems(1) by (cases p) auto
    show ?thesis
    proof (cases "x = p")
      case True
      with \<open>fst p < fst (last ps)\<close> False show ?thesis by simp
    next
      case False
      with Cons.prems \<open>ps \<noteq> []\<close> show ?thesis using Cons.IH by (cases p) simp
    qed
  qed (use Cons in auto)
qed simp

lemma hd_increasing: "increasing ps \<Longrightarrow> x \<in> set ps \<Longrightarrow> fst (hd ps) \<le> fst x"
  by (cases ps; cases "x = hd ps") (auto simp: increasing_def intro: less_imp_le)

definition accepted :: "bool \<Rightarrow> recv_frame \<Rightarrow> recv_frame list \<Rightarrow> recv_frame list \<Rightarrow> recv_frame list \<Rightarrow> bool" where
  "accepted ret f del old new \<longleftrightarrow> mset del + mset new = (if ret then add_mset f (mset old) else mset old)"

text \<open>An accepted frame: the part of the handler behind the sequence check.\<close>

lemma arrival_accept:
  assumes w: "window c w ps d" and f: "seq_num f = sn v" "amsdu f \<le> 1"
    and c1: "enable c1" "wsize_b c1 = wsize_b c" "indicate_seq c1 = sn w1" "pending c1 = pending c"
    and w1: "w \<le> w1" "w1 \<le> v + 1" "v < w1 + uint (wsize_b c)" "v - w1 < 2048" "w1 - w < 2048"
    and v: "w \<le> v" "v \<le> w + 2047" "v \<notin> fst ` set ps"
    and r: "recv_indicatepkts_in_order True ok (c1\<lparr>pending := map snd (put (v, f) ps)\<rparr>) False = (b, c', evs)"
  shows "\<exists>del w' ps'. window c' w' ps' (last_of d del) \<and> chain d del \<and> handed evs = map snd del
    \<and> accepted True f (map snd del) (pending c) (pending c')
    \<and> b = (pending c' \<noteq> []) \<and> numbered del \<and> wsize_b c' = wsize_b c"
proof -
  let ?q = "put (v, f) ps" and ?k = "uint (wsize_b c)"
  have ps: "enable c" "wsize_b c \<noteq> 0" "indicate_seq c = sn w" "pending c = map snd ps"
     "numbered ps" "increasing ps" "\<forall>x \<in> set ps. amsdu (snd x) \<le> 1"
     "\<forall>x \<in> set ps. w < fst x \<and> fst x < w + ?k" "d < w" "ps = [] \<longrightarrow> w = d + 1"
     "ps \<noteq> [] \<longrightarrow> fst (hd ps) \<le> d + 2048"
    using w by (auto simp: window_def)
  note k = uint_u8_bounds(2) [of "wsize_b c"] uint_u8_bounds(3) [OF ps(2)]
  have all: "\<forall>x \<in> set ?q. w \<le> fst x \<and> fst x \<le> w + 2047 \<and> fst x < w1 + ?k"
    using ps(8) v w1 k by (auto simp: set_put)
  have inc: "increasing ?q" using ps(6) v(3) by (simp add: increasing_put)
  have vq: "v \<le> fst (last ?q)" using last_increasing [OF inc, of "(v, f)"] by (simp add: set_put)
  have hq: "d < fst (hd ?q) \<and> fst (hd ?q) \<le> d + 2048"
    using ps(8-11) v by (cases ps) (auto simp: hd_put)
  obtain del w' rr where x: "?q = del @ rr" "handed evs = map snd del" "chain d del"
    "window c' w' rr (last_of d del)" "b = (pending c' \<noteq> [])" "wsize_b c' = wsize_b c1"
  proof -
    have "\<exists>del w' r. ?q = del @ r \<and> handed evs = map snd del \<and> chain d del
      \<and> window c' w' r (last_of d del) \<and> b = (pending c' \<noteq> []) \<and> wsize_b c' = wsize_b (c1\<lparr>pending := map snd ?q\<rparr>)
      \<and> (\<forall>x \<in> set del. fst x < w') \<and> w1 \<le> w'"
    proof (rule in_order_window [OF r])
      show "numbered ?q" using ps(5) f(1) by (simp add: numbered_put)
      show "\<forall>x \<in> set ?q. \<bar>fst x - w1\<bar> < 2048"
      proof
        fix x assume "x \<in> set ?q"
        with all w1 k show "\<bar>fst x - w1\<bar> < 2048" by (fastforce simp: abs_if)
      qed
      show "\<forall>x \<in> set ?q. \<forall>y \<in> set ?q. fst x - fst y < 2048"
      proof (intro ballI)
        fix x y assume "x \<in> set ?q" "y \<in> set ?q"
        with all have "fst x \<le> w + 2047" "w \<le> fst y" by auto
        then show "fst x - fst y < 2048" by simp
      qed
    qed (use ps c1 f(2) inc hq w1 vq all in \<open>auto simp: set_put\<close>)
    then show thesis using that by auto
  qed
  have "mset (map snd del) + mset (pending c') = add_mset f (mset (pending c))"
  proof -
    have "pending c' = map snd rr" using x(4) by (simp add: window_def)
    then have "mset (map snd del) + mset (pending c') = mset (map snd ?q)" by (simp add: x(1))
    then show ?thesis by (simp add: mset_put ps(4))
  qed
  moreover have "numbered del"
    using numbered_put [of v f ps] ps(5) f(1) x(1) by (metis numbered_simps(2,3))
  ultimately show ?thesis using x c1(2) unfolding accepted_def by auto
qed

lemma arrival_window:
  assumes w: "window c w ps d" and f: "seq_num f < 4096" "qos f = 1" "amsdu f \<le> 1"
    and r: "recv_indicatepkt_reorder True ok f c = (ret, c', evs)"
  shows "\<exists>del w' ps'. window c' w' ps' (last_of d del) \<and> chain d del \<and> handed evs = map snd del
    \<and> numbered del \<and> accepted ret f (map snd del) (pending c) (pending c')"
proof -
  have ps: "enable c" "wsize_b c \<noteq> 0" "indicate_seq c = sn w" "pending c = map snd ps"
     "numbered ps" "increasing ps" "\<forall>x \<in> set ps. w < fst x \<and> fst x < w + uint (wsize_b c)"
    using w by (auto simp: window_def)
  note k = uint_u8_bounds(2) [of "wsize_b c"] uint_u8_bounds(3) [OF ps(2)]
  obtain v where v: "seq_num f = sn v" "w - 2048 \<le> v" "v \<le> w + 2047" by (rule near_rep [OF f(1)])
  note chk = check_indicate_seq_window [OF ps(3,2) v(2,3)]
  have nb: "\<not> (amsdu f = 0 \<and> qos f \<noteq> 1)" "\<not> (amsdu f = 0 \<and> \<not> enable c)" "\<not> (amsdu f = 1 \<and> \<not> enable c)"
    using f ps(1) by auto
  have stay: ?thesis if "pending c' = pending c" "window c' w ps d" "handed evs = []" "\<not> ret"
    using that by (intro exI [of _ "[]"] exI [of _ w] exI [of _ ps]) (simp add: accepted_def)
  show ?thesis
  proof (cases "v < w")
    case True
    then show ?thesis
      using r w by (intro stay) (auto simp: recv_indicatepkt_reorder_def nb v(1) chk window_def)
  next
    case False
    define w1 where "w1 = (if v = w then w + 1
      else if w + uint (wsize_b c) - 1 < v then v + 1 - uint (wsize_b c) else w)"
    have "\<exists>c1. check_indicate_seq c (sn v) = (True, c1) \<and> enable c1 \<and> wsize_b c1 = wsize_b c
      \<and> indicate_seq c1 = sn w1 \<and> pending c1 = pending c"
      using False ps(1,3) by (auto simp: chk w1_def)
    then obtain c1 where c1: "check_indicate_seq c (sn v) = (True, c1)" "enable c1" "wsize_b c1 = wsize_b c"
      "indicate_seq c1 = sn w1" "pending c1 = pending c"
      by blast
    have near: "\<forall>x \<in> set ps. \<bar>fst x - v\<bar> < 2048"
      using ps(7) v False k by (fastforce simp: abs_if)
    note enq = enqueue_put [OF ps(5) v(1) ps(6) near]
    show ?thesis
    proof (cases "v \<in> fst ` set ps")
      case True
      then have "c1 = c" using ps(7) c1(1) False by (auto simp: chk split: if_splits)
      then show ?thesis
        using r w True by (intro stay) (auto simp: recv_indicatepkt_reorder_def nb v(1) c1(1) enq ps(4))
    next
      case new: False
      obtain b es where io: "recv_indicatepkts_in_order True ok (c1\<lparr>pending := map snd (put (v, f) ps)\<rparr>) False
          = (b, c', es)" and ev: "evs = es @ [if b then Set_timer else Cancel_timer]" and ret
        using r new by (auto simp: recv_indicatepkt_reorder_def nb v(1) c1(1,5) enq ps(4) split: prod.splits)
      have "\<exists>del w' ps'. window c' w' ps' (last_of d del) \<and> chain d del \<and> handed es = map snd del
          \<and> accepted True f (map snd del) (pending c) (pending c')
          \<and> b = (pending c' \<noteq> []) \<and> numbered del \<and> wsize_b c' = wsize_b c"
        using False v(3) k by (intro arrival_accept [OF w v(1) f(3) c1(2-5) _ _ _ _ _ _ v(3) new io]) (auto simp: w1_def)
      then show ?thesis using ev \<open>ret\<close> by auto
    qed
  qed
qed

lemma first_arrival:
  assumes c: "fresh c" and f: "seq_num f < 4096" "qos f = 1" "amsdu f \<le> 1"
    and r: "recv_indicatepkt_reorder True ok f c = (ret, c', evs)"
  shows "ret \<and> handed evs = [f] \<and> window c' (uint (seq_num f) + 1) [] (uint (seq_num f))"
proof -
  let ?v = "uint (seq_num f)"
  have s: "seq_num f = sn ?v" using f(1) by (simp add: sn_surj)
  have chk: "check_indicate_seq c (seq_num f) = (True, c\<lparr>indicate_seq := sn (?v + 1)\<rparr>)"
    using c next_sn [of ?v] s SN_LESS_sn [of ?v ?v]
    by (simp add: check_indicate_seq_def fresh_def SN_EQUAL_def Let_def)
  have l: "\<not> SN_LESS (sn (?v + 1)) (seq_num f)" "sn (?v + 1) \<noteq> seq_num f"
    by (subst s, simp add: SN_LESS_sn sn_near_eq)+
  have "handed (indicate_events True ok f) = [f]" using f(3) by (rule handed_indicate_events)
  then show ?thesis
    using r c f(2) l chk unfolding fresh_def
    by (auto simp: recv_indicatepkt_reorder_def recv_indicatepkts_in_order_def SN_EQUAL_def window_def)
qed

lemma in_order_loop_no_timer: "in_order_loop running ok i fs b0 = (i', fs', es, b) \<Longrightarrow> Set_timer \<notin> set es"
  by (induction fs arbitrary: i b0 i' fs' es b)
    (auto simp: indicate_events_def Let_def split: prod.splits if_splits)

lemma timeout_window:
  assumes w: "window c w ps d"
    and r: "rtw_reordering_ctrl_timeout_handler True ok c = (c', evs)"
  shows "\<exists>del w' ps'. window c' w' ps' (last_of d del) \<and> chain d del \<and> handed evs = map snd del
    \<and> numbered del \<and> ps = del @ ps' \<and> (ps \<noteq> [] \<longrightarrow> del \<noteq> [])
    \<and> (Set_timer \<in> set evs \<longleftrightarrow> ps = [] \<or> ps' \<noteq> [])"
proof (cases "ps = []")
  case True
  then have "pending c = []" using w by (simp add: window_def)
  then have "evs = [Set_timer]" "c' = c\<lparr>dbg_forced := dbg_forced c + 1\<rparr>"
    using r by (auto simp: rtw_reordering_ctrl_timeout_handler_def recv_indicatepkts_in_order_def)
  then show ?thesis
    using w True by (intro exI [of _ "[]"] exI [of _ w] exI [of _ ps]) (simp add: window_def)
next
  case False
  let ?k = "uint (wsize_b c)"
  have ps: "enable c" "wsize_b c \<noteq> 0" "indicate_seq c = sn w" "pending c = map snd ps"
     "numbered ps" "increasing ps" "\<forall>x \<in> set ps. amsdu (snd x) \<le> 1"
     "\<forall>x \<in> set ps. w < fst x \<and> fst x < w + ?k" "d < w" "fst (hd ps) \<le> d + 2048"
    using w False by (auto simp: window_def)
  have hd: "hd ps \<in> set ps" "last ps \<in> set ps" using False by simp_all
  let ?h = "fst (hd ps)"
  let ?c = "c\<lparr>dbg_forced := dbg_forced c + 1,
      dbg_loss := recv_indicatepkts_pkt_loss_cnt (dbg_loss c) (ucast (indicate_seq c)) (ucast (seq_num (hd (pending c)))),
      indicate_seq := seq_num (hd (pending c))\<rparr>"
  have s: "seq_num (hd (pending c)) = sn ?h"
    using ps(4,5) False by (cases ps) (auto simp: numbered_def)
  obtain b es where io: "recv_indicatepkts_in_order True ok ?c False = (b, c', es)"
    and ev: "evs = es @ (if b then [Set_timer] else [])"
  proof -
    have "recv_indicatepkts_in_order True ok c True = recv_indicatepkts_in_order True ok ?c False"
      using ps(4) False by (simp add: recv_indicatepkts_in_order_def Let_def)
    then show thesis using r that
      by (auto simp: rtw_reordering_ctrl_timeout_handler_def split: prod.splits)
  qed
  have set: "Set_timer \<notin> set es"
  proof -
    obtain i fs b0 i' fs' b1 where "in_order_loop True ok i fs b0 = (i', fs', es, b1)"
      using io by (auto simp: recv_indicatepkts_in_order_def Let_def split: prod.splits)
    then show ?thesis by (rule in_order_loop_no_timer)
  qed
  have all: "\<forall>x \<in> set ps. ?h \<le> fst x"
    using hd_increasing [OF ps(6)] by blast
  have dh: "d < ?h" "?h \<le> fst (last ps) + 1"
  proof -
    have "w < ?h" using ps(8) hd by blast
    then show "d < ?h" using ps(9) by simp
    show "?h \<le> fst (last ps) + 1" using all hd(2) by fastforce
  qed
  have "\<exists>del w' r. ps = del @ r \<and> handed es = map snd del \<and> chain d del
      \<and> window c' w' r (last_of d del) \<and> b = (pending c' \<noteq> []) \<and> wsize_b c' = wsize_b ?c
      \<and> (\<forall>x \<in> set del. fst x < w') \<and> ?h \<le> w'"
  proof (rule in_order_window [OF io])
    have b: "?h \<le> fst x \<and> fst x < ?h + ?k" if "x \<in> set ps" for x
    proof -
      have "w < ?h" "fst x < w + ?k" "?h \<le> fst x" using that all ps(8) hd by blast+
      then show ?thesis by simp
    qed
    show "\<forall>x \<in> set ps. \<bar>fst x - ?h\<bar> < 2048" using b uint_u8_bounds(2) [of "wsize_b c"] by fastforce
    show "\<forall>x \<in> set ps. fst x < ?h + uint (wsize_b ?c)" using b by simp
    show "\<forall>x \<in> set ps. \<forall>y \<in> set ps. fst x - fst y < 2048"
    proof (intro ballI)
      fix x y assume "x \<in> set ps" "y \<in> set ps"
      with ps(8) have "fst x < w + ?k" "w < fst y" by auto
      then show "fst x - fst y < 2048" using uint_u8_bounds(2) [of "wsize_b c"] by simp
    qed
  qed (use ps False s dh in auto)
  then obtain del w' rr where x: "ps = del @ rr" "handed es = map snd del" "chain d del"
      "window c' w' rr (last_of d del)" "b = (pending c' \<noteq> [])"
      "\<forall>x \<in> set del. fst x < w'" "?h \<le> w'" by blast
  have "del \<noteq> []"
  proof
    assume "del = []"
    then have "hd ps \<in> set rr" using hd(1) x(1) by simp
    then have "w' < ?h" using x(4) by (simp add: window_def)
    with x(7) show False by simp
  qed
  moreover have "pending c' = map snd rr" using x(4) by (simp add: window_def)
  moreover have "numbered del" using ps(5) x(1) by simp
  ultimately show ?thesis
    using x ev set False by (intro exI [of _ del] exI [of _ w'] exI [of _ rr]) auto
qed

section \<open>Sessions\<close>

text \<open>Before the first frame, or with a window behind the frames \<open>p # del\<close> handed on so far.\<close>

definition session :: "rx_event list \<Rightarrow> recv_frame multiset \<Rightarrow> recv_reorder_ctrl \<Rightarrow> bool" where
  "session evs acc c \<longleftrightarrow> fresh c \<and> handed evs = [] \<and> acc = {#}
     \<or> (\<exists>w ps p del. window c w ps (last_of (fst p) del) \<and> handed evs = map snd (p # del)
         \<and> numbered (p # del) \<and> chain (fst p) del \<and> acc = mset (map snd (p # del)) + mset (pending c))"

lemma session_step:
  assumes "window c w ps (last_of (fst p) del)" "handed evs = map snd (p # del)"
    "numbered (p # del)" "chain (fst p) del" "acc = mset (map snd (p # del)) + mset (pending c)"
    and "window c' w' ps' (last_of (last_of (fst p) del) del')" "chain (last_of (fst p) del) del'"
    "handed evs' = map snd del'" "numbered del'"
    "mset (map snd del') + mset (pending c') = acc' + mset (pending c)"
  shows "session (evs @ evs') (acc' + acc) c'"
  unfolding session_def
  using assms
  by (intro disjI2 exI [of _ w'] exI [of _ ps'] exI [of _ p] exI [of _ "del @ del'"])
    (simp add: last_of_append chain_append numbered_def)

lemma session_arrival:
  assumes "session evs acc c" "seq_num f < 4096" "qos f = 1" "amsdu f \<le> 1"
    and r: "recv_indicatepkt_reorder True ok f c = (ret, c', evs')"
  shows "session (evs @ evs') (if ret then add_mset f acc else acc) c'"
  using assms(1) unfolding session_def [of evs]
proof (elim disjE conjE exE)
  assume "fresh c" "handed evs = []" "acc = {#}"
  with first_arrival [OF _ assms(2-4) r] show ?thesis
    unfolding session_def using sn_surj [OF assms(2)]
    by (intro disjI2 exI [of _ "uint (seq_num f) + 1"] exI [of _ "[]"] exI [of _ "(uint (seq_num f), f)"])
      (auto simp: window_def)
next
  fix w ps p del
  assume a: "window c w ps (last_of (fst p) del)" "handed evs = map snd (p # del)"
    "numbered (p # del)" "chain (fst p) del" "acc = mset (map snd (p # del)) + mset (pending c)"
  from arrival_window [OF a(1) assms(2-4) r] obtain del' w' ps' where
    b: "window c' w' ps' (last_of (last_of (fst p) del) del')" "chain (last_of (fst p) del) del'"
    "handed evs' = map snd del'" "numbered del'" "accepted ret f (map snd del') (pending c) (pending c')"
    by blast
  show ?thesis
    using session_step [OF a b(1-4), of "if ret then {#f#} else {#}"] b(5)
    by (cases ret) (simp_all add: accepted_def)
qed

lemma timeout_fresh:
  "pending c = [] \<Longrightarrow> rtw_reordering_ctrl_timeout_handler True ok c = (c\<lparr>dbg_forced := dbg_forced c + 1\<rparr>, [Set_timer])"
  by (simp add: rtw_reordering_ctrl_timeout_handler_def recv_indicatepkts_in_order_def)

lemma session_timeout:
  assumes "session evs acc c" and r: "rtw_reordering_ctrl_timeout_handler True ok c = (c', evs')"
  shows "session (evs @ evs') acc c'"
  using assms(1) unfolding session_def [of evs]
proof (elim disjE conjE exE)
  assume "fresh c" "handed evs = []" "acc = {#}"
  then show ?thesis using r timeout_fresh [of c ok] by (auto simp: session_def fresh_def)
next
  fix w ps p del
  assume a: "window c w ps (last_of (fst p) del)" "handed evs = map snd (p # del)"
    "numbered (p # del)" "chain (fst p) del" "acc = mset (map snd (p # del)) + mset (pending c)"
  from timeout_window [OF a(1) r] obtain del' w' ps' where
    b: "window c' w' ps' (last_of (last_of (fst p) del) del')" "chain (last_of (fst p) del) del'"
    "handed evs' = map snd del'" "numbered del'" "ps = del' @ ps'"
    by blast
  have "pending c = map snd ps" "pending c' = map snd ps'" using a(1) b(1) by (simp_all add: window_def)
  then show ?thesis using session_step [OF a b(1-4), of "{#}"] b(5) by simp
qed

lemma reorder_run_session: "reorder_run ok c0 evs acc c \<Longrightarrow> session evs acc c"
proof (induction rule: reorder_run.induct)
  case start
  then show ?case by (simp add: session_def fresh_def)
next
  case arrival
  then show ?case by (blast intro: session_arrival)
next
  case timeout
  then show ?case by (blast intro: session_timeout)
qed

text \<open>What a session's window says in the program's own terms.\<close>

lemma window_offset:
  assumes "window c w ps d" "(v, f) \<in> set ps"
  shows "uint ((seq_num f - indicate_seq c) AND 0xFFF) = v - w"
proof -
  have "seq_num f = sn v" "w < v" "v < w + uint (wsize_b c)" "indicate_seq c = sn w"
    using assms by (auto simp: window_def numbered_def list_all_iff)
  moreover have "uint (wsize_b c) < 256" by (rule uint_u8_bounds)
  ultimately have "uint ((seq_num f - indicate_seq c) AND 0xFFF) = (v - w) mod 4096" "0 < v - w" "v - w < 4096"
    by (simp_all add: uint_and_fff uint_word_ariths uint_sn mod_mod_cancel mod_simps)
  then show ?thesis by simp
qed

lemma increasing_length:
  assumes "increasing ps" "\<forall>x \<in> set ps. w < fst x \<and> fst x < w + int k" "0 < k"
  shows "length ps < k"
proof -
  have "distinct (map fst ps)" using assms(1) unfolding increasing_def by (simp add: strict_sorted_iff)
  then have "length ps = card (set (map fst ps))" by (simp only: distinct_card length_map)
  also have "\<dots> \<le> card {w + 1 ..< w + int k}" using assms(2) by (intro card_mono) auto
  also have "\<dots> < k" using assms(3) by simp
  finally show ?thesis .
qed

lemma increasing_sn_sorted:
  assumes "numbered ps" "increasing ps" "\<forall>x \<in> set ps. \<forall>y \<in> set ps. fst x - fst y < 2048"
  shows "sorted_wrt (\<lambda>a b. SN_LESS (seq_num a) (seq_num b)) (map snd ps)"
  using assms
proof (induction ps)
  case (Cons p ps)
  have "SN_LESS (seq_num (snd p)) (seq_num (snd y))" if "y \<in> set ps" for y
  proof -
    have "seq_num (snd p) = sn (fst p)" "seq_num (snd y) = sn (fst y)" "fst p < fst y" "fst y - fst p < 2048"
      using Cons.prems that by (auto simp: numbered_def list_all_iff increasing_def)
    then show ?thesis by (simp add: SN_LESS_sn)
  qed
  with Cons show ?case by (auto simp: numbered_def increasing_def)
qed simp

lemma chain_in_order:
  "chain d del \<Longrightarrow> numbered ((d, f) # del)
    \<Longrightarrow> successively (\<lambda>a b. SN_LESS (seq_num a) (seq_num b)) (f # map snd del)"
proof (induction del arbitrary: d f)
  case (Cons p del)
  obtain v g where p: "p = (v, g)" by force
  have "SN_LESS (sn d) (sn v)" using Cons.prems(1) by (simp add: p SN_LESS_sn)
  with Cons.IH [of v g] Cons.prems show ?case by (simp add: p)
qed simp

fun timeouts :: "(recv_frame \<Rightarrow> bool) \<Rightarrow> nat \<Rightarrow> recv_reorder_ctrl \<Rightarrow> recv_reorder_ctrl \<times> rx_event list" where
  "timeouts ok 0 c = (c, [])"
| "timeouts ok (Suc n) c =
     (let (c', evs) = rtw_reordering_ctrl_timeout_handler True ok c;
          (c'', evs') = timeouts ok n c'
      in (c'', evs @ evs'))"

lemma timeouts_empty: "pending c = [] \<Longrightarrow> timeouts ok n c = (c', evs) \<Longrightarrow> pending c' = [] \<and> handed evs = []"
proof (induction n arbitrary: c evs)
  case (Suc n)
  let ?c = "c\<lparr>dbg_forced := dbg_forced c + 1\<rparr>"
  obtain e where e: "timeouts ok n ?c = (c', e)" "evs = Set_timer # e"
    using Suc.prems by (auto simp: timeout_fresh split: prod.splits)
  then show ?case using Suc.IH [of ?c e] Suc.prems(1) by simp
qed simp

lemma timeouts_window:
  "window c w ps d \<Longrightarrow> length ps \<le> n \<Longrightarrow> timeouts ok n c = (c', evs)
    \<Longrightarrow> pending c' = [] \<and> handed evs = map snd ps"
proof (induction n arbitrary: c w ps d evs)
  case 0
  then show ?case by (simp add: window_def)
next
  case (Suc n)
  obtain c1 e1 where t: "rtw_reordering_ctrl_timeout_handler True ok c = (c1, e1)" by (rule prod.exhaust)
  obtain e2 where t2: "timeouts ok n c1 = (c', e2)" "evs = e1 @ e2"
    using Suc.prems(3) t by (auto split: prod.splits)
  obtain del w' ps' where x: "window c1 w' ps' (last_of d del)" "handed e1 = map snd del" "ps = del @ ps'"
    "ps \<noteq> [] \<longrightarrow> del \<noteq> []"
    using timeout_window [OF Suc.prems(1) t] by blast
  show ?case
  proof (cases "ps = []")
    case True
    then have "del = []" "ps' = []" using x(3) by simp_all
    then have "pending c1 = []" using x(1) by (simp add: window_def)
    from timeouts_empty [OF this t2(1)] show ?thesis using t2(2) x(2) True \<open>del = []\<close> by simp
  next
    case False
    then have "length ps' \<le> n" using x(3,4) Suc.prems(2) by (cases del) auto
    from Suc.IH [OF x(1) this t2(1)] show ?thesis using t2(2) x(2,3) by simp
  qed
qed

inductive_cases reorder_runE: "reorder_run ok c0 evs acc c"

section \<open>Properties\<close>

text \<open>C21. In-order delivery: in every session the sequence number of a frame handed to the upper layer
  is ahead of its predecessor's, modulo 4096, whatever the arrival order and the timeouts.\<close>

theorem reorder_delivers_in_order:
  assumes "reorder_run ok c0 evs acc c"
  shows "successively (\<lambda>a b. SN_LESS (seq_num a) (seq_num b)) (handed evs)"
proof -
  consider "handed evs = []"
    | p del where "handed evs = map snd (p # del)" "numbered (p # del)" "chain (fst p) del"
    using reorder_run_session [OF assms] unfolding session_def by blast
  then show ?thesis
  proof cases
    case (2 p del)
    then show ?thesis using chain_in_order [of "fst p" del "snd p"] by simp
  qed simp
qed

text \<open>C22. Conservation: every accepted frame is either handed on exactly once or still buffered, and
  nothing else is.\<close>

theorem reorder_conserves_frames:
  assumes "reorder_run ok c0 evs acc c"
  shows "mset (handed evs) + mset (pending c) = acc"
  using reorder_run_session [OF assms] by (auto simp: session_def fresh_def)

text \<open>C23. Window: the buffered frames are sorted, lie strictly inside the window of \<open>wsize_b\<close> numbers
  from \<open>indicate_seq\<close>, and are therefore fewer than \<open>wsize_b\<close>.\<close>

theorem reorder_window_invariant:
  assumes "reorder_run ok c0 evs acc c"
  shows "sorted_wrt (\<lambda>a b. SN_LESS (seq_num a) (seq_num b)) (pending c)
    \<and> (\<forall>f \<in> set (pending c). let off = uint ((seq_num f - indicate_seq c) AND 0xFFF)
        in 0 < off \<and> off < uint (wsize_b c))
    \<and> length (pending c) < unat (wsize_b c)"
proof -
  consider "fresh c" | w ps d where "window c w ps d"
    using reorder_run_session [OF assms] unfolding session_def by blast
  then show ?thesis
  proof cases
    case 1
    then show ?thesis by (simp add: fresh_def unat_gt_0)
  next
    case (2 w ps d)
    then have p: "pending c = map snd ps" "numbered ps" "increasing ps" "wsize_b c \<noteq> 0"
      "\<forall>x \<in> set ps. w < fst x \<and> fst x < w + uint (wsize_b c)"
      by (auto simp: window_def)
    have "\<forall>x \<in> set ps. \<forall>y \<in> set ps. fst x - fst y < 2048"
    proof (intro ballI)
      fix x y assume "x \<in> set ps" "y \<in> set ps"
      with p(5) have "fst x < w + uint (wsize_b c)" "w < fst y" by blast+
      then show "fst x - fst y < 2048" using uint_u8_bounds(2) [of "wsize_b c"] by simp
    qed
    then have "sorted_wrt (\<lambda>a b. SN_LESS (seq_num a) (seq_num b)) (pending c)"
      unfolding p(1) by (rule increasing_sn_sorted [OF p(2,3)])
    moreover have "length (pending c) < unat (wsize_b c)"
      using increasing_length [OF p(3), of w "unat (wsize_b c)"] p(1,4,5) by (simp add: unat_gt_0)
    ultimately show ?thesis
      using window_offset [OF 2] p(1,5) by (auto simp: Let_def)
  qed
qed

text \<open>C24. Liveness: as many timeouts as there are buffered frames hand all of them on, in queue order.\<close>

theorem timeouts_flush:
  assumes "reorder_run ok c0 evs acc c" "length (pending c) \<le> n"
  shows "\<exists>c' evs'. timeouts ok n c = (c', evs') \<and> pending c' = [] \<and> handed evs' = pending c"
proof -
  obtain c' evs' where t: "timeouts ok n c = (c', evs')" by (rule prod.exhaust)
  consider "fresh c" | w ps d where "window c w ps d"
    using reorder_run_session [OF assms(1)] unfolding session_def by blast
  then show ?thesis
  proof cases
    case 1
    with timeouts_empty [OF _ t] t show ?thesis by (simp add: fresh_def)
  next
    case (2 w ps d)
    with timeouts_window [OF 2 _ t] assms(2) t show ?thesis by (simp add: window_def)
  qed
qed

text \<open>The timer: a timeout re-arms it when frames stay buffered, and also, because
  \<open>recv_indicatepkts_in_order\<close> returns \<open>_TRUE\<close> for a forced flush of an empty queue, when there was
  nothing to flush.\<close>

theorem timeout_rearms:
  assumes "reorder_run ok c0 evs acc c"
    and "rtw_reordering_ctrl_timeout_handler True ok c = (c', evs')"
  shows "(Set_timer \<in> set evs' \<longleftrightarrow> pending c = [] \<or> pending c' \<noteq> [])
    \<and> (pending c \<noteq> [] \<longrightarrow> length (pending c') < length (pending c))"
proof -
  consider "fresh c" | w ps d where "window c w ps d"
    using reorder_run_session [OF assms(1)] unfolding session_def by blast
  then show ?thesis
  proof cases
    case 1
    with assms(2) timeout_fresh [of c ok] show ?thesis by (auto simp: fresh_def)
  next
    case (2 w ps d)
    from timeout_window [OF 2 assms(2)] obtain del w' ps' where
      x: "window c' w' ps' (last_of d del)" "ps = del @ ps'" "ps \<noteq> [] \<longrightarrow> del \<noteq> []"
      "Set_timer \<in> set evs' \<longleftrightarrow> ps = [] \<or> ps' \<noteq> []"
      by blast
    have "pending c = map snd ps" "pending c' = map snd ps'" using 2 x(1) by (simp_all add: window_def)
    then show ?thesis using x(2-4) by simp
  qed
qed

section \<open>A concrete session\<close>

definition ex_frame :: "u16 \<Rightarrow> recv_frame" where
  "ex_frame s = \<lparr>seq_num = s, amsdu = 0, qos = 1, frame_id = 0\<rparr>"

definition ex_start :: recv_reorder_ctrl where
  "ex_start = \<lparr>enable = True, indicate_seq = 0xFFFF, wsize_b = 4, pending = [],
     dbg_drop = 0, dbg_forced = 0, dbg_loss = 0, dbg_shift = 0\<rparr>"

definition ex_end :: recv_reorder_ctrl where
  "ex_end = ex_start\<lparr>indicate_seq := 0, pending := [ex_frame 1, ex_frame 2]\<rparr>"

definition ex_events :: "rx_event list" where
  "ex_events = [Indicatepkt (ex_frame 0xFFF), Cancel_timer, Set_timer, Set_timer]"

definition ex_acc :: "recv_frame multiset" where
  "ex_acc = {#ex_frame 1, ex_frame 2, ex_frame 0xFFF#}"

lemma ex_steps:
  "recv_indicatepkt_reorder True (\<lambda>_. True) (ex_frame 0xFFF) ex_start
     = (True, ex_start\<lparr>indicate_seq := 0\<rparr>, [Indicatepkt (ex_frame 0xFFF), Cancel_timer])"
  "recv_indicatepkt_reorder True (\<lambda>_. True) (ex_frame 2) (ex_start\<lparr>indicate_seq := 0\<rparr>)
     = (True, ex_start\<lparr>indicate_seq := 0, pending := [ex_frame 2]\<rparr>, [Set_timer])"
  "recv_indicatepkt_reorder True (\<lambda>_. True) (ex_frame 1)
     (ex_start\<lparr>indicate_seq := 0, pending := [ex_frame 2]\<rparr>) = (True, ex_end, [Set_timer])"
  by code_simp+

lemma ex_run: "reorder_run (\<lambda>_. True) ex_start ex_events ex_acc ex_end"
proof -
  have f: "seq_num (ex_frame s) = s" "qos (ex_frame s) = 1" "amsdu (ex_frame s) \<le> 1" for s
    by (simp_all add: ex_frame_def)
  have "reorder_run (\<lambda>_. True) ex_start [] {#} ex_start"
    by (rule reorder_run.start) (simp_all add: ex_start_def)
  from reorder_run.arrival [OF this _ f(2,3) ex_steps(1)]
  have "reorder_run (\<lambda>_. True) ex_start [Indicatepkt (ex_frame 0xFFF), Cancel_timer]
    {#ex_frame 0xFFF#} (ex_start\<lparr>indicate_seq := 0\<rparr>)" by (simp add: f)
  from reorder_run.arrival [OF this _ f(2,3) ex_steps(2)]
  have "reorder_run (\<lambda>_. True) ex_start [Indicatepkt (ex_frame 0xFFF), Cancel_timer, Set_timer]
    {#ex_frame 2, ex_frame 0xFFF#} (ex_start\<lparr>indicate_seq := 0, pending := [ex_frame 2]\<rparr>)"
    by (simp add: f)
  from reorder_run.arrival [OF this _ f(2,3) ex_steps(3)]
  show ?thesis by (simp add: f ex_events_def ex_acc_def)
qed

theorem reorder_delivers_in_order_witness:
  "successively (\<lambda>a b. SN_LESS (seq_num a) (seq_num b)) (handed ex_events)"
  by (rule reorder_delivers_in_order [OF ex_run])

theorem reorder_conserves_frames_witness:
  "mset (handed ex_events) + mset (pending ex_end) = ex_acc"
  by (rule reorder_conserves_frames [OF ex_run])

theorem reorder_window_invariant_witness: "length (pending ex_end) < unat (wsize_b ex_end)"
  using reorder_window_invariant [OF ex_run] by blast

lemma ex_pending: "pending ex_end = [ex_frame 1, ex_frame 2]"
  by (simp add: ex_end_def)

theorem timeouts_flush_witness:
  "\<exists>c' evs'. timeouts (\<lambda>_. True) 2 ex_end = (c', evs') \<and> pending c' = []
    \<and> handed evs' = [ex_frame 1, ex_frame 2]"
  using timeouts_flush [OF ex_run, of 2] by (simp add: ex_pending)

theorem timeout_rearms_witness:
  "Set_timer \<notin> set (snd (rtw_reordering_ctrl_timeout_handler True (\<lambda>_. True) ex_end))"
proof -
  let ?r = "rtw_reordering_ctrl_timeout_handler True (\<lambda>_. True) ex_end"
  have "pending (fst ?r) = []" by code_simp
  with timeout_rearms [OF ex_run, of "fst ?r" "snd ?r"] show ?thesis by (simp add: ex_pending)
qed

end
