(* ===== verification/Rx_Frame.thy ===== *)
theory Rx_Frame
  imports Frame_Crypto Michael
begin

text \<open>
  Received frames of \<^verbatim>\<open>core/rtw_recv.c\<close> as buffers: the pointer operations of
  \<^verbatim>\<open>include/rtw_recv.h\<close>, duplicate detection (\<open>recv_decache\<close>), the TKIP integrity check
  (\<open>recvframe_chkmic\<close> with \<open>rtw_handle_tkip_mic_err\<close> of \<^verbatim>\<open>os_dep/recv_linux.c\<close>), and
  defragmentation (\<open>recvframe_defrag\<close>, \<open>recvframe_chk_defrag\<close>).

  The memory of a frame is the list from \<open>rx_head\<close> to \<open>rx_end\<close>; \<open>rx_data\<close> and \<open>rx_tail\<close> are
  offsets in it. \<^term>\<open>None\<close> is an access outside that memory. What the handlers free is a list of
  frame identities.
\<close>

section \<open>Frame buffers\<close>

record rx_attrib = rx_pkt_attrib +
  rx_icv_len :: nat
  rx_mfrag :: u8
  rx_frag_num :: u8
  rx_seq_num :: u16
  rx_priority :: u8
  rx_privacy :: u8
  rx_bdecrypted :: bool
  rx_eth_type :: u16
  rx_dst :: bytes
  rx_src :: bytes
  rx_bssid :: bytes
  rx_pkt_len :: nat
  rx_to_fr_ds :: nat
  rx_qos :: bool
  rx_order :: bool
  rx_amsdu :: bool
  rx_ack_policy :: u8
  rx_mdata :: bool
  rx_pw_save :: bool

record rx_frame =
  rx_id :: nat
  buf :: bytes
  rx_data :: int
  rx_tail :: int
  rx_len :: u32
  attrib :: rx_attrib
  rx_psta :: "nat option"

text \<open>The flag is false where the C function returns \<open>NULL\<close>.\<close>

definition recvframe_push :: "rx_frame \<Rightarrow> int \<Rightarrow> bool \<times> rx_frame" where
  "recvframe_push f sz =
     (if rx_data f - sz < 0 then (False, f)
      else (True, f\<lparr>rx_data := rx_data f - sz, rx_len := rx_len f + of_int sz\<rparr>))"

definition recvframe_pull :: "rx_frame \<Rightarrow> int \<Rightarrow> bool \<times> rx_frame" where
  "recvframe_pull f sz =
     (if rx_data f + sz > rx_tail f then (False, f)
      else (True, f\<lparr>rx_data := rx_data f + sz, rx_len := rx_len f - of_int sz\<rparr>))"

definition recvframe_put :: "rx_frame \<Rightarrow> int \<Rightarrow> bool \<times> rx_frame" where
  "recvframe_put f sz =
     (if rx_tail f + sz > int (length (buf f)) then (False, f)
      else (True, f\<lparr>rx_tail := rx_tail f + sz, rx_len := rx_len f + of_int sz\<rparr>))"

definition recvframe_pull_tail :: "rx_frame \<Rightarrow> int \<Rightarrow> bool \<times> rx_frame" where
  "recvframe_pull_tail f sz =
     (if rx_tail f - sz < rx_data f then (False, f)
      else (True, f\<lparr>rx_tail := rx_tail f - sz, rx_len := rx_len f - of_int sz\<rparr>))"

text \<open>Access relative to \<open>rx_data\<close>.\<close>

definition frame_rdn :: "rx_frame \<Rightarrow> nat \<Rightarrow> nat \<Rightarrow> bytes option" where
  "frame_rdn f i n = rdn (buf f) (nat (rx_data f) + i) n"

text \<open>Allocation for a packet of \<open>pkt_len\<close> bytes at \<open>pdata\<close> (the memory from there on,
  \<^term>\<open>None\<close> for \<open>NULL\<close>). The kernel's allocator \<open>skb_alloc\<close> gives an address and the memory
  behind it; \<open>clone_ok\<close> says whether \<open>rtw_skb_clone\<close> of the given packet (if there is one)
  succeeds. The result is \<^term>\<open>Some None\<close> for \<open>_FAIL\<close>.\<close>

definition recvframe_alloc_sz :: "u8 \<Rightarrow> u8 \<Rightarrow> nat \<Rightarrow> nat" where
  "recvframe_alloc_sz mfrag frag_num skb_len =
     (if mfrag = 1 \<and> frag_num = 0 then (if skb_len \<le> 1650 then 1664 else skb_len + 14)
      else skb_len + 14)"

definition rtw_os_alloc_recvframe ::
  "(nat \<Rightarrow> (nat \<times> bytes) option) \<Rightarrow> bool \<Rightarrow> bytes option \<Rightarrow> u16 \<Rightarrow> u8 \<Rightarrow> rx_frame \<Rightarrow> rx_frame option option" where
  "rtw_os_alloc_recvframe skb_alloc clone_ok pdata pkt_len qos f =
     (case pdata of None \<Rightarrow> Some None
      | Some mem \<Rightarrow>
          (let shift_sz = (if qos \<noteq> 0 then 6 else 0);
               skb_len = unat pkt_len;
               a = attrib f;
               alloc_sz = recvframe_alloc_sz (rx_mfrag a) (rx_frag_num a) skb_len
           in case skb_alloc alloc_sz of
                Some (addr, skb) \<Rightarrow>
                  do {
                    let data = 8 - addr mod 8 + shift_sz;
                    pkt \<leftarrow> rdn mem 0 skb_len;
                    b \<leftarrow> wrn (take alloc_sz skb) data pkt;
                    Some (Some (f\<lparr>buf := b, rx_data := int data, rx_tail := int data\<rparr>))
                  }
              | None \<Rightarrow>
                  if rx_mfrag a = 1 \<and> rx_frag_num a = 0 then Some None
                  else if clone_ok
                    then Some (Some (f\<lparr>buf := take alloc_sz mem, rx_data := 0, rx_tail := 0\<rparr>))
                  else Some None))"

section \<open>Duplicate detection\<close>

text \<open>\<open>rxcache\<close> is \<open>tid_rxseq\<close>; \<^term>\<open>None\<close> is \<open>_FAIL\<close>.\<close>

definition recv_decache :: "rx_attrib \<Rightarrow> u16 list \<Rightarrow> u16 list option" where
  "recv_decache a rxcache =
     (let tid = unat (rx_priority a);
          seq_ctrl = push_bit 4 (rx_seq_num a AND 0xFFFF) OR (ucast (rx_frag_num a) AND 0xF)
      in if 15 < tid then None
         else if seq_ctrl = rxcache ! tid then None
         else Some (rxcache[tid := seq_ctrl]))"

section \<open>TKIP integrity check\<close>

record rx_security = security_priv +
  dot118021XGrprxmickey :: "bytes list"
  bcheck_grpkey :: bool
  last_mic_err_time :: u32

text \<open>The state part of the handler; \<open>now\<close> is the jiffies counter and \<open>hz\<close> the kernel's \<open>HZ\<close>.\<close>

definition rtw_handle_tkip_mic_err :: "u32 \<Rightarrow> u32 \<Rightarrow> 's rx_security_scheme \<Rightarrow> 's rx_security_scheme" where
  "rtw_handle_tkip_mic_err hz now s =
     (if last_mic_err_time s = 0 then s\<lparr>last_mic_err_time := now\<rparr>
      else if now - last_mic_err_time s < 60 * hz
        then s\<lparr>btkip_countermeasure := True, last_mic_err_time := 0, btkip_countermeasure_time := now\<rparr>
      else s\<lparr>last_mic_err_time := now\<rparr>)"

text \<open>What a verdict does to the state: a wrong code is reported unless the frame was not decrypted
  or is a group frame under another key than the current one; a right one confirms the group key.\<close>

definition chkmic_verdict ::
  "u32 \<Rightarrow> u32 \<Rightarrow> nat \<Rightarrow> rx_attrib \<Rightarrow> bool \<Rightarrow> 's rx_security_scheme \<Rightarrow> 's rx_security_scheme" where
  "chkmic_verdict hz now mlme_key a ok s =
     (let mcast = IS_MCAST (rx_ra a);
          brpt_micerror = (\<not> (mcast \<and> rx_key_index a \<noteq> mlme_key))
      in if \<not> ok then
           (if rx_bdecrypted a \<and> brpt_micerror then rtw_handle_tkip_mic_err hz now s else s)
         else if \<not> bcheck_grpkey s \<and> mcast then s\<lparr>bcheck_grpkey := True\<rparr>
         else s)"

text \<open>\<open>mickey\<close> is \<open>dot11tkiprxmickey\<close> of the transmitter's station entry (\<^term>\<open>None\<close>: there is
  none), \<open>mlme_key\<close> is \<open>pmlmeinfo->key_index\<close>. The flag is \<open>res == _SUCCESS\<close>.\<close>

definition recvframe_chkmic ::
  "u32 \<Rightarrow> u32 \<Rightarrow> bytes option \<Rightarrow> nat \<Rightarrow> 's rx_security_scheme \<Rightarrow> rx_frame \<Rightarrow> (bool \<times> 's rx_security_scheme \<times> rx_frame) option" where
  "recvframe_chkmic hz now mickey mlme_key s f =
     (let a = attrib f; mcast = IS_MCAST (rx_ra a) in
      if rx_encrypt a \<noteq> TKIP then Some (True, s, f)
      else case mickey of
        None \<Rightarrow> Some (True, s, snd (recvframe_pull_tail f 8))
      | Some unicast \<Rightarrow>
          if mcast \<and> \<not> binstallGrpkey s then Some (False, s, f)
          else do {
            key \<leftarrow> (if mcast then rd (dot118021XGrprxmickey s) (rx_key_index a) else Some unicast);
            let datalen = rx_len f - of_nat (rx_hdrlen a) - of_nat (rx_iv_len a) - of_nat (rx_icv_len a) - 8;
            let payload = rx_hdrlen a + rx_iv_len a;
            data \<leftarrow> frame_rdn f payload (unat datalen);
            frame_mic \<leftarrow> frame_rdn f (payload + unat datalen) 8;
            let miccode = rtw_seccalctkipmic key (drop (nat (rx_data f)) (buf f)) data (rx_priority a);
            let ok = (miccode = frame_mic);
            Some (ok, chkmic_verdict hz now mlme_key a ok s, snd (recvframe_pull_tail f 8))
          })"

section \<open>Defragmentation\<close>

text \<open>One turn of the loop: the body of \<open>n\<close> goes behind \<open>p\<close>, over its check value. The copy is
  made before \<open>recvframe_put\<close> looks at the room.\<close>

definition defrag_append :: "rx_frame \<Rightarrow> rx_frame \<Rightarrow> rx_frame option" where
  "defrag_append p n =
     do {
       let wlanhdr_offset = (rx_hdrlen (attrib n) + rx_iv_len (attrib n)) mod 256;
       let n = snd (recvframe_pull n (int wlanhdr_offset));
       let p = snd (recvframe_pull_tail p (int (rx_icv_len (attrib p))));
       data \<leftarrow> frame_rdn n 0 (unat (rx_len n));
       b \<leftarrow> wrn (buf p) (nat (rx_tail p)) data;
       let p = snd (recvframe_put (p\<lparr>buf := b\<rparr>) (sint (rx_len n)));
       Some (p\<lparr>attrib := (attrib p)\<lparr>rx_icv_len := rx_icv_len (attrib n)\<rparr>\<rparr>)
     }"

fun defrag_loop :: "u8 \<Rightarrow> rx_frame \<Rightarrow> rx_frame list \<Rightarrow> rx_frame option option" where
  "defrag_loop curfragnum p [] = Some (Some p)"
| "defrag_loop curfragnum p (n # ns) =
     (if curfragnum \<noteq> rx_frag_num (attrib n) then Some None
      else do { p \<leftarrow> defrag_append p n; defrag_loop (curfragnum + 1) p ns })"

text \<open>The reassembled frame or \<open>NULL\<close>, and what is freed. The queue is empty afterwards.\<close>

definition recvframe_defrag :: "rx_frame list \<Rightarrow> (rx_frame option \<times> nat list) option" where
  "recvframe_defrag defrag_q =
     (case defrag_q of
        [] \<Rightarrow> None
      | p # ns \<Rightarrow>
          if rx_frag_num (attrib p) \<noteq> 0 then Some (None, map rx_id defrag_q)
          else do {
            r \<leftarrow> defrag_loop 1 p ns;
            Some (r, map rx_id (if r = None then defrag_q else ns))
          })"

definition WIFI_DATA_TYPE :: u16 where "WIFI_DATA_TYPE = 0x8"

text \<open>\<open>recvframe_chk_defrag\<close> up to the integrity check, on the queue \<open>pdefrag_q\<close>
  (\<^term>\<open>None\<close>: \<open>NULL\<close>): the frame to go on with, the queue, and what is freed.\<close>

definition defrag_enqueue ::
  "rx_frame \<Rightarrow> rx_frame list option \<Rightarrow> (rx_frame option \<times> rx_frame list option \<times> nat list) option" where
  "defrag_enqueue f pdefrag_q =
     (let ismfrag = rx_mfrag (attrib f); fragnum = rx_frag_num (attrib f) in
      if ismfrag = 0 \<and> fragnum = 0 then Some (Some f, pdefrag_q, [])
      else if ismfrag = 1 then
        (case pdefrag_q of
           None \<Rightarrow> Some (None, None, [rx_id f])
         | Some q \<Rightarrow>
             if fragnum = 0 then Some (None, Some [f], map rx_id q)
             else Some (None, Some (q @ [f]), []))
      else if ismfrag = 0 then
        (case pdefrag_q of
           None \<Rightarrow> Some (None, None, [rx_id f])
         | Some q \<Rightarrow> do {
             (r, freed) \<leftarrow> recvframe_defrag (q @ [f]);
             Some (r, Some [], freed)
           })
      else Some (None, pdefrag_q, []))"

text \<open>The integrity check after defragmentation.\<close>

definition defrag_chkmic ::
  "u32 \<Rightarrow> u32 \<Rightarrow> bytes option \<Rightarrow> nat \<Rightarrow> 's rx_security_scheme \<Rightarrow> rx_frame option \<Rightarrow> nat list
    \<Rightarrow> (rx_frame option \<times> 's rx_security_scheme \<times> nat list) option" where
  "defrag_chkmic hz now mickey mlme_key s prtnframe freed =
     (case prtnframe of
        None \<Rightarrow> Some (None, s, freed)
      | Some p \<Rightarrow>
          if rx_privacy (attrib p) = 0 then Some (Some p, s, freed)
          else do {
            (ok, s, p) \<leftarrow> recvframe_chkmic hz now mickey mlme_key s p;
            Some (if ok then Some p else None, s, if ok then freed else freed @ [rx_id p])
          })"

text \<open>The whole handler. \<open>sta_q\<close> is the queue of the transmitter's station entry; a frame that is
  not a data frame and has no such entry uses the queue of the broadcast entry, \<open>bcmc_q\<close>.\<close>

definition recvframe_chk_defrag ::
  "u32 \<Rightarrow> u32 \<Rightarrow> bytes option \<Rightarrow> nat \<Rightarrow> 's rx_security_scheme \<Rightarrow> rx_frame \<Rightarrow> rx_frame list option \<Rightarrow> rx_frame list
    \<Rightarrow> (rx_frame option \<times> 's rx_security_scheme \<times> rx_frame list option \<times> rx_frame list \<times> nat list) option" where
  "recvframe_chk_defrag hz now mickey mlme_key s f sta_q bcmc_q =
     do {
       frtype \<leftarrow> GetFrameType (drop (nat (rx_data f)) (buf f));
       let use_bcmc = (sta_q = None \<and> frtype \<noteq> WIFI_DATA_TYPE);
       (r, q, freed) \<leftarrow> defrag_enqueue f (if use_bcmc then Some bcmc_q else sta_q);
       (r, s, freed) \<leftarrow> defrag_chkmic hz now mickey mlme_key s r freed;
       Some (r, s, if use_bcmc then None else q,
         if use_bcmc then (case q of None \<Rightarrow> bcmc_q | Some q \<Rightarrow> q) else bcmc_q, freed)
     }"

section \<open>Well-formed frames\<close>

definition wf_frame :: "rx_frame \<Rightarrow> bool" where
  "wf_frame f \<longleftrightarrow> 0 \<le> rx_data f \<and> rx_data f \<le> rx_tail f \<and> rx_tail f \<le> int (length (buf f))
     \<and> int (unat (rx_len f)) = rx_tail f - rx_data f \<and> length (buf f) < 2 ^ 31"

definition frame_bytes :: "rx_frame \<Rightarrow> bytes" where
  "frame_bytes f = take (unat (rx_len f)) (drop (nat (rx_data f)) (buf f))"

lemma wf_frameE:
  assumes "wf_frame f"
  obtains d l where "rx_data f = int d" "rx_tail f = int (d + l)" "rx_len f = of_nat l"
    "d + l \<le> length (buf f)" "length (buf f) < 2 ^ 31"
proof (rule that [of "nat (rx_data f)" "unat (rx_len f)"])
  show "rx_tail f = int (nat (rx_data f) + unat (rx_len f))" "rx_data f = int (nat (rx_data f))"
    "nat (rx_data f) + unat (rx_len f) \<le> length (buf f)" "length (buf f) < 2 ^ 31"
    using assms unfolding wf_frame_def by linarith+
qed simp

lemma wf_len: "wf_frame f \<Longrightarrow> unat (rx_len f) < 2 ^ 31"
  unfolding wf_frame_def by linarith

lemma unat_len: "l < 2 ^ 31 \<Longrightarrow> unat (of_nat l :: u32) = l"
  by (simp add: unsigned_of_nat take_bit_nat_eq_self)

lemma sint_len: "l < 2 ^ 31 \<Longrightarrow> sint (of_nat l :: u32) = int l"
  by (simp add: signed_of_nat signed_take_bit_int_eq_self)

lemma wf_frameI:
  "rx_data f = int d \<Longrightarrow> rx_tail f = int (d + l) \<Longrightarrow> rx_len f = of_nat l \<Longrightarrow> d + l \<le> length (buf f)
    \<Longrightarrow> length (buf f) < 2 ^ 31 \<Longrightarrow> wf_frame f"
  by (simp add: wf_frame_def unat_len)

lemma frame_bytes_eq:
  "rx_data f = int d \<Longrightarrow> rx_len f = of_nat l \<Longrightarrow> d + l \<le> length (buf f) \<Longrightarrow> length (buf f) < 2 ^ 31
    \<Longrightarrow> frame_bytes f = take l (drop d (buf f))"
  by (simp add: frame_bytes_def unat_len)

lemma length_frame_bytes: "wf_frame f \<Longrightarrow> length (frame_bytes f) = unat (rx_len f)"
  by (erule wf_frameE) (simp add: frame_bytes_eq unat_len)

lemma wf_pull:
  assumes "wf_frame f" "sz \<le> length (frame_bytes f)"
  shows "fst (recvframe_pull f (int sz))" "wf_frame (snd (recvframe_pull f (int sz)))"
    "frame_bytes (snd (recvframe_pull f (int sz))) = drop sz (frame_bytes f)"
proof -
  obtain d l where f: "rx_data f = int d" "rx_tail f = int (d + l)" "rx_len f = of_nat l"
    "d + l \<le> length (buf f)" "length (buf f) < 2 ^ 31" by (rule wf_frameE [OF assms(1)])
  have sz: "sz \<le> l" using assms(2) f by (simp add: frame_bytes_eq)
  let ?g = "snd (recvframe_pull f (int sz))"
  have g: "rx_data ?g = int (d + sz)" "rx_tail ?g = int ((d + sz) + (l - sz))"
    "rx_len ?g = of_nat (l - sz)" "buf ?g = buf f"
    using f sz by (simp_all add: recvframe_pull_def of_nat_diff)
  show "fst (recvframe_pull f (int sz))" using f sz by (simp add: recvframe_pull_def)
  show "wf_frame ?g" using f sz by (intro wf_frameI [OF g(1-3)]) (simp_all add: g)
  have "frame_bytes ?g = take (l - sz) (drop (d + sz) (buf f))"
    using f sz by (subst frame_bytes_eq [OF g(1,3)]) (simp_all add: g)
  then show "frame_bytes ?g = drop sz (frame_bytes f)"
    by (simp add: frame_bytes_eq [OF f(1,3-5)] drop_take add.commute)
qed

lemma wf_pull_tail:
  assumes "wf_frame f" "sz \<le> length (frame_bytes f)"
  shows "fst (recvframe_pull_tail f (int sz))" "wf_frame (snd (recvframe_pull_tail f (int sz)))"
    "frame_bytes (snd (recvframe_pull_tail f (int sz))) = take (length (frame_bytes f) - sz) (frame_bytes f)"
proof -
  obtain d l where f: "rx_data f = int d" "rx_tail f = int (d + l)" "rx_len f = of_nat l"
    "d + l \<le> length (buf f)" "length (buf f) < 2 ^ 31" by (rule wf_frameE [OF assms(1)])
  have sz: "sz \<le> l" using assms(2) f by (simp add: frame_bytes_eq)
  let ?g = "snd (recvframe_pull_tail f (int sz))"
  have g: "rx_data ?g = int d" "rx_tail ?g = int (d + (l - sz))"
    "rx_len ?g = of_nat (l - sz)" "buf ?g = buf f"
    using f sz by (simp_all add: recvframe_pull_tail_def of_nat_diff)
  show "fst (recvframe_pull_tail f (int sz))" using f sz by (simp add: recvframe_pull_tail_def)
  show "wf_frame ?g" using f sz by (intro wf_frameI [OF g(1-3)]) (simp_all add: g)
  have "frame_bytes ?g = take (l - sz) (drop d (buf f))"
    using f sz by (subst frame_bytes_eq [OF g(1,3)]) (simp_all add: g)
  then show "frame_bytes ?g = take (length (frame_bytes f) - sz) (frame_bytes f)"
    using f(4) sz by (simp add: frame_bytes_eq [OF f(1,3-5)] min_absorb1 min_absorb2)
qed

lemma wf_push:
  assumes "wf_frame f" "int sz \<le> rx_data f"
  shows "fst (recvframe_push f (int sz))" "wf_frame (snd (recvframe_push f (int sz)))"
    "length (frame_bytes (snd (recvframe_push f (int sz)))) = length (frame_bytes f) + sz"
    "drop sz (frame_bytes (snd (recvframe_push f (int sz)))) = frame_bytes f"
proof -
  obtain d l where f: "rx_data f = int d" "rx_tail f = int (d + l)" "rx_len f = of_nat l"
    "d + l \<le> length (buf f)" "length (buf f) < 2 ^ 31" by (rule wf_frameE [OF assms(1)])
  have sz: "sz \<le> d" using assms(2) f by simp
  let ?g = "snd (recvframe_push f (int sz))"
  have g: "rx_data ?g = int (d - sz)" "rx_tail ?g = int ((d - sz) + (l + sz))"
    "rx_len ?g = of_nat (l + sz)" "buf ?g = buf f"
    using f sz by (simp_all add: recvframe_push_def of_nat_diff)
  show "fst (recvframe_push f (int sz))" using f sz by (simp add: recvframe_push_def)
  show "wf_frame ?g" using f sz by (intro wf_frameI [OF g(1-3)]) (simp_all add: g)
  have b: "frame_bytes ?g = take (l + sz) (drop (d - sz) (buf f))"
    using f sz by (subst frame_bytes_eq [OF g(1,3)]) (simp_all add: g)
  show "length (frame_bytes ?g) = length (frame_bytes f) + sz"
    unfolding b using f(4) sz by (simp add: frame_bytes_eq [OF f(1,3-5)])
  show "drop sz (frame_bytes ?g) = frame_bytes f"
    unfolding b using sz by (simp add: frame_bytes_eq [OF f(1,3-5)] drop_take)
qed

lemma frame_op_fields [simp]:
  "attrib (snd (recvframe_pull f k)) = attrib f" "rx_id (snd (recvframe_pull f k)) = rx_id f"
  "buf (snd (recvframe_pull f k)) = buf f"
  "attrib (snd (recvframe_pull_tail f k)) = attrib f" "rx_id (snd (recvframe_pull_tail f k)) = rx_id f"
  "buf (snd (recvframe_pull_tail f k)) = buf f" "rx_data (snd (recvframe_pull_tail f k)) = rx_data f"
  "attrib (snd (recvframe_put f k)) = attrib f" "rx_id (snd (recvframe_put f k)) = rx_id f"
  "buf (snd (recvframe_put f k)) = buf f" "rx_data (snd (recvframe_put f k)) = rx_data f"
  by (simp_all add: recvframe_pull_def recvframe_pull_tail_def recvframe_put_def)

text \<open>Writing behind the tail and putting.\<close>

lemma wf_append:
  assumes "wf_frame f" "rx_tail f + int (length xs) \<le> int (length (buf f))"
  shows "\<exists>b. wrn (buf f) (nat (rx_tail f)) xs = Some b
    \<and> wf_frame (snd (recvframe_put (f\<lparr>buf := b\<rparr>) (int (length xs))))
    \<and> frame_bytes (snd (recvframe_put (f\<lparr>buf := b\<rparr>) (int (length xs)))) = frame_bytes f @ xs
    \<and> length b = length (buf f)"
proof -
  obtain d l where f: "rx_data f = int d" "rx_tail f = int (d + l)" "rx_len f = of_nat l"
    "d + l \<le> length (buf f)" "length (buf f) < 2 ^ 31" by (rule wf_frameE [OF assms(1)])
  let ?b = "take (d + l) (buf f) @ xs @ drop (d + l + length xs) (buf f)"
  let ?g = "snd (recvframe_put (f\<lparr>buf := ?b\<rparr>) (int (length xs)))"
  have room: "d + l + length xs \<le> length (buf f)" using assms(2) f by simp
  then have lb: "length ?b = length (buf f)" by simp
  have w: "wrn (buf f) (nat (rx_tail f)) xs = Some ?b" using room f by (simp add: wrn_Some_iff nat_int_add)
  have g: "rx_data ?g = int d" "rx_tail ?g = int (d + (l + length xs))" "rx_len ?g = of_nat (l + length xs)"
    "buf ?g = ?b"
    using f(1-3) room lb by (simp_all add: recvframe_put_def)
  have wf: "wf_frame ?g"
  proof (rule wf_frameI [OF g(1-3)])
    show "d + (l + length xs) \<le> length (buf ?g)" "length (buf ?g) < 2 ^ 31"
      unfolding g(4) lb using f room by simp_all
  qed
  have "frame_bytes ?g = take (l + length xs) (drop d ?b)"
  proof (subst frame_bytes_eq [OF g(1,3)])
    show "d + (l + length xs) \<le> length (buf ?g)" "length (buf ?g) < 2 ^ 31"
      unfolding g(4) lb using f room by simp_all
  qed (simp add: g(4))
  also have "\<dots> = take l (drop d (buf f)) @ xs"
    using f(4) by (simp add: drop_take)
  also have "\<dots> = frame_bytes f @ xs" by (simp add: frame_bytes_eq [OF f(1,3-5)])
  finally show ?thesis using w wf lb by blast
qed

lemma frame_rdn_bytes:
  assumes "wf_frame f" "i + n \<le> length (frame_bytes f)"
  shows "frame_rdn f i n = Some (take n (drop i (frame_bytes f)))"
proof -
  obtain d l where f: "rx_data f = int d" "rx_tail f = int (d + l)" "rx_len f = of_nat l"
    "d + l \<le> length (buf f)" "length (buf f) < 2 ^ 31" by (rule wf_frameE [OF assms(1)])
  have "i + n \<le> l" using assms(2) f by (simp add: frame_bytes_eq)
  with f show ?thesis
    by (simp add: frame_rdn_def rdn_Some_iff frame_bytes_eq [OF f(1,3-5)] drop_take min_def add.commute)
qed

section \<open>One fragment appended\<close>

definition body_offset :: "rx_frame \<Rightarrow> nat" where
  "body_offset n = rx_hdrlen (attrib n) + rx_iv_len (attrib n)"

definition fragment :: "rx_frame \<Rightarrow> bool" where
  "fragment n \<longleftrightarrow> wf_frame n \<and> 24 \<le> rx_hdrlen (attrib n) \<and> body_offset n < 256
     \<and> body_offset n + rx_icv_len (attrib n) \<le> length (frame_bytes n)"

definition body :: "rx_frame \<Rightarrow> bytes" where
  "body n = drop (body_offset n) (frame_bytes n)"

definition without_icv :: "rx_frame \<Rightarrow> bytes" where
  "without_icv p = take (length (frame_bytes p) - rx_icv_len (attrib p)) (frame_bytes p)"

lemma defrag_append_ok:
  assumes n: "fragment n" and p: "wf_frame p" "rx_icv_len (attrib p) \<le> length (frame_bytes p)"
    and room: "rx_data p + int (length (without_icv p) + length (body n)) \<le> int (length (buf p))"
  shows "\<exists>p'. defrag_append p n = Some p' \<and> wf_frame p' \<and> frame_bytes p' = without_icv p @ body n
    \<and> attrib p' = (attrib p)\<lparr>rx_icv_len := rx_icv_len (attrib n)\<rparr> \<and> rx_id p' = rx_id p
    \<and> rx_data p' = rx_data p \<and> length (buf p') = length (buf p)"
proof -
  let ?n = "snd (recvframe_pull n (int (body_offset n)))"
  let ?p = "snd (recvframe_pull_tail p (int (rx_icv_len (attrib p))))"
  have nw: "wf_frame n" "body_offset n \<le> length (frame_bytes n)" "body_offset n < 256"
    using n by (simp_all add: fragment_def)
  note n' = wf_pull [OF nw(1,2)] and p' = wf_pull_tail [OF p]
  have data: "frame_rdn ?n 0 (unat (rx_len ?n)) = Some (body n)"
    using frame_rdn_bytes [OF n'(2), of 0 "unat (rx_len ?n)"] length_frame_bytes [OF n'(2)] n'(3)
    by (simp add: body_def)
  have len: "rx_len ?n = of_nat (length (body n))" "sint (rx_len ?n) = int (length (body n))"
  proof -
    show l: "rx_len ?n = of_nat (length (body n))"
      using length_frame_bytes [OF n'(2)] n'(3) by (simp add: body_def)
    have "length (body n) < 2 ^ 31"
      using n'(3) length_frame_bytes [OF n'(2)] wf_len [OF n'(2)] by (simp add: body_def)
    then show "sint (rx_len ?n) = int (length (body n))" unfolding l by (rule sint_len)
  qed
  have "rx_tail ?p = rx_data p + int (length (without_icv p))"
    using p'(2,3) length_frame_bytes [OF p'(2)] by (simp add: wf_frame_def without_icv_def)
  then have "rx_tail ?p + int (length (body n)) \<le> int (length (buf ?p))"
    using room by simp
  from wf_append [OF p'(2) this] obtain b where
    b: "wrn (buf ?p) (nat (rx_tail ?p)) (body n) = Some b"
      "wf_frame (snd (recvframe_put (?p\<lparr>buf := b\<rparr>) (int (length (body n)))))"
      "frame_bytes (snd (recvframe_put (?p\<lparr>buf := b\<rparr>) (int (length (body n))))) = without_icv p @ body n"
      "length b = length (buf p)"
    unfolding p'(3) frame_op_fields without_icv_def by blast
  let ?r = "snd (recvframe_put (?p\<lparr>buf := b\<rparr>) (int (length (body n))))"
  let ?q = "?r\<lparr>attrib := (attrib ?r)\<lparr>rx_icv_len := rx_icv_len (attrib n)\<rparr>\<rparr>"
  have "defrag_append p n = Some ?q"
    using nw(3) by (simp add: defrag_append_def Let_def data b(1) [unfolded frame_op_fields] len(2) flip: body_offset_def)
  moreover have "wf_frame ?q" "frame_bytes ?q = frame_bytes ?r"
    using b(2) by (simp_all add: wf_frame_def frame_bytes_def)
  ultimately show ?thesis using b(3,4) by simp
qed

lemma defrag_append_overflow:
  assumes n: "fragment n" and p: "wf_frame p" "rx_icv_len (attrib p) \<le> length (frame_bytes p)"
    and room: "rx_data p + int (length (without_icv p) + length (body n)) > int (length (buf p))"
  shows "defrag_append p n = None"
proof -
  let ?n = "snd (recvframe_pull n (int (body_offset n)))"
  let ?p = "snd (recvframe_pull_tail p (int (rx_icv_len (attrib p))))"
  have nw: "wf_frame n" "body_offset n \<le> length (frame_bytes n)" "body_offset n < 256"
    using n by (simp_all add: fragment_def)
  note n' = wf_pull [OF nw(1,2)] and p' = wf_pull_tail [OF p]
  have data: "frame_rdn ?n 0 (unat (rx_len ?n)) = Some (body n)"
    using frame_rdn_bytes [OF n'(2), of 0 "unat (rx_len ?n)"] length_frame_bytes [OF n'(2)] n'(3)
    by (simp add: body_def)
  have "rx_tail ?p = rx_data p + int (length (without_icv p))"
    using p'(2,3) length_frame_bytes [OF p'(2)] by (simp add: wf_frame_def without_icv_def)
  then have "length (buf p) < nat (rx_tail ?p) + length (body n)" using room by linarith
  then have "wrn (buf ?p) (nat (rx_tail ?p)) (body n) = None" by (simp add: wrn_def)
  with data nw(3) show ?thesis by (simp add: defrag_append_def Let_def flip: body_offset_def)
qed

section \<open>The whole queue\<close>

fun numbered_from :: "u8 \<Rightarrow> rx_frame list \<Rightarrow> bool" where
  "numbered_from k [] = True"
| "numbered_from k (n # ns) \<longleftrightarrow> rx_frag_num (attrib n) = k \<and> numbered_from (k + 1) ns"

text \<open>Bodies without their check values, except the last one's.\<close>

fun bodies :: "rx_frame list \<Rightarrow> bytes" where
  "bodies [] = []"
| "bodies [n] = body n"
| "bodies (n # m # ns) = take (length (body n) - rx_icv_len (attrib n)) (body n) @ bodies (m # ns)"

definition reassembled :: "rx_frame \<Rightarrow> rx_frame list \<Rightarrow> bytes" where
  "reassembled p ns = (if ns = [] then frame_bytes p else without_icv p @ bodies ns)"

definition fits :: "rx_frame \<Rightarrow> rx_frame list \<Rightarrow> bool" where
  "fits p ns \<longleftrightarrow> rx_data p + int (length (frame_bytes p) + sum_list (map (length \<circ> body) ns))
     \<le> int (length (buf p))"

lemma fragment_icv: "fragment n \<Longrightarrow> rx_icv_len (attrib n) \<le> length (body n)"
  unfolding fragment_def body_def length_drop by linarith

lemma reassembled_step:
  assumes "fragment n" "frame_bytes p' = without_icv p @ body n"
    "attrib p' = (attrib p)\<lparr>rx_icv_len := rx_icv_len (attrib n)\<rparr>"
  shows "reassembled p' ns = reassembled p (n # ns)"
  using assms fragment_icv [OF assms(1)]
  by (cases ns) (simp_all add: reassembled_def without_icv_def)

lemma defrag_loop_ok:
  assumes "list_all fragment ns" "wf_frame p" "rx_icv_len (attrib p) \<le> length (frame_bytes p)" "fits p ns"
  shows "\<exists>p'. defrag_loop k p ns = Some (if numbered_from k ns then Some p' else None)
    \<and> wf_frame p' \<and> frame_bytes p' = reassembled p ns \<and> rx_id p' = rx_id p
    \<and> attrib p' = (attrib p)\<lparr>rx_icv_len := rx_icv_len (attrib (last (p # ns)))\<rparr>"
  using assms
proof (induction ns arbitrary: k p)
  case Nil
  then show ?case by (simp add: reassembled_def)
next
  case (Cons n ns)
  have n: "fragment n" using Cons.prems(1) by simp
  have "rx_data p + int (length (without_icv p) + length (body n)) \<le> int (length (buf p))"
    using Cons.prems(4) by (simp add: fits_def without_icv_def)
  from defrag_append_ok [OF n Cons.prems(2,3) this] obtain p' where
    p': "defrag_append p n = Some p'" "wf_frame p'" "frame_bytes p' = without_icv p @ body n"
      "attrib p' = (attrib p)\<lparr>rx_icv_len := rx_icv_len (attrib n)\<rparr>" "rx_id p' = rx_id p"
      "rx_data p' = rx_data p" "length (buf p') = length (buf p)" by blast
  have "fits p' ns" using Cons.prems(4) p' by (simp add: fits_def without_icv_def)
  moreover have "rx_icv_len (attrib p') \<le> length (frame_bytes p')"
    using p' fragment_icv [OF n] by simp
  ultimately obtain p'' where
    r: "defrag_loop (k + 1) p' ns = Some (if numbered_from (k + 1) ns then Some p'' else None)"
      "wf_frame p''" "frame_bytes p'' = reassembled p' ns" "rx_id p'' = rx_id p'"
      "attrib p'' = (attrib p')\<lparr>rx_icv_len := rx_icv_len (attrib (last (p' # ns)))\<rparr>"
    using Cons.IH [OF _ p'(2), of "k + 1"] Cons.prems(1) by auto
  have "frame_bytes p'' = reassembled p (n # ns)"
    using r(3) reassembled_step [OF n p'(3,4)] by simp
  moreover have "attrib p'' = (attrib p)\<lparr>rx_icv_len := rx_icv_len (attrib (last (p # n # ns)))\<rparr>"
    using r(5) p'(4) by simp
  ultimately show ?case
    using r(1,2,4) p'(1,5) by (intro exI [of _ p'']) auto
qed

lemma recvframe_defrag_ok:
  assumes "list_all fragment (p # ns)" "fits p ns"
  shows "\<exists>p'. recvframe_defrag (p # ns)
      = Some (if numbered_from 0 (p # ns) then (Some p', map rx_id ns) else (None, map rx_id (p # ns)))
    \<and> wf_frame p' \<and> frame_bytes p' = reassembled p ns \<and> rx_id p' = rx_id p
    \<and> attrib p' = (attrib p)\<lparr>rx_icv_len := rx_icv_len (attrib (last (p # ns)))\<rparr>"
proof -
  have p: "wf_frame p" "rx_icv_len (attrib p) \<le> length (frame_bytes p)"
    using assms(1) by (simp_all add: fragment_def)
  from defrag_loop_ok [OF _ p assms(2), of 1] assms(1) show ?thesis
    by (fastforce simp: recvframe_defrag_def)
qed

section \<open>Identities\<close>

definition ids :: "rx_frame list \<Rightarrow> nat multiset" where
  "ids fs = mset (map rx_id fs)"

lemma ids_simps [simp]: "ids [] = {#}" "ids (f # fs) = add_mset (rx_id f) (ids fs)" "ids (fs @ gs) = ids fs + ids gs"
  by (simp_all add: ids_def)

lemma defrag_append_id: "defrag_append p n = Some p' \<Longrightarrow> rx_id p' = rx_id p"
  by (auto simp: defrag_append_def Let_def bind_eq_Some_conv)

lemma defrag_loop_id: "defrag_loop k p ns = Some (Some p') \<Longrightarrow> rx_id p' = rx_id p"
  by (induction k p ns rule: defrag_loop.induct)
    (auto simp: bind_eq_Some_conv dest: defrag_append_id split: if_splits)

definition opt_ids :: "rx_frame option \<Rightarrow> nat multiset" where
  "opt_ids r = (case r of None \<Rightarrow> {#} | Some p \<Rightarrow> {#rx_id p#})"

lemma opt_ids_simps [simp]: "opt_ids None = {#}" "opt_ids (Some p) = {#rx_id p#}"
  by (simp_all add: opt_ids_def)

lemma recvframe_defrag_ids:
  "recvframe_defrag q = Some (r, freed) \<Longrightarrow> ids q = opt_ids r + mset freed"
  by (cases q; cases r) (auto simp: recvframe_defrag_def ids_def bind_eq_Some_conv
      dest!: defrag_loop_id split: if_splits)

lemma defrag_enqueue_ids:
  assumes "defrag_enqueue f q = Some (r, q', freed)" "rx_mfrag (attrib f) \<le> 1"
  shows "add_mset (rx_id f) (ids (case q of None \<Rightarrow> [] | Some q \<Rightarrow> q))
    = opt_ids r + ids (case q' of None \<Rightarrow> [] | Some q \<Rightarrow> q) + mset freed"
proof -
  have "rx_mfrag (attrib f) = 0 \<or> rx_mfrag (attrib f) = 1"
    using assms(2) by (rule le_1_cases)
  then show ?thesis
    using assms(1) by (auto simp: defrag_enqueue_def Let_def ids_def bind_eq_Some_conv
        dest!: recvframe_defrag_ids split: option.splits if_splits)
qed

lemma recvframe_chkmic_keeps:
  "recvframe_chkmic hz now mk ky s f = Some (ok, s', f') \<Longrightarrow> rx_id f' = rx_id f"
  by (auto simp: recvframe_chkmic_def Let_def bind_eq_Some_conv split: if_splits option.splits)

lemma defrag_chkmic_ids:
  "defrag_chkmic hz now mk ky s r0 freed0 = Some (r, s', freed)
    \<Longrightarrow> opt_ids r + mset freed = opt_ids r0 + mset freed0"
  by (auto simp: defrag_chkmic_def bind_eq_Some_conv dest!: recvframe_chkmic_keeps
      split: option.splits if_splits)

section \<open>The integrity check of a whole frame\<close>

definition mic_key :: "'s rx_security_scheme \<Rightarrow> rx_attrib \<Rightarrow> bytes \<Rightarrow> bytes option" where
  "mic_key s a unicast = (if \<not> IS_MCAST (rx_ra a) then Some unicast
     else if binstallGrpkey s then rd (dot118021XGrprxmickey s) (rx_key_index a) else None)"

lemma seccalctkipmic_header:
  "30 \<le> length hdr \<Longrightarrow> rtw_seccalctkipmic key (hdr @ rest) data pri = rtw_seccalctkipmic key hdr data pri"
  by (simp add: rtw_seccalctkipmic_def nth_append Let_def)

lemma recvframe_chkmic_tkip:
  assumes "wf_frame f" "rx_encrypt (attrib f) = TKIP" "mic_key s (attrib f) unicast = Some key"
    and b: "frame_bytes f = hdr @ data @ mic @ icv" "length hdr = body_offset f" "30 \<le> length hdr"
    "length mic = 8" "length icv = rx_icv_len (attrib f)"
  shows "recvframe_chkmic hz now (Some unicast) ky s f =
    (let ok = (rtw_seccalctkipmic key hdr data (rx_priority (attrib f)) = mic)
     in Some (ok, chkmic_verdict hz now ky (attrib f) ok s, snd (recvframe_pull_tail f 8)))"
proof -
  have len: "unat (rx_len f) = body_offset f + length data + 8 + rx_icv_len (attrib f)"
    using length_frame_bytes [OF assms(1)] b by simp
  then have "rx_len f = of_nat (body_offset f + length data + 8 + rx_icv_len (attrib f))"
    by (metis of_nat_unat ucast_id)
  then have dl: "rx_len f - of_nat (rx_hdrlen (attrib f)) - of_nat (rx_iv_len (attrib f))
      - of_nat (rx_icv_len (attrib f)) - 8 = of_nat (length data)"
    by (simp add: body_offset_def)
  have "length data < 2 ^ 31" using wf_len [OF assms(1)] len by linarith
  then have ul: "unat (of_nat (length data) :: u32) = length data" by (rule unat_len)
  have d: "frame_rdn f (body_offset f) (length data) = Some data"
    using frame_rdn_bytes [OF assms(1), of "body_offset f" "length data"] b by simp
  have m: "frame_rdn f (body_offset f + length data) 8 = Some mic"
    using frame_rdn_bytes [OF assms(1), of "body_offset f + length data" 8] b by simp
  obtain x where "drop (nat (rx_data f)) (buf f) = frame_bytes f @ x"
    by (metis frame_bytes_def append_take_drop_id)
  then have h: "rtw_seccalctkipmic key (drop (nat (rx_data f)) (buf f)) data (rx_priority (attrib f))
      = rtw_seccalctkipmic key hdr data (rx_priority (attrib f))"
    by (simp only: b(1) append_assoc seccalctkipmic_header [OF b(3)])
  have k: "\<not> (IS_MCAST (rx_ra (attrib f)) \<and> \<not> binstallGrpkey s)"
    "(if IS_MCAST (rx_ra (attrib f)) then rd (dot118021XGrprxmickey s) (rx_key_index (attrib f)) else Some unicast)
      = Some key"
    using assms(3) by (auto simp: mic_key_def split: if_splits)
  show ?thesis
    unfolding recvframe_chkmic_def Let_def dl
    using assms(2) k d m h ul by (auto simp: body_offset_def [symmetric])
qed

section \<open>A fragmented frame through the handler\<close>

fun chk_run where
  "chk_run hz now mk ky s q b [] = Some ([], s, q, b, [])"
| "chk_run hz now mk ky s q b (f # fs) =
     do {
       (r, s, q, b, freed) \<leftarrow> recvframe_chk_defrag hz now mk ky s f q b;
       (rs, s, q, b, freed') \<leftarrow> chk_run hz now mk ky s q b fs;
       Some (r # rs, s, q, b, freed @ freed')
     }"

definition msdu_fragments :: "rx_frame \<Rightarrow> rx_frame list \<Rightarrow> bool" where
  "msdu_fragments p ns \<longleftrightarrow> list_all fragment (p # ns) \<and> fits p ns \<and> ns \<noteq> []
     \<and> numbered_from 0 (p # ns) \<and> length ns < 16
     \<and> list_all (\<lambda>n. rx_mfrag (attrib n) = 1) (p # butlast ns) \<and> rx_mfrag (attrib (last ns)) = 0"

lemma fragment_type: "fragment n \<Longrightarrow> \<exists>t. GetFrameType (drop (nat (rx_data n)) (buf n)) = Some t"
proof -
  assume n: "fragment n"
  then have "2 \<le> length (frame_bytes n)" by (simp add: fragment_def body_offset_def)
  then have "2 \<le> length (drop (nat (rx_data n)) (buf n))" by (simp add: frame_bytes_def)
  then show ?thesis by (simp add: GetFrameType_def RTW_GET_LE16_def rd_def)
qed

lemma numbered_from_nth: "numbered_from k ns \<Longrightarrow> i < length ns \<Longrightarrow> rx_frag_num (attrib (ns ! i)) = k + of_nat i"
  by (induction ns arbitrary: k i) (auto simp: nth_Cons split: nat.split)

lemma chk_defrag_first:
  assumes "fragment p" "rx_mfrag (attrib p) = 1" "rx_frag_num (attrib p) = 0"
  shows "recvframe_chk_defrag hz now mk ky s p (Some q) b = Some (None, s, Some [p], b, map rx_id q)"
  using fragment_type [OF assms(1)] assms(2,3)
  by (auto simp: recvframe_chk_defrag_def defrag_enqueue_def defrag_chkmic_def)

lemma chk_defrag_middle:
  assumes "fragment n" "rx_mfrag (attrib n) = 1" "rx_frag_num (attrib n) \<noteq> 0"
  shows "recvframe_chk_defrag hz now mk ky s n (Some q) b = Some (None, s, Some (q @ [n]), b, [])"
  using fragment_type [OF assms(1)] assms(2,3)
  by (auto simp: recvframe_chk_defrag_def defrag_enqueue_def defrag_chkmic_def)

lemma chk_defrag_last:
  assumes "fragment n" "rx_mfrag (attrib n) = 0" "rx_frag_num (attrib n) \<noteq> 0"
    "recvframe_defrag (q @ [n]) = Some (Some p, freed)"
    "rx_privacy (attrib p) \<noteq> 0" "recvframe_chkmic hz now mk ky s p = Some (ok, s', p')"
  shows "recvframe_chk_defrag hz now mk ky s n (Some q) b
    = Some (if ok then Some p' else None, s', Some [], b, if ok then freed else freed @ [rx_id p'])"
  using fragment_type [OF assms(1)] assms(2-)
  by (auto simp: recvframe_chk_defrag_def defrag_enqueue_def defrag_chkmic_def)

lemma chk_run_append:
  "chk_run hz now mk ky s q b (fs @ gs) = do {
     (rs, s, q, b, freed) \<leftarrow> chk_run hz now mk ky s q b fs;
     (rs', s, q, b, freed') \<leftarrow> chk_run hz now mk ky s q b gs;
     Some (rs @ rs', s, q, b, freed @ freed') }"
  by (induction fs arbitrary: s q b) (auto simp: bind_eq_Some_conv split: option.splits Option.bind_splits)

lemma chk_run_middle:
  assumes "list_all (\<lambda>n. fragment n \<and> rx_mfrag (attrib n) = 1 \<and> rx_frag_num (attrib n) \<noteq> 0) ns"
  shows "chk_run hz now mk ky s (Some q) b ns = Some (replicate (length ns) None, s, Some (q @ ns), b, [])"
  using assms by (induction ns arbitrary: q) (simp_all add: chk_defrag_middle)

lemma msdu_fragments_split:
  assumes "msdu_fragments p ns"
  obtains ms n where "ns = ms @ [n]" "fragment p" "rx_mfrag (attrib p) = 1" "rx_frag_num (attrib p) = 0"
    "list_all (\<lambda>n. fragment n \<and> rx_mfrag (attrib n) = 1 \<and> rx_frag_num (attrib n) \<noteq> 0) ms"
    "fragment n" "rx_mfrag (attrib n) = 0" "rx_frag_num (attrib n) \<noteq> 0"
proof -
  have a: "list_all fragment (p # ns)" "ns \<noteq> []" "numbered_from 0 (p # ns)" "length ns < 16"
    "list_all (\<lambda>n. rx_mfrag (attrib n) = 1) (p # butlast ns)" "rx_mfrag (attrib (last ns)) = 0"
    using assms unfolding msdu_fragments_def by blast+
  have nz: "rx_frag_num (attrib n) \<noteq> 0" if "n \<in> set ns" for n
  proof -
    obtain i where i: "i < length ns" "n = ns ! i" using \<open>n \<in> set ns\<close> by (metis in_set_conv_nth)
    have "numbered_from (0 + 1) ns" using a(3) by simp
    from numbered_from_nth [OF this i(1)] have "rx_frag_num (attrib n) = of_nat (i + 1)"
      unfolding i(2) by (simp add: add.commute)
    moreover have "unat (of_nat (i + 1) :: u8) = i + 1"
      using i(1) a(4) by (simp only: unsigned_of_nat) (simp add: take_bit_nat_eq_self)
    ultimately show ?thesis by (metis add_is_0 one_neq_zero unat_0)
  qed
  show thesis
  proof (rule that [of "butlast ns" "last ns"])
    show "list_all (\<lambda>n. fragment n \<and> rx_mfrag (attrib n) = 1 \<and> rx_frag_num (attrib n) \<noteq> 0) (butlast ns)"
      using a(1,5) nz by (auto simp: list_all_iff dest: in_set_butlastD)
  qed (use a nz in \<open>auto simp: list_all_iff\<close>)
qed

lemma msdu_fragments_run:
  assumes "msdu_fragments p ns" "rx_privacy (attrib p) \<noteq> 0" "rx_encrypt (attrib p) = TKIP"
    and "mic_key s (attrib p) unicast = Some key"
    and "reassembled p ns = hdr @ data @ mic @ icv" "length hdr = body_offset p" "30 \<le> length hdr"
    "length mic = 8" "length icv = rx_icv_len (attrib (last ns))"
  shows "\<exists>p' freed. chk_run hz now (Some unicast) ky s (Some q) b (p # ns)
      = (let ok = (rtw_seccalctkipmic key hdr data (rx_priority (attrib p)) = mic)
         in Some (replicate (length ns) None @ [if ok then Some p' else None],
              chkmic_verdict hz now ky ((attrib p)\<lparr>rx_icv_len := rx_icv_len (attrib (last ns))\<rparr>) ok s,
              Some [], b, freed))
    \<and> without_icv p' = hdr @ data \<and> wf_frame p'
    \<and> rx_icv_len (attrib p') \<le> length (frame_bytes p')
    \<and> attrib p' = (attrib p)\<lparr>rx_icv_len := rx_icv_len (attrib (last ns))\<rparr>"
proof -
  obtain ms n where ns: "ns = ms @ [n]" and p: "fragment p" "rx_mfrag (attrib p) = 1" "rx_frag_num (attrib p) = 0"
    and ms: "list_all (\<lambda>n. fragment n \<and> rx_mfrag (attrib n) = 1 \<and> rx_frag_num (attrib n) \<noteq> 0) ms"
    and n: "fragment n" "rx_mfrag (attrib n) = 0" "rx_frag_num (attrib n) \<noteq> 0"
    by (rule msdu_fragments_split [OF assms(1)])
  have all: "list_all fragment (p # ns)" "fits p ns" "numbered_from 0 (p # ns)" "ns \<noteq> []"
    using assms(1) by (simp_all add: msdu_fragments_def)
  obtain p1 where p1: "recvframe_defrag (p # ns) = Some (Some p1, map rx_id ns)" "wf_frame p1"
    "frame_bytes p1 = reassembled p ns"
    "attrib p1 = (attrib p)\<lparr>rx_icv_len := rx_icv_len (attrib (last ns))\<rparr>"
    using recvframe_defrag_ok [OF all(1,2)] all(3,4) by auto
  define ok where "ok \<longleftrightarrow> rtw_seccalctkipmic key hdr data (rx_priority (attrib p)) = mic"
  define s1 where "s1 = chkmic_verdict hz now ky (attrib p1) ok s"
  define p2 where "p2 = snd (recvframe_pull_tail p1 8)"
  have key: "mic_key s (attrib p1) unicast = Some key"
    using assms(4) by (auto simp: mic_key_def p1(4) split: if_splits)
  have chk: "recvframe_chkmic hz now (Some unicast) ky s p1 = Some (ok, s1, p2)"
    unfolding ok_def s1_def p2_def
    using recvframe_chkmic_tkip [OF p1(2) _ key, of hdr data mic icv hz now ky] assms(3,5-9) p1(3,4)
    by (simp add: body_offset_def Let_def)
  have w: "wf_frame p2" "frame_bytes p2 = take (length (frame_bytes p1) - 8) (frame_bytes p1)"
    "attrib p2 = attrib p1"
    using wf_pull_tail [OF p1(2), of 8] assms(5,8) p1(3) by (simp_all add: p2_def)
  have last: "recvframe_chk_defrag hz now (Some unicast) ky s n (Some (p # ms)) b
    = Some (if ok then Some p2 else None, s1, Some [], b,
        if ok then map rx_id ns else map rx_id ns @ [rx_id p2])"
    using chk_defrag_last [OF n _ _ chk, of "p # ms"] p1(1,4) assms(2) by (simp add: ns)
  have "rx_icv_len (attrib p2) \<le> length (frame_bytes p2)"
    using w assms(5,8,9) p1(3,4) by simp
  moreover have "without_icv p2 = hdr @ data"
    using w assms(5,8,9) p1(3,4) by (simp add: without_icv_def)
  moreover have "chk_run hz now (Some unicast) ky s (Some q) b (p # ns)
    = Some (replicate (length ns) None @ [if ok then Some p2 else None], s1, Some [], b,
        map rx_id q @ (if ok then map rx_id ns else map rx_id ns @ [rx_id p2]))"
    by (simp add: ns chk_defrag_first [OF p] chk_run_append chk_run_middle [OF ms] last [unfolded ns]
        replicate_append_same)
  ultimately show ?thesis
    using w(1,3) unfolding ok_def s1_def p1(4) Let_def by blast
qed

section \<open>Properties\<close>

text \<open>C25. Frame buffers: on a well-formed frame (data inside tail inside the buffer, \<open>len\<close> their
  distance) pulling, pulling the tail and putting, by any non-negative amount, leave a well-formed
  frame, and pushing does as well.\<close>

theorem frame_operations_wf:
  assumes "wf_frame f"
  shows "wf_frame (snd (recvframe_pull f (int sz))) \<and> wf_frame (snd (recvframe_pull_tail f (int sz)))
    \<and> wf_frame (snd (recvframe_put f (int sz))) \<and> wf_frame (snd (recvframe_push f (int sz)))"
proof -
  obtain d l where f: "rx_data f = int d" "rx_tail f = int (d + l)" "rx_len f = of_nat l"
    "d + l \<le> length (buf f)" "length (buf f) < 2 ^ 31" by (rule wf_frameE [OF assms])
  have n: "length (frame_bytes f) = l" using f by (simp add: frame_bytes_eq [OF f(1,3-5)])
  have "wf_frame (snd (recvframe_pull f (int sz)))"
  proof (cases "sz \<le> l")
    case True
    then show ?thesis using wf_pull [OF assms] n by simp
  next
    case False
    then show ?thesis using assms f by (simp add: recvframe_pull_def)
  qed
  moreover have "wf_frame (snd (recvframe_pull_tail f (int sz)))"
  proof (cases "sz \<le> l")
    case True
    then show ?thesis using wf_pull_tail [OF assms] n by simp
  next
    case False
    then show ?thesis using assms f by (simp add: recvframe_pull_tail_def)
  qed
  moreover have "wf_frame (snd (recvframe_push f (int sz)))"
  proof (cases "sz \<le> d")
    case True
    then show ?thesis using wf_push [OF assms] f by simp
  next
    case False
    then show ?thesis using assms f by (simp add: recvframe_push_def)
  qed
  moreover have "wf_frame (snd (recvframe_put f (int sz)))"
  proof (cases "d + l + sz \<le> length (buf f)")
    case True
    then have "rx_tail (snd (recvframe_put f (int sz))) = int (d + (l + sz))"
      "rx_len (snd (recvframe_put f (int sz))) = of_nat (l + sz)"
      using f by (simp_all add: recvframe_put_def)
    with True f show ?thesis by (intro wf_frameI [of _ d "l + sz"]) simp_all
  next
    case False
    then show ?thesis using assms f by (simp add: recvframe_put_def)
  qed
  ultimately show ?thesis by blast
qed

text \<open>C26. Conservation: \<open>recvframe_chk_defrag\<close> neither loses nor duplicates a frame: the arriving
  frame and those queued before are, each exactly once, handed on, queued or freed.\<close>

theorem recvframe_chk_defrag_conserves:
  assumes "recvframe_chk_defrag hz now mk ky s f sta_q bcmc_q = Some (r, s', sta_q', bcmc_q', freed)"
    and "rx_mfrag (attrib f) \<le> 1"
  shows "add_mset (rx_id f) (ids (case sta_q of None \<Rightarrow> [] | Some q \<Rightarrow> q) + ids bcmc_q)
    = opt_ids r + ids (case sta_q' of None \<Rightarrow> [] | Some q \<Rightarrow> q) + ids bcmc_q' + mset freed"
proof -
  obtain frtype where t: "GetFrameType (drop (nat (rx_data f)) (buf f)) = Some frtype"
    using assms(1) by (auto simp: recvframe_chk_defrag_def bind_eq_Some_conv)
  define use where "use \<longleftrightarrow> sta_q = None \<and> frtype \<noteq> WIFI_DATA_TYPE"
  obtain r0 q freed0 where e: "defrag_enqueue f (if use then Some bcmc_q else sta_q) = Some (r0, q, freed0)"
    and m: "defrag_chkmic hz now mk ky s r0 freed0 = Some (r, s', freed)"
    and q: "sta_q' = (if use then None else q)"
      "bcmc_q' = (if use then (case q of None \<Rightarrow> bcmc_q | Some q \<Rightarrow> q) else bcmc_q)"
    using assms(1) t unfolding recvframe_chk_defrag_def Let_def
    by (auto simp: bind_eq_Some_conv use_def [symmetric])
  have "use \<Longrightarrow> q \<noteq> None"
    using e by (auto simp: defrag_enqueue_def Let_def bind_eq_Some_conv split: if_splits)
  then show ?thesis
    using defrag_enqueue_ids [OF e assms(2)] defrag_chkmic_ids [OF m] q
    by (cases use) (auto simp: use_def add.assoc [symmetric] split: option.splits)
qed

text \<open>Error: a queue whose fragments are not numbered 0, 1, 2, ... gives \<open>NULL\<close> and frees
  every frame of it.\<close>

theorem recvframe_defrag_rejects:
  assumes "list_all fragment (p # ns)" "fits p ns" "\<not> numbered_from 0 (p # ns)"
  shows "recvframe_defrag (p # ns) = Some (None, map rx_id (p # ns))"
  using recvframe_defrag_ok [OF assms(1,2)] assms(3) by auto

text \<open>Bounds: because the copy precedes the check of the room, a second fragment whose body
  does not fit behind the first one is written past the end of the first one's buffer.\<close>

theorem recvframe_defrag_overflow:
  assumes "fragment p" "rx_frag_num (attrib p) = 0" "fragment n" "rx_frag_num (attrib n) = 1"
    and "int (length (buf p)) < rx_data p + int (length (without_icv p) + length (body n))"
  shows "recvframe_defrag [p, n] = None"
  using defrag_append_overflow [OF assms(3) _ _ assms(5)] assms(1,2,4)
  by (simp add: recvframe_defrag_def fragment_def)

text \<open>Allocation: when the allocator gives the number of bytes asked for and the packet lies
  in the receive buffer, \<open>rtw_os_alloc_recvframe\<close> copies it inside the new buffer, whatever the
  alignment of the address, and putting the packet length gives a well-formed frame that holds
  the packet.\<close>

theorem rtw_os_alloc_recvframe_holds_packet:
  assumes "\<And>n. length (snd (skb n)) = n" "unat pkt_len \<le> length mem" "rx_len f = 0"
  shows "\<exists>g. rtw_os_alloc_recvframe (\<lambda>n. Some (skb n)) clone_ok (Some mem) pkt_len qos f = Some (Some g)
    \<and> wf_frame (snd (recvframe_put g (int (unat pkt_len))))
    \<and> frame_bytes (snd (recvframe_put g (int (unat pkt_len)))) = take (unat pkt_len) mem"
proof -
  define sz where "sz = recvframe_alloc_sz (rx_mfrag (attrib f)) (rx_frag_num (attrib f)) (unat pkt_len)"
  define d where "d = 8 - fst (skb sz) mod 8 + (if qos \<noteq> 0 then 6 else 0)"
  define pkt where "pkt = take (unat pkt_len) mem"
  define b where "b = take d (snd (skb sz)) @ pkt @ drop (d + length pkt) (snd (skb sz))"
  define g where "g = f\<lparr>buf := b, rx_data := int d, rx_tail := int d\<rparr>"
  have pkt: "length pkt = unat pkt_len" using assms(2) by (simp add: pkt_def)
  have d: "d \<le> 14" unfolding d_def by (auto intro: order_trans [OF diff_le_self])
  have "unat pkt_len < 2 ^ 16" using unsigned_less [of pkt_len] by simp
  then have sz: "d + unat pkt_len \<le> sz" "sz < 2 ^ 31"
    using d by (auto simp: sz_def recvframe_alloc_sz_def)
  have w: "wrn (take sz (snd (skb sz))) d pkt = Some b"
    using sz(1) assms(1) pkt by (simp add: wrn_Some_iff b_def)
  have lb: "length b = sz" using sz(1) assms(1) pkt by (simp add: b_def)
  have "rtw_os_alloc_recvframe (\<lambda>n. Some (skb n)) clone_ok (Some mem) pkt_len qos f = Some (Some g)"
    using assms(2) w
    by (cases "skb sz", cases "qos = 0")
      (simp_all add: rtw_os_alloc_recvframe_def Let_def sz_def [symmetric] rdn_def pkt_def [symmetric] g_def d_def)
  moreover have put: "rx_data (snd (recvframe_put g (int l))) = int d
      \<and> rx_tail (snd (recvframe_put g (int l))) = int (d + l)
      \<and> rx_len (snd (recvframe_put g (int l))) = of_nat l" if "d + l \<le> sz" for l
    using that lb assms(3) by (simp add: recvframe_put_def g_def)
  note r = put [OF sz(1), THEN conjunct1] put [OF sz(1), THEN conjunct2, THEN conjunct1]
    put [OF sz(1), THEN conjunct2, THEN conjunct2]
  moreover have "wf_frame (snd (recvframe_put g (int (unat pkt_len))))"
    using sz lb by (intro wf_frameI [OF r]) (simp_all add: g_def)
  moreover have "frame_bytes (snd (recvframe_put g (int (unat pkt_len)))) = take (unat pkt_len) mem"
    using sz lb assms(1) pkt by (subst frame_bytes_eq [OF r(1,3)]) (simp_all add: g_def b_def pkt_def)
  ultimately show ?thesis by blast
qed

section \<open>Concrete frames\<close>

definition ex_header :: bytes where "ex_header = [8, 0x41] @ replicate 30 1"

definition ex_att :: "u8 \<Rightarrow> u8 \<Rightarrow> rx_attrib" where
  "ex_att mfrag num = \<lparr>rx_encrypt = TKIP, rx_key_index = 0, rx_hdrlen = 24, rx_iv_len = 8,
     rx_ra = [2, 0, 0, 0, 0, 5], rx_ta = [2, 0, 0, 0, 0, 6], rx_icv_len = 4, rx_mfrag = mfrag,
     rx_frag_num = num, rx_seq_num = 9, rx_priority = 0, rx_privacy = 1, rx_bdecrypted = True,
     rx_eth_type = 0, rx_dst = [2, 0, 0, 0, 0, 5], rx_src = [2, 0, 0, 0, 0, 6],
     rx_bssid = [2, 0, 0, 0, 0, 6], rx_pkt_len = 0, rx_to_fr_ds = 1, rx_qos = False, rx_order = False,
     rx_amsdu = False, rx_ack_policy = 0, rx_mdata = False, rx_pw_save = False\<rparr>"

definition ex_recv :: "nat \<Rightarrow> u8 \<Rightarrow> u8 \<Rightarrow> bytes \<Rightarrow> nat \<Rightarrow> rx_frame" where
  "ex_recv i mfrag num payload room = \<lparr>rx_id = i, buf = ex_header @ payload @ replicate room 0,
     rx_data = 0, rx_tail = int (32 + length payload), rx_len = of_nat (32 + length payload),
     attrib = ex_att mfrag num, rx_psta = None\<rparr>"

definition ex_first :: rx_frame where
  "ex_first = ex_recv 1 1 0 [0xAA, 0xAA, 3, 0, 0, 9, 9, 9, 9] 60"

definition ex_second :: rx_frame where
  "ex_second = ex_recv 2 0 1 [0, 8, 0, 1, 2, 130, 142, 89, 155, 253, 177, 94, 60, 5, 5, 5, 5] 0"

definition ex_rx_sec :: rx_security where
  "ex_rx_sec = security_priv.extend ex_sec \<lparr>dot118021XGrprxmickey = [], bcheck_grpkey = False,
     last_mic_err_time = 0\<rparr>"

lemma length_ex_header: "length ex_header = 32"
  by (simp add: ex_header_def)

lemma ex_recv_bytes:
  assumes "length payload < 1000" "room < 1000"
  shows "wf_frame (ex_recv i m k payload room)" "frame_bytes (ex_recv i m k payload room) = ex_header @ payload"
proof -
  have f: "rx_data (ex_recv i m k payload room) = int 0"
    "rx_tail (ex_recv i m k payload room) = int (0 + (32 + length payload))"
    "rx_len (ex_recv i m k payload room) = of_nat (32 + length payload)"
    by (simp_all add: ex_recv_def)
  show "wf_frame (ex_recv i m k payload room)"
    using assms by (intro wf_frameI [OF f]) (simp_all add: ex_recv_def length_ex_header)
  show "frame_bytes (ex_recv i m k payload room) = ex_header @ payload"
    using assms by (subst frame_bytes_eq [OF f(1,3)]) (simp_all add: ex_recv_def length_ex_header)
qed

lemma ex_recv_fragment:
  "4 \<le> length payload \<Longrightarrow> length payload < 1000 \<Longrightarrow> room < 1000 \<Longrightarrow> fragment (ex_recv i m k payload room)"
  using ex_recv_bytes [of payload room i m k]
  by (simp add: fragment_def body_offset_def) (simp add: ex_recv_def ex_att_def ex_header_def)

lemma ex_fragments:
  "fragment ex_first" "fragment ex_second" "frame_bytes ex_first = ex_header @ [0xAA, 0xAA, 3, 0, 0, 9, 9, 9, 9]"
  "frame_bytes ex_second = ex_header @ [0, 8, 0, 1, 2, 130, 142, 89, 155, 253, 177, 94, 60, 5, 5, 5, 5]"
  "attrib ex_first = ex_att 1 0" "attrib ex_second = ex_att 0 1" "rx_data ex_first = 0"
  "length (buf ex_first) = 101"
  by (simp_all add: ex_first_def ex_second_def ex_recv_fragment ex_recv_bytes,
      simp_all add: ex_recv_def ex_header_def)

theorem frame_operations_wf_witness:
  "wf_frame (snd (recvframe_pull ex_first (int 32)))"
  using frame_operations_wf [of ex_first 32] ex_fragments(1) by (simp add: fragment_def)

theorem recvframe_chk_defrag_conserves_witness:
  "\<exists>r s q b freed. recvframe_chk_defrag 100 5 None 0 ex_rx_sec ex_first (Some [ex_second]) [] = Some (r, s, q, b, freed)
    \<and> {#1, 2#} = opt_ids r + ids (case q of None \<Rightarrow> [] | Some q \<Rightarrow> q) + ids b + mset freed"
proof -
  have r: "recvframe_chk_defrag 100 5 None 0 ex_rx_sec ex_first (Some [ex_second]) []
    = Some (None, ex_rx_sec, Some [ex_first], [], [rx_id ex_second])"
    by (simp add: chk_defrag_first [OF ex_fragments(1)] ex_fragments ex_att_def)
  have "rx_id ex_first = 1" "rx_id ex_second = 2" by (simp_all add: ex_first_def ex_second_def ex_recv_def)
  with r recvframe_chk_defrag_conserves [OF r] show ?thesis by (simp add: ex_fragments ex_att_def)
qed

lemma ex_msdu: "msdu_fragments ex_first [ex_second]"
  by (simp add: msdu_fragments_def ex_fragments fits_def body_def body_offset_def ex_att_def ex_header_def)

lemma ex_reassembled:
  "reassembled ex_first [ex_second] = ex_header @ [0xAA, 0xAA, 3, 0, 0, 0, 8, 0, 1, 2]
    @ [130, 142, 89, 155, 253, 177, 94, 60] @ [5, 5, 5, 5]"
  by (simp add: reassembled_def without_icv_def body_def body_offset_def ex_fragments ex_att_def ex_header_def)

lemma ex_mic:
  "rtw_seccalctkipmic (replicate 8 7) ex_header [0xAA, 0xAA, 3, 0, 0, 0, 8, 0, 1, 2] 0
    = [130, 142, 89, 155, 253, 177, 94, 60]"
  by code_simp

theorem recvframe_defrag_rejects_witness:
  "recvframe_defrag [ex_first, ex_recv 3 0 2 (replicate 9 0) 0] = Some (None, [1, 3])"
proof -
  have f: "attrib (ex_recv 3 0 2 (replicate 9 0) 0) = ex_att 0 2" "rx_id (ex_recv 3 0 2 (replicate 9 0) 0) = 3"
    "rx_id ex_first = 1"
    by (simp_all add: ex_recv_def ex_first_def)
  have "recvframe_defrag [ex_first, ex_recv 3 0 2 (replicate 9 0) 0]
    = Some (None, map rx_id [ex_first, ex_recv 3 0 2 (replicate 9 0) 0])"
  proof (rule recvframe_defrag_rejects)
    show "list_all fragment [ex_first, ex_recv 3 0 2 (replicate 9 0) 0]"
      by (simp add: ex_fragments ex_recv_fragment)
    show "fits ex_first [ex_recv 3 0 2 (replicate 9 0) 0]"
      by (simp add: fits_def ex_fragments body_def body_offset_def ex_recv_bytes f length_ex_header ex_att_def)
    show "\<not> numbered_from 0 [ex_first, ex_recv 3 0 2 (replicate 9 0) 0]"
      by (simp add: f ex_att_def)
  qed
  then show ?thesis by (simp add: f)
qed

theorem recvframe_defrag_overflow_witness:
  "recvframe_defrag [ex_first, ex_recv 3 0 1 (replicate 200 0) 0] = None"
  by (rule recvframe_defrag_overflow)
    (simp_all add: ex_fragments ex_recv_fragment without_icv_def body_def body_offset_def ex_recv_bytes,
     simp_all add: ex_recv_def ex_att_def ex_header_def)

theorem rtw_os_alloc_recvframe_holds_packet_witness:
  "\<exists>g. rtw_os_alloc_recvframe (\<lambda>n. Some (5, replicate n 0)) True (Some (replicate 100 7)) 100 0 (ex_first\<lparr>rx_len := 0\<rparr>)
      = Some (Some g) \<and> frame_bytes (snd (recvframe_put g (int (unat (100 :: u16))))) = replicate 100 7"
  using rtw_os_alloc_recvframe_holds_packet [of "\<lambda>n. (5, replicate n 0)" 100 "replicate 100 7" "ex_first\<lparr>rx_len := 0\<rparr>" True 0]
  by auto

section \<open>Fragments of different messages\<close>

text \<open>C12. What \<open>recvframe_defrag\<close> makes of fragments that fit in the first one's buffer, each with lengths, sequence
  number, protection, cipher and key of its own: their numbers alone decide. When they run 0, 1, 2, ... the result is the
  header and body of the first fragment and the bodies of the others, each without its own header and IV and, but for the last
  one, without its check value; it has the attributes of the first fragment, so it counts as protected or not as that
  one did; the other fragments are freed. When they do not, nothing is made and all are freed. Nothing compares the
  sequence numbers or the protection of the fragments.\<close>

theorem recvframe_defrag_by_number:
  assumes "list_all fragment (p # ns)" and "fits p ns"
  shows "\<exists>p'. recvframe_defrag (p # ns)
      = Some (if numbered_from 0 (p # ns) then (Some p', map rx_id ns) else (None, map rx_id (p # ns)))
    \<and> wf_frame p' \<and> frame_bytes p' = reassembled p ns
    \<and> attrib p' = (attrib p)\<lparr>rx_icv_len := rx_icv_len (attrib (last (p # ns)))\<rparr>"
  using recvframe_defrag_ok [OF assms] by blast

text \<open>A fragment in clear, of another sequence number, behind a protected one: the result counts as protected.\<close>

definition ex_plain :: rx_frame where
  "ex_plain = (ex_recv 4 0 1 [5, 6, 7, 8] 0)\<lparr>attrib := (ex_att 0 1)
     \<lparr>rx_encrypt := 0, rx_iv_len := 0, rx_icv_len := 0, rx_seq_num := 77, rx_privacy := 0\<rparr>\<rparr>"

lemma ex_plain_sel:
  "fragment ex_plain" "frame_bytes ex_plain = ex_header @ [5, 6, 7, 8]" "rx_id ex_plain = 4"
  "attrib ex_plain = (ex_att 0 1)\<lparr>rx_encrypt := 0, rx_iv_len := 0, rx_icv_len := 0, rx_seq_num := 77, rx_privacy := 0\<rparr>"
proof -
  have w: "wf_frame ex_plain" "frame_bytes ex_plain = frame_bytes (ex_recv 4 0 1 [5, 6, 7, 8] 0)"
    using ex_recv_bytes(1) [of "[5, 6, 7, 8]" 0 4 0 1] by (simp_all add: ex_plain_def wf_frame_def frame_bytes_def)
  show a: "attrib ex_plain = (ex_att 0 1)\<lparr>rx_encrypt := 0, rx_iv_len := 0, rx_icv_len := 0, rx_seq_num := 77, rx_privacy := 0\<rparr>"
    "rx_id ex_plain = 4"
    by (simp_all add: ex_plain_def ex_recv_def)
  show b: "frame_bytes ex_plain = ex_header @ [5, 6, 7, 8]" using w(2) by (simp add: ex_recv_bytes)
  show "fragment ex_plain" by (simp add: fragment_def w(1) b a body_offset_def ex_att_def ex_header_def)
qed

theorem recvframe_defrag_by_number_witness:
  "\<exists>p'. recvframe_defrag [ex_first, ex_plain] = Some (Some p', [4])
    \<and> frame_bytes p' = ex_header @ [0xAA, 0xAA, 3, 0, 0] @ replicate 8 1 @ [5, 6, 7, 8]
    \<and> rx_privacy (attrib p') = 1 \<and> rx_privacy (attrib ex_plain) = 0
    \<and> rx_seq_num (attrib ex_plain) \<noteq> rx_seq_num (attrib ex_first)"
proof -
  have "list_all fragment [ex_first, ex_plain]" "fits ex_first [ex_plain]"
    by (simp_all add: ex_fragments ex_plain_sel fits_def body_def body_offset_def ex_att_def ex_header_def)
  then obtain p' where "recvframe_defrag [ex_first, ex_plain]
      = Some (if numbered_from 0 [ex_first, ex_plain] then (Some p', map rx_id [ex_plain]) else (None, map rx_id [ex_first, ex_plain]))"
    "frame_bytes p' = reassembled ex_first [ex_plain]"
    "attrib p' = (attrib ex_first)\<lparr>rx_icv_len := rx_icv_len (attrib (last [ex_first, ex_plain]))\<rparr>"
    using recvframe_defrag_by_number by blast
  then show ?thesis
    by (intro exI [of _ p']) (simp_all add: ex_fragments ex_plain_sel reassembled_def without_icv_def body_def body_offset_def
      ex_att_def ex_header_def)
qed

end
