(* ===== verification/Rx_Deliver.thy ===== *)
theory Rx_Deliver
  imports Rx_Frame
begin

text \<open>
  Conversion of received data frames to Ethernet packets: \<open>wlanhdr_to_ethhdr\<close> and
  \<open>amsdu_to_msdu\<close> of \<^verbatim>\<open>core/rtw_recv.c\<close>, with \<open>rtw_os_alloc_msdu_pkt\<close> of
  \<^verbatim>\<open>os_dep/recv_linux.c\<close>, and the port control of 802.1X, \<open>portctrl\<close>.
\<close>

section \<open>Header conversion\<close>

definition rtw_rfc1042_header :: bytes where
  "rtw_rfc1042_header = [0xAA, 0xAA, 0x03, 0x00, 0x00, 0x00]"

definition rtw_bridge_tunnel_header :: bytes where
  "rtw_bridge_tunnel_header = [0xAA, 0xAA, 0x03, 0x00, 0x00, 0xF8]"

definition SNAP_ETH_TYPE_IPX :: bytes where "SNAP_ETH_TYPE_IPX = [0x81, 0x37]"

definition SNAP_ETH_TYPE_APPLETALK_AARP :: bytes where "SNAP_ETH_TYPE_APPLETALK_AARP = [0x80, 0xF3]"

definition frame_wrn :: "rx_frame \<Rightarrow> nat \<Rightarrow> bytes \<Rightarrow> rx_frame option" where
  "frame_wrn f i xs = do { b \<leftarrow> wrn (buf f) (nat (rx_data f) + i) xs; Some (f\<lparr>buf := b\<rparr>) }"

text \<open>\<open>bsnaphdr\<close>; the type is read only behind an RFC 1042 header.\<close>

definition frame_has_snap :: "rx_frame \<Rightarrow> nat \<Rightarrow> bool option" where
  "frame_has_snap f i =
     do {
       psnap \<leftarrow> frame_rdn f i 6;
       if psnap = rtw_rfc1042_header
         then do {
           psnap_type \<leftarrow> frame_rdn f (i + 6) 2;
           Some (psnap_type \<noteq> SNAP_ETH_TYPE_IPX \<and> psnap_type \<noteq> SNAP_ETH_TYPE_APPLETALK_AARP)
         }
       else Some (psnap = rtw_bridge_tunnel_header)
     }"

text \<open>\<open>mp\<close> is \<open>check_fwstate(pmlmepriv, WIFI_MP_STATE)\<close>. A failed \<open>recvframe_pull\<close> is a write
  through a null pointer, hence \<^term>\<open>None\<close>.\<close>

definition wlanhdr_to_ethhdr :: "bool \<Rightarrow> rx_frame \<Rightarrow> rx_frame option" where
  "wlanhdr_to_ethhdr mp f =
     do {
       let a = attrib f;
       let f = (if rx_encrypt a \<noteq> 0 then snd (recvframe_pull_tail f (int (rx_icv_len a))) else f);
       bsnaphdr \<leftarrow> frame_has_snap f (rx_hdrlen a + rx_iv_len a);
       let rmv_len = rx_hdrlen a + rx_iv_len a + (if bsnaphdr then 6 else 0);
       let len = (ucast (rx_len f - of_nat rmv_len) :: u16);
       eth_type \<leftarrow> frame_rdn f rmv_len 2;
       let f = f\<lparr>attrib := a\<lparr>rx_eth_type := bytes_le16 (eth_type ! 1) (eth_type ! 0)\<rparr>\<rparr>;
       f \<leftarrow> (if mp then do {
               f \<leftarrow> frame_wrn f rmv_len [0x87, 0x12];
               let (ok, f) = recvframe_pull f (int rmv_len - 14 + 2 - 24);
               head \<leftarrow> rdn (buf f) 0 24;
               if ok then frame_wrn f 0 head else None
             }
             else do {
               let (ok, f) = recvframe_pull f (int rmv_len - 14 + (if bsnaphdr then 2 else 0));
               if ok then Some f else None
             });
       let ptr = (if mp then 24 else 0);
       f \<leftarrow> frame_wrn f ptr (take 6 (rx_dst a));
       f \<leftarrow> frame_wrn f (ptr + 6) (take 6 (rx_src a));
       if bsnaphdr then Some f
       else frame_wrn f (ptr + 12) [ucast (drop_bit 8 len), ucast len]
     }"

section \<open>Aggregated frames\<close>

text \<open>The packet made of the subframe at the start of \<open>pdata\<close>. The code reads the type field before it looks at the
  length; in a packet of fewer than eight bytes the read is behind its data, in the room that the socket buffer was allocated
  with, and its value decides nothing, so the model reads it only where it counts.\<close>

definition rtw_os_alloc_msdu_pkt :: "rx_attrib \<Rightarrow> u16 \<Rightarrow> bytes \<Rightarrow> bytes option" where
  "rtw_os_alloc_msdu_pkt a nSubframe_Length pdata =
     do {
       data \<leftarrow> rdn pdata 14 (unat nSubframe_Length);
       Some (if 8 \<le> length data
           \<and> ((take 6 data = rtw_rfc1042_header
               \<and> take 2 (drop 6 data) \<noteq> SNAP_ETH_TYPE_APPLETALK_AARP
               \<and> take 2 (drop 6 data) \<noteq> SNAP_ETH_TYPE_IPX)
             \<or> take 6 data = rtw_bridge_tunnel_header)
         then take 6 (rx_dst a) @ take 6 (rx_src a) @ drop 6 data
         else take 6 (rx_dst a) @ take 6 (rx_src a)
           @ [ucast (drop_bit 8 nSubframe_Length), ucast nSubframe_Length] @ data)
     }"

definition MAX_SUBFRAME_COUNT :: nat where "MAX_SUBFRAME_COUNT = 64"

definition amsdu_padding :: "nat \<Rightarrow> nat" where
  "amsdu_padding n = (let padding_len = 4 - (n + 14) mod 4 in if padding_len = 4 then 0 else padding_len)"

text \<open>The loop: \<open>alloc_ok\<close> says which allocation succeeds, \<open>nr\<close> counts the subframes so far.\<close>

function amsdu_loop :: "(nat \<Rightarrow> bool) \<Rightarrow> rx_attrib \<Rightarrow> nat \<Rightarrow> int \<Rightarrow> bytes \<Rightarrow> bytes list option" where
  "amsdu_loop alloc_ok a nr a_len pdata =
     (if a_len \<le> 14 then Some []
      else do {
        nSubframe_Length \<leftarrow> RTW_GET_BE16 pdata 12;
        let n = unat nSubframe_Length;
        if a_len < int (14 + n) then Some []
        else if \<not> alloc_ok nr then Some []
        else do {
          sub_pkt \<leftarrow> rtw_os_alloc_msdu_pkt a nSubframe_Length pdata;
          if nr + 1 \<ge> MAX_SUBFRAME_COUNT then Some [sub_pkt]
          else if a_len - int (14 + n) = 0 then Some [sub_pkt]
          else do {
            let padding_len = amsdu_padding n;
            if a_len - int (14 + n) < int padding_len then Some [sub_pkt]
            else do {
              rest \<leftarrow> amsdu_loop alloc_ok a (nr + 1) (a_len - int (14 + n) - int padding_len)
                (drop (14 + n + padding_len) pdata);
              Some (sub_pkt # rest)
            }
          }
        }
      })"
  by pat_completeness auto
termination
proof (relation "measure (\<lambda>(alloc_ok, a, nr, a_len, pdata). nat a_len)", goal_cases)
  case (2 alloc_ok a nr a_len pdata l n pkt)
  have "nat (a_len - int (14 + n) - int k) < nat a_len" for k using 2(1) by linarith
  then show ?case unfolding in_measure prod.case .
qed simp

text \<open>The packets indicated; the frame itself is freed with length 0.\<close>

definition amsdu_to_msdu :: "(nat \<Rightarrow> bool) \<Rightarrow> rx_frame \<Rightarrow> bytes list option" where
  "amsdu_to_msdu alloc_ok f =
     (let f = snd (recvframe_pull f (int (rx_hdrlen (attrib f))));
          f = (if 0 < rx_iv_len (attrib f) then snd (recvframe_pull f (int (rx_iv_len (attrib f)))) else f)
      in amsdu_loop alloc_ok (attrib f) 0 (sint (rx_len f)) (drop (nat (rx_data f)) (buf f)))"

section \<open>Port control\<close>

text \<open>\<open>blocked\<close> is \<open>ieee8021x_blocked\<close> of the transmitter's station entry, if there is one.
  The result tells whether the frame goes on; otherwise it is freed.\<close>

definition portctrl :: "u32 \<Rightarrow> bool option \<Rightarrow> rx_frame \<Rightarrow> bool option" where
  "portctrl auth_alg blocked f =
     (if auth_alg = 2 then
        (case blocked of
           Some True \<Rightarrow>
             do {
               ty \<leftarrow> frame_rdn f (rx_hdrlen (attrib f) + rx_iv_len (attrib f) + 6) 2;
               Some (bytes_le16 (ty ! 1) (ty ! 0) = 0x888E)
             }
         | _ \<Rightarrow> Some True)
      else Some True)"

declare amsdu_loop.simps [simp del]

section \<open>What an Ethernet packet is\<close>

text \<open>The payload of a data frame starts with an LLC/SNAP header that stands for an Ethernet type,
  or it does not; then its length goes into the type field.\<close>

definition snap_payload :: "bytes \<Rightarrow> bool" where
  "snap_payload msdu \<longleftrightarrow> (take 6 msdu = rtw_rfc1042_header
       \<and> take 2 (drop 6 msdu) \<noteq> SNAP_ETH_TYPE_APPLETALK_AARP \<and> take 2 (drop 6 msdu) \<noteq> SNAP_ETH_TYPE_IPX)
     \<or> take 6 msdu = rtw_bridge_tunnel_header"

definition ethernet :: "bytes \<Rightarrow> bytes \<Rightarrow> bytes \<Rightarrow> bytes" where
  "ethernet dst src msdu = dst @ src @ (if snap_payload msdu then drop 6 msdu
     else [of_nat (length msdu div 256), of_nat (length msdu)] @ msdu)"

lemma rfc1042_not_bridge: "rtw_rfc1042_header \<noteq> rtw_bridge_tunnel_header"
  by (simp add: rtw_rfc1042_header_def rtw_bridge_tunnel_header_def)

lemma frame_has_snap_eq:
  assumes "wf_frame f" "i + 8 \<le> length (frame_bytes f)"
  shows "frame_has_snap f i = Some (snap_payload (drop i (frame_bytes f)))"
  using frame_rdn_bytes [OF assms(1), of i 6] frame_rdn_bytes [OF assms(1), of "i + 6" 2] assms(2)
    rfc1042_not_bridge
  by (auto simp: frame_has_snap_def snap_payload_def add.commute)

lemma frame_wrn_ok:
  assumes "wf_frame f" "i + length xs \<le> length (frame_bytes f)"
  shows "\<exists>g. frame_wrn f i xs = Some g \<and> wf_frame g \<and> attrib g = attrib f
    \<and> frame_bytes g = take i (frame_bytes f) @ xs @ drop (i + length xs) (frame_bytes f)"
proof -
  obtain d l where f: "rx_data f = int d" "rx_tail f = int (d + l)" "rx_len f = of_nat l"
    "d + l \<le> length (buf f)" "length (buf f) < 2 ^ 31" by (rule wf_frameE [OF assms(1)])
  have il: "i + length xs \<le> l" using assms(2) f by (simp add: frame_bytes_eq [OF f(1,3-5)])
  let ?b = "take (d + i) (buf f) @ xs @ drop (d + i + length xs) (buf f)"
  let ?g = "f\<lparr>buf := ?b\<rparr>"
  have lb: "length ?b = length (buf f)" using il f(4) by simp
  have "frame_wrn f i xs = Some ?g"
    using il f by (simp add: frame_wrn_def wrn_def)
  moreover have g: "rx_data ?g = int d" "rx_tail ?g = int (d + l)" "rx_len ?g = of_nat l"
    using f by simp_all
  moreover have "wf_frame ?g"
    using f(4,5) lb by (intro wf_frameI [OF g]) (simp_all del: length_append length_take length_drop)
  moreover have "frame_bytes ?g = take l (drop d ?b)"
    using f(4,5) lb by (subst frame_bytes_eq [OF g(1,3)]) (simp_all del: length_append length_take length_drop)
  moreover have "take l (drop d ?b) = take i (frame_bytes f) @ xs @ drop (i + length xs) (frame_bytes f)"
    using il f(4) by (simp add: frame_bytes_eq [OF f(1,3-5)] drop_take min_absorb1 min_absorb2 add.commute add.left_commute)
  ultimately show ?thesis by auto
qed

lemma ucast_of_nat_16: "ucast (of_nat n :: u32) = (of_nat n :: u16)"
  by (rule bit_word_eqI) (simp add: bit_simps)

lemma u16_bytes_of_nat:
  "n < 65536 \<Longrightarrow> ucast (drop_bit 8 (of_nat n :: u16)) = (of_nat (n div 256) :: u8)"
  "ucast (of_nat n :: u16) = (of_nat n :: u8)"
proof -
  assume lt: "n < 65536"
  then have n: "unat (of_nat n :: u16) = n" by (simp add: unsigned_of_nat take_bit_nat_eq_self)
  have "unat (drop_bit 8 (of_nat n :: u16)) = n div 256" by (simp only: unsigned_drop_bit_eq n) (simp add: drop_bit_eq_div take_bit_nat_eq_self lt)
  then show "ucast (drop_bit 8 (of_nat n :: u16)) = (of_nat (n div 256) :: u8)"
    by (metis of_nat_unat)
next
  show "ucast (of_nat n :: u16) = (of_nat n :: u8)"
    by (rule bit_word_eqI) (simp add: bit_simps)
qed

definition eth_type_of :: "bytes \<Rightarrow> u16" where
  "eth_type_of b = bytes_le16 (b ! 1) (b ! 0)"

lemma wlanhdr_to_ethhdr_ok:
  assumes f: "wf_frame f" "frame_bytes f = hdr @ msdu @ icv" "length hdr = rx_hdrlen (attrib f) + rx_iv_len (attrib f)"
    and a: "24 \<le> rx_hdrlen (attrib f)" "length (rx_dst (attrib f)) = 6" "length (rx_src (attrib f)) = 6"
    and m: "8 \<le> length msdu" "length msdu < 65536"
    and icv: "length icv = (if rx_encrypt (attrib f) = 0 then 0 else rx_icv_len (attrib f))"
  shows "\<exists>g. wlanhdr_to_ethhdr False f = Some g \<and> wf_frame g
    \<and> frame_bytes g = ethernet (rx_dst (attrib f)) (rx_src (attrib f)) msdu
    \<and> rx_eth_type (attrib g) = eth_type_of (if snap_payload msdu then drop 6 msdu else msdu)"
proof -
  let ?a = "attrib f" and ?snap = "snap_payload msdu"
  define f1 where "f1 = (if rx_encrypt ?a \<noteq> 0 then snd (recvframe_pull_tail f (int (rx_icv_len ?a))) else f)"
  have f1: "wf_frame f1" "frame_bytes f1 = hdr @ msdu" "attrib f1 = ?a"
    using wf_pull_tail [OF f(1), of "rx_icv_len ?a"] f icv by (auto simp: f1_def)
  have snap: "frame_has_snap f1 (rx_hdrlen ?a + rx_iv_len ?a) = Some ?snap"
    using frame_has_snap_eq [OF f1(1), of "length hdr"] f1(2) m f(3) by simp
  define rmv where "rmv = length hdr + (if ?snap then 6 else 0)"
  have ty: "frame_rdn f1 rmv 2 = Some (take 2 (if ?snap then drop 6 msdu else msdu))"
    using frame_rdn_bytes [OF f1(1), of rmv 2] f1(2) m by (simp add: rmv_def)
  define t where "t = eth_type_of (if ?snap then drop 6 msdu else msdu)"
  have t: "bytes_le16 (take 2 (if ?snap then drop 6 msdu else msdu) ! 1) (take 2 (if ?snap then drop 6 msdu else msdu) ! 0) = t"
    by (simp add: t_def eth_type_of_def)
  define f2 where "f2 = f1\<lparr>attrib := ?a\<lparr>rx_eth_type := t\<rparr>\<rparr>"
  have f2: "wf_frame f2" "frame_bytes f2 = hdr @ msdu" "attrib f2 = ?a\<lparr>rx_eth_type := t\<rparr>"
    using f1 by (simp_all add: f2_def wf_frame_def frame_bytes_def)
  define k where "k = rmv - (if ?snap then 12 else 14)"
  have k: "int rmv - 14 + (if ?snap then 2 else 0) = int k" "k \<le> length hdr"
    using a(1) f(3) by (auto simp: k_def rmv_def)
  have "k \<le> length (frame_bytes f2)" using k(2) f2(2) by simp
  note p = wf_pull [OF f2(1) this]
  define f3 where "f3 = snd (recvframe_pull f2 (int k))"
  have p3: "recvframe_pull f2 (int k) = (True, f3)"
    using p(1) by (simp add: f3_def prod_eq_iff)
  define old where "old = drop k hdr @ take (if ?snap then 6 else 0) msdu"
  define rest where "rest = (if ?snap then drop 6 msdu else msdu)"
  have old: "length old = (if ?snap then 12 else 14)" using a(1) f(3) m by (simp add: old_def k_def rmv_def)
  then have old12: "12 \<le> length old" by simp
  have f3: "wf_frame f3" "frame_bytes f3 = old @ rest" "attrib f3 = ?a\<lparr>rx_eth_type := t\<rparr>"
    using p(2,3) f2(2,3) k(2) by (auto simp: f3_def old_def rest_def)
  obtain g1 where g1: "frame_wrn f3 0 (rx_dst ?a) = Some g1" "wf_frame g1" "attrib g1 = attrib f3"
    "frame_bytes g1 = rx_dst ?a @ drop 6 (old @ rest)"
    using frame_wrn_ok [OF f3(1), of 0 "rx_dst ?a"] f3(2) old12 a(2) by auto
  obtain g2 where g2: "frame_wrn g1 6 (rx_src ?a) = Some g2" "wf_frame g2" "attrib g2 = attrib f3"
    "frame_bytes g2 = rx_dst ?a @ rx_src ?a @ drop 12 (old @ rest)"
    using frame_wrn_ok [OF g1(2), of 6 "rx_src ?a"] g1(3,4) old12 a(2,3) by auto
  have run: "wlanhdr_to_ethhdr False f = (if ?snap then Some g2 else frame_wrn g2 12
      [of_nat (length msdu div 256), of_nat (length msdu)])"
  proof -
    have len: "ucast (rx_len f1 - of_nat rmv) = (of_nat (length msdu) :: u16)" if "\<not> ?snap"
    proof -
      have "rx_len f1 = of_nat (length hdr + length msdu)"
        using length_frame_bytes [OF f1(1)] f1(2) by (metis length_append of_nat_unat ucast_id)
      then have "rx_len f1 - of_nat rmv = of_nat (length msdu)" using that by (simp add: rmv_def)
      then show ?thesis by (simp only: ucast_of_nat_16)
    qed
    have "wlanhdr_to_ethhdr False f = do {
        bsnaphdr \<leftarrow> Some ?snap;
        f \<leftarrow> frame_wrn f3 0 (take 6 (rx_dst ?a));
        f \<leftarrow> frame_wrn f 6 (take 6 (rx_src ?a));
        if bsnaphdr then Some f
        else frame_wrn f 12 [ucast (drop_bit 8 (ucast (rx_len f1 - of_nat rmv) :: u16)),
          ucast (ucast (rx_len f1 - of_nat rmv) :: u16)] }"
      using ty t p3 unfolding wlanhdr_to_ethhdr_def Let_def f1_def [symmetric] snap bind.bind_lunit
        rmv_def [unfolded f(3), symmetric]
      by (simp add: f2_def [symmetric] k(1) cong: if_cong)
    then show ?thesis
      using g1(1) g2(1) len a(2,3) u16_bytes_of_nat(1) [OF m(2)] u16_bytes_of_nat(2) by simp
  qed
  show ?thesis
  proof (cases ?snap)
    case True
    then have "frame_bytes g2 = ethernet (rx_dst ?a) (rx_src ?a) msdu"
      using g2(4) old by (simp add: ethernet_def rest_def)
    with run True g2 f3(3) t_def show ?thesis by auto
  next
    case False
    have g2': "frame_bytes g2 = rx_dst ?a @ rx_src ?a @ drop 12 old @ rest" using g2(4) old12 by simp
    have old14: "length old = 14" using old False by simp
    have "12 + length [of_nat (length msdu div 256) :: u8, of_nat (length msdu)] \<le> length (frame_bytes g2)"
      using g2' a(2,3) old14 by simp
    from frame_wrn_ok [OF g2(2) this] obtain g where
      g: "frame_wrn g2 12 [of_nat (length msdu div 256), of_nat (length msdu)] = Some g" "wf_frame g"
        "attrib g = attrib g2" "frame_bytes g = rx_dst ?a @ rx_src ?a
          @ [of_nat (length msdu div 256), of_nat (length msdu)] @ rest"
      using g2' a(2,3) old14 by auto
    then have "frame_bytes g = ethernet (rx_dst ?a) (rx_src ?a) msdu"
      using False by (simp add: ethernet_def rest_def)
    with run False g g2(3) f3(3) t_def show ?thesis by auto
  qed
qed

section \<open>Aggregated frames\<close>

type_synonym subframe = "bytes \<times> bytes \<times> bytes"

definition subframe :: "subframe \<Rightarrow> bytes" where
  "subframe x = (case x of (da, sa, pl) \<Rightarrow> da @ sa @ [of_nat (length pl div 256), of_nat (length pl)] @ pl)"

text \<open>Every subframe but the last is padded to a multiple of four octets.\<close>

definition pad4 :: "bytes \<Rightarrow> bytes" where
  "pad4 b = b @ replicate ((4 - length b mod 4) mod 4) 0"

fun amsdu_encode :: "subframe list \<Rightarrow> bytes" where
  "amsdu_encode [] = []"
| "amsdu_encode [x] = subframe x"
| "amsdu_encode (x # y # xs) = pad4 (subframe x) @ amsdu_encode (y # xs)"

definition wf_subframe :: "subframe \<Rightarrow> bool" where
  "wf_subframe x \<longleftrightarrow> length (fst x) = 6 \<and> length (fst (snd x)) = 6
     \<and> 8 \<le> length (snd (snd x)) \<and> length (snd (snd x)) < 65536"

lemma amsdu_padding_mod: "amsdu_padding n = (4 - (14 + n) mod 4) mod 4"
  by (cases "(14 + n) mod 4 = 0") (simp_all add: amsdu_padding_def Let_def add.commute)

lemma length_subframe: "wf_subframe x \<Longrightarrow> length (subframe x) = 14 + length (snd (snd x))"
  by (cases x) (simp add: wf_subframe_def subframe_def)

lemma be16_of_nat:
  "n < 65536 \<Longrightarrow> push_bit 8 (ucast (of_nat (n div 256) :: u8)) OR ucast (of_nat n :: u8) = (of_nat n :: u16)"
proof -
  assume n: "n < 65536"
  have "push_bit 8 (ucast (of_nat (n div 256) :: u8)) OR ucast (of_nat n :: u8)
    = push_bit 8 (ucast (ucast (drop_bit 8 (of_nat n :: u16)) :: u8)) OR ucast (ucast (of_nat n :: u16) :: u8)"
    by (simp only: u16_bytes_of_nat(1) [OF n] u16_bytes_of_nat(2))
  also have "\<dots> = (of_nat n :: u16)"
    by (rule bit_word_eqI) (auto simp: bit_simps not_le)
  finally show ?thesis .
qed

lemma subframe_length_field:
  assumes "wf_subframe x"
  shows "RTW_GET_BE16 (subframe x @ rest) 12 = Some (of_nat (length (snd (snd x))))"
  using assms be16_of_nat [of "length (snd (snd x))"]
  by (cases x) (simp add: wf_subframe_def subframe_def RTW_GET_BE16_def rd_def nth_append)

lemma unat_of_nat_16: "n < 65536 \<Longrightarrow> unat (of_nat n :: u16) = n"
  by (simp add: unsigned_of_nat take_bit_nat_eq_self)

lemma alloc_subframe:
  assumes "wf_subframe x" "length (rx_dst a) = 6" "length (rx_src a) = 6"
  shows "rtw_os_alloc_msdu_pkt a (of_nat (length (snd (snd x)))) (subframe x @ rest)
    = Some (ethernet (rx_dst a) (rx_src a) (snd (snd x)))"
proof -
  obtain da sa pl where x: "x = (da, sa, pl)" by (rule prod_cases3)
  have l: "length da = 6" "length sa = 6" "8 \<le> length pl" "length pl < 65536"
    using assms(1) by (simp_all add: wf_subframe_def x)
  have "rdn (subframe x @ rest) 14 (length pl) = Some pl"
    using l by (simp add: rdn_def subframe_def x)
  then show ?thesis
    using l assms(2,3) u16_bytes_of_nat(1) [OF l(4)] u16_bytes_of_nat(2)
    by (simp add: rtw_os_alloc_msdu_pkt_def unat_of_nat_16 x ethernet_def snap_payload_def)
qed

lemma amsdu_loop_encode:
  assumes "list_all wf_subframe xs" "nr + length xs \<le> MAX_SUBFRAME_COUNT"
    "\<forall>i < length xs. ok (nr + i)" "length (rx_dst a) = 6" "length (rx_src a) = 6"
  shows "amsdu_loop ok a nr (int (length (amsdu_encode xs))) (amsdu_encode xs @ rest)
    = Some (map (\<lambda>x. ethernet (rx_dst a) (rx_src a) (snd (snd x))) xs)"
  using assms
proof (induction xs arbitrary: nr rule: amsdu_encode.induct)
  case (1 nr)
  then show ?case by (simp add: amsdu_loop.simps)
next
  case (2 x nr)
  then have x: "wf_subframe x" by simp
  then have l: "length (snd (snd x)) < 65536" "8 \<le> length (snd (snd x))" by (simp_all add: wf_subframe_def)
  show ?case
    using 2 l alloc_subframe [OF x] by (subst amsdu_loop.simps)
      (auto simp: length_subframe [OF x] subframe_length_field [OF x] unat_of_nat_16 Let_def)
next
  case (3 x y xs nr)
  have x: "wf_subframe x" and ys: "list_all wf_subframe (y # xs)" using "3.prems"(1) by simp_all
  then have l: "length (snd (snd x)) < 65536" "8 \<le> length (snd (snd x))" by (simp_all add: wf_subframe_def)
  let ?p = "amsdu_padding (length (snd (snd x)))"
  let ?r = "amsdu_encode (y # xs)"
  have enc: "amsdu_encode (x # y # xs) = subframe x @ replicate ?p 0 @ ?r"
    by (simp add: pad4_def length_subframe [OF x] amsdu_padding_mod)
  have "\<forall>i < length (y # xs). ok (nr + 1 + i)"
  proof (intro allI impI)
    fix i assume "i < length (y # xs)"
    then show "ok (nr + 1 + i)" using "3.prems"(3) [rule_format, of "Suc i"] by simp
  qed
  then have ih: "amsdu_loop ok a (nr + 1) (int (length ?r)) (?r @ rest)
    = Some (map (\<lambda>x. ethernet (rx_dst a) (rx_src a) (snd (snd x))) (y # xs))"
    using "3.IH" [of "nr + 1"] ys "3.prems"(2,4,5) by simp
  have "subframe y \<noteq> []" using ys length_subframe [of y] by auto
  then have ne: "0 < length ?r" by (cases xs) (simp_all add: pad4_def)
  have len: "int (length (amsdu_encode (x # y # xs))) = int (14 + length (snd (snd x))) + int ?p + int (length ?r)"
    unfolding enc by (simp add: length_subframe [OF x])
  have d: "drop (14 + length (snd (snd x)) + ?p) (amsdu_encode (x # y # xs) @ rest) = ?r @ rest"
    unfolding enc by (simp add: length_subframe [OF x])
  have ok: "ok nr" using "3.prems"(3) by force
  have f: "RTW_GET_BE16 (amsdu_encode (x # y # xs) @ rest) 12 = Some (of_nat (length (snd (snd x))))"
    "rtw_os_alloc_msdu_pkt a (of_nat (length (snd (snd x)))) (amsdu_encode (x # y # xs) @ rest)
      = Some (ethernet (rx_dst a) (rx_src a) (snd (snd x)))"
    unfolding enc using subframe_length_field [OF x] alloc_subframe [OF x "3.prems"(4,5)] by simp_all
  have c: "\<not> nr + 1 \<ge> MAX_SUBFRAME_COUNT" using "3.prems"(2) by simp
  have arith: "\<not> int (14 + n) + int p + int m \<le> 14" "\<not> int (14 + n) + int p + int m < int (14 + n)"
    "int (14 + n) + int p + int m - int (14 + n) \<noteq> 0" "\<not> int (14 + n) + int p + int m - int (14 + n) < int p"
    "int (14 + n) + int p + int m - int (14 + n) - int p = int m" if "0 < m" for n p m :: nat
    using that by linarith+
  show ?case
    unfolding len
    by (subst amsdu_loop.simps)
      (simp only: f Let_def bind.bind_lunit unat_of_nat_16 [OF l(1)] arith [OF ne] if_False ok not_True_eq_False
        c d ih list.map)
qed

section \<open>Properties\<close>

text \<open>Header conversion: a data frame with an 802.11 header, an MSDU and, when it is encrypted,
  its check value, becomes the Ethernet packet with the recorded addresses: an RFC 1042 or bridge
  tunnel header is replaced by its type, any other payload is kept whole behind its length.\<close>

theorem wlanhdr_to_ethhdr_frame:
  assumes "wf_frame f" "frame_bytes f = hdr @ msdu @ icv" "length hdr = rx_hdrlen (attrib f) + rx_iv_len (attrib f)"
    and "24 \<le> rx_hdrlen (attrib f)" "length (rx_dst (attrib f)) = 6" "length (rx_src (attrib f)) = 6"
    and "8 \<le> length msdu" "length msdu < 65536"
    and "length icv = (if rx_encrypt (attrib f) = 0 then 0 else rx_icv_len (attrib f))"
  shows "\<exists>g. wlanhdr_to_ethhdr False f = Some g \<and> wf_frame g
    \<and> frame_bytes g = ethernet (rx_dst (attrib f)) (rx_src (attrib f)) msdu
    \<and> rx_eth_type (attrib g) = eth_type_of (if snap_payload msdu then drop 6 msdu else msdu)"
  using assms by (rule wlanhdr_to_ethhdr_ok)

text \<open>C27. A TKIP-protected MSDU sent in fragments: given to \<open>recvframe_chk_defrag\<close> one after the
  other, whatever was queued before, its fragments produce nothing until the last one. If the last
  eight bytes of the concatenated bodies are the Michael code of the frame, the frame produced then
  converts to the Ethernet packet of the MSDU; otherwise the frame is dropped. The verdict is
  recorded and the queue is empty afterwards.\<close>

theorem fragmented_msdu_to_ethernet:
  assumes "msdu_fragments p ns" "rx_privacy (attrib p) \<noteq> 0" "rx_encrypt (attrib p) = TKIP"
    and "mic_key s (attrib p) unicast = Some key"
    and "reassembled p ns = hdr @ msdu @ mic @ icv" "length hdr = body_offset p" "30 \<le> length hdr"
    "length mic = 8" "length icv = rx_icv_len (attrib (last ns))"
    and "24 \<le> rx_hdrlen (attrib p)" "length (rx_dst (attrib p)) = 6" "length (rx_src (attrib p)) = 6"
    and "8 \<le> length msdu" "length msdu < 65536"
  shows "\<exists>p' g freed. chk_run hz now (Some unicast) ky s (Some q) b (p # ns)
      = (let ok = (rtw_seccalctkipmic key hdr msdu (rx_priority (attrib p)) = mic)
         in Some (replicate (length ns) None @ [if ok then Some p' else None],
              chkmic_verdict hz now ky ((attrib p)\<lparr>rx_icv_len := rx_icv_len (attrib (last ns))\<rparr>) ok s,
              Some [], b, freed))
    \<and> wlanhdr_to_ethhdr False p' = Some g
    \<and> frame_bytes g = ethernet (rx_dst (attrib p)) (rx_src (attrib p)) msdu"
proof -
  obtain p' freed where p': "chk_run hz now (Some unicast) ky s (Some q) b (p # ns)
      = (let ok = (rtw_seccalctkipmic key hdr msdu (rx_priority (attrib p)) = mic)
         in Some (replicate (length ns) None @ [if ok then Some p' else None],
              chkmic_verdict hz now ky ((attrib p)\<lparr>rx_icv_len := rx_icv_len (attrib (last ns))\<rparr>) ok s,
              Some [], b, freed))"
    "without_icv p' = hdr @ msdu" "wf_frame p'" "rx_icv_len (attrib p') \<le> length (frame_bytes p')"
    "attrib p' = (attrib p)\<lparr>rx_icv_len := rx_icv_len (attrib (last ns))\<rparr>"
    using msdu_fragments_run [OF assms(1-9)] by blast
  define tl where "tl = drop (length (frame_bytes p') - rx_icv_len (attrib p')) (frame_bytes p')"
  have "frame_bytes p' = hdr @ msdu @ tl" "length tl = rx_icv_len (attrib p')"
    using p'(2,4) by (metis append_take_drop_id append_assoc tl_def without_icv_def) (simp add: tl_def p'(4))
  then obtain g where "wlanhdr_to_ethhdr False p' = Some g"
    "frame_bytes g = ethernet (rx_dst (attrib p)) (rx_src (attrib p)) msdu"
    using wlanhdr_to_ethhdr_ok [OF p'(3), of hdr msdu tl] assms(3,6,10-14) p'(5)
    by (auto simp: body_offset_def TKIP_def)
  with p'(1) show ?thesis by blast
qed

text \<open>C28. Aggregation: an A-MSDU of up to 64 subframes, each with at least 8 octets of payload, is split into one Ethernet
  packet per subframe, in order and with its payload, when every allocation succeeds. The packets carry the destination and the
  source of the enclosing frame: the addresses in the subframe headers are discarded, so a packet reaches the network
  stack under other addresses than it was sent with wherever the two differ.\<close>

theorem amsdu_to_msdu_indicates_all:
  assumes f: "wf_frame f" "frame_bytes f = hdr @ amsdu_encode xs"
      "length hdr = rx_hdrlen (attrib f) + rx_iv_len (attrib f)"
    and x: "list_all wf_subframe xs" "length xs \<le> MAX_SUBFRAME_COUNT" "\<forall>i < length xs. alloc_ok i"
    and a: "length (rx_dst (attrib f)) = 6" "length (rx_src (attrib f)) = 6"
  shows "amsdu_to_msdu alloc_ok f
    = Some (map (\<lambda>(da, sa, pl). ethernet (rx_dst (attrib f)) (rx_src (attrib f)) pl) xs)"
proof -
  let ?a = "attrib f"
  define f1 where "f1 = snd (recvframe_pull f (int (rx_hdrlen ?a)))"
  have f1: "wf_frame f1" "frame_bytes f1 = drop (rx_hdrlen ?a) (frame_bytes f)" "attrib f1 = ?a"
    using wf_pull [OF f(1), of "rx_hdrlen ?a"] f(2,3) by (simp_all add: f1_def)
  define f2 where "f2 = (if 0 < rx_iv_len ?a then snd (recvframe_pull f1 (int (rx_iv_len ?a))) else f1)"
  have "wf_frame f2 \<and> frame_bytes f2 = drop (rx_iv_len ?a) (frame_bytes f1) \<and> attrib f2 = ?a"
    using wf_pull [OF f1(1), of "rx_iv_len ?a"] f1 f(2,3) by (auto simp: f2_def)
  then have f2: "wf_frame f2" "frame_bytes f2 = amsdu_encode xs" "attrib f2 = ?a"
    using f1(2) f(2,3) by (auto simp: add.commute)
  obtain rest where r: "drop (nat (rx_data f2)) (buf f2) = amsdu_encode xs @ rest"
    using f2(2) by (metis frame_bytes_def append_take_drop_id)
  have "sint (rx_len f2) = int (length (amsdu_encode xs))"
    using length_frame_bytes [OF f2(1)] wf_len [OF f2(1)] sint_len f2(2) by (metis of_nat_unat ucast_id)
  then show ?thesis
    using amsdu_loop_encode [OF x(1) _ _ a, of 0 alloc_ok rest] x(2,3) r
    unfolding amsdu_to_msdu_def Let_def f1_def [symmetric] f1(3) f2_def [symmetric] f2(3)
    by (simp add: split_beta)
qed

section \<open>Concrete frames\<close>

definition ex_msdu_bytes :: bytes where "ex_msdu_bytes = [0xAA, 0xAA, 3, 0, 0, 0, 8, 0, 1, 2]"

lemma ex_recv_attrib: "attrib (ex_recv i m k pl r) = ex_att m k"
  by (simp add: ex_recv_def)

theorem wlanhdr_to_ethhdr_frame_witness:
  "\<exists>g. wlanhdr_to_ethhdr False (ex_recv 1 0 0 (ex_msdu_bytes @ [7, 7, 7, 7]) 0) = Some g
    \<and> frame_bytes g = [2, 0, 0, 0, 0, 5, 2, 0, 0, 0, 0, 6, 8, 0, 1, 2]"
proof -
  let ?f = "ex_recv 1 0 0 (ex_msdu_bytes @ [7, 7, 7, 7]) 0"
  have l: "length ex_msdu_bytes = 10" by (simp add: ex_msdu_bytes_def)
  have f: "wf_frame ?f" "frame_bytes ?f = ex_header @ ex_msdu_bytes @ [7, 7, 7, 7]"
    by (simp_all add: ex_recv_bytes l)
  have a: "attrib ?f = ex_att 0 0" by (rule ex_recv_attrib)
  have "ethernet [2, 0, 0, 0, 0, 5] [2, 0, 0, 0, 0, 6] ex_msdu_bytes = [2, 0, 0, 0, 0, 5, 2, 0, 0, 0, 0, 6, 8, 0, 1, 2]"
    by code_simp
  then show ?thesis
    using wlanhdr_to_ethhdr_frame [OF f] unfolding a
    by (simp add: ex_att_def length_ex_header TKIP_def l) blast
qed

theorem fragmented_msdu_to_ethernet_witness:
  "\<exists>p' g s' freed. chk_run 100 5 (Some (replicate 8 7)) 0 ex_rx_sec (Some []) [] [ex_first, ex_second]
      = Some ([None, Some p'], s', Some [], [], freed)
    \<and> wlanhdr_to_ethhdr False p' = Some g
    \<and> frame_bytes g = ethernet [2, 0, 0, 0, 0, 5] [2, 0, 0, 0, 0, 6] [0xAA, 0xAA, 3, 0, 0, 0, 8, 0, 1, 2]"
proof -
  have a: "rx_privacy (attrib ex_first) \<noteq> 0" "rx_encrypt (attrib ex_first) = TKIP"
    "mic_key ex_rx_sec (attrib ex_first) (replicate 8 7) = Some (replicate 8 7)"
    "length ex_header = body_offset ex_first" "30 \<le> length ex_header"
    "length [130, 142, 89, 155, 253, 177, 94, 60 :: u8] = 8"
    "length [5, 5, 5, 5 :: u8] = rx_icv_len (attrib (last [ex_second]))"
    "24 \<le> rx_hdrlen (attrib ex_first)" "length (rx_dst (attrib ex_first)) = 6" "length (rx_src (attrib ex_first)) = 6"
    "8 \<le> length [0xAA, 0xAA, 3, 0, 0, 0, 8, 0, 1, 2 :: u8]" "length [0xAA, 0xAA, 3, 0, 0, 0, 8, 0, 1, 2 :: u8] < 65536"
    by (simp_all add: ex_fragments ex_att_def mic_key_def IS_MCAST_def body_offset_def length_ex_header)
  from fragmented_msdu_to_ethernet [OF ex_msdu a(1-3) ex_reassembled a(4-12), of 100 5 0 "[]"] ex_mic
  show ?thesis by (simp add: ex_fragments(5) ex_att_def Let_def del: chk_run.simps) blast
qed

theorem amsdu_to_msdu_indicates_all_witness:
  "amsdu_to_msdu (\<lambda>_. True) (ex_recv 1 0 0
      (amsdu_encode [([1, 1, 1, 1, 1, 1], [2, 2, 2, 2, 2, 2], ex_msdu_bytes), ([3, 3, 3, 3, 3, 3], [4, 4, 4, 4, 4, 4], ex_msdu_bytes)]) 0)
    = Some [[2, 0, 0, 0, 0, 5, 2, 0, 0, 0, 0, 6, 8, 0, 1, 2], [2, 0, 0, 0, 0, 5, 2, 0, 0, 0, 0, 6, 8, 0, 1, 2]]"
proof -
  let ?xs = "[([1, 1, 1, 1, 1, 1], [2, 2, 2, 2, 2, 2], ex_msdu_bytes), ([3, 3, 3, 3, 3, 3], [4, 4, 4, 4, 4, 4], ex_msdu_bytes)]"
  have x: "list_all wf_subframe ?xs" by (simp add: wf_subframe_def ex_msdu_bytes_def)
  have "length (amsdu_encode ?xs) < 1000" by (simp add: subframe_def ex_msdu_bytes_def pad4_def)
  then have f: "wf_frame (ex_recv 1 0 0 (amsdu_encode ?xs) 0)"
    "frame_bytes (ex_recv 1 0 0 (amsdu_encode ?xs) 0) = ex_header @ amsdu_encode ?xs"
    by (simp_all only: ex_recv_bytes)
  have a: "attrib (ex_recv 1 0 0 (amsdu_encode ?xs) 0) = ex_att 0 0" by (simp add: ex_recv_def)
  have e: "ethernet [2, 0, 0, 0, 0, 5] [2, 0, 0, 0, 0, 6] ex_msdu_bytes = [2, 0, 0, 0, 0, 5, 2, 0, 0, 0, 0, 6, 8, 0, 1, 2]"
    by code_simp
  show ?thesis
    using amsdu_to_msdu_indicates_all [OF f _ x, of "\<lambda>_. True"] a
    by (simp add: ex_att_def length_ex_header MAX_SUBFRAME_COUNT_def e del: amsdu_encode.simps)
qed

end
