(* ===== verification/Mgmt_Protect.thy ===== *)
theory Mgmt_Protect
  imports Rx_Frame Cmac Ie_Core
begin

text \<open>
  Protection of management frames (802.11w, compiled with \<open>CONFIG_IEEE80211W\<close>): the sender
  \<open>rtw_mgmt_xmitframe_coalesce\<close> of \<^verbatim>\<open>core/rtw_xmit.c\<close>, the check of broadcast frames
  \<open>rtw_BIP_verify\<close> of \<^verbatim>\<open>core/rtw_security.c\<close>, and the receiver, \<open>decryptor\<close> and
  \<open>validate_80211w_mgmt\<close> of \<^verbatim>\<open>core/rtw_recv.c\<close>.

  Outer \<^term>\<open>None\<close>: an access outside a buffer. A handler that frees the frame lists its
  identity; what it does to the frame afterwards is in the result all the same.
\<close>

section \<open>State\<close>

datatype rx_result = FAIL | SUCCESS | RX_HANDLED

record w_security = rx_security +
  sw_decrypt :: bool
  hw_decrypted :: bool
  binstallBIPkey :: bool
  dot11wBIPKeyid :: nat
  dot11wBIPKey :: "bytes list"

record mgmt_attrib = pkt_attrib +
  pktlen :: nat
  attrib_iv :: bytes
  attrib_icv :: bytes
  bswenc :: bool

text \<open>What the sender needs of the peer's station entry.\<close>

record mgmt_peer =
  peer_state :: u32
  peer_UncstKey :: bytes
  dot11wtxpn :: u64

definition FW_LINKED :: u32 where "FW_LINKED = 0x1"
definition WIFI_STATION_STATE :: u32 where "WIFI_STATION_STATE = 0x8"
definition WIFI_AP_STATE :: u32 where "WIFI_AP_STATE = 0x10"

definition check_fwstate :: "u32 \<Rightarrow> u32 \<Rightarrow> bool" where
  "check_fwstate fw_state state \<longleftrightarrow> fw_state AND state \<noteq> 0"

definition WIFI_REASSOCREQ :: u16 where "WIFI_REASSOCREQ = 0x20"
definition WIFI_DISASSOC :: u16 where "WIFI_DISASSOC = 0xA0"
definition WIFI_DEAUTH :: u16 where "WIFI_DEAUTH = 0xC0"
definition WIFI_ACTION :: u16 where "WIFI_ACTION = 0xD0"

text \<open>The action categories that need no protection: public, HT, unprotected WNM, self-protected
  and P2P.\<close>

definition not_robust :: "u8 \<Rightarrow> bool" where
  "not_robust category \<longleftrightarrow> category \<in> {4, 7, 11, 15, 0x7F}"

text \<open>Six bytes of a packet number, least significant first.\<close>

definition pn_bytes :: "u64 \<Rightarrow> bytes" where
  "pn_bytes n = map (\<lambda>i. ucast (drop_bit (8 * i) n)) [0..<6]"

definition pn_val :: "bytes \<Rightarrow> u64" where
  "pn_val bs = foldr (\<lambda>b n. push_bit 8 n OR ucast b) bs 0"

definition AES_IV :: "u64 \<Rightarrow> u8 \<Rightarrow> bytes \<times> u64" where
  "AES_IV pn keyidx =
     (let b = pn_bytes pn
      in ([b ! 0, b ! 1, 0, 0x20 OR push_bit 6 (keyidx AND 3), b ! 2, b ! 3, b ! 4, b ! 5],
          if pn = 0xffffffffffff then 0 else pn + 1))"

section \<open>Broadcast integrity protocol\<close>

text \<open>Frame control without the retry, power management and more-data bits, and the addresses.\<close>

definition bip_aad :: "bytes \<Rightarrow> bytes option" where
  "bip_aad pframe = do {
     fc \<leftarrow> rdn pframe 0 2;
     addr \<leftarrow> rdn pframe 4 18;
     Some ([fc ! 0, fc ! 1 AND 0xC7] @ addr) }"

text \<open>\<open>alloc_ok\<close> and \<open>malloc_ok\<close> are the two allocations, \<open>ipn\<close> is \<open>mgnt_80211w_IPN_rx\<close>. The copy
  of the frame is \<open>BIP_AAD\<close>, \<open>ori_len\<close> bytes.\<close>

definition rtw_BIP_verify ::
  "bool \<Rightarrow> bool \<Rightarrow> bytes \<Rightarrow> 's w_security_scheme \<Rightarrow> u64 \<Rightarrow> nat \<Rightarrow> bytes \<Rightarrow> (rx_result \<times> u64) option" where
  "rtw_BIP_verify alloc_ok malloc_ok junk sec ipn pkt_len pframe =
     (if \<not> alloc_ok then Some (FAIL, ipn)
      else if pkt_len < 24 then None
      else do {
        frame_body \<leftarrow> rdn pframe 24 (pkt_len - 24);
        let BIP_AAD = replicate 20 0 @ frame_body;
        p \<leftarrow> rtw_get_ie frame_body 76 (int (pkt_len - 24));
        case p of None \<Rightarrow> Some (RX_HANDLED, ipn)
        | Some (p, len) \<Rightarrow> do {
            pn \<leftarrow> rdn BIP_AAD (20 + p + 4) 6;
            let temp_ipn = pn_val pn;
            if temp_ipn \<le> ipn then Some (FAIL, ipn)
            else do {
              k \<leftarrow> rdn BIP_AAD (20 + p + 2) 2;
              if unat (bytes_le16 (k ! 0) (k ! 1)) \<noteq> dot11wBIPKeyid sec then Some (FAIL, ipn)
              else do {
                BIP_AAD \<leftarrow> wrn BIP_AAD (20 + p + 2 + unat len - 8) (replicate 8 0);
                aad \<leftarrow> bip_aad pframe;
                BIP_AAD \<leftarrow> wrn BIP_AAD 0 aad;
                skey \<leftarrow> rd (dot11wBIPKey sec) (dot11wBIPKeyid sec);
                r \<leftarrow> omac1_aes_128 malloc_ok junk skey BIP_AAD;
                case r of None \<Rightarrow> Some (FAIL, ipn)
                | Some mic \<Rightarrow> do {
                    received \<leftarrow> rdn pframe (pkt_len - 8) 8;
                    Some (if take 8 mic = received then (SUCCESS, temp_ipn) else (FAIL, ipn)) } } } } })"

section \<open>The sender\<close>

text \<open>The frame starts \<open>TXDESC_OFFSET\<close> bytes into the buffer.\<close>

definition TXDESC_OFFSET :: nat where "TXDESC_OFFSET = 48"

text \<open>The branch for multicast frames: \<open>ipn\<close> is \<open>mgnt_80211w_IPN\<close>.\<close>

definition mgmt_bip_protect ::
  "bool \<Rightarrow> bytes \<Rightarrow> 's w_security_scheme \<Rightarrow> u64 \<Rightarrow> mgmt_attrib \<Rightarrow> bytes
    \<Rightarrow> (bool \<times> bytes \<times> mgmt_attrib \<times> u64) option" where
  "mgmt_bip_protect malloc_ok junk sec ipn pattrib mem = do {
     subtype \<leftarrow> GetFrameSubType (drop TXDESC_OFFSET mem);
     if subtype \<noteq> WIFI_DEAUTH \<and> subtype \<noteq> WIFI_DISASSOC then Some (False, mem, pattrib, ipn)
     else do {
       let MME = [of_nat (dot11wBIPKeyid sec), 0] @ pn_bytes ipn @ replicate 10 0;
       (mem, pos, len) \<leftarrow> rtw_set_ie mem (TXDESC_OFFSET + pktlen pattrib) 76 16 MME (pktlen pattrib);
       let pattrib = pattrib\<lparr>pktlen := len, last_txcmdsz := len\<rparr>;
       if len < 24 then None
       else do {
         aad \<leftarrow> bip_aad (drop TXDESC_OFFSET mem);
         frame_body \<leftarrow> rdn mem (TXDESC_OFFSET + 24) (len - 24);
         skey \<leftarrow> rd (dot11wBIPKey sec) (dot11wBIPKeyid sec);
         r \<leftarrow> omac1_aes_128 malloc_ok junk skey (aad @ frame_body);
         case r of None \<Rightarrow> Some (False, mem, pattrib, ipn + 1)
         | Some mic \<Rightarrow> do {
             mem \<leftarrow> wrn mem (pos - 8) (take 8 mic);
             Some (True, mem, pattrib, ipn + 1) } } } }"

text \<open>The software encryption of a frame when \<open>bswenc\<close> says so.\<close>

definition xmitframe_swencrypt ::
  "bool \<Rightarrow> 's w_security_scheme \<Rightarrow> nat \<Rightarrow> int \<Rightarrow> nat \<Rightarrow> 'a mgmt_attrib_scheme \<Rightarrow> bytes
    \<Rightarrow> (bytes \<times> 's w_security_scheme) option" where
  "xmitframe_swencrypt w sec base pkt_offset frag_len pattrib mem =
     (if \<not> bswenc pattrib then Some (mem, sec)
      else if encrypt pattrib = WEP40 \<or> encrypt pattrib = WEP104 then
        map_option (\<lambda>(b, sec). (the b, sec)) (rtw_wep_encrypt sec base pkt_offset frag_len pattrib (Some mem))
      else if encrypt pattrib = TKIP then
        map_option (\<lambda>(_, b, sec). (the b, sec)) (rtw_tkip_encrypt sec base pkt_offset frag_len pattrib (Some mem))
      else if encrypt pattrib = AES then
        map_option (\<lambda>(_, b, sec). (the b, sec)) (rtw_aes_encrypt w sec base pkt_offset frag_len pattrib (Some mem))
      else Some (mem, sec))"

text \<open>The branch for unicast frames; \<open>psta\<close> is the peer's entry.\<close>

definition mgmt_ccmp_protect ::
  "'s w_security_scheme \<Rightarrow> nat \<Rightarrow> int \<Rightarrow> nat \<Rightarrow> mgmt_peer option \<Rightarrow> mgmt_attrib \<Rightarrow> bytes
    \<Rightarrow> (bool \<times> bytes \<times> mgmt_attrib \<times> 's w_security_scheme \<times> mgmt_peer option) option" where
  "mgmt_ccmp_protect sec base pkt_offset frag_len psta pattrib mem = do {
     let mem_start = TXDESC_OFFSET;
     subtype \<leftarrow> GetFrameSubType (drop mem_start mem);
     if subtype \<noteq> WIFI_DEAUTH \<and> subtype \<noteq> WIFI_DISASSOC \<and> subtype \<noteq> WIFI_REASSOCREQ \<and> subtype \<noteq> WIFI_ACTION
     then Some (True, mem, pattrib, sec, psta)
     else case psta of None \<Rightarrow> Some (False, mem, pattrib, sec, psta)
     | Some p \<Rightarrow>
         if peer_state p AND FW_LINKED = 0 then Some (False, mem, pattrib, sec, psta)
         else do {
           category \<leftarrow> (if subtype = WIFI_ACTION then rd mem (mem_start + 24) else Some 0);
           if subtype = WIFI_ACTION \<and> not_robust category then Some (False, mem, pattrib, sec, psta)
           else do {
             let pattrib = (if 0 < encrypt pattrib
               then pattrib\<lparr>attrib_UncstKey := take 16 (peer_UncstKey p)\<rparr> else pattrib);
             tmp_buf \<leftarrow> rdn mem mem_start (pktlen pattrib);
             let pattrib = pattrib\<lparr>iv_len := 8, icv_len := 8\<rparr>;
             if encrypt pattrib \<noteq> AES then Some (False, mem, pattrib, sec, psta)
             else do {
               let (iv, pn) = AES_IV (dot11wtxpn p) 0;
               let psta = Some (p\<lparr>dot11wtxpn := pn\<rparr>);
               let pattrib = pattrib\<lparr>attrib_iv := iv\<rparr>;
               mem \<leftarrow> wrn mem (mem_start + hdrlen pattrib) iv;
               if pktlen pattrib < hdrlen pattrib then None
               else do {
                 mem \<leftarrow> wrn mem (mem_start + hdrlen pattrib + 8) (drop (hdrlen pattrib) tmp_buf);
                 mem \<leftarrow> (if bswenc pattrib
                   then wrn mem (mem_start + pktlen pattrib + 8) (take 8 (attrib_icv pattrib)) else Some mem);
                 let pattrib = pattrib\<lparr>pktlen := pktlen pattrib + 16, last_txcmdsz := pktlen pattrib + 16\<rparr>;
                 fc \<leftarrow> rd mem (mem_start + 1);
                 let mem = mem[mem_start + 1 := fc OR 0x40];
                 (mem, sec) \<leftarrow> xmitframe_swencrypt True sec base pkt_offset frag_len pattrib mem;
                 Some (True, mem, pattrib, sec, psta) } } } } }"

text \<open>\<open>alloc_ok\<close> and \<open>malloc_ok\<close> are the allocations of the frame copy and of the cipher context. The
  result has the return value, the buffer, the attributes, the security state, the counter of
  broadcast frames and the peer's entry.\<close>

definition rtw_mgmt_xmitframe_coalesce ::
  "bool \<Rightarrow> bool \<Rightarrow> bytes \<Rightarrow> u32 \<Rightarrow> 's w_security_scheme \<Rightarrow> u64 \<Rightarrow> nat \<Rightarrow> int \<Rightarrow> nat \<Rightarrow> mgmt_peer option
    \<Rightarrow> mgmt_attrib \<Rightarrow> bytes
    \<Rightarrow> (bool \<times> bytes \<times> mgmt_attrib \<times> 's w_security_scheme \<times> u64 \<times> mgmt_peer option) option" where
  "rtw_mgmt_xmitframe_coalesce alloc_ok malloc_ok junk fw_state sec ipn base pkt_offset frag_len psta pattrib mem =
     (if \<not> alloc_ok then Some (False, mem, pattrib, sec, ipn, psta)
      else if \<not> check_fwstate fw_state WIFI_STATION_STATE \<or> \<not> check_fwstate fw_state FW_LINKED
        \<or> \<not> binstallBIPkey sec
      then Some (True, mem, pattrib, sec, ipn, psta)
      else if IS_MCAST (attrib_ra pattrib) then
        map_option (\<lambda>(ok, mem, pattrib, ipn). (ok, mem, pattrib, sec, ipn, psta))
          (mgmt_bip_protect malloc_ok junk sec ipn pattrib mem)
      else
        map_option (\<lambda>(ok, mem, pattrib, sec, psta). (ok, mem, pattrib, sec, ipn, psta))
          (mgmt_ccmp_protect sec base pkt_offset frag_len psta pattrib mem))"

section \<open>The receiver\<close>

text \<open>Static variables of the decryption routines.\<close>

record dec_static =
  tkip_gk :: gkey_stat
  aes_gk :: gkey_stat
  dec_message :: bytes

definition with_data :: "rx_frame \<Rightarrow> bytes \<Rightarrow> rx_frame" where
  "with_data f d = f\<lparr>buf := take (nat (rx_data f)) (buf f) @ d\<rparr>"

definition rx_mem :: "rx_frame \<Rightarrow> bytes" where
  "rx_mem f = drop (nat (rx_data f)) (buf f)"

text \<open>The choice of the routine; \<open>stainfo\<close> is the unicast key of the transmitter's entry.\<close>

definition sw_decrypt_frame ::
  "bool \<Rightarrow> u32 \<Rightarrow> (u32 \<Rightarrow> u32) \<Rightarrow> bytes option \<Rightarrow> 's w_security_scheme \<Rightarrow> dec_static \<Rightarrow> rx_frame
    \<Rightarrow> (bool \<times> rx_frame \<times> 's w_security_scheme \<times> dec_static) option" where
  "sw_decrypt_frame w now passing stainfo sec st f =
     (let a = attrib f; len = unat (rx_len f) in
      if rx_encrypt a = WEP40 \<or> rx_encrypt a = WEP104 then do {
        (d, sec) \<leftarrow> rtw_wep_decrypt sec a len (rx_mem f);
        Some (True, with_data f d, sec, st) }
      else if rx_encrypt a = TKIP then do {
        (res, d, sec, gk) \<leftarrow> rtw_tkip_decrypt now passing sec (tkip_gk st) stainfo a len (rx_mem f);
        Some (res, with_data f d, sec, st\<lparr>tkip_gk := gk\<rparr>) }
      else if rx_encrypt a = AES then do {
        (res, d, sec, gk, message) \<leftarrow>
          rtw_aes_decrypt w now passing sec (aes_gk st) (dec_message st) stainfo a len (rx_mem f);
        Some (res, with_data f d, sec, st\<lparr>aes_gk := gk, dec_message := message\<rparr>) }
      else Some (True, f, sec, st))"

text \<open>The key index from the IV. It has two bits, so the fallback for an index above \<open>WEP_KEYS\<close>
  is never taken.\<close>

definition rx_iv_key_index :: "'s w_security_scheme \<Rightarrow> rx_frame \<Rightarrow> nat option" where
  "rx_iv_key_index sec f =
     (if 0 < rx_encrypt (attrib f) then do {
        b \<leftarrow> frame_rdn f (rx_hdrlen (attrib f) + 3) 1;
        let i = unat (drop_bit 6 (b ! 0) AND 3);
        Some (if 4 < i then
            (if rx_encrypt (attrib f) = WEP40 \<or> rx_encrypt (attrib f) = WEP104
             then dot11PrivacyKeyIndex sec else dot118021XGrpKeyid sec)
          else i) }
      else Some (rx_key_index (attrib f)))"

text \<open>The flag is false where the function has freed the frame and returns \<open>NULL\<close>.\<close>

definition decryptor ::
  "bool \<Rightarrow> u32 \<Rightarrow> (u32 \<Rightarrow> u32) \<Rightarrow> bytes option \<Rightarrow> 's w_security_scheme \<Rightarrow> dec_static \<Rightarrow> rx_frame
    \<Rightarrow> (bool \<times> rx_frame \<times> 's w_security_scheme \<times> dec_static) option" where
  "decryptor w now passing stainfo sec st f = do {
     key_index \<leftarrow> rx_iv_key_index sec f;
     let f = f\<lparr>attrib := (attrib f)\<lparr>rx_key_index := key_index\<rparr>\<rparr>;
     let a = attrib f;
     (res, f, sec, st) \<leftarrow>
       (if 0 < rx_encrypt a \<and> (\<not> rx_bdecrypted a \<or> sw_decrypt sec)
        then sw_decrypt_frame w now passing stainfo (sec\<lparr>hw_decrypted := False\<rparr>) st f
        else Some (True, f,
          if rx_bdecrypted a \<and> 0 < rx_encrypt a \<and> (busetkipkey sec \<or> rx_encrypt a \<noteq> TKIP)
          then sec\<lparr>hw_decrypted := True\<rparr> else sec, st));
     Some (res, if res then f\<lparr>attrib := (attrib f)\<lparr>rx_bdecrypted := True\<rparr>\<rparr> else f, sec, st) }"

text \<open>A management frame under CCMP: it is decrypted in place and the IV is overwritten with the body,
  whatever \<open>decryptor\<close> returned. \<open>alloc_ok\<close> tells which allocation sizes succeed. The flag is false
  for \<open>validate_80211w_fail\<close>; the last component lists the frames freed.\<close>

definition decrypt_mgmt ::
  "(u32 \<Rightarrow> bool) \<Rightarrow> u32 \<Rightarrow> (u32 \<Rightarrow> u32) \<Rightarrow> bytes option \<Rightarrow> 's w_security_scheme \<Rightarrow> dec_static \<Rightarrow> rx_frame
    \<Rightarrow> (bool \<times> rx_frame \<times> 's w_security_scheme \<times> dec_static \<times> nat list) option" where
  "decrypt_mgmt alloc_ok now passing stainfo sec st f = do {
     ra \<leftarrow> frame_rdn f 4 6;
     ta \<leftarrow> frame_rdn f 10 6;
     let f = f\<lparr>attrib := (attrib f)\<lparr>rx_bdecrypted := False, rx_encrypt := AES, rx_hdrlen := 24,
       rx_iv_len := 8, rx_icv_len := 8, rx_ra := ra, rx_ta := ta\<rparr>\<rparr>;
     let data_len = (of_int (int (rx_pkt_len (attrib f)) - 24 - 8 - 8) :: u32);
     if \<not> alloc_ok data_len then Some (False, f, sec, st, [])
     else do {
       (ok, f, sec, st) \<leftarrow> decryptor True now passing stainfo sec st f;
       mgmt_DATA \<leftarrow> frame_rdn f 32 (unat data_len);
       b \<leftarrow> wrn (buf f) (nat (rx_data f) + 24) mgmt_DATA;
       let f = f\<lparr>buf := b, attrib := (attrib f)\<lparr>
         rx_pkt_len := nat ((int (rx_pkt_len (attrib f)) - 8 - 8) mod 65536)\<rparr>\<rparr>;
       Some (ok, f, sec, st, if ok then [] else [rx_id f]) } }"

text \<open>The result: whether the frame is accepted, the frame, the state, the frames freed, and whether
  an SA query is sent. \<open>ipn\<close> is \<open>mgnt_80211w_IPN_rx\<close>.\<close>

definition validate_80211w_mgmt ::
  "(u32 \<Rightarrow> bool) \<Rightarrow> bool \<Rightarrow> bool \<Rightarrow> bytes \<Rightarrow> u32 \<Rightarrow> (u32 \<Rightarrow> u32) \<Rightarrow> u32 \<Rightarrow> bytes option \<Rightarrow> 's w_security_scheme
    \<Rightarrow> u64 \<Rightarrow> dec_static \<Rightarrow> rx_frame
    \<Rightarrow> (bool \<times> rx_frame \<times> 's w_security_scheme \<times> u64 \<times> dec_static \<times> nat list \<times> bool) option" where
  "validate_80211w_mgmt alloc_ok bip_alloc malloc_ok junk now passing fw_state stainfo sec ipn st f = do {
     subtype \<leftarrow> GetFrameSubType (rx_mem f);
     if \<not> (check_fwstate fw_state WIFI_STATION_STATE \<and> check_fwstate fw_state FW_LINKED \<and> binstallBIPkey sec)
     then Some (True, f, sec, ipn, st, [], False)
     else do {
       a1 \<leftarrow> frame_rdn f 4 6;
       if rx_privacy (attrib f) \<noteq> 0 \<and> \<not> IS_MCAST a1
         \<and> (subtype = WIFI_DEAUTH \<or> subtype = WIFI_DISASSOC \<or> subtype = WIFI_ACTION)
       then do {
         (ok, f, sec, st, freed) \<leftarrow> decrypt_mgmt alloc_ok now passing stainfo sec st f;
         Some (ok, f, sec, ipn, st, freed, False) }
       else if IS_MCAST a1 \<and> (subtype = WIFI_DEAUTH \<or> subtype = WIFI_DISASSOC)
       then do {
         (r, ipn) \<leftarrow> rtw_BIP_verify bip_alloc malloc_ok junk sec ipn (rx_pkt_len (attrib f)) (rx_mem f);
         Some (r = SUCCESS, f, sec, ipn, st, [], r = RX_HANDLED) }
       else if subtype = WIFI_ACTION then do {
         category \<leftarrow> frame_rdn f 24 1;
         Some (not_robust (category ! 0), f, sec, ipn, st, [], False) }
       else if subtype = WIFI_DEAUTH \<or> subtype = WIFI_DISASSOC
       then Some (False, f, sec, ipn, st, [], True)
       else Some (True, f, sec, ipn, st, [], False) } }"

section \<open>Packet numbers\<close>

lemma bit_pn_val: "k < 64 \<Longrightarrow> bit (pn_val bs) k \<longleftrightarrow> k div 8 < length bs \<and> bit (bs ! (k div 8)) (k mod 8)"
proof (induction bs arbitrary: k)
  case Nil
  then show ?case by (simp add: pn_val_def)
next
  case (Cons b bs)
  have step: "pn_val (b # bs) = push_bit 8 (pn_val bs) OR ucast b" by (simp add: pn_val_def)
  show ?case
  proof (cases "k < 8")
    case True
    then show ?thesis by (simp add: step bit_or_iff bit_push_bit_iff bit_ucast_iff)
  next
    case False
    then have "k div 8 = Suc ((k - 8) div 8)" "k mod 8 = (k - 8) mod 8"
      using le_div_geq [of 8 k] le_mod_geq [of 8 k] by simp_all
    moreover have "\<not> bit b k" using False by (simp add: bit_word.rep_eq)
    ultimately show ?thesis using Cons.IH [of "k - 8"] Cons.prems False
      by (simp add: step bit_or_iff bit_push_bit_iff bit_ucast_iff)
  qed
qed

lemma length_pn_bytes [simp]: "length (pn_bytes n) = 6"
  by (simp add: pn_bytes_def)

lemma pn_val_bytes:
  assumes "n < 2 ^ 48"
  shows "pn_val (pn_bytes n) = n"
proof (rule bit_word_eqI)
  fix k assume k: "k < LENGTH(64)"
  have "take_bit 48 n = n"
    using assms by (simp add: word_unat_eq_iff unsigned_take_bit_eq take_bit_nat_eq_self word_less_nat_alt)
  then have "bit n k \<longleftrightarrow> k < 48 \<and> bit n k" by (metis bit_take_bit_iff)
  moreover have "k div 8 < 6 \<longleftrightarrow> k < 48" by presburger
  moreover have "bit (pn_bytes n ! (k div 8)) (k mod 8) \<longleftrightarrow> bit n k" if "k < 48"
    using that nth_upt [of 0 "k div 8" 6] by (simp add: pn_bytes_def bit_ucast_iff bit_drop_bit_eq del: upt_Suc)
  ultimately show "bit (pn_val (pn_bytes n)) k \<longleftrightarrow> bit n k"
    using k by (auto simp: bit_pn_val)
qed

section \<open>The broadcast check on a complete frame\<close>

lemma bip_aad_header:
  assumes "length hdr = 24"
  shows "bip_aad (hdr @ rest) = Some ([hdr ! 0, hdr ! 1 AND 0xC7] @ take 18 (drop 4 hdr))"
proof -
  have "rdn (hdr @ rest) 0 2 = Some (take 2 hdr)" "rdn (hdr @ rest) 4 18 = Some (take 18 (drop 4 hdr))"
    using assms by (simp_all add: rdn_def)
  then show ?thesis by (simp add: bip_aad_def)
qed

definition bip_mic :: "bytes \<Rightarrow> bytes \<Rightarrow> bytes \<Rightarrow> bytes" where
  "bip_mic key hdr mbody = take 8 (cmac (aes128k128d key) ([hdr ! 0, hdr ! 1 AND 0xC7] @ take 18 (drop 4 hdr) @ mbody))"

lemma get_ie_loop_skip:
  assumes "wf_ies es" "\<forall>x \<in> set es. fst x \<noteq> e" "length p + length (ies_of es) < limit"
  shows "get_ie_loop (p @ ies_of es @ e # l # tail) (uint e) limit (length p)
    = Some (Some (length p + length (ies_of es), l))"
  using assms
proof (induction es arbitrary: p)
  case Nil
  then show ?case by (subst get_ie_loop.simps) (simp add: rd_def nth_append)
next
  case (Cons x es)
  obtain e' d where x: "x = (e', d)" by force
  have d: "unat (of_nat (length d) :: u8) = length d" using Cons.prems x by (simp add: unat_length_byte)
  have ne: "uint e' \<noteq> uint e" using Cons.prems x by (simp add: word_uint_eq_iff)
  have "get_ie_loop (p @ ies_of (x # es) @ e # l # tail) (uint e) limit (length p)
      = get_ie_loop ((p @ e' # of_nat (length d) # d) @ ies_of es @ e # l # tail) (uint e) limit
          (length (p @ e' # of_nat (length d) # d))"
    using Cons.prems ne by (subst get_ie_loop.simps) (simp add: x rd_def nth_append d)
  also have "\<dots> = Some (Some (length p + length (ies_of (x # es)), l))"
    using Cons.prems x by (subst Cons.IH) (simp_all add: add.assoc)
  finally show ?case .
qed

lemma find_mme:
  assumes "wf_ies es" "\<forall>x \<in> set es. fst x \<noteq> 76"
  shows "rtw_get_ie (ies_of es @ 76 # l # tail) 76 (int (length (ies_of es @ 76 # l # tail)))
    = Some (Some (length (ies_of es), l))"
  using get_ie_loop_skip [OF assms, of "[]"] by (simp add: rtw_get_ie_def)

text \<open>A frame that ends with a management MIC element of 16 octets.\<close>

lemma bip_verify_frame:
  fixes es
  defines "B \<equiv> ies_of es"
  assumes hdr: "length hdr = 24" and es: "wf_ies es" "\<forall>x \<in> set es. fst x \<noteq> 76"
    and len: "length kid = 2" "length pn = 6" "length mic = 8"
    and key: "rd (dot11wBIPKey sec) (dot11wBIPKeyid sec) = Some key" "length key = 16"
  shows "rtw_BIP_verify True True junk sec ipn (24 + length B + 18) (hdr @ B @ [76, 16] @ kid @ pn @ mic @ rest)
    = Some (if ipn < pn_val pn \<and> unat (bytes_le16 (kid ! 0) (kid ! 1)) = dot11wBIPKeyid sec
        \<and> mic = bip_mic key hdr (B @ [76, 16] @ kid @ pn @ replicate 8 0)
      then (SUCCESS, pn_val pn) else (FAIL, ipn))"
proof -
  let ?f = "hdr @ B @ [76, 16] @ kid @ pn @ mic @ rest"
  let ?b = "B @ 76 # 16 # kid @ pn @ mic"
  let ?n = "24 + length B + 18"
  let ?z = "replicate 20 (0 :: u8)"
  let ?a = "[hdr ! 0, hdr ! 1 AND 0xC7] @ take 18 (drop 4 hdr)"
  have lz: "length ?z = 20" and la: "length ?a = 20" using hdr by simp_all
  have lb: "length ?b = ?n - 24" using len by simp
  have body: "rdn ?f 24 (?n - 24) = Some ?b"
    using hdr len by (simp add: rdn_def)
  have ie: "rtw_get_ie ?b 76 (int (?n - 24)) = Some (Some (length B, 16))"
    using find_mme [OF es, of 16 "kid @ pn @ mic"] unfolding B_def [symmetric] lb .
  have pnr: "rdn (?z @ ?b) (20 + length B + 4) 6 = Some pn"
  proof -
    have "rdn ((?z @ B @ 76 # 16 # kid) @ pn @ mic) (20 + length B + 4) 6 = Some pn"
      by (rule rdn_append) (simp_all only: length_append list.size lz len)
    then show ?thesis by (simp only: append_assoc append_Cons)
  qed
  have kidr: "rdn (?z @ ?b) (20 + length B + 2) 2 = Some kid"
  proof -
    have "rdn ((?z @ B @ [76, 16]) @ kid @ pn @ mic) (20 + length B + 2) 2 = Some kid"
      by (rule rdn_append) (simp_all only: length_append list.size lz len)
    then show ?thesis by (simp only: append_assoc append_Cons append_Nil)
  qed
  have clear: "wrn (?z @ ?b) (20 + length B + 2 + unat (16 :: u8) - 8) (replicate 8 0)
      = Some (?z @ B @ 76 # 16 # kid @ pn @ replicate 8 0)"
    using len by (simp add: wrn_def)
  have put: "wrn (?z @ B @ 76 # 16 # kid @ pn @ replicate 8 0) 0 ?a
      = Some (?a @ B @ 76 # 16 # kid @ pn @ replicate 8 0)"
    using hdr by (simp add: wrn_def)
  have mac: "omac1_aes_128 True junk key (?a @ B @ 76 # 16 # kid @ pn @ replicate 8 0)
      = Some (Some (cmac (aes128k128d key) (?a @ B @ 76 # 16 # kid @ pn @ replicate 8 0)))"
    by (rule omac1_aes_128_cmac) (simp_all add: key)
  have last: "rdn ?f (?n - 8) 8 = Some mic"
  proof -
    have "rdn ((hdr @ B @ [76, 16] @ kid @ pn) @ mic @ rest) (?n - 8) 8 = Some mic"
      by (rule rdn_append) (simp_all only: length_append list.size hdr len)
    then show ?thesis by (simp only: append_assoc append_Cons append_Nil)
  qed
  have lt: "\<not> ?n < 24" by simp
  show ?thesis
    unfolding rtw_BIP_verify_def Let_def body bind.bind_lunit ie option.case prod.case pnr kidr clear
      bip_aad_header [OF hdr] put key(1) mac last if_not_P [OF lt] bip_mic_def
    by (simp only: not_le [symmetric] append_Cons append_Nil append_assoc HOL.eq_commute [of mic "take 8 _"]) simp
qed

lemma length_bip_mic: "length (bip_mic key hdr mbody) = 8"
  by (simp add: bip_mic_def cmac_def Let_def split: prod.split)

lemma bip_protect_frame:
  fixes ipn :: u64
  assumes len: "length pre = TXDESC_OFFSET" "length hdr = 24" "length room = 18"
    and subtype: "GetFrameSubType hdr = Some subtype" "subtype \<in> {WIFI_DEAUTH, WIFI_DISASSOC}"
    and key: "rd (dot11wBIPKey sec) (dot11wBIPKeyid sec) = Some key" "length key = 16"
    and pktlen: "pktlen pattrib = 24 + length B"
  defines "mme \<equiv> [of_nat (dot11wBIPKeyid sec), 0] @ pn_bytes ipn"
  shows "mgmt_bip_protect True junk sec ipn pattrib (pre @ hdr @ B @ room @ rest)
    = Some (True, pre @ hdr @ B @ [76, 16] @ mme
          @ bip_mic key hdr (B @ [76, 16] @ mme @ replicate 8 0) @ rest,
        pattrib\<lparr>pktlen := 24 + length B + 18, last_txcmdsz := 24 + length B + 18\<rparr>, ipn + 1)"
proof -
  let ?z = "replicate 8 (0 :: u8)"
  let ?n = "24 + length B + 18"
  let ?a = "[hdr ! 0, hdr ! 1 AND 0xC7] @ take 18 (drop 4 hdr)"
  have lm: "length mme = 8" by (simp add: mme_def)
  have st: "GetFrameSubType (drop TXDESC_OFFSET (pre @ hdr @ B @ room @ rest)) = Some subtype"
    using subtype(1) len frame_type_header(2) [of hdr] frame_type_header(2) [of hdr "[]"] by simp
  have ie: "rtw_set_ie (pre @ hdr @ B @ room @ rest) (TXDESC_OFFSET + pktlen pattrib) 76 16 (mme @ replicate 10 0) (pktlen pattrib)
      = Some (pre @ hdr @ B @ [76, 16] @ mme @ ?z @ rest, TXDESC_OFFSET + pktlen pattrib + 16 + 2, pktlen pattrib + (16 + 2))"
  proof -
    have p: "TXDESC_OFFSET + pktlen pattrib = length (pre @ hdr @ B)" using len pktlen by simp
    have r: "pre @ hdr @ B @ room @ rest = (pre @ hdr @ B) @ take 2 room @ drop 2 room @ rest"
      by (metis append_assoc append_take_drop_id)
    have 1: "wrn (pre @ hdr @ B @ room @ rest) (TXDESC_OFFSET + pktlen pattrib) [ucast (76 :: u32), of_nat 16]
        = Some ((pre @ hdr @ B) @ [76, 16] @ drop 2 room @ rest)"
      using wrn_append [OF p, of "[ucast (76 :: u32), of_nat 16]" "take 2 room" "drop 2 room @ rest"] len(3)
      unfolding r by simp
    have 2: "rdn (mme @ replicate 10 0) 0 16 = Some (mme @ ?z)"
      using lm by (simp add: rdn_def)
    have p2: "TXDESC_OFFSET + pktlen pattrib + 2 = length (pre @ hdr @ B @ [76, 16])" using p by simp
    have 3: "wrn ((pre @ hdr @ B) @ [76, 16] @ drop 2 room @ rest) (TXDESC_OFFSET + pktlen pattrib + 2) (mme @ ?z)
        = Some ((pre @ hdr @ B @ [76, 16]) @ (mme @ ?z) @ rest)"
      using wrn_append [OF p2, of "mme @ ?z" "drop 2 room" rest] lm len(3) by simp
    show ?thesis unfolding rtw_set_ie_def 1 bind.bind_lunit 2 3 by (simp only: append_assoc)
  qed
  have d: "drop TXDESC_OFFSET (pre @ hdr @ B @ [76, 16] @ mme @ ?z @ rest) = hdr @ B @ [76, 16] @ mme @ ?z @ rest"
    using len by simp
  have body: "rdn (pre @ hdr @ B @ [76, 16] @ mme @ ?z @ rest) (TXDESC_OFFSET + 24) (?n - 24) = Some (B @ [76, 16] @ mme @ ?z)"
  proof -
    have "rdn ((pre @ hdr) @ (B @ [76, 16] @ mme @ ?z) @ rest) (TXDESC_OFFSET + 24) (?n - 24) = Some (B @ [76, 16] @ mme @ ?z)"
      by (rule rdn_append) (simp_all add: len lm)
    then show ?thesis by (simp only: append_assoc)
  qed
  have mac: "omac1_aes_128 True junk key (?a @ B @ [76, 16] @ mme @ ?z)
      = Some (Some (cmac (aes128k128d key) (?a @ B @ [76, 16] @ mme @ ?z)))"
    by (rule omac1_aes_128_cmac) (simp_all add: key)
  have put: "wrn (pre @ hdr @ B @ [76, 16] @ mme @ ?z @ rest) (TXDESC_OFFSET + pktlen pattrib + 16 + 2 - 8)
        (take 8 (cmac (aes128k128d key) (?a @ B @ [76, 16] @ mme @ ?z)))
      = Some (pre @ hdr @ B @ [76, 16] @ mme @ bip_mic key hdr (B @ [76, 16] @ mme @ ?z) @ rest)"
  proof -
    have p: "TXDESC_OFFSET + pktlen pattrib + 16 + 2 - 8 = length (pre @ hdr @ B @ [76, 16] @ mme)"
      using len pktlen lm by simp
    have l: "length (bip_mic key hdr (B @ [76, 16] @ mme @ ?z)) = length ?z" by (simp add: length_bip_mic)
    show ?thesis
      using wrn_append [OF p l, of rest] unfolding bip_mic_def by (simp only: append_assoc append_Cons append_Nil)
  qed
  have n: "pktlen pattrib + (16 + 2) = ?n" using pktlen by simp
  have ns: "\<not> (subtype \<noteq> WIFI_DEAUTH \<and> subtype \<noteq> WIFI_DISASSOC)" using subtype by auto
  have lt: "\<not> ?n < 24" by simp
  have m: "[of_nat (dot11wBIPKeyid sec), 0] @ pn_bytes ipn @ replicate 10 0 = mme @ replicate 10 0"
    by (simp add: mme_def)
  show ?thesis
    unfolding mgmt_bip_protect_def st bind.bind_lunit if_not_P [OF ns] Let_def m ie prod.case d
      bip_aad_header [OF len(2)] n body key(1) if_not_P [OF lt] mac option.case put ..
qed

lemma unat_bytes_le16_low: "unat (bytes_le16 x 0) = unat x"
proof -
  have "unat x < 2 ^ LENGTH(8)" by (rule unsigned_less)
  then have "unat x < 2 ^ 16" by simp
  then show ?thesis by (simp add: bytes_le16_def unsigned_ucast_eq take_bit_nat_eq_self)
qed

section \<open>Properties\<close>

text \<open>C35. Round trip of the broadcast protection: the deauthentication or disassociation frame that
  \<open>rtw_mgmt_xmitframe_coalesce\<close> sends passes \<open>rtw_BIP_verify\<close> of a receiver with the same key and an
  older packet number, and the receiver then holds the sender's number. The body is a list of elements without a
  management MIC (a reason code below 256 other than 76 reads as an empty element).\<close>

theorem bip_roundtrip:
  fixes ipn ipn_rx :: u64 and sec :: "'s w_security_scheme" and sec' :: "'t w_security_scheme"
  assumes "length pre = TXDESC_OFFSET" "length hdr = 24" "length room = 18"
    and "GetFrameSubType hdr = Some subtype" "subtype \<in> {WIFI_DEAUTH, WIFI_DISASSOC}"
    and "wf_ies es" "\<forall>x \<in> set es. fst x \<noteq> 76" "pktlen pattrib = 24 + length (ies_of es)"
    and "IS_MCAST (attrib_ra pattrib)" "binstallBIPkey sec"
    and "check_fwstate fw_state WIFI_STATION_STATE" "check_fwstate fw_state FW_LINKED"
    and "rd (dot11wBIPKey sec) (dot11wBIPKeyid sec) = Some key" "length key = 16" "dot11wBIPKeyid sec < 256"
    and "dot11wBIPKeyid sec' = dot11wBIPKeyid sec" "rd (dot11wBIPKey sec') (dot11wBIPKeyid sec') = Some key"
    and "ipn < 2 ^ 48" "ipn_rx < ipn"
  shows "\<exists>mem' pattrib'.
    rtw_mgmt_xmitframe_coalesce True True junk fw_state sec ipn base pkt_offset frag_len psta pattrib
        (pre @ hdr @ ies_of es @ room @ rest) = Some (True, mem', pattrib', sec, ipn + 1, psta)
    \<and> rtw_BIP_verify True True junk' sec' ipn_rx (pktlen pattrib') (drop TXDESC_OFFSET mem') = Some (SUCCESS, ipn)"
proof -
  define kid where "kid = [of_nat (dot11wBIPKeyid sec), 0 :: u8]"
  let ?B = "ies_of es"
  let ?m = "bip_mic key hdr (?B @ [76, 16] @ kid @ pn_bytes ipn @ replicate 8 0)"
  have "unat (bytes_le16 (kid ! 0) (kid ! 1)) = dot11wBIPKeyid sec'"
    using assms(15,16) by (simp add: kid_def unat_bytes_le16_low unat_of_nat)
  then have v: "rtw_BIP_verify True True junk' sec' ipn_rx (24 + length ?B + 18)
      (hdr @ ?B @ [76, 16] @ kid @ pn_bytes ipn @ ?m @ rest) = Some (SUCCESS, ipn)"
    using bip_verify_frame [OF assms(2,6,7), of kid "pn_bytes ipn" ?m sec' key junk' ipn_rx rest] assms
    by (simp add: kid_def length_bip_mic pn_val_bytes)
  have s: "mgmt_bip_protect True junk sec ipn pattrib (pre @ hdr @ ?B @ room @ rest)
      = Some (True, pre @ hdr @ ?B @ [76, 16] @ (kid @ pn_bytes ipn) @ ?m @ rest,
          pattrib\<lparr>pktlen := 24 + length ?B + 18, last_txcmdsz := 24 + length ?B + 18\<rparr>, ipn + 1)"
    using bip_protect_frame [OF assms(1-5,13,14,8)] by (simp add: kid_def)
  show ?thesis
    unfolding rtw_mgmt_xmitframe_coalesce_def s using assms(1,9-12) v by simp
qed


definition ex_wsec :: w_security where
  "ex_wsec = rx_security.extend ex_rx_sec \<lparr>sw_decrypt = False, hw_decrypted = True, binstallBIPkey = True,
     dot11wBIPKeyid = 4, dot11wBIPKey = replicate 6 (replicate 16 7)\<rparr>"

definition ex_mgmt_attrib :: "bytes \<Rightarrow> nat \<Rightarrow> mgmt_attrib" where
  "ex_mgmt_attrib ra n = \<lparr>encrypt = AES, hdrlen = 24, iv_len = 0, icv_len = 0, nr_frags = 1,
     last_txcmdsz = n, attrib_ra = ra, attrib_ta = [2, 0, 0, 0, 0, 6],
     attrib_UncstKey = replicate 16 0, pktlen = n, attrib_iv = [], attrib_icv = replicate 8 0, bswenc = True\<rparr>"

lemma ex_wsec_sel:
  "dot11wBIPKey ex_wsec = replicate 6 (replicate 16 7)" "dot11wBIPKeyid ex_wsec = 4" "binstallBIPkey ex_wsec"
  by (simp_all add: ex_wsec_def rx_security.defs)

text \<open>A broadcast deauthentication with reason code 3.\<close>

theorem bip_roundtrip_witness:
  "\<exists>mem' pattrib'.
    rtw_mgmt_xmitframe_coalesce True True [] 0x9 ex_wsec 41 0 1 0 None (ex_mgmt_attrib (replicate 6 0xFF) 26)
        (replicate 48 0 @ (0xC0 # replicate 23 1) @ ies_of [(3, [])] @ replicate 18 0 @ [5])
      = Some (True, mem', pattrib', ex_wsec, 41 + 1, None)
    \<and> rtw_BIP_verify True True [9] ex_wsec 40 (pktlen pattrib') (drop TXDESC_OFFSET mem') = Some (SUCCESS, 41)"
proof (rule bip_roundtrip)
  show "GetFrameSubType (0xC0 # replicate 23 1) = Some WIFI_DEAUTH" by code_simp
qed (simp_all add: TXDESC_OFFSET_def ex_mgmt_attrib_def ex_wsec_sel IS_MCAST_def check_fwstate_def
    WIFI_STATION_STATE_def FW_LINKED_def rd_def)

text \<open>The packet number a frame carries.\<close>

definition mme_pn :: "nat \<Rightarrow> bytes \<Rightarrow> u64 option" where
  "mme_pn pkt_len pframe =
     (do { b \<leftarrow> rdn pframe 24 (pkt_len - 24);
           p \<leftarrow> rtw_get_ie b 76 (int (pkt_len - 24));
           case p of None \<Rightarrow> None
           | Some (p, len) \<Rightarrow> map_option pn_val (rdn (replicate 20 0 @ b) (20 + p + 4) 6) })"

lemma bip_verify_ipn:
  assumes "rtw_BIP_verify alloc_ok malloc_ok junk sec ipn pkt_len pframe = Some (r, ipn')"
  shows "if r = SUCCESS then ipn < ipn' \<and> mme_pn pkt_len pframe = Some ipn' else ipn' = ipn"
  using assms
  by (auto simp: rtw_BIP_verify_def mme_pn_def Let_def bind_eq_Some_conv split: if_splits option.splits)
    fastforce+

text \<open>Successive checks; the key state and the allocations may differ for each frame. The accepted
  frames, and the final packet number.\<close>

fun bip_session :: "u64 \<Rightarrow> (bool \<times> bool \<times> w_security \<times> nat \<times> bytes) list \<Rightarrow> ((nat \<times> bytes) list \<times> u64) option" where
  "bip_session ipn [] = Some ([], ipn)"
| "bip_session ipn ((a, m, sec, pkt_len, pframe) # rest) = do {
     (r, ipn) \<leftarrow> rtw_BIP_verify a m [] sec ipn pkt_len pframe;
     (acc, ipn) \<leftarrow> bip_session ipn rest;
     Some (if r = SUCCESS then (pkt_len, pframe) # acc else acc, ipn) }"

lemma bip_session_increasing:
  assumes "bip_session ipn frames = Some (acc, ipn')"
  shows "ipn \<le> ipn' \<and> sorted_wrt (\<lambda>a b. the (mme_pn (fst a) (snd a)) < the (mme_pn (fst b) (snd b))) acc
    \<and> (\<forall>(l, f) \<in> set acc. \<exists>n. mme_pn l f = Some n \<and> ipn < n)"
  using assms
proof (induction ipn frames arbitrary: acc ipn' rule: bip_session.induct)
  case (2 ipn a m sec pkt_len pframe rest)
  then obtain r ipn1 acc1 where r: "rtw_BIP_verify a m [] sec ipn pkt_len pframe = Some (r, ipn1)"
    and s: "bip_session ipn1 rest = Some (acc1, ipn')"
    and acc: "acc = (if r = SUCCESS then (pkt_len, pframe) # acc1 else acc1)"
    by (auto simp: bind_eq_Some_conv split: if_splits)
  note ih = 2(1) [OF r refl s]
  show ?case using ih bip_verify_ipn [OF r] acc by (cases "r = SUCCESS") fastforce+
qed simp

text \<open>C34. No replay: whatever frames arrive, whatever the keys, no frame passes the broadcast check
  twice; the packet numbers of the accepted frames increase.\<close>

theorem bip_no_replay:
  assumes "bip_session ipn frames = Some (acc, ipn')"
  shows "distinct acc \<and> sorted_wrt (\<lambda>a b. the (mme_pn (fst a) (snd a)) < the (mme_pn (fst b) (snd b))) acc"
proof -
  have s: "sorted_wrt (\<lambda>a b. the (mme_pn (fst a) (snd a)) < the (mme_pn (fst b) (snd b))) acc"
    using bip_session_increasing [OF assms] by blast
  then have "distinct acc" by (induction acc) auto
  from this s show ?thesis by (rule conjI)
qed

theorem bip_no_replay_witness:
  "\<exists>f. bip_session 40 [(True, True, ex_wsec, 44, f), (True, True, ex_wsec, 44, f)] = Some ([(44, f)], 41)
    \<and> distinct [(44 :: nat, f)]"
proof -
  let ?hdr = "0xC0 # replicate 23 1 :: bytes" and ?B = "ies_of [(3, [])]" and ?kid = "[4, 0] :: bytes"
  let ?m = "bip_mic (replicate 16 7) ?hdr (?B @ [76, 16] @ ?kid @ pn_bytes 41 @ replicate 8 0)"
  define f where "f = ?hdr @ ?B @ [76, 16] @ ?kid @ pn_bytes 41 @ ?m @ []"
  have v: "rtw_BIP_verify True True [] ex_wsec i 44 f = Some (if i < 41 then (SUCCESS, 41) else (FAIL, i))" for i
    using bip_verify_frame [of ?hdr "[(3, [])]" ?kid "pn_bytes 41" ?m ex_wsec "replicate 16 7" "[]" i "[]"]
    by (simp add: f_def length_bip_mic pn_val_bytes ex_wsec_sel rd_def unat_bytes_le16_low)
  have s: "bip_session 40 [(True, True, ex_wsec, 44, f), (True, True, ex_wsec, 44, f)] = Some ([(44, f)], 41)"
    by (simp add: v)
  from bip_no_replay [OF s] s show ?thesis by blast
qed

text \<open>C37. A management MIC element with a length byte that does not fit makes \<open>rtw_BIP_verify\<close> write
  zeros behind its copy of the frame: the length is used to find the MIC field before anything but
  the packet number and the key id is checked, so the key is not needed.\<close>

theorem bip_verify_overflow:
  assumes "length hdr = 24" "wf_ies es" "\<forall>x \<in> set es. fst x \<noteq> 76"
    and "length kid = 2" "length pn = 6"
    and "ipn < pn_val pn" "unat (bytes_le16 (kid ! 0) (kid ! 1)) = dot11wBIPKeyid sec"
    and "length tail + 8 < unat l"
    and "pkt_len = length (hdr @ ies_of es @ [76, l] @ kid @ pn @ tail)"
  shows "rtw_BIP_verify True malloc_ok junk sec ipn pkt_len (hdr @ ies_of es @ [76, l] @ kid @ pn @ tail) = None"
proof -
  let ?B = "ies_of es"
  let ?b = "?B @ 76 # l # kid @ pn @ tail"
  let ?z = "replicate 20 (0 :: u8)"
  have lz: "length ?z = 20" by simp
  have n: "pkt_len - 24 = length ?b" "\<not> pkt_len < 24" using assms(1,9) by simp_all
  have body: "rdn (hdr @ ?B @ [76, l] @ kid @ pn @ tail) 24 (pkt_len - 24) = Some ?b"
    using assms(1) unfolding n(1) by (simp add: rdn_def)
  have ie: "rtw_get_ie ?b 76 (int (pkt_len - 24)) = Some (Some (length ?B, l))"
    using find_mme [OF assms(2,3), of l "kid @ pn @ tail"] unfolding n(1) .
  have pnr: "rdn (?z @ ?b) (20 + length ?B + 4) 6 = Some pn"
  proof -
    have "rdn ((?z @ ?B @ 76 # l # kid) @ pn @ tail) (20 + length ?B + 4) 6 = Some pn"
      by (rule rdn_append) (simp_all only: length_append list.size lz assms(4,5))
    then show ?thesis by (simp only: append_assoc append_Cons)
  qed
  have kidr: "rdn (?z @ ?b) (20 + length ?B + 2) 2 = Some kid"
  proof -
    have "rdn ((?z @ ?B @ [76, l]) @ kid @ pn @ tail) (20 + length ?B + 2) 2 = Some kid"
      by (rule rdn_append) (simp_all only: length_append list.size lz assms(4))
    then show ?thesis by (simp only: append_assoc append_Cons append_Nil)
  qed
  have clear: "wrn (?z @ ?b) (20 + length ?B + 2 + unat l - 8) (replicate 8 0) = None"
    using assms(4,5,8) by (simp add: wrn_def)
  show ?thesis
    unfolding rtw_BIP_verify_def Let_def if_not_P [OF n(2)] body bind.bind_lunit ie option.case prod.case pnr kidr clear
    using assms(6,7) by (simp add: not_le)
qed

theorem bip_verify_overflow_witness:
  "rtw_BIP_verify True True [] ex_wsec 40 (length ((0xC0 # replicate 23 1) @ ies_of [(3, [])] @ [76, 17] @ [4, 0]
      @ [41, 0, 0, 0, 0, 0] @ replicate 8 0))
    ((0xC0 # replicate 23 1) @ ies_of [(3, [])] @ [76, 17] @ [4, 0] @ [41, 0, 0, 0, 0, 0] @ replicate 8 0) = None"
  by (rule bip_verify_overflow) (simp_all add: ex_wsec_sel pn_val_def bytes_le16_def)

section \<open>Unicast frames\<close>

lemma aes_encrypt_one:
  assumes "tx_frame pattrib hdr iv m" "encrypt pattrib = AES" "hw_hdr_offset pkt_offset = length pre"
    and "tx_key sec pattrib = Some key" "ccmp_header hdr" "length iv = 8" "length room = 8"
    and "length m < 2 ^ 32"
  shows "rtw_aes_encrypt w sec base pkt_offset frag_len pattrib (Some (pre @ hdr @ iv @ m @ room @ rest))
    = Some (True, Some (pre @ hdr @ iv @ ccm_encrypt (aes128k128d key) (ccmp_nonce w hdr iv) (ccmp_aad w hdr) m @ rest),
        sec\<lparr>aes_sw_enc_cnt := sw_cnt_inc (attrib_ra pattrib) (aes_sw_enc_cnt sec)\<rparr>)"
proof -
  have hl: "hdrlen pattrib = length hdr" using assms(1) by (simp add: tx_frame_def)
  have "unat (of_int (int (length m)) :: u32) = length m"
    using assms(8) by (simp add: unat_of_nat)
  from aes_cipher_ccm [OF assms(5-7) this, of w key rest]
  have e: "aes_encrypt_frag w key pattrib (length pre) (int (length m)) (pre @ hdr @ iv @ m @ room @ rest)
      = Some (pre @ hdr @ iv @ ccm_encrypt (aes128k128d key) (ccmp_nonce w hdr iv) (ccmp_aad w hdr) m @ rest)"
    by (simp add: aes_encrypt_frag_def hl)
  show ?thesis
    using assms(2-4) e unfolding rtw_aes_encrypt_def frag_loop_one [OF assms(1)] by simp
qed

lemma subtype_low_byte: "bytes_le16 a b AND 0xfc = ucast a AND 0xfc"
proof (rule bit_word_eqI)
  fix k assume "k < LENGTH(16)"
  have "take_bit 8 (0xfc :: u16) = 0xfc" by simp
  then have "bit (0xfc :: u16) k \<Longrightarrow> k < 8" by (metis bit_take_bit_iff)
  then show "bit (bytes_le16 a b AND 0xfc) k \<longleftrightarrow> bit (ucast a AND 0xfc :: u16) k"
    unfolding bytes_le16_def bit_and_iff bit_or_iff bit_push_bit_iff by auto
qed

lemma mgmt_header:
  assumes "length hdr = 24" "GetFrameSubType hdr = Some subtype"
    and "subtype \<in> {WIFI_DEAUTH, WIFI_DISASSOC, WIFI_ACTION}"
  shows "ccmp_header hdr" "hdr_ft hdr = WIFI_MGT_TYPE"
    "GetFrameSubType (hdr[1 := x] @ rest) = Some subtype"
proof -
  have s: "bytes_le16 (hdr ! 0) b AND 0xfc = subtype" for b
    using frame_type_header(2) [of hdr "[]"] assms(1,2) by (simp add: subtype_low_byte)
  have "hdr_ft hdr = (bytes_le16 (hdr ! 0) (hdr ! 1) AND 0xfc) AND 0x0c"
    by (simp add: hdr_ft_def and.assoc)
  then show ft: "hdr_ft hdr = WIFI_MGT_TYPE"
    using assms(3) unfolding s by (auto simp: WIFI_DEAUTH_def WIFI_DISASSOC_def WIFI_ACTION_def WIFI_MGT_TYPE_def)
  have "hdr_fst hdr = drop_bit 4 subtype" by (simp add: hdr_fst_def s)
  then show "ccmp_header hdr"
    using assms(1,3) ft
    by (auto simp: ccmp_header_def hdr_a4_def hdr_qc_def ccmp_classify_def Let_def WLAN_HDR_A3_LEN_def
        WIFI_DEAUTH_def WIFI_DISASSOC_def WIFI_ACTION_def WIFI_MGT_TYPE_def WIFI_DATA_def
        WIFI_DATA_CFACK_def WIFI_DATA_CFPOLL_def WIFI_DATA_CFACKPOLL_def)
  show "GetFrameSubType (hdr[1 := x] @ rest) = Some subtype"
    using frame_type_header(2) [of "hdr[1 := x]" rest] assms(1) s by simp
qed

lemma wrn_over:
  "i = length p \<Longrightarrow> length xs \<le> length q \<Longrightarrow> wrn (p @ q) i xs = Some (p @ xs @ drop (length xs) q)"
  by (simp add: wrn_def)

text \<open>What the sender makes of a unicast frame.\<close>

lemma ccmp_protect_frame:
  assumes len: "length pre = TXDESC_OFFSET" "length hdr = 24" "length room = 16"
    and subtype: "GetFrameSubType hdr = Some subtype" "subtype \<in> {WIFI_DEAUTH, WIFI_DISASSOC, WIFI_ACTION}"
    and robust: "subtype = WIFI_ACTION \<longrightarrow> mbody \<noteq> [] \<and> \<not> not_robust (mbody ! 0)"
    and pattrib: "pktlen pattrib = 24 + length mbody" "hdrlen pattrib = 24" "encrypt pattrib = AES"
      "nr_frags pattrib = 1" "bswenc pattrib" "length (attrib_icv pattrib) = 8" "\<not> IS_MCAST (attrib_ra pattrib)"
    and peer: "peer_state p AND FW_LINKED \<noteq> 0" "length mbody < 2 ^ 32"
  defines "hdr' \<equiv> hdr[1 := hdr ! 1 OR 0x40]" and "iv \<equiv> fst (AES_IV (dot11wtxpn p) 0)"
  shows "\<exists>pattrib' sec'. mgmt_ccmp_protect sec base 1 frag_len (Some p) pattrib (pre @ hdr @ mbody @ room @ rest)
    = Some (True, pre @ hdr' @ iv @ ccm_encrypt (aes128k128d (take 16 (peer_UncstKey p)))
            (ccmp_nonce True hdr' iv) (ccmp_aad True hdr') mbody @ rest,
        pattrib', sec', Some (p\<lparr>dot11wtxpn := snd (AES_IV (dot11wtxpn p) 0)\<rparr>))
      \<and> pktlen pattrib' = 24 + length mbody + 16"
proof -
  let ?k = "take 16 (peer_UncstKey p)"
  let ?pa = "pattrib\<lparr>attrib_UncstKey := ?k, iv_len := 8, icv_len := 8, attrib_iv := iv,
      pktlen := 24 + length mbody + 16, last_txcmdsz := 24 + length mbody + 16\<rparr>"
  let ?mem = "pre @ hdr @ mbody @ room @ rest"
  have liv: "length iv = 8" by (simp add: iv_def AES_IV_def Let_def)
  have hdr': "length hdr' = 24" "ccmp_header hdr'"
    using len(2) mgmt_header [of hdr' subtype] mgmt_header(3) [OF len(2) subtype, of _ "[]"] subtype(2)
    by (simp_all add: hdr'_def)
  have st: "GetFrameSubType (drop TXDESC_OFFSET ?mem) = Some subtype"
    using subtype(1) len frame_type_header(2) [of hdr] frame_type_header(2) [of hdr "[]"] by simp
  have copy: "rdn ?mem TXDESC_OFFSET (pktlen pattrib) = Some (hdr @ mbody)"
    using rdn_append [of TXDESC_OFFSET pre "pktlen pattrib" "hdr @ mbody" "room @ rest"] len pattrib(1) by simp
  have category: "\<exists>c. (if subtype = WIFI_ACTION then rd ?mem (TXDESC_OFFSET + 24) else Some 0) = Some c
      \<and> \<not> (subtype = WIFI_ACTION \<and> not_robust c)"
    using robust len by (cases mbody) (auto simp: rd_def nth_append)
  have w1: "wrn ?mem (TXDESC_OFFSET + 24) iv = Some ((pre @ hdr @ iv) @ drop 8 (mbody @ room @ rest))"
    using wrn_over [of "TXDESC_OFFSET + 24" "pre @ hdr" iv "mbody @ room @ rest"] len liv by simp
  have dd: "drop (length mbody) (drop 8 (mbody @ room @ rest)) = drop 8 room @ rest"
    using len by (simp add: drop_drop drop_eq_Nil add.commute [of 8] del: drop_append) (simp flip: drop_drop)
  have w2: "wrn ((pre @ hdr @ iv) @ drop 8 (mbody @ room @ rest)) (TXDESC_OFFSET + 24 + 8) mbody
      = Some ((pre @ hdr @ iv @ mbody) @ drop 8 room @ rest)"
    using wrn_over [of "TXDESC_OFFSET + 24 + 8" "pre @ hdr @ iv" mbody "drop 8 (mbody @ room @ rest)"] len liv
    unfolding dd by (simp del: drop_append)
  have w3: "wrn ((pre @ hdr @ iv @ mbody) @ drop 8 room @ rest) (TXDESC_OFFSET + pktlen pattrib + 8) (take 8 (attrib_icv pattrib))
      = Some (pre @ hdr @ iv @ mbody @ attrib_icv pattrib @ rest)"
    using wrn_over [of "TXDESC_OFFSET + pktlen pattrib + 8" "pre @ hdr @ iv @ mbody" "attrib_icv pattrib" "drop 8 room @ rest"]
      len liv pattrib by simp
  have fc: "rd (pre @ hdr @ iv @ mbody @ attrib_icv pattrib @ rest) (TXDESC_OFFSET + 1) = Some (hdr ! 1)"
    using len by (simp add: rd_def nth_append)
  have sp: "(pre @ hdr @ iv @ mbody @ attrib_icv pattrib @ rest)[TXDESC_OFFSET + 1 := hdr ! 1 OR 0x40]
      = pre @ hdr' @ iv @ mbody @ attrib_icv pattrib @ rest"
    using len by (simp add: list_update_append hdr'_def)
  obtain sec' where enc: "xmitframe_swencrypt True sec base 1 frag_len ?pa (pre @ hdr' @ iv @ mbody @ attrib_icv pattrib @ rest)
    = Some (pre @ hdr' @ iv @ ccm_encrypt (aes128k128d ?k)
            (ccmp_nonce True hdr' iv) (ccmp_aad True hdr') mbody @ rest, sec')"
  proof -
    have "tx_frame ?pa hdr' iv mbody" using pattrib hdr'(1) liv by (simp add: tx_frame_def)
    moreover have "hw_hdr_offset 1 = length pre" using len by (simp add: hw_hdr_offset_def TXDESC_OFFSET_def)
    moreover have "tx_key sec ?pa = Some ?k" using pattrib by (simp add: tx_key_def)
    ultimately have "\<exists>sec'. rtw_aes_encrypt True sec base 1 frag_len ?pa (Some (pre @ hdr' @ iv @ mbody @ attrib_icv pattrib @ rest))
        = Some (True, Some (pre @ hdr' @ iv @ ccm_encrypt (aes128k128d ?k)
            (ccmp_nonce True hdr' iv) (ccmp_aad True hdr') mbody @ rest), sec')"
      using aes_encrypt_one [of ?pa hdr' iv mbody 1 pre sec ?k "attrib_icv pattrib" True base frag_len rest]
        pattrib hdr'(2) liv peer(2) by simp
    then obtain sec' where a: "rtw_aes_encrypt True sec base 1 frag_len ?pa (Some (pre @ hdr' @ iv @ mbody @ attrib_icv pattrib @ rest))
        = Some (True, Some (pre @ hdr' @ iv @ ccm_encrypt (aes128k128d ?k)
            (ccmp_nonce True hdr' iv) (ccmp_aad True hdr') mbody @ rest), sec')" by blast
    have "encrypt ?pa = AES" "bswenc ?pa" "AES \<noteq> WEP40" "AES \<noteq> WEP104" "AES \<noteq> TKIP"
      using pattrib by (simp_all add: AES_def WEP40_def WEP104_def TKIP_def)
    then show ?thesis by (intro that [of sec']) (simp only: xmitframe_swencrypt_def a if_False if_True
      not_True_eq_False simp_thms option.map prod.case option.sel)
  qed
  obtain c where c: "(if subtype = WIFI_ACTION then rd ?mem (TXDESC_OFFSET + 24) else Some 0) = Some c"
    "\<not> (subtype = WIFI_ACTION \<and> not_robust c)" using category by blast
  have ns: "\<not> (subtype \<noteq> WIFI_DEAUTH \<and> subtype \<noteq> WIFI_DISASSOC \<and> subtype \<noteq> WIFI_REASSOCREQ \<and> subtype \<noteq> WIFI_ACTION)"
    using subtype(2) by auto
  have e: "0 < encrypt pattrib" "AES \<noteq> 0" using pattrib by (simp_all add: AES_def)
  have iv: "AES_IV (dot11wtxpn p) 0 = (iv, snd (AES_IV (dot11wtxpn p) 0))" by (simp add: iv_def)
  have d: "drop 24 (hdr @ mbody) = mbody" using len by simp
  show ?thesis
    unfolding mgmt_ccmp_protect_def Let_def st bind.bind_lunit if_not_P [OF ns] option.case if_not_P [OF peer(1)]
      c(1) if_not_P [OF c(2)] copy
    using e pattrib copy w1 w2 w3 fc sp enc liv d len
    by (subst iv) (simp add: TXDESC_OFFSET_def del: drop_append)
qed

lemma aes_decipher_of_ccm:
  assumes "ccmp_header hdr" "length iv = 8" "length message = MAX_MSG_SIZE"
    and "unat plen = length p + 8" "length hdr + 16 + length p \<le> MAX_MSG_SIZE"
  shows "\<exists>m message'. length m = 8 \<and> length message' = MAX_MSG_SIZE
    \<and> aes_decipher w key (length hdr)
        (hdr @ iv @ ccm_encrypt (aes128k128d key) (ccmp_nonce w hdr iv) (ccmp_aad w hdr) p @ rest) plen message
      = Some (True, hdr @ iv @ p @ m @ rest, message')"
proof -
  let ?E = "aes128k128d key" and ?blk = "ccm_ctr (ccmp_nonce w hdr iv)"
  let ?c = "ctr_xor ?E ?blk 1 p"
  let ?m = "xorl (?E (?blk 0)) (ccm_tag ?E (ccmp_nonce w hdr iv) (ccmp_aad w hdr) p)"
  have c: "length ?c = length p" using assms(1) by (intro aes.length_ctr_xor length_ccm_ctr)
  have m: "length ?m = 8" by (simp add: length_ccm_tag)
  have p: "ctr_xor ?E ?blk 1 ?c = p" using assms(1) by (intro aes.ctr_xor_twice length_ccm_ctr)
  have u: "unat plen = length ?c + 8" "length hdr + 16 + length ?c \<le> MAX_MSG_SIZE"
    using c assms by simp_all
  have l: "length (hdr @ iv @ ccm_encrypt ?E (ccmp_nonce w hdr iv) (ccmp_aad w hdr) p
      @ drop (length hdr + 16 + length ?c) message) = MAX_MSG_SIZE"
    using length_ccm_encrypt [OF assms(1)] u(2) assms(2,3) c by simp
  from aes_decipher_ccm [OF assms(1,2) m u(1) assms(3) u(2), of w key rest, unfolded p] m l
  show ?thesis by (simp add: ccm_encrypt_def)
qed

lemma rx_mem_parts:
  assumes "rx_data f = int (length h)" "buf f = h @ d"
  shows "rx_mem f = d" "frame_rdn f i n = rdn d i n" "with_data f d' = f\<lparr>buf := h @ d'\<rparr>"
  using assms by (simp_all add: rx_mem_def frame_rdn_def with_data_def rdn_def add.commute)

text \<open>Software decryption of a unicast frame whose CCM tag is right.\<close>

lemma rtw_aes_decrypt_of_ccm:
  assumes "rx_encrypt prx = AES" "\<not> IS_MCAST (rx_ra prx)" "rx_hdrlen prx = length hdr" "rx_iv_len prx = 8"
    and "ccmp_header hdr" "length iv = 8" "length message = MAX_MSG_SIZE" "length hdr + 16 + length p \<le> MAX_MSG_SIZE"
    and "len = length hdr + 8 + length p + 8"
  shows "\<exists>sec' gk' m message'. length m = 8 \<and> length message' = MAX_MSG_SIZE
    \<and> rtw_aes_decrypt w now passing sec gk message (Some key) prx len
        (hdr @ iv @ ccm_encrypt (aes128k128d key) (ccmp_nonce w hdr iv) (ccmp_aad w hdr) p @ rest)
      = Some (True, hdr @ iv @ p @ m @ rest, sec', gk', message')"
proof -
  have "unat (of_int (int len - int (rx_hdrlen prx) - int (rx_iv_len prx)) :: u32) = length p + 8"
  proof -
    have "(of_int (int len - int (rx_hdrlen prx) - int (rx_iv_len prx)) :: u32) = of_nat (length p + 8)"
      using assms(3,4,9) by simp
    then show ?thesis using assms(8) by (simp only: unat_of_nat) (simp add: MAX_MSG_SIZE_def)
  qed
  from aes_decipher_of_ccm [OF assms(5-7) this assms(8), of w key rest] show ?thesis
    using assms(1-4) by (auto simp: rtw_aes_decrypt_def)
qed

text \<open>How \<open>decrypt_mgmt\<close> treats what the sender made of a frame.\<close>

lemma decrypt_mgmt_frame:
  fixes f :: rx_frame
  assumes f: "rx_data f = int (length h)" "buf f = h @ hdr @ iv
        @ ccm_encrypt (aes128k128d key) (ccmp_nonce True hdr iv) (ccmp_aad True hdr) p @ rest"
      "rx_len f = of_nat (40 + length p)" "rx_pkt_len (attrib f) = 40 + length p"
    and hdr: "length hdr = 24" "ccmp_header hdr" "length iv = 8" "\<not> IS_MCAST (drop 4 hdr)"
    and room: "40 + length p \<le> MAX_MSG_SIZE" "length (dec_message st) = MAX_MSG_SIZE"
    and alloc: "alloc_ok (of_nat (length p))"
  shows "\<exists>f' sec' st' tl. decrypt_mgmt alloc_ok now passing (Some key) sec st f = Some (True, f', sec', st', [])
    \<and> buf f' = h @ hdr @ p @ tl \<and> rx_data f' = rx_data f \<and> rx_pkt_len (attrib f') = 24 + length p"
proof -
  let ?c = "ccm_encrypt (aes128k128d key) (ccmp_nonce True hdr iv) (ccmp_aad True hdr) p"
  let ?d = "hdr @ iv @ ?c @ rest"
  note parts = rx_mem_parts [OF f(1,2)]
  let ?ra = "take 6 (drop 4 hdr)" and ?ta = "take 6 (drop 10 hdr)"
  have ra: "frame_rdn f 4 6 = Some ?ra" and ta: "frame_rdn f 10 6 = Some ?ta"
    using hdr by (simp_all add: parts rdn_header)
  have uc: "\<not> IS_MCAST ?ra" using hdr(1,4) by (simp add: IS_MCAST_def)
  define a where "a = (attrib f)\<lparr>rx_bdecrypted := False, rx_encrypt := AES, rx_hdrlen := 24,
       rx_iv_len := 8, rx_icv_len := 8, rx_ra := ?ra, rx_ta := ?ta\<rparr>"
  define f1 where "f1 = f\<lparr>attrib := a\<rparr>"
  have a: "rx_encrypt a = AES" "rx_ra a = ?ra" "rx_hdrlen a = 24" "rx_iv_len a = 8" "\<not> rx_bdecrypted a"
    "rx_pkt_len a = 40 + length p" using f(4) by (simp_all add: a_def)
  have f1: "rx_data f1 = int (length h)" "buf f1 = h @ ?d" "rx_len f1 = of_nat (40 + length p)" "attrib f1 = a"
    using f by (simp_all add: f1_def)
  have aes: "0 < AES" "AES \<noteq> WEP40" "AES \<noteq> WEP104" "AES \<noteq> TKIP"
    by (simp_all add: AES_def WEP40_def WEP104_def TKIP_def)
  have len: "of_int (int (rx_pkt_len a) - 24 - 8 - 8) = (of_nat (length p) :: u32)" using a by simp
  obtain k where k: "rx_iv_key_index sec f1 = Some k"
    using rx_mem_parts(2) [OF f1(1,2)] hdr a aes f1(4) by (auto simp: rx_iv_key_index_def rdn_def Let_def)
  define f2 where "f2 = f1\<lparr>attrib := a\<lparr>rx_key_index := k\<rparr>\<rparr>"
  have f2: "rx_data f2 = int (length h)" "buf f2 = h @ ?d" "rx_len f2 = of_nat (40 + length p)"
    "attrib f2 = a\<lparr>rx_key_index := k\<rparr>" using f1 by (simp_all add: f2_def)
  have ul: "unat (rx_len f2) = 24 + 8 + length p + 8"
    using room(1) f2(3) by (simp only: unat_of_nat) (simp add: MAX_MSG_SIZE_def)
  let ?s = "sec\<lparr>hw_decrypted := False\<rparr>"
  obtain sec' gk' m message' where m: "length m = 8" and dec:
    "rtw_aes_decrypt True now passing ?s (aes_gk st) (dec_message st) (Some key) (attrib f2) (unat (rx_len f2)) ?d
      = Some (True, hdr @ iv @ p @ m @ rest, sec', gk', message')"
    using rtw_aes_decrypt_of_ccm [of "attrib f2" hdr iv "dec_message st" p "unat (rx_len f2)" True now passing ?s
        "aes_gk st" key rest] hdr room a uc ul f2(4) by auto
  define f3 where "f3 = f2\<lparr>buf := h @ hdr @ iv @ p @ m @ rest, attrib := (attrib f2)\<lparr>rx_bdecrypted := True\<rparr>\<rparr>"
  have d: "decryptor True now passing (Some key) sec st f1
      = Some (True, f3, sec', st\<lparr>aes_gk := gk', dec_message := message'\<rparr>)"
    using k a aes dec rx_mem_parts [OF f2(1,2)] f1(4)
    by (simp add: decryptor_def sw_decrypt_frame_def f2_def f3_def)
  have f3: "rx_data f3 = int (length h)" "buf f3 = h @ hdr @ iv @ p @ m @ rest" "rx_pkt_len (attrib f3) = 40 + length p"
    using f2 a by (simp_all add: f3_def)
  have u: "unat (of_nat (length p) :: u32) = length p"
    using room(1) by (simp only: unat_of_nat) (simp add: MAX_MSG_SIZE_def)
  have r: "frame_rdn f3 32 (unat (of_nat (length p) :: u32)) = Some p"
    using rdn_append [of 32 "hdr @ iv" "length p" p "m @ rest"] hdr rx_mem_parts(2) [OF f3(1,2)] u by simp
  have w: "wrn (buf f3) (nat (rx_data f3) + 24) p = Some (h @ hdr @ p @ drop (length p) (iv @ p @ m @ rest))"
    using wrn_over [of "length h + 24" "h @ hdr" p "iv @ p @ m @ rest"] hdr f3 by (simp del: drop_append)
  have n: "nat ((int (40 + length p) - 8 - 8) mod 65536) = 24 + length p"
    using room(1) by (simp add: MAX_MSG_SIZE_def mod_pos_pos_trivial nat_eq_iff)
  show ?thesis
    unfolding decrypt_mgmt_def ra ta bind.bind_lunit Let_def a_def [symmetric] f1_def [symmetric] f1(4) len
      d prod.case r w f3(3) n if_True
    using alloc f3(1) f(1) by simp
qed

text \<open>A protected frame of \<open>n\<close> bytes as the receiver gets it behind \<open>h\<close>.\<close>

definition received :: "bytes \<Rightarrow> bytes \<Rightarrow> nat \<Rightarrow> rx_frame \<Rightarrow> rx_frame" where
  "received h frame n f = f\<lparr>buf := h @ frame, rx_data := int (length h), rx_tail := int (length h + n),
     rx_len := of_nat n, attrib := (attrib f)\<lparr>rx_pkt_len := n, rx_privacy := 1\<rparr>\<rparr>"

text \<open>C36. Round trip of unicast protection: a deauthentication, disassociation or robust action frame
  that \<open>rtw_mgmt_xmitframe_coalesce\<close> encrypts is accepted and decrypted by \<open>validate_80211w_mgmt\<close> of a
  linked station with the same pairwise key; the CCMP header is gone afterwards and the length is that of
  the original frame, which differs in the protected bit only.\<close>

theorem mgmt_ccmp_roundtrip:
  fixes sec :: "'s w_security_scheme" and sec' :: "'t w_security_scheme"
  assumes len: "length pre = TXDESC_OFFSET" "length hdr = 24" "length room = 16"
    and subtype: "GetFrameSubType hdr = Some subtype" "subtype \<in> {WIFI_DEAUTH, WIFI_DISASSOC, WIFI_ACTION}"
    and robust: "subtype = WIFI_ACTION \<longrightarrow> mbody \<noteq> [] \<and> \<not> not_robust (mbody ! 0)"
    and pattrib: "pktlen pattrib = 24 + length mbody" "hdrlen pattrib = 24" "encrypt pattrib = AES"
      "nr_frags pattrib = 1" "bswenc pattrib" "length (attrib_icv pattrib) = 8" "\<not> IS_MCAST (attrib_ra pattrib)"
    and peer: "peer_state p AND FW_LINKED \<noteq> 0"
    and sender: "check_fwstate fw WIFI_STATION_STATE" "check_fwstate fw FW_LINKED" "binstallBIPkey sec"
    and receiver: "check_fwstate fw' WIFI_STATION_STATE" "check_fwstate fw' FW_LINKED" "binstallBIPkey sec'"
      "\<not> IS_MCAST (drop 4 hdr)" "length (dec_message st) = MAX_MSG_SIZE" "alloc_ok (of_nat (length mbody))"
    and room: "40 + length mbody \<le> MAX_MSG_SIZE"
  shows "\<exists>mem' pattrib' sec1 p' f' sec2 st'.
    rtw_mgmt_xmitframe_coalesce True True junk fw sec ipn base 1 frag_len (Some p) pattrib
        (pre @ hdr @ mbody @ room @ rest) = Some (True, mem', pattrib', sec1, ipn, Some p')
    \<and> validate_80211w_mgmt alloc_ok b m junk' now passing fw' (Some (take 16 (peer_UncstKey p))) sec' ipn' st
        (received h (drop TXDESC_OFFSET mem') (pktlen pattrib') f) = Some (True, f', sec2, ipn', st', [], False)
    \<and> take (24 + length mbody) (rx_mem f') = hdr[1 := hdr ! 1 OR 0x40] @ mbody
    \<and> rx_pkt_len (attrib f') = 24 + length mbody"
proof -
  let ?hdr = "hdr[1 := hdr ! 1 OR 0x40]" and ?iv = "fst (AES_IV (dot11wtxpn p) 0)" and ?key = "take 16 (peer_UncstKey p)"
  let ?c = "ccm_encrypt (aes128k128d ?key) (ccmp_nonce True ?hdr ?iv) (ccmp_aad True ?hdr) mbody"
  let ?d = "?hdr @ ?iv @ ?c @ rest" and ?n = "24 + length mbody + 16"
  have hdr': "length ?hdr = 24" "ccmp_header ?hdr" "length ?iv = 8" "\<not> IS_MCAST (drop 4 ?hdr)"
    using len(2) mgmt_header [of ?hdr subtype] mgmt_header(3) [OF len(2) subtype, of _ "[]"] subtype(2) receiver(4)
    by (simp_all add: AES_IV_def Let_def drop_update_swap)
  have "length mbody < 2 ^ 32" using room by (simp add: MAX_MSG_SIZE_def)
  from ccmp_protect_frame [OF len subtype robust pattrib peer this, of sec base frag_len rest]
  obtain pattrib' sec1 where s: "mgmt_ccmp_protect sec base 1 frag_len (Some p) pattrib (pre @ hdr @ mbody @ room @ rest)
      = Some (True, pre @ ?d, pattrib', sec1, Some (p\<lparr>dot11wtxpn := snd (AES_IV (dot11wtxpn p) 0)\<rparr>))"
    "pktlen pattrib' = ?n" by auto
  let ?f = "received h ?d ?n f"
  have f: "rx_data ?f = int (length h)" "buf ?f = h @ ?d" "rx_len ?f = of_nat (40 + length mbody)"
    "rx_pkt_len (attrib ?f) = 40 + length mbody" "rx_privacy (attrib ?f) = 1"
    by (simp_all add: received_def)
  from decrypt_mgmt_frame [OF f(1-4) hdr' room receiver(5), of alloc_ok now passing sec'] receiver(6)
  obtain f' sec2 st' tl where r: "decrypt_mgmt alloc_ok now passing (Some ?key) sec' st ?f = Some (True, f', sec2, st', [])"
    "buf f' = h @ ?hdr @ mbody @ tl" "rx_data f' = rx_data ?f" "rx_pkt_len (attrib f') = 24 + length mbody" by auto
  have st: "GetFrameSubType (rx_mem ?f) = Some subtype"
    using mgmt_header(3) [OF len(2) subtype] rx_mem_parts(1) [OF f(1,2)] by simp
  have a1: "frame_rdn ?f 4 6 = Some (take 6 (drop 4 ?hdr))"
    using rx_mem_parts(2) [OF f(1,2)] hdr'(1) by (simp add: rdn_header)
  have uc: "\<not> IS_MCAST (take 6 (drop 4 ?hdr))" using hdr'(1,4) by (simp add: IS_MCAST_def)
  have v: "validate_80211w_mgmt alloc_ok b m junk' now passing fw' (Some ?key) sec' ipn' st ?f
      = Some (True, f', sec2, ipn', st', [], False)"
    unfolding validate_80211w_mgmt_def st bind.bind_lunit a1
    using receiver(1-3) f(5) uc subtype(2) r(1) by simp
  have m: "take (24 + length mbody) (rx_mem f') = ?hdr @ mbody"
    using r(2,3) f(1) len(2) by (simp add: rx_mem_def)
  show ?thesis
    unfolding rtw_mgmt_xmitframe_coalesce_def s(1)
    using sender pattrib(7) v m r(4) s(2) len(1) by simp
qed

lemma rtw_aes_decrypt_authentic:
  assumes "rtw_aes_decrypt w now passing sec gk message stainfo prx len frame = Some (True, r)"
    and "rx_encrypt prx = AES" "\<not> IS_MCAST (rx_ra prx)"
  shows "\<exists>key d message'. stainfo = Some key \<and> aes_decipher w key (rx_hdrlen prx) frame
      (of_int (int len - int (rx_hdrlen prx) - int (rx_iv_len prx))) message = Some (True, d, message')"
  using assms by (auto simp: rtw_aes_decrypt_def bind_eq_Some_conv Let_def split: option.splits)

lemma decrypt_mgmt_authentic:
  assumes "decrypt_mgmt alloc_ok now passing stainfo sec st f = Some (True, r)"
    and "frame_rdn f 4 6 = Some a1" "\<not> IS_MCAST a1"
  shows "\<exists>key d message'. stainfo = Some key
      \<and> aes_decipher True key 24 (rx_mem f) (rx_len f - 32) (dec_message st) = Some (True, d, message')"
proof -
  have aes: "0 < AES" "AES \<noteq> WEP40" "AES \<noteq> WEP104" "AES \<noteq> TKIP"
    by (simp_all add: AES_def WEP40_def WEP104_def TKIP_def)
  have n: "of_int (int (unat (rx_len f)) - int 24 - int 8) = rx_len f - 32" by simp
  let ?f1 = "\<lambda>ta. f\<lparr>attrib := (attrib f)\<lparr>rx_bdecrypted := False, rx_encrypt := AES, rx_hdrlen := 24,
       rx_iv_len := 8, rx_icv_len := 8, rx_ra := a1, rx_ta := ta\<rparr>\<rparr>"
  obtain ta g where d: "decryptor True now passing stainfo sec st (?f1 ta) = Some (True, g)"
    using assms(1,2) by (auto simp: decrypt_mgmt_def bind_eq_Some_conv Let_def split: if_splits)
  define f1 where "f1 = ?f1 ta"
  have f1: "rx_mem f1 = rx_mem f" "rx_len f1 = rx_len f" "rx_encrypt (attrib f1) = AES"
    "rx_ra (attrib f1) = a1" "rx_hdrlen (attrib f1) = 24" "rx_iv_len (attrib f1) = 8" "\<not> rx_bdecrypted (attrib f1)"
    by (simp_all add: f1_def rx_mem_def)
  note d = d [folded f1_def]
  let ?s = "sec\<lparr>hw_decrypted := False\<rparr>"
  obtain k g2 where s: "sw_decrypt_frame True now passing stainfo ?s st (f1\<lparr>attrib := (attrib f1)\<lparr>rx_key_index := k\<rparr>\<rparr>)
      = Some (True, g2)"
    using d f1 aes by (auto simp: decryptor_def bind_eq_Some_conv Let_def)
  define f2 where "f2 = f1\<lparr>attrib := (attrib f1)\<lparr>rx_key_index := k\<rparr>\<rparr>"
  have f2: "rx_mem f2 = rx_mem f1" "rx_len f2 = rx_len f1" "rx_encrypt (attrib f2) = AES"
    "rx_ra (attrib f2) = a1" "rx_hdrlen (attrib f2) = 24" "rx_iv_len (attrib f2) = 8"
    using f1 by (simp_all add: f2_def rx_mem_def)
  note s = s [folded f2_def]
  from s f2 aes obtain g3 where "rtw_aes_decrypt True now passing ?s (aes_gk st) (dec_message st) stainfo (attrib f2)
      (unat (rx_len f2)) (rx_mem f2) = Some (True, g3)"
    by (auto simp: sw_decrypt_frame_def bind_eq_Some_conv)
  from rtw_aes_decrypt_authentic [OF this] f1 f2 assms(3) show ?thesis by (simp add: n)
qed

text \<open>C33. Safety: a linked station with a group integrity key accepts a deauthentication or
  disassociation frame only when it is authentic: a multicast frame has passed the broadcast check,
  a unicast one carries the CCM tag of the pairwise key.\<close>

theorem validate_80211w_mgmt_authentic:
  assumes "validate_80211w_mgmt alloc_ok b m junk now passing fw stainfo sec ipn st f
      = Some (True, f', sec', ipn', st', freed, q)"
    and "check_fwstate fw WIFI_STATION_STATE" "check_fwstate fw FW_LINKED" "binstallBIPkey sec"
    and "GetFrameSubType (rx_mem f) = Some subtype" "subtype \<in> {WIFI_DEAUTH, WIFI_DISASSOC}"
  shows "if IS_MCAST (drop 4 (rx_mem f))
    then rtw_BIP_verify b m junk sec ipn (rx_pkt_len (attrib f)) (rx_mem f) = Some (SUCCESS, ipn')
    else \<exists>key d message'. stainfo = Some key
      \<and> aes_decipher True key 24 (rx_mem f) (rx_len f - 32) (dec_message st) = Some (True, d, message')"
proof -
  obtain a1 where a1: "frame_rdn f 4 6 = Some a1"
    using assms(1-4) by (auto simp: validate_80211w_mgmt_def assms(5) split: bind_splits)
  have mc: "IS_MCAST (drop 4 (rx_mem f)) \<longleftrightarrow> IS_MCAST a1"
    using a1 by (auto simp: frame_rdn_def rdn_Some_iff rx_mem_def IS_MCAST_def add.commute)
  have sub: "subtype \<noteq> WIFI_ACTION" using assms(6) by (auto simp: WIFI_DEAUTH_def WIFI_DISASSOC_def WIFI_ACTION_def)
  note v = assms(1) [unfolded validate_80211w_mgmt_def assms(5) bind.bind_lunit a1]
  show ?thesis
  proof (cases "IS_MCAST a1")
    case True
    then show ?thesis using v assms(2-4,6) sub mc by (auto simp: bind_eq_Some_conv)
  next
    case False
    then obtain g where "decrypt_mgmt alloc_ok now passing stainfo sec st f = Some (True, g)"
      using v assms(2-4,6) sub by (auto simp: bind_eq_Some_conv split: if_splits)
    from decrypt_mgmt_authentic [OF this] show ?thesis using False mc a1
      by (simp add: frame_rdn_def rx_mem_def)
  qed
qed

definition ex_peer :: mgmt_peer where
  "ex_peer = \<lparr>peer_state = 1, peer_UncstKey = replicate 16 9, dot11wtxpn = 77\<rparr>"

definition ex_static :: dec_static where
  "ex_static = \<lparr>tkip_gk = \<lparr>gk_start = 0, gk_bc_cnt = 0, gk_mc_cnt = 0\<rparr>,
     aes_gk = \<lparr>gk_start = 0, gk_bc_cnt = 0, gk_mc_cnt = 0\<rparr>, dec_message = replicate 2048 0\<rparr>"

text \<open>An SA query request.\<close>

theorem mgmt_ccmp_roundtrip_witness:
  "\<exists>mem' pattrib' sec1 p' f' sec2 st'.
    rtw_mgmt_xmitframe_coalesce True True [] 9 ex_wsec 0 0 1 0 (Some ex_peer) (ex_mgmt_attrib [2, 0, 0, 0, 0, 5] 28)
        (replicate 48 0 @ (0xD0 # replicate 23 2) @ [8, 0, 1, 2] @ replicate 16 0 @ [7])
      = Some (True, mem', pattrib', sec1, 0, Some p')
    \<and> validate_80211w_mgmt (\<lambda>_. True) True True [] 0 (\<lambda>_. 0) 9 (Some (take 16 (peer_UncstKey ex_peer))) ex_wsec 0 ex_static
        (received [5, 5] (drop TXDESC_OFFSET mem') (pktlen pattrib') ex_first) = Some (True, f', sec2, 0, st', [], False)
    \<and> take (24 + length [8, 0, 1, 2 :: u8]) (rx_mem f')
        = (0xD0 # replicate 23 2)[1 := (0xD0 # replicate 23 2) ! 1 OR 0x40] @ [8, 0, 1, 2]
    \<and> rx_pkt_len (attrib f') = 24 + length [8, 0, 1, 2 :: u8]"
proof (rule mgmt_ccmp_roundtrip)
  show "GetFrameSubType (0xD0 # replicate 23 2) = Some WIFI_ACTION" by code_simp
qed (simp_all add: TXDESC_OFFSET_def ex_mgmt_attrib_def ex_wsec_sel IS_MCAST_def check_fwstate_def not_robust_def
    WIFI_STATION_STATE_def FW_LINKED_def ex_peer_def ex_static_def MAX_MSG_SIZE_def)

text \<open>A broadcast disassociation of the linked access point.\<close>

definition ex_bip_frame :: rx_frame where
  "ex_bip_frame = received [] ((0xC0 # replicate 23 1) @ ies_of [(3, [])] @ [76, 16] @ [4, 0] @ pn_bytes 41
     @ bip_mic (replicate 16 7) (0xC0 # replicate 23 1) (ies_of [(3, [])] @ [76, 16] @ [4, 0] @ pn_bytes 41 @ replicate 8 0) @ [])
     44 ex_first"

lemma ex_bip_accepted:
  "validate_80211w_mgmt (\<lambda>_. True) True True [] 0 (\<lambda>_. 0) 9 None ex_wsec 40 ex_static ex_bip_frame
    = Some (True, ex_bip_frame, ex_wsec, 41, ex_static, [], False)"
  "GetFrameSubType (rx_mem ex_bip_frame) = Some WIFI_DEAUTH" "IS_MCAST (drop 4 (rx_mem ex_bip_frame))"
proof -
  let ?hdr = "0xC0 # replicate 23 1 :: bytes"
  let ?m = "bip_mic (replicate 16 7) ?hdr (ies_of [(3, [])] @ [76, 16] @ [4, 0] @ pn_bytes 41 @ replicate 8 0)"
  let ?t = "ies_of [(3, [])] @ [76, 16] @ [4, 0] @ pn_bytes 41 @ ?m @ []"
  have f: "rx_data ex_bip_frame = int (length [])" "buf ex_bip_frame = [] @ ?hdr @ ?t"
    "rx_pkt_len (attrib ex_bip_frame) = 44"
    by (simp_all add: ex_bip_frame_def received_def)
  have m: "rx_mem ex_bip_frame = ?hdr @ ?t" by (rule rx_mem_parts(1) [OF f(1,2)])
  have "GetFrameSubType (?hdr @ []) = Some WIFI_DEAUTH" by code_simp
  then show s: "GetFrameSubType (rx_mem ex_bip_frame) = Some WIFI_DEAUTH"
    unfolding m using frame_type_header(2) [of ?hdr ?t] frame_type_header(2) [of ?hdr "[]"] by simp
  show "IS_MCAST (drop 4 (rx_mem ex_bip_frame))" unfolding m by (simp add: IS_MCAST_def nth_append)
  have a1: "frame_rdn ex_bip_frame 4 6 = Some (replicate 6 1)"
    unfolding rx_mem_parts(2) [OF f(1,2)] by (simp add: rdn_def numeral_eq_Suc)
  have v: "rtw_BIP_verify True True [] ex_wsec 40 44 (rx_mem ex_bip_frame) = Some (SUCCESS, 41)"
    using bip_verify_frame [of ?hdr "[(3, [])]" "[4, 0]" "pn_bytes 41" ?m ex_wsec "replicate 16 7" "[]" 40 "[]"]
    unfolding m by (simp add: length_bip_mic pn_val_bytes ex_wsec_sel rd_def unat_bytes_le16_low)
  show "validate_80211w_mgmt (\<lambda>_. True) True True [] 0 (\<lambda>_. 0) 9 None ex_wsec 40 ex_static ex_bip_frame
    = Some (True, ex_bip_frame, ex_wsec, 41, ex_static, [], False)"
    unfolding validate_80211w_mgmt_def s bind.bind_lunit a1 f(3) v
    by (simp add: check_fwstate_def WIFI_STATION_STATE_def FW_LINKED_def ex_wsec_sel IS_MCAST_def)
qed

theorem validate_80211w_mgmt_authentic_witness:
  "rtw_BIP_verify True True [] ex_wsec 40 (rx_pkt_len (attrib ex_bip_frame)) (rx_mem ex_bip_frame) = Some (SUCCESS, 41)"
  using validate_80211w_mgmt_authentic [OF ex_bip_accepted(1) _ _ _ ex_bip_accepted(2)] ex_bip_accepted(3)
  by (simp add: check_fwstate_def WIFI_STATION_STATE_def FW_LINKED_def ex_wsec_sel)

end
