(* ===== verification/Sta_Table.thy ===== *)
theory Sta_Table
  imports Bytes "HOL-Library.Multiset"
begin

text \<open>
  The station table of \<^verbatim>\<open>core/rtw_sta_mgt.c\<close>: a pool of \<open>NUM_STA\<close> entries, the queue of
  free entries, the hash table by MAC address, the MAC-id bitmap of
  \<^verbatim>\<open>core/rtw_wlan_util.c\<close> (\<open>rtw_alloc_macid\<close>, \<open>rtw_release_macid\<close>), the association-id
  table, and the access control list.

  An entry is named by its offset in the pool (\<open>rtw_stainfo_offset\<close>); the lists of the C code are
  lists of offsets. Spin locks and timers have no counterpart. What a handler frees is the list of
  the frames' identities.
\<close>

section \<open>State\<close>

definition NUM_STA :: nat where "NUM_STA = 32"

text \<open>The four transmit queues are listed in the order vo, vi, be, bk.\<close>

record sta_info =
  hwaddr :: bytes
  mac_id :: nat
  aid :: nat
  linked :: bool
  tid_rxseq :: "u16 list"
  reorder_enable :: "bool list"
  reorder_indicate_seq :: "u16 list"
  reorder_wsize :: "u8 list"
  reorder_pending :: "nat list list"
  sleep_q :: "nat list"
  sta_pending :: "nat list list"
  qcnt :: "int list"

record sta_priv =
  pool :: "sta_info list"
  free_sta_queue :: "nat list"
  sta_hash :: "nat list list"
  asoc_sta_count :: int
  auth_list :: "nat list"
  auth_list_cnt :: u8
  sta_aid :: "nat option list"
  sta_dz_bitmap :: u16
  tim_bitmap :: u16
  macid :: "bool list"
  hw_accnt :: "int list"

definition bc_addr :: bytes where "bc_addr = [0xFF, 0xFF, 0xFF, 0xFF, 0xFF, 0xFF]"

definition wifi_mac_hash :: "bytes \<Rightarrow> nat" where
  "wifi_mac_hash mac =
     (let x = (ucast (mac ! 0) :: u32);
          x = push_bit 2 x XOR ucast (mac ! 1);
          x = push_bit 2 x XOR ucast (mac ! 2);
          x = push_bit 2 x XOR ucast (mac ! 3);
          x = push_bit 2 x XOR ucast (mac ! 4);
          x = push_bit 2 x XOR ucast (mac ! 5);
          x = x XOR drop_bit 8 x
      in unat (x AND 31))"

section \<open>MAC ids\<close>

text \<open>The first clear entry from \<open>i\<close> on.\<close>

fun first_free :: "nat \<Rightarrow> bool list \<Rightarrow> nat option" where
  "first_free i [] = None"
| "first_free i (b # bs) = (if b then first_free (i + 1) bs else Some i)"

definition rtw_alloc_macid :: "bytes \<Rightarrow> bytes \<Rightarrow> nat \<Rightarrow> bool list \<Rightarrow> nat \<times> bool list" where
  "rtw_alloc_macid myid addr old ids =
     (if addr = bc_addr then (old, ids)
      else if addr = myid then (NUM_STA, ids)
      else (case first_free 0 ids of
              None \<Rightarrow> (NUM_STA, ids)
            | Some i \<Rightarrow> (i, ids[i := True])))"

definition rtw_release_macid :: "bytes \<Rightarrow> bytes \<Rightarrow> nat \<Rightarrow> bool list \<Rightarrow> nat \<times> bool list" where
  "rtw_release_macid myid addr i ids =
     (if addr = bc_addr \<or> addr = myid then (i, ids)
      else if i < NUM_STA \<and> i \<noteq> 1 \<and> ids ! i then (NUM_STA, ids[i := False])
      else (i, ids))"

fun max_used :: "bool list \<Rightarrow> nat \<Rightarrow> int" where
  "max_used ids 0 = - 1"
| "max_used ids (Suc i) = (if ids ! i then int i else max_used ids i)"

text \<open>The result is a \<open>u8\<close>: an empty table gives 255.\<close>

definition rtw_search_max_mac_id :: "bool list \<Rightarrow> u8" where
  "rtw_search_max_mac_id ids = of_int (max_used ids NUM_STA)"

section \<open>Table operations\<close>

definition rtw_init_stainfo :: sta_info where
  "rtw_init_stainfo = \<lparr>hwaddr = replicate 6 0, mac_id = 0, aid = 0, linked = False,
     tid_rxseq = replicate 16 0, reorder_enable = replicate 16 False,
     reorder_indicate_seq = replicate 16 0, reorder_wsize = replicate 16 0,
     reorder_pending = replicate 16 [], sleep_q = [], sta_pending = replicate 4 [], qcnt = replicate 4 0\<rparr>"

text \<open>The allocation of the pool is taken to succeed. The transmit counters and the MAC ids belong to
  other structures of the adapter and are given.\<close>

definition rtw_init_sta_priv :: "bool list \<Rightarrow> int list \<Rightarrow> sta_priv" where
  "rtw_init_sta_priv ids accnt = \<lparr>pool = replicate NUM_STA rtw_init_stainfo,
     free_sta_queue = [0..<NUM_STA], sta_hash = replicate NUM_STA [], asoc_sta_count = 0,
     auth_list = [], auth_list_cnt = 0, sta_aid = replicate NUM_STA None,
     sta_dz_bitmap = 0, tim_bitmap = 0, macid = ids, hw_accnt = accnt\<rparr>"

definition rtw_alloc_stainfo :: "bytes \<Rightarrow> bytes \<Rightarrow> sta_priv \<Rightarrow> nat option \<times> sta_priv" where
  "rtw_alloc_stainfo myid addr s =
     (case free_sta_queue s of
        [] \<Rightarrow> (None, s)
      | i # free \<Rightarrow>
          (let index = wifi_mac_hash addr;
               (mid, ids) = rtw_alloc_macid myid addr 0 (macid s);
               psta = rtw_init_stainfo\<lparr>hwaddr := take 6 addr, mac_id := mid,
                  tid_rxseq := replicate 16 0xFFFF, reorder_enable := replicate 16 False,
                  reorder_indicate_seq := replicate 16 0xFFFF, reorder_wsize := replicate 16 64,
                  reorder_pending := replicate 16 []\<rparr>
           in (Some i, s\<lparr>pool := (pool s)[i := psta], free_sta_queue := free,
                sta_hash := (sta_hash s)[index := sta_hash s ! index @ [i]],
                asoc_sta_count := asoc_sta_count s + 1, macid := ids\<rparr>)))"

text \<open>\<open>rtw_free_stainfo\<close> of a given entry: the state, the transmit frames and the receive frames freed.\<close>

definition rtw_free_stainfo :: "bytes \<Rightarrow> nat \<Rightarrow> sta_priv \<Rightarrow> sta_priv \<times> nat list \<times> nat list" where
  "rtw_free_stainfo myid i s =
     (let psta = pool s ! i;
          xmit = sleep_q psta @ concat (sta_pending psta);
          recv = concat (reorder_pending psta);
          (mid, ids) = rtw_release_macid myid (hwaddr psta) (mac_id psta) (macid s);
          owns_aid = (0 < aid psta \<and> sta_aid s ! (aid psta - 1) = Some i);
          psta' = psta\<lparr>linked := False, sleep_q := [], sta_pending := replicate 4 [],
            qcnt := replicate 4 0, reorder_pending := replicate 16 [], mac_id := mid,
            aid := (if owns_aid then 0 else aid psta)\<rparr>
      in (s\<lparr>pool := (pool s)[i := psta'],
            sta_hash := map (filter (\<lambda>j. j \<noteq> i)) (sta_hash s),
            asoc_sta_count := asoc_sta_count s - 1,
            auth_list := filter (\<lambda>j. j \<noteq> i) (auth_list s),
            auth_list_cnt := (if i \<in> set (auth_list s) then auth_list_cnt s - 1 else auth_list_cnt s),
            sta_dz_bitmap := sta_dz_bitmap s AND NOT (push_bit (aid psta) 1),
            tim_bitmap := tim_bitmap s AND NOT (push_bit (aid psta) 1),
            sta_aid := (if owns_aid then (sta_aid s)[aid psta - 1 := None] else sta_aid s),
            macid := ids,
            hw_accnt := map2 (-) (hw_accnt s) (qcnt psta),
            free_sta_queue := free_sta_queue s @ [i]\<rparr>, xmit, recv))"

definition rtw_get_stainfo :: "sta_priv \<Rightarrow> bytes option \<Rightarrow> nat option" where
  "rtw_get_stainfo s addr =
     (case addr of None \<Rightarrow> None
      | Some a \<Rightarrow>
          (let a = (if IS_MCAST a then bc_addr else a)
           in List.find (\<lambda>i. hwaddr (pool s ! i) = take 6 a) (sta_hash s ! wifi_mac_hash a)))"

definition rtw_get_bcmc_stainfo :: "sta_priv \<Rightarrow> nat option" where
  "rtw_get_bcmc_stainfo s = rtw_get_stainfo s (Some bc_addr)"

text \<open>The function returns \<open>_SUCCESS\<close> whether or not the allocation succeeded.\<close>

definition rtw_init_bcmc_stainfo :: "bytes \<Rightarrow> sta_priv \<Rightarrow> bool \<times> sta_priv" where
  "rtw_init_bcmc_stainfo myid s =
     (case rtw_alloc_stainfo myid bc_addr s of
        (None, s) \<Rightarrow> (True, s)
      | (Some i, s) \<Rightarrow> (True, s\<lparr>pool := (pool s)[i := (pool s ! i)\<lparr>mac_id := 1\<rparr>]\<rparr>))"

fun free_bucket :: "bytes \<Rightarrow> nat option \<Rightarrow> nat list \<Rightarrow> sta_priv \<Rightarrow> sta_priv \<times> nat list \<times> nat list" where
  "free_bucket myid bcmc [] s = (s, [], [])"
| "free_bucket myid bcmc (i # is) s =
     (if bcmc = Some i then free_bucket myid bcmc is s
      else (let (s, x, r) = rtw_free_stainfo myid i s;
                (s, x', r') = free_bucket myid bcmc is s
            in (s, x @ x', r @ r')))"

text \<open>Freeing removes entries of the walked bucket only, so the walk over all buckets is the walk
  over their concatenation at the start.\<close>

definition rtw_free_all_stainfo :: "bytes \<Rightarrow> sta_priv \<Rightarrow> sta_priv \<times> nat list \<times> nat list" where
  "rtw_free_all_stainfo myid s =
     (if asoc_sta_count s = 1 then (s, [], [])
      else free_bucket myid (rtw_get_bcmc_stainfo s) (concat (sta_hash s)) s)"

section \<open>Access control\<close>

record acl_node =
  acl_addr :: bytes
  acl_valid :: bool

definition rtw_access_ctrl :: "int \<Rightarrow> acl_node list \<Rightarrow> bytes \<Rightarrow> bool" where
  "rtw_access_ctrl mode acl mac_addr =
     (let match = list_ex (\<lambda>n. acl_addr n = mac_addr \<and> acl_valid n) acl
      in if mode = 1 then \<not> match else if mode = 2 then match else True)"

section \<open>The interface of a station table\<close>

text \<open>\<open>entries s a\<close> lists the allocated entries with address \<open>a\<close>, oldest first.\<close>

locale station_table =
  fixes inv :: "'s \<Rightarrow> bool" and valid :: "'a \<Rightarrow> bool" and entries :: "'s \<Rightarrow> 'a \<Rightarrow> nat list"
    and room :: "'s \<Rightarrow> nat" and find_sta :: "'s \<Rightarrow> 'a \<Rightarrow> nat option"
    and alloc :: "'a \<Rightarrow> 's \<Rightarrow> nat option \<times> 's" and release :: "nat \<Rightarrow> 's \<Rightarrow> 's"
  assumes find_law: "inv s \<Longrightarrow> valid a \<Longrightarrow> find_sta s a = (case entries s a of [] \<Rightarrow> None | i # _ \<Rightarrow> Some i)"
    and alloc_full_law: "inv s \<Longrightarrow> room s = 0 \<Longrightarrow> alloc a s = (None, s)"
    and alloc_law: "inv s \<Longrightarrow> valid a \<Longrightarrow> alloc a s = (Some i, s') \<Longrightarrow>
      inv s' \<and> Suc (room s') = room s \<and> entries s' = (entries s)(a := entries s a @ [i])
      \<and> (\<forall>b. i \<notin> set (entries s b))"
    and alloc_room_law: "inv s \<Longrightarrow> 0 < room s \<Longrightarrow> \<exists>i s'. alloc a s = (Some i, s')"
    and release_law: "inv s \<Longrightarrow> i \<in> set (entries s a) \<Longrightarrow>
      inv (release i s) \<and> room (release i s) = Suc (room s)
      \<and> entries (release i s) = (\<lambda>b. filter (\<lambda>j. j \<noteq> i) (entries s b))"
    and one_address_law: "inv s \<Longrightarrow> i \<in> set (entries s a) \<Longrightarrow> i \<in> set (entries s b) \<Longrightarrow> a = b"
begin

lemma find_alloc:
  assumes "inv s" "valid a" "alloc a s = (Some i, s')" "valid b"
  shows "find_sta s' b = (if b = a \<and> find_sta s a = None then Some i else find_sta s b)"
  using assms alloc_law [OF assms(1-3)] find_law [of s] find_law [of s'] by (auto split: list.splits)

lemma find_release_other:
  assumes "inv s" "i \<in> set (entries s a)" "valid b" "b \<noteq> a"
  shows "find_sta (release i s) b = find_sta s b"
proof -
  have "i \<notin> set (entries s b)" using one_address_law [OF assms(1,2)] assms(4) by blast
  then have "filter (\<lambda>j. j \<noteq> i) (entries s b) = entries s b" by (auto intro: filter_True)
  then show ?thesis using release_law [OF assms(1,2)] find_law assms by simp
qed

lemma release_alloc:
  assumes "inv s" "valid a" "alloc a s = (Some i, s')" "valid b"
  shows "find_sta (release i s') b = find_sta s b"
proof -
  note al = alloc_law [OF assms(1-3)]
  then have "i \<in> set (entries s' a)" by simp
  from release_law [OF _ this] al have r: "inv (release i s')"
    "entries (release i s') = (\<lambda>b. filter (\<lambda>j. j \<noteq> i) (entries s' b))" by auto
  have "filter (\<lambda>j. j \<noteq> i) (entries s b) = entries s b" for b using al by (auto intro: filter_True)
  then have "entries (release i s') b = entries s b" using r al by simp
  then show ?thesis using find_law [OF r(1) assms(4)] find_law [OF assms(1,4)] by simp
qed

lemma alloc_iff_room: "inv s \<Longrightarrow> fst (alloc a s) = None \<longleftrightarrow> room s = 0"
  using alloc_full_law [of s a] alloc_room_law [of s a] by (cases "room s") auto

end

section \<open>Invariant\<close>

definition used :: "sta_priv \<Rightarrow> nat list" where
  "used s = concat (sta_hash s)"

definition owns_macid :: "bytes \<Rightarrow> sta_info \<Rightarrow> bool" where
  "owns_macid myid p \<longleftrightarrow> hwaddr p \<noteq> bc_addr \<and> hwaddr p \<noteq> myid \<and> mac_id p < NUM_STA"

definition wf_table :: "bytes \<Rightarrow> sta_priv \<Rightarrow> bool" where
  "wf_table myid s \<longleftrightarrow> length (pool s) = NUM_STA \<and> length (sta_hash s) = NUM_STA
     \<and> mset (free_sta_queue s) + mset (used s) = mset [0..<NUM_STA]
     \<and> (\<forall>k < NUM_STA. \<forall>i \<in> set (sta_hash s ! k).
          wifi_mac_hash (hwaddr (pool s ! i)) = k \<and> length (hwaddr (pool s ! i)) = 6)
     \<and> asoc_sta_count s = int (length (used s))"

definition wf_macids :: "bytes \<Rightarrow> sta_priv \<Rightarrow> bool" where
  "wf_macids myid s \<longleftrightarrow> length (macid s) = NUM_STA \<and> macid s ! 1
     \<and> (\<forall>i \<in> set (used s). owns_macid myid (pool s ! i) \<longrightarrow>
          macid s ! mac_id (pool s ! i) \<and> mac_id (pool s ! i) \<noteq> 1)
     \<and> (\<forall>i \<in> set (used s). \<forall>j \<in> set (used s). i \<noteq> j \<longrightarrow> owns_macid myid (pool s ! i)
          \<longrightarrow> owns_macid myid (pool s ! j) \<longrightarrow> mac_id (pool s ! i) \<noteq> mac_id (pool s ! j))"

lemma wifi_mac_hash_less: "wifi_mac_hash a < NUM_STA"
proof -
  have "unat (x AND 31 :: u32) < 32" for x
  proof -
    have "(31 :: u32) = mask 5" by (simp add: mask_eq_exp_minus_1)
    then have "x AND 31 = take_bit 5 x" by (simp only: take_bit_eq_mask)
    then show ?thesis by (simp add: unsigned_take_bit_eq take_bit_nat_less_exp [of 5, simplified])
  qed
  then show ?thesis by (simp add: wifi_mac_hash_def Let_def NUM_STA_def)
qed

definition entries :: "sta_priv \<Rightarrow> bytes \<Rightarrow> nat list" where
  "entries s a = filter (\<lambda>i. hwaddr (pool s ! i) = a) (sta_hash s ! wifi_mac_hash a)"

definition valid_addr :: "bytes \<Rightarrow> bool" where
  "valid_addr a \<longleftrightarrow> length a = 6 \<and> (IS_MCAST a \<longrightarrow> a = bc_addr)"

lemma wf_used:
  assumes "wf_table myid s"
  shows "distinct (used s)" "distinct (free_sta_queue s)" "set (used s) \<inter> set (free_sta_queue s) = {}"
    "set (used s) \<union> set (free_sta_queue s) = {..<NUM_STA}"
proof -
  have m: "mset (free_sta_queue s @ used s) = mset [0..<NUM_STA]" using assms by (simp add: wf_table_def)
  then have d: "distinct (free_sta_queue s @ used s)" by (metis distinct_upt mset_eq_imp_distinct_iff)
  then show "distinct (used s)" "distinct (free_sta_queue s)" "set (used s) \<inter> set (free_sta_queue s) = {}" by auto
  have "set (free_sta_queue s @ used s) = {0..<NUM_STA}" using m by (metis set_mset_mset set_upt)
  then show "set (used s) \<union> set (free_sta_queue s) = {..<NUM_STA}" by (auto simp: atLeast0LessThan)
qed

lemma used_iff: "i \<in> set (used s) \<longleftrightarrow> (\<exists>k < length (sta_hash s). i \<in> set (sta_hash s ! k))"
  unfolding used_def by (force simp: in_set_conv_nth)

lemma used_bucket:
  assumes "wf_table myid s"
  shows "i \<in> set (used s) \<longleftrightarrow> i \<in> set (sta_hash s ! wifi_mac_hash (hwaddr (pool s ! i)))"
  using assms wifi_mac_hash_less unfolding used_iff wf_table_def by metis

lemma entries_used: "wf_table myid s \<Longrightarrow> i \<in> set (entries s a) \<longleftrightarrow> i \<in> set (used s) \<and> hwaddr (pool s ! i) = a"
  using used_bucket [of myid s i] by (auto simp: entries_def)

lemma find_filter: "List.find P xs = (case filter P xs of [] \<Rightarrow> None | x # _ \<Rightarrow> Some x)"
  by (induction xs) auto

lemma get_stainfo_entries:
  "valid_addr a \<Longrightarrow> rtw_get_stainfo s (Some a) = (case entries s a of [] \<Rightarrow> None | i # _ \<Rightarrow> Some i)"
  by (auto simp: rtw_get_stainfo_def entries_def find_filter valid_addr_def Let_def)

section \<open>Allocation\<close>

lemma first_free_Some: "first_free n bs = Some k \<Longrightarrow> n \<le> k \<and> k < n + length bs \<and> \<not> bs ! (k - n)"
proof (induction bs arbitrary: n)
  case (Cons b bs)
  show ?case
  proof (cases b)
    case True
    then have "Suc n \<le> k \<and> k < Suc n + length bs \<and> \<not> bs ! (k - Suc n)" using Cons.IH [of "n + 1"] Cons.prems by simp
    then show ?thesis by (auto simp: nth_Cons')
  qed (use Cons.prems in simp)
qed simp

lemma alloc_macid_spec:
  assumes "rtw_alloc_macid myid a old ids = (m, ids')" "length ids = NUM_STA"
  shows "length ids' = NUM_STA" "ids ! k \<Longrightarrow> ids' ! k"
    "a \<noteq> bc_addr \<Longrightarrow> a \<noteq> myid \<Longrightarrow> m < NUM_STA \<Longrightarrow> \<not> ids ! m \<and> ids' ! m"
  using assms first_free_Some [of 0 ids]
  by (auto simp: rtw_alloc_macid_def nth_list_update split: if_splits option.splits)

lemma mset_concat_append: "k < length xss \<Longrightarrow> mset (concat (xss[k := xss ! k @ ys])) = mset (concat xss) + mset ys"
  by (induction xss arbitrary: k) (auto simp: nth_Cons' list_update.simps split: nat.split)

lemma alloc_state:
  assumes w: "wf_table myid s" and a: "rtw_alloc_stainfo myid a s = (Some i, s')"
  shows "free_sta_queue s = i # free_sta_queue s'" "i < NUM_STA" "i \<notin> set (used s)"
    "mset (used s') = add_mset i (mset (used s))"
    "hwaddr (pool s' ! i) = take 6 a" "\<And>j. j \<noteq> i \<Longrightarrow> pool s' ! j = pool s ! j" "length (pool s') = NUM_STA"
    "sta_hash s' = (sta_hash s)[wifi_mac_hash a := sta_hash s ! wifi_mac_hash a @ [i]]"
    "asoc_sta_count s' = asoc_sta_count s + 1"
    "rtw_alloc_macid myid a 0 (macid s) = (mac_id (pool s' ! i), macid s')"
proof -
  obtain mid ids where m: "rtw_alloc_macid myid a 0 (macid s) = (mid, ids)" by (rule prod.exhaust)
  obtain free where f: "free_sta_queue s = i # free" using a by (auto simp: rtw_alloc_stainfo_def Let_def m split: list.splits)
  show i: "i < NUM_STA" "i \<notin> set (used s)" using wf_used(3,4) [OF w] f by auto
  have l: "length (pool s) = NUM_STA" "length (sta_hash s) = NUM_STA" using w by (simp_all add: wf_table_def)
  have s': "s' = snd (rtw_alloc_stainfo myid a s)" using a by simp
  show "mset (used s') = add_mset i (mset (used s))"
    using l wifi_mac_hash_less [of a] unfolding s' used_def
    by (simp add: rtw_alloc_stainfo_def f m Let_def mset_concat_append)
  show "free_sta_queue s = i # free_sta_queue s'"
    "hwaddr (pool s' ! i) = take 6 a" "\<And>j. j \<noteq> i \<Longrightarrow> pool s' ! j = pool s ! j" "length (pool s') = NUM_STA"
    "sta_hash s' = (sta_hash s)[wifi_mac_hash a := sta_hash s ! wifi_mac_hash a @ [i]]"
    "asoc_sta_count s' = asoc_sta_count s + 1"
    "rtw_alloc_macid myid a 0 (macid s) = (mac_id (pool s' ! i), macid s')"
    using f i l by (simp_all add: s' rtw_alloc_stainfo_def m Let_def rtw_init_stainfo_def)
qed

lemma alloc_wf_table:
  assumes w: "wf_table myid s" and a: "rtw_alloc_stainfo myid a s = (Some i, s')" "length a = 6"
  shows "wf_table myid s'"
proof -
  note x = alloc_state [OF w a(1)]
  have l: "length (sta_hash s) = NUM_STA" using w by (simp add: wf_table_def)
  have "\<forall>k < NUM_STA. \<forall>j \<in> set (sta_hash s' ! k).
      wifi_mac_hash (hwaddr (pool s' ! j)) = k \<and> length (hwaddr (pool s' ! j)) = 6"
  proof (intro allI impI ballI)
    fix k j assume k: "k < NUM_STA" and j: "j \<in> set (sta_hash s' ! k)"
    show "wifi_mac_hash (hwaddr (pool s' ! j)) = k \<and> length (hwaddr (pool s' ! j)) = 6"
    proof (cases "j = i")
      case True
      have "i \<notin> set (sta_hash s ! k)" using x(3) k l used_iff by metis
      then have "k = wifi_mac_hash a" using j True x(8) by (cases "k = wifi_mac_hash a") simp_all
      then show ?thesis using True x(5) a(2) by simp
    next
      case False
      then have "j \<in> set (sta_hash s ! k)"
        using j k l by (cases "k = wifi_mac_hash a") (simp_all add: x(8))
      then show ?thesis using w k False x(6) by (simp add: wf_table_def)
    qed
  qed
  moreover have "length (used s') = Suc (length (used s))"
    using x(4) by (metis size_mset size_add_mset)
  ultimately show ?thesis
    using w x l unfolding wf_table_def by simp
qed

lemma alloc_entries:
  assumes w: "wf_table myid s" and a: "rtw_alloc_stainfo myid a s = (Some i, s')" "length a = 6"
  shows "entries s' = (entries s)(a := entries s a @ [i])" "i \<notin> set (entries s b)"
proof -
  note x = alloc_state(3,5,6,8) [OF w a(1)]
  have l: "length (sta_hash s) = NUM_STA" using w by (simp add: wf_table_def)
  show "i \<notin> set (entries s b)" for b using x(1) entries_used [OF w] by blast
  have ni: "i \<notin> set (sta_hash s ! wifi_mac_hash b)" for b
    using x(1) l wifi_mac_hash_less used_iff by metis
  have f: "filter (\<lambda>j. hwaddr (pool s' ! j) = b) (sta_hash s ! wifi_mac_hash b)
    = filter (\<lambda>j. hwaddr (pool s ! j) = b) (sta_hash s ! wifi_mac_hash b)" for b
  proof (rule filter_cong [OF refl])
    fix j assume "j \<in> set (sta_hash s ! wifi_mac_hash b)"
    then have "j \<noteq> i" using ni by blast
    then show "(hwaddr (pool s' ! j) = b) = (hwaddr (pool s ! j) = b)" using x(3) by simp
  qed
  show "entries s' = (entries s)(a := entries s a @ [i])"
    using l wifi_mac_hash_less [of a] x(2) a(2) f
    by (auto simp: entries_def x(4) nth_list_update fun_eq_iff)
qed

lemma alloc_wf_macids:
  assumes w: "wf_table myid s" "wf_macids myid s" and a: "rtw_alloc_stainfo myid a s = (Some i, s')" "length a = 6"
  shows "wf_macids myid s'"
proof -
  note x = alloc_state(3,10,4,5,6) [OF w(1) a(1)]
  define ids where "ids = macid s'"
  define mid where "mid = mac_id (pool s' ! i)"
  have u: "set (used s') = insert i (set (used s))" using x(3) by (metis set_mset_add_mset_insert set_mset_mset)
  have lm: "length (macid s) = NUM_STA" "macid s ! 1" using w(2) by (simp_all add: wf_macids_def)
  note sp = alloc_macid_spec [OF x(2) lm(1), folded ids_def mid_def]
  have m: "length ids = NUM_STA" "ids ! 1" "\<And>k. macid s ! k \<Longrightarrow> ids ! k" using sp(1,2) lm(2) by blast+
  have n: "ids ! mid \<and> mid \<noteq> 1 \<and> mid < NUM_STA \<and> \<not> macid s ! mid" if "owns_macid myid (pool s' ! i)"
  proof -
    have "a \<noteq> bc_addr" "a \<noteq> myid" "mid < NUM_STA"
      using that x(4) a(2) by (simp_all add: owns_macid_def mid_def)
    then show ?thesis using sp(3) lm(2) by blast
  qed
  have old: "macid s ! mac_id (pool s ! j)" "mac_id (pool s ! j) \<noteq> 1" "mac_id (pool s ! j) < NUM_STA"
    if "j \<in> set (used s)" "owns_macid myid (pool s ! j)" for j
    using that w(2) by (auto simp: wf_macids_def owns_macid_def)
  have keep: "pool s' ! j = pool s ! j" if "j \<in> set (used s)" for j using that x(1,5) by metis
  have "\<forall>j \<in> set (used s'). owns_macid myid (pool s' ! j) \<longrightarrow> ids ! mac_id (pool s' ! j) \<and> mac_id (pool s' ! j) \<noteq> 1"
    unfolding u using n old m(3) keep mid_def by auto
  moreover have "\<forall>j \<in> set (used s'). \<forall>k \<in> set (used s'). j \<noteq> k \<longrightarrow> owns_macid myid (pool s' ! j)
      \<longrightarrow> owns_macid myid (pool s' ! k) \<longrightarrow> mac_id (pool s' ! j) \<noteq> mac_id (pool s' ! k)"
  proof (intro ballI impI)
    fix j k assume h: "j \<in> set (used s')" "k \<in> set (used s')" "j \<noteq> k"
      "owns_macid myid (pool s' ! j)" "owns_macid myid (pool s' ! k)"
    consider "j = i" "k \<in> set (used s)" | "k = i" "j \<in> set (used s)" | "j \<in> set (used s)" "k \<in> set (used s)"
      using h(1-3) by (auto simp: u)
    then show "mac_id (pool s' ! j) \<noteq> mac_id (pool s' ! k)"
    proof cases
      case 1
      then show ?thesis using h n old(1) [of k] keep mid_def by auto
    next
      case 2
      then show ?thesis using h n old(1) [of j] keep mid_def by auto
    next
      case 3
      then show ?thesis using h w(2) keep by (simp add: wf_macids_def)
    qed
  qed
  ultimately show ?thesis using m by (simp add: wf_macids_def ids_def)
qed

section \<open>Release\<close>

lemma free_state:
  assumes w: "wf_table myid s" and i: "i \<in> set (used s)"
  defines "s' \<equiv> fst (rtw_free_stainfo myid i s)"
  shows "free_sta_queue s' = free_sta_queue s @ [i]" "used s' = filter (\<lambda>j. j \<noteq> i) (used s)"
    "sta_hash s' = map (filter (\<lambda>j. j \<noteq> i)) (sta_hash s)" "hwaddr (pool s' ! j) = hwaddr (pool s ! j)"
    "j \<noteq> i \<Longrightarrow> pool s' ! j = pool s ! j" "length (pool s') = NUM_STA"
    "asoc_sta_count s' = asoc_sta_count s - 1"
    "macid s' = snd (rtw_release_macid myid (hwaddr (pool s ! i)) (mac_id (pool s ! i)) (macid s))"
proof -
  have l: "length (pool s) = NUM_STA" using w by (simp add: wf_table_def)
  have "i < NUM_STA" using wf_used(4) [OF w] i by auto
  then show "free_sta_queue s' = free_sta_queue s @ [i]" "used s' = filter (\<lambda>j. j \<noteq> i) (used s)"
    "sta_hash s' = map (filter (\<lambda>j. j \<noteq> i)) (sta_hash s)" "hwaddr (pool s' ! j) = hwaddr (pool s ! j)"
    "j \<noteq> i \<Longrightarrow> pool s' ! j = pool s ! j" "length (pool s') = NUM_STA"
    "asoc_sta_count s' = asoc_sta_count s - 1"
    "macid s' = snd (rtw_release_macid myid (hwaddr (pool s ! i)) (mac_id (pool s ! i)) (macid s))"
    using l by (cases "j = i"; simp add: s'_def rtw_free_stainfo_def used_def Let_def filter_concat split_beta)+
qed

lemma filter_distinct: "distinct xs \<Longrightarrow> filter (\<lambda>j. j \<noteq> i) xs = remove1 i xs"
  by (induction xs) (auto intro: filter_True)

lemma free_wf_table:
  assumes w: "wf_table myid s" and i: "i \<in> set (used s)"
  shows "wf_table myid (fst (rtw_free_stainfo myid i s))"
proof -
  note f = free_state [OF w i]
  have d: "filter (\<lambda>j. j \<noteq> i) (used s) = remove1 i (used s)" using wf_used(1) [OF w] by (rule filter_distinct)
  have "\<forall>k < NUM_STA. \<forall>j \<in> set (map (filter (\<lambda>j. j \<noteq> i)) (sta_hash s) ! k).
      wifi_mac_hash (hwaddr (pool s ! j)) = k \<and> length (hwaddr (pool s ! j)) = 6"
    using w by (auto simp: wf_table_def)
  moreover have "int (length (remove1 i (used s))) = int (length (used s)) - 1"
    using i length_pos_if_in_set [OF i] by (cases "length (used s)") (simp_all add: length_remove1)
  moreover have "mset (free_sta_queue s) + {#i#} + mset (remove1 i (used s)) = mset (free_sta_queue s) + mset (used s)"
    using i by simp
  ultimately show ?thesis
    using w unfolding wf_table_def f(1-4) f(6) f(7) by (simp add: f(2) d)
qed

lemma free_entries:
  assumes w: "wf_table myid s" and i: "i \<in> set (used s)"
  shows "entries (fst (rtw_free_stainfo myid i s)) = (\<lambda>b. filter (\<lambda>j. j \<noteq> i) (entries s b))"
proof
  fix b
  have "length (sta_hash s) = NUM_STA" using w by (simp add: wf_table_def)
  then show "entries (fst (rtw_free_stainfo myid i s)) b = filter (\<lambda>j. j \<noteq> i) (entries s b)"
    unfolding entries_def free_state(3) [OF w i] free_state(4) [OF w i]
    using wifi_mac_hash_less [of b] by (simp add: conj_commute)
qed

lemma free_wf_macids:
  assumes w: "wf_table myid s" "wf_macids myid s" and i: "i \<in> set (used s)"
  shows "wf_macids myid (fst (rtw_free_stainfo myid i s))"
proof -
  let ?s = "fst (rtw_free_stainfo myid i s)" and ?p = "pool s ! i"
  note f = free_state [OF w(1) i]
  have u: "set (used ?s) = set (used s) - {i}" by (auto simp: f(2))
  have keep: "pool ?s ! j = pool s ! j" if "j \<in> set (used ?s)" for j using that f(5) [of j] by (simp add: u)
  have m: "length (macid ?s) = NUM_STA" "macid ?s ! 1"
    using w(2) by (auto simp: f(8) rtw_release_macid_def wf_macids_def)
  have "macid ?s ! mac_id (pool s ! j)" if "j \<in> set (used s)" "j \<noteq> i" "owns_macid myid (pool s ! j)" for j
  proof -
    have j: "macid s ! mac_id (pool s ! j)" using that w(2) by (simp add: wf_macids_def)
    show ?thesis
    proof (cases "owns_macid myid ?p")
      case True
      then have "mac_id ?p \<noteq> mac_id (pool s ! j)" using that w(2) i by (simp add: wf_macids_def)
      then show ?thesis using j by (simp add: f(8) rtw_release_macid_def)
    next
      case False
      then show ?thesis using j by (auto simp: f(8) rtw_release_macid_def owns_macid_def)
    qed
  qed
  then show ?thesis using w(2) m u keep unfolding wf_macids_def by auto
qed

text \<open>The model of the code is a station table.\<close>

interpretation st: station_table "wf_table myid" valid_addr entries "\<lambda>s. length (free_sta_queue s)"
  "\<lambda>s a. rtw_get_stainfo s (Some a)" "rtw_alloc_stainfo myid" "\<lambda>i s. fst (rtw_free_stainfo myid i s)" for myid
proof (unfold_locales, goal_cases)
  case (1 s a)
  then show ?case by (simp add: get_stainfo_entries)
next
  case (2 s a)
  then show ?case by (simp add: rtw_alloc_stainfo_def)
next
  case (3 s a i s')
  then have a: "length a = 6" by (simp add: valid_addr_def)
  show ?case
    using alloc_wf_table [OF 3(1,3) a] alloc_entries [OF 3(1,3) a] alloc_state(1) [OF 3(1,3)] by simp
next
  case (4 s a)
  then show ?case by (cases "free_sta_queue s") (simp_all add: rtw_alloc_stainfo_def Let_def split: prod.splits)
next
  case (5 s i a)
  then have u: "i \<in> set (used s)" using entries_used by blast
  show ?case using free_wf_table [OF 5(1) u] free_entries [OF 5(1) u] free_state(1) [OF 5(1) u] by simp
next
  case (6 s i a b)
  then show ?case by (auto simp: entries_def)
qed

section \<open>The broadcast entry and freeing everything\<close>

lemma set_mac_id_keeps:
  assumes "wf_table myid s" "i < NUM_STA" "hwaddr (pool s ! i) = bc_addr"
  shows "wf_table myid (s\<lparr>pool := (pool s)[i := (pool s ! i)\<lparr>mac_id := m\<rparr>]\<rparr>)"
    "wf_macids myid s \<Longrightarrow> wf_macids myid (s\<lparr>pool := (pool s)[i := (pool s ! i)\<lparr>mac_id := m\<rparr>]\<rparr>)"
proof -
  have l: "length (pool s) = NUM_STA" using assms(1) by (simp add: wf_table_def)
  let ?p = "(pool s)[i := (pool s ! i)\<lparr>mac_id := m\<rparr>]"
  have h: "hwaddr (?p ! j) = hwaddr (pool s ! j)" for j
    using assms(2) l by (cases "j = i") simp_all
  have o: "owns_macid myid (?p ! j) \<longleftrightarrow> owns_macid myid (pool s ! j)" "owns_macid myid (?p ! j) \<Longrightarrow> mac_id (?p ! j) = mac_id (pool s ! j)" for j
    using assms(2,3) l by (cases "j = i"; simp add: owns_macid_def)+
  show "wf_table myid (s\<lparr>pool := ?p\<rparr>)"
    using assms(1) h by (simp add: wf_table_def used_def)
  show "wf_macids myid (s\<lparr>pool := ?p\<rparr>)" if "wf_macids myid s"
    using that o unfolding wf_macids_def by (simp add: used_def)
qed

lemma init_wf:
  assumes "length ids = NUM_STA" "ids ! 1"
  shows "wf_table myid (rtw_init_sta_priv ids accnt)" "wf_macids myid (rtw_init_sta_priv ids accnt)"
proof -
  have e: "used (rtw_init_sta_priv ids accnt) = []"
    by (simp add: used_def rtw_init_sta_priv_def)
  show "wf_table myid (rtw_init_sta_priv ids accnt)" "wf_macids myid (rtw_init_sta_priv ids accnt)"
    using assms e by (simp_all add: wf_table_def wf_macids_def rtw_init_sta_priv_def)
qed

lemma length_bc_addr: "length bc_addr = 6"
  by (simp add: bc_addr_def)

lemma init_bcmc_wf:
  fixes myid :: bytes and accnt :: "int list"
  assumes "length ids = NUM_STA" "ids ! 1"
  defines "s \<equiv> snd (rtw_init_bcmc_stainfo myid (rtw_init_sta_priv ids accnt))"
  shows "wf_table myid s \<and> wf_macids myid s \<and> entries s bc_addr \<noteq> []"
proof -
  let ?s0 = "rtw_init_sta_priv ids accnt"
  note w = init_wf [OF assms(1,2), of myid accnt]
  have "free_sta_queue ?s0 \<noteq> []" by (simp add: rtw_init_sta_priv_def NUM_STA_def)
  then obtain i s1 where a: "rtw_alloc_stainfo myid bc_addr ?s0 = (Some i, s1)"
    using st.alloc_room_law [OF w(1), of bc_addr] by auto
  note w1 = alloc_wf_table [OF w(1) a length_bc_addr] alloc_wf_macids [OF w a length_bc_addr]
  have b: "hwaddr (pool s1 ! i) = bc_addr" "i < NUM_STA" "length (pool s1) = NUM_STA"
    using alloc_state(2,5,7) [OF w(1) a] by (simp_all add: length_bc_addr)
  have s: "s = s1\<lparr>pool := (pool s1)[i := (pool s1 ! i)\<lparr>mac_id := 1\<rparr>]\<rparr>"
    by (simp add: s_def rtw_init_bcmc_stainfo_def a)
  have "i \<in> set (entries s1 bc_addr)" using alloc_entries(1) [OF w(1) a length_bc_addr] by simp
  then have "i \<in> set (entries s bc_addr)" using b by (simp add: s entries_def)
  then show ?thesis using set_mac_id_keeps [OF w1(1) b(2,1)] w1(2) unfolding s by auto
qed

lemma free_bucket_spec:
  assumes "wf_table myid s" "distinct is" "set is \<subseteq> set (used s)"
  shows "wf_table myid (fst (free_bucket myid bcmc is s))
    \<and> (wf_macids myid s \<longrightarrow> wf_macids myid (fst (free_bucket myid bcmc is s)))
    \<and> used (fst (free_bucket myid bcmc is s)) = filter (\<lambda>j. j \<notin> set is \<or> bcmc = Some j) (used s)
    \<and> (\<forall>j. hwaddr (pool (fst (free_bucket myid bcmc is s)) ! j) = hwaddr (pool s ! j))"
  using assms
proof (induction "is" arbitrary: s)
  case (Cons i "is")
  show ?case
  proof (cases "bcmc = Some i")
    case True
    have "filter (\<lambda>j. j \<notin> set is \<or> bcmc = Some j) (used s) = filter (\<lambda>j. j \<notin> set (i # is) \<or> bcmc = Some j) (used s)"
      using True by (intro filter_cong) auto
    then show ?thesis using Cons True by simp
  next
    case False
    have i: "i \<in> set (used s)" using Cons.prems(3) by simp
    let ?s1 = "fst (rtw_free_stainfo myid i s)"
    note f = free_state [OF Cons.prems(1) i]
    have "set is \<subseteq> set (used ?s1)" using Cons.prems(2,3) by (auto simp: f(2))
    note ih = Cons.IH [OF free_wf_table [OF Cons.prems(1) i] _ this]
    have "filter (\<lambda>j. j \<notin> set is \<or> bcmc = Some j) (used ?s1) = filter (\<lambda>j. j \<notin> set (i # is) \<or> bcmc = Some j) (used s)"
      using False by (auto simp: f(2) intro: filter_cong)
    then show ?thesis
      using ih Cons.prems(2) False f(4) free_wf_macids [OF Cons.prems(1) _ i]
      by (simp add: Let_def split_beta)
  qed
qed simp

lemma free_all_spec:
  fixes myid :: bytes and s :: sta_priv
  assumes "wf_table myid s"
  defines "s' \<equiv> fst (rtw_free_all_stainfo myid s)"
  shows "wf_table myid s' \<and> (wf_macids myid s \<longrightarrow> wf_macids myid s')
    \<and> (asoc_sta_count s \<noteq> 1 \<longrightarrow> used s' = filter (\<lambda>j. rtw_get_bcmc_stainfo s = Some j) (used s)
        \<and> (\<forall>j. hwaddr (pool s' ! j) = hwaddr (pool s ! j)))"
proof (cases "asoc_sta_count s = 1")
  case True
  then show ?thesis using assms(1) by (simp add: s'_def rtw_free_all_stainfo_def)
next
  case False
  have "filter (\<lambda>j. j \<notin> set (used s) \<or> rtw_get_bcmc_stainfo s = Some j) (used s)
    = filter (\<lambda>j. rtw_get_bcmc_stainfo s = Some j) (used s)" by (intro filter_cong) auto
  with free_bucket_spec [OF assms(1) wf_used(1) [OF assms(1)], of "rtw_get_bcmc_stainfo s"] False
  show ?thesis by (simp add: s'_def rtw_free_all_stainfo_def used_def [symmetric])
qed

section \<open>Reachable tables\<close>

text \<open>The tables after set-up and any sequence of allocations and releases. Not among the steps: the access point's release and
  new allocation of the broadcast entry (\<^verbatim>\<open>core/rtw_ap.c\<close>, \<^verbatim>\<open>core/rtw_mlme.c\<close>), during which there is none, and the
  places in ad-hoc mode that write a MAC id of their own into an entry (\<^verbatim>\<open>core/rtw_mlme.c\<close>, \<^verbatim>\<open>core/rtw_cmd.c\<close>).\<close>

inductive sta_reach :: "bytes \<Rightarrow> sta_priv \<Rightarrow> bool" for myid :: bytes where
  start: "length ids = NUM_STA \<Longrightarrow> ids ! 1
    \<Longrightarrow> sta_reach myid (snd (rtw_init_bcmc_stainfo myid (rtw_init_sta_priv ids accnt)))"
| alloc: "sta_reach myid s \<Longrightarrow> valid_addr a \<Longrightarrow> rtw_alloc_stainfo myid a s = (r, s') \<Longrightarrow> sta_reach myid s'"
| free: "sta_reach myid s \<Longrightarrow> i \<in> set (used s) \<Longrightarrow> rtw_get_bcmc_stainfo s \<noteq> Some i
    \<Longrightarrow> sta_reach myid (fst (rtw_free_stainfo myid i s))"
| free_all: "sta_reach myid s \<Longrightarrow> sta_reach myid (fst (rtw_free_all_stainfo myid s))"

inductive_cases sta_reachE: "sta_reach myid s"

lemma valid_bc: "valid_addr bc_addr"
  by (simp add: valid_addr_def length_bc_addr)

lemma bcmc_entries: "rtw_get_bcmc_stainfo s = (case entries s bc_addr of [] \<Rightarrow> None | i # _ \<Rightarrow> Some i)"
  unfolding rtw_get_bcmc_stainfo_def by (rule get_stainfo_entries [OF valid_bc])

lemma sta_reach_wf: "sta_reach myid s \<Longrightarrow> wf_table myid s \<and> wf_macids myid s \<and> rtw_get_bcmc_stainfo s \<noteq> None"
proof (induction rule: sta_reach.induct)
  case (start ids accnt)
  then show ?case using init_bcmc_wf [of ids myid accnt] by (auto simp: bcmc_entries split: list.splits)
next
  case (alloc s a r s')
  then have a: "length a = 6" by (simp add: valid_addr_def)
  show ?case
  proof (cases r)
    case None
    then have "s' = s" using alloc(3) by (auto simp: rtw_alloc_stainfo_def Let_def split: list.splits prod.splits)
    with alloc show ?thesis by simp
  next
    case (Some i)
    note al = alloc(3) [unfolded Some]
    have w: "wf_table myid s" "wf_macids myid s" "rtw_get_bcmc_stainfo s \<noteq> None" using alloc.IH by blast+
    have "rtw_get_bcmc_stainfo s' \<noteq> None"
      using w(3) alloc_entries(1) [OF w(1) al a] by (auto simp: bcmc_entries split: list.splits)
    then show ?thesis using alloc_wf_table [OF w(1) al a] alloc_wf_macids [OF w(1,2) al a] by blast
  qed
next
  case (free s i)
  then have w: "wf_table myid s" "wf_macids myid s" by blast+
  obtain k ks where "entries s bc_addr = k # ks" "k \<noteq> i"
    using free by (auto simp: bcmc_entries split: list.splits)
  then have "rtw_get_bcmc_stainfo (fst (rtw_free_stainfo myid i s)) \<noteq> None"
    using free_entries [OF w(1) free(2)] by (simp add: bcmc_entries)
  then show ?case using free_wf_table [OF w(1) free(2)] free_wf_macids [OF w free(2)] by blast
next
  case (free_all s)
  then have w: "wf_table myid s" "wf_macids myid s" "rtw_get_bcmc_stainfo s \<noteq> None" by blast+
  let ?s = "fst (rtw_free_all_stainfo myid s)"
  note fa = free_all_spec [OF w(1)]
  have "rtw_get_bcmc_stainfo ?s \<noteq> None"
  proof (cases "asoc_sta_count s = 1")
    case True
    then show ?thesis using w(3) by (simp add: rtw_free_all_stainfo_def)
  next
    case False
    obtain k where k: "rtw_get_bcmc_stainfo s = Some k" using w(3) by blast
    then have "k \<in> set (entries s bc_addr)" by (auto simp: bcmc_entries split: list.splits)
    then have "k \<in> set (used s)" "hwaddr (pool s ! k) = bc_addr" using entries_used [OF w(1)] by blast+
    then have "k \<in> set (entries ?s bc_addr)" using fa False k entries_used [of myid ?s] by auto
    then show ?thesis by (auto simp: bcmc_entries split: list.splits)
  qed
  then show ?case using fa w(2) by blast
qed

section \<open>Properties\<close>

text \<open>C29. Station table: after any sequence of allocations, releases and complete flushes every pool
  entry is either free or in exactly one hash bucket, the one of its address; the count of
  stations is the number of hashed entries; the MAC ids of the stations other than the broadcast
  entry and the adapter itself are pairwise different, marked as taken and never the reserved
  id 1; and the broadcast entry is there.\<close>

theorem station_table_invariant:
  assumes "sta_reach myid s"
  shows "wf_table myid s \<and> wf_macids myid s \<and> rtw_get_bcmc_stainfo s \<noteq> None"
  using assms by (rule sta_reach_wf)

text \<open>Lookup: after an allocation the address is found, under the new entry unless the table
  already had one for it, and every other lookup is unchanged; it fails only when the pool is
  exhausted, and then changes nothing.\<close>

theorem rtw_get_stainfo_after_alloc:
  assumes "wf_table myid s" "valid_addr a" "valid_addr b"
  shows "(case rtw_alloc_stainfo myid a s of
      (None, s') \<Rightarrow> free_sta_queue s = [] \<and> s' = s
    | (Some i, s') \<Rightarrow> rtw_get_stainfo s' (Some b)
        = (if b = a \<and> rtw_get_stainfo s (Some a) = None then Some i else rtw_get_stainfo s (Some b)))"
proof -
  obtain r s' where a: "rtw_alloc_stainfo myid a s = (r, s')" by (rule prod.exhaust)
  show ?thesis
  proof (cases r)
    case None
    then have "free_sta_queue s = []" using a st.alloc_iff_room [OF assms(1), of a] by simp
    then show ?thesis using a st.alloc_full_law [OF assms(1), of a] None by simp
  next
    case (Some i)
    then show ?thesis using a st.find_alloc [OF assms(1,2) _ assms(3), of i s'] by simp
  qed
qed

text \<open>Releasing an entry just allocated restores every lookup.\<close>

theorem rtw_free_stainfo_undoes_alloc:
  assumes "wf_table myid s" "valid_addr a" "rtw_alloc_stainfo myid a s = (Some i, s')" "valid_addr b"
  shows "rtw_get_stainfo (fst (rtw_free_stainfo myid i s')) (Some b) = rtw_get_stainfo s (Some b)"
  using assms by (rule st.release_alloc)

text \<open>Flush: \<open>rtw_free_all_stainfo\<close> leaves the broadcast entry and no other.\<close>

theorem rtw_free_all_stainfo_keeps_broadcast:
  assumes "sta_reach myid s" "asoc_sta_count s \<noteq> 1" "valid_addr a"
  shows "rtw_get_stainfo (fst (rtw_free_all_stainfo myid s)) (Some a)
    = (if a = bc_addr then rtw_get_bcmc_stainfo s else None)"
proof -
  let ?s = "fst (rtw_free_all_stainfo myid s)"
  have w: "wf_table myid s" "rtw_get_bcmc_stainfo s \<noteq> None" using sta_reach_wf [OF assms(1)] by blast+
  obtain k where k: "rtw_get_bcmc_stainfo s = Some k" using w(2) by blast
  then have kb: "k \<in> set (entries s bc_addr)" by (auto simp: bcmc_entries split: list.splits)
  have f: "wf_table myid ?s" "used ?s = filter (\<lambda>j. Some k = Some j) (used s)" "\<And>j. hwaddr (pool ?s ! j) = hwaddr (pool s ! j)"
    using free_all_spec [OF w(1)] assms(2) k by simp_all
  have e: "i \<in> set (entries ?s b) \<longleftrightarrow> i = k \<and> b = bc_addr" for i b
    using entries_used [OF f(1), of i b] entries_used [OF w(1), of k bc_addr] kb f(2,3) by auto
  show ?thesis
  proof (cases "entries ?s a")
    case Nil
    then have "a \<noteq> bc_addr" using e [of k bc_addr] by auto
    then show ?thesis using Nil by (simp add: get_stainfo_entries [OF assms(3)])
  next
    case (Cons i rest)
    then have "i = k \<and> a = bc_addr" using e [of i a] by simp
    then show ?thesis using Cons k by (simp add: get_stainfo_entries [OF valid_bc])
  qed
qed

text \<open>Releasing a station without an association id clears bit 0 of the traffic map, the bit that
  announces buffered group frames.\<close>

lemma rtw_free_stainfo_clears_group_bit:
  "aid (pool s ! i) = 0 \<Longrightarrow> \<not> bit (tim_bitmap (fst (rtw_free_stainfo myid i s))) 0"
  by (simp add: rtw_free_stainfo_def Let_def split_beta bit_and_iff bit_not_iff)

text \<open>\<open>rtw_init_bcmc_stainfo\<close> reports success also when there is no entry left.\<close>

lemma rtw_init_bcmc_stainfo_always_succeeds: "fst (rtw_init_bcmc_stainfo myid s)"
  by (simp add: rtw_init_bcmc_stainfo_def split: prod.splits option.splits)

lemma rtw_access_ctrl_deny: "rtw_access_ctrl 1 acl a \<longleftrightarrow> \<not> (\<exists>n \<in> set acl. acl_valid n \<and> acl_addr n = a)"
  by (auto simp: rtw_access_ctrl_def list_ex_iff)

lemma rtw_access_ctrl_accept: "rtw_access_ctrl 2 acl a \<longleftrightarrow> (\<exists>n \<in> set acl. acl_valid n \<and> acl_addr n = a)"
  by (auto simp: rtw_access_ctrl_def list_ex_iff)

section \<open>A concrete table\<close>

definition ex_my :: bytes where "ex_my = [2, 0, 0, 0, 0, 1]"

definition ex_sta :: bytes where "ex_sta = [2, 0, 0, 0, 0, 7]"

definition ex_ids :: "bool list" where "ex_ids = [False, True] @ replicate 30 False"

definition ex_table :: sta_priv where
  "ex_table = snd (rtw_init_bcmc_stainfo ex_my (rtw_init_sta_priv ex_ids [0, 0, 0, 0]))"

lemma ex_ids: "length ex_ids = NUM_STA" "ex_ids ! 1"
  by (simp_all add: ex_ids_def NUM_STA_def)

lemma ex_reach: "sta_reach ex_my ex_table"
  unfolding ex_table_def by (rule sta_reach.start [OF ex_ids])

lemma ex_table_wf: "wf_table ex_my ex_table"
  unfolding ex_table_def using init_bcmc_wf [OF ex_ids] by blast

lemma ex_sta_valid: "valid_addr ex_sta"
  by (simp add: valid_addr_def ex_sta_def IS_MCAST_def)

lemma ex_alloc: "fst (rtw_alloc_stainfo ex_my ex_sta ex_table) = Some 1"
  by code_simp

lemma ex_get: "rtw_get_stainfo ex_table (Some ex_sta) = None"
  by code_simp

theorem station_table_invariant_witness: "wf_macids ex_my ex_table"
  using station_table_invariant [OF ex_reach] by blast

theorem rtw_get_stainfo_after_alloc_witness:
  "rtw_get_stainfo (snd (rtw_alloc_stainfo ex_my ex_sta ex_table)) (Some ex_sta) = Some 1"
  using rtw_get_stainfo_after_alloc [OF ex_table_wf ex_sta_valid ex_sta_valid] ex_alloc ex_get
  by (simp add: split_beta)

theorem rtw_free_stainfo_undoes_alloc_witness:
  "rtw_get_stainfo (fst (rtw_free_stainfo ex_my 1 (snd (rtw_alloc_stainfo ex_my ex_sta ex_table)))) (Some ex_sta) = None"
proof -
  have "rtw_alloc_stainfo ex_my ex_sta ex_table = (Some 1, snd (rtw_alloc_stainfo ex_my ex_sta ex_table))"
    using ex_alloc by (simp add: prod_eq_iff)
  from rtw_free_stainfo_undoes_alloc [OF ex_table_wf ex_sta_valid this ex_sta_valid] ex_get
  show ?thesis by simp
qed

theorem rtw_free_all_stainfo_keeps_broadcast_witness:
  "rtw_get_stainfo (fst (rtw_free_all_stainfo ex_my (snd (rtw_alloc_stainfo ex_my ex_sta ex_table)))) (Some ex_sta) = None"
proof -
  let ?s = "snd (rtw_alloc_stainfo ex_my ex_sta ex_table)"
  have r: "sta_reach ex_my ?s"
    by (rule sta_reach.alloc [OF ex_reach ex_sta_valid]) (rule prod.collapse [symmetric])
  have "asoc_sta_count ?s \<noteq> 1" by code_simp
  moreover have "ex_sta \<noteq> bc_addr" by code_simp
  ultimately show ?thesis using rtw_free_all_stainfo_keeps_broadcast [OF r _ ex_sta_valid] by simp
qed

end
