(* ===== verification/Adapter.thy ===== *)
theory Adapter
  imports Mgmt_Protect Rx_Deliver Sta_Table Rx_Reorder
begin

text \<open>
  The state that the transmit path (\<open>Tx_Coalesce\<close>) and the receive path (\<open>Rx_Validate\<close>) of one adapter
  share: the parts of \<^verbatim>\<open>_adapter\<close>, \<open>sta_info\<close>, \<open>mlme_priv\<close>, \<open>security_priv\<close> and \<open>recv_priv\<close> they use. The
  station entries are the offsets of the pool of \<open>Sta_Table\<close>; \<open>peers\<close> has what that theory does not
  need of each.
\<close>

record net_security = w_security +
  dot11AuthAlgrthm :: u32
  ndisauthtype :: u32
  dot118021XGrpPrivacy :: u32
  dot118021XGrptxmickey :: "bytes list"
  sw_encrypt :: bool

record peer = mgmt_peer +
  ieee8021x_blocked :: bool
  dot118021XPrivacy :: u32
  dot11txpn :: u64
  dot11tkiptxmickey :: bytes
  dot11tkiprxmickey :: bytes
  qos_option :: bool
  peer_rtsen :: bool
  peer_cts2self :: bool
  peer_raid :: u8
  bw_mode :: u8
  sgi_20m :: bool
  sgi_40m :: bool
  peer_ldpc :: u8
  peer_stbc :: u8
  ht_option :: bool
  ht_ch_offset :: u8
  ampdu_enable :: bool
  agg_enable_bitmap :: u8
  rx_ampdu_min_spacing :: u8
  txseq_tid :: "u16 list"
  BA_starting_seqctrl :: "u16 list"
  defrag_q :: "rx_frame list"
  recvreorder_ctrl :: "recv_reorder_ctrl list"

text \<open>\<open>qos_opt\<close> is \<open>qospriv.qos_option\<close>, \<open>ht_opt\<close> is \<open>htpriv.ht_option\<close> of \<open>mlme_priv\<close>, \<open>running\<close> is
  \<open>bDriverStopped == _FALSE && bSurpriseRemoved == _FALSE\<close>. \<open>reorder_held\<close> has the frames that wait in the
  reordering queues, which hold their identities, and \<open>rx_static\<close> and \<open>send_issue_deauth_time\<close> are static variables
  of functions.\<close>

record adapter =
  fw_state :: u32
  mybssid :: bytes
  myhwaddr :: bytes
  stapriv :: sta_priv
  peers :: "peer list"
  security :: net_security
  qos_opt :: bool
  acm_mask :: u8
  xmit_frag_len :: nat
  wifi_spec :: bool
  rts_thresh :: nat
  cur_wireless_mode :: u8
  assoc_AP_vendor :: nat
  cur_bwmode :: u8
  HT_protection :: u8
  driver_vcs_en :: u8
  driver_vcs_type :: u8
  driver_ampdu_spacing :: u8
  ht_opt :: bool
  running :: bool
  mlme_key_index :: nat
  rx_static :: dec_static
  send_issue_deauth_time :: u32
  uc_swdec_pending_queue :: "rx_frame list"
  reorder_held :: "rx_frame list"
  free_recvframe_cnt :: nat
  rx_drop :: u64
  bIsAnyNonBEPkts :: bool

definition WIFI_ADHOC_STATE :: u32 where "WIFI_ADHOC_STATE = 0x20"
definition WIFI_ADHOC_MASTER_STATE :: u32 where "WIFI_ADHOC_MASTER_STATE = 0x40"
definition WIFI_UNDER_LINKING :: u32 where "WIFI_UNDER_LINKING = 0x80"
definition WIFI_MP_STATE :: u32 where "WIFI_MP_STATE = 0x10000"

definition WIFI_QOS_DATA_TYPE :: u16 where "WIFI_QOS_DATA_TYPE = 0x88"

text \<open>The authentication algorithms: open 0, shared 1, 802.1X 2, auto 3, WAPI 4. Any other leaves the
  cipher as it is.\<close>

definition GET_ENCRY_ALGO :: "'s net_security_scheme \<Rightarrow> u32 \<Rightarrow> bool \<Rightarrow> u8 \<Rightarrow> u8" where
  "GET_ENCRY_ALGO sec privacy bmcst encry_algo =
     (let alg = dot11AuthAlgrthm sec in
      if alg = 0 \<or> alg = 1 \<or> alg = 3 then ucast (dot11PrivacyAlgrthm sec)
      else if alg = 2 then (if bmcst then ucast (dot118021XGrpPrivacy sec) else ucast privacy)
      else if alg = 4 then ucast (dot11PrivacyAlgrthm sec)
      else encry_algo)"

text \<open>The entry of a station and its offset.\<close>

definition get_peer :: "adapter \<Rightarrow> bytes \<Rightarrow> (nat \<times> peer) option" where
  "get_peer ad addr = map_option (\<lambda>i. (i, peers ad ! i)) (rtw_get_stainfo (stapriv ad) (Some addr))"

end
