(* ===== verification/Tx_Coalesce.thy ===== *)
theory Tx_Coalesce
  imports Adapter
begin

text \<open>
  The way of a packet from the network stack into a transmit buffer, \<^verbatim>\<open>core/rtw_xmit.c\<close>: the attributes
  (\<open>update_attrib\<close>), the header (\<open>rtw_make_wlanhdr\<close>), the fragments (\<open>rtw_xmitframe_coalesce\<close>) and the
  Michael code (\<open>xmitframe_addmic\<close>), with the packet reader of \<^verbatim>\<open>os_dep/xmit_linux.c\<close>. The software
  encryption is \<open>xmitframe_swencrypt\<close> of \<open>Mgmt_Protect\<close>.

  A buffer is the memory behind \<open>pxmitframe->buf_addr\<close>; \<open>base\<close> is the value of that pointer. Outer
  \<^term>\<open>None\<close>: an access outside a buffer, a read of an uninitialised variable, or a loop that does not
  end. The model is of a driver with \<open>CONFIG_USB_TX_AGGREGATION\<close> and without \<open>CONFIG_TDLS\<close>,
  \<open>CONFIG_WAPI_SUPPORT\<close> and checksum offload.
\<close>

section \<open>State\<close>

record tx_attrib = mgmt_attrib +
  attrib_subtype :: u16
  ether_type :: u16
  pkt_hdrlen :: nat
  attrib_dst :: bytes
  attrib_src :: bytes
  key_idx :: u8
  seqnum :: u16
  tx_priority :: u8
  ack_policy :: u16
  attrib_mac_id :: nat
  vcs_mode :: u8
  qos_en :: bool
  ht_en :: bool
  rtsen :: bool
  cts2self :: bool
  ampdu_en :: bool
  ampdu_spacing :: u8
  mdata :: bool
  eosp :: u16
  triggered :: bool
  raid :: u8
  bwmode :: u8
  ch_offset :: u8
  sgi :: bool
  ldpc :: u8
  stbc :: u8
  retry_ctrl :: bool
  pctrl :: bool
  dhcp_pkt :: bool
  icmp_pkt :: bool
  attrib_tkiptxmickey :: bytes
  attrib_psta :: "nat option"

section \<open>The packet reader\<close>

record pkt_file =
  pkt :: bytes
  cur_addr :: nat
  pkt_len :: nat

definition rtw_open_pktfile :: "bytes \<Rightarrow> pkt_file" where
  "rtw_open_pktfile p = \<lparr>pkt = p, cur_addr = 0, pkt_len = length p\<rparr>"

definition rtw_remainder_len :: "pkt_file \<Rightarrow> nat" where
  "rtw_remainder_len pf = length (pkt pf) - cur_addr pf"

text \<open>The bytes read, their number, and the reader after them.\<close>

definition rtw_pktfile_read :: "pkt_file \<Rightarrow> nat \<Rightarrow> bytes \<times> nat \<times> pkt_file" where
  "rtw_pktfile_read pf rlen =
     (let len = rtw_remainder_len pf;
          len = (if len < rlen then len else rlen)
      in (take len (drop (length (pkt pf) - pkt_len pf) (pkt pf)), len,
          pf\<lparr>cur_addr := cur_addr pf + len, pkt_len := pkt_len pf - len\<rparr>))"

definition rtw_endofpktfile :: "pkt_file \<Rightarrow> bool" where
  "rtw_endofpktfile pf \<longleftrightarrow> pkt_len pf = 0"

section \<open>Attributes of a packet\<close>

definition WEP_IV :: "u64 \<Rightarrow> u8 \<Rightarrow> bytes \<times> u64" where
  "WEP_IV pn keyidx =
     (let b = pn_bytes pn
      in ([b ! 0, b ! 1, b ! 2, push_bit 6 (keyidx AND 3)], if pn = 0xffffff then 0 else pn + 1))"

definition TKIP_IV :: "u64 \<Rightarrow> u8 \<Rightarrow> bytes \<times> u64" where
  "TKIP_IV pn keyidx =
     (let b = pn_bytes pn
      in ([b ! 1, (b ! 1 OR 0x20) AND 0x7f, b ! 0, 0x20 OR push_bit 6 (keyidx AND 3), b ! 2, b ! 3, b ! 4, b ! 5],
          if pn = 0xffffffffffff then 0 else pn + 1))"

definition tx_key_idx :: "'s net_security_scheme \<Rightarrow> bool \<Rightarrow> u8" where
  "tx_key_idx sec bmcst =
     (let alg = dot11AuthAlgrthm sec in
      if alg = 0 \<or> alg = 1 \<or> alg = 3 then of_nat (dot11PrivacyKeyIndex sec)
      else if alg = 2 then (if bmcst then of_nat (dot118021XGrpKeyid sec) else 0)
      else 0)"

text \<open>The switch on the cipher: IV, lengths and packet number; the flag is false where a TKIP key is missing.\<close>

definition tx_iv :: "'s net_security_scheme \<Rightarrow> bool \<Rightarrow> peer \<Rightarrow> tx_attrib \<Rightarrow> bool \<times> tx_attrib \<times> peer" where
  "tx_iv sec bmcst psta a =
     (if encrypt a = WEP40 \<or> encrypt a = WEP104 then
        (let (iv, pn) = WEP_IV (dot11txpn psta) (key_idx a)
         in (True, a\<lparr>iv_len := 4, icv_len := 4, attrib_iv := iv\<rparr>, psta\<lparr>dot11txpn := pn\<rparr>))
      else if encrypt a = TKIP then
        (let a = a\<lparr>iv_len := 8, icv_len := 4\<rparr> in
         if \<not> busetkipkey sec then (False, a, psta)
         else (let (iv, pn) = TKIP_IV (dot11txpn psta) (if bmcst then key_idx a else 0)
               in (True, a\<lparr>attrib_iv := iv, attrib_tkiptxmickey := take 16 (dot11tkiptxmickey psta)\<rparr>,
                   psta\<lparr>dot11txpn := pn\<rparr>)))
      else if encrypt a = AES then
        (let (iv, pn) = AES_IV (dot11txpn psta) (if bmcst then key_idx a else 0)
         in (True, a\<lparr>iv_len := 8, icv_len := 8, attrib_iv := iv\<rparr>, psta\<lparr>dot11txpn := pn\<rparr>))
      else (True, a\<lparr>iv_len := 0, icv_len := 0\<rparr>, psta))"

text \<open>Keys and cipher of a packet to the station \<open>psta\<close> with MAC id \<open>mid\<close>.\<close>

definition update_attrib_sec_info ::
  "u32 \<Rightarrow> 's net_security_scheme \<Rightarrow> nat \<Rightarrow> peer \<Rightarrow> tx_attrib \<Rightarrow> bool \<times> tx_attrib \<times> peer" where
  "update_attrib_sec_info fw sec mid psta a =
     (let bmcst = IS_MCAST (attrib_ra a);
          a = a\<lparr>attrib_UncstKey := replicate 16 0, attrib_tkiptxmickey := replicate 16 0, attrib_mac_id := mid\<rparr>;
          a = (if ieee8021x_blocked psta then a\<lparr>encrypt := 0\<rparr>
               else (let enc = GET_ENCRY_ALGO sec (dot118021XPrivacy psta) bmcst (encrypt a);
                         enc = (if (enc = WEP40 \<or> enc = WEP104) \<and> ether_type a = 0x888e then 0 else enc)
                     in a\<lparr>encrypt := enc, key_idx := tx_key_idx sec bmcst\<rparr>))
      in if ieee8021x_blocked psta \<and> ether_type a \<noteq> 0x888e \<and> \<not> check_fwstate fw WIFI_MP_STATE
         then (False, a, psta)
         else (let (ok, a, psta) = tx_iv sec bmcst psta a in
               if \<not> ok then (False, a, psta)
               else (let a = (if 0 < encrypt a then a\<lparr>attrib_UncstKey := take 16 (peer_UncstKey psta)\<rparr> else a)
                     in (True, a\<lparr>bswenc := (encrypt a \<noteq> 0 \<and> (sw_encrypt sec \<or> \<not> hw_decrypted sec))\<rparr>, psta))))"

definition query_ra_short_GI :: "peer \<Rightarrow> bool" where
  "query_ra_short_GI psta =
     (if bw_mode psta = 2 then False else if bw_mode psta = 1 then sgi_40m psta else sgi_20m psta)"

definition update_attrib_phy_info :: "u8 \<Rightarrow> u8 \<Rightarrow> peer \<Rightarrow> tx_attrib \<Rightarrow> tx_attrib" where
  "update_attrib_phy_info bwm spacing psta a = a\<lparr>rtsen := peer_rtsen psta, cts2self := peer_cts2self psta,
     mdata := False, eosp := 0, triggered := False, qos_en := qos_option psta, raid := peer_raid psta,
     bwmode := (if bwm < bw_mode psta then bwm else bw_mode psta), sgi := query_ra_short_GI psta,
     ldpc := peer_ldpc psta, stbc := peer_stbc psta, ht_en := ht_option psta, ch_offset := ht_ch_offset psta,
     ampdu_en := False,
     ampdu_spacing := (if spacing \<noteq> 0xFF then spacing else rx_ampdu_min_spacing psta), retry_ctrl := False\<rparr>"

definition qos_acm :: "u8 \<Rightarrow> u8 \<Rightarrow> u8" where
  "qos_acm acm priority =
     (if priority = 0 \<or> priority = 3 then (if bit acm 1 then 1 else priority)
      else if priority = 4 \<or> priority = 5 then (if bit acm 2 then 0 else priority)
      else if priority = 6 \<or> priority = 7 then (if bit acm 3 then 5 else priority)
      else priority)"

text \<open>The user priority from the IP header.\<close>

definition set_qos :: "bytes \<Rightarrow> tx_attrib \<Rightarrow> tx_attrib option" where
  "set_qos skb a =
     (let (_, _, pf) = rtw_pktfile_read (rtw_open_pktfile skb) 14;
          (ip_hdr, _, _) = rtw_pktfile_read pf 20
      in do {
        prio \<leftarrow> (if ether_type a = 0x0800 then map_option (drop_bit 5) (rd ip_hdr 1) else Some 0);
        Some (a\<lparr>tx_priority := prio, hdrlen := 26, attrib_subtype := WIFI_QOS_DATA_TYPE\<rparr>) })"

text \<open>Commands that \<open>update_attrib\<close> queues.\<close>

datatype tx_command = SET_SCAN_DENY nat | LPS_CTRL_LEAVE | LPS_CTRL_SPECIAL_PACKET

text \<open>The tests for DHCP and ICMP. \<open>pf\<close> is the reader behind the Ethernet header; a byte of \<open>tmp\<close> that
  the packet does not fill is uninitialised.\<close>

definition ip_packet :: "pkt_file \<Rightarrow> tx_attrib \<Rightarrow> tx_attrib option" where
  "ip_packet pf a =
     (let (tmp, _, pf) = rtw_pktfile_read pf 24 in do {
        dhcp \<leftarrow> (if 282 < pkt_len pf then do {
            sp \<leftarrow> rd tmp 21;
            dp \<leftarrow> rd tmp 23;
            Some (sp = 68 \<and> dp = 67 \<or> sp = 67 \<and> dp = 68) }
          else Some False);
        protocol \<leftarrow> rd tmp 9;
        Some (a\<lparr>dhcp_pkt := dhcp, icmp_pkt := (protocol = 1)\<rparr>) })"

definition lps_commands :: "tx_attrib \<Rightarrow> tx_command list" where
  "lps_commands a =
     (if ether_type a = 0x888e \<or> dhcp_pkt a then [SET_SCAN_DENY 3000] else [])
     @ (if icmp_pkt a then [LPS_CTRL_LEAVE] else if dhcp_pkt a then [LPS_CTRL_SPECIAL_PACKET] else [])"

text \<open>Receiver and transmitter address by mode; the attributes of another mode keep their zeros.\<close>

definition tx_addresses :: "adapter \<Rightarrow> tx_attrib \<Rightarrow> tx_attrib" where
  "tx_addresses ad a =
     (if check_fwstate (fw_state ad) WIFI_ADHOC_STATE \<or> check_fwstate (fw_state ad) WIFI_ADHOC_MASTER_STATE
      then a\<lparr>attrib_ra := attrib_dst a, attrib_ta := myhwaddr ad\<rparr>
      else if check_fwstate (fw_state ad) WIFI_STATION_STATE
      then a\<lparr>attrib_ra := mybssid ad, attrib_ta := myhwaddr ad\<rparr>
      else if check_fwstate (fw_state ad) WIFI_AP_STATE
      then a\<lparr>attrib_ra := attrib_dst a, attrib_ta := mybssid ad\<rparr>
      else a)"

text \<open>The station the packet goes to, \<^term>\<open>None\<close> when the packet is dropped for want of it.\<close>

definition tx_station :: "adapter \<Rightarrow> tx_attrib \<Rightarrow> nat option" where
  "tx_station ad a =
     (if IS_MCAST (attrib_ra a) then rtw_get_bcmc_stainfo (stapriv ad)
      else case rtw_get_stainfo (stapriv ad) (Some (attrib_ra a)) of
        None \<Rightarrow> None
      | Some i \<Rightarrow>
          if check_fwstate (fw_state ad) WIFI_AP_STATE \<and> peer_state (peers ad ! i) AND FW_LINKED = 0
          then None else Some i)"

definition tx_qos :: "adapter \<Rightarrow> bytes \<Rightarrow> tx_attrib \<Rightarrow> tx_attrib option" where
  "tx_qos ad skb a =
     (if check_fwstate (fw_state ad) (WIFI_AP_STATE OR WIFI_ADHOC_STATE OR WIFI_ADHOC_MASTER_STATE)
      then (if qos_en a then set_qos skb a else Some a)
      else if qos_opt ad then do {
        a \<leftarrow> set_qos skb a;
        Some (if acm_mask ad \<noteq> 0 then a\<lparr>tx_priority := qos_acm (acm_mask ad) (tx_priority a)\<rparr> else a) }
      else Some a)"

text \<open>The attributes come from \<open>rtw_init_xmitframe\<close>, which clears them. The result has the return value, the
  attributes, the commands queued and the adapter (the packet number of the station).\<close>

definition update_attrib ::
  "adapter \<Rightarrow> bytes \<Rightarrow> tx_attrib \<Rightarrow> (bool \<times> tx_attrib \<times> tx_command list \<times> adapter) option" where
  "update_attrib ad skb a =
     (let (ethhdr, i, pf) = rtw_pktfile_read (rtw_open_pktfile skb) 14 in
      if i < 14 then None
      else do {
        ty \<leftarrow> RTW_GET_BE16 ethhdr 12;
        let a = a\<lparr>ether_type := ty, attrib_dst := take 6 ethhdr, attrib_src := take 6 (drop 6 ethhdr)\<rparr>;
        let a = tx_addresses ad a;
        let a = a\<lparr>pktlen := pkt_len pf\<rparr>;
        a \<leftarrow> (if ty = 0x0800 then ip_packet pf a else Some a);
        let cmds = lps_commands a;
        case tx_station ad a of
          None \<Rightarrow> Some (False, a, cmds, ad)
        | Some i \<Rightarrow>
            let psta = peers ad ! i in
            if peer_state psta AND FW_LINKED = 0 then Some (False, a, cmds, ad)
            else
              let (ok, a, psta) = update_attrib_sec_info (fw_state ad) (security ad) (mac_id (pool (stapriv ad) ! i)) psta a;
                  ad = ad\<lparr>peers := (peers ad)[i := psta]\<rparr>
              in if \<not> ok then Some (False, a, cmds, ad)
              else do {
                let a = update_attrib_phy_info (cur_bwmode ad) (driver_ampdu_spacing ad) psta a;
                let a = a\<lparr>attrib_psta := Some i, pctrl := False, ack_policy := 0, pkt_hdrlen := 14, hdrlen := 24,
                  attrib_subtype := WIFI_DATA_TYPE, tx_priority := 0\<rparr>;
                a \<leftarrow> tx_qos ad skb a;
                Some (True, a, cmds, ad) } })"

section \<open>The header\<close>

text \<open>Read, change and write a little-endian 16-bit field: the macros \<open>SetToDs\<close> to \<open>SetAckpolicy\<close>.\<close>

definition rmw16 :: "bytes \<Rightarrow> nat \<Rightarrow> (u16 \<Rightarrow> u16) \<Rightarrow> bytes option" where
  "rmw16 b i f = do {
     x \<leftarrow> rdn b i 2;
     wrn b i (le16_bytes (f (bytes_le16 (x ! 0) (x ! 1)))) }"

definition SetFrameSubType :: "bytes \<Rightarrow> nat \<Rightarrow> u16 \<Rightarrow> bytes option" where
  "SetFrameSubType b i type = rmw16 b i (\<lambda>fc. (fc AND NOT 0xFC) OR type)"

definition SetToDs :: "bytes \<Rightarrow> nat \<Rightarrow> bytes option" where
  "SetToDs b i = rmw16 b i (\<lambda>fc. fc OR 0x100)"

definition SetFrDs :: "bytes \<Rightarrow> nat \<Rightarrow> bytes option" where
  "SetFrDs b i = rmw16 b i (\<lambda>fc. fc OR 0x200)"

definition SetMFrag :: "bytes \<Rightarrow> nat \<Rightarrow> bytes option" where
  "SetMFrag b i = rmw16 b i (\<lambda>fc. fc OR 0x400)"

definition ClearMFrag :: "bytes \<Rightarrow> nat \<Rightarrow> bytes option" where
  "ClearMFrag b i = rmw16 b i (\<lambda>fc. fc AND NOT 0x400)"

definition SetMData :: "bytes \<Rightarrow> nat \<Rightarrow> bytes option" where
  "SetMData b i = rmw16 b i (\<lambda>fc. fc OR 0x2000)"

definition SetPrivacy :: "bytes \<Rightarrow> nat \<Rightarrow> bytes option" where
  "SetPrivacy b i = rmw16 b i (\<lambda>fc. fc OR 0x4000)"

definition SetSeqNum :: "bytes \<Rightarrow> nat \<Rightarrow> u16 \<Rightarrow> bytes option" where
  "SetSeqNum b i num = rmw16 b (i + 22) (\<lambda>sc. (sc AND 0xF) OR (0xFFF0 AND push_bit 4 num))"

definition SetPriority :: "bytes \<Rightarrow> nat \<Rightarrow> u8 \<Rightarrow> bytes option" where
  "SetPriority b i tid = rmw16 b i (\<lambda>qc. qc OR (ucast tid AND 0xF))"

definition SetEOSP :: "bytes \<Rightarrow> nat \<Rightarrow> u16 \<Rightarrow> bytes option" where
  "SetEOSP b i v = rmw16 b i (\<lambda>qc. qc OR push_bit 4 (v AND 1))"

definition SetAckpolicy :: "bytes \<Rightarrow> nat \<Rightarrow> u16 \<Rightarrow> bytes option" where
  "SetAckpolicy b i ack = rmw16 b i (\<lambda>qc. qc OR push_bit 5 (ack AND 3))"

definition set_addrs :: "bytes \<Rightarrow> bytes \<Rightarrow> bytes \<Rightarrow> bytes \<Rightarrow> bytes option" where
  "set_addrs hdr addr1 addr2 addr3 = do {
     hdr \<leftarrow> wrn hdr 4 (take 6 addr1);
     hdr \<leftarrow> wrn hdr 10 (take 6 addr2);
     wrn hdr 16 (take 6 addr3) }"

text \<open>Direction bits, addresses and whether there is a QoS field, by mode; inner \<^term>\<open>None\<close>: a mode
  that must not send.\<close>

definition wlanhdr_mode :: "adapter \<Rightarrow> tx_attrib \<Rightarrow> bytes \<Rightarrow> (bytes \<times> bool) option option" where
  "wlanhdr_mode ad a hdr =
     (if check_fwstate (fw_state ad) WIFI_STATION_STATE then do {
        hdr \<leftarrow> SetToDs hdr 0;
        hdr \<leftarrow> set_addrs hdr (mybssid ad) (attrib_ta a) (attrib_dst a);
        Some (Some (hdr, qos_opt ad)) }
      else if check_fwstate (fw_state ad) WIFI_AP_STATE then do {
        hdr \<leftarrow> SetFrDs hdr 0;
        hdr \<leftarrow> set_addrs hdr (attrib_dst a) (mybssid ad) (attrib_src a);
        Some (Some (hdr, qos_en a)) }
      else if check_fwstate (fw_state ad) WIFI_ADHOC_STATE \<or> check_fwstate (fw_state ad) WIFI_ADHOC_MASTER_STATE
      then do {
        hdr \<leftarrow> set_addrs hdr (attrib_dst a) (attrib_ta a) (mybssid ad);
        Some (Some (hdr, qos_en a)) }
      else Some None)"

definition wlanhdr_flags :: "tx_attrib \<Rightarrow> bool \<Rightarrow> bytes \<Rightarrow> bytes option" where
  "wlanhdr_flags a has_qc hdr = do {
     hdr \<leftarrow> (if mdata a then SetMData hdr 0 else Some hdr);
     hdr \<leftarrow> (if encrypt a \<noteq> 0 then SetPrivacy hdr 0 else Some hdr);
     if \<not> has_qc then Some hdr
     else if hdrlen a < 2 then None
     else do {
       let qc = hdrlen a - 2;
       hdr \<leftarrow> (if tx_priority a \<noteq> 0 then SetPriority hdr qc (tx_priority a) else Some hdr);
       hdr \<leftarrow> SetEOSP hdr qc (eosp a);
       SetAckpolicy hdr qc (ack_policy a) } }"

text \<open>The next sequence number of the traffic class, and whether the peer has a block-acknowledgement session
  for it.\<close>

definition next_seqnum :: "peer \<Rightarrow> tx_attrib \<Rightarrow> (tx_attrib \<times> peer) option" where
  "next_seqnum psta a = do {
     let tid = unat (tx_priority a);
     s \<leftarrow> rd (txseq_tid psta) tid;
     let s = (s + 1) AND 0xFFF;
     let en = (ht_en a \<and> ampdu_enable psta \<and> bit (agg_enable_bitmap psta) tid \<or> ampdu_en a);
     Some (a\<lparr>seqnum := s, ampdu_en := en\<rparr>, psta\<lparr>txseq_tid := (txseq_tid psta)[tid := s]\<rparr>) }"

text \<open>No aggregation while the number is below the start of the session, which otherwise moves behind it.\<close>

definition check_BA_start :: "peer \<Rightarrow> tx_attrib \<Rightarrow> (tx_attrib \<times> peer) option" where
  "check_BA_start psta a =
     (if \<not> ampdu_en a then Some (a, psta)
      else do {
        let k = unat (tx_priority a AND 0xF);
        tx_seq \<leftarrow> rd (BA_starting_seqctrl psta) k;
        let start = (\<lambda>v. psta\<lparr>BA_starting_seqctrl := (BA_starting_seqctrl psta)[k := v]\<rparr>);
        Some (if SN_LESS (seqnum a) tx_seq then (a\<lparr>ampdu_en := False\<rparr>, psta)
              else if SN_EQUAL (seqnum a) tx_seq then (a\<lparr>ampdu_en := True\<rparr>, start ((tx_seq + 1) AND 0xFFF))
              else (a\<lparr>ampdu_en := True\<rparr>, start ((seqnum a + 1) AND 0xFFF))) })"

definition tx_sequence :: "peer \<Rightarrow> tx_attrib \<Rightarrow> (tx_attrib \<times> peer) option" where
  "tx_sequence psta a = do {
     (a, psta) \<leftarrow> next_seqnum psta a;
     check_BA_start psta a }"

definition WLANHDR_OFFSET :: nat where "WLANHDR_OFFSET = 64"

text \<open>The function clears the first \<open>WLANHDR_OFFSET\<close> bytes at \<open>hdr\<close> and works in them; the result has the
  return value and these bytes.\<close>

definition rtw_make_wlanhdr :: "adapter \<Rightarrow> tx_attrib \<Rightarrow> (bool \<times> bytes \<times> tx_attrib \<times> adapter) option" where
  "rtw_make_wlanhdr ad a = do {
     hdr \<leftarrow> SetFrameSubType (replicate WLANHDR_OFFSET 0) 0 (attrib_subtype a);
     if attrib_subtype a AND WIFI_DATA_TYPE = 0 then Some (True, hdr, a, ad)
     else do {
       r \<leftarrow> wlanhdr_mode ad a hdr;
       case r of None \<Rightarrow> Some (False, hdr, a, ad)
       | Some (hdr, has_qc) \<Rightarrow> do {
           hdr \<leftarrow> wlanhdr_flags a has_qc hdr;
           let psta = rtw_get_stainfo (stapriv ad) (Some (attrib_ra a));
           if attrib_psta a \<noteq> psta then Some (False, hdr, a, ad)
           else case psta of None \<Rightarrow> Some (False, hdr, a, ad)
           | Some i \<Rightarrow>
               if peer_state (peers ad ! i) AND FW_LINKED = 0 then Some (False, hdr, a, ad)
               else do {
                 (a, p) \<leftarrow> tx_sequence (peers ad ! i) a;
                 hdr \<leftarrow> SetSeqNum hdr 0 (seqnum a);
                 Some (True, hdr, a, ad\<lparr>peers := (peers ad)[i := p]\<rparr>) } } } }"

section \<open>The frame\<close>

definition rtw_put_snap :: "u16 \<Rightarrow> bytes" where
  "rtw_put_snap h_proto =
     [0xAA, 0xAA, 0x03] @ (if h_proto = 0x8137 \<or> h_proto = 0x80F3 then [0, 0, 0xF8] else [0, 0, 0])
     @ [ucast (drop_bit 8 h_proto), ucast h_proto]"

definition rtw_calculate_wlan_pkt_size_by_attribue :: "tx_attrib \<Rightarrow> nat" where
  "rtw_calculate_wlan_pkt_size_by_attribue a = hdrlen a + iv_len a + 8 + pktlen a
     + (if encrypt a = TKIP then 8 else 0) + (if bswenc a then icv_len a else 0)"

text \<open>One turn of the loop, the fragment at \<open>mem_start\<close>: the buffer, the reader, the size of the LLC header,
  the number of packet bytes and the end of the fragment. A negative room is a huge one for the reader.\<close>

definition coalesce_frag ::
  "int \<Rightarrow> tx_attrib \<Rightarrow> nat \<Rightarrow> nat \<Rightarrow> pkt_file \<Rightarrow> bytes \<Rightarrow> (bytes \<times> pkt_file \<times> nat \<times> nat \<times> nat) option" where
  "coalesce_frag frg_len a frg_inx mem_start pf mem = do {
     mem \<leftarrow> SetMFrag mem mem_start;
     let pframe = mem_start + hdrlen a;
     mem \<leftarrow> (if iv_len a \<noteq> 0 then wrn mem pframe (take (iv_len a) (attrib_iv a)) else Some mem);
     let pframe = pframe + iv_len a;
     let llc_sz = (if frg_inx = 0 then 8 else 0);
     mem \<leftarrow> (if frg_inx = 0 then wrn mem pframe (rtw_put_snap (ether_type a)) else Some mem);
     let pframe = pframe + llc_sz;
     let icv = (if 0 < icv_len a \<and> bswenc a then icv_len a else 0);
     let mpdu_len = frg_len - int (hdrlen a) - int (iv_len a) - int llc_sz - int icv;
     let (data, mem_sz, pf) = rtw_pktfile_read pf
       (if IS_MCAST (attrib_ra a) then pktlen a else nat (mpdu_len mod 2 ^ 32));
     mem \<leftarrow> wrn mem pframe data;
     let pframe = pframe + mem_sz;
     mem \<leftarrow> wrn mem pframe (take icv (attrib_icv a));
     Some (mem, pf, llc_sz, mem_sz, pframe + icv) }"

text \<open>The loop: \<open>hw\<close> is \<open>hw_hdr_offset\<close>, where the first header is. The header of the next fragment is placed
  \<open>hw\<close> bytes behind the end of this one, rounded up to an address that is a multiple of four.\<close>

partial_function (option) coalesce_loop ::
  "int \<Rightarrow> nat \<Rightarrow> nat \<Rightarrow> tx_attrib \<Rightarrow> nat \<Rightarrow> nat \<Rightarrow> pkt_file \<Rightarrow> bytes \<Rightarrow> (bytes \<times> tx_attrib) option" where
  "coalesce_loop frg_len hw base a frg_inx mem_start pf mem = do {
     (mem, pf, llc_sz, mem_sz, pframe) \<leftarrow> coalesce_frag frg_len a frg_inx mem_start pf mem;
     if IS_MCAST (attrib_ra a) \<or> rtw_endofpktfile pf then do {
       mem \<leftarrow> ClearMFrag mem mem_start;
       let nr = (frg_inx + 1) mod 256;
       Some (mem, a\<lparr>nr_frags := nr,
         last_txcmdsz := hdrlen a + iv_len a + (if nr = 1 then llc_sz else 0) + (if bswenc a then icv_len a else 0) + mem_sz\<rparr>) }
     else do {
       let mem_start = RND4 (base + pframe) - base + hw;
       hdr \<leftarrow> rdn mem hw (hdrlen a);
       mem \<leftarrow> wrn mem mem_start hdr;
       coalesce_loop frg_len hw base a (frg_inx + 1) mem_start pf mem } }"

text \<open>The walk of \<open>xmitframe_addmic\<close> over the fragments, \<open>n\<close> of them left; the result is the accumulator
  and the place for the code.\<close>

fun addmic_loop ::
  "nat \<Rightarrow> tx_attrib \<Rightarrow> nat \<Rightarrow> nat \<Rightarrow> nat \<Rightarrow> bytes \<Rightarrow> mic_data \<Rightarrow> (mic_data \<times> nat) option" where
  "addmic_loop base a frag_len 0 payload mem m = Some (m, payload)"
| "addmic_loop base a frag_len (Suc n) payload mem m =
     (let payload = RND4 (base + payload) - base + hdrlen a + iv_len a;
          icv = (if bswenc a then icv_len a else 0);
          len = (if n = 0 then int (last_txcmdsz a) else int frag_len) - int (hdrlen a) - int (iv_len a) - int icv
      in do {
        data \<leftarrow> rdz mem payload len;
        let m = rtw_secmicappend data m;
        addmic_loop base a frag_len n (payload + nat len + (if n = 0 then 0 else icv_len a)) mem m })"

definition addmic_addrs :: "bytes \<Rightarrow> nat \<Rightarrow> mic_data \<Rightarrow> mic_data option" where
  "addmic_addrs mem pframe m = do {
     fc \<leftarrow> rd mem (pframe + 1);
     a1 \<leftarrow> rdn mem (pframe + (if fc AND 1 \<noteq> 0 then 16 else 4)) 6;
     a2 \<leftarrow> rdn mem (pframe + (if fc AND 1 \<noteq> 0 then (if fc AND 2 \<noteq> 0 then 24 else 10)
       else if fc AND 2 \<noteq> 0 then 16 else 10)) 6;
     Some (rtw_secmicappend a2 (rtw_secmicappend a1 m)) }"

text \<open>The flag is false where there is no Michael key.\<close>

definition xmitframe_addmic ::
  "'s net_security_scheme \<Rightarrow> nat \<Rightarrow> nat \<Rightarrow> nat \<Rightarrow> tx_attrib \<Rightarrow> bytes \<Rightarrow> (bool \<times> tx_attrib \<times> bytes) option" where
  "xmitframe_addmic sec base hw frag_len a mem =
     (if encrypt a \<noteq> TKIP then Some (True, a, mem)
      else do {
        key \<leftarrow> (if IS_MCAST (attrib_ra a) then rd (dot118021XGrptxmickey sec) (dot118021XGrpKeyid sec)
          else Some (attrib_tkiptxmickey a));
        if take 16 key = replicate 16 0 then Some (False, a, mem)
        else do {
          let m = rtw_secmicsetkey \<lparr>K0 = 0, K1 = 0, mL = 0, mR = 0, mM = 0, nBytesInM = 0\<rparr> key;
          m \<leftarrow> addmic_addrs mem hw m;
          let m = rtw_secmicappend [if qos_en a then tx_priority a else 0, 0, 0, 0] m;
          (m, payload) \<leftarrow> addmic_loop base a frag_len (nr_frags a) hw mem m;
          mem \<leftarrow> wrn mem payload (fst (rtw_secgetmic m));
          Some (True, a\<lparr>last_txcmdsz := last_txcmdsz a + 8\<rparr>, mem) } })"

text \<open>Protection of the frame against collisions: \<open>NONE_VCS\<close> 0, \<open>RTS_CTS\<close> 1, \<open>CTS_TO_SELF\<close> 2.\<close>

definition update_attrib_vcs_info :: "adapter \<Rightarrow> tx_attrib \<Rightarrow> tx_attrib" where
  "update_attrib_vcs_info ad a =
     (let sz = (if nr_frags a \<noteq> 1 then xmit_frag_len ad else last_txcmdsz a);
          mode =
            (if cur_wireless_mode ad < 8 \<or> wifi_spec ad then
               (if rts_thresh ad < sz then 1 else if rtsen a then 1 else if cts2self a then 2 else 0)
             else if assoc_AP_vendor ad = 5 \<and> ampdu_en a \<and> dot11PrivacyAlgrthm (security ad) = ucast AES then 2
             else if rtsen a then 1
             else if cts2self a then 2
             else if ht_en a \<and> (cur_bwmode ad \<noteq> 0 \<and> (HT_protection ad = 2 \<or> HT_protection ad = 3)
                 \<or> cur_bwmode ad = 0 \<and> HT_protection ad = 3) then 1
             else if rts_thresh ad < sz then 1 else 0)
      in a\<lparr>vcs_mode := (if driver_vcs_en ad = 1 then driver_vcs_type ad else mode)\<rparr>)"

text \<open>\<open>w\<close> tells whether \<open>CONFIG_IEEE80211W\<close> is compiled in, \<open>buf_addr\<close> is \<^term>\<open>None\<close> for a null \<open>buf_addr\<close>. The result
  has the return value, the buffer, the attributes and the adapter.\<close>

definition rtw_xmitframe_coalesce ::
  "bool \<Rightarrow> adapter \<Rightarrow> nat \<Rightarrow> int \<Rightarrow> bytes \<Rightarrow> tx_attrib \<Rightarrow> bytes option
    \<Rightarrow> (bool \<times> bytes option \<times> tx_attrib \<times> adapter) option" where
  "rtw_xmitframe_coalesce w ad base pkt_offset skb a buf_addr =
     (case buf_addr of None \<Rightarrow> Some (False, None, a, ad)
      | Some mem \<Rightarrow> do {
          let hw = hw_hdr_offset pkt_offset;
          (ok, hdr, a, ad) \<leftarrow> rtw_make_wlanhdr ad a;
          mem \<leftarrow> wrn mem hw hdr;
          if \<not> ok then Some (False, Some mem, a, ad)
          else do {
            let (_, _, pf) = rtw_pktfile_read (rtw_open_pktfile skb) (pkt_hdrlen a);
            (mem, a) \<leftarrow> coalesce_loop (int (xmit_frag_len ad) - 4) hw base a 0 hw pf mem;
            (ok, a, mem) \<leftarrow> xmitframe_addmic (security ad) base hw (xmit_frag_len ad) a mem;
            if \<not> ok then Some (False, Some mem, a, ad)
            else do {
              (mem, sec) \<leftarrow> xmitframe_swencrypt w (security ad) base pkt_offset (xmit_frag_len ad) a mem;
              let ad = ad\<lparr>security := sec\<rparr>;
              let a = (if IS_MCAST (attrib_ra a) then a\<lparr>vcs_mode := 0\<rparr> else update_attrib_vcs_info ad a);
              Some (True, Some mem, a, ad) } } })"

section \<open>The header that is sent\<close>

lemma rmw16_append [mem_simps]:
  "i = length p \<Longrightarrow> rmw16 (p @ [x, y] @ s) i f = Some (p @ le16_bytes (f (bytes_le16 x y)) @ s)"
  by (simp add: rmw16_def rdn_def wrn_def le16_bytes_def)

text \<open>Header of a data frame: type, flags, addresses, sequence control and what follows it.\<close>

definition wlan_header :: "u16 \<Rightarrow> bytes \<Rightarrow> bytes \<Rightarrow> bytes \<Rightarrow> u16 \<Rightarrow> bytes \<Rightarrow> bytes" where
  "wlan_header fc a1 a2 a3 sc qc = le16_bytes fc @ [0, 0] @ a1 @ a2 @ a3 @ le16_bytes sc @ qc"

lemma length_wlan_header [simp]:
  "length (wlan_header fc a1 a2 a3 sc qc) = 6 + length a1 + length a2 + length a3 + length qc"
  by (simp add: wlan_header_def le16_bytes_def)

lemma bytes_le16_bytes: "bytes_le16 (ucast v) (ucast (drop_bit 8 v)) = v"
  unfolding bytes_le16_def by (rule bit_word_eqI) (auto simp: bit_simps)

lemma le16_bytes_nth: "le16_bytes v = [x, y] \<Longrightarrow> bytes_le16 x y = v"
  by (auto simp: le16_bytes_def bytes_le16_bytes)

lemma header_fc:
  "rmw16 (wlan_header fc a1 a2 a3 sc qc) 0 f = Some (wlan_header (f fc) a1 a2 a3 sc qc)"
  using rmw16_append [of 0 "[]" "ucast fc" "ucast (drop_bit 8 fc)" _ f]
  by (simp add: wlan_header_def le16_bytes_def bytes_le16_bytes)

lemma header_sc:
  assumes "length a1 = 6" "length a2 = 6" "length a3 = 6"
  shows "rmw16 (wlan_header fc a1 a2 a3 sc qc) 22 f = Some (wlan_header fc a1 a2 a3 (f sc) qc)"
  using rmw16_append [of 22 "le16_bytes fc @ [0, 0] @ a1 @ a2 @ a3" "ucast sc" "ucast (drop_bit 8 sc)" qc f] assms
  by (simp add: wlan_header_def le16_bytes_def bytes_le16_bytes)

lemma header_qc:
  assumes "length a1 = 6" "length a2 = 6" "length a3 = 6"
  shows "rmw16 (wlan_header fc a1 a2 a3 sc (le16_bytes qc @ s)) 24 f = Some (wlan_header fc a1 a2 a3 sc (le16_bytes (f qc) @ s))"
  using rmw16_append [of 24 "le16_bytes fc @ [0, 0] @ a1 @ a2 @ a3 @ le16_bytes sc" "ucast qc" "ucast (drop_bit 8 qc)" s f] assms
  by (simp add: wlan_header_def le16_bytes_def bytes_le16_bytes)

lemma header_addrs:
  assumes "length a1 = 6" "length a2 = 6" "length a3 = 6" "length b1 = 6" "length b2 = 6" "length b3 = 6"
  shows "set_addrs (wlan_header fc a1 a2 a3 sc qc) b1 b2 b3 = Some (wlan_header fc b1 b2 b3 sc qc)"
proof -
  have "wrn (wlan_header fc a1 a2 a3 sc qc) 4 b1 = Some (wlan_header fc b1 a2 a3 sc qc)" for a2
    using wrn_append [of 4 "le16_bytes fc @ [0, 0]" b1 a1 "a2 @ a3 @ le16_bytes sc @ qc"] assms
    by (simp add: wlan_header_def le16_bytes_def)
  moreover have "wrn (wlan_header fc b1 a2 a3 sc qc) 10 b2 = Some (wlan_header fc b1 b2 a3 sc qc)"
    using wrn_append [of 10 "le16_bytes fc @ [0, 0] @ b1" b2 a2 "a3 @ le16_bytes sc @ qc"] assms
    by (simp add: wlan_header_def le16_bytes_def)
  moreover have "wrn (wlan_header fc b1 b2 a3 sc qc) 16 b3 = Some (wlan_header fc b1 b2 b3 sc qc)"
    using wrn_append [of 16 "le16_bytes fc @ [0, 0] @ b1 @ b2" b3 a3 "le16_bytes sc @ qc"] assms
    by (simp add: wlan_header_def le16_bytes_def)
  ultimately show ?thesis using assms by (simp add: set_addrs_def)
qed

text \<open>The 64 bytes the code starts from.\<close>

lemma cleared_header:
  "replicate WLANHDR_OFFSET 0 = wlan_header 0 (replicate 6 0) (replicate 6 0) (replicate 6 0) 0 (le16_bytes 0 @ replicate 38 0)"
  by (simp add: WLANHDR_OFFSET_def wlan_header_def le16_bytes_def numeral_eq_Suc)

lemmas header_ops = SetFrameSubType_def SetToDs_def SetFrDs_def SetMData_def SetPrivacy_def SetSeqNum_def
  SetPriority_def SetEOSP_def SetAckpolicy_def

definition data_fc :: "bool \<Rightarrow> tx_attrib \<Rightarrow> u16" where
  "data_fc ap a = attrib_subtype a OR (if ap then 0x200 else 0x100) OR (if encrypt a \<noteq> 0 then 0x4000 else 0)"

definition sends_qc :: "adapter \<Rightarrow> tx_attrib \<Rightarrow> bool" where
  "sends_qc ad a = (if check_fwstate (fw_state ad) WIFI_STATION_STATE then qos_opt ad else qos_en a)"

text \<open>A station or an access point, and the attributes \<open>update_attrib\<close> leaves.\<close>

definition infra_mode :: "adapter \<Rightarrow> bool" where
  "infra_mode ad \<longleftrightarrow> (check_fwstate (fw_state ad) WIFI_STATION_STATE \<or> check_fwstate (fw_state ad) WIFI_AP_STATE)
     \<and> length (mybssid ad) = 6 \<and> length (myhwaddr ad) = 6"

definition data_attrib :: "adapter \<Rightarrow> tx_attrib \<Rightarrow> bool" where
  "data_attrib ad a \<longleftrightarrow> \<not> mdata a \<and> eosp a = 0 \<and> ack_policy a = 0 \<and> tx_priority a < 8
     \<and> length (attrib_dst a) = 6 \<and> length (attrib_src a) = 6 \<and> length (attrib_ta a) = 6
     \<and> hdrlen a = (if sends_qc ad a then 26 else 24)
     \<and> attrib_subtype a = (if sends_qc ad a then WIFI_QOS_DATA_TYPE else WIFI_DATA_TYPE)"

definition sent_header :: "adapter \<Rightarrow> tx_attrib \<Rightarrow> bytes" where
  "sent_header ad a =
     (let st = check_fwstate (fw_state ad) WIFI_STATION_STATE
      in wlan_header (data_fc (\<not> st) a)
        (if st then mybssid ad else attrib_dst a) (if st then attrib_ta a else mybssid ad)
        (if st then attrib_dst a else attrib_src a)
        (push_bit 4 (seqnum a)) (if sends_qc ad a then [tx_priority a, 0] else []))"

lemma check_BA_start_attrib:
  "check_BA_start p a = Some (a', p') \<Longrightarrow> a' = a\<lparr>ampdu_en := ampdu_en a'\<rparr>"
  by (auto simp: check_BA_start_def Let_def split: if_split_asm bind_splits)

lemma tx_sequence_seqnum:
  assumes "tx_sequence p a = Some (a', p')"
  shows "a' = a\<lparr>seqnum := (txseq_tid p ! unat (tx_priority a) + 1) AND 0xFFF, ampdu_en := ampdu_en a'\<rparr>"
  using assms
  by (auto simp: tx_sequence_def next_seqnum_def Let_def rd_Some_iff split: bind_splits dest: check_BA_start_attrib)

lemma and_FFF: "(x :: u16) AND 0xFFF < 4096"
  by (simp add: word_less_alt uint_and_fff)

lemma sc_value: "(0xFFF0 :: u16) AND push_bit 4 x = push_bit 4 x"
proof -
  have "(0xFFF0 :: u16) = push_bit 4 (mask 12)" by code_simp
  then show ?thesis
    by (simp only: push_bit_and [symmetric], subst and.commute) (simp only: take_bit_eq_mask [symmetric] push_bit_take_bit, rule bit_word_eqI,
      simp only: bit_take_bit_iff, simp)
qed

lemma below_8:
  assumes "(x :: u8) < 8"
  shows "x \<in> {0, 1, 2, 3, 4, 5, 6, 7}"
proof -
  have "unat x < 8" using assms by (simp add: word_less_nat_alt)
  then have "unat x = 0 \<or> unat x = 1 \<or> unat x = 2 \<or> unat x = 3 \<or> unat x = 4 \<or> unat x = 5 \<or> unat x = 6 \<or> unat x = 7"
    by arith
  then show ?thesis by (auto simp: word_unat_eq_iff)
qed

lemma qc_value: "(x :: u8) < 8 \<Longrightarrow> ucast x AND 0xF = (ucast x :: u16)" "x < 8 \<Longrightarrow> le16_bytes (ucast x) = [x, 0]"
  by (drule below_8, auto simp: le16_bytes_def)+

lemma wlanhdr_flags_ok:
  assumes d: "data_attrib ad a" and l: "length a1 = 6" "length a2 = 6" "length a3 = 6"
  shows "wlanhdr_flags a (sends_qc ad a) (wlan_header fc a1 a2 a3 0 (le16_bytes 0 @ s))
    = Some (wlan_header (fc OR (if encrypt a \<noteq> 0 then 0x4000 else 0)) a1 a2 a3 0
        ((if sends_qc ad a then [tx_priority a, 0] else le16_bytes 0) @ s))"
proof -
  have p: "tx_priority a < 8" using d by (simp add: data_attrib_def)
  have z: "le16_bytes (0 :: u16) = [0, 0]" by (simp add: le16_bytes_def)
  have "rmw16 (wlan_header f a1 a2 a3 0 (0 # 0 # s)) 24 g = Some (wlan_header f a1 a2 a3 0 (le16_bytes (g 0) @ s))" for f g
    using header_qc [OF l, of f 0 0 s g] by (simp add: z)
  moreover have "rmw16 (wlan_header f a1 a2 a3 0 (tx_priority a # 0 # s)) 24 (\<lambda>qc. qc)
      = Some (wlan_header f a1 a2 a3 0 (tx_priority a # 0 # s))" for f
    using header_qc [OF l, of f 0 "ucast (tx_priority a)" s "\<lambda>qc. qc"] by (simp add: qc_value [OF p])
  ultimately show ?thesis using d
    by (simp add: wlanhdr_flags_def data_attrib_def header_ops header_fc Let_def z qc_value [OF p])
qed

lemma wlanhdr_mode_ok:
  assumes m: "infra_mode ad" and d: "data_attrib ad a" and l: "length z = 6"
  shows "wlanhdr_mode ad a (wlan_header fc z z z 0 s) =
    (let st = check_fwstate (fw_state ad) WIFI_STATION_STATE
     in Some (Some (wlan_header (fc OR (if \<not> st then 0x200 else 0x100))
        (if st then mybssid ad else attrib_dst a) (if st then attrib_ta a else mybssid ad)
        (if st then attrib_dst a else attrib_src a) 0 s, sends_qc ad a)))"
proof -
  have "length (attrib_dst a) = 6" "length (attrib_src a) = 6" "length (attrib_ta a) = 6"
    using d by (simp_all add: data_attrib_def)
  then show ?thesis using m header_addrs [OF l l l]
    by (cases "check_fwstate (fw_state ad) WIFI_STATION_STATE")
      (simp_all add: wlanhdr_mode_def infra_mode_def header_ops header_fc sends_qc_def Let_def)
qed

lemma make_wlanhdr_ok:
  assumes m: "infra_mode ad" and d: "data_attrib ad a" and r: "rtw_make_wlanhdr ad a = Some (True, hdr, a', ad')"
  shows "(\<exists>rest. hdr = sent_header ad a' @ rest) \<and> length hdr = 64
    \<and> a' = a\<lparr>seqnum := seqnum a', ampdu_en := ampdu_en a'\<rparr> \<and> seqnum a' < 4096
    \<and> ad' = ad\<lparr>peers := peers ad'\<rparr> \<and> length (sent_header ad a') = hdrlen a"
proof -
  define st where "st = check_fwstate (fw_state ad) WIFI_STATION_STATE"
  define a1 where "a1 = (if st then mybssid ad else attrib_dst a)"
  define a2 where "a2 = (if st then attrib_ta a else mybssid ad)"
  define a3 where "a3 = (if st then attrib_dst a else attrib_src a)"
  define qc where "qc = (if sends_qc ad a then [tx_priority a, 0] else le16_bytes 0) @ replicate 38 (0 :: u8)"
  have l: "length a1 = 6" "length a2 = 6" "length a3 = 6"
    using m d by (simp_all add: infra_mode_def data_attrib_def a1_def a2_def a3_def)
  have sub: "attrib_subtype a AND WIFI_DATA_TYPE \<noteq> 0"
    using d by (simp add: data_attrib_def WIFI_DATA_TYPE_def WIFI_QOS_DATA_TYPE_def)
  have 1: "SetFrameSubType (replicate WLANHDR_OFFSET 0) 0 (attrib_subtype a)
      = Some (wlan_header (attrib_subtype a) (replicate 6 0) (replicate 6 0) (replicate 6 0) 0 (le16_bytes 0 @ replicate 38 0))"
    by (simp add: SetFrameSubType_def cleared_header header_fc)
  have 2: "wlanhdr_mode ad a (wlan_header (attrib_subtype a) (replicate 6 0) (replicate 6 0) (replicate 6 0) 0 s) =
    Some (Some (wlan_header (attrib_subtype a OR (if \<not> st then 0x200 else 0x100)) a1 a2 a3 0 s, sends_qc ad a))" for s
    using wlanhdr_mode_ok [OF m d, of "replicate 6 0"] by (simp add: st_def a1_def a2_def a3_def Let_def)
  have 3: "wlanhdr_flags a (sends_qc ad a) (wlan_header (attrib_subtype a OR (if \<not> st then 0x200 else 0x100)) a1 a2 a3 0
      (le16_bytes 0 @ replicate 38 0)) = Some (wlan_header (data_fc (\<not> st) a) a1 a2 a3 0 qc)"
    by (simp only: wlanhdr_flags_ok [OF d l] data_fc_def qc_def or.assoc)
  obtain i p where ip: "rtw_get_stainfo (stapriv ad) (Some (attrib_ra a)) = Some i"
      "tx_sequence (peers ad ! i) a = Some (a', p)" "ad' = ad\<lparr>peers := (peers ad)[i := p]\<rparr>"
      "SetSeqNum (wlan_header (data_fc (\<not> st) a) a1 a2 a3 0 qc) 0 (seqnum a') = Some hdr"
    using r sub by (auto simp: rtw_make_wlanhdr_def 1 2 3 Let_def split: if_split_asm option.splits bind_splits)
  have hdr: "hdr = wlan_header (data_fc (\<not> st) a) a1 a2 a3 (push_bit 4 (seqnum a')) qc"
    using ip(4) header_sc [OF l] by (simp add: SetSeqNum_def sc_value)
  have a': "a' = a\<lparr>seqnum := (txseq_tid (peers ad ! i) ! unat (tx_priority a) + 1) AND 0xFFF, ampdu_en := ampdu_en a'\<rparr>"
    by (rule tx_sequence_seqnum [OF ip(2)])
  define sn where "sn = (txseq_tid (peers ad ! i) ! unat (tx_priority a) + 1) AND 0xFFF"
  have s: "seqnum a' = sn" by (subst a') (simp add: sn_def)
  have sel: "encrypt a' = encrypt a" "attrib_subtype a' = attrib_subtype a" "attrib_dst a' = attrib_dst a"
    "attrib_src a' = attrib_src a" "attrib_ta a' = attrib_ta a" "qos_en a' = qos_en a" "tx_priority a' = tx_priority a"
    by (subst a', simp)+
  have sent: "sent_header ad a' = wlan_header (data_fc (\<not> st) a) a1 a2 a3 (push_bit 4 sn)
      (if sends_qc ad a then [tx_priority a, 0] else [])"
    by (simp add: sent_header_def Let_def st_def [symmetric] data_fc_def sends_qc_def sel s a1_def a2_def a3_def)
  have "\<exists>rest. hdr = sent_header ad a' @ rest"
    by (simp add: hdr sent qc_def wlan_header_def s)
  moreover have "length hdr = 64" by (simp add: hdr qc_def l le16_bytes_def)
  moreover have "length (sent_header ad a') = hdrlen a" using d by (simp add: sent l data_attrib_def)
  moreover have "a' = a\<lparr>seqnum := seqnum a', ampdu_en := ampdu_en a'\<rparr>" using a' s sn_def by simp
  moreover have "ad' = ad\<lparr>peers := peers ad'\<rparr>" using ip(3) by simp
  moreover have "seqnum a' < 4096" by (simp add: s sn_def and_FFF)
  ultimately show ?thesis by blast
qed

section \<open>A packet in one fragment\<close>

lemma wrn_room [mem_simps]:
  "i = length p \<Longrightarrow> length xs \<le> length r \<Longrightarrow> wrn (p @ r) i xs = Some (p @ xs @ drop (length xs) r)"
  by (simp add: wrn_def)

lemma mfrag_at:
  assumes "i = length p"
  shows "SetMFrag (p @ wlan_header fc a1 a2 a3 sc qc @ s) i = Some (p @ wlan_header (fc OR 0x400) a1 a2 a3 sc qc @ s)"
    "ClearMFrag (p @ wlan_header fc a1 a2 a3 sc qc @ s) i = Some (p @ wlan_header (fc AND NOT 0x400) a1 a2 a3 sc qc @ s)"
  using assms rmw16_append [of i p "ucast fc" "ucast (drop_bit 8 fc)" _ "_"]
  by (simp_all add: SetMFrag_def ClearMFrag_def wlan_header_def bytes_le16_bytes le16_bytes_def)

lemma data_fc_mfrag:
  assumes "data_attrib ad a"
  shows "(data_fc ap a OR 0x400) AND NOT 0x400 = data_fc ap a"
  using assms by (auto simp: data_attrib_def data_fc_def WIFI_DATA_TYPE_def WIFI_QOS_DATA_TYPE_def)

text \<open>The packet bytes are read in one go when they fit.\<close>

lemma read_rest:
  assumes "pf = snd (snd (rtw_pktfile_read (rtw_open_pktfile (eth @ pl)) (length eth)))"
  shows "length pl \<le> n \<Longrightarrow> rtw_pktfile_read pf n = (pl, length pl, pf\<lparr>cur_addr := length eth + length pl, pkt_len := 0\<rparr>)"
  using assms by (simp add: rtw_pktfile_read_def rtw_open_pktfile_def rtw_remainder_len_def Let_def)

text \<open>Room for packet bytes in the first fragment.\<close>

definition first_room :: "int \<Rightarrow> tx_attrib \<Rightarrow> int" where
  "first_room frg_len a = frg_len - int (hdrlen a) - int (iv_len a) - 8 - (if bswenc a then int (icv_len a) else 0)"

definition one_fragment :: "int \<Rightarrow> tx_attrib \<Rightarrow> nat \<Rightarrow> bool" where
  "one_fragment frg_len a n \<longleftrightarrow> (if IS_MCAST (attrib_ra a) then n \<le> pktlen a
     else int n \<le> first_room frg_len a) \<and> first_room frg_len a < 2 ^ 32"

definition sw_icv :: "tx_attrib \<Rightarrow> bytes" where
  "sw_icv a = (if bswenc a then take (icv_len a) (attrib_icv a) else [])"

definition iv_of :: "tx_attrib \<Rightarrow> bytes" where
  "iv_of a = take (iv_len a) (attrib_iv a)"

definition wf_iv :: "tx_attrib \<Rightarrow> bool" where
  "wf_iv a \<longleftrightarrow> iv_len a \<le> length (attrib_iv a) \<and> icv_len a \<le> length (attrib_icv a)"

lemma length_put_snap [simp]: "length (rtw_put_snap p) = 8"
  by (simp add: rtw_put_snap_def)

lemma coalesce_one:
  assumes a: "wf_iv a" "one_fragment frg_len a (length pl)"
    and pf: "pf = snd (snd (rtw_pktfile_read (rtw_open_pktfile (eth @ pl)) (length eth)))"
    and h: "length a1 = 6" "length a2 = 6" "length a3 = 6" "hdrlen a = 24 + length qc" "hw = length pre"
    and r: "iv_len a + 8 + length pl + length (sw_icv a) \<le> length R"
  shows "coalesce_loop frg_len hw base a 0 hw pf (pre @ wlan_header fc a1 a2 a3 sc qc @ R)
    = Some (pre @ wlan_header ((fc OR 0x400) AND NOT 0x400) a1 a2 a3 sc qc @ iv_of a @ rtw_put_snap (ether_type a)
        @ pl @ sw_icv a @ drop (iv_len a + 8 + length pl + length (sw_icv a)) R,
      a\<lparr>nr_frags := 1, last_txcmdsz := hdrlen a + iv_len a + 8 + (if bswenc a then icv_len a else 0) + length pl\<rparr>)"
proof -
  define H where "H = wlan_header (fc OR 0x400) a1 a2 a3 sc qc"
  have H: "length H = hdrlen a" using h by (simp add: H_def)
  have iv: "length (iv_of a) = iv_len a" "take (iv_len a) (attrib_iv a) = iv_of a" using a(1) by (simp_all add: wf_iv_def iv_of_def)
  have n: "length pl \<le> (if IS_MCAST (attrib_ra a) then pktlen a else nat ((first_room frg_len a) mod 2 ^ 32))"
    using a(2) by (auto simp: one_fragment_def)
  note rd = read_rest [OF pf n]
  have icv: "take (length (sw_icv a)) (attrib_icv a) = sw_icv a"
    "(if 0 < icv_len a \<and> bswenc a then icv_len a else 0) = length (sw_icv a)"
    using a(1) by (auto simp: sw_icv_def wf_iv_def)
  have fr: "frg_len - int (hdrlen a) - int (iv_len a) - int 8 - int (length (sw_icv a)) = first_room frg_len a"
    using a(1) by (auto simp: sw_icv_def wf_iv_def first_room_def)
  have 1: "SetMFrag (pre @ wlan_header fc a1 a2 a3 sc qc @ R) hw = Some (pre @ H @ R)"
    using h(5) by (simp add: mfrag_at H_def)
  have 2: "(if iv_len a \<noteq> 0 then wrn (pre @ H @ R) (hw + hdrlen a) (take (iv_len a) (attrib_iv a)) else Some (pre @ H @ R))
      = Some (pre @ H @ iv_of a @ drop (iv_len a) R)"
    using wrn_room [of "hw + hdrlen a" "pre @ H" "iv_of a" R] h(5) H iv r by auto
  have 3: "wrn (pre @ H @ iv_of a @ drop (iv_len a) R) (hw + hdrlen a + iv_len a) (rtw_put_snap (ether_type a))
      = Some (pre @ H @ iv_of a @ rtw_put_snap (ether_type a) @ drop (iv_len a + 8) R)"
    using wrn_room [of "hw + hdrlen a + iv_len a" "pre @ H @ iv_of a" "rtw_put_snap (ether_type a)" "drop (iv_len a) R"]
      h(5) H iv r by (simp add: add.commute)
  have 4: "wrn (pre @ H @ iv_of a @ rtw_put_snap (ether_type a) @ drop (iv_len a + 8) R) (hw + hdrlen a + iv_len a + 8) pl
      = Some (pre @ H @ iv_of a @ rtw_put_snap (ether_type a) @ pl @ drop (iv_len a + 8 + length pl) R)"
    using wrn_room [of "hw + hdrlen a + iv_len a + 8" "pre @ H @ iv_of a @ rtw_put_snap (ether_type a)" pl "drop (iv_len a + 8) R"]
      h(5) H iv r by (simp add: ac_simps)
  have 5: "wrn (pre @ H @ iv_of a @ rtw_put_snap (ether_type a) @ pl @ drop (iv_len a + 8 + length pl) R)
        (hw + hdrlen a + iv_len a + 8 + length pl) (sw_icv a)
      = Some (pre @ H @ iv_of a @ rtw_put_snap (ether_type a) @ pl @ sw_icv a
          @ drop (iv_len a + 8 + length pl + length (sw_icv a)) R)"
    using wrn_room [of "hw + hdrlen a + iv_len a + 8 + length pl" "pre @ H @ iv_of a @ rtw_put_snap (ether_type a) @ pl"
        "sw_icv a" "drop (iv_len a + 8 + length pl) R"] h(5) H iv r by (simp add: ac_simps)
  have frag: "coalesce_frag frg_len a 0 hw pf (pre @ wlan_header fc a1 a2 a3 sc qc @ R)
    = Some (pre @ H @ iv_of a @ rtw_put_snap (ether_type a) @ pl @ sw_icv a
          @ drop (iv_len a + 8 + length pl + length (sw_icv a)) R,
        pf\<lparr>cur_addr := length eth + length pl, pkt_len := 0\<rparr>, 8, length pl,
        hw + hdrlen a + iv_len a + 8 + length pl + length (sw_icv a))"
    unfolding coalesce_frag_def icv(2) by (simp only: Let_def bind.simps 1 2 if_True refl 3 icv fr rd prod.case 4 5)
  show ?thesis
    by (subst coalesce_loop.simps) (simp add: frag [unfolded h(5)] rtw_endofpktfile_def H_def mfrag_at h(5))
qed

section \<open>Protection of a frame in one fragment\<close>

lemma length_secgetmic [simp]: "length (fst (rtw_secgetmic m)) = 8"
  by (simp add: rtw_secgetmic_def secmicputuint32_def Let_def numeral_eq_Suc)

text \<open>The addresses the code is computed over, for a header of three addresses.\<close>

definition three_address :: "bytes \<Rightarrow> bool" where
  "three_address hdr \<longleftrightarrow> 24 \<le> length hdr \<and> \<not> (hdr ! 1 AND 1 \<noteq> 0 \<and> hdr ! 1 AND 2 \<noteq> 0)"

lemma addmic_addrs_header:
  assumes h: "three_address hdr" and p: "i = length p"
  shows "addmic_addrs (p @ hdr @ s) i m = Some (rtw_secmicappend
    (take 6 (drop (if hdr ! 1 AND 1 = 0 \<and> hdr ! 1 AND 2 \<noteq> 0 then 16 else 10) hdr))
    (rtw_secmicappend (take 6 (drop (if hdr ! 1 AND 1 \<noteq> 0 then 16 else 4) hdr)) m))"
proof -
  have r: "rdn (p @ hdr @ s) (length p + k) 6 = Some (take 6 (drop k hdr))" if "k + 6 \<le> length hdr" for k
    using that by (simp add: rdn_def)
  have "rd (p @ hdr @ s) (Suc (length p)) = Some (hdr ! 1)"
    using h by (simp add: rd_def nth_append three_address_def)
  then show ?thesis using h r [of 4] r [of 10] r [of 16]
    by (cases "hdr ! 1 AND 1 = 0"; cases "hdr ! 1 AND 2 = 0") (simp_all add: addmic_addrs_def three_address_def p)
qed

text \<open>The code for the header and the data, as the receiver computes it.\<close>

lemma mic_by_header:
  assumes h: "three_address hdr"
    and m: "addmic_addrs (p @ hdr @ s) (length p) (rtw_secmicsetkey \<lparr>K0 = 0, K1 = 0, mL = 0, mR = 0, mM = 0, nBytesInM = 0\<rparr> key) = Some m"
  shows "fst (rtw_secgetmic (rtw_secmicappend data (rtw_secmicappend [pri, 0, 0, 0] m))) = rtw_seccalctkipmic key (hdr @ t) data pri"
  using m h by (cases "hdr ! 1 AND 1 = 0"; cases "hdr ! 1 AND 2 = 0")
    (auto simp: addmic_addrs_header rtw_seccalctkipmic_def Let_def three_address_def nth_append)

lemma addmic_one:
  assumes a: "encrypt a = TKIP" "nr_frags a = 1" "last_txcmdsz a = hdrlen a + iv_len a + length m + (if bswenc a then icv_len a else 0)"
    and h: "three_address hdr" "length hdr = hdrlen a" "length iv = iv_len a" "8 \<le> length r"
    and al: "(base + length pre) mod 4 = 0"
    and key: "\<not> IS_MCAST (attrib_ra a)" "attrib_tkiptxmickey a \<noteq> replicate 16 0" "length (attrib_tkiptxmickey a) = 16"
  shows "xmitframe_addmic sec base (length pre) frag_len a (pre @ hdr @ iv @ m @ r)
    = Some (True, a\<lparr>last_txcmdsz := last_txcmdsz a + 8\<rparr>, pre @ hdr @ iv @ m
        @ rtw_seccalctkipmic (attrib_tkiptxmickey a) (hdr @ t) m (if qos_en a then tx_priority a else 0) @ drop 8 r)"
proof -
  have rnd: "RND4 (base + length pre) - base = length pre" using al by (auto simp: RND4_def)
  have data: "rdz (pre @ hdr @ iv @ m @ r) (length pre + hdrlen a + iv_len a) (int (length m)) = Some m"
    using rdz_append [of "length pre + hdrlen a + iv_len a" "pre @ hdr @ iv" "int (length m)" m r] h(2,3) by simp
  obtain m0 where m0: "addmic_addrs (pre @ hdr @ iv @ m @ r) (length pre)
      (rtw_secmicsetkey \<lparr>K0 = 0, K1 = 0, mL = 0, mR = 0, mM = 0, nBytesInM = 0\<rparr> (attrib_tkiptxmickey a)) = Some m0"
    using addmic_addrs_header [OF h(1) refl, of pre "iv @ m @ r"] by simp
  have wr: "wrn (pre @ hdr @ iv @ m @ r) (length pre + hdrlen a + iv_len a + length m) c = Some (pre @ hdr @ iv @ m @ c @ drop 8 r)"
    if "length c = 8" for c
    using wrn_room [of "length pre + hdrlen a + iv_len a + length m" "pre @ hdr @ iv @ m" c r] h that by simp
  show ?thesis using a(1) key m0 mic_by_header [OF h(1) m0, of m _ t]
    by (simp add: xmitframe_addmic_def a(2,3) rnd data wr Let_def)
qed

lemma sent_header_shape:
  assumes m: "infra_mode ad" and d: "data_attrib ad a"
  shows "length (sent_header ad a) = hdrlen a" "ccmp_header (sent_header ad a)" "three_address (sent_header ad a)"
    "hdr_qc (sent_header ad a) = sends_qc ad a"
proof -
  show l: "length (sent_header ad a) = hdrlen a"
    using m d by (simp add: sent_header_def infra_mode_def data_attrib_def Let_def)
  have n: "bytes_le16 (sent_header ad a ! 0) (sent_header ad a ! 1) = data_fc (\<not> check_fwstate (fw_state ad) WIFI_STATION_STATE) a"
    "sent_header ad a ! 1 = ucast (drop_bit 8 (data_fc (\<not> check_fwstate (fw_state ad) WIFI_STATION_STATE) a))"
    by (simp_all add: sent_header_def wlan_header_def Let_def le16_bytes_def bytes_le16_bytes)
  have t: "hdr_ft (sent_header ad a) = 8" "hdr_fst (sent_header ad a) = (if sends_qc ad a then 8 else 0)"
    using d unfolding hdr_ft_def hdr_fst_def n(1)
    by (auto simp: data_fc_def data_attrib_def WIFI_DATA_TYPE_def WIFI_QOS_DATA_TYPE_def)
  show q: "hdr_qc (sent_header ad a) = sends_qc ad a"
    using d unfolding hdr_qc_def t l
    by (simp add: data_attrib_def ccmp_classify_def WIFI_DATA_def WIFI_DATA_CFACK_def WIFI_DATA_CFPOLL_def WIFI_DATA_CFACKPOLL_def)
  have "\<not> hdr_a4 (sent_header ad a)"
    using d unfolding hdr_a4_def t l
    by (simp add: data_attrib_def ccmp_classify_def WIFI_DATA_def WIFI_DATA_CFACK_def WIFI_DATA_CFPOLL_def WIFI_DATA_CFACKPOLL_def
      WLAN_HDR_A3_LEN_def WLAN_HDR_A3_QOS_LEN_def)
  then show "ccmp_header (sent_header ad a)"
    using d by (simp add: ccmp_header_def l q data_attrib_def)
  show "three_address (sent_header ad a)"
    using d unfolding three_address_def l n(2)
    by (auto simp: data_fc_def data_attrib_def WIFI_DATA_TYPE_def WIFI_QOS_DATA_TYPE_def)
qed

text \<open>The software encryption of one fragment.\<close>

lemma swencrypt_aes:
  assumes f: "tx_frame a hdr iv m" and l: "length iv = 8" "length room = 8" "icv_len a = 8" "ccmp_header hdr" "length m < 2 ^ 32"
    and a: "encrypt a = AES" "bswenc a" "\<not> IS_MCAST (attrib_ra a)" "hw_hdr_offset pkt_offset = length pre"
  shows "\<exists>sec'. xmitframe_swencrypt w sec base pkt_offset frag_len a (pre @ hdr @ iv @ m @ room @ s)
    = Some (pre @ hdr @ iv @ ccm_encrypt (aes128k128d (attrib_UncstKey a)) (ccmp_nonce w hdr iv) (ccmp_aad w hdr) m @ s, sec')"
proof -
  have h: "length hdr = hdrlen a" using f by (simp add: tx_frame_def)
  have "aes_encrypt_frag w (attrib_UncstKey a) a (length pre) (int (length m)) (pre @ hdr @ iv @ m @ room @ s)
      = Some (pre @ hdr @ iv @ ccm_encrypt (aes128k128d (attrib_UncstKey a)) (ccmp_nonce w hdr iv) (ccmp_aad w hdr) m @ s)"
    using aes_cipher_ccm [OF l(4,1,2), of "of_nat (length m)" m w "attrib_UncstKey a" s] l(5)
    by (simp add: aes_encrypt_frag_def h unat_of_nat take_bit_eq_mod)
  then show ?thesis
    using a frag_loop_one [OF f] by (simp add: xmitframe_swencrypt_def rtw_aes_encrypt_def tx_key_def AES_def WEP40_def WEP104_def TKIP_def)
qed

lemma swencrypt_tkip:
  assumes f: "tx_frame a hdr iv m" and l: "length iv = 8" "length room = 4"
    and a: "encrypt a = TKIP" "bswenc a" "\<not> IS_MCAST (attrib_ra a)" "hw_hdr_offset pkt_offset = length pre"
  shows "\<exists>sec'. xmitframe_swencrypt w sec base pkt_offset frag_len a (pre @ hdr @ iv @ m @ room @ s)
    = Some (pre @ hdr @ iv @ rc4_cipher (tkip_rc4key (attrib_UncstKey a) (attrib_ta a) iv) 16 (m @ getcrc32 m) @ s, sec')"
  using a tkip_encrypt_cipher [OF f l a(1,4), of sec "attrib_UncstKey a" base frag_len s]
  by (auto simp: xmitframe_swencrypt_def tx_key_def WEP40_def WEP104_def TKIP_def)

section \<open>The frame that is sent\<close>

text \<open>A unicast packet, with keys: no encryption, TKIP or CCMP in software.\<close>

definition sw_cipher :: "tx_attrib \<Rightarrow> bool" where
  "sw_cipher a \<longleftrightarrow> encrypt a = 0 \<and> \<not> bswenc a \<and> iv_len a = 0 \<and> icv_len a = 0
     \<or> encrypt a = TKIP \<and> bswenc a \<and> iv_len a = 8 \<and> icv_len a = 4
        \<and> length (attrib_tkiptxmickey a) = 16 \<and> attrib_tkiptxmickey a \<noteq> replicate 16 0
     \<or> encrypt a = AES \<and> bswenc a \<and> iv_len a = 8 \<and> icv_len a = 8"

text \<open>Data and, for TKIP, its Michael code.\<close>

definition sent_msdu :: "bytes \<Rightarrow> tx_attrib \<Rightarrow> bytes \<Rightarrow> bytes" where
  "sent_msdu hdr a m = m @ (if encrypt a = TKIP
     then rtw_seccalctkipmic (attrib_tkiptxmickey a) hdr m (if qos_en a then tx_priority a else 0) else [])"

definition sealed :: "bool \<Rightarrow> bytes \<Rightarrow> tx_attrib \<Rightarrow> bytes \<Rightarrow> bytes" where
  "sealed w hdr a m =
     (if encrypt a = TKIP then rc4_cipher (tkip_rc4key (attrib_UncstKey a) (attrib_ta a) (iv_of a)) 16 (m @ getcrc32 m)
      else if encrypt a = AES
        then ccm_encrypt (aes128k128d (attrib_UncstKey a)) (ccmp_nonce w hdr (iv_of a)) (ccmp_aad w hdr) m
      else m)"

definition sent_frame :: "bool \<Rightarrow> adapter \<Rightarrow> tx_attrib \<Rightarrow> bytes \<Rightarrow> bytes" where
  "sent_frame w ad a pl = (let hdr = sent_header ad a
     in hdr @ iv_of a @ sealed w hdr a (sent_msdu hdr a (rtw_put_snap (ether_type a) @ pl)))"

lemma protect_one:
  assumes a: "sw_cipher a" "nr_frags a = 1" "length hdr = hdrlen a" "length (iv_of a) = iv_len a"
      "last_txcmdsz a = hdrlen a + iv_len a + length m + (if bswenc a then icv_len a else 0)"
    and h: "three_address hdr" "ccmp_header hdr" "\<not> IS_MCAST (attrib_ra a)" "length m < 2 ^ 31"
    and p: "hw_hdr_offset pkt_offset = length pre" "(base + length pre) mod 4 = 0" and r: "16 \<le> length r"
  shows "\<exists>mem a' sec' rest. xmitframe_addmic sec base (length pre) frag_len a (pre @ hdr @ iv_of a @ m @ r) = Some (True, a', mem)
    \<and> xmitframe_swencrypt w sec base pkt_offset frag_len a' mem
      = Some (pre @ hdr @ iv_of a @ sealed w hdr a (sent_msdu hdr a m) @ rest, sec')
    \<and> a' = a\<lparr>last_txcmdsz := last_txcmdsz a'\<rparr>
    \<and> last_txcmdsz a' = hdrlen a + iv_len a + length (sealed w hdr a (sent_msdu hdr a m))"
proof -
  consider (none) "encrypt a = 0" "\<not> bswenc a" | (tkip) "encrypt a = TKIP" "bswenc a" "iv_len a = 8" "icv_len a = 4"
      "length (attrib_tkiptxmickey a) = 16" "attrib_tkiptxmickey a \<noteq> replicate 16 0"
    | (aes) "encrypt a = AES" "bswenc a" "iv_len a = 8" "icv_len a = 8"
    using a(1) by (auto simp: sw_cipher_def)
  then show ?thesis
  proof cases
    case none
    then show ?thesis using a
      by (simp add: xmitframe_addmic_def xmitframe_swencrypt_def sealed_def sent_msdu_def TKIP_def AES_def)
  next
    case tkip
    define mm where "mm = sent_msdu hdr a m"
    define a' where "a' = a\<lparr>last_txcmdsz := last_txcmdsz a + 8\<rparr>"
    have mm: "mm = m @ rtw_seccalctkipmic (attrib_tkiptxmickey a) hdr m (if qos_en a then tx_priority a else 0)"
      using tkip by (simp add: mm_def sent_msdu_def)
    then have lm: "length mm = length m + 8" by (simp add: rtw_seccalctkipmic_def Let_def)
    have 1: "xmitframe_addmic sec base (length pre) frag_len a (pre @ hdr @ iv_of a @ m @ r)
        = Some (True, a', pre @ hdr @ iv_of a @ mm @ drop 8 r)"
      using addmic_one [OF tkip(1) a(2,5) h(1) a(3,4) _ p(2) h(3) tkip(6,5), of r sec frag_len "[]"] r by (simp add: mm a'_def)
    have f: "tx_frame a' hdr (iv_of a) mm" using a tkip lm by (simp add: tx_frame_def a'_def)
    obtain sec' where 2: "xmitframe_swencrypt w sec base pkt_offset frag_len a' (pre @ hdr @ iv_of a @ mm @ take 4 (drop 8 r) @ drop 12 r)
        = Some (pre @ hdr @ iv_of a @ sealed w hdr a mm @ drop 12 r, sec')"
      using swencrypt_tkip [OF f, of "take 4 (drop 8 r)" pkt_offset pre w sec base frag_len "drop 12 r"] tkip a(4) r h(3) p(1)
      by (auto simp: a'_def sealed_def)
    have dr: "drop 8 r = take 4 (drop 8 r) @ drop 12 r" using append_take_drop_id [of 4 "drop 8 r"] by simp
    show ?thesis
      using 1 2 dr tkip a lm unfolding mm_def [symmetric]
      by (intro exI [of _ "pre @ hdr @ iv_of a @ mm @ drop 8 r"] exI [of _ a'] exI [of _ sec'] exI [of _ "drop 12 r"])
        (simp add: a'_def sealed_def)
  next
    case aes
    have e: "sent_msdu hdr a m = m" "encrypt a \<noteq> TKIP" using aes by (simp_all add: sent_msdu_def AES_def TKIP_def)
    have f: "tx_frame a hdr (iv_of a) m" using a aes by (simp add: tx_frame_def)
    have s: "sealed w hdr a m = ccm_encrypt (aes128k128d (attrib_UncstKey a)) (ccmp_nonce w hdr (iv_of a)) (ccmp_aad w hdr) m"
      using aes(1) by (simp add: sealed_def AES_def TKIP_def)
    obtain sec' where 2: "xmitframe_swencrypt w sec base pkt_offset frag_len a (pre @ hdr @ iv_of a @ m @ take 8 r @ drop 8 r)
        = Some (pre @ hdr @ iv_of a @ sealed w hdr a m @ drop 8 r, sec')"
      using swencrypt_aes [OF f, of "take 8 r" pkt_offset pre w sec base frag_len "drop 8 r"] aes a(4) r h p(1)
      by (auto simp: s)
    have "length (sealed w hdr a m) = length m + 8"
      using h(2) by (simp add: s length_ccm_encrypt)
    then show ?thesis using 2 aes a e by (simp add: xmitframe_addmic_def)
  qed
qed

text \<open>What the sender needs: the mode and the attributes of \<open>update_attrib\<close>, a cipher, and room.\<close>

definition tx_ready :: "adapter \<Rightarrow> nat \<Rightarrow> int \<Rightarrow> bytes \<Rightarrow> tx_attrib \<Rightarrow> bytes \<Rightarrow> bytes \<Rightarrow> bool" where
  "tx_ready ad base pkt_offset pl a pre R \<longleftrightarrow> infra_mode ad \<and> data_attrib ad a \<and> sw_cipher a \<and> wf_iv a
     \<and> \<not> IS_MCAST (attrib_ra a) \<and> pkt_hdrlen a = 14
     \<and> one_fragment (int (xmit_frag_len ad) - 4) a (length pl) \<and> length pl < 2 ^ 30
     \<and> hw_hdr_offset pkt_offset = length pre \<and> (base + length pre) mod 4 = 0 \<and> 74 + length pl \<le> length R"

lemma coalesce_frame:
  assumes t: "tx_ready ad base pkt_offset pl a pre R" and e: "length eth = 14"
    and r: "rtw_make_wlanhdr ad a = Some (True, hdr, a1, ad1)"
  shows "\<exists>rest a2 ad2. rtw_xmitframe_coalesce w ad base pkt_offset (eth @ pl) a (Some (pre @ R))
      = Some (True, Some (pre @ sent_frame w ad a1 pl @ rest), a2, ad2)
    \<and> nr_frags a2 = 1 \<and> last_txcmdsz a2 = length (sent_frame w ad a1 pl)"
proof -
  have m: "infra_mode ad" and d: "data_attrib ad a" using t by (simp_all add: tx_ready_def)
  from make_wlanhdr_ok [OF m d r] obtain rest where
    hdr: "hdr = sent_header ad a1 @ rest" "length hdr = 64" and a1: "a1 = a\<lparr>seqnum := seqnum a1, ampdu_en := ampdu_en a1\<rparr>"
    and ad1: "ad1 = ad\<lparr>peers := peers ad1\<rparr>" and lh: "length (sent_header ad a1) = hdrlen a" by blast
  define R1 where "R1 = rest @ drop 64 R"
  have w: "wrn (pre @ R) (hw_hdr_offset pkt_offset) hdr = Some (pre @ sent_header ad a1 @ R1)"
    using t hdr by (simp add: tx_ready_def wrn_room R1_def)
  have sel: "hdrlen a1 = hdrlen a" "attrib_ra a1 = attrib_ra a" "iv_len a1 = iv_len a" "icv_len a1 = icv_len a"
    "bswenc a1 = bswenc a" "attrib_iv a1 = attrib_iv a" "attrib_icv a1 = attrib_icv a" "pktlen a1 = pktlen a"
    "encrypt a1 = encrypt a" "attrib_tkiptxmickey a1 = attrib_tkiptxmickey a" "pkt_hdrlen a1 = pkt_hdrlen a"
    by (subst a1, simp)+
  have d1: "data_attrib ad a1" using d by (subst a1) (simp add: data_attrib_def sends_qc_def)
  note shape = sent_header_shape [OF m d1]
  have "first_room n a1 = first_room n a" for n by (simp add: first_room_def sel)
  then have "wf_iv a1 = wf_iv a" "one_fragment n a1 k = one_fragment n a k" "sw_cipher a1 = sw_cipher a" for n k
    by (simp_all add: wf_iv_def one_fragment_def sw_cipher_def sel)
  then have wf: "wf_iv a1" "one_fragment (int (xmit_frag_len ad) - 4) a1 (length pl)" "sw_cipher a1"
    using t by (simp_all add: tx_ready_def)
  define icv where "icv = sw_icv a1"
  define k where "k = iv_len a1 + 8 + length pl + length icv"
  define m0 where "m0 = rtw_put_snap (ether_type a1) @ pl"
  have iv: "length (iv_of a1) = iv_len a1" "iv_len a1 \<le> 8" "length icv = (if bswenc a1 then icv_len a1 else 0)" "icv_len a1 \<le> 8"
    using wf(1,3) by (auto simp: wf_iv_def icv_def sw_icv_def sw_cipher_def iv_of_def)
  have hl: "hdrlen a \<le> 26" using d by (simp add: data_attrib_def)
  have "64 = hdrlen a + length rest" using hdr lh by simp
  moreover have "74 + length pl \<le> length R" using t by (simp add: tx_ready_def)
  moreover have "length R1 = length rest + (length R - 64)" by (simp add: R1_def)
  ultimately have R1: "48 + length pl \<le> length R1" using hl by arith
  have pos: "hw_hdr_offset pkt_offset = length pre" "(base + length pre) mod 4 = 0" "pkt_hdrlen a1 = length eth"
    "\<not> IS_MCAST (attrib_ra a1)" "length m0 < 2 ^ 31" using t e by (simp_all add: tx_ready_def sel m0_def)
  obtain fc x1 x2 x3 sc qc where h: "sent_header ad a1 = wlan_header fc x1 x2 x3 sc qc" "length x1 = 6" "length x2 = 6"
      "length x3 = 6" "(fc OR 0x400) AND NOT 0x400 = fc" "hdrlen a1 = 24 + length qc"
    using m d1 data_fc_mfrag [OF d1] by (auto simp: sent_header_def infra_mode_def data_attrib_def Let_def)
  have fit: "iv_len a1 + 8 + length pl + length (sw_icv a1) \<le> length R1"
    using R1 iv by (simp add: icv_def)
  define a2 where "a2 = a1\<lparr>nr_frags := 1,
    last_txcmdsz := hdrlen a1 + iv_len a1 + 8 + (if bswenc a1 then icv_len a1 else 0) + length pl\<rparr>"
  have c: "coalesce_loop (int (xmit_frag_len ad) - 4) (length pre) base a1 0 (length pre)
      (snd (snd (rtw_pktfile_read (rtw_open_pktfile (eth @ pl)) (length eth)))) (pre @ sent_header ad a1 @ R1)
    = Some (pre @ sent_header ad a1 @ iv_of a1 @ m0 @ icv @ drop k R1, a2)"
    using coalesce_one [OF wf(1,2) refl h(2-4,6) refl fit, where eth = eth and base = base and fc = fc and sc = sc and pre = pre, unfolded h(5)]
    by (simp add: h(1) m0_def icv_def k_def a2_def)
  have s2: "sent_msdu H a2 x = sent_msdu H a1 x" "sealed w H a2 x = sealed w H a1 x" "sw_cipher a2" "iv_of a2 = iv_of a1"
    "hdrlen a2 = hdrlen a1" "iv_len a2 = iv_len a1" for H x
    using wf(3) by (simp_all add: sent_msdu_def sealed_def a2_def sw_cipher_def iv_of_def)
  have "16 \<le> length (icv @ drop k R1)" using R1 iv by (simp add: k_def)
  moreover have "last_txcmdsz a2 = hdrlen a2 + iv_len a2 + length m0 + (if bswenc a2 then icv_len a2 else 0)"
    by (simp add: a2_def m0_def)
  ultimately obtain mem a' sec' tl where p: "xmitframe_addmic (security ad1) base (length pre) (xmit_frag_len ad) a2
        (pre @ sent_header ad a1 @ iv_of a1 @ m0 @ icv @ drop k R1) = Some (True, a', mem)"
      "xmitframe_swencrypt w (security ad1) base pkt_offset (xmit_frag_len ad) a' mem
        = Some (pre @ sent_header ad a1 @ iv_of a1 @ sealed w (sent_header ad a1) a1 (sent_msdu (sent_header ad a1) a1 m0) @ tl, sec')"
      "a' = a2\<lparr>last_txcmdsz := last_txcmdsz a'\<rparr>"
      "last_txcmdsz a' = hdrlen a1 + iv_len a1 + length (sealed w (sent_header ad a1) a1 (sent_msdu (sent_header ad a1) a1 m0))"
    using protect_one [of a2 "sent_header ad a1" m0 pkt_offset pre base "icv @ drop k R1" "security ad1" "xmit_frag_len ad" w]
      shape pos iv(1) s2 by (auto simp: a2_def)
  have sel': "attrib_ra a' = attrib_ra a1" "nr_frags a' = 1" by (subst p(3), simp add: a2_def)+
  have ad1': "xmit_frag_len ad1 = xmit_frag_len ad" by (subst ad1) simp
  obtain b n pf where pf: "rtw_pktfile_read (rtw_open_pktfile (eth @ pl)) (length eth) = (b, n, pf)" by (metis prod_cases3)
  show ?thesis
    using p(1,2) c w r sel' pos pf iv(1) p(4)
    by (auto simp: rtw_xmitframe_coalesce_def ad1' Let_def sent_frame_def m0_def update_attrib_vcs_info_def shape(1))
qed

section \<open>What the attributes are\<close>

text \<open>The cipher of a packet and the lengths that go with it.\<close>

definition cipher_attrib :: "tx_attrib \<Rightarrow> bool" where
  "cipher_attrib a \<longleftrightarrow> iv_len a \<le> 8 \<and> icv_len a \<le> 8 \<and> iv_len a \<le> length (attrib_iv a)
     \<and> (encrypt a = 0 \<longrightarrow> \<not> bswenc a \<and> iv_len a = 0 \<and> icv_len a = 0)
     \<and> (encrypt a = TKIP \<longrightarrow> iv_len a = 8 \<and> icv_len a = 4)
     \<and> (encrypt a = AES \<longrightarrow> iv_len a = 8 \<and> icv_len a = 8)"

lemma tx_iv_cipher:
  assumes "tx_iv sec mc p a = (True, a', p')" "8 \<le> length (attrib_iv a)"
  shows "a' = a\<lparr>iv_len := iv_len a', icv_len := icv_len a', attrib_iv := attrib_iv a', attrib_tkiptxmickey := attrib_tkiptxmickey a'\<rparr>"
    "iv_len a' \<le> 8" "icv_len a' \<le> 8" "iv_len a' \<le> length (attrib_iv a')"
    "encrypt a' = 0 \<longrightarrow> iv_len a' = 0 \<and> icv_len a' = 0" "encrypt a' = TKIP \<longrightarrow> iv_len a' = 8 \<and> icv_len a' = 4
      \<and> attrib_tkiptxmickey a' = take 16 (dot11tkiptxmickey p)"
    "encrypt a' = AES \<longrightarrow> iv_len a' = 8 \<and> icv_len a' = 8"
    "p' = p\<lparr>dot11txpn := dot11txpn p'\<rparr>"
  using assms
  by (auto simp: tx_iv_def WEP_IV_def TKIP_IV_def AES_IV_def Let_def WEP40_def WEP104_def TKIP_def AES_def
    split: if_split_asm prod.split_asm)

lemma sec_info_cipher:
  assumes "update_attrib_sec_info fw sec mid p a = (True, a', p')" "8 \<le> length (attrib_iv a)"
  shows "a' = a\<lparr>attrib_UncstKey := attrib_UncstKey a', attrib_tkiptxmickey := attrib_tkiptxmickey a', attrib_mac_id := mid,
      encrypt := encrypt a', key_idx := key_idx a', iv_len := iv_len a', icv_len := icv_len a', attrib_iv := attrib_iv a',
      bswenc := bswenc a'\<rparr>"
    "cipher_attrib a'" "0 < encrypt a' \<longrightarrow> attrib_UncstKey a' = take 16 (peer_UncstKey p)"
    "encrypt a' = TKIP \<longrightarrow> attrib_tkiptxmickey a' = take 16 (dot11tkiptxmickey p)" "p' = p\<lparr>dot11txpn := dot11txpn p'\<rparr>"
proof -
  define a0 where "a0 = a\<lparr>attrib_UncstKey := replicate 16 0, attrib_tkiptxmickey := replicate 16 0, attrib_mac_id := mid\<rparr>"
  define c where "c = (if ieee8021x_blocked p then a0\<lparr>encrypt := 0\<rparr>
    else (let enc = GET_ENCRY_ALGO sec (dot118021XPrivacy p) (IS_MCAST (attrib_ra a)) (encrypt a0);
              enc = (if (enc = WEP40 \<or> enc = WEP104) \<and> ether_type a0 = 0x888e then 0 else enc)
          in a0\<lparr>encrypt := enc, key_idx := tx_key_idx sec (IS_MCAST (attrib_ra a))\<rparr>))"
  have c: "c = a\<lparr>attrib_UncstKey := replicate 16 0, attrib_tkiptxmickey := replicate 16 0, attrib_mac_id := mid,
      encrypt := encrypt c, key_idx := key_idx c\<rparr>" "8 \<le> length (attrib_iv c)"
    using assms(2) by (simp_all add: c_def a0_def Let_def)
  obtain b where b: "tx_iv sec (IS_MCAST (attrib_ra a)) p c = (True, b, p')"
    and a': "a' = (if 0 < encrypt b then b\<lparr>attrib_UncstKey := take 16 (peer_UncstKey p')\<rparr> else b)
      \<lparr>bswenc := (encrypt b \<noteq> 0 \<and> (sw_encrypt sec \<or> \<not> hw_decrypted sec))\<rparr>"
    using assms(1) unfolding update_attrib_sec_info_def Let_def c_def a0_def
    by (auto split: if_split_asm prod.split_asm)
  note i = tx_iv_cipher [OF b c(2)]
  show "p' = p\<lparr>dot11txpn := dot11txpn p'\<rparr>" by (rule i(8))
  have k: "peer_UncstKey p' = peer_UncstKey p" by (subst i(8)) simp
  show "a' = a\<lparr>attrib_UncstKey := attrib_UncstKey a', attrib_tkiptxmickey := attrib_tkiptxmickey a', attrib_mac_id := mid,
      encrypt := encrypt a', key_idx := key_idx a', iv_len := iv_len a', icv_len := icv_len a', attrib_iv := attrib_iv a',
      bswenc := bswenc a'\<rparr>"
  proof -
    obtain e k where ce: "c = a\<lparr>attrib_UncstKey := replicate 16 0, attrib_tkiptxmickey := replicate 16 0, attrib_mac_id := mid,
        encrypt := e, key_idx := k\<rparr>" using c(1) by blast
    obtain x y z m where be: "b = c\<lparr>iv_len := x, icv_len := y, attrib_iv := z, attrib_tkiptxmickey := m\<rparr>" using i(1) by blast
    show ?thesis by (rule tx_attrib.equality) (simp_all add: a' be ce)
  qed
  show "cipher_attrib a'" using i by (auto simp: a' cipher_attrib_def)
  show "0 < encrypt a' \<longrightarrow> attrib_UncstKey a' = take 16 (peer_UncstKey p)" by (auto simp: a' k)
  show "encrypt a' = TKIP \<longrightarrow> attrib_tkiptxmickey a' = take 16 (dot11tkiptxmickey p)"
    using i(6) by (auto simp: a')
qed


text \<open>Station and access point exclude each other and the ad hoc modes.\<close>

definition one_mode :: "adapter \<Rightarrow> bool" where
  "one_mode ad \<longleftrightarrow> infra_mode ad
     \<and> check_fwstate (fw_state ad) WIFI_STATION_STATE = (\<not> check_fwstate (fw_state ad) WIFI_AP_STATE)
     \<and> \<not> check_fwstate (fw_state ad) WIFI_ADHOC_STATE \<and> \<not> check_fwstate (fw_state ad) WIFI_ADHOC_MASTER_STATE"

lemma check_fwstate_or: "check_fwstate f (a OR b) \<longleftrightarrow> check_fwstate f a \<or> check_fwstate f b"
  by (auto simp: check_fwstate_def bit_eq_iff bit_simps)

lemma set_qos_fields:
  assumes "set_qos skb a = Some a'"
  shows "a' = a\<lparr>tx_priority := tx_priority a', hdrlen := 26, attrib_subtype := WIFI_QOS_DATA_TYPE\<rparr>" "tx_priority a' < 8"
proof -
  have "drop_bit 5 (x :: u8) < 8" for x
    using unat_u8_less [of x] by (simp add: word_less_nat_alt unat_drop_bit_eq drop_bit_eq_div unat_div less_mult_imp_div_less)
  then show "a' = a\<lparr>tx_priority := tx_priority a', hdrlen := 26, attrib_subtype := WIFI_QOS_DATA_TYPE\<rparr>" "tx_priority a' < 8"
    using assms by (auto simp: set_qos_def Let_def split: bind_splits if_split_asm prod.split_asm)
qed

lemma qos_acm_less: "p < 8 \<Longrightarrow> qos_acm m p < 8"
  by (auto simp: qos_acm_def)

lemma tx_qos_fields:
  assumes "tx_qos ad skb a = Some a'" "one_mode ad" "hdrlen a = 24" "attrib_subtype a = WIFI_DATA_TYPE" "tx_priority a = 0"
  shows "a' = a\<lparr>tx_priority := tx_priority a', hdrlen := hdrlen a', attrib_subtype := attrib_subtype a'\<rparr>" "tx_priority a' < 8"
    "hdrlen a' = (if sends_qc ad a then 26 else 24)" "attrib_subtype a' = (if sends_qc ad a then WIFI_QOS_DATA_TYPE else WIFI_DATA_TYPE)"
    "\<not> sends_qc ad a \<Longrightarrow> tx_priority a' = 0"
proof -
  have m: "check_fwstate (fw_state ad) (WIFI_AP_STATE OR WIFI_ADHOC_STATE OR WIFI_ADHOC_MASTER_STATE)
      \<longleftrightarrow> \<not> check_fwstate (fw_state ad) WIFI_STATION_STATE"
    using assms(2) by (auto simp: check_fwstate_or one_mode_def)
  consider (none) "\<not> sends_qc ad a" "a' = a" | (qos) b where "sends_qc ad a" "set_qos skb a = Some b"
      "a' = b \<or> a' = b\<lparr>tx_priority := qos_acm (acm_mask ad) (tx_priority b)\<rparr>"
  proof (cases "sends_qc ad a")
    case False
    then have "tx_qos ad skb a = Some a"
      unfolding tx_qos_def m by (cases "check_fwstate (fw_state ad) WIFI_STATION_STATE") (simp_all add: sends_qc_def)
    then show ?thesis using assms(1) False none by simp
  next
    case True
    then have "tx_qos ad skb a = do { a \<leftarrow> set_qos skb a; Some (if check_fwstate (fw_state ad) WIFI_STATION_STATE \<and> acm_mask ad \<noteq> 0
        then a\<lparr>tx_priority := qos_acm (acm_mask ad) (tx_priority a)\<rparr> else a) }"
      unfolding tx_qos_def m by (cases "check_fwstate (fw_state ad) WIFI_STATION_STATE") (simp_all add: sends_qc_def)
    then show ?thesis using assms(1) True qos by (auto split: bind_splits if_split_asm)
  qed
  then have "a' = a\<lparr>tx_priority := tx_priority a', hdrlen := hdrlen a', attrib_subtype := attrib_subtype a'\<rparr> \<and> tx_priority a' < 8
    \<and> hdrlen a' = (if sends_qc ad a then 26 else 24) \<and> attrib_subtype a' = (if sends_qc ad a then WIFI_QOS_DATA_TYPE else WIFI_DATA_TYPE)
    \<and> (\<not> sends_qc ad a \<longrightarrow> tx_priority a' = 0)"
  proof cases
    case none
    then show ?thesis using assms(3-5) by simp
  next
    case qos
    obtain x where x: "b = a\<lparr>tx_priority := x, hdrlen := 26, attrib_subtype := WIFI_QOS_DATA_TYPE\<rparr>" "x < 8"
      using set_qos_fields [OF qos(2)] by blast
    show ?thesis using qos(1,3) x(2) by (auto simp: x(1) qos_acm_less)
  qed
  then show "a' = a\<lparr>tx_priority := tx_priority a', hdrlen := hdrlen a', attrib_subtype := attrib_subtype a'\<rparr>" "tx_priority a' < 8"
    "hdrlen a' = (if sends_qc ad a then 26 else 24)" "attrib_subtype a' = (if sends_qc ad a then WIFI_QOS_DATA_TYPE else WIFI_DATA_TYPE)"
    "\<not> sends_qc ad a \<Longrightarrow> tx_priority a' = 0" by blast+
qed


text \<open>The attributes of a packet that \<open>update_attrib\<close> accepts. The adapter changes in the packet number of the
  station only.\<close>

definition packet_attrib :: "adapter \<Rightarrow> bytes \<Rightarrow> bytes \<Rightarrow> u16 \<Rightarrow> nat \<Rightarrow> tx_attrib \<Rightarrow> bool" where
  "packet_attrib ad dst src ty n a \<longleftrightarrow> data_attrib ad a \<and> cipher_attrib a \<and> pkt_hdrlen a = 14 \<and> pktlen a = n
     \<and> attrib_dst a = dst \<and> attrib_src a = src \<and> ether_type a = ty \<and> (\<not> sends_qc ad a \<longrightarrow> tx_priority a = 0)
     \<and> attrib_ra a = (if check_fwstate (fw_state ad) WIFI_STATION_STATE then mybssid ad else dst)
     \<and> attrib_ta a = (if check_fwstate (fw_state ad) WIFI_STATION_STATE then myhwaddr ad else mybssid ad)
     \<and> attrib_psta a = tx_station ad a"

lemma update_attrib_ok:
  assumes m: "one_mode ad" and u: "update_attrib ad (dst @ src @ [hi, lo] @ pl) a0 = Some (True, a, cmds, ad')"
    and l: "length dst = 6" "length src = 6" "8 \<le> length (attrib_iv a0)"
  shows "packet_attrib ad dst src (bytes_le16 lo hi) (length pl) a"
    "ad' = ad\<lparr>peers := peers ad'\<rparr>" "attrib_icv a = attrib_icv a0"
    "\<exists>i. attrib_psta a = Some i \<and> (0 < encrypt a \<longrightarrow> attrib_UncstKey a = take 16 (peer_UncstKey (peers ad ! i)))
      \<and> (encrypt a = TKIP \<longrightarrow> attrib_tkiptxmickey a = take 16 (dot11tkiptxmickey (peers ad ! i)))
      \<and> qos_en a = qos_option (peers ad ! i)"
proof -
  define eth where "eth = dst @ src @ [hi, lo]"
  define ty where "ty = bytes_le16 lo hi"
  obtain pf where pf: "rtw_pktfile_read (rtw_open_pktfile (eth @ pl)) 14 = (eth, 14, pf)" "pkt_len pf = length pl"
    using l by (simp add: rtw_pktfile_read_def rtw_open_pktfile_def rtw_remainder_len_def Let_def eth_def)
  define a1 where "a1 = (tx_addresses ad (a0\<lparr>ether_type := ty, attrib_dst := dst, attrib_src := src\<rparr>))\<lparr>pktlen := pkt_len pf\<rparr>"
  have ty: "RTW_GET_BE16 eth 12 = Some ty"
    using l by (simp add: RTW_GET_BE16_def rd_def eth_def nth_append ty_def bytes_le16_def or.commute)
  have e: "take 6 eth = dst" "take 6 (drop 6 eth) = src" "dst @ src @ [hi, lo] @ pl = eth @ pl" using l by (simp_all add: eth_def)
  define B where "B i a = (let psta = peers ad ! i in
            if peer_state psta AND FW_LINKED = 0 then Some (False, a, lps_commands a, ad)
            else
              let (ok, a', psta) = update_attrib_sec_info (fw_state ad) (security ad) (mac_id (pool (stapriv ad) ! i)) psta a;
                  ad = ad\<lparr>peers := (peers ad)[i := psta]\<rparr>
              in if \<not> ok then Some (False, a', lps_commands a, ad)
              else do {
                let a' = update_attrib_phy_info (cur_bwmode ad) (driver_ampdu_spacing ad) psta a';
                let a' = a'\<lparr>attrib_psta := Some i, pctrl := False, ack_policy := 0, pkt_hdrlen := 14, hdrlen := 24,
                  attrib_subtype := WIFI_DATA_TYPE, tx_priority := 0\<rparr>;
                a' \<leftarrow> tx_qos ad (eth @ pl) a';
                Some (True, a', lps_commands a, ad) })" for i a
  have "do { a \<leftarrow> (if ty = 0x0800 then ip_packet pf a1 else Some a1);
      case tx_station ad a of None \<Rightarrow> Some (False, a, lps_commands a, ad) | Some i \<Rightarrow> B i a } = Some (True, a, cmds, ad')"
    using u unfolding e(3) update_attrib_def B_def a1_def by (simp add: pf ty e Let_def)
  then obtain a2 i where a2: "(if ty = 0x0800 then ip_packet pf a1 else Some a1) = Some a2" and i: "tx_station ad a2 = Some i"
    and "B i a2 = Some (True, a, cmds, ad')"
    by (auto split: bind_splits option.split_asm)
  then obtain a3 p where s: "update_attrib_sec_info (fw_state ad) (security ad) (mac_id (pool (stapriv ad) ! i)) (peers ad ! i) a2 = (True, a3, p)"
    and ad': "ad' = ad\<lparr>peers := (peers ad)[i := p]\<rparr>"
    and q: "tx_qos ad' (eth @ pl) ((update_attrib_phy_info (cur_bwmode ad) (driver_ampdu_spacing ad) p a3)
        \<lparr>attrib_psta := Some i, pctrl := False, ack_policy := 0, pkt_hdrlen := 14, hdrlen := 24,
         attrib_subtype := WIFI_DATA_TYPE, tx_priority := 0\<rparr>) = Some a"
    by (auto simp: B_def Let_def split: if_split_asm prod.split_asm bind_splits)
  define a4 where "a4 = (update_attrib_phy_info (cur_bwmode ad) (driver_ampdu_spacing ad) p a3)
        \<lparr>attrib_psta := Some i, pctrl := False, ack_policy := 0, pkt_hdrlen := 14, hdrlen := 24,
         attrib_subtype := WIFI_DATA_TYPE, tx_priority := 0\<rparr>"
  have ad'2: "ad' = ad\<lparr>peers := peers ad'\<rparr>" "fw_state ad' = fw_state ad" "qos_opt ad' = qos_opt ad" by (simp_all add: ad')
  have m': "one_mode ad'" using m by (simp add: ad' one_mode_def infra_mode_def)
  note Q = tx_qos_fields [OF q [folded a4_def] m']
  have Q4: "hdrlen a4 = 24" "attrib_subtype a4 = WIFI_DATA_TYPE" "tx_priority a4 = 0" by (simp_all add: a4_def)
  note Q = Q [OF Q4]
  obtain x y z where a: "a = a4\<lparr>tx_priority := x, hdrlen := y, attrib_subtype := z\<rparr>" using Q(1) by blast
  define st where "st = check_fwstate (fw_state ad) WIFI_STATION_STATE"
  have a1: "a1 = a0\<lparr>ether_type := ty, attrib_dst := dst, attrib_src := src, attrib_ra := if st then mybssid ad else dst,
      attrib_ta := if st then myhwaddr ad else mybssid ad, pktlen := length pl\<rparr>"
    using m by (simp add: a1_def tx_addresses_def one_mode_def st_def pf(2))
  obtain d c where a2': "a2 = a1\<lparr>dhcp_pkt := d, icmp_pkt := c\<rparr>"
  proof -
    have "\<exists>d c. a2 = a1\<lparr>dhcp_pkt := d, icmp_pkt := c\<rparr>"
    proof (cases "ty = 0x0800")
      case True
      then show ?thesis using a2 by (auto simp: ip_packet_def Let_def split: bind_splits prod.split_asm)
    next
      case False
      then have "a2 = a1\<lparr>dhcp_pkt := dhcp_pkt a1, icmp_pkt := icmp_pkt a1\<rparr>" using a2 by simp
      then show ?thesis by blast
    qed
    then show ?thesis using that by blast
  qed
  have l2: "8 \<le> length (attrib_iv a2)" using l(3) by (simp add: a2' a1)
  note S = sec_info_cipher [OF s l2]
  obtain b1 b2 b3 b4 b5 b6 b7 b8 b9 where a3: "a3 = a2\<lparr>attrib_UncstKey := b1, attrib_tkiptxmickey := b2, attrib_mac_id := b3,
      encrypt := b4, key_idx := b5, iv_len := b6, icv_len := b7, attrib_iv := b8, bswenc := b9\<rparr>" using S(1) by blast
  have mode: "length (mybssid ad) = 6" "length (myhwaddr ad) = 6" using m by (simp_all add: one_mode_def infra_mode_def)
  have sq: "sends_qc ad' a4 = sends_qc ad a" by (simp add: sends_qc_def ad'2(2,3) a)
  have sel: "\<not> mdata a" "eosp a = 0" "ack_policy a = 0" "attrib_dst a = dst" "attrib_src a = src"
    "attrib_ta a = (if st then myhwaddr ad else mybssid ad)" "attrib_ra a = (if st then mybssid ad else dst)"
    "pkt_hdrlen a = 14" "pktlen a = length pl" "ether_type a = ty" "attrib_psta a = Some i"
    "encrypt a = encrypt a3" "iv_len a = iv_len a3" "icv_len a = icv_len a3" "attrib_iv a = attrib_iv a3" "bswenc a = bswenc a3"
    "attrib_UncstKey a = attrib_UncstKey a3" "attrib_tkiptxmickey a = attrib_tkiptxmickey a3" "qos_en a = qos_option p"
    by (simp_all add: a a4_def update_attrib_phy_info_def a3 a2' a1)
  have Qa: "tx_priority a < 8" "hdrlen a = (if sends_qc ad a then 26 else 24)"
    "attrib_subtype a = (if sends_qc ad a then WIFI_QOS_DATA_TYPE else WIFI_DATA_TYPE)" "\<not> sends_qc ad a \<Longrightarrow> tx_priority a = 0"
    using Q(2-5) unfolding sq by simp_all
  have da: "data_attrib ad a"
    unfolding data_attrib_def using Qa(1-3) mode l(1,2) sel(1-6) by simp
  have ci: "cipher_attrib a" using S(2) unfolding cipher_attrib_def sel .
  have ts: "tx_station ad a = Some i"
  proof -
    have "attrib_ra a2 = attrib_ra a" by (simp add: a2' a1 sel(7))
    then show ?thesis using i by (simp only: tx_station_def)
  qed
  show "packet_attrib ad dst src (bytes_le16 lo hi) (length pl) a"
    using da ci ts Qa(4) sel by (simp add: packet_attrib_def st_def ty_def)
  show "ad' = ad\<lparr>peers := peers ad'\<rparr>" by (rule ad'2(1))
  show "attrib_icv a = attrib_icv a0"
    by (simp add: a a4_def update_attrib_phy_info_def a3 a2' a1)
  show "\<exists>i. attrib_psta a = Some i \<and> (0 < encrypt a \<longrightarrow> attrib_UncstKey a = take 16 (peer_UncstKey (peers ad ! i)))
      \<and> (encrypt a = TKIP \<longrightarrow> attrib_tkiptxmickey a = take 16 (dot11tkiptxmickey (peers ad ! i)))
      \<and> qos_en a = qos_option (peers ad ! i)"
  proof -
    have "qos_option p = qos_option (peers ad ! i)" by (subst S(5)) simp
    then show ?thesis using S(3,4) sel by (intro exI [of _ i]) simp
  qed
qed

end
