(* ===== verification/Rx_Validate.thy ===== *)
theory Rx_Validate
  imports Adapter
begin

text \<open>
  The way of a received data frame, \<^verbatim>\<open>core/rtw_recv.c\<close>: the header (\<open>validate_recv_frame\<close>), the checks of
  its addresses by mode (\<open>sta2sta_data_frame\<close>, \<open>ap2sta_data_frame\<close>, \<open>sta2ap_data_frame\<close>,
  \<open>validate_recv_data_frame\<close>), and what happens to a frame that passes (\<open>recv_func\<close>): decryption, defragmentation,
  port control, reordering, conversion and delivery (\<open>rtw_os_recv_indicate_pkt\<close> of \<^verbatim>\<open>os_dep/recv_linux.c\<close>). The
  steps themselves are those of \<open>Mgmt_Protect\<close>, \<open>Rx_Frame\<close>, \<open>Rx_Deliver\<close> and \<open>Rx_Reorder\<close>.

  What a function does to other components and to the network stack is the list of its outputs. Management
  and control frames are outputs. Outer \<^term>\<open>None\<close>: an access outside a buffer. The model is of a driver
  without \<open>CONFIG_TDLS\<close> and \<open>CONFIG_WAPI_SUPPORT\<close>, on an interface that is not in a bridge.
\<close>

section \<open>Outputs\<close>

text \<open>\<open>NETIF_RX\<close>: a packet to the network stack; \<open>XMIT_ENTRY\<close>: a packet the access point sends on.\<close>

datatype rx_out =
    FREE_RECVFRAME nat
  | NETIF_RX bytes
  | XMIT_ENTRY bytes
  | ISSUE_DEAUTH bytes
  | PROCESS_PWRBIT_DATA nat
  | PROCESS_WMMPS_DATA nat
  | COUNT_RX_STATS
  | MGNT_FRAME
  | CTRL_FRAME
  | REORDER_TIMER bool

text \<open>Services of the operating system: the clock, its frequency, the time since, whether a packet can be cloned,
  and which subframes of an A-MSDU can be allocated; \<open>ieee80211w\<close> tells whether \<open>CONFIG_IEEE80211W\<close> is set.\<close>

record rx_env =
  now :: u32
  hz :: u32
  passing_time_ms :: "u32 \<Rightarrow> u32"
  clone_ok :: bool
  subframe_ok :: "nat \<Rightarrow> bool"
  ieee80211w :: bool

definition free_frames :: "nat list \<Rightarrow> adapter \<Rightarrow> rx_out list \<times> adapter" where
  "free_frames ns ad = (map FREE_RECVFRAME ns, ad\<lparr>free_recvframe_cnt := free_recvframe_cnt ad + length ns\<rparr>)"

section \<open>The header\<close>

text \<open>Bits of the frame control field.\<close>

definition get_tofr_ds :: "bytes \<Rightarrow> nat option" where
  "get_tofr_ds pframe = do {
     fc \<leftarrow> RTW_GET_LE16 pframe 0;
     Some ((if bit fc 8 then 2 else 0) + (if bit fc 9 then 1 else 0)) }"

definition get_da :: "bytes \<Rightarrow> bytes option" where
  "get_da pframe = do { d \<leftarrow> get_tofr_ds pframe; rdn pframe (if d = 0 \<or> d = 1 then 4 else 16) 6 }"

definition get_sa :: "bytes \<Rightarrow> bytes option" where
  "get_sa pframe = do {
     d \<leftarrow> get_tofr_ds pframe;
     rdn pframe (if d = 0 then 10 else if d = 1 then 16 else if d = 2 then 10 else 24) 6 }"

definition get_hdr_bssid :: "bytes \<Rightarrow> bytes option" where
  "get_hdr_bssid pframe = do {
     d \<leftarrow> get_tofr_ds pframe;
     rdn pframe (if d = 0 then 16 else if d = 1 then 10 else 4) 6 }"

definition SET_ICE_IV_LEN :: "u8 \<Rightarrow> nat \<times> nat" where
  "SET_ICE_IV_LEN e =
     (if e = WEP40 \<or> e = WEP104 then (4, 4)
      else if e = TKIP then (8, 4)
      else if e = AES then (8, 8)
      else if e = 6 then (18, 16)
      else (0, 0))"

definition parse_header :: "rx_frame \<Rightarrow> rx_frame option" where
  "parse_header f = do {
     fc \<leftarrow> RTW_GET_LE16 (rx_mem f) 0;
     d \<leftarrow> get_tofr_ds (rx_mem f);
     sc \<leftarrow> RTW_GET_LE16 (rx_mem f) 22;
     Some (f\<lparr>attrib := (attrib f)\<lparr>rx_to_fr_ds := d, rx_frag_num := ucast (sc AND 0xF), rx_seq_num := drop_bit 4 sc,
       rx_pw_save := bit fc 12, rx_mfrag := of_bool (bit fc 10), rx_mdata := bit fc 13,
       rx_privacy := of_bool (bit fc 14), rx_order := bit fc 15\<rparr>\<rparr>) }"

section \<open>Address checks\<close>

definition zero_addr :: bytes where "zero_addr = replicate 6 0"

definition bssid_fails :: "adapter \<Rightarrow> bytes \<Rightarrow> bool" where
  "bssid_fails ad bssid \<longleftrightarrow> bssid = zero_addr \<or> mybssid ad = zero_addr \<or> bssid \<noteq> mybssid ad"

text \<open>The attributes of test mode.\<close>

definition mp_addresses :: "rx_frame \<Rightarrow> rx_frame option" where
  "mp_addresses f = do {
     a1 \<leftarrow> frame_rdn f 4 6;
     a2 \<leftarrow> frame_rdn f 10 6;
     a3 \<leftarrow> frame_rdn f 16 6;
     Some (f\<lparr>attrib := (attrib f)\<lparr>rx_dst := a1, rx_src := a2, rx_bssid := a3, rx_ra := a1, rx_ta := a2\<rparr>\<rparr>) }"

text \<open>The station of the transmitter, or that for group frames.\<close>

definition sta2sta_station :: "adapter \<Rightarrow> bool \<Rightarrow> bytes option \<Rightarrow> nat option" where
  "sta2sta_station ad bmcast sta_addr =
     (if bmcast then rtw_get_bcmc_stainfo (stapriv ad) else rtw_get_stainfo (stapriv ad) sta_addr)"

definition sta2sta_data_frame :: "adapter \<Rightarrow> rx_frame \<Rightarrow> (rx_result \<times> nat option \<times> rx_frame) option" where
  "sta2sta_data_frame ad f =
     (let a = attrib f; fw = fw_state ad; bmcast = IS_MCAST (rx_dst a);
          found = (\<lambda>ret sta_addr f. case sta2sta_station ad bmcast sta_addr of
                     None \<Rightarrow> Some (FAIL, None, f) | Some i \<Rightarrow> Some (ret, Some i, f))
      in if check_fwstate fw WIFI_ADHOC_STATE \<or> check_fwstate fw WIFI_ADHOC_MASTER_STATE then
           (if myhwaddr ad = rx_src a \<or> myhwaddr ad \<noteq> rx_dst a \<and> \<not> bmcast \<or> bssid_fails ad (rx_bssid a)
            then Some (FAIL, None, f) else found SUCCESS (Some (rx_src a)) f)
         else if check_fwstate fw WIFI_STATION_STATE then
           (if rx_bssid a \<noteq> rx_src a then Some (FAIL, None, f) else found SUCCESS (Some (rx_bssid a)) f)
         else if check_fwstate fw WIFI_AP_STATE then
           (if bmcast then (if \<not> IS_MCAST (rx_bssid a) then Some (FAIL, None, f) else found SUCCESS None f)
            else if rx_bssid a \<noteq> rx_dst a then Some (FAIL, None, f)
            else found SUCCESS (Some (rx_src a)) f)
         else if check_fwstate fw WIFI_MP_STATE then do {
           f \<leftarrow> mp_addresses f;
           found SUCCESS (Some (mybssid ad)) f }
         else found FAIL None f)"

definition ap2sta_data_frame ::
  "rx_env \<Rightarrow> adapter \<Rightarrow> rx_frame \<Rightarrow> (rx_result \<times> nat option \<times> rx_frame \<times> rx_out list \<times> adapter) option" where
  "ap2sta_data_frame env ad f =
     (let a = attrib f; fw = fw_state ad; bmcast = IS_MCAST (rx_dst a) in
      if check_fwstate fw WIFI_STATION_STATE \<and> (check_fwstate fw FW_LINKED \<or> check_fwstate fw WIFI_UNDER_LINKING) then
        (if myhwaddr ad = rx_src a then Some (FAIL, None, f, [], ad)
         else if myhwaddr ad \<noteq> rx_dst a \<and> \<not> bmcast then Some (FAIL, None, f, [], ad)
         else if bssid_fails ad (rx_bssid a)
         then Some (FAIL, None, f, if bmcast then [] else [ISSUE_DEAUTH (rx_bssid a)], ad)
         else case sta2sta_station ad bmcast (Some (rx_bssid a)) of
           None \<Rightarrow> Some (FAIL, None, f, [], ad)
         | Some i \<Rightarrow> do {
             subtype \<leftarrow> GetFrameSubType (rx_mem f);
             Some (if subtype AND 0x40 \<noteq> 0 then (RX_HANDLED, Some i, f, [COUNT_RX_STATS], ad)
                   else (SUCCESS, Some i, f, [], ad)) })
      else if check_fwstate fw WIFI_MP_STATE \<and> check_fwstate fw FW_LINKED then do {
        f \<leftarrow> mp_addresses f;
        let f = f\<lparr>attrib := (attrib f)\<lparr>rx_bssid := mybssid ad\<rparr>\<rparr>;
        case rtw_get_stainfo (stapriv ad) (Some (mybssid ad)) of
          None \<Rightarrow> Some (FAIL, None, f, [], ad)
        | Some i \<Rightarrow> Some (SUCCESS, Some i, f, [], ad) }
      else if check_fwstate fw WIFI_AP_STATE then Some (RX_HANDLED, None, f, [], ad)
      else if myhwaddr ad = rx_dst a \<and> \<not> bmcast \<and> rtw_get_stainfo (stapriv ad) (Some (rx_bssid a)) = None
        \<and> (10000 < passing_time_ms env (send_issue_deauth_time ad) \<or> send_issue_deauth_time ad = 0)
      then Some (FAIL, None, f, [ISSUE_DEAUTH (rx_bssid a)], ad\<lparr>send_issue_deauth_time := now env\<rparr>)
      else Some (FAIL, None, f, [], ad))"

definition sta2ap_data_frame :: "adapter \<Rightarrow> rx_frame \<Rightarrow> (rx_result \<times> nat option \<times> rx_out list) option" where
  "sta2ap_data_frame ad f =
     (let a = attrib f in
      if check_fwstate (fw_state ad) WIFI_AP_STATE then
        (if rx_bssid a \<noteq> mybssid ad then Some (FAIL, None, [])
         else case rtw_get_stainfo (stapriv ad) (Some (rx_src a)) of
           None \<Rightarrow> Some (RX_HANDLED, None, [ISSUE_DEAUTH (rx_src a)])
         | Some i \<Rightarrow> do {
             subtype \<leftarrow> GetFrameSubType (rx_mem f);
             let outs = [PROCESS_PWRBIT_DATA (rx_id f)]
               @ (if subtype AND WIFI_QOS_DATA_TYPE = WIFI_QOS_DATA_TYPE then [PROCESS_WMMPS_DATA (rx_id f)] else []);
             Some (if subtype AND 0x40 \<noteq> 0 then (RX_HANDLED, Some i, outs @ [COUNT_RX_STATS])
                   else (SUCCESS, Some i, outs)) })
      else if rx_ra a \<noteq> myhwaddr ad then Some (RX_HANDLED, None, [])
      else Some (RX_HANDLED, None, [ISSUE_DEAUTH (rx_src a)]))"

section \<open>Data frames\<close>

definition parse_qos :: "rx_frame \<Rightarrow> rx_frame option" where
  "parse_qos f =
     (let a = (attrib f)\<lparr>rx_amsdu := False, rx_ack_policy := 0\<rparr> in do {
        a \<leftarrow> (if rx_qos a then do {
            qc \<leftarrow> RTW_GET_LE16 (rx_mem f) 24;
            Some (a\<lparr>rx_priority := ucast (qc AND 0xF), rx_ack_policy := ucast (drop_bit 5 qc AND 3),
              rx_amsdu := bit qc 7, rx_hdrlen := (if rx_to_fr_ds a = 3 then 32 else 26)\<rparr>) }
          else Some (a\<lparr>rx_priority := 0, rx_hdrlen := (if rx_to_fr_ds a = 3 then 30 else 24)\<rparr>));
        Some (f\<lparr>attrib := (if rx_order a then a\<lparr>rx_hdrlen := rx_hdrlen a + 4\<rparr> else a)\<rparr>) })"

definition set_cipher :: "'s net_security_scheme \<Rightarrow> u32 \<Rightarrow> rx_attrib \<Rightarrow> rx_attrib" where
  "set_cipher sec privacy a =
     (if rx_privacy a \<noteq> 0 then
        (let e = GET_ENCRY_ALGO sec privacy (IS_MCAST (rx_ra a)) (rx_encrypt a); (iv, icv) = SET_ICE_IV_LEN e
         in a\<lparr>rx_encrypt := e, rx_iv_len := iv, rx_icv_len := icv\<rparr>)
      else a\<lparr>rx_encrypt := 0, rx_iv_len := 0, rx_icv_len := 0\<rparr>)"

text \<open>What follows the address checks for a frame of station \<open>i\<close>.\<close>

definition accept_data_frame :: "nat \<Rightarrow> rx_frame \<Rightarrow> adapter \<Rightarrow> (rx_result \<times> rx_frame \<times> adapter) option" where
  "accept_data_frame i f ad = do {
     f \<leftarrow> parse_qos (f\<lparr>rx_psta := Some i\<rparr>);
     let ad = (if rx_qos (attrib f) \<and> rx_priority (attrib f) \<noteq> 0 \<and> rx_priority (attrib f) \<noteq> 3
       then ad\<lparr>bIsAnyNonBEPkts := True\<rparr> else ad);
     let sta = pool (stapriv ad) ! i;
     case recv_decache (attrib f) (tid_rxseq sta) of
       None \<Rightarrow> Some (FAIL, f, ad)
     | Some rxcache \<Rightarrow>
         Some (SUCCESS, f\<lparr>attrib := set_cipher (security ad) (dot118021XPrivacy (peers ad ! i)) (attrib f)\<rparr>,
           ad\<lparr>stapriv := (stapriv ad)\<lparr>pool := (pool (stapriv ad))[i := sta\<lparr>tid_rxseq := rxcache\<rparr>]\<rparr>\<rparr>) }"

definition with_addrs :: "bytes \<Rightarrow> bytes \<Rightarrow> bytes \<Rightarrow> bytes \<Rightarrow> bytes \<Rightarrow> rx_frame \<Rightarrow> rx_frame" where
  "with_addrs dst src bssid ra ta f =
     f\<lparr>attrib := (attrib f)\<lparr>rx_dst := dst, rx_src := src, rx_bssid := bssid, rx_ra := ra, rx_ta := ta\<rparr>\<rparr>"

definition check_addresses ::
  "rx_env \<Rightarrow> adapter \<Rightarrow> rx_frame \<Rightarrow> (rx_result \<times> nat option \<times> rx_frame \<times> rx_out list \<times> adapter) option" where
  "check_addresses env ad f = do {
     dst \<leftarrow> get_da (rx_mem f);
     src \<leftarrow> get_sa (rx_mem f);
     bssid \<leftarrow> get_hdr_bssid (rx_mem f);
     let d = rx_to_fr_ds (attrib f);
     if d = 0 then
       map_option (\<lambda>(r, psta, f). (r, psta, f, [], ad)) (sta2sta_data_frame ad (with_addrs dst src bssid dst src f))
     else if d = 1 then ap2sta_data_frame env ad (with_addrs dst src bssid dst bssid f)
     else if d = 2 then
       (let f = with_addrs dst src bssid bssid src f
        in map_option (\<lambda>(r, psta, outs). (r, psta, f, outs, ad)) (sta2ap_data_frame ad f))
     else do {
       a1 \<leftarrow> frame_rdn f 4 6;
       a2 \<leftarrow> frame_rdn f 10 6;
       Some (FAIL, None, with_addrs dst src bssid a1 a2 f, [], ad) } }"

definition validate_recv_data_frame ::
  "rx_env \<Rightarrow> adapter \<Rightarrow> rx_frame \<Rightarrow> (rx_result \<times> rx_frame \<times> rx_out list \<times> adapter) option" where
  "validate_recv_data_frame env ad f = do {
     (ret, psta, f, outs, ad) \<leftarrow> check_addresses env ad f;
     if ret \<noteq> SUCCESS then Some (ret, f, outs, ad)
     else case psta of
       None \<Rightarrow> Some (FAIL, f, outs, ad)
     | Some i \<Rightarrow> map_option (\<lambda>(r, f, ad). (r, f, outs, ad)) (accept_data_frame i f ad) }"

text \<open>A frame that is not a data frame is never a success: it goes to the management or control code and
  is freed.\<close>

definition validate_recv_frame ::
  "rx_env \<Rightarrow> adapter \<Rightarrow> rx_frame \<Rightarrow> (rx_result \<times> rx_frame \<times> rx_out list \<times> adapter) option" where
  "validate_recv_frame env ad f = do {
     b0 \<leftarrow> rd (rx_mem f) 0;
     if b0 AND 3 \<noteq> 0 then Some (FAIL, f, [], ad)
     else do {
       ty \<leftarrow> GetFrameType (rx_mem f);
       subtype \<leftarrow> GetFrameSubType (rx_mem f);
       f \<leftarrow> parse_header f;
       if ty = 0 then Some (FAIL, f, [MGNT_FRAME], ad)
       else if ty = 4 then Some (FAIL, f, [CTRL_FRAME], ad)
       else if ty = WIFI_DATA_TYPE then do {
         (ret, f, outs, ad) \<leftarrow> validate_recv_data_frame env ad (f\<lparr>attrib := (attrib f)\<lparr>rx_qos := bit subtype 7\<rparr>\<rparr>);
         Some (ret, f, outs, if ret = FAIL then ad\<lparr>rx_drop := rx_drop ad + 1\<rparr> else ad) }
       else Some (FAIL, f, [], ad) } }"

section \<open>Delivery\<close>

definition rtw_os_recv_indicate_pkt :: "rx_env \<Rightarrow> adapter \<Rightarrow> bytes \<Rightarrow> bytes \<Rightarrow> rx_out list" where
  "rtw_os_recv_indicate_pkt env ad packet dst =
     (if check_fwstate (fw_state ad) WIFI_AP_STATE \<and> dst \<noteq> myhwaddr ad then
        (let bmcast = IS_MCAST dst;
             psta = (if bmcast then rtw_get_bcmc_stainfo (stapriv ad) else rtw_get_stainfo (stapriv ad) (Some dst))
         in if psta = None then [NETIF_RX packet]
            else XMIT_ENTRY packet # (if bmcast \<and> clone_ok env then [NETIF_RX packet] else []))
      else [NETIF_RX packet])"

text \<open>The frame is freed with its packet detached.\<close>

definition rtw_recv_indicatepkt :: "rx_env \<Rightarrow> rx_frame \<Rightarrow> adapter \<Rightarrow> rx_out list \<times> adapter" where
  "rtw_recv_indicatepkt env f ad =
     (let outs = rtw_os_recv_indicate_pkt env ad (frame_bytes f) (rx_dst (attrib f));
          (o2, ad) = free_frames [rx_id f] ad
      in (outs @ o2, ad))"

definition indicate_amsdu :: "rx_env \<Rightarrow> rx_frame \<Rightarrow> adapter \<Rightarrow> (rx_out list \<times> adapter) option" where
  "indicate_amsdu env f ad = do {
     pkts \<leftarrow> amsdu_to_msdu (subframe_ok env) f;
     let outs = concat (map (\<lambda>packet. rtw_os_recv_indicate_pkt env ad packet (rx_dst (attrib f))) pkts);
     let (o2, ad) = free_frames [rx_id f] ad;
     Some (outs @ o2, ad) }"

text \<open>The events of the reordering code on the frames it holds. The identity of a frame stands for the
  pointer.\<close>

fun run_events :: "rx_env \<Rightarrow> rx_frame list \<Rightarrow> rx_event list \<Rightarrow> adapter \<Rightarrow> (rx_out list \<times> adapter) option" where
  "run_events env frames [] ad = Some ([], ad)"
| "run_events env frames (e # es) ad = do {
     (outs, ad) \<leftarrow> (case e of
         Indicatepkt r \<Rightarrow> do {
           f \<leftarrow> List.find (\<lambda>g. rx_id g = frame_id r) frames;
           Some (rtw_recv_indicatepkt env f ad) }
       | Amsdu_to_msdu r \<Rightarrow> do {
           f \<leftarrow> List.find (\<lambda>g. rx_id g = frame_id r) frames;
           indicate_amsdu env f ad }
       | Free_recvframe r \<Rightarrow> Some (free_frames [frame_id r] ad)
       | Set_timer \<Rightarrow> Some ([REORDER_TIMER True], ad)
       | Cancel_timer \<Rightarrow> Some ([REORDER_TIMER False], ad));
     (o2, ad) \<leftarrow> run_events env frames es ad;
     Some (outs @ o2, ad) }"

definition reorder_entry :: "rx_frame \<Rightarrow> recv_frame" where
  "reorder_entry f = \<lparr>seq_num = rx_seq_num (attrib f), amsdu = of_bool (rx_amsdu (attrib f)),
     qos = of_bool (rx_qos (attrib f)), frame_id = rx_id f\<rparr>"

text \<open>\<open>recv_indicatepkt_reorder\<close> on the frame itself, in the session of its station and traffic class. The
  frame has been converted before it enters the queue, unless it is an A-MSDU.\<close>

definition indicate_reorder :: "rx_env \<Rightarrow> rx_frame \<Rightarrow> adapter \<Rightarrow> (bool \<times> rx_out list \<times> adapter) option" where
  "indicate_reorder env f ad = do {
     i \<leftarrow> rx_psta f;
     let tid = unat (rx_priority (attrib f));
     c \<leftarrow> rd (recvreorder_ctrl (peers ad ! i)) tid;
     f \<leftarrow> (if rx_amsdu (attrib f) then Some f else wlanhdr_to_ethhdr (check_fwstate (fw_state ad) WIFI_MP_STATE) f);
     let (ok, c', evs) = recv_indicatepkt_reorder (running ad) (\<lambda>_. True) (reorder_entry f) c;
     (outs, ad) \<leftarrow> run_events env (f # reorder_held ad) evs ad;
     let mine = rx_id f # map frame_id (pending c);
     let held = filter (\<lambda>g. rx_id g \<in> set (map frame_id (pending c')) \<or> rx_id g \<notin> set mine) (f # reorder_held ad);
     let p = (peers ad ! i)\<lparr>recvreorder_ctrl := (recvreorder_ctrl (peers ad ! i))[tid := c']\<rparr>;
     Some (ok, outs, ad\<lparr>peers := (peers ad)[i := p], reorder_held := held\<rparr>) }"

definition process_recv_indicatepkts :: "rx_env \<Rightarrow> rx_frame \<Rightarrow> adapter \<Rightarrow> (bool \<times> rx_out list \<times> adapter) option" where
  "process_recv_indicatepkts env f ad =
     (if ht_opt ad then do {
        (ok, outs, ad) \<leftarrow> indicate_reorder env f ad;
        Some (ok \<or> \<not> running ad, outs, ad) }
      else do {
        f \<leftarrow> wlanhdr_to_ethhdr (check_fwstate (fw_state ad) WIFI_MP_STATE) f;
        Some (if running ad then (let (outs, ad) = rtw_recv_indicatepkt env f ad in (True, outs, ad))
              else (False, [], ad)) })"

section \<open>The frame after its header\<close>

definition drop_frame :: "nat list \<Rightarrow> adapter \<Rightarrow> rx_out list \<times> adapter" where
  "drop_frame ns ad = (let (outs, ad) = free_frames ns ad in (outs, ad\<lparr>rx_drop := rx_drop ad + 1\<rparr>))"

text \<open>\<open>decryptor\<close> frees the frame when it fails.\<close>

definition decrypt_data :: "rx_env \<Rightarrow> rx_frame \<Rightarrow> adapter \<Rightarrow> (bool \<times> rx_frame \<times> adapter) option" where
  "decrypt_data env f ad = do {
     (ok, f, sec, st) \<leftarrow> decryptor (ieee80211w env) (now env) (passing_time_ms env)
       (map_option (\<lambda>(i, p). peer_UncstKey p) (get_peer ad (rx_ta (attrib f)))) (security ad) (rx_static ad) f;
     Some (ok, f, ad\<lparr>security := sec, rx_static := st\<rparr>) }"

text \<open>Defragmentation in the queue of the transmitter's station.\<close>

definition defrag_data :: "rx_env \<Rightarrow> rx_frame \<Rightarrow> adapter \<Rightarrow> (rx_frame option \<times> rx_out list \<times> adapter) option" where
  "defrag_data env f ad =
     (let sta = get_peer ad (rx_ta (attrib f)) in do {
        (r, sec, q, bq, freed) \<leftarrow> recvframe_chk_defrag (hz env) (now env)
          (map_option (\<lambda>(i, p). dot11tkiprxmickey p) sta) (mlme_key_index ad) (security ad) f
          (map_option (\<lambda>(i, p). defrag_q p) sta) [];
        let ad = ad\<lparr>security := sec\<rparr>;
        let ad = (case (sta, q) of (Some (i, p), Some q) \<Rightarrow> ad\<lparr>peers := (peers ad)[i := p\<lparr>defrag_q := q\<rparr>]\<rparr> | _ \<Rightarrow> ad);
        let (outs, ad) = free_frames freed ad;
        Some (r, outs, ad) })"

text \<open>The result \<open>FAIL\<close> or \<open>SUCCESS\<close>. When the packet cannot be indicated, the frame that came in is freed.\<close>

definition recv_func_posthandle :: "rx_env \<Rightarrow> rx_frame \<Rightarrow> adapter \<Rightarrow> (rx_result \<times> rx_out list \<times> adapter) option" where
  "recv_func_posthandle env f ad = do {
     (ok, f, ad) \<leftarrow> decrypt_data env f ad;
     if \<not> ok then Some (FAIL, drop_frame [rx_id f] ad)
     else do {
       (r, outs, ad) \<leftarrow> defrag_data env f ad;
       case r of None \<Rightarrow> Some (SUCCESS, outs, ad\<lparr>rx_drop := rx_drop ad + 1\<rparr>)
       | Some p \<Rightarrow> do {
           ok \<leftarrow> portctrl (dot11AuthAlgrthm (security ad))
             (map_option (\<lambda>(i, s). ieee8021x_blocked s) (get_peer ad (rx_ta (attrib p)))) p;
           if \<not> ok then (let (o2, ad) = drop_frame [rx_id p] ad in Some (FAIL, outs @ o2, ad))
           else do {
             (ok, o2, ad) \<leftarrow> process_recv_indicatepkts env p ad;
             if ok then Some (SUCCESS, outs @ COUNT_RX_STATS # o2, ad)
             else (let (o3, ad) = drop_frame [rx_id f] ad in Some (FAIL, outs @ COUNT_RX_STATS # o2 @ o3, ad)) } } } }"

definition recv_func_prehandle :: "rx_env \<Rightarrow> rx_frame \<Rightarrow> adapter \<Rightarrow> (rx_result \<times> rx_frame \<times> rx_out list \<times> adapter) option" where
  "recv_func_prehandle env f ad = do {
     (ret, f, outs, ad) \<leftarrow> validate_recv_frame env ad f;
     if ret = SUCCESS then Some (ret, f, outs, ad)
     else (let (o2, ad) = free_frames [rx_id f] ad in Some (ret, f, outs @ o2, ad)) }"

text \<open>The frames that waited for the pairwise key.\<close>

fun posthandle_all :: "rx_env \<Rightarrow> rx_frame list \<Rightarrow> adapter \<Rightarrow> (rx_out list \<times> adapter) option" where
  "posthandle_all env [] ad = Some ([], ad)"
| "posthandle_all env (f # fs) ad = do {
     (_, outs, ad) \<leftarrow> recv_func_posthandle env f ad;
     (o2, ad) \<leftarrow> posthandle_all env fs ad;
     Some (outs @ o2, ad) }"

definition handle_pending :: "rx_env \<Rightarrow> adapter \<Rightarrow> (rx_out list \<times> adapter) option" where
  "handle_pending env ad =
     (if check_fwstate (fw_state ad) WIFI_STATION_STATE \<and> busetkipkey (security ad)
      then posthandle_all env (uc_swdec_pending_queue ad) (ad\<lparr>uc_swdec_pending_queue := []\<rparr>)
      else Some ([], ad))"

definition must_wait :: "adapter \<Rightarrow> rx_frame \<Rightarrow> bool" where
  "must_wait ad f \<longleftrightarrow> check_fwstate (fw_state ad) WIFI_STATION_STATE
     \<and> \<not> IS_MCAST (rx_ra (attrib f)) \<and> 0 < rx_encrypt (attrib f)
     \<and> (\<not> rx_bdecrypted (attrib f) \<or> sw_decrypt (security ad))
     \<and> ndisauthtype (security ad) = 4 \<and> \<not> busetkipkey (security ad)"

text \<open>A frame without a key waits; when free frames run short the oldest waiting one is handled.\<close>

definition recv_func :: "rx_env \<Rightarrow> rx_frame \<Rightarrow> adapter \<Rightarrow> (rx_result \<times> rx_out list \<times> adapter) option" where
  "recv_func env f ad = do {
     (o1, ad) \<leftarrow> handle_pending env ad;
     (ret, f, o2, ad) \<leftarrow> recv_func_prehandle env f ad;
     if ret \<noteq> SUCCESS then Some (ret, o1 @ o2, ad)
     else if must_wait ad f then
       (let q = uc_swdec_pending_queue ad @ [f] in
        if free_recvframe_cnt ad < 64 then do {
          (ret, o3, ad) \<leftarrow> recv_func_posthandle env (hd q) (ad\<lparr>uc_swdec_pending_queue := tl q\<rparr>);
          Some (ret, o1 @ o2 @ o3, ad) }
        else Some (ret, o1 @ o2, ad\<lparr>uc_swdec_pending_queue := q\<rparr>))
     else do {
       (ret, o3, ad) \<leftarrow> recv_func_posthandle env f ad;
       Some (ret, o1 @ o2 @ o3, ad) } }"

end
