(* ===== verification/Data_Path.thy ===== *)
theory Data_Path
  imports Tx_Coalesce Rx_Validate
begin

text \<open>
  The transmit and the receive path together: the frame that \<open>rtw_xmitframe_coalesce\<close> of one driver builds from an
  Ethernet packet, through \<open>recv_func\<close> of another one.
\<close>

section \<open>What the receiver reads\<close>

lemma wlan_header_reads:
  assumes "length a1 = 6" "length a2 = 6" "length a3 = 6"
  shows "RTW_GET_LE16 (wlan_header fc a1 a2 a3 sc qc @ r) 0 = Some fc"
    "RTW_GET_LE16 (wlan_header fc a1 a2 a3 sc qc @ r) 22 = Some sc"
    "rdn (wlan_header fc a1 a2 a3 sc qc @ r) 4 6 = Some a1"
    "rdn (wlan_header fc a1 a2 a3 sc qc @ r) 10 6 = Some a2"
    "rdn (wlan_header fc a1 a2 a3 sc qc @ r) 16 6 = Some a3"
    "rd (wlan_header fc a1 a2 a3 sc qc @ r) 0 = Some (ucast fc)"
    "RTW_GET_LE16 (wlan_header fc a1 a2 a3 sc [x, 0] @ r) 24 = Some (ucast x)"
proof -
  have le: "push_bit 8 (ucast (ucast (drop_bit 8 v) :: u8)) OR ucast (ucast v :: u8) = v" for v :: u16
    by (rule bit_word_eqI) (auto simp: bit_simps)
  show "RTW_GET_LE16 (wlan_header fc a1 a2 a3 sc qc @ r) 0 = Some fc"
    by (simp add: RTW_GET_LE16_def rd_def wlan_header_def le16_bytes_def le)
  have "RTW_GET_LE16 ((le16_bytes fc @ [0, 0] @ a1 @ a2 @ a3) @ le16_bytes sc @ qc @ r) 22 = Some sc"
    using assms by (simp add: RTW_GET_LE16_def rd_def le16_bytes_def nth_append le)
  then show "RTW_GET_LE16 (wlan_header fc a1 a2 a3 sc qc @ r) 22 = Some sc" by (simp add: wlan_header_def)
  have s: "wlan_header fc a1 a2 a3 sc qc @ r = (le16_bytes fc @ [0, 0]) @ a1 @ (a2 @ a3 @ le16_bytes sc @ qc @ r)"
    "wlan_header fc a1 a2 a3 sc qc @ r = (le16_bytes fc @ [0, 0] @ a1) @ a2 @ (a3 @ le16_bytes sc @ qc @ r)"
    "wlan_header fc a1 a2 a3 sc qc @ r = (le16_bytes fc @ [0, 0] @ a1 @ a2) @ a3 @ (le16_bytes sc @ qc @ r)"
    by (simp_all add: wlan_header_def)
  show "rdn (wlan_header fc a1 a2 a3 sc qc @ r) 4 6 = Some a1"
    unfolding s(1) by (rule rdn_append) (simp_all add: assms le16_bytes_def)
  show "rdn (wlan_header fc a1 a2 a3 sc qc @ r) 10 6 = Some a2"
    unfolding s(2) by (rule rdn_append) (simp_all add: assms le16_bytes_def)
  show "rdn (wlan_header fc a1 a2 a3 sc qc @ r) 16 6 = Some a3"
    unfolding s(3) by (rule rdn_append) (simp_all add: assms le16_bytes_def)
  show "rd (wlan_header fc a1 a2 a3 sc qc @ r) 0 = Some (ucast fc)"
    by (simp add: rd_def wlan_header_def le16_bytes_def)
  have "RTW_GET_LE16 ((le16_bytes fc @ [0, 0] @ a1 @ a2 @ a3 @ le16_bytes sc) @ [x, 0] @ r) 24 = Some (ucast x)"
    using assms by (simp add: RTW_GET_LE16_def rd_def le16_bytes_def nth_append)
  then show "RTW_GET_LE16 (wlan_header fc a1 a2 a3 sc [x, 0] @ r) 24 = Some (ucast x)" by (simp add: wlan_header_def)
qed

lemma rx_mem_frame: "wf_frame f \<Longrightarrow> \<exists>tl. rx_mem f = frame_bytes f @ tl"
  unfolding rx_mem_def frame_bytes_def by (metis append_take_drop_id)

text \<open>The frame control field of a data frame of the transmit path.\<close>

definition fc_word :: "bool \<Rightarrow> bool \<Rightarrow> bool \<Rightarrow> u16" where
  "fc_word ap qc priv = (if qc then 0x88 else 8) OR (if ap then 0x200 else 0x100) OR (if priv then 0x4000 else 0)"

lemma data_fc_word: "data_attrib ad a \<Longrightarrow> data_fc ap a = fc_word ap (sends_qc ad a) (encrypt a \<noteq> 0)"
  by (auto simp: data_fc_def data_attrib_def fc_word_def WIFI_QOS_DATA_TYPE_def WIFI_DATA_TYPE_def)

lemma fc_word_bits:
  "(ucast (fc_word ap qc priv) :: u8) AND 3 = 0" "fc_word ap qc priv AND 0x0c = 8"
  "fc_word ap qc priv AND 0xfc = (if qc then 0x88 else 8)"
  "bit (fc_word ap qc priv) 8 = (\<not> ap)" "bit (fc_word ap qc priv) 9 = ap" "\<not> bit (fc_word ap qc priv) 10"
  "\<not> bit (fc_word ap qc priv) 12" "\<not> bit (fc_word ap qc priv) 13" "bit (fc_word ap qc priv) 14 = priv"
  "\<not> bit (fc_word ap qc priv) 15"
  by (cases ap; cases qc; cases priv; simp add: fc_word_def bit_simps)+


section \<open>A data frame that passes the checks\<close>

definition rx_accepts :: "adapter \<Rightarrow> bool \<Rightarrow> bytes \<Rightarrow> bytes \<Rightarrow> bytes \<Rightarrow> nat \<Rightarrow> bool" where
  "rx_accepts ad ap dst src bssid i \<longleftrightarrow>
     (if ap then check_fwstate (fw_state ad) WIFI_STATION_STATE
        \<and> (check_fwstate (fw_state ad) FW_LINKED \<or> check_fwstate (fw_state ad) WIFI_UNDER_LINKING)
        \<and> myhwaddr ad \<noteq> src \<and> (myhwaddr ad = dst \<or> IS_MCAST dst) \<and> bssid = mybssid ad \<and> bssid \<noteq> zero_addr
        \<and> sta2sta_station ad (IS_MCAST dst) (Some bssid) = Some i
      else check_fwstate (fw_state ad) WIFI_AP_STATE \<and> bssid = mybssid ad
        \<and> rtw_get_stainfo (stapriv ad) (Some src) = Some i)"

text \<open>The outputs that carry a packet: to the network stack or back into the transmit path.\<close>

definition delivered :: "rx_out list \<Rightarrow> rx_out list" where
  "delivered outs = filter (\<lambda>x. case x of NETIF_RX _ \<Rightarrow> True | XMIT_ENTRY _ \<Rightarrow> True | _ \<Rightarrow> False) outs"

lemma delivered_simps [simp]: "delivered [] = []"
  "delivered (x # xs) = (case x of NETIF_RX _ \<Rightarrow> [x] | XMIT_ENTRY _ \<Rightarrow> [x] | _ \<Rightarrow> []) @ delivered xs"
  "delivered (xs @ ys) = delivered xs @ delivered ys"
  by (simp_all add: delivered_def split: rx_out.split)

definition parsed :: "bytes \<Rightarrow> bytes \<Rightarrow> bytes \<Rightarrow> bytes \<Rightarrow> bool \<Rightarrow> u8 \<Rightarrow> bool \<Rightarrow> u8 \<Rightarrow> rx_attrib \<Rightarrow> bool" where
  "parsed dst src ra ta q pri priv enc a \<longleftrightarrow> rx_dst a = dst \<and> rx_src a = src \<and> rx_ra a = ra \<and> rx_ta a = ta
     \<and> rx_hdrlen a = (if q then 26 else 24) \<and> rx_priority a = pri \<and> rx_encrypt a = enc \<and> (rx_privacy a \<noteq> 0) = priv
     \<and> (rx_iv_len a, rx_icv_len a) = SET_ICE_IV_LEN enc \<and> rx_mfrag a = 0 \<and> rx_frag_num a = 0 \<and> \<not> rx_amsdu a \<and> rx_qos a = q"

text \<open>The checks leave all but the duplicate filter of the station as it is.\<close>

definition same_net :: "adapter \<Rightarrow> adapter \<Rightarrow> bool" where
  "same_net ad ad' \<longleftrightarrow> ad' = ad\<lparr>stapriv := stapriv ad', bIsAnyNonBEPkts := bIsAnyNonBEPkts ad'\<rparr>
     \<and> rtw_get_stainfo (stapriv ad') = rtw_get_stainfo (stapriv ad)"

lemma stainfo_rxseq:
  "rtw_get_stainfo (s\<lparr>pool := (pool s)[i := (pool s ! i)\<lparr>tid_rxseq := r\<rparr>]\<rparr>) = rtw_get_stainfo s"
proof -
  have "hwaddr ((pool s)[i := (pool s ! i)\<lparr>tid_rxseq := r\<rparr>] ! j) = hwaddr (pool s ! j)" for j
    by (cases "i < length (pool s)") (auto simp: nth_list_update list_update_beyond not_less)
  then show ?thesis by (simp add: rtw_get_stainfo_def fun_eq_iff Let_def split: option.split)
qed

lemma seq_ctrl_mask:
  "push_bit 4 (drop_bit 4 (sc :: u16) AND mask 16) OR (ucast (ucast (sc AND mask 4) :: u8) AND mask 4) = sc"
  by (rule bit_word_eqI) (auto simp: bit_simps not_le)

lemma seq_ctrl: "push_bit 4 (drop_bit 4 (sc :: u16) AND 0xFFFF) OR (ucast (ucast (sc AND 0xF) :: u8) AND 0xF) = sc"
proof -
  have "(0xF :: u16) = mask 4" "(0xFFFF :: u16) = mask 16" by code_simp+
  then show ?thesis
    by (metis (mono_tags, lifting) seq_ctrl_mask)
qed

lemma rx_mem_fields [simp]: "rx_mem (f\<lparr>attrib := a\<rparr>) = rx_mem f" "rx_mem (f\<lparr>rx_psta := p\<rparr>) = rx_mem f"
  by (simp_all add: rx_mem_def)

lemma ap2sta_ok:
  assumes "rx_accepts ad True (rx_dst (attrib f)) (rx_src (attrib f)) (rx_bssid (attrib f)) i"
    "GetFrameSubType (rx_mem f) = Some st" "st AND 0x40 = 0"
  shows "ap2sta_data_frame env ad f = Some (SUCCESS, Some i, f, [], ad)"
  using assms by (auto simp: ap2sta_data_frame_def rx_accepts_def Let_def bssid_fails_def)

lemma sta2ap_ok:
  assumes "rx_accepts ad False (rx_dst (attrib f)) (rx_src (attrib f)) (rx_bssid (attrib f)) i"
    "GetFrameSubType (rx_mem f) = Some st" "st AND 0x40 = 0"
  shows "\<exists>outs. sta2ap_data_frame ad f = Some (SUCCESS, Some i, outs) \<and> delivered outs = []"
  using assms by (simp add: sta2ap_data_frame_def rx_accepts_def Let_def)

lemma frame_upd: "f\<lparr>rx_psta := y, attrib := x\<rparr> = f\<lparr>attrib := x', rx_psta := y\<rparr> \<longleftrightarrow> x = x'"
  by (cases f) simp

lemma set_cipher_eq:
  "set_cipher sec privacy a = (let e = (if rx_privacy a \<noteq> 0 then GET_ENCRY_ALGO sec privacy (IS_MCAST (rx_ra a)) (rx_encrypt a) else 0)
    in a\<lparr>rx_encrypt := e, rx_iv_len := fst (SET_ICE_IV_LEN e), rx_icv_len := snd (SET_ICE_IV_LEN e)\<rparr>)"
  by (simp add: set_cipher_def SET_ICE_IV_LEN_def WEP40_def WEP104_def TKIP_def AES_def Let_def)

lemma validate_data:
  assumes m: "rx_mem f = wlan_header (fc_word ap q priv) a1 a2 a3 (push_bit 4 seqno) (if q then [pri, 0] else []) @ b"
    and l: "length a1 = 6" "length a2 = 6" "length a3 = 6" "pri < 8" "\<not> q \<Longrightarrow> pri = 0"
    and acc: "rx_accepts ad ap dst src bssid i" "(a1, a2, a3) = (if ap then (dst, bssid, src) else (bssid, src, dst))"
    and fresh: "tid_rxseq (pool (stapriv ad) ! i) ! unat pri \<noteq> push_bit 4 seqno"
    and enc: "enc = (if priv then GET_ENCRY_ALGO (security ad) (dot118021XPrivacy (peers ad ! i)) (IS_MCAST a1) (rx_encrypt (attrib f)) else 0)"
  shows "\<exists>a' outs ad'. validate_recv_frame env ad f = Some (SUCCESS, f\<lparr>attrib := a', rx_psta := Some i\<rparr>, outs, ad')
    \<and> parsed dst src a1 a2 q pri priv enc a' \<and> rx_bdecrypted a' = rx_bdecrypted (attrib f) \<and> rx_key_index a' = rx_key_index (attrib f)
    \<and> same_net ad ad' \<and> delivered outs = []"
proof -
  note rds = wlan_header_reads [OF l(1-3)]
  have r: "RTW_GET_LE16 (rx_mem f) 0 = Some (fc_word ap q priv)" "RTW_GET_LE16 (rx_mem f) 22 = Some (push_bit 4 seqno)"
    "rdn (rx_mem f) 4 6 = Some a1" "rdn (rx_mem f) 10 6 = Some a2" "rdn (rx_mem f) 16 6 = Some a3"
    "rd (rx_mem f) 0 = Some (ucast (fc_word ap q priv))" "q \<Longrightarrow> RTW_GET_LE16 (rx_mem f) 24 = Some (ucast pri)"
    unfolding m by (simp_all add: rds)
  have d: "get_tofr_ds (rx_mem f) = Some (if ap then 1 else 2)"
    by (simp add: get_tofr_ds_def r fc_word_bits)
  have addr: "get_da (rx_mem f) = Some dst" "get_sa (rx_mem f) = Some src" "get_hdr_bssid (rx_mem f) = Some bssid"
    using acc(2) by (simp_all add: get_da_def get_sa_def get_hdr_bssid_def d r split: if_split_asm)
  have ty: "GetFrameType (rx_mem f) = Some WIFI_DATA_TYPE" "GetFrameSubType (rx_mem f) = Some (if q then 0x88 else 8)"
    by (simp_all add: GetFrameType_def GetFrameSubType_def r fc_word_bits WIFI_DATA_TYPE_def)
  define f1 where "f1 = f\<lparr>attrib := (attrib f)\<lparr>rx_to_fr_ds := if ap then 1 else 2, rx_frag_num := ucast (push_bit 4 seqno AND 0xF),
    rx_seq_num := drop_bit 4 (push_bit 4 seqno), rx_pw_save := False, rx_mfrag := 0, rx_mdata := False,
    rx_privacy := of_bool priv, rx_order := False\<rparr>\<rparr>"
  have p: "parse_header f = Some f1"
    by (simp add: parse_header_def r d fc_word_bits f1_def)
  define f2 where "f2 = with_addrs dst src bssid a1 a2 (f1\<lparr>attrib := (attrib f1)\<lparr>rx_qos := q\<rparr>\<rparr>)"
  have ca: "\<exists>outs. check_addresses env ad (f1\<lparr>attrib := (attrib f1)\<lparr>rx_qos := q\<rparr>\<rparr>) = Some (SUCCESS, Some i, f2, outs, ad) \<and> delivered outs = []"
  proof -
    have g: "rx_to_fr_ds (attrib f2) = (if ap then 1 else 2)" "GetFrameSubType (rx_mem f2) = Some (if q then 0x88 else 8)"
      "(if q then 0x88 else 8 :: u16) AND 0x40 = 0" "rx_accepts ad ap (rx_dst (attrib f2)) (rx_src (attrib f2)) (rx_bssid (attrib f2)) i"
      using ty acc(1) by (simp_all add: f2_def f1_def with_addrs_def)
    have c: "check_addresses env ad (f1\<lparr>attrib := (attrib f1)\<lparr>rx_qos := q\<rparr>\<rparr>)
        = (if ap then ap2sta_data_frame env ad f2
           else map_option (\<lambda>(r, psta, outs). (r, psta, f2, outs, ad)) (sta2ap_data_frame ad f2))"
      using acc(2) by (simp add: check_addresses_def addr f1_def with_addrs_def f2_def Let_def split: if_split_asm)
    show ?thesis
    proof (cases ap)
      case True
      then show ?thesis using ap2sta_ok [OF _ g(2,3)] g(4) by (simp add: c)
    next
      case False
      then show ?thesis using sta2ap_ok [OF _ g(2,3)] g(4) by (fastforce simp: c)
    qed
  qed
  then obtain outs where ca: "check_addresses env ad (f1\<lparr>attrib := (attrib f1)\<lparr>rx_qos := q\<rparr>\<rparr>) = Some (SUCCESS, Some i, f2, outs, ad)"
    "delivered outs = []" by blast
  have ad: "\<exists>a' ad'. accept_data_frame i f2 ad = Some (SUCCESS, f\<lparr>attrib := a', rx_psta := Some i\<rparr>, ad')
    \<and> parsed dst src a1 a2 q pri priv enc a' \<and> rx_bdecrypted a' = rx_bdecrypted (attrib f) \<and> rx_key_index a' = rx_key_index (attrib f)
    \<and> same_net ad ad'"
  proof -
    define a4 where "a4 = (attrib f2)\<lparr>rx_amsdu := False, rx_ack_policy := 0, rx_priority := pri, rx_hdrlen := (if q then 26 else 24)\<rparr>"
    have f2: "rx_mem f2 = rx_mem f" "rx_qos (attrib f2) = q" "rx_to_fr_ds (attrib f2) = (if ap then 1 else 2)"
      "\<not> rx_order (attrib f2)" "f2\<lparr>attrib := x, rx_psta := y\<rparr> = f\<lparr>attrib := x, rx_psta := y\<rparr>" for x y
      by (simp_all add: f2_def f1_def with_addrs_def)
    have upd: "f2\<lparr>rx_psta := y, attrib := x\<rparr> = f\<lparr>attrib := x', rx_psta := y\<rparr> \<longleftrightarrow> x = x'" for x x' y
      by (cases f) (auto simp: f2_def f1_def with_addrs_def)
    have pq: "(ucast ((ucast pri :: u16) AND 0xF) :: u8) = pri" "(ucast (drop_bit 5 (ucast pri :: u16) AND 3) :: u8) = 0"
      "\<not> bit (ucast pri :: u16) 7"
      using below_8 [OF l(4)] by auto
    have pa: "parse_qos (f2\<lparr>rx_psta := Some i\<rparr>) = Some (f\<lparr>attrib := a4, rx_psta := Some i\<rparr>)"
      using l(5) by (auto simp: parse_qos_def f2 r(7) pq a4_def Let_def upd intro!: rx_attrib.equality)
    have a4: "recv_decache a4 rc = (if rc ! unat pri = push_bit 4 seqno then None else Some (rc[unat pri := push_bit 4 seqno]))" for rc
    proof -
      have "unat pri < 8" using l(4) by (simp add: word_less_nat_alt)
      then show ?thesis using seq_ctrl [of "push_bit 4 seqno"]
        by (simp add: recv_decache_def a4_def f2_def f1_def with_addrs_def Let_def)
    qed
    have fn: "ucast (push_bit 4 seqno AND 0xF :: u16) = (0 :: u8)"
    proof -
      have "push_bit 4 seqno AND mask 4 = (0 :: u16)" by (rule bit_word_eqI) (auto simp: bit_simps)
      moreover have "(0xF :: u16) = mask 4" by code_simp
      ultimately show ?thesis by (simp del: mask_numeral)
    qed
    have ps: "parsed dst src a1 a2 q pri priv enc (set_cipher (security ad) (dot118021XPrivacy (peers ad ! i)) a4)"
      "rx_bdecrypted (set_cipher (security ad) (dot118021XPrivacy (peers ad ! i)) a4) = rx_bdecrypted (attrib f)"
      "rx_key_index (set_cipher (security ad) (dot118021XPrivacy (peers ad ! i)) a4) = rx_key_index (attrib f)"
      by (simp_all add: parsed_def set_cipher_eq a4_def f2_def f1_def with_addrs_def enc fn Let_def)
    show ?thesis
      using fresh unfolding accept_data_frame_def pa
      by (simp add: a4 Let_def same_net_def stainfo_rxseq frame_upd ps)
  qed
  then obtain a' ad' where a: "accept_data_frame i f2 ad = Some (SUCCESS, f\<lparr>attrib := a', rx_psta := Some i\<rparr>, ad')"
    "parsed dst src a1 a2 q pri priv enc a'" "rx_bdecrypted a' = rx_bdecrypted (attrib f)"
    "rx_key_index a' = rx_key_index (attrib f)" "same_net ad ad'" by blast
  have b7: "bit (if q then 0x88 else 8 :: u16) 7 = q" by simp
  have "validate_recv_frame env ad f = Some (SUCCESS, f\<lparr>attrib := a', rx_psta := Some i\<rparr>, outs, ad')"
    using ty by (simp add: validate_recv_frame_def r(6) fc_word_bits p b7 validate_recv_data_frame_def ca a(1) WIFI_DATA_TYPE_def
      del: bit_numeral_rec)
  then show ?thesis using a(2-5) ca(2) by blast
qed

section \<open>Decryption\<close>

text \<open>The protected body that a transmitter with the temporal key \<open>key\<close> sends behind \<open>hdr @ iv\<close>.\<close>

definition protected_body :: "bool \<Rightarrow> u8 \<Rightarrow> bytes \<Rightarrow> bytes \<Rightarrow> bytes \<Rightarrow> bytes \<Rightarrow> bytes \<Rightarrow> bytes" where
  "protected_body w enc key ta hdr iv m =
     (if enc = TKIP then rc4_cipher (tkip_rc4key key ta iv) 16 (m @ getcrc32 m)
      else if enc = AES then ccm_encrypt (aes128k128d key) (ccmp_nonce w hdr iv) (ccmp_aad w hdr) m
      else m)"

lemma sealed_body: "sealed w hdr a m = protected_body w (encrypt a) (attrib_UncstKey a) (attrib_ta a) hdr (iv_of a) m"
  by (simp add: sealed_def protected_body_def)

lemma with_data_frame:
  assumes f: "wf_frame f" "rx_mem f = frame_bytes f @ rest" and d: "length d = length (frame_bytes f)"
  shows "wf_frame (with_data f (d @ rest))" "frame_bytes (with_data f (d @ rest)) = d" "attrib (with_data f (d @ rest)) = attrib f"
    "rx_id (with_data f (d @ rest)) = rx_id f" "rx_psta (with_data f (d @ rest)) = rx_psta f"
proof -
  obtain k l where k: "rx_data f = int k" "rx_tail f = int (k + l)" "rx_len f = of_nat l" "k + l \<le> length (buf f)"
    "length (buf f) < 2 ^ 31" using f(1) by (rule wf_frameE)
  have b: "buf f = take k (buf f) @ frame_bytes f @ rest"
    using f(2) unfolding rx_mem_def k(1) by (metis append_take_drop_id nat_int)
  have l: "length (frame_bytes f) = l" using length_frame_bytes [OF f(1)] k by (simp add: unat_len)
  define b' where "b' = take k (buf f) @ d @ rest"
  have lb: "length b' = length (buf f)" unfolding b'_def using d by (subst (2) b) simp
  have w: "with_data f (d @ rest) = f\<lparr>buf := b'\<rparr>" by (simp add: with_data_def k(1) b'_def)
  show "wf_frame (with_data f (d @ rest))" unfolding w
    by (rule wf_frameI [where d = k and l = l]) (use k lb in simp_all)
  have "frame_bytes (f\<lparr>buf := b'\<rparr>) = take l (drop k (buf (f\<lparr>buf := b'\<rparr>)))"
    by (rule frame_bytes_eq) (use k lb in simp_all)
  also have "\<dots> = d" using d l k(4) by (simp add: b'_def)
  finally show "frame_bytes (with_data f (d @ rest)) = d" by (simp add: w)
  show "attrib (with_data f (d @ rest)) = attrib f" "rx_id (with_data f (d @ rest)) = rx_id f"
    "rx_psta (with_data f (d @ rest)) = rx_psta f" by (simp_all add: w)
qed

lemma wf_frame_attrib [simp]: "wf_frame (f\<lparr>attrib := a\<rparr>) = wf_frame f" "frame_bytes (f\<lparr>attrib := a\<rparr>) = frame_bytes f"
  "wf_frame (f\<lparr>rx_psta := p\<rparr>) = wf_frame f" "frame_bytes (f\<lparr>rx_psta := p\<rparr>) = frame_bytes f"
  by (simp_all add: wf_frame_def frame_bytes_def)

lemma rx_iv_index:
  assumes "wf_frame f" "rx_hdrlen (attrib f) + 4 \<le> length (frame_bytes f)"
  shows "\<exists>k. rx_iv_key_index sec f = Some k"
  using frame_rdn_bytes [OF assms(1), of "rx_hdrlen (attrib f) + 3" 1] assms(2)
  by (simp add: rx_iv_key_index_def Let_def)

lemma sw_decryptor:
  assumes "rx_iv_key_index sec f = Some k" "0 < rx_encrypt (attrib f)" "\<not> rx_bdecrypted (attrib f) \<or> sw_decrypt sec"
    "sw_decrypt_frame w jif passing stainfo (sec\<lparr>hw_decrypted := False\<rparr>) st (f\<lparr>attrib := (attrib f)\<lparr>rx_key_index := k\<rparr>\<rparr>)
      = Some (True, with_data (f\<lparr>attrib := (attrib f)\<lparr>rx_key_index := k\<rparr>\<rparr>) (d @ rest), sec', st')"
    and f: "wf_frame f" "rx_mem f = frame_bytes f @ rest" "length d = length (frame_bytes f)"
  shows "\<exists>f'. decryptor w jif passing stainfo sec st f = Some (True, f', sec', st') \<and> wf_frame f'
    \<and> attrib f' = (attrib f)\<lparr>rx_key_index := rx_key_index (attrib f'), rx_bdecrypted := True\<rparr> \<and> rx_id f' = rx_id f \<and> rx_psta f' = rx_psta f
    \<and> frame_bytes f' = d"
  using assms with_data_frame [of "f\<lparr>attrib := (attrib f)\<lparr>rx_key_index := k\<rparr>\<rparr>" rest d]
  by (simp add: decryptor_def)

lemma decryptor_body:
  assumes f: "wf_frame f" "frame_bytes f = hdr @ iv @ protected_body w enc key (rx_ta (attrib f)) hdr iv m"
    and a: "rx_encrypt (attrib f) = enc" "rx_hdrlen (attrib f) = length hdr" "rx_iv_len (attrib f) = length iv"
      "(rx_iv_len (attrib f), rx_icv_len (attrib f)) = SET_ICE_IV_LEN enc" "\<not> IS_MCAST (rx_ra (attrib f))"
    and enc: "enc = 0 \<or> enc = TKIP \<or> enc = AES" "enc \<noteq> 0 \<Longrightarrow> \<not> rx_bdecrypted (attrib f) \<or> sw_decrypt sec"
    and ae: "enc = AES \<Longrightarrow> ccmp_header hdr \<and> length hdr + 16 + length m \<le> MAX_MSG_SIZE"
    and st: "length (dec_message st) = MAX_MSG_SIZE"
  shows "\<exists>f' sec' st' icv. decryptor w jif passing (Some key) sec st f = Some (True, f', sec', st') \<and> wf_frame f'
    \<and> attrib f' = (attrib f)\<lparr>rx_key_index := rx_key_index (attrib f'), rx_bdecrypted := True\<rparr> \<and> rx_id f' = rx_id f \<and> rx_psta f' = rx_psta f
    \<and> frame_bytes f' = hdr @ iv @ m @ icv \<and> length icv = rx_icv_len (attrib f)"
proof -
  obtain rest where tl: "rx_mem f = frame_bytes f @ rest" using rx_mem_frame [OF f(1)] by blast
  consider (none) "enc = 0" | (tkip) "enc = TKIP" | (aes) "enc = AES" using enc(1) by blast
  then show ?thesis
  proof cases
    case none
    then have "rx_iv_len (attrib f) = 0" "rx_icv_len (attrib f) = 0" "protected_body w enc key (rx_ta (attrib f)) hdr iv m = m"
      using a(4) by (simp_all add: SET_ICE_IV_LEN_def protected_body_def WEP40_def WEP104_def TKIP_def AES_def)
    then show ?thesis using none a f by (simp add: decryptor_def rx_iv_key_index_def)
  next
    case tkip
    let ?c = "rc4_cipher (tkip_rc4key key (rx_ta (attrib f)) iv) 16 (m @ getcrc32 m)"
    have i: "rx_iv_len (attrib f) = 8" "rx_icv_len (attrib f) = 4" "length iv = 8"
      using a(3,4) tkip by (simp_all add: SET_ICE_IV_LEN_def WEP40_def WEP104_def TKIP_def)
    have fb: "frame_bytes f = hdr @ iv @ ?c" using f(2) tkip by (simp add: protected_body_def)
    obtain k where k: "rx_iv_key_index sec f = Some k" using rx_iv_index [OF f(1), of sec] fb a(2) i(3) by auto
    have len: "unat (rx_len f) = length hdr + 8 + length ?c"
      using length_frame_bytes [OF f(1)] i(3) by (simp add: fb)
    obtain sec2 gk2 where d: "rtw_tkip_decrypt jif passing (sec\<lparr>hw_decrypted := False\<rparr>) (tkip_gk st) (Some key)
        ((attrib f)\<lparr>rx_key_index := k\<rparr>) (unat (rx_len f)) (hdr @ iv @ ?c @ rest) = Some (True, hdr @ iv @ (m @ getcrc32 m) @ rest, sec2, gk2)"
      using tkip_decrypt_cipher [of "(attrib f)\<lparr>rx_key_index := k\<rparr>" "sec\<lparr>hw_decrypted := False\<rparr>" "Some key" key hdr iv
          "unat (rx_len f)" ?c "m @ getcrc32 m" jif passing "tkip_gk st" rest] a tkip i len
      by (auto simp: rx_key_def rc4_cipher_twice)
    have s: "sw_decrypt_frame w jif passing (Some key) (sec\<lparr>hw_decrypted := False\<rparr>) st (f\<lparr>attrib := (attrib f)\<lparr>rx_key_index := k\<rparr>\<rparr>)
        = Some (True, with_data (f\<lparr>attrib := (attrib f)\<lparr>rx_key_index := k\<rparr>\<rparr>) ((hdr @ iv @ m @ getcrc32 m) @ rest), sec2, st\<lparr>tkip_gk := gk2\<rparr>)"
      using d a(1) tkip by (simp add: sw_decrypt_frame_def tl fb TKIP_def WEP40_def WEP104_def)
    have l: "length (hdr @ iv @ m @ getcrc32 m) = length (frame_bytes f)" by (simp add: fb)
    have e: "0 < rx_encrypt (attrib f)" "\<not> rx_bdecrypted (attrib f) \<or> sw_decrypt sec"
      using a(1) tkip enc(2) by (simp_all add: TKIP_def)
    have n: "length (getcrc32 m) = rx_icv_len (attrib f)" by (simp add: i(2))
    show ?thesis using sw_decryptor [OF k e s f(1) tl l] n by blast
  next
    case aes
    let ?c = "ccm_encrypt (aes128k128d key) (ccmp_nonce w hdr iv) (ccmp_aad w hdr) m"
    have i: "rx_iv_len (attrib f) = 8" "rx_icv_len (attrib f) = 8" "length iv = 8"
      using a(3,4) aes by (simp_all add: SET_ICE_IV_LEN_def WEP40_def WEP104_def TKIP_def AES_def)
    have fb: "frame_bytes f = hdr @ iv @ ?c" using f(2) aes by (simp add: protected_body_def AES_def TKIP_def)
    obtain k where k: "rx_iv_key_index sec f = Some k" using rx_iv_index [OF f(1), of sec] fb a(2) i(3) by auto
    have h: "ccmp_header hdr" "length hdr + 16 + length m \<le> MAX_MSG_SIZE" using ae [OF aes] by simp_all
    have c: "length ?c = length m + 8" using h(1) by (simp add: length_ccm_encrypt)
    have len: "unat (rx_len f) = length hdr + 8 + length m + 8"
      using length_frame_bytes [OF f(1)] i(3) c by (simp add: fb)
    obtain sec2 gk2 x msg where x: "length x = 8" and d: "rtw_aes_decrypt w jif passing (sec\<lparr>hw_decrypted := False\<rparr>) (aes_gk st)
        (dec_message st) (Some key) ((attrib f)\<lparr>rx_key_index := k\<rparr>) (unat (rx_len f)) (hdr @ iv @ ?c @ rest)
      = Some (True, hdr @ iv @ m @ x @ rest, sec2, gk2, msg)"
      using rtw_aes_decrypt_of_ccm [OF _ _ _ _ h(1) i(3) st h(2) len, of "(attrib f)\<lparr>rx_key_index := k\<rparr>" w jif passing
          "sec\<lparr>hw_decrypted := False\<rparr>" "aes_gk st" key rest] a aes i(1) by auto
    have s: "sw_decrypt_frame w jif passing (Some key) (sec\<lparr>hw_decrypted := False\<rparr>) st (f\<lparr>attrib := (attrib f)\<lparr>rx_key_index := k\<rparr>\<rparr>)
        = Some (True, with_data (f\<lparr>attrib := (attrib f)\<lparr>rx_key_index := k\<rparr>\<rparr>) ((hdr @ iv @ m @ x) @ rest), sec2,
            st\<lparr>aes_gk := gk2, dec_message := msg\<rparr>)"
      using d a(1) aes by (simp add: sw_decrypt_frame_def tl fb AES_def TKIP_def WEP40_def WEP104_def)
    have l: "length (hdr @ iv @ m @ x) = length (frame_bytes f)" using c x by (simp add: fb)
    have e: "0 < rx_encrypt (attrib f)" "\<not> rx_bdecrypted (attrib f) \<or> sw_decrypt sec"
      using a(1) aes enc(2) by (simp_all add: AES_def)
    have n: "length x = rx_icv_len (attrib f)" by (simp add: i(2) x)
    show ?thesis using sw_decryptor [OF k e s f(1) tl l] n by blast
  qed
qed

section \<open>Integrity check and port\<close>

lemma mic_three_address:
  "three_address hdr \<Longrightarrow> rtw_seccalctkipmic key (hdr @ x) data pri = rtw_seccalctkipmic key hdr data pri"
  by (cases "hdr ! 1 AND 1 = 0"; cases "hdr ! 1 AND 2 = 0")
    (simp_all add: rtw_seccalctkipmic_def nth_append Let_def three_address_def)

lemma length_tkipmic [simp]: "length (rtw_seccalctkipmic key hdr data pri) = 8"
  by (simp add: rtw_seccalctkipmic_def Let_def)

text \<open>Data with its Michael code.\<close>

definition with_mic :: "u8 \<Rightarrow> bytes \<Rightarrow> bytes \<Rightarrow> bytes \<Rightarrow> u8 \<Rightarrow> bytes" where
  "with_mic enc mickey hdr m pri = m @ (if enc = TKIP then rtw_seccalctkipmic mickey hdr m pri else [])"

lemma frame_type_some:
  assumes "wf_frame f" "2 \<le> length (frame_bytes f)"
  shows "\<exists>t. GetFrameType (drop (nat (rx_data f)) (buf f)) = Some t"
proof -
  obtain rest where "drop (nat (rx_data f)) (buf f) = frame_bytes f @ rest"
    using rx_mem_frame [OF assms(1)] by (auto simp: rx_mem_def)
  then show ?thesis using assms(2)
    by (cases "frame_bytes f") (auto simp: GetFrameType_def RTW_GET_LE16_def rd_def)
qed

lemma pull_tail_psta [simp]: "rx_psta (snd (recvframe_pull_tail f k)) = rx_psta f"
  by (simp add: recvframe_pull_tail_def)

lemma chk_defrag_whole:
  assumes f: "wf_frame f" "frame_bytes f = hdr @ iv @ with_mic enc mickey hdr m (rx_priority (attrib f)) @ icv"
    and a: "rx_encrypt (attrib f) = enc" "rx_hdrlen (attrib f) = length hdr" "rx_iv_len (attrib f) = length iv"
      "rx_icv_len (attrib f) = length icv" "\<not> IS_MCAST (rx_ra (attrib f))" "rx_mfrag (attrib f) = 0" "rx_frag_num (attrib f) = 0"
      "rx_privacy (attrib f) = 0 \<Longrightarrow> enc = 0"
    and h: "three_address hdr" "enc = TKIP \<Longrightarrow> length iv = 8 \<and> length icv = 4"
  shows "\<exists>f' sec' icv'. recvframe_chk_defrag hertz jif (Some mickey) ky sec f (Some q) bq = Some (Some f', sec', Some q, bq, [])
    \<and> wf_frame f' \<and> attrib f' = attrib f \<and> rx_id f' = rx_id f \<and> rx_psta f' = rx_psta f \<and> frame_bytes f' = hdr @ iv @ m @ icv' \<and> length icv' = length icv"
proof -
  have l: "24 \<le> length hdr" using h(1) by (simp add: three_address_def)
  obtain t where t: "GetFrameType (drop (nat (rx_data f)) (buf f)) = Some t"
    using frame_type_some [OF f(1)] f(2) l by auto
  have e: "recvframe_chk_defrag hertz jif (Some mickey) ky sec f (Some q) bq
      = map_option (\<lambda>(r, s, freed). (r, s, Some q, bq, freed)) (defrag_chkmic hertz jif (Some mickey) ky sec (Some f) [])"
    using a(6,7) by (cases "defrag_chkmic hertz jif (Some mickey) ky sec (Some f) []")
      (auto simp: recvframe_chk_defrag_def t defrag_enqueue_def Let_def)
  show ?thesis
  proof (cases "enc = TKIP")
    case False
    then have "defrag_chkmic hertz jif (Some mickey) ky sec (Some f) [] = Some (Some f, sec, [])"
      using a(1) by (simp add: defrag_chkmic_def recvframe_chkmic_def)
    then show ?thesis using f False by (simp add: e with_mic_def)
  next
    case True
    define mic where "mic = rtw_seccalctkipmic mickey hdr m (rx_priority (attrib f))"
    have l8: "length iv = 8" "length icv = 4" using h(2) [OF True] by simp_all
    have fb: "frame_bytes f = (hdr @ iv) @ m @ mic @ icv" using f(2) True by (simp add: with_mic_def mic_def)
    have k: "mic_key sec (attrib f) mickey = Some mickey" using a(5) by (simp add: mic_key_def)
    have "recvframe_chkmic hertz jif (Some mickey) ky sec f
        = Some (True, chkmic_verdict hertz jif ky (attrib f) True sec, snd (recvframe_pull_tail f 8))"
      using recvframe_chkmic_tkip [OF f(1) _ k fb] True a l8 l by (simp add: body_offset_def mic_def mic_three_address [OF h(1)])
    moreover have "rx_privacy (attrib f) \<noteq> 0" using a(8) True by (auto simp: TKIP_def)
    ultimately have d: "defrag_chkmic hertz jif (Some mickey) ky sec (Some f) []
        = Some (Some (snd (recvframe_pull_tail f 8)), chkmic_verdict hertz jif ky (attrib f) True sec, [])"
      by (simp add: defrag_chkmic_def)
    have w: "wf_frame (snd (recvframe_pull_tail f (int 8)))"
      "frame_bytes (snd (recvframe_pull_tail f (int 8))) = take (length (frame_bytes f) - 8) (frame_bytes f)"
      using wf_pull_tail [OF f(1), of 8] l by (simp_all add: fb)
    have "take (length (frame_bytes f) - 8) (frame_bytes f) = hdr @ iv @ m @ take 4 mic"
      unfolding fb using l8 by (simp add: mic_def)
    then show ?thesis using d w l8 by (auto simp: e mic_def intro!: exI [of _ "take 4 mic"])
  qed
qed

text \<open>The port lets a frame pass when it is open, or the frame is EAPOL.\<close>

lemma portctrl_open:
  assumes f: "wf_frame f" "frame_bytes f = hdr @ iv @ m @ icv" "rx_hdrlen (attrib f) = length hdr" "rx_iv_len (attrib f) = length iv"
    and m: "8 \<le> length m" "blocked \<noteq> Some True \<or> m ! 6 = 0x88 \<and> m ! 7 = 0x8E"
  shows "portctrl alg blocked f = Some True"
proof -
  obtain y1 y2 where y: "take 2 (drop 6 m) = [y1, y2]" "y1 = m ! 6" "y2 = m ! 7"
    using m(1) by (auto simp: take_Suc_conv_app_nth numeral_eq_Suc)
  have "frame_rdn f (rx_hdrlen (attrib f) + rx_iv_len (attrib f) + 6) 2 = Some [m ! 6, m ! 7]"
    using frame_rdn_bytes [OF f(1), of "rx_hdrlen (attrib f) + rx_iv_len (attrib f) + 6" 2] f m(1) y by simp
  then show ?thesis using m(2) by (auto simp: portctrl_def bytes_le16_def split: option.split bool.split)
qed


section \<open>Conversion and delivery\<close>

lemma put_snap:
  "snap_payload (rtw_put_snap ty @ pl)" "drop 6 (rtw_put_snap ty @ pl) = ucast (drop_bit 8 ty) # ucast ty # pl"
  "length (rtw_put_snap ty) = 8"
proof -
  have "(ucast (drop_bit 8 ty) :: u8) = 0x81 \<and> (ucast ty :: u8) = 0x37 \<longleftrightarrow> ty = 0x8137"
    using bytes_le16_bytes [of ty] by (auto simp: bytes_le16_def)
  moreover have "(ucast (drop_bit 8 ty) :: u8) = 0x80 \<and> (ucast ty :: u8) = 0xF3 \<longleftrightarrow> ty = 0x80F3"
    using bytes_le16_bytes [of ty] by (auto simp: bytes_le16_def)
  ultimately show "snap_payload (rtw_put_snap ty @ pl)"
    by (auto simp: snap_payload_def rtw_put_snap_def rtw_rfc1042_header_def rtw_bridge_tunnel_header_def
      SNAP_ETH_TYPE_IPX_def SNAP_ETH_TYPE_APPLETALK_AARP_def)
  show "drop 6 (rtw_put_snap ty @ pl) = ucast (drop_bit 8 ty) # ucast ty # pl" "length (rtw_put_snap ty) = 8"
    by (simp_all add: rtw_put_snap_def)
qed

lemma frame_wrn_fields: "frame_wrn f i xs = Some g \<Longrightarrow> attrib g = attrib f \<and> rx_id g = rx_id f \<and> rx_psta g = rx_psta f"
  by (auto simp: frame_wrn_def split: bind_splits)

lemma wlanhdr_fields:
  assumes "wlanhdr_to_ethhdr False f = Some g"
  shows "attrib g = (attrib f)\<lparr>rx_eth_type := rx_eth_type (attrib g)\<rparr> \<and> rx_id g = rx_id f \<and> rx_psta g = rx_psta f"
  using assms
  by (auto simp: wlanhdr_to_ethhdr_def Let_def recvframe_pull_def recvframe_pull_tail_def
    split: bind_splits if_split_asm dest!: frame_wrn_fields)

text \<open>The converted frame is the Ethernet packet.\<close>

definition eth_packet :: "bytes \<Rightarrow> bytes \<Rightarrow> u16 \<Rightarrow> bytes \<Rightarrow> bytes" where
  "eth_packet dst src ty pl = dst @ src @ ucast (drop_bit 8 ty) # ucast ty # pl"

lemma convert_snap:
  assumes f: "wf_frame f" "frame_bytes f = hdr @ iv @ (rtw_put_snap ty @ pl) @ icv"
    and a: "rx_hdrlen (attrib f) = length hdr" "rx_iv_len (attrib f) = length iv" "24 \<le> length hdr" "length pl < 2 ^ 15"
      "length (rx_dst (attrib f)) = 6" "length (rx_src (attrib f)) = 6"
      "length icv = (if rx_encrypt (attrib f) = 0 then 0 else rx_icv_len (attrib f))"
  shows "\<exists>g. wlanhdr_to_ethhdr False f = Some g \<and> frame_bytes g = eth_packet (rx_dst (attrib f)) (rx_src (attrib f)) ty pl
    \<and> attrib g = (attrib f)\<lparr>rx_eth_type := rx_eth_type (attrib g)\<rparr> \<and> rx_id g = rx_id f \<and> rx_psta g = rx_psta f"
proof -
  have "\<exists>g. wlanhdr_to_ethhdr False f = Some g \<and> wf_frame g
    \<and> frame_bytes g = ethernet (rx_dst (attrib f)) (rx_src (attrib f)) (rtw_put_snap ty @ pl)
    \<and> rx_eth_type (attrib g) = eth_type_of (if snap_payload (rtw_put_snap ty @ pl) then drop 6 (rtw_put_snap ty @ pl) else rtw_put_snap ty @ pl)"
    by (rule wlanhdr_to_ethhdr_ok [where hdr = "hdr @ iv" and icv = icv]) (use f a in \<open>simp_all add: put_snap(3)\<close>)
  then show ?thesis using wlanhdr_fields by (fastforce simp: ethernet_def put_snap eth_packet_def simp del: drop_append)
qed

section \<open>A whole frame behind the checks\<close>

lemma delivered_indicate: "delivered (rtw_os_recv_indicate_pkt env ad p dst) = rtw_os_recv_indicate_pkt env ad p dst"
  by (simp add: rtw_os_recv_indicate_pkt_def Let_def)

lemma delivered_free [simp]: "delivered (map FREE_RECVFRAME ns) = []"
  by (induction ns) simp_all

lemma indicate_frame:
  "rtw_recv_indicatepkt env f ad = (outs, ad') \<Longrightarrow>
    delivered outs = rtw_os_recv_indicate_pkt env ad (frame_bytes f) (rx_dst (attrib f))"
  by (auto simp: rtw_recv_indicatepkt_def free_frames_def delivered_indicate)

text \<open>Delivery at once: no reordering session for the traffic class of the frame.\<close>

definition at_once :: "adapter \<Rightarrow> rx_frame \<Rightarrow> bool" where
  "at_once ad f \<longleftrightarrow> running ad \<and> \<not> check_fwstate (fw_state ad) WIFI_MP_STATE \<and> \<not> rx_amsdu (attrib f)
     \<and> (ht_opt ad \<longrightarrow> (case rx_psta f of None \<Rightarrow> False | Some i \<Rightarrow>
          (case rd (recvreorder_ctrl (peers ad ! i)) (unat (rx_priority (attrib f))) of
             None \<Rightarrow> False | Some c \<Rightarrow> \<not> rx_qos (attrib f) \<or> \<not> enable c)))"

lemma process_at_once:
  assumes o: "at_once ad f" and c: "wlanhdr_to_ethhdr False f = Some g" "rx_id g = rx_id f"
    "rx_psta g = rx_psta f" "rx_amsdu (attrib g) = rx_amsdu (attrib f)" "rx_qos (attrib g) = rx_qos (attrib f)"
  shows "\<exists>outs ad'. process_recv_indicatepkts env f ad = Some (True, outs, ad')
    \<and> delivered outs = rtw_os_recv_indicate_pkt env ad (frame_bytes g) (rx_dst (attrib g))"
proof (cases "ht_opt ad")
  case False
  obtain outs ad' where "rtw_recv_indicatepkt env g ad = (outs, ad')" by fastforce
  then show ?thesis using False o c(1) indicate_frame
    by (auto simp: process_recv_indicatepkts_def at_once_def)
next
  case True
  then obtain i c where s: "rx_psta f = Some i" "rd (recvreorder_ctrl (peers ad ! i)) (unat (rx_priority (attrib f))) = Some c"
    "\<not> rx_qos (attrib f) \<or> \<not> enable c" using o by (auto simp: at_once_def split: option.split_asm)
  have "\<exists>c'. recv_indicatepkt_reorder True (\<lambda>_. True) (reorder_entry g) c = (True, c', [Indicatepkt (reorder_entry g)])"
    using s(3) c(3-5) o by (auto simp: recv_indicatepkt_reorder_def reorder_entry_def at_once_def)
  then obtain c' where r: "recv_indicatepkt_reorder True (\<lambda>_. True) (reorder_entry g) c = (True, c', [Indicatepkt (reorder_entry g)])"
    by blast
  obtain outs ad' where x: "rtw_recv_indicatepkt env g ad = (outs, ad')" by fastforce
  have "run_events env (g # reorder_held ad) [Indicatepkt (reorder_entry g)] ad = Some (outs, ad')"
    by (simp add: reorder_entry_def x)
  then show ?thesis using True o c(1) s(1,2) r indicate_frame [OF x]
    by (auto simp: process_recv_indicatepkts_def indicate_reorder_def at_once_def Let_def)
qed


lemma delivered_drop: "drop_frame ns ad = (outs, ad') \<Longrightarrow> delivered outs = []"
  by (auto simp: drop_frame_def free_frames_def)

lemma get_peer_update:
  assumes "get_peer ad ta = Some (i, p)" "stapriv ad' = stapriv ad" "peers ad' = (peers ad)[i := p\<lparr>defrag_q := q\<rparr>]"
  shows "\<exists>p'. get_peer ad' ta = Some (i, p') \<and> ieee8021x_blocked p' = ieee8021x_blocked p \<and> recvreorder_ctrl p' = recvreorder_ctrl p"
  using assms by (cases "i < length (peers ad)") (auto simp: get_peer_def list_update_beyond not_less)

lemma posthandle_data:
  assumes f: "wf_frame f" "frame_bytes f = hdr @ iv @ protected_body w enc (peer_UncstKey p) ta hdr iv
        (with_mic enc (dot11tkiprxmickey p) hdr (rtw_put_snap ty @ pl) pri)"
    and a: "parsed dst src ra ta q pri priv enc (attrib f)" "length hdr = (if q then 26 else 24)"
      "length iv = rx_iv_len (attrib f)" "length dst = 6" "length src = 6" "\<not> IS_MCAST ra" "priv \<or> enc = 0"
    and enc: "enc = 0 \<or> enc = TKIP \<or> enc = AES" "enc \<noteq> 0 \<Longrightarrow> \<not> rx_bdecrypted (attrib f) \<or> sw_decrypt (security ad)"
      "enc = AES \<Longrightarrow> ccmp_header hdr \<and> length hdr + 24 + length pl \<le> MAX_MSG_SIZE"
    and h: "three_address hdr" "w = ieee80211w env" "length (dec_message (rx_static ad)) = MAX_MSG_SIZE" "length pl < 2 ^ 15"
    and p: "get_peer ad ta = Some (i, p)" "rx_psta f = Some i" "\<not> ieee8021x_blocked p \<or> ty = 0x888E" "at_once ad f"
  shows "\<exists>outs ad'. recv_func_posthandle env f ad = Some (SUCCESS, outs, ad')
    \<and> delivered outs = rtw_os_recv_indicate_pkt env ad (eth_packet dst src ty pl) dst"
proof -
  let ?m = "rtw_put_snap ty @ pl"
  have at: "rx_encrypt (attrib f) = enc" "rx_hdrlen (attrib f) = length hdr" "rx_ta (attrib f) = ta" "rx_ra (attrib f) = ra"
    "(rx_iv_len (attrib f), rx_icv_len (attrib f)) = SET_ICE_IV_LEN enc" "rx_priority (attrib f) = pri"
    "rx_mfrag (attrib f) = 0" "rx_frag_num (attrib f) = 0" "rx_privacy (attrib f) = 0 \<Longrightarrow> enc = 0"
    "rx_dst (attrib f) = dst" "rx_src (attrib f) = src" "\<not> rx_amsdu (attrib f)" "rx_qos (attrib f) = q"
    using a(1,2,7) by (auto simp: parsed_def)
  have f2: "frame_bytes f = hdr @ iv @ protected_body w enc (peer_UncstKey p) (rx_ta (attrib f)) hdr iv
      (with_mic enc (dot11tkiprxmickey p) hdr ?m pri)" using f(2) at(3) by simp
  have iv: "rx_iv_len (attrib f) = length iv" and ra: "\<not> IS_MCAST (rx_ra (attrib f))" using a at(4) by simp_all
  have ae: "ccmp_header hdr \<and> length hdr + 16 + length (with_mic enc (dot11tkiprxmickey p) hdr ?m pri) \<le> MAX_MSG_SIZE" if "enc = AES"
    using enc(3) [OF that] that by (simp add: with_mic_def put_snap(3) TKIP_def AES_def)
  have "\<exists>f' sec' st' icv. decryptor w (now env) (passing_time_ms env) (Some (peer_UncstKey p)) (security ad) (rx_static ad) f
      = Some (True, f', sec', st') \<and> wf_frame f'
    \<and> attrib f' = (attrib f)\<lparr>rx_key_index := rx_key_index (attrib f'), rx_bdecrypted := True\<rparr> \<and> rx_id f' = rx_id f \<and> rx_psta f' = rx_psta f
    \<and> frame_bytes f' = hdr @ iv @ with_mic enc (dot11tkiprxmickey p) hdr ?m pri @ icv \<and> length icv = rx_icv_len (attrib f)"
    using decryptor_body [OF f(1) f2 at(1,2) iv at(5) ra enc(1,2) ae h(3)] by blast
  then obtain f1 sec st icv where d: "decrypt_data env f ad = Some (True, f1, ad\<lparr>security := sec, rx_static := st\<rparr>)"
    and f1: "wf_frame f1" "attrib f1 = (attrib f)\<lparr>rx_key_index := rx_key_index (attrib f1), rx_bdecrypted := True\<rparr>"
      "rx_id f1 = rx_id f" "rx_psta f1 = rx_psta f"
      "frame_bytes f1 = hdr @ iv @ with_mic enc (dot11tkiprxmickey p) hdr ?m pri @ icv" "length icv = rx_icv_len (attrib f)"
    using p(1) at(3) h(2) by (fastforce simp: decrypt_data_def)
  have sel: "rx_encrypt (attrib f1) = rx_encrypt (attrib f)" "rx_hdrlen (attrib f1) = rx_hdrlen (attrib f)" "rx_ta (attrib f1) = rx_ta (attrib f)" "rx_ra (attrib f1) = rx_ra (attrib f)" "rx_iv_len (attrib f1) = rx_iv_len (attrib f)" "rx_icv_len (attrib f1) = rx_icv_len (attrib f)" "rx_priority (attrib f1) = rx_priority (attrib f)"
    "rx_mfrag (attrib f1) = rx_mfrag (attrib f)" "rx_frag_num (attrib f1) = rx_frag_num (attrib f)" "rx_privacy (attrib f1) = rx_privacy (attrib f)" "rx_dst (attrib f1) = rx_dst (attrib f)" "rx_src (attrib f1) = rx_src (attrib f)" "rx_amsdu (attrib f1) = rx_amsdu (attrib f)" "rx_qos (attrib f1) = rx_qos (attrib f)"
    by (subst f1(2); simp)+
  have at1: "rx_encrypt (attrib f1) = enc" "rx_hdrlen (attrib f1) = length hdr" "rx_ta (attrib f1) = ta" "rx_ra (attrib f1) = ra"
    "rx_iv_len (attrib f1) = length iv" "rx_icv_len (attrib f1) = length icv" "rx_priority (attrib f1) = pri"
    "rx_mfrag (attrib f1) = 0" "rx_frag_num (attrib f1) = 0" "rx_privacy (attrib f1) = 0 \<Longrightarrow> enc = 0"
    "rx_dst (attrib f1) = dst" "rx_src (attrib f1) = src" "\<not> rx_amsdu (attrib f1)" "rx_qos (attrib f1) = q"
    using at iv f1(6) by (simp_all add: sel)
  have tk: "length iv = 8 \<and> length icv = 4" if "enc = TKIP"
    using at(5) iv f1(6) that by (simp add: SET_ICE_IV_LEN_def TKIP_def WEP40_def WEP104_def)
  have fb: "frame_bytes f1 = hdr @ iv @ with_mic enc (dot11tkiprxmickey p) hdr ?m (rx_priority (attrib f1)) @ icv"
    using f1(5) at1(7) by simp
  let ?ad = "ad\<lparr>security := sec, rx_static := st\<rparr>"
  obtain f2 sec2 icv2 where c: "recvframe_chk_defrag (hz env) (now env) (Some (dot11tkiprxmickey p)) (mlme_key_index ad) sec f1 (Some (defrag_q p)) []
      = Some (Some f2, sec2, Some (defrag_q p), [], [])"
    and f2': "wf_frame f2" "attrib f2 = attrib f1" "rx_id f2 = rx_id f1" "rx_psta f2 = rx_psta f1" "frame_bytes f2 = hdr @ iv @ ?m @ icv2"
      "length icv2 = length icv"
    using chk_defrag_whole [OF f1(1) fb at1(1,2,5,6) _ at1(8,9,10) h(1) tk] a(6) at1(4) by blast
  let ?ad2 = "ad\<lparr>security := sec2, rx_static := st, peers := (peers ad)[i := p]\<rparr>"
  have dd: "defrag_data env f1 ?ad = Some (Some f2, [], ?ad2)"
    using p(1) c at1(3) by (simp add: defrag_data_def get_peer_def free_frames_def)
  have port: "portctrl (dot11AuthAlgrthm sec2) (map_option (\<lambda>(i, s). ieee8021x_blocked s) (get_peer ?ad2 ta)) f2 = Some True"
  proof (rule portctrl_open [OF f2'(1,5)])
    show "rx_hdrlen (attrib f2) = length hdr" "rx_iv_len (attrib f2) = length iv" using at1(2,5) by (simp_all add: f2'(2))
    show "8 \<le> length ?m" by (simp add: put_snap(3))
    show "map_option (\<lambda>(i, s). ieee8021x_blocked s) (get_peer ?ad2 ta) \<noteq> Some True \<or> ?m ! 6 = 0x88 \<and> ?m ! 7 = 0x8E"
      using get_peer_update [OF p(1), of ?ad2 "defrag_q p"] p(3) by (auto simp: rtw_put_snap_def)
  qed
  obtain g where g: "wlanhdr_to_ethhdr False f2 = Some g" "frame_bytes g = eth_packet dst src ty pl"
    "attrib g = (attrib f2)\<lparr>rx_eth_type := rx_eth_type (attrib g)\<rparr>" "rx_id g = rx_id f2" "rx_psta g = rx_psta f2"
  proof -
    have s: "24 \<le> length hdr" using h(1) by (simp add: three_address_def)
    have "length icv2 = (if rx_encrypt (attrib f2) = 0 then 0 else rx_icv_len (attrib f2))"
      using at1(1,6) f2'(2,6) at(5) sel(6) f1(6)
      by (auto simp: SET_ICE_IV_LEN_def WEP40_def WEP104_def TKIP_def AES_def)
    then show ?thesis using convert_snap [OF f2'(1,5)] at1 f2'(2) a(4,5) s h(4) that by auto
  qed
  have o: "at_once ?ad2 f2"
  proof -
    have "recvreorder_ctrl ((peers ad)[i := p\<lparr>defrag_q := defrag_q p\<rparr>] ! i) = recvreorder_ctrl (peers ad ! i)"
      using p(1) by (cases "i < length (peers ad)") (auto simp: get_peer_def)
    then show ?thesis using p(2,4) f2'(2,4) f1(4) at1(7,13,14) at(6,12,13) by (auto simp: at_once_def split: option.splits)
  qed
  have gf: "rx_amsdu (attrib g) = rx_amsdu (attrib f2)" "rx_qos (attrib g) = rx_qos (attrib f2)" "rx_dst (attrib g) = dst"
    using at1(11) f2'(2) by (subst g(3); simp)+
  obtain outs ad' where pr: "process_recv_indicatepkts env f2 ?ad2 = Some (True, outs, ad')"
    "delivered outs = rtw_os_recv_indicate_pkt env ?ad2 (frame_bytes g) (rx_dst (attrib g))"
    using process_at_once [OF o g(1,4,5) gf(1,2)] by blast
  have same: "rtw_os_recv_indicate_pkt env ?ad2 x y = rtw_os_recv_indicate_pkt env ad x y" for x y
    by (simp add: rtw_os_recv_indicate_pkt_def Let_def)
  have "rx_ta (attrib f2) = ta" using at1(3) f2'(2) by simp
  then have "recv_func_posthandle env f ad = Some (SUCCESS, COUNT_RX_STATS # outs, ad')"
    using port pr(1) by (simp add: recv_func_posthandle_def d dd)
  then show ?thesis using pr(2) by (simp add: same g(2) gf(3))
qed

section \<open>A packet through both drivers\<close>

lemma recv_func_data:
  assumes f: "wf_frame f" "frame_bytes f = wlan_header (fc_word ap q priv) a1 a2 a3 (push_bit 4 seqno) (if q then [pri, 0] else [])
        @ iv @ protected_body w enc (peer_UncstKey p) a2 (wlan_header (fc_word ap q priv) a1 a2 a3 (push_bit 4 seqno) (if q then [pri, 0] else []))
          iv (with_mic enc (dot11tkiprxmickey p) (wlan_header (fc_word ap q priv) a1 a2 a3 (push_bit 4 seqno) (if q then [pri, 0] else []))
            (rtw_put_snap ty @ pl) pri)"
    and l: "length a1 = 6" "length a2 = 6" "length a3 = 6" "pri < 8" "\<not> q \<Longrightarrow> pri = 0" "length iv = fst (SET_ICE_IV_LEN enc)"
      "length pl < 2 ^ 15"
    and acc: "rx_accepts ad ap dst src bssid i" "(a1, a2, a3) = (if ap then (dst, bssid, src) else (bssid, src, dst))" "\<not> IS_MCAST a1"
    and fresh: "tid_rxseq (pool (stapriv ad) ! i) ! unat pri \<noteq> push_bit 4 seqno"
    and enc: "enc = (if priv then GET_ENCRY_ALGO (security ad) (dot118021XPrivacy (peers ad ! i)) False (rx_encrypt (attrib f)) else 0)"
      "enc = 0 \<or> enc = TKIP \<or> enc = AES" "\<not> rx_bdecrypted (attrib f)" "enc = AES \<Longrightarrow> 50 + length pl \<le> MAX_MSG_SIZE"
      "enc \<noteq> 0 \<Longrightarrow> busetkipkey (security ad)"
    and h: "ccmp_header (wlan_header (fc_word ap q priv) a1 a2 a3 (push_bit 4 seqno) (if q then [pri, 0] else []))"
      "three_address (wlan_header (fc_word ap q priv) a1 a2 a3 (push_bit 4 seqno) (if q then [pri, 0] else []))"
      "w = ieee80211w env" "length (dec_message (rx_static ad)) = MAX_MSG_SIZE"
    and p: "p = peers ad ! i" "get_peer ad a2 = Some (i, p)" "\<not> ieee8021x_blocked p \<or> ty = 0x888E"
      "running ad" "\<not> check_fwstate (fw_state ad) WIFI_MP_STATE" "uc_swdec_pending_queue ad = []"
      "ht_opt ad \<Longrightarrow> \<exists>c. rd (recvreorder_ctrl p) (unat pri) = Some c \<and> (\<not> q \<or> \<not> enable c)"
  shows "\<exists>outs ad'. recv_func env f ad = Some (SUCCESS, outs, ad')
    \<and> delivered outs = rtw_os_recv_indicate_pkt env ad (eth_packet dst src ty pl) dst"
proof -
  let ?h = "wlan_header (fc_word ap q priv) a1 a2 a3 (push_bit 4 seqno) (if q then [pri, 0] else [])"
  obtain rest where "rx_mem f = frame_bytes f @ rest" using rx_mem_frame [OF f(1)] by blast
  then have m: "rx_mem f = ?h @ (iv @ protected_body w enc (peer_UncstKey p) a2 ?h iv
      (with_mic enc (dot11tkiprxmickey p) ?h (rtw_put_snap ty @ pl) pri) @ rest)" using f(2) by simp
  have e: "enc = (if priv then GET_ENCRY_ALGO (security ad) (dot118021XPrivacy (peers ad ! i)) (IS_MCAST a1) (rx_encrypt (attrib f)) else 0)"
    using enc(1) acc(3) by simp
  obtain a' o1 ad1 where v: "validate_recv_frame env ad f = Some (SUCCESS, f\<lparr>attrib := a', rx_psta := Some i\<rparr>, o1, ad1)"
    "parsed dst src a1 a2 q pri priv enc a'" "rx_bdecrypted a' = rx_bdecrypted (attrib f)" "same_net ad ad1" "delivered o1 = []"
    using validate_data [OF m l(1-5) acc(1,2) fresh e] by blast
  let ?f = "f\<lparr>attrib := a', rx_psta := Some i\<rparr>"
  have s: "security ad1 = security ad" "peers ad1 = peers ad" "fw_state ad1 = fw_state ad" "running ad1 = running ad" "ht_opt ad1 = ht_opt ad"
    "rx_static ad1 = rx_static ad" "get_peer ad1 = get_peer ad" "myhwaddr ad1 = myhwaddr ad"
    "rtw_get_stainfo (stapriv ad1) = rtw_get_stainfo (stapriv ad)"
  proof -
    obtain x y where "ad1 = ad\<lparr>stapriv := x, bIsAnyNonBEPkts := y\<rparr>" "rtw_get_stainfo x = rtw_get_stainfo (stapriv ad)"
      using v(4) unfolding same_net_def by metis
    then show "security ad1 = security ad" "peers ad1 = peers ad" "fw_state ad1 = fw_state ad" "running ad1 = running ad"
      "ht_opt ad1 = ht_opt ad" "rx_static ad1 = rx_static ad" "get_peer ad1 = get_peer ad" "myhwaddr ad1 = myhwaddr ad"
      "rtw_get_stainfo (stapriv ad1) = rtw_get_stainfo (stapriv ad)" by (simp_all add: get_peer_def fun_eq_iff)
  qed
  have pf: "wf_frame ?f" "frame_bytes ?f = ?h @ iv @ protected_body w enc (peer_UncstKey p) a2 ?h iv
      (with_mic enc (dot11tkiprxmickey p) ?h (rtw_put_snap ty @ pl) pri)" using f by simp_all
  have li: "length iv = rx_iv_len (attrib ?f)" using v(2) l(6) by (simp add: parsed_def prod_eq_iff)
  have lh: "length ?h = (if q then 26 else 24)" using l(1-3) by simp
  have la: "length dst = 6" "length src = 6" using acc(2) l(1-3) by (auto split: if_split_asm)
  have pe: "priv \<or> enc = 0" using enc(1) by auto
  have ec: "enc \<noteq> 0 \<Longrightarrow> \<not> rx_bdecrypted (attrib ?f) \<or> sw_decrypt (security ad1)" using v(3) enc(3) by simp
  have ae: "enc = AES \<Longrightarrow> ccmp_header ?h \<and> length ?h + 24 + length pl \<le> MAX_MSG_SIZE" using enc(4) h(1) lh by simp
  have ao: "at_once ad1 ?f" using p v(2) by (auto simp: at_once_def s parsed_def)
  have "\<exists>outs ad'. recv_func_posthandle env ?f ad1 = Some (SUCCESS, outs, ad')
      \<and> delivered outs = rtw_os_recv_indicate_pkt env ad1 (eth_packet dst src ty pl) dst"
    by (rule posthandle_data [OF pf, where q = q and src = src and ra = a1 and priv = priv and i = i])
      (use v(2) lh li la acc(3) pe enc(2) ec ae h p(2,3) ao l(7) s(6,7) in simp_all)
  then obtain o2 ad2 where ph: "recv_func_posthandle env ?f ad1 = Some (SUCCESS, o2, ad2)"
    "delivered o2 = rtw_os_recv_indicate_pkt env ad1 (eth_packet dst src ty pl) dst" by blast
  have same: "rtw_os_recv_indicate_pkt env ad1 x y = rtw_os_recv_indicate_pkt env ad x y" for x y
    by (simp add: rtw_os_recv_indicate_pkt_def Let_def s rtw_get_bcmc_stainfo_def)
  have "ad\<lparr>uc_swdec_pending_queue := []\<rparr> = ad" using p(6) by (cases ad) simp
  then have hp: "handle_pending env ad = Some ([], ad)" by (simp add: handle_pending_def p(6))
  have nw: "\<not> must_wait ad1 ?f" using enc(5) v(2) by (auto simp: must_wait_def s parsed_def)
  have "recv_func env f ad = Some (SUCCESS, o1 @ o2, ad2)"
    by (simp add: recv_func_def hp recv_func_prehandle_def v(1) nw ph(1))
  then show ?thesis using ph(2) v(5) by (simp add: same)
qed

text \<open>The receiver \<open>rx\<close> is the peer of the transmitter \<open>tx\<close>: it has the same BSSID and keys, the port is open or the
  packet is EAPOL, no reordering session is open and no frame waits for a key.\<close>

definition receives :: "adapter \<Rightarrow> tx_attrib \<Rightarrow> adapter \<Rightarrow> nat \<Rightarrow> bool" where
  "receives tx a rx i \<longleftrightarrow> (let ap = (\<not> check_fwstate (fw_state tx) WIFI_STATION_STATE); p = peers rx ! i in
     rx_accepts rx ap (attrib_dst a) (if ap then attrib_src a else attrib_ta a) (mybssid tx) i
     \<and> (encrypt a \<noteq> 0 \<longrightarrow> peer_UncstKey p = attrib_UncstKey a \<and> busetkipkey (security rx)
          \<and> (\<forall>e. GET_ENCRY_ALGO (security rx) (dot118021XPrivacy p) False e = encrypt a))
     \<and> (encrypt a = TKIP \<longrightarrow> dot11tkiprxmickey p = attrib_tkiptxmickey a)
     \<and> (ieee8021x_blocked p \<longrightarrow> ether_type a = 0x888E)
     \<and> running rx \<and> \<not> check_fwstate (fw_state rx) WIFI_MP_STATE \<and> uc_swdec_pending_queue rx = []
     \<and> (ht_opt rx \<longrightarrow> (case rd (recvreorder_ctrl p) (unat (tx_priority a)) of None \<Rightarrow> False
          | Some c \<Rightarrow> \<not> sends_qc tx a \<or> \<not> enable c))
     \<and> length (dec_message (rx_static rx)) = MAX_MSG_SIZE)"

text \<open>What fits: one fragment, the transmit buffer and the receiver's cipher buffer.\<close>

definition fits_frame :: "adapter \<Rightarrow> nat \<Rightarrow> int \<Rightarrow> bytes \<Rightarrow> bytes \<Rightarrow> tx_attrib \<Rightarrow> nat \<Rightarrow> bool" where
  "fits_frame tx base pkt_offset pre R a n \<longleftrightarrow> one_fragment (int (xmit_frag_len tx) - 4) a n \<and> n < 2 ^ 15
     \<and> hw_hdr_offset pkt_offset = length pre \<and> (base + length pre) mod 4 = 0 \<and> 74 + n \<le> length R
     \<and> (encrypt a = AES \<longrightarrow> 50 + n \<le> MAX_MSG_SIZE)"

lemma coalesce_header:
  "rtw_xmitframe_coalesce w ad base pkt_offset skb a (Some mem) = Some (True, mem', a', ad')
    \<Longrightarrow> \<exists>hdr a1 ad1. rtw_make_wlanhdr ad a = Some (True, hdr, a1, ad1)"
  by (auto simp: rtw_xmitframe_coalesce_def Let_def split: bind_splits if_split_asm)

text \<open>The header of the packet and its body on the air.\<close>

definition packet_header :: "adapter \<Rightarrow> tx_attrib \<Rightarrow> u16 \<Rightarrow> bytes" where
  "packet_header tx a sq =
     (let st = check_fwstate (fw_state tx) WIFI_STATION_STATE; q = sends_qc tx a
      in wlan_header (fc_word (\<not> st) q (encrypt a \<noteq> 0)) (if st then mybssid tx else attrib_dst a)
        (if st then attrib_ta a else mybssid tx) (if st then attrib_dst a else attrib_src a) (push_bit 4 sq)
        (if q then [tx_priority a, 0] else []))"

definition packet_body :: "bool \<Rightarrow> tx_attrib \<Rightarrow> bytes \<Rightarrow> bytes \<Rightarrow> bytes" where
  "packet_body w a h pl = protected_body w (encrypt a) (attrib_UncstKey a) (attrib_ta a) h (iv_of a)
     (with_mic (encrypt a) (attrib_tkiptxmickey a) h (rtw_put_snap (ether_type a) @ pl) (tx_priority a))"

lemma packet_ready:
  assumes tx: "one_mode tx" "update_attrib tx (eth_packet dst src ty pl) a0 = Some (True, a, cmds, tx1)"
    and fit: "fits_frame tx base pkt_offset pre R a (length pl)" "length dst = 6" "length src = 6"
      "length (attrib_iv a0) = 18" "length (attrib_icv a0) = 16"
    and c: "sw_cipher a" "\<not> IS_MCAST (attrib_ra a)"
  shows "packet_attrib tx dst src ty (length pl) a" "tx1 = tx\<lparr>peers := peers tx1\<rparr>" "infra_mode tx1" "data_attrib tx1 a"
    "tx_ready tx1 base pkt_offset pl a pre R"
proof -
  have sk: "eth_packet dst src ty pl = dst @ src @ [ucast (drop_bit 8 ty), ucast ty] @ pl" by (simp add: eth_packet_def)
  have iv18: "8 \<le> length (attrib_iv a0)" using fit(4) by simp
  note U = update_attrib_ok [OF tx(1) tx(2) [unfolded sk] fit(2,3) iv18]
  show pa: "packet_attrib tx dst src ty (length pl) a" using U(1) by (simp add: bytes_le16_bytes)
  show "tx1 = tx\<lparr>peers := peers tx1\<rparr>" by (rule U(2))
  obtain ps where t1: "tx1 = tx\<lparr>peers := ps\<rparr>" using U(2) by blast
  show m: "infra_mode tx1" using tx(1) by (simp add: t1 one_mode_def infra_mode_def)
  have "data_attrib tx1 a = data_attrib tx a" by (simp add: data_attrib_def t1 sends_qc_def)
  then show d: "data_attrib tx1 a" using pa by (simp add: packet_attrib_def)
  show "tx_ready tx1 base pkt_offset pl a pre R"
    using m d pa c fit(1,5) U(3) by (simp add: tx_ready_def fits_frame_def packet_attrib_def cipher_attrib_def wf_iv_def t1)
qed

lemma packet_on_air:
  assumes tx: "one_mode tx" "update_attrib tx (eth_packet dst src ty pl) a0 = Some (True, a, cmds, tx1)"
      "rtw_xmitframe_coalesce w tx1 base pkt_offset (eth_packet dst src ty pl) a (Some (pre @ R)) = Some (True, Some mem, a2, tx2)"
    and fit: "fits_frame tx base pkt_offset pre R a (length pl)" "length dst = 6" "length src = 6"
      "length (attrib_iv a0) = 18" "length (attrib_icv a0) = 16"
    and c: "sw_cipher a" "\<not> IS_MCAST (attrib_ra a)" "encrypt a = TKIP \<Longrightarrow> qos_en a \<or> tx_priority a = 0"
  shows "packet_attrib tx dst src ty (length pl) a"
    "\<exists>sq. take (last_txcmdsz a2) (drop (length pre) mem) = packet_header tx a sq @ iv_of a @ packet_body w a (packet_header tx a sq) pl
      \<and> ccmp_header (packet_header tx a sq) \<and> three_address (packet_header tx a sq)"
proof -
  note P = packet_ready [OF tx(1,2) fit c(1,2)]
  obtain hdr a1 tx1' where m: "rtw_make_wlanhdr tx1 a = Some (True, hdr, a1, tx1')" using coalesce_header [OF tx(3)] by blast
  show "packet_attrib tx dst src ty (length pl) a" by (rule P(1))
  obtain ps where t1: "tx1 = tx\<lparr>peers := ps\<rparr>" using P(2) by blast
  have sq1: "sends_qc tx1 x = sends_qc tx x" "fw_state tx1 = fw_state tx" for x by (simp_all add: t1 sends_qc_def)
  have sk: "eth_packet dst src ty pl = (dst @ src @ [ucast (drop_bit 8 ty), ucast ty]) @ pl" by (simp add: eth_packet_def)
  have "length (dst @ src @ [ucast (drop_bit 8 ty), ucast ty]) = 14" using fit(2,3) by simp
  from coalesce_frame [OF P(5) this m, of w] obtain rest where mem: "mem = pre @ sent_frame w tx1 a1 pl @ rest"
    "last_txcmdsz a2 = length (sent_frame w tx1 a1 pl)" using tx(3) by (auto simp: sk)
  obtain sq am where a1: "a1 = a\<lparr>seqnum := sq, ampdu_en := am\<rparr>" using make_wlanhdr_ok [OF P(3,4) m] by blast
  have d1: "data_attrib tx1 a1" using P(4) by (simp add: a1 data_attrib_def sends_qc_def)
  have hd: "sent_header tx1 a1 = packet_header tx a sq"
    by (simp add: sent_header_def packet_header_def data_fc_word [OF d1] sq1 Let_def) (simp add: a1 t1 sends_qc_def)
  have "sent_msdu h a1 m = with_mic (encrypt a) (attrib_tkiptxmickey a) h m (tx_priority a)" for h m
    using c(3) by (auto simp: sent_msdu_def with_mic_def a1)
  then have body: "sealed w h a1 (sent_msdu h a1 (rtw_put_snap (ether_type a1) @ pl)) = packet_body w a h pl" for h
    by (simp add: sealed_body packet_body_def) (simp add: a1 iv_of_def)
  have "sent_frame w tx1 a1 pl = packet_header tx a sq @ iv_of a @ packet_body w a (packet_header tx a sq) pl"
    by (simp add: sent_frame_def hd body Let_def) (simp add: a1 iv_of_def)
  then show "\<exists>sq. take (last_txcmdsz a2) (drop (length pre) mem) = packet_header tx a sq @ iv_of a @ packet_body w a (packet_header tx a sq) pl
      \<and> ccmp_header (packet_header tx a sq) \<and> three_address (packet_header tx a sq)"
    using sent_header_shape [OF P(3) d1] unfolding hd by (intro exI [of _ sq]) (simp add: mem)
qed

lemma receivesD:
  assumes "receives tx a rx i"
  shows "rx_accepts rx (\<not> check_fwstate (fw_state tx) WIFI_STATION_STATE) (attrib_dst a)
      (if check_fwstate (fw_state tx) WIFI_STATION_STATE then attrib_ta a else attrib_src a) (mybssid tx) i"
    "encrypt a \<noteq> 0 \<Longrightarrow> peer_UncstKey (peers rx ! i) = attrib_UncstKey a \<and> busetkipkey (security rx)
          \<and> (\<forall>e. GET_ENCRY_ALGO (security rx) (dot118021XPrivacy (peers rx ! i)) False e = encrypt a)"
    "encrypt a = TKIP \<Longrightarrow> dot11tkiprxmickey (peers rx ! i) = attrib_tkiptxmickey a"
    "\<not> ieee8021x_blocked (peers rx ! i) \<or> ether_type a = 0x888E"
    "running rx" "\<not> check_fwstate (fw_state rx) WIFI_MP_STATE" "uc_swdec_pending_queue rx = []"
    "ht_opt rx \<Longrightarrow> \<exists>c. rd (recvreorder_ctrl (peers rx ! i)) (unat (tx_priority a)) = Some c \<and> (\<not> sends_qc tx a \<or> \<not> enable c)"
    "length (dec_message (rx_static rx)) = MAX_MSG_SIZE"
  using assms by (auto simp: receives_def Let_def split: option.split_asm)

text \<open>C1. The data path from end to end: when the network stack of a station (or of an access point) hands a unicast
  packet to the driver, \<open>update_attrib\<close> accepts it and \<open>rtw_xmitframe_coalesce\<close> puts it into a transmit buffer,
  unencrypted or under TKIP or CCMP, then \<open>recv_func\<close> of the driver at the other end, when it gets the bytes that are
  to be sent, accepts the frame and hands on exactly one packet: the one that was sent (with the
  address of the station as its source), as \<open>rtw_os_recv_indicate_pkt\<close> does.\<close>

theorem data_path_roundtrip:
  assumes tx: "one_mode tx" "update_attrib tx (eth_packet dst src ty pl) a0 = Some (True, a, cmds, tx1)"
      "rtw_xmitframe_coalesce (ieee80211w env) tx1 base pkt_offset (eth_packet dst src ty pl) a (Some (pre @ R))
        = Some (True, Some mem, a2, tx2)"
    and fit: "fits_frame tx base pkt_offset pre R a (length pl)" "length dst = 6" "length src = 6"
      "length (attrib_iv a0) = 18" "length (attrib_icv a0) = 16"
    and c: "sw_cipher a" "\<not> IS_MCAST (attrib_ra a)" "encrypt a = TKIP \<Longrightarrow> qos_en a \<or> tx_priority a = 0"
    and rx: "receives tx a rx i"
    and f: "wf_frame f" "frame_bytes f = take (last_txcmdsz a2) (drop (length pre) mem)" "\<not> rx_bdecrypted (attrib f)"
      "RTW_GET_LE16 (frame_bytes f) 22 \<noteq> Some (tid_rxseq (pool (stapriv rx) ! i) ! unat (tx_priority a))"
  shows "\<exists>outs rx'. recv_func env f rx = Some (SUCCESS, outs, rx') \<and> delivered outs = rtw_os_recv_indicate_pkt env rx
    (eth_packet dst (if check_fwstate (fw_state tx) WIFI_STATION_STATE then myhwaddr tx else src) ty pl) dst"
proof -
  define st where "st = check_fwstate (fw_state tx) WIFI_STATION_STATE"
  note air = packet_on_air [OF tx fit c]
  from air(2) obtain sq where fb: "frame_bytes f = packet_header tx a sq @ iv_of a @ packet_body (ieee80211w env) a (packet_header tx a sq) pl"
    and shape: "ccmp_header (packet_header tx a sq)" "three_address (packet_header tx a sq)" using f(2) by auto
  define x1 x2 x3 where "x1 = (if st then mybssid tx else dst)" and "x2 = (if st then attrib_ta a else mybssid tx)"
    and "x3 = (if st then dst else src)"
  have pf: "attrib_dst a = dst" "attrib_src a = src" "ether_type a = ty" "attrib_ta a = (if st then myhwaddr tx else mybssid tx)"
    "attrib_ra a = (if st then mybssid tx else dst)" "cipher_attrib a" "tx_priority a < 8" "\<not> sends_qc tx a \<Longrightarrow> tx_priority a = 0"
    using air(1) by (simp_all add: packet_attrib_def data_attrib_def st_def)
  have H: "packet_header tx a sq = wlan_header (fc_word (\<not> st) (sends_qc tx a) (encrypt a \<noteq> 0)) x1 x2 x3 (push_bit 4 sq)
      (if sends_qc tx a then [tx_priority a, 0] else [])"
    by (simp add: packet_header_def st_def x1_def x2_def x3_def pf(1,2) Let_def)
  have lx: "length x1 = 6" "length x2 = 6" "length x3 = 6"
    using fit(2,3) tx(1) pf(4) by (simp_all add: x1_def x2_def x3_def one_mode_def infra_mode_def)
  have enc: "encrypt a = 0 \<or> encrypt a = TKIP \<or> encrypt a = AES" using c(1) by (auto simp: sw_cipher_def)
  have li: "length (iv_of a) = fst (SET_ICE_IV_LEN (encrypt a))"
    using pf(6) enc by (auto simp: cipher_attrib_def iv_of_def SET_ICE_IV_LEN_def WEP40_def WEP104_def TKIP_def AES_def)
  define p where "p = peers rx ! i"
  note R = receivesD [OF rx, folded p_def, unfolded pf(1-3), folded st_def]
  have gp: "get_peer rx x2 = Some (i, p)"
    using R(1) c(2) pf(5) by (auto simp: get_peer_def p_def rx_accepts_def sta2sta_station_def x2_def split: if_split_asm)
  have "packet_body w a h pl = protected_body w (encrypt a) (peer_UncstKey p) x2 h (iv_of a)
      (with_mic (encrypt a) (dot11tkiprxmickey p) h (rtw_put_snap ty @ pl) (tx_priority a))" for w h
    using R(2,3) pf(3,4) by (cases "encrypt a = 0") (auto simp: packet_body_def protected_body_def with_mic_def x2_def TKIP_def AES_def)
  note body = fb [unfolded this]
  have fresh: "tid_rxseq (pool (stapriv rx) ! i) ! unat (tx_priority a) \<noteq> push_bit 4 sq"
    using f(4) unfolding body H by (auto simp: wlan_header_reads [OF lx])
  have se: "(if check_fwstate (fw_state tx) WIFI_STATION_STATE then myhwaddr tx else src) = (if st then attrib_ta a else src)"
    using pf(4) by (simp add: st_def)
  show ?thesis unfolding se
    by (rule recv_func_data [OF f(1) body [unfolded H] lx pf(7,8) li _ R(1)])
      (use fresh shape R enc f(3) gp fit(1) c(2) pf(5) in
        \<open>auto simp: H fits_frame_def x1_def x2_def x3_def p_def [symmetric] pf(4) st_def\<close>)
qed

section \<open>A concrete link\<close>

definition ex_net :: net_security where
  "ex_net = w_security.extend (ex_wsec\<lparr>sw_decrypt := True, hw_decrypted := False, busetkipkey := True\<rparr>)
     \<lparr>dot11AuthAlgrthm = 2, ndisauthtype = 0, dot118021XGrpPrivacy = 4, dot118021XGrptxmickey = [], sw_encrypt = True\<rparr>"

definition ex_pool :: "bytes \<Rightarrow> sta_priv" where
  "ex_pool addr = \<lparr>pool = [\<lparr>hwaddr = addr, mac_id = 1, aid = 1, linked = True, tid_rxseq = replicate 16 0xFFFF,
       reorder_enable = [], reorder_indicate_seq = [], reorder_wsize = [], reorder_pending = [], sleep_q = [],
       sta_pending = [], qcnt = []\<rparr>],
     free_sta_queue = [], sta_hash = replicate 32 [0], asoc_sta_count = 1, auth_list = [], auth_list_cnt = 0,
     sta_aid = [], sta_dz_bitmap = 0, tim_bitmap = 0, macid = [], hw_accnt = []\<rparr>"

definition ex_link :: peer where
  "ex_link = \<lparr>peer_state = 1, peer_UncstKey = replicate 16 9, dot11wtxpn = 0, ieee8021x_blocked = False,
     dot118021XPrivacy = 4, dot11txpn = 5, dot11tkiptxmickey = replicate 16 1, dot11tkiprxmickey = replicate 16 1,
     qos_option = True, peer_rtsen = False, peer_cts2self = False, peer_raid = 0, bw_mode = 0, sgi_20m = False,
     sgi_40m = False, peer_ldpc = 0, peer_stbc = 0, ht_option = False, ht_ch_offset = 0, ampdu_enable = False,
     agg_enable_bitmap = 0, rx_ampdu_min_spacing = 0, txseq_tid = replicate 16 0, BA_starting_seqctrl = replicate 16 0,
     defrag_q = [], recvreorder_ctrl = []\<rparr>"

definition ex_driver :: "u32 \<Rightarrow> bytes \<Rightarrow> bytes \<Rightarrow> adapter" where
  "ex_driver fw me other = \<lparr>fw_state = fw, mybssid = ex_sta, myhwaddr = me, stapriv = ex_pool other, peers = [ex_link],
     security = ex_net, qos_opt = True, acm_mask = 0, xmit_frag_len = 2346, wifi_spec = False, rts_thresh = 2347,
     cur_wireless_mode = 3, assoc_AP_vendor = 0, cur_bwmode = 0, HT_protection = 0, driver_vcs_en = 0, driver_vcs_type = 0,
     driver_ampdu_spacing = 0, ht_opt = False, running = True, mlme_key_index = 0, rx_static = ex_static,
     send_issue_deauth_time = 0, uc_swdec_pending_queue = [], reorder_held = [], free_recvframe_cnt = 256, rx_drop = 0,
     bIsAnyNonBEPkts = False\<rparr>"

text \<open>A station and its access point.\<close>

definition ex_station :: adapter where "ex_station = ex_driver 9 ex_my ex_sta"
definition ex_ap :: adapter where "ex_ap = ex_driver 0x11 ex_sta ex_my"

definition ex_cleared :: tx_attrib where
  "ex_cleared = \<lparr>encrypt = 0, hdrlen = 0, iv_len = 0, icv_len = 0, nr_frags = 0, last_txcmdsz = 0, attrib_ra = [],
     attrib_ta = [], attrib_UncstKey = [], pktlen = 0, attrib_iv = replicate 18 0, attrib_icv = replicate 16 0,
     bswenc = False, attrib_subtype = 0, ether_type = 0, pkt_hdrlen = 0, attrib_dst = [], attrib_src = [], key_idx = 0,
     seqnum = 0, tx_priority = 0, ack_policy = 0, attrib_mac_id = 0, vcs_mode = 0, qos_en = False, ht_en = False,
     rtsen = False, cts2self = False, ampdu_en = False, ampdu_spacing = 0, mdata = False, eosp = 0, triggered = False,
     raid = 0, bwmode = 0, ch_offset = 0, sgi = False, ldpc = 0, stbc = 0, retry_ctrl = False, pctrl = False,
     dhcp_pkt = False, icmp_pkt = False, attrib_tkiptxmickey = [], attrib_psta = None\<rparr>"

definition ex_arp :: bytes where "ex_arp = [0, 1, 8, 0, 6, 4, 0, 2]"

definition ex_sent :: "bool \<times> tx_attrib \<times> tx_command list \<times> adapter" where
  "ex_sent = the (update_attrib ex_station (eth_packet ex_sta ex_my 0x0806 ex_arp) ex_cleared)"

definition ex_a :: tx_attrib where "ex_a = fst (snd ex_sent)"
definition ex_tx1 :: adapter where "ex_tx1 = snd (snd (snd ex_sent))"

text \<open>What the concrete packet becomes, evaluated once.\<close>

lemma ex_evaluated: "case update_attrib ex_station (eth_packet ex_sta ex_my 0x0806 ex_arp) ex_cleared of None \<Rightarrow> False
  | Some (ok, a, cmds, ad) \<Rightarrow> ok \<and> cmds = [] \<and> (case rtw_make_wlanhdr ad a of None \<Rightarrow> False | Some (ok, r) \<Rightarrow> ok)
       \<and> encrypt a = AES \<and> hdrlen a = 26 \<and> iv_len a = 8 \<and> icv_len a = 8 \<and> bswenc a \<and> attrib_ra a = ex_sta
       \<and> attrib_ta a = ex_my \<and> tx_priority a = 0 \<and> attrib_dst a = ex_sta \<and> attrib_src a = ex_my
       \<and> attrib_UncstKey a = replicate 16 9 \<and> ether_type a = 0x0806 \<and> attrib_iv a = [5, 0, 0, 0x20, 0, 0, 0, 0]
       \<and> length (attrib_icv a) = 16 \<and> qos_en a"
  by code_simp

lemma ex_update: "update_attrib ex_station (eth_packet ex_sta ex_my 0x0806 ex_arp) ex_cleared = Some (True, ex_a, [], ex_tx1)"
  using ex_evaluated by (auto simp: ex_a_def ex_tx1_def ex_sent_def split: option.split_asm)

lemma ex_make_header: "\<exists>hdr a1 ad. rtw_make_wlanhdr ex_tx1 ex_a = Some (True, hdr, a1, ad)"
  using ex_evaluated unfolding ex_update by (auto split: option.split_asm)

lemma ex_a_sel: "encrypt ex_a = AES" "hdrlen ex_a = 26" "iv_len ex_a = 8" "icv_len ex_a = 8" "bswenc ex_a"
  "attrib_ra ex_a = ex_sta" "attrib_ta ex_a = ex_my" "tx_priority ex_a = 0" "attrib_dst ex_a = ex_sta"
  "attrib_src ex_a = ex_my" "attrib_UncstKey ex_a = replicate 16 9" "ether_type ex_a = 0x0806"
  "attrib_iv ex_a = [5, 0, 0, 0x20, 0, 0, 0, 0]" "length (attrib_icv ex_a) = 16" "qos_en ex_a"
  using ex_evaluated unfolding ex_update by simp_all

lemma ex_one_mode: "one_mode ex_station" by code_simp

lemma ex_net_sel: "dot11AuthAlgrthm ex_net = 2" "busetkipkey ex_net"
  by (simp_all add: ex_net_def w_security.defs ex_wsec_def rx_security.defs ex_rx_sec_def security_priv.defs)

lemma ex_get_stainfo: "rtw_get_stainfo (ex_pool ex_my) (Some ex_my) = Some 0" by code_simp

lemma ex_receives: "receives ex_station ex_a ex_ap 0"
  by (simp add: receives_def ex_a_sel ex_station_def ex_ap_def ex_driver_def Let_def rx_accepts_def check_fwstate_def
    WIFI_STATION_STATE_def WIFI_AP_STATE_def WIFI_MP_STATE_def ex_get_stainfo ex_link_def ex_net_sel GET_ENCRY_ALGO_def AES_def TKIP_def
    ex_static_def MAX_MSG_SIZE_def)

lemma ex_fits: "fits_frame ex_station 0 1 (replicate 48 0) (replicate 200 0) ex_a (length ex_arp)"
  by (simp add: fits_frame_def one_fragment_def first_room_def ex_a_sel ex_station_def ex_driver_def ex_arp_def
    hw_hdr_offset_def MAX_MSG_SIZE_def IS_MCAST_def ex_sta_def)


definition ex_env :: rx_env where
  "ex_env = \<lparr>now = 7, hz = 100, passing_time_ms = (\<lambda>_. 0), clone_ok = True, subframe_ok = (\<lambda>_. True), ieee80211w = True\<rparr>"

definition ex_on_air :: "bytes \<Rightarrow> rx_frame" where
  "ex_on_air b = \<lparr>rx_id = 1, buf = b, rx_data = 0, rx_tail = int (length b), rx_len = of_nat (length b),
     attrib = (ex_att 0 0)\<lparr>rx_bdecrypted := False\<rparr>, rx_psta = None\<rparr>"

lemma ex_on_air_frame:
  assumes "length b < 2 ^ 31"
  shows "wf_frame (ex_on_air b)" "frame_bytes (ex_on_air b) = b" "\<not> rx_bdecrypted (attrib (ex_on_air b))"
proof -
  show "wf_frame (ex_on_air b)" by (rule wf_frameI [where d = 0 and l = "length b"]) (use assms in \<open>simp_all add: ex_on_air_def\<close>)
  show "frame_bytes (ex_on_air b) = b" using assms by (simp add: frame_bytes_def ex_on_air_def unat_len)
  show "\<not> rx_bdecrypted (attrib (ex_on_air b))" by (simp add: ex_on_air_def)
qed

lemma ex_conditions: "length ex_sta = 6" "length ex_my = 6" "length (attrib_iv ex_cleared) = 18" "length (attrib_icv ex_cleared) = 16"
  "sw_cipher ex_a" "\<not> IS_MCAST (attrib_ra ex_a)" "encrypt ex_a = TKIP \<Longrightarrow> qos_en ex_a \<or> tx_priority ex_a = 0"
  by (simp_all add: ex_sta_def ex_my_def ex_cleared_def sw_cipher_def ex_a_sel IS_MCAST_def)

lemma ex_coalesced:
  "\<exists>mem a2 tx2. rtw_xmitframe_coalesce True ex_tx1 0 1 (eth_packet ex_sta ex_my 0x0806 ex_arp) ex_a (Some (replicate 48 0 @ replicate 200 0))
      = Some (True, Some mem, a2, tx2)"
proof -
  obtain hdr a1 ad where m: "rtw_make_wlanhdr ex_tx1 ex_a = Some (True, hdr, a1, ad)" using ex_make_header by blast
  have e: "eth_packet ex_sta ex_my 0x0806 ex_arp = (ex_sta @ ex_my @ [8, 6]) @ ex_arp" by (simp add: eth_packet_def)
  have l: "length (ex_sta @ ex_my @ [8, 6]) = 14" by (simp add: ex_conditions)
  show ?thesis
    using coalesce_frame [OF packet_ready(5) [OF ex_one_mode ex_update ex_fits ex_conditions(1-6)] l m, of True] by (auto simp: e)
qed

theorem data_path_roundtrip_witness:
  "\<exists>mem a2 tx2 f outs rx'.
    rtw_xmitframe_coalesce True ex_tx1 0 1 (eth_packet ex_sta ex_my 0x0806 ex_arp) ex_a (Some (replicate 48 0 @ replicate 200 0))
      = Some (True, Some mem, a2, tx2)
    \<and> frame_bytes f = take (last_txcmdsz a2) (drop 48 mem)
    \<and> recv_func ex_env f ex_ap = Some (SUCCESS, outs, rx') \<and> delivered outs = [NETIF_RX (eth_packet ex_sta ex_my 0x0806 ex_arp)]"
proof -
  obtain mem a2 tx2 where c: "rtw_xmitframe_coalesce (ieee80211w ex_env) ex_tx1 0 1 (eth_packet ex_sta ex_my 0x0806 ex_arp) ex_a
      (Some (replicate 48 0 @ replicate 200 0)) = Some (True, Some mem, a2, tx2)" using ex_coalesced by (auto simp: ex_env_def)
  let ?b = "take (last_txcmdsz a2) (drop 48 mem)"
  obtain sq where b: "?b = packet_header ex_station ex_a sq @ iv_of ex_a @ packet_body True ex_a (packet_header ex_station ex_a sq) ex_arp"
    and h: "ccmp_header (packet_header ex_station ex_a sq)"
    using packet_on_air(2) [OF ex_one_mode ex_update c ex_fits ex_conditions] by (auto simp: ex_env_def)
  have hl: "length (packet_header ex_station ex_a sq) = 26" "RTW_GET_LE16 (packet_header ex_station ex_a sq @ r) 22 = Some (push_bit 4 sq)" for r
  proof -
    have "sends_qc ex_station ex_a" "length (mybssid ex_station) = 6"
      by (simp_all add: sends_qc_def ex_station_def ex_driver_def check_fwstate_def WIFI_STATION_STATE_def ex_conditions)
    then show "length (packet_header ex_station ex_a sq) = 26" "RTW_GET_LE16 (packet_header ex_station ex_a sq @ r) 22 = Some (push_bit 4 sq)"
      by (simp_all add: packet_header_def Let_def ex_a_sel ex_conditions wlan_header_reads)
  qed
  have "length ?b < 2 ^ 31"
    unfolding b by (simp add: hl packet_body_def protected_body_def ex_a_sel with_mic_def length_ccm_encrypt [OF h] iv_of_def ex_arp_def
      TKIP_def AES_def)
  note f = ex_on_air_frame [OF this]
  have "\<not> bit (push_bit 4 sq :: u16) 0" by (simp add: bit_simps)
  then have "push_bit 4 sq \<noteq> (0xFFFF :: u16)" by auto
  then have fresh: "RTW_GET_LE16 ?b 22 \<noteq> Some (tid_rxseq (pool (stapriv ex_ap) ! 0) ! unat (tx_priority ex_a))"
    unfolding b by (simp add: hl ex_ap_def ex_driver_def ex_pool_def ex_a_sel)
  have dst: "rtw_os_recv_indicate_pkt ex_env ex_ap p ex_sta = [NETIF_RX p]" for p
    by (simp add: rtw_os_recv_indicate_pkt_def ex_ap_def ex_driver_def)
  have me: "(if check_fwstate (fw_state ex_station) WIFI_STATION_STATE then myhwaddr ex_station else ex_my) = ex_my"
    by (simp add: ex_station_def ex_driver_def)
  have "\<exists>outs rx'. recv_func ex_env (ex_on_air ?b) ex_ap = Some (SUCCESS, outs, rx')
      \<and> delivered outs = [NETIF_RX (eth_packet ex_sta ex_my 0x0806 ex_arp)]"
    using data_path_roundtrip [OF ex_one_mode ex_update c ex_fits ex_conditions ex_receives f(1) _ f(3)] fresh
    by (simp add: f(2) dst me)
  then show ?thesis using c f(2) by (auto simp: ex_env_def intro!: exI [of _ "ex_on_air ?b"])
qed

section \<open>Frames without protection\<close>

definition plain_frame :: "bool \<Rightarrow> bool \<Rightarrow> u8 \<Rightarrow> u16 \<Rightarrow> bytes \<Rightarrow> bytes \<Rightarrow> bytes \<Rightarrow> u16 \<Rightarrow> bytes \<Rightarrow> bytes" where
  "plain_frame ap q pri sq dst src bssid ty pl =
     (if ap then wlan_header (fc_word True q False) dst bssid src (push_bit 4 sq) (if q then [pri, 0] else [])
      else wlan_header (fc_word False q False) bssid src dst (push_bit 4 sq) (if q then [pri, 0] else []))
     @ rtw_put_snap ty @ pl"

text \<open>What a plain frame meets: known addresses, a fresh sequence number, a running driver without a reordering session
  for it. Nothing is said of keys and ciphers.\<close>

definition meets :: "adapter \<Rightarrow> bool \<Rightarrow> bool \<Rightarrow> u8 \<Rightarrow> u16 \<Rightarrow> bytes \<Rightarrow> bytes \<Rightarrow> bytes \<Rightarrow> nat \<Rightarrow> bool" where
  "meets ad ap q pri sq dst src bssid i \<longleftrightarrow> rx_accepts ad ap dst src bssid i \<and> \<not> IS_MCAST (if ap then dst else bssid)
     \<and> length dst = 6 \<and> length src = 6 \<and> length bssid = 6 \<and> pri < 8 \<and> (\<not> q \<longrightarrow> pri = 0)
     \<and> tid_rxseq (pool (stapriv ad) ! i) ! unat pri \<noteq> push_bit 4 sq
     \<and> running ad \<and> \<not> check_fwstate (fw_state ad) WIFI_MP_STATE \<and> uc_swdec_pending_queue ad = []
     \<and> (ht_opt ad \<longrightarrow> (case rd (recvreorder_ctrl (peers ad ! i)) (unat pri) of None \<Rightarrow> False | Some c \<Rightarrow> \<not> q \<or> \<not> enable c))
     \<and> length (dec_message (rx_static ad)) = MAX_MSG_SIZE"

lemma wlan_header_three_address:
  "length a1 = 6 \<Longrightarrow> length a2 = 6 \<Longrightarrow> length a3 = 6 \<Longrightarrow> three_address (wlan_header (fc_word ap q priv) a1 a2 a3 sc qc)"
  by (cases ap; cases q; cases priv) (simp_all add: three_address_def wlan_header_def fc_word_def le16_bytes_def)

lemma ccmp_header_plain:
  assumes l: "length a1 = 6" "length a2 = 6" "length a3 = 6" "length qc = (if q then 2 else 0)"
  shows "ccmp_header (wlan_header (fc_word ap q priv) a1 a2 a3 sc qc)"
proof -
  let ?h = "wlan_header (fc_word ap q priv) a1 a2 a3 sc qc"
  have n: "bytes_le16 (?h ! 0) (?h ! 1) = fc_word ap q priv"
    by (simp add: wlan_header_def le16_bytes_def bytes_le16_bytes)
  have len: "length ?h = (if q then 26 else 24)" using l by simp
  have t: "hdr_ft ?h = 8" "hdr_fst ?h = (if q then 8 else 0)"
    unfolding hdr_ft_def hdr_fst_def n
    by (cases ap; cases q; cases priv; simp add: fc_word_def WIFI_DATA_TYPE_def WIFI_QOS_DATA_TYPE_def)+
  have q: "hdr_qc ?h = q" unfolding hdr_qc_def t len
    by (simp add: ccmp_classify_def WIFI_DATA_def WIFI_DATA_CFACK_def WIFI_DATA_CFPOLL_def WIFI_DATA_CFACKPOLL_def)
  have "\<not> hdr_a4 ?h" unfolding hdr_a4_def t len
    by (simp add: ccmp_classify_def WIFI_DATA_def WIFI_DATA_CFACK_def WIFI_DATA_CFPOLL_def WIFI_DATA_CFACKPOLL_def
      WLAN_HDR_A3_LEN_def WLAN_HDR_A3_QOS_LEN_def)
  then show ?thesis by (simp add: ccmp_header_def q l)
qed

lemma plain_received:
  assumes f: "wf_frame f" "frame_bytes f = plain_frame ap q pri sq dst src bssid ty pl" "\<not> rx_bdecrypted (attrib f)" "length pl < 2 ^ 15"
    and m: "meets ad ap q pri sq dst src bssid i" "\<not> ieee8021x_blocked (peers ad ! i) \<or> ty = 0x888E"
  shows "\<exists>outs ad'. recv_func env f ad = Some (SUCCESS, outs, ad')
    \<and> delivered outs = rtw_os_recv_indicate_pkt env ad (eth_packet dst src ty pl) dst"
proof -
  define a1 a2 a3 where "a1 = (if ap then dst else bssid)" and "a2 = (if ap then bssid else src)" and "a3 = (if ap then src else dst)"
  have m': "rx_accepts ad ap dst src bssid i" "\<not> IS_MCAST a1" "length a1 = 6" "length a2 = 6" "length a3 = 6" "pri < 8"
    "\<not> q \<Longrightarrow> pri = 0" "tid_rxseq (pool (stapriv ad) ! i) ! unat pri \<noteq> push_bit 4 sq"
    "running ad" "\<not> check_fwstate (fw_state ad) WIFI_MP_STATE" "uc_swdec_pending_queue ad = []"
    "length (dec_message (rx_static ad)) = MAX_MSG_SIZE"
    "ht_opt ad \<Longrightarrow> \<exists>c. rd (recvreorder_ctrl (peers ad ! i)) (unat pri) = Some c \<and> (\<not> q \<or> \<not> enable c)"
    using m(1) by (auto simp: meets_def a1_def a2_def a3_def split: option.split_asm if_split_asm)
  have fb: "frame_bytes f = wlan_header (fc_word ap q False) a1 a2 a3 (push_bit 4 sq) (if q then [pri, 0] else []) @ []
      @ protected_body (ieee80211w env) 0 (peer_UncstKey (peers ad ! i)) a2
          (wlan_header (fc_word ap q False) a1 a2 a3 (push_bit 4 sq) (if q then [pri, 0] else [])) []
          (with_mic 0 (dot11tkiprxmickey (peers ad ! i)) (wlan_header (fc_word ap q False) a1 a2 a3 (push_bit 4 sq) (if q then [pri, 0] else []))
            (rtw_put_snap ty @ pl) pri)"
    using f(2) by (simp add: plain_frame_def protected_body_def with_mic_def a1_def a2_def a3_def TKIP_def AES_def)
  have "get_peer ad a2 = Some (i, peers ad ! i)"
    using m'(1,2) by (auto simp: get_peer_def rx_accepts_def sta2sta_station_def a1_def a2_def split: if_split_asm)
  then show ?thesis
    by (intro recv_func_data [OF f(1) fb m'(3-7) _ f(4) m'(1)])
      (use m' m(2) f(3) in \<open>auto simp: SET_ICE_IV_LEN_def WEP40_def WEP104_def TKIP_def AES_def a1_def a2_def a3_def
        intro: ccmp_header_plain wlan_header_three_address\<close>)
qed

text \<open>C5. A data frame without protection is accepted whatever keys and ciphers are configured: a frame from a known
  station (or the access point) whose protected bit is clear passes \<open>recv_func\<close> and its packet is handed on, also
  when the cipher of the link is TKIP or CCMP and its keys are installed. Neither \<open>security\<close> nor the keys of the
  peer occur in the hypotheses.\<close>

theorem plain_frame_accepted:
  assumes "wf_frame f" "frame_bytes f = plain_frame ap q pri sq dst src bssid ty pl" "\<not> rx_bdecrypted (attrib f)" "length pl < 2 ^ 15"
    and "meets ad ap q pri sq dst src bssid i" "\<not> ieee8021x_blocked (peers ad ! i) \<or> ty = 0x888E"
  shows "\<exists>outs ad'. recv_func env f ad = Some (SUCCESS, outs, ad')
    \<and> delivered outs = rtw_os_recv_indicate_pkt env ad (eth_packet dst src ty pl) dst"
  using assms by (rule plain_received)

text \<open>Before a station has authenticated, the access point already sends its EAPOL frames on to other stations:
  the port is closed (\<open>ieee8021x_blocked\<close>), the frame is not for the access point, and it goes back into the
  transmit path as it is.\<close>

theorem blocked_eapol_forwarded:
  assumes "wf_frame f" "frame_bytes f = plain_frame False q pri sq dst src bssid 0x888E pl" "\<not> rx_bdecrypted (attrib f)" "length pl < 2 ^ 15"
    and "meets ad False q pri sq dst src bssid i" "ieee8021x_blocked (peers ad ! i)"
    and "dst \<noteq> myhwaddr ad" "\<not> IS_MCAST dst" "rtw_get_stainfo (stapriv ad) (Some dst) = Some j"
  shows "\<exists>outs ad'. recv_func env f ad = Some (SUCCESS, outs, ad') \<and> delivered outs = [XMIT_ENTRY (eth_packet dst src 0x888E pl)]"
  using plain_received [OF assms(1-5)] assms(5-9)
  by (simp add: rtw_os_recv_indicate_pkt_def meets_def rx_accepts_def Let_def)

definition ex_plain :: rx_frame where
  "ex_plain = ex_on_air (plain_frame False False 0 1 ex_sta ex_my ex_sta 0x0806 ex_arp)"

lemma ex_plain_frame: "wf_frame (ex_on_air (plain_frame False False 0 1 d s ex_sta ty ex_arp))"
  "frame_bytes (ex_on_air (plain_frame False False 0 1 d s ex_sta ty ex_arp)) = plain_frame False False 0 1 d s ex_sta ty ex_arp"
  "\<not> rx_bdecrypted (attrib (ex_on_air (plain_frame False False 0 1 d s ex_sta ty ex_arp)))"
  if "length d = 6" "length s = 6"
proof -
  have "length (plain_frame False False 0 1 d s ex_sta ty ex_arp) < 2 ^ 31"
    using that by (simp add: plain_frame_def put_snap(3) ex_conditions ex_arp_def)
  then show "wf_frame (ex_on_air (plain_frame False False 0 1 d s ex_sta ty ex_arp))"
    "frame_bytes (ex_on_air (plain_frame False False 0 1 d s ex_sta ty ex_arp)) = plain_frame False False 0 1 d s ex_sta ty ex_arp"
    "\<not> rx_bdecrypted (attrib (ex_on_air (plain_frame False False 0 1 d s ex_sta ty ex_arp)))"
    by (rule ex_on_air_frame)+
qed

text \<open>The access point has CCMP keys for the station, and takes its plain frame.\<close>

theorem plain_frame_accepted_witness:
  "dot118021XPrivacy (peers ex_ap ! 0) = 4 \<and> busetkipkey (security ex_ap)
    \<and> (\<exists>outs ad'. recv_func ex_env ex_plain ex_ap = Some (SUCCESS, outs, ad')
        \<and> delivered outs = [NETIF_RX (eth_packet ex_sta ex_my 0x0806 ex_arp)])"
proof -
  have m: "meets ex_ap False False 0 1 ex_sta ex_my ex_sta 0"
    by (simp add: meets_def rx_accepts_def ex_ap_def ex_driver_def check_fwstate_def WIFI_AP_STATE_def WIFI_MP_STATE_def
      ex_get_stainfo ex_static_def MAX_MSG_SIZE_def ex_conditions IS_MCAST_def ex_sta_def)
      (simp add: ex_pool_def)
  have b: "\<not> ieee8021x_blocked (peers ex_ap ! 0) \<or> (0x0806 :: u16) = 0x888E" by (simp add: ex_ap_def ex_driver_def ex_link_def)
  have dst: "rtw_os_recv_indicate_pkt ex_env ex_ap p ex_sta = [NETIF_RX p]" for p
    by (simp add: rtw_os_recv_indicate_pkt_def ex_ap_def ex_driver_def)
  have k: "dot118021XPrivacy (peers ex_ap ! 0) = 4" "busetkipkey (security ex_ap)"
    by (simp_all add: ex_ap_def ex_driver_def ex_link_def ex_net_sel)
  note f = ex_plain_frame [OF ex_conditions(1,2), of "0x0806", folded ex_plain_def]
  show ?thesis using plain_frame_accepted [OF f(1,2,3) _ m b, of ex_env] k by (simp add: dst ex_arp_def)
qed

definition ex_busy_ap :: adapter where
  "ex_busy_ap = ex_ap\<lparr>stapriv := (ex_pool ex_my)\<lparr>pool := pool (ex_pool ex_my) @ pool (ex_pool [2, 0, 0, 0, 0, 9]),
       sta_hash := replicate 32 [0, 1]\<rparr>,
     peers := [ex_link\<lparr>ieee8021x_blocked := True\<rparr>, ex_link]\<rparr>"

lemma ex_busy_stations: "rtw_get_stainfo (stapriv ex_busy_ap) (Some ex_my) = Some 0"
  "rtw_get_stainfo (stapriv ex_busy_ap) (Some [2, 0, 0, 0, 0, 9]) = Some 1"
  by code_simp+

theorem blocked_eapol_forwarded_witness:
  "ieee8021x_blocked (peers ex_busy_ap ! 0)
    \<and> (\<exists>f outs ad'. frame_bytes f = plain_frame False False 0 1 [2, 0, 0, 0, 0, 9] ex_my ex_sta 0x888E ex_arp
        \<and> recv_func ex_env f ex_busy_ap = Some (SUCCESS, outs, ad')
        \<and> delivered outs = [XMIT_ENTRY (eth_packet [2, 0, 0, 0, 0, 9] ex_my 0x888E ex_arp)])"
proof -
  have m: "meets ex_busy_ap False False 0 1 [2, 0, 0, 0, 0, 9] ex_my ex_sta 0"
    using ex_busy_stations
    by (simp add: meets_def rx_accepts_def ex_busy_ap_def ex_ap_def ex_driver_def check_fwstate_def WIFI_AP_STATE_def
      WIFI_MP_STATE_def ex_static_def MAX_MSG_SIZE_def ex_conditions IS_MCAST_def ex_sta_def)
      (simp add: ex_pool_def)
  have b: "ieee8021x_blocked (peers ex_busy_ap ! 0)" "[2, 0, 0, 0, 0, 9] \<noteq> myhwaddr ex_busy_ap" "\<not> IS_MCAST [2, 0, 0, 0, 0, 9]"
    by (simp_all add: ex_busy_ap_def ex_ap_def ex_driver_def ex_sta_def IS_MCAST_def)
  have l: "length [2, 0, 0, 0, 0, 9 :: u8] = 6" by simp
  note f = ex_plain_frame [OF l ex_conditions(2), of "0x888E"]
  show ?thesis using blocked_eapol_forwarded [OF f _ m b ex_busy_stations(2), of ex_env] f(2) b(1) by (auto simp: ex_arp_def)
qed

section \<open>Failed delivery of a reassembled frame\<close>

lemma decryptor_keeps:
  assumes "decryptor w jif passing key sec st f = Some (ok, f', sec', st')"
  shows "rx_id f' = rx_id f \<and> rx_mfrag (attrib f') = rx_mfrag (attrib f) \<and> rx_frag_num (attrib f') = rx_frag_num (attrib f)
    \<and> rx_ta (attrib f') = rx_ta (attrib f)"
  using assms by (auto simp: decryptor_def sw_decrypt_frame_def with_data_def Let_def split: bind_splits if_split_asm)

lemma process_fails: "process_recv_indicatepkts env f ad = Some (False, outs, ad') \<Longrightarrow> outs = []"
  by (auto simp: process_recv_indicatepkts_def indicate_reorder_def recv_indicatepkt_reorder_def Let_def
    split: bind_splits if_split_asm prod.split_asm option.split_asm)

lemma recvframe_defrag_some:
  "recvframe_defrag q = Some (Some p, freed) \<Longrightarrow> rx_id p = rx_id (hd q) \<and> freed = map rx_id (tl q)"
  by (auto simp: recvframe_defrag_def split: list.split_asm if_split_asm bind_splits dest: defrag_loop_id)

lemma chkmic_some:
  assumes "defrag_chkmic hertz jif mk ky s (Some p) freed = Some (Some p', s', freed')"
  shows "rx_id p' = rx_id p \<and> freed' = freed"
  using assms recvframe_chkmic_keeps by (fastforce simp: defrag_chkmic_def split: bind_splits if_split_asm)

lemma defrag_data_last:
  assumes d: "defrag_data env f ad = Some (Some p, outs, ad')" "rx_mfrag (attrib f) = 0" "rx_frag_num (attrib f) \<noteq> 0"
    and s: "get_peer ad (rx_ta (attrib f)) = Some (i, s)"
  shows "defrag_q s \<noteq> [] \<and> rx_id p = rx_id (hd (defrag_q s)) \<and> outs = map FREE_RECVFRAME (map rx_id (tl (defrag_q s)) @ [rx_id f])"
proof -
  have z: "rx_mfrag (attrib f) \<noteq> 1" using d(2) by simp
  obtain r0 q freed0 sec freed where e: "defrag_enqueue f (Some (defrag_q s)) = Some (r0, q, freed0)"
    "defrag_chkmic (hz env) (now env) (Some (dot11tkiprxmickey s)) (mlme_key_index ad) (security ad) r0 freed0 = Some (Some p, sec, freed)"
    "outs = map FREE_RECVFRAME freed"
    using d(1) s by (auto simp: defrag_data_def recvframe_chk_defrag_def free_frames_def Let_def split: bind_splits)
  obtain r freed1 where r: "recvframe_defrag (defrag_q s @ [f]) = Some (r, freed1)" "r0 = r" "freed0 = freed1"
    using e(1) d(2,3) z by (auto simp: defrag_enqueue_def split: bind_splits)
  obtain p0 where p0: "r = Some p0" using e(2) r(2) by (cases r) (auto simp: defrag_chkmic_def)
  have i: "rx_id p = rx_id p0" "freed = freed1" using chkmic_some e(2) r(2,3) p0 by blast+
  have n: "defrag_q s \<noteq> []" using r(1) p0 d(3) by (auto simp: recvframe_defrag_def)
  have "rx_id p0 = rx_id (hd (defrag_q s @ [f]))" "freed1 = map rx_id (tl (defrag_q s @ [f]))"
    using recvframe_defrag_some [OF r(1) [unfolded p0]] by simp_all
  then show ?thesis using n i e(3) by simp
qed

lemma defrag_data_peer:
  "defrag_data env f ad = Some (r, outs, ad') \<Longrightarrow> get_peer ad (rx_ta (attrib f)) = None \<Longrightarrow> rx_mfrag (attrib f) = 0
    \<Longrightarrow> rx_frag_num (attrib f) \<noteq> 0 \<Longrightarrow> r = None"
  by (auto simp: defrag_data_def recvframe_chk_defrag_def defrag_enqueue_def recvframe_defrag_def defrag_chkmic_def Let_def
    split: bind_splits if_split_asm)

text \<open>C8. The last fragment of a message is freed twice when the packet cannot be handed on (its sequence number is
  behind the reordering window): \<open>recvframe_defrag\<close> has freed it with the other fragments, and
  \<open>recv_func_posthandle\<close> frees it again, in place of the reassembled frame, which is never freed.\<close>

theorem reassembled_frame_double_free:
  assumes "recv_func_posthandle env f ad = Some (FAIL, outs, ad')" "COUNT_RX_STATS \<in> set outs"
    and "rx_mfrag (attrib f) = 0" "rx_frag_num (attrib f) \<noteq> 0"
    and "get_peer ad (rx_ta (attrib f)) = Some (i, s)" "distinct (rx_id f # map rx_id (defrag_q s))"
  shows "count_list outs (FREE_RECVFRAME (rx_id f)) = 2 \<and> FREE_RECVFRAME (rx_id (hd (defrag_q s))) \<notin> set outs"
proof -
  obtain f1 ad1 where d: "decrypt_data env f ad = Some (True, f1, ad1)"
    using assms(1,2) by (auto simp: recv_func_posthandle_def drop_frame_def free_frames_def split: bind_splits if_split_asm)
  have k: "rx_id f1 = rx_id f" "rx_mfrag (attrib f1) = 0" "rx_frag_num (attrib f1) \<noteq> 0" "get_peer ad1 (rx_ta (attrib f1)) = Some (i, s)"
    using d decryptor_keeps assms(3-5) by (fastforce simp: decrypt_data_def get_peer_def split: bind_splits)+
  obtain r o1 ad2 where e: "defrag_data env f1 ad1 = Some (r, o1, ad2)"
    using assms(1) d by (auto simp: recv_func_posthandle_def split: bind_splits)
  obtain p where p: "r = Some p" using assms(1) d e by (cases r) (auto simp: recv_func_posthandle_def)
  note o1 = defrag_data_last [OF e [unfolded p] k(2-4)]
  obtain ok where c: "portctrl (dot11AuthAlgrthm (security ad2))
      (map_option (\<lambda>(i, s). ieee8021x_blocked s) (get_peer ad2 (rx_ta (attrib p)))) p = Some ok"
    using assms(1) d e p by (auto simp: recv_func_posthandle_def split: bind_splits)
  have ok: "ok"
    using assms(1,2) d e p c o1 by (auto simp: recv_func_posthandle_def drop_frame_def free_frames_def split: if_split_asm)
  obtain res o2 ad3 where x: "process_recv_indicatepkts env p ad2 = Some (res, o2, ad3)"
    using assms(1) d e p c ok by (auto simp: recv_func_posthandle_def split: bind_splits)
  have "\<not> res" using assms(1) d e p c ok x by (auto simp: recv_func_posthandle_def split: if_split_asm)
  then have "o2 = []" using x process_fails by auto
  then have o: "outs = o1 @ [COUNT_RX_STATS, FREE_RECVFRAME (rx_id f)]"
    using assms(1) d e p c ok x \<open>\<not> res\<close> k(1) by (simp add: recv_func_posthandle_def drop_frame_def free_frames_def)
  obtain g gs where g: "defrag_q s = g # gs" using o1 by (cases "defrag_q s") auto
  have "count_list (map (FREE_RECVFRAME \<circ> rx_id) gs) (FREE_RECVFRAME (rx_id f)) = 0"
    using assms(6) by (auto simp: g count_list_0_iff)
  then show ?thesis using assms(6) o1 k(1) by (auto simp: o g)
qed

definition ex_piece :: "nat \<Rightarrow> u8 \<Rightarrow> u8 \<Rightarrow> bytes \<Rightarrow> rx_frame" where
  "ex_piece n m num payload = (ex_recv n m num payload 40)\<lparr>attrib := (ex_att m num)\<lparr>rx_encrypt := 0, rx_privacy := 0,
     rx_iv_len := 0, rx_icv_len := 0, rx_qos := True, rx_hdrlen := 32\<rparr>, rx_psta := Some 0\<rparr>"

text \<open>An access point whose reordering session is past the sequence number 9, with the first fragment queued.\<close>

definition ex_behind :: adapter where
  "ex_behind = ex_ap\<lparr>stapriv := ex_pool [2, 0, 0, 0, 0, 6], ht_opt := True, rx_static := ex_static\<lparr>dec_message := []\<rparr>,
     peers := [ex_link\<lparr>defrag_q := [ex_piece 1 1 0 [0xAA, 0xAA, 3, 0, 0, 0, 8, 0, 1]],
       recvreorder_ctrl := [\<lparr>enable = True, indicate_seq = 10, wsize_b = 8, pending = [], dbg_drop = 0, dbg_forced = 0,
         dbg_loss = 0, dbg_shift = 0\<rparr>]\<rparr>]\<rparr>"

lemma ex_behind_run: "case recv_func_posthandle ex_env (ex_piece 2 0 1 [2, 3]) ex_behind of None \<Rightarrow> False
  | Some (ret, outs, ad') \<Rightarrow> ret = FAIL \<and> outs = [FREE_RECVFRAME 2, COUNT_RX_STATS, FREE_RECVFRAME 2]"
  by code_simp

lemma ex_behind_peer: "case get_peer ex_behind (rx_ta (attrib (ex_piece 2 0 1 [2, 3]))) of None \<Rightarrow> False
  | Some (i, s) \<Rightarrow> i = 0 \<and> map rx_id (defrag_q s) = [1]"
  by code_simp

theorem reassembled_frame_double_free_witness:
  "\<exists>outs ad'. recv_func_posthandle ex_env (ex_piece 2 0 1 [2, 3]) ex_behind = Some (FAIL, outs, ad')
    \<and> count_list outs (FREE_RECVFRAME 2) = 2 \<and> FREE_RECVFRAME 1 \<notin> set outs"
proof -
  have n: "rx_id (ex_piece 2 0 1 [2, 3]) = 2" "rx_mfrag (attrib (ex_piece 2 0 1 [2, 3])) = 0" "rx_frag_num (attrib (ex_piece 2 0 1 [2, 3])) \<noteq> 0"
    by (simp_all add: ex_piece_def ex_recv_def ex_att_def)
  obtain outs ad' where r: "recv_func_posthandle ex_env (ex_piece 2 0 1 [2, 3]) ex_behind = Some (FAIL, outs, ad')"
    "COUNT_RX_STATS \<in> set outs"
    using ex_behind_run by (auto split: option.split_asm)
  obtain i s where s: "get_peer ex_behind (rx_ta (attrib (ex_piece 2 0 1 [2, 3]))) = Some (i, s)" "map rx_id (defrag_q s) = [1]"
    using ex_behind_peer by (auto split: option.split_asm)
  have h: "rx_id (hd (defrag_q s)) = 1" "distinct (rx_id (ex_piece 2 0 1 [2, 3]) # map rx_id (defrag_q s))"
    using s(2) n(1) by (auto simp: map_eq_Cons_conv)
  show ?thesis using reassembled_frame_double_free [OF r n(2,3) s(1) h(2)] r(1) n(1) h(1) by auto
qed

section \<open>Which data frames pass\<close>

text \<open>A frame that a station or an access point may take: the addresses \<open>dst\<close>, \<open>src\<close> and \<open>bssid\<close> of its
  header, and the station \<open>i\<close> it is charged to.\<close>

definition station_takes :: "adapter \<Rightarrow> nat \<Rightarrow> bytes \<Rightarrow> bytes \<Rightarrow> bytes \<Rightarrow> nat \<Rightarrow> bool" where
  "station_takes ad d dst src bssid i \<longleftrightarrow>
     sta2sta_station ad (IS_MCAST dst) (Some bssid) = Some i
     \<and> (d = 1 \<and> bssid = mybssid ad \<and> bssid \<noteq> zero_addr \<and> src \<noteq> myhwaddr ad \<and> (dst = myhwaddr ad \<or> IS_MCAST dst)
         \<and> (check_fwstate (fw_state ad) FW_LINKED \<or> check_fwstate (fw_state ad) WIFI_UNDER_LINKING)
       \<or> d = 0 \<and> bssid = src)"

definition ap_takes :: "adapter \<Rightarrow> nat \<Rightarrow> bytes \<Rightarrow> bytes \<Rightarrow> bytes \<Rightarrow> nat \<Rightarrow> bool" where
  "ap_takes ad d dst src bssid i \<longleftrightarrow>
     d = 2 \<and> bssid = mybssid ad \<and> rtw_get_stainfo (stapriv ad) (Some src) = Some i
     \<or> d = 0 \<and> (if IS_MCAST dst then IS_MCAST bssid \<and> rtw_get_bcmc_stainfo (stapriv ad) = Some i
                else bssid = dst \<and> rtw_get_stainfo (stapriv ad) (Some src) = Some i)"

definition takes :: "adapter \<Rightarrow> nat \<Rightarrow> rx_attrib \<Rightarrow> nat \<Rightarrow> bool" where
  "takes ad d a i = (if check_fwstate (fw_state ad) WIFI_STATION_STATE
     then station_takes ad d (rx_dst a) (rx_src a) (rx_bssid a) i
     else ap_takes ad d (rx_dst a) (rx_src a) (rx_bssid a) i)"

lemma parse_qos_keeps:
  assumes "parse_qos f = Some f'"
  shows "rx_psta f' = rx_psta f \<and> rx_dst (attrib f') = rx_dst (attrib f) \<and> rx_src (attrib f') = rx_src (attrib f)
    \<and> rx_bssid (attrib f') = rx_bssid (attrib f) \<and> rx_to_fr_ds (attrib f') = rx_to_fr_ds (attrib f)"
  using assms by (cases "RTW_GET_LE16 (rx_mem f) 24") (simp_all add: parse_qos_def Let_def split: if_split_asm, auto)

lemma accept_keeps:
  assumes "accept_data_frame i f ad = Some (r, f', ad')"
  shows "rx_psta f' = Some i \<and> rx_dst (attrib f') = rx_dst (attrib f) \<and> rx_src (attrib f') = rx_src (attrib f)
    \<and> rx_bssid (attrib f') = rx_bssid (attrib f) \<and> rx_to_fr_ds (attrib f') = rx_to_fr_ds (attrib f)"
proof -
  obtain g where g: "parse_qos (f\<lparr>rx_psta := Some i\<rparr>) = Some g" using assms by (cases "parse_qos (f\<lparr>rx_psta := Some i\<rparr>)") (auto simp: accept_data_frame_def)
  have "\<exists>c. f' = g \<or> f' = g\<lparr>attrib := set_cipher (security ad) c (attrib g)\<rparr>"
    using assms g by (auto simp: accept_data_frame_def Let_def split: option.split_asm)
  then show ?thesis using parse_qos_keeps [OF g] by (auto simp: set_cipher_eq Let_def)
qed

lemma sta2sta_takes:
  assumes "sta2sta_data_frame ad f = Some (SUCCESS, Some i, f')" "one_mode ad"
  shows "f' = f \<and> takes ad 0 (attrib f) i"
  using assms by (simp add: sta2sta_data_frame_def takes_def station_takes_def ap_takes_def one_mode_def infra_mode_def sta2sta_station_def Let_def
    split: if_split_asm option.split_asm)

lemma ap2sta_takes:
  assumes "ap2sta_data_frame env ad f = Some (SUCCESS, Some i, f', outs, ad')" "one_mode ad" "\<not> check_fwstate (fw_state ad) WIFI_MP_STATE"
  shows "f' = f \<and> takes ad 1 (attrib f) i"
  using assms by (auto simp: ap2sta_data_frame_def takes_def station_takes_def one_mode_def infra_mode_def bssid_fails_def Let_def
    split: if_split_asm option.split_asm bind_splits)

lemma sta2ap_takes:
  assumes "sta2ap_data_frame ad f = Some (SUCCESS, Some i, outs)" "one_mode ad"
  shows "takes ad 2 (attrib f) i"
  using assms by (auto simp: sta2ap_data_frame_def takes_def ap_takes_def one_mode_def infra_mode_def Let_def
    split: if_split_asm option.split_asm bind_splits)

lemma with_addrs_sel [simp]: "rx_dst (attrib (with_addrs dst src bssid ra ta f)) = dst" "rx_src (attrib (with_addrs dst src bssid ra ta f)) = src"
  "rx_bssid (attrib (with_addrs dst src bssid ra ta f)) = bssid"
  by (simp_all add: with_addrs_def)

lemma check_addresses_takes:
  assumes c: "check_addresses env ad f = Some (SUCCESS, Some i, f', outs, ad')"
    and m: "one_mode ad" "\<not> check_fwstate (fw_state ad) WIFI_MP_STATE"
  shows "get_da (rx_mem f) = Some (rx_dst (attrib f')) \<and> get_sa (rx_mem f) = Some (rx_src (attrib f'))
    \<and> get_hdr_bssid (rx_mem f) = Some (rx_bssid (attrib f')) \<and> takes ad (rx_to_fr_ds (attrib f)) (attrib f') i"
proof -
  obtain dst src bssid where a: "get_da (rx_mem f) = Some dst" "get_sa (rx_mem f) = Some src" "get_hdr_bssid (rx_mem f) = Some bssid"
    using c by (auto simp: check_addresses_def split: bind_splits)
  have "rx_to_fr_ds (attrib f) < 3" using c a by (auto simp: check_addresses_def Let_def split: bind_splits if_split_asm)
  then consider (direct) "rx_to_fr_ds (attrib f) = 0" | (down) "rx_to_fr_ds (attrib f) = 1" | (up) "rx_to_fr_ds (attrib f) = 2" by linarith
  then show ?thesis
  proof cases
    case direct
    then show ?thesis using c a sta2sta_takes [OF _ m(1)] by (fastforce simp: check_addresses_def Let_def)
  next
    case down
    then show ?thesis using c a ap2sta_takes [OF _ m] by (fastforce simp: check_addresses_def Let_def)
  next
    case up
    then show ?thesis using c a sta2ap_takes [OF _ m(1)] by (fastforce simp: check_addresses_def Let_def)
  qed
qed

text \<open>C4. Which data frames pass the checks: a station takes frames from its own BSSID for itself or a group, and
  direct frames whose BSSID is their source; an access point takes frames to its BSSID from stations of its table,
  and direct frames whose BSSID is their destination. A frame between distribution systems never passes. The addresses are those of
  the header, and the frame is charged to the station that sent it, or to the entry for group frames.\<close>

theorem data_frame_addresses:
  assumes "validate_recv_data_frame env ad f = Some (SUCCESS, f', outs, ad')"
    and "one_mode ad" "\<not> check_fwstate (fw_state ad) WIFI_MP_STATE"
  shows "\<exists>i. rx_psta f' = Some i \<and> takes ad (rx_to_fr_ds (attrib f)) (attrib f') i
    \<and> get_da (rx_mem f) = Some (rx_dst (attrib f')) \<and> get_sa (rx_mem f) = Some (rx_src (attrib f'))
    \<and> get_hdr_bssid (rx_mem f) = Some (rx_bssid (attrib f'))"
proof -
  obtain i f1 o1 ad1 r where c: "check_addresses env ad f = Some (SUCCESS, Some i, f1, o1, ad1)"
    and a: "accept_data_frame i f1 ad1 = Some (r, f', ad')"
    using assms(1) by (auto simp: validate_recv_data_frame_def split: bind_splits if_split_asm option.split_asm)
  then show ?thesis using check_addresses_takes [OF c assms(2,3)] accept_keeps [OF a]
    by (auto simp: takes_def)
qed

text \<open>A direct frame to another station, in another network: the station takes it, when the source is in its table.\<close>

definition ex_direct :: rx_frame where
  "ex_direct = ex_on_air ([0x08, 0, 0, 0] @ [2, 9, 9, 9, 9, 9] @ ex_sta @ ex_sta @ [0x10, 0] @ rtw_put_snap 0x0806 @ ex_arp)"

lemma ex_direct_run: "case validate_recv_data_frame ex_env ex_station (ex_direct\<lparr>attrib := (attrib ex_direct)\<lparr>rx_to_fr_ds := 0\<rparr>\<rparr>) of
    None \<Rightarrow> False | Some (r, f', outs, ad') \<Rightarrow> r = SUCCESS \<and> rx_dst (attrib f') = [2, 9, 9, 9, 9, 9]"
  by code_simp

theorem data_frame_addresses_witness:
  "\<exists>f' outs ad' i. validate_recv_data_frame ex_env ex_station (ex_direct\<lparr>attrib := (attrib ex_direct)\<lparr>rx_to_fr_ds := 0\<rparr>\<rparr>)
      = Some (SUCCESS, f', outs, ad')
    \<and> takes ex_station 0 (attrib f') i \<and> rx_dst (attrib f') = [2, 9, 9, 9, 9, 9] \<and> rx_dst (attrib f') \<noteq> myhwaddr ex_station"
proof -
  obtain f' outs ad' where r: "validate_recv_data_frame ex_env ex_station (ex_direct\<lparr>attrib := (attrib ex_direct)\<lparr>rx_to_fr_ds := 0\<rparr>\<rparr>)
      = Some (SUCCESS, f', outs, ad')" "rx_dst (attrib f') = [2, 9, 9, 9, 9, 9]"
    using ex_direct_run by (auto split: option.split_asm)
  have s: "\<not> check_fwstate (fw_state ex_station) WIFI_MP_STATE" "myhwaddr ex_station \<noteq> [2, 9, 9, 9, 9, 9]"
    by (simp_all add: ex_station_def ex_driver_def check_fwstate_def WIFI_MP_STATE_def ex_my_def)
  show ?thesis using data_frame_addresses [OF r(1) ex_one_mode s(1)] r s(2) by auto
qed

end
