(* ===== verification/Tx_Fragment.thy ===== *)
theory Tx_Fragment
  imports Data_Path
begin

text \<open>
  Packets in several fragments: what the loop of \<open>rtw_xmitframe_coalesce\<close> leaves in the transmit buffer when a
  packet is longer than the fragmentation threshold, which transfers \<open>rtw_dump_xframe\<close> (\<^verbatim>\<open>hal/rtl8723bu_xmit.c\<close>) makes
  of it, and the packet numbers of packets.
\<close>

section \<open>Chunks of a packet\<close>

function chunks :: "nat \<Rightarrow> bytes \<Rightarrow> bytes list" where
  "chunks r d = (if r = 0 \<or> length d \<le> r then [d] else take r d # chunks r (drop r d))"
  by pat_completeness auto

termination by (relation "measure (\<lambda>(r, d). length d)") auto

declare chunks.simps [simp del]

lemma concat_chunks: "concat (chunks r d) = d"
  by (induction r d rule: chunks.induct) (subst chunks.simps, auto)

lemma chunks_not_Nil [simp]: "chunks r d \<noteq> []"
  by (subst chunks.simps) simp

lemma chunks_length: "0 < r \<Longrightarrow> b \<in> set (chunks r d) \<Longrightarrow> length b \<le> r"
  by (induction r d rule: chunks.induct) (subst (asm) (2) chunks.simps, auto split: if_split_asm)


section \<open>One fragment\<close>

text \<open>What is left to read.\<close>

definition reads :: "pkt_file \<Rightarrow> bytes \<Rightarrow> bool" where
  "reads pf pl \<longleftrightarrow> (\<exists>done. pkt pf = done @ pl \<and> cur_addr pf = length done \<and> pkt_len pf = length pl)"

lemma reads_open:
  "reads (snd (snd (rtw_pktfile_read (rtw_open_pktfile (eth @ pl)) (length eth)))) pl"
  by (auto simp: reads_def rtw_pktfile_read_def rtw_open_pktfile_def rtw_remainder_len_def Let_def)

lemma reads_read:
  assumes "reads pf pl"
  shows "\<exists>pf'. rtw_pktfile_read pf n = (take n pl, length (take n pl), pf') \<and> reads pf' (drop n pl)"
proof -
  obtain dn where d: "pkt pf = dn @ pl" "cur_addr pf = length dn" "pkt_len pf = length pl" using assms by (auto simp: reads_def)
  define len where "len = (if length pl < n then length pl else n)"
  have t: "take len pl = take n pl" "length (take n pl) = len" "drop len pl = drop n pl" by (auto simp: len_def)
  have "rtw_pktfile_read pf n = (take n pl, len, pf\<lparr>cur_addr := length dn + len, pkt_len := length pl - len\<rparr>)"
    using d t(1) by (simp add: rtw_pktfile_read_def rtw_remainder_len_def len_def Let_def)
  moreover have "reads (pf\<lparr>cur_addr := length dn + len, pkt_len := length pl - len\<rparr>) (drop n pl)"
  proof -
    have "pkt pf = (dn @ take n pl) @ drop n pl" "length (dn @ take n pl) = length dn + len" "length pl - len = length (drop n pl)"
      using d t(2) by (simp_all add: len_def)
    then show ?thesis unfolding reads_def by (intro exI [of _ "dn @ take n pl"]) simp
  qed
  ultimately show ?thesis using t(2) by simp
qed

lemma reads_end: "reads pf pl \<Longrightarrow> rtw_endofpktfile pf \<longleftrightarrow> pl = []"
  by (auto simp: reads_def rtw_endofpktfile_def)

text \<open>The room for LLC header and packet bytes is \<open>r\<close>.\<close>

definition frag_room :: "int \<Rightarrow> tx_attrib \<Rightarrow> nat \<Rightarrow> bool" where
  "frag_room frg_len a r \<longleftrightarrow> int r = frg_len - int (hdrlen a) - int (iv_len a) - int (length (sw_icv a)) \<and> 8 < r \<and> r < 2 ^ 32"

lemma coalesce_frag_at:
  assumes a: "wf_iv a" "\<not> IS_MCAST (attrib_ra a)" "frag_room frg_len a r" and pf: "reads pf pl"
    and h: "length a1 = 6" "length a2 = 6" "length a3 = 6" "hdrlen a = 24 + length qc" "s = length pre"
    and llc: "llc = (if inx = 0 then rtw_put_snap (ether_type a) else [])" "m = take (r - length llc) pl"
    and R: "iv_len a + length llc + length m + length (sw_icv a) \<le> length R"
  shows "\<exists>pf'. coalesce_frag frg_len a inx s pf (pre @ wlan_header fc a1 a2 a3 sc qc @ R)
    = Some (pre @ wlan_header (fc OR 0x400) a1 a2 a3 sc qc @ iv_of a @ (llc @ m) @ sw_icv a
        @ drop (iv_len a + length llc + length m + length (sw_icv a)) R, pf', length llc, length m,
        s + hdrlen a + iv_len a + length llc + length m + length (sw_icv a))
    \<and> reads pf' (drop (r - length llc) pl)"
proof -
  define H where "H = wlan_header (fc OR 0x400) a1 a2 a3 sc qc"
  have H: "length H = hdrlen a" using h by (simp add: H_def)
  have iv: "length (iv_of a) = iv_len a" "take (iv_len a) (attrib_iv a) = iv_of a" using a(1) by (simp_all add: wf_iv_def iv_of_def)
  have icv: "take (length (sw_icv a)) (attrib_icv a) = sw_icv a"
    "(if 0 < icv_len a \<and> bswenc a then icv_len a else 0) = length (sw_icv a)"
    using a(1) by (auto simp: sw_icv_def wf_iv_def)
  have l: "length llc \<le> 8" "(if inx = 0 then 8 else 0) = length llc" by (simp_all add: llc(1))
  have rm: "nat ((frg_len - int (hdrlen a) - int (iv_len a) - int (length llc) - int (length (sw_icv a))) mod 2 ^ 32) = r - length llc"
  proof -
    have "frg_len - int (hdrlen a) - int (iv_len a) - int (length llc) - int (length (sw_icv a)) = int (r - length llc)"
      using a(3) l(1) by (simp add: frag_room_def)
    moreover have "int (r - length llc) < 2 ^ 32" using a(3) by (simp add: frag_room_def less_imp_diff_less)
    ultimately show ?thesis by simp
  qed
  obtain pf' where rd: "rtw_pktfile_read pf (r - length llc) = (m, length m, pf')" "reads pf' (drop (r - length llc) pl)"
    using reads_read [OF pf] llc(2) by blast
  have 1: "SetMFrag (pre @ wlan_header fc a1 a2 a3 sc qc @ R) s = Some (pre @ H @ R)"
    using h(5) by (simp add: mfrag_at H_def)
  have 2: "(if iv_len a \<noteq> 0 then wrn (pre @ H @ R) (s + hdrlen a) (take (iv_len a) (attrib_iv a)) else Some (pre @ H @ R))
      = Some (pre @ H @ iv_of a @ drop (iv_len a) R)"
    using wrn_room [of "s + hdrlen a" "pre @ H" "iv_of a" R] h(5) H iv R by auto
  have 3: "(if inx = 0 then wrn (pre @ H @ iv_of a @ drop (iv_len a) R) (s + hdrlen a + iv_len a) (rtw_put_snap (ether_type a))
        else Some (pre @ H @ iv_of a @ drop (iv_len a) R))
      = Some (pre @ H @ iv_of a @ llc @ drop (iv_len a + length llc) R)"
    using wrn_room [of "s + hdrlen a + iv_len a" "pre @ H @ iv_of a" "rtw_put_snap (ether_type a)" "drop (iv_len a) R"]
      h(5) H iv R llc(1) by (cases "inx = 0") (simp_all add: add.commute)
  have 4: "wrn (pre @ H @ iv_of a @ llc @ drop (iv_len a + length llc) R) (s + hdrlen a + iv_len a + length llc) m
      = Some (pre @ H @ iv_of a @ llc @ m @ drop (iv_len a + length llc + length m) R)"
    using wrn_room [of "s + hdrlen a + iv_len a + length llc" "pre @ H @ iv_of a @ llc" m "drop (iv_len a + length llc) R"]
      h(5) H iv R by (simp add: ac_simps)
  have 5: "wrn (pre @ H @ iv_of a @ llc @ m @ drop (iv_len a + length llc + length m) R)
        (s + hdrlen a + iv_len a + length llc + length m) (sw_icv a)
      = Some (pre @ H @ iv_of a @ llc @ m @ sw_icv a @ drop (iv_len a + length llc + length m + length (sw_icv a)) R)"
    using wrn_room [of "s + hdrlen a + iv_len a + length llc + length m" "pre @ H @ iv_of a @ llc @ m"
        "sw_icv a" "drop (iv_len a + length llc + length m) R"] h(5) H iv R by (simp add: ac_simps)
  have "coalesce_frag frg_len a inx s pf (pre @ wlan_header fc a1 a2 a3 sc qc @ R)
    = Some (pre @ H @ iv_of a @ llc @ m @ sw_icv a @ drop (iv_len a + length llc + length m + length (sw_icv a)) R,
        pf', length llc, length m, s + hdrlen a + iv_len a + length llc + length m + length (sw_icv a))"
    unfolding coalesce_frag_def icv(2) l(2) by (simp only: Let_def bind.simps 1 2 3 4 if_False a(2) icv rm rd(1) prod.case 5)
  then show ?thesis using rd(2) by (simp add: H_def)
qed

section \<open>All fragments\<close>

text \<open>Where the fragments are: the first one at \<open>s\<close>, each next header \<open>hw\<close> bytes behind the rounded end of the
  one before; \<open>oh\<close> is what a fragment has besides its body.\<close>

fun placed :: "nat \<Rightarrow> nat \<Rightarrow> nat \<Rightarrow> nat \<Rightarrow> bytes list \<Rightarrow> (nat \<times> bytes) list" where
  "placed base hw oh s [] = []"
| "placed base hw oh s (b # bs) = (s, b) # placed base hw oh (RND4 (base + (s + oh + length b)) - base + hw) bs"

lemma placed_map [simp]: "map snd (placed base hw oh s bs) = bs" "length (placed base hw oh s bs) = length bs"
  by (induction bs arbitrary: s) simp_all

lemma placed_Nil [simp]: "placed base hw oh s bs = [] \<longleftrightarrow> bs = []"
  by (cases bs) simp_all

definition at :: "bytes \<Rightarrow> nat \<Rightarrow> bytes \<Rightarrow> bool" where
  "at mem s x \<longleftrightarrow> take (length x) (drop s mem) = x"

lemma at_append [simp]: "at (p @ x @ q) (length p) x"
  by (simp add: at_def)

lemma at_mono:
  assumes "at mem s x" "take n mem' = take n mem" "s + length x \<le> n"
  shows "at mem' s x"
proof -
  have "take (s + length x) mem' = take (s + length x) mem"
    using assms(2,3) by (metis min.absorb1 take_take)
  then show ?thesis using assms(1) by (simp add: at_def take_drop add.commute)
qed

text \<open>The fragments in the buffer: \<open>F False\<close> makes one from its body, \<open>F True\<close> the last one.\<close>

fun laid :: "(bool \<Rightarrow> bytes \<Rightarrow> bytes) \<Rightarrow> bytes \<Rightarrow> (nat \<times> bytes) list \<Rightarrow> bool" where
  "laid F mem [] = True"
| "laid F mem ((s, b) # fs) = (at mem s (F (fs = []) b) \<and> laid F mem fs)"

definition frag_bytes :: "u16 \<Rightarrow> bytes \<Rightarrow> bytes \<Rightarrow> bytes \<Rightarrow> u16 \<Rightarrow> bytes \<Rightarrow> tx_attrib \<Rightarrow> bool \<Rightarrow> bytes \<Rightarrow> bytes" where
  "frag_bytes fc a1 a2 a3 sc qc a final b =
     wlan_header (if final then (fc OR 0x400) AND NOT 0x400 else fc OR 0x400) a1 a2 a3 sc qc @ iv_of a @ b @ sw_icv a"

lemma RND4_le: "x \<le> RND4 x"
  unfolding RND4_def by (cases "x mod 4 = 0") presburger+

lemma rdn_take: "i + n \<le> k \<Longrightarrow> take k mem' = take k mem \<Longrightarrow> k \<le> length mem \<Longrightarrow> length mem' = length mem \<Longrightarrow> rdn mem' i n = rdn mem i n"
proof -
  assume a: "i + n \<le> k" "take k mem' = take k mem" "k \<le> length mem" "length mem' = length mem"
  have "take n (drop i mem') = take n (drop i (take k mem'))" "take n (drop i mem) = take n (drop i (take k mem))"
    using a(1) by (simp_all add: drop_take min_def)
  then show ?thesis using a by (simp add: rdn_def)
qed

text \<open>What a fragment has besides its body.\<close>

definition overhead :: "tx_attrib \<Rightarrow> nat" where
  "overhead a = hdrlen a + iv_len a + length (sw_icv a)"

definition room_for :: "tx_attrib \<Rightarrow> nat \<Rightarrow> (nat \<times> bytes) list \<Rightarrow> bool" where
  "room_for a n fs \<longleftrightarrow> list_all (\<lambda>(s, b). s + overhead a + length b \<le> n) fs"

lemma chunk_step:
  assumes "8 < r" "b # bs = chunks r ((if inx = 0 then rtw_put_snap ty else []) @ pl)"
  shows "b = (if inx = 0 then rtw_put_snap ty else []) @ take (r - length (if inx = 0 then rtw_put_snap ty else [])) pl"
    "(drop (r - length (if inx = 0 then rtw_put_snap ty else [])) pl = []) = (bs = [])"
    "bs \<noteq> [] \<Longrightarrow> bs = chunks r (drop (r - length (if inx = 0 then rtw_put_snap ty else [])) pl)"
  using assms by (subst (asm) chunks.simps; auto split: if_split_asm)+

lemma coalesce_loop_frags:
  assumes "bs = chunks r ((if inx = 0 then rtw_put_snap (ether_type a) else []) @ pl)"
    and a: "wf_iv a" "\<not> IS_MCAST (attrib_ra a)" "frag_room frg_len a r" and pf: "reads pf pl"
    and h: "length a1 = 6" "length a2 = 6" "length a3 = 6" "hdrlen a = 24 + length qc"
    and mem: "mem = pre @ wlan_header f a1 a2 a3 sc qc @ R" "length pre = s" "f OR 0x400 = fc OR 0x400"
    and c: "if inx = 0 then s = hw else hw + hdrlen a \<le> s \<and> rdn mem hw (hdrlen a) = Some (wlan_header (fc OR 0x400) a1 a2 a3 sc qc)"
    and fits: "room_for a (length mem) (placed base hw (overhead a) s bs)"
  shows "\<exists>mem'. coalesce_loop frg_len hw base a inx s pf mem
      = Some (mem', a\<lparr>nr_frags := (inx + length bs) mod 256, last_txcmdsz := overhead a + length (last bs)\<rparr>)
    \<and> length mem' = length mem \<and> take s mem' = take s mem
    \<and> laid (frag_bytes fc a1 a2 a3 sc qc a) mem' (placed base hw (overhead a) s bs)"
  using assms(1) pf mem c fits
proof (induction bs arbitrary: inx s pf mem pl pre R f)
  case Nil
  then show ?case by (metis chunks_not_Nil)
next
  case (Cons b bs)
  define llc where "llc = (if inx = 0 then rtw_put_snap (ether_type a) else [])"
  define m where "m = take (r - length llc) pl"
  define H where "H = wlan_header (fc OR 0x400) a1 a2 a3 sc qc"
  have r8: "8 < r" using a(3) by (simp add: frag_room_def)
  note ch = chunk_step [OF r8 Cons.prems(1), folded llc_def, folded m_def]
  have H: "length H = hdrlen a" using h by (simp add: H_def)
  have iv: "length (iv_of a) = iv_len a" using a(1) by (simp add: wf_iv_def iv_of_def)
  have sic: "(if bswenc a then icv_len a else 0) = length (sw_icv a)" using a(1) by (auto simp: sw_icv_def wf_iv_def)
  have lm: "length mem = s + hdrlen a + length R" using Cons.prems(3,4) h by simp
  have R: "iv_len a + length llc + length m + length (sw_icv a) \<le> length R"
    using Cons.prems(7) lm by (simp add: room_for_def overhead_def ch(1))
  obtain pf' where frag: "coalesce_frag frg_len a inx s pf mem = Some (pre @ H @ iv_of a @ b @ sw_icv a
        @ drop (iv_len a + length b + length (sw_icv a)) R, pf', length llc, length m, s + overhead a + length b)"
      "reads pf' (drop (r - length llc) pl)"
    using coalesce_frag_at [OF a Cons.prems(2) h Cons.prems(4) [symmetric] llc_def m_def R, of f sc]
    by (auto simp: Cons.prems(3,5) H_def ch(1) overhead_def ac_simps)
  define mem1 where "mem1 = pre @ H @ iv_of a @ b @ sw_icv a @ drop (iv_len a + length b + length (sw_icv a)) R"
  have l1: "length mem1 = length mem" using R lm H iv Cons.prems(4) by (simp add: mem1_def ch(1))
  have t1: "take s mem1 = take s mem" using Cons.prems(3,4) by (simp add: mem1_def)
  have at1: "at mem1 s (frag_bytes fc a1 a2 a3 sc qc a False b)"
    using at_append [of pre "H @ iv_of a @ b @ sw_icv a"] Cons.prems(4) by (simp add: mem1_def frag_bytes_def H_def)
  show ?case
  proof (cases "bs = []")
    case True
    define mem' where "mem' = pre @ frag_bytes fc a1 a2 a3 sc qc a True b @ drop (iv_len a + length b + length (sw_icv a)) R"
    have cl: "ClearMFrag mem1 s = Some mem'"
      using Cons.prems(4) by (simp add: mem1_def H_def mfrag_at mem'_def frag_bytes_def)
    have e: "rtw_endofpktfile pf'" using reads_end [OF frag(2)] ch(2) True by simp
    have lb: "(if (inx + 1) mod 256 = 1 then length llc else 0) + length m = length b" if "inx = 0 \<or> llc = []"
      using that by (auto simp: ch(1))
    have sz: "hdrlen a + iv_len a + (if (inx + 1) mod 256 = 1 then length llc else 0) + (if bswenc a then icv_len a else 0) + length m
        = overhead a + length b"
      using lb sic by (auto simp: overhead_def llc_def)
    have "coalesce_loop frg_len hw base a inx s pf mem = Some (mem', a\<lparr>nr_frags := (inx + 1) mod 256, last_txcmdsz := overhead a + length b\<rparr>)"
      by (subst coalesce_loop.simps) (simp add: frag(1) mem1_def [symmetric] e cl Let_def sz [symmetric])
    moreover have "length mem' = length mem" using l1 h H by (simp add: mem'_def mem1_def frag_bytes_def)
    moreover have "take s mem' = take s mem" using Cons.prems(3,4) by (simp add: mem'_def)
    moreover have "at mem' s (frag_bytes fc a1 a2 a3 sc qc a True b)"
      using at_append [of pre] Cons.prems(4) by (simp add: mem'_def)
    ultimately show ?thesis using True by auto
  next
    case False
    then obtain b2 bs2 where bs: "bs = b2 # bs2" by (cases bs) auto
    define e where "e = s + overhead a + length b"
    define ms where "ms = RND4 (base + e) - base + hw"
    have ms: "e + hw \<le> ms" using RND4_le [of "base + e"] by (simp add: ms_def)
    have el: "s + length (frag_bytes fc a1 a2 a3 sc qc a False b) = e" using H iv by (simp add: frag_bytes_def e_def overhead_def H_def)
    have hwms: "hw + hdrlen a \<le> ms" using ms by (simp add: e_def overhead_def)
    have nx: "placed base hw (overhead a) s (b # bs) = (s, b) # placed base hw (overhead a) ms bs" by (simp add: ms_def e_def)
    have room: "ms + hdrlen a \<le> length mem1"
      using Cons.prems(7) l1 unfolding nx by (simp add: bs room_for_def overhead_def)
    have hdr: "rdn mem1 hw (hdrlen a) = Some H"
    proof (cases "inx = 0")
      case True
      then show ?thesis using Cons.prems(4,6) H by (simp add: mem1_def rdn_append)
    next
      case False
      then have "hw + hdrlen a \<le> s" "rdn mem hw (hdrlen a) = Some H" using Cons.prems(6) by (simp_all add: H_def)
      then show ?thesis using rdn_take [OF _ t1 _ l1] lm by simp
    qed
    define mem2 where "mem2 = take ms mem1 @ H @ drop (ms + hdrlen a) mem1"
    have w: "wrn mem1 ms H = Some mem2" using room H by (simp add: wrn_def mem2_def)
    have l2: "length mem2 = length mem1" "length (take ms mem1) = ms" using room H by (simp_all add: mem2_def)
    have t2: "take ms mem2 = take ms mem1" using l2(2) by (simp add: mem2_def)
    have hdr2: "rdn mem2 hw (hdrlen a) = Some H" using rdn_take [OF hwms t2 _ l2(1)] room hdr by simp
    have IH: "\<exists>mem'. coalesce_loop frg_len hw base a (inx + 1) ms pf' mem2
        = Some (mem', a\<lparr>nr_frags := (inx + 1 + length bs) mod 256, last_txcmdsz := overhead a + length (last bs)\<rparr>)
      \<and> length mem' = length mem2 \<and> take ms mem' = take ms mem2
      \<and> laid (frag_bytes fc a1 a2 a3 sc qc a) mem' (placed base hw (overhead a) ms bs)"
    proof (rule Cons.IH)
      show "bs = chunks r ((if inx + 1 = 0 then rtw_put_snap (ether_type a) else []) @ drop (r - length llc) pl)" using ch(3) [OF False] by simp
      show "reads pf' (drop (r - length llc) pl)" by (rule frag(2))
      show "mem2 = take ms mem1 @ wlan_header (fc OR 0x400) a1 a2 a3 sc qc @ drop (ms + hdrlen a) mem1" by (simp add: mem2_def H_def)
      show "length (take ms mem1) = ms" by (rule l2(2))
      show "(fc OR 0x400) OR 0x400 = fc OR 0x400" by (simp add: or.assoc)
      show "if inx + 1 = 0 then ms = hw else hw + hdrlen a \<le> ms \<and> rdn mem2 hw (hdrlen a) = Some (wlan_header (fc OR 0x400) a1 a2 a3 sc qc)"
        using hwms hdr2 by (simp add: H_def)
      show "room_for a (length mem2) (placed base hw (overhead a) ms bs)"
        using Cons.prems(7) l1 l2(1) unfolding nx by (simp add: room_for_def)
    qed
    then obtain mem' where m': "coalesce_loop frg_len hw base a (inx + 1) ms pf' mem2
        = Some (mem', a\<lparr>nr_frags := (inx + 1 + length bs) mod 256, last_txcmdsz := overhead a + length (last bs)\<rparr>)"
      "length mem' = length mem2" "take ms mem' = take ms mem2"
      "laid (frag_bytes fc a1 a2 a3 sc qc a) mem' (placed base hw (overhead a) ms bs)" by blast
    have ne: "\<not> rtw_endofpktfile pf'" using reads_end [OF frag(2)] ch(2) False by simp
    have "coalesce_loop frg_len hw base a inx s pf mem = coalesce_loop frg_len hw base a (inx + 1) ms pf' mem2"
      by (subst coalesce_loop.simps)
        (simp add: frag(1) mem1_def [symmetric] ne a(2) Let_def e_def [symmetric] ms_def [symmetric] hdr w)
    moreover have "take s mem' = take s mem"
    proof -
      have "s \<le> ms" using ms by (simp add: e_def)
      then have "take s mem' = take s mem1" using m'(3) t2 by (metis min.absorb1 take_take)
      then show ?thesis using t1 by simp
    qed
    moreover have "at mem' s (frag_bytes fc a1 a2 a3 sc qc a False b)"
      by (rule at_mono [OF at1, of ms]) (use m'(3) t2 ms el in simp_all)
    ultimately show ?thesis using m'(1,2,4) l1 l2(1) False unfolding nx by auto
  qed
qed

section \<open>A packet in fragments\<close>

text \<open>The header of every fragment but the last one, and a fragment in the buffer.\<close>

definition more_frags :: "bytes \<Rightarrow> bytes" where
  "more_frags hdr = hdr[1 := hdr ! 1 OR 4]"

definition fragment_of :: "adapter \<Rightarrow> tx_attrib \<Rightarrow> bool \<Rightarrow> bytes \<Rightarrow> bytes" where
  "fragment_of ad a final b = (if final then sent_header ad a else more_frags (sent_header ad a)) @ iv_of a @ b @ sw_icv a"

lemma more_frags_header: "more_frags (wlan_header fc a1 a2 a3 sc qc) = wlan_header (fc OR 0x400) a1 a2 a3 sc qc"
proof -
  have "(ucast (drop_bit 8 fc) :: u8) OR 4 = ucast (drop_bit 8 (fc OR 0x400))" "(ucast (fc OR 0x400) :: u8) = ucast fc"
  proof -
    have p: "(0x400 :: u16) = push_bit 10 1" "(4 :: u8) = push_bit 2 1" by simp_all
    show "(ucast (drop_bit 8 fc) :: u8) OR 4 = ucast (drop_bit 8 (fc OR 0x400))"
      unfolding p by (rule bit_word_eqI) (auto simp: bit_simps)
    have e: "(0x400 :: u16) = 2 ^ 10" by simp
    have len8: "LENGTH(8) = 8" by simp
    have nb: "\<not> bit (0x400 :: u16) n" if "n < 8" for n
      unfolding e using that by (simp only: bit_exp_iff) simp
    show "(ucast (fc OR 0x400) :: u8) = ucast fc" by (rule bit_word_eqI) (auto simp only: bit_unsigned_iff bit_or_iff nb len8)
  qed
  then show ?thesis by (simp add: more_frags_def wlan_header_def le16_bytes_def)
qed

text \<open>A unicast data packet that the driver leaves to the chip to encrypt, with \<open>r\<close> bytes of room in a fragment.\<close>

definition tx_many :: "adapter \<Rightarrow> int \<Rightarrow> tx_attrib \<Rightarrow> bytes \<Rightarrow> bytes \<Rightarrow> nat \<Rightarrow> bool" where
  "tx_many ad pkt_offset a pre R r \<longleftrightarrow> infra_mode ad \<and> data_attrib ad a \<and> encrypt a \<noteq> TKIP \<and> \<not> bswenc a \<and> wf_iv a
     \<and> \<not> IS_MCAST (attrib_ra a) \<and> pkt_hdrlen a = 14 \<and> frag_room (int (xmit_frag_len ad) - 4) a r
     \<and> hw_hdr_offset pkt_offset = length pre \<and> 64 \<le> length R"

lemma coalesce_fragments:
  assumes t: "tx_many ad pkt_offset a pre R r" and e: "length eth = 14"
    and m: "rtw_make_wlanhdr ad a = Some (True, hdr, a1, ad1)"
    and fits: "room_for a (length pre + length R) (placed base (length pre) (overhead a) (length pre) bs)"
    and bs: "bs = chunks r (rtw_put_snap (ether_type a) @ pl)"
  shows "\<exists>mem a2 ad2. rtw_xmitframe_coalesce w ad base pkt_offset (eth @ pl) a (Some (pre @ R)) = Some (True, Some mem, a2, ad2)
    \<and> nr_frags a2 = length bs mod 256 \<and> last_txcmdsz a2 = overhead a + length (last bs)
    \<and> laid (fragment_of ad a1) mem (placed base (length pre) (overhead a) (length pre) bs)
    \<and> icv_len a2 = icv_len a \<and> xmit_frag_len ad2 = xmit_frag_len ad \<and> security ad2 = security ad"
proof -
  have im: "infra_mode ad" and d: "data_attrib ad a" using t by (simp_all add: tx_many_def)
  from make_wlanhdr_ok [OF im d m] obtain rest where
    hdr: "hdr = sent_header ad a1 @ rest" "length hdr = 64" and a1: "a1 = a\<lparr>seqnum := seqnum a1, ampdu_en := ampdu_en a1\<rparr>"
    and ad1: "ad1 = ad\<lparr>peers := peers ad1\<rparr>" and lh: "length (sent_header ad a1) = hdrlen a" by blast
  define R1 where "R1 = rest @ drop 64 R"
  have w: "wrn (pre @ R) (hw_hdr_offset pkt_offset) hdr = Some (pre @ sent_header ad a1 @ R1)"
    using t hdr by (simp add: tx_many_def wrn_room R1_def)
  have lr: "length (sent_header ad a1 @ R1) = length R" using hdr t by (simp add: R1_def tx_many_def)
  have sel: "hdrlen a1 = hdrlen a" "attrib_ra a1 = attrib_ra a" "iv_len a1 = iv_len a" "icv_len a1 = icv_len a"
    "bswenc a1 = bswenc a" "attrib_iv a1 = attrib_iv a" "attrib_icv a1 = attrib_icv a" "pkt_hdrlen a1 = pkt_hdrlen a"
    "encrypt a1 = encrypt a" "ether_type a1 = ether_type a"
    by (subst a1, simp)+
  have d1: "data_attrib ad a1" using d by (subst a1) (simp add: data_attrib_def sends_qc_def)
  have eq: "sw_icv a1 = sw_icv a" "iv_of a1 = iv_of a" "overhead a1 = overhead a" "wf_iv a1 = wf_iv a" "frag_room n a1 k = frag_room n a k" for n k
    by (simp_all add: sw_icv_def iv_of_def overhead_def wf_iv_def frag_room_def sel)
  obtain fc x1 x2 x3 sc qc where h: "sent_header ad a1 = wlan_header fc x1 x2 x3 sc qc" "length x1 = 6" "length x2 = 6"
      "length x3 = 6" "(fc OR 0x400) AND NOT 0x400 = fc" "hdrlen a1 = 24 + length qc"
    using im d1 data_fc_mfrag [OF d1] by (auto simp: sent_header_def infra_mode_def data_attrib_def Let_def)
  have F: "frag_bytes fc x1 x2 x3 sc qc a1 = fragment_of ad a1"
    unfolding frag_bytes_def fragment_of_def h(1,5) more_frags_header by (intro ext) simp
  obtain b n pf where pf: "rtw_pktfile_read (rtw_open_pktfile (eth @ pl)) (length eth) = (b, n, pf)" by (metis prod_cases3)
  have rp: "reads pf pl" using reads_open [of eth pl] by (simp add: pf)
  have bs1: "bs = chunks r ((if (0::nat) = 0 then rtw_put_snap (ether_type a1) else []) @ pl)" using bs by (simp add: sel)
  have "\<exists>mem'. coalesce_loop (int (xmit_frag_len ad) - 4) (length pre) base a1 0 (length pre) pf (pre @ sent_header ad a1 @ R1)
      = Some (mem', a1\<lparr>nr_frags := (0 + length bs) mod 256, last_txcmdsz := overhead a1 + length (last bs)\<rparr>)
    \<and> length mem' = length (pre @ sent_header ad a1 @ R1) \<and> take (length pre) mem' = take (length pre) (pre @ sent_header ad a1 @ R1)
    \<and> laid (frag_bytes fc x1 x2 x3 sc qc a1) mem' (placed base (length pre) (overhead a1) (length pre) bs)"
    by (rule coalesce_loop_frags [OF bs1 _ _ _ rp h(2-4,6), where pre = pre and f = fc and R = R1])
      (use t fits lr in \<open>simp_all add: tx_many_def eq sel h(1) room_for_def\<close>)
  then obtain mem' where c: "coalesce_loop (int (xmit_frag_len ad) - 4) (length pre) base a1 0 (length pre) pf (pre @ sent_header ad a1 @ R1)
      = Some (mem', a1\<lparr>nr_frags := length bs mod 256, last_txcmdsz := overhead a + length (last bs)\<rparr>)"
    "laid (fragment_of ad a1) mem' (placed base (length pre) (overhead a) (length pre) bs)" by (auto simp: eq F)
  have ad1': "xmit_frag_len ad1 = xmit_frag_len ad" "security ad1 = security ad" by (subst ad1, simp)+
  show ?thesis
    using t c w m pf e
    by (auto simp: rtw_xmitframe_coalesce_def ad1' Let_def tx_many_def xmitframe_addmic_def xmitframe_swencrypt_def update_attrib_vcs_info_def sel)
qed

text \<open>C7. Fragmentation: a unicast packet of a station or an access point (Ethernet header of 14 bytes) that is in clear or left to
  the chip to encrypt, and not under TKIP (\<open>tx_many\<close>), with room for its fragments in the buffer. \<open>rtw_xmitframe_coalesce\<close>
  cuts it into fragments whose bodies, in order, are the LLC header and the packet; none is longer than the
  fragmentation threshold allows; each has the header of the packet (with the more-fragments bit in all but the last),
  the IV of the packet and its body; and the next one starts behind the rounded end of the one before it. (Group frames are
  not fragmented; under software encryption and TKIP the loop is followed by \<open>xmitframe_swencrypt\<close> and
  \<open>xmitframe_addmic\<close>, which write into the bodies.)\<close>

theorem packet_in_fragments:
  assumes "tx_many ad pkt_offset a pre R r" "length eth = 14" "rtw_make_wlanhdr ad a = Some (True, hdr, a1, ad1)"
    and "bs = chunks r (rtw_put_snap (ether_type a) @ pl)"
    and "room_for a (length pre + length R) (placed base (length pre) (overhead a) (length pre) bs)"
  shows "\<exists>mem a2 ad2. rtw_xmitframe_coalesce w ad base pkt_offset (eth @ pl) a (Some (pre @ R)) = Some (True, Some mem, a2, ad2)
    \<and> nr_frags a2 = length bs mod 256 \<and> last_txcmdsz a2 = overhead a + length (last bs)
    \<and> laid (fragment_of ad a1) mem (placed base (length pre) (overhead a) (length pre) bs)
    \<and> concat bs = rtw_put_snap (ether_type a) @ pl
    \<and> list_all (\<lambda>b. int (overhead a + length b) \<le> int (xmit_frag_len ad) - 4) bs"
proof -
  have "0 < r" "int r = int (xmit_frag_len ad) - 4 - int (overhead a)"
    using assms(1) by (simp_all add: tx_many_def frag_room_def overhead_def)
  then have "list_all (\<lambda>b. int (overhead a + length b) \<le> int (xmit_frag_len ad) - 4) bs"
    using chunks_length [of r _ "rtw_put_snap (ether_type a) @ pl"] unfolding assms(4) by (force simp: list_all_iff)
  then show ?thesis using coalesce_fragments [OF assms(1-3,5,4)] concat_chunks [of r "rtw_put_snap (ether_type a) @ pl"] assms(4)
    by blast
qed

section \<open>Fragments handed to the chip\<close>









definition ex_small :: adapter where
  "ex_small = ex_station\<lparr>xmit_frag_len := 256, security := (security ex_station)\<lparr>sw_encrypt := False\<rparr>\<rparr>"

definition ex_chip_a :: tx_attrib where
  "ex_chip_a = ex_cleared\<lparr>encrypt := AES, hdrlen := 26, iv_len := 8, icv_len := 8, attrib_iv := [5, 0, 0, 0x20, 0, 0, 0, 0],
     attrib_ra := ex_sta, attrib_ta := ex_my, attrib_dst := ex_sta, attrib_src := ex_my, ether_type := 0x0800,
     pkt_hdrlen := 14, attrib_subtype := WIFI_QOS_DATA_TYPE, qos_en := True, attrib_psta := Some 0\<rparr>"

definition ex_long :: bytes where "ex_long = replicate 300 7"

definition ex_frags :: "(nat \<times> bytes) list" where
  "ex_frags = placed 0 48 (overhead ex_chip_a) 48 (chunks 218 (rtw_put_snap (ether_type ex_chip_a) @ ex_long))"

lemma ex_frags_run: "ex_frags = [(48, rtw_put_snap 0x0800 @ replicate 210 7), (348, replicate 90 7)]"
  "room_for ex_chip_a 648 ex_frags" "overhead ex_chip_a = 34"
  by code_simp+

lemma ex_small_header: "case rtw_make_wlanhdr ex_small ex_chip_a of None \<Rightarrow> False | Some (ok, hdr, a1, ad1) \<Rightarrow> ok"
  by code_simp

lemma ex_small_many: "tx_many ex_small 1 ex_chip_a (replicate 48 0) (replicate 600 0) 218"
  by (simp add: tx_many_def infra_mode_def data_attrib_def ex_small_def ex_station_def ex_driver_def ex_chip_a_def ex_cleared_def
    check_fwstate_def WIFI_STATION_STATE_def ex_conditions sends_qc_def WIFI_QOS_DATA_TYPE_def AES_def TKIP_def wf_iv_def
    frag_room_def sw_icv_def hw_hdr_offset_def IS_MCAST_def ex_sta_def)

lemma ex_small_setup: "\<exists>hdr a1 ad1. rtw_make_wlanhdr ex_small ex_chip_a = Some (True, hdr, a1, ad1)"
  using ex_small_header by (auto split: option.split_asm)


theorem packet_in_fragments_witness:
  "\<exists>mem a2 ad2. rtw_xmitframe_coalesce True ex_small 0 1 (ex_sta @ ex_my @ [8, 0] @ ex_long) ex_chip_a
      (Some (replicate 48 0 @ replicate 600 0)) = Some (True, Some mem, a2, ad2) \<and> nr_frags a2 = 2"
proof -
  obtain hdr a1 ad1 where m: "rtw_make_wlanhdr ex_small ex_chip_a = Some (True, hdr, a1, ad1)" using ex_small_setup by blast
  have l: "length (ex_sta @ ex_my @ [8, 0]) = 14" by (simp add: ex_conditions)
  have f: "ex_frags = placed 0 (length (replicate 48 (0 :: u8))) (overhead ex_chip_a) (length (replicate 48 (0 :: u8)))
        (chunks 218 (rtw_put_snap (ether_type ex_chip_a) @ ex_long))" by (simp add: ex_frags_def)
  have n: "length (chunks 218 (rtw_put_snap (ether_type ex_chip_a) @ ex_long)) = 2"
    using arg_cong [OF f, of length] by (simp add: ex_frags_run(1))
  have r: "room_for ex_chip_a (length (replicate 48 (0 :: u8)) + length (replicate 600 (0 :: u8))) ex_frags"
    using ex_frags_run(2) by simp
  show ?thesis using packet_in_fragments [OF ex_small_many l m refl r [unfolded f], of True] n by auto
qed

section \<open>Packet numbers of packets\<close>

lemma tx_qos_keeps:
  assumes "tx_qos ad skb a = Some a'"
  shows "encrypt a' = encrypt a \<and> attrib_iv a' = attrib_iv a \<and> attrib_psta a' = attrib_psta a \<and> ether_type a' = ether_type a
    \<and> attrib_ra a' = attrib_ra a"
proof -
  have s: "encrypt b = encrypt a \<and> attrib_iv b = attrib_iv a \<and> attrib_psta b = attrib_psta a \<and> ether_type b = ether_type a
      \<and> attrib_ra b = attrib_ra a" if "set_qos skb a = Some b" for b
    by (subst (1 2 3 4 5) set_qos_fields(1) [OF that]) simp
  show ?thesis using assms s by (auto simp: tx_qos_def split: if_split_asm bind_splits)
qed

text \<open>What \<open>update_attrib\<close> does with a packet that it accepts.\<close>

lemma update_attrib_sec:
  assumes u: "update_attrib ad skb a0 = Some (True, a, cmds, ad')"
  obtains i a1 a2 p mid where "attrib_psta a = Some i" "tx_station ad a1 = Some i" "ether_type a = ether_type a1" "attrib_ra a = attrib_ra a1"
    "update_attrib_sec_info (fw_state ad) (security ad) mid (peers ad ! i) a1 = (True, a2, p)"
    "ad' = ad\<lparr>peers := (peers ad)[i := p]\<rparr>" "encrypt a = encrypt a2" "attrib_iv a = attrib_iv a2"
proof -
  obtain i a1 a2 p q where s: "tx_station ad a1 = Some i"
      "update_attrib_sec_info (fw_state ad) (security ad) (mac_id (pool (stapriv ad) ! i)) (peers ad ! i) a1 = (True, a2, p)"
      "ad' = ad\<lparr>peers := (peers ad)[i := p]\<rparr>"
      "tx_qos ad' skb ((update_attrib_phy_info (cur_bwmode ad) (driver_ampdu_spacing ad) p a2)
        \<lparr>attrib_psta := Some i, pctrl := False, ack_policy := 0, pkt_hdrlen := 14, hdrlen := 24,
         attrib_subtype := WIFI_DATA_TYPE, tx_priority := 0\<rparr>) = Some a"
    using u by (auto simp: update_attrib_def Let_def split: prod.split_asm if_split_asm bind_splits option.split_asm)
  have k: "ether_type a2 = ether_type a1" "attrib_ra a2 = attrib_ra a1"
    using s(2) by (auto simp: update_attrib_sec_info_def tx_iv_def Let_def split: if_split_asm prod.split_asm)
  show ?thesis
    by (rule that [OF _ s(1) _ _ s(2,3)]) (use tx_qos_keeps [OF s(4)] k in \<open>simp_all add: update_attrib_phy_info_def\<close>)
qed

lemma update_attrib_fails:
  assumes "update_attrib ad skb a0 = Some (False, a, cmds, ad')"
  shows "ad' = ad"
proof -
  have s: "p' = p" if "update_attrib_sec_info fw sec mid p a1 = (False, a2, p')" for fw and sec :: net_security and mid p a1 a2 p'
    using that by (auto simp: update_attrib_sec_info_def tx_iv_def Let_def split: if_split_asm prod.split_asm)
  show ?thesis using assms
    by (auto simp: update_attrib_def Let_def dest!: s split: prod.split_asm if_split_asm bind_splits option.split_asm)
qed

text \<open>C2. With 802.1X authentication a packet that is not EAPOL leaves the driver only when the port of its station is
  open, and it is encrypted by the cipher negotiated: the pairwise cipher of the station, the group cipher for
  group frames. In particular nothing but EAPOL is sent in clear while a cipher is in use.\<close>

theorem packet_is_protected:
  assumes "update_attrib ad skb a0 = Some (True, a, cmds, ad')" "dot11AuthAlgrthm (security ad) = 2"
    and "ether_type a \<noteq> 0x888E" "\<not> check_fwstate (fw_state ad) WIFI_MP_STATE"
  shows "\<exists>i. attrib_psta a = Some i \<and> \<not> ieee8021x_blocked (peers ad ! i)
    \<and> encrypt a = (if IS_MCAST (attrib_ra a) then ucast (dot118021XGrpPrivacy (security ad)) else ucast (dot118021XPrivacy (peers ad ! i)))"
proof -
  obtain i a1 a2 p mid where s: "attrib_psta a = Some i" "ether_type a = ether_type a1" "attrib_ra a = attrib_ra a1" "encrypt a = encrypt a2"
    "update_attrib_sec_info (fw_state ad) (security ad) mid (peers ad ! i) a1 = (True, a2, p)"
    using update_attrib_sec [OF assms(1)] by metis
  then show ?thesis using assms(2-4)
    by (auto simp: update_attrib_sec_info_def tx_iv_def GET_ENCRY_ALGO_def Let_def split: if_split_asm prod.split_asm)
qed

theorem packet_is_protected_witness:
  "\<exists>a cmds ad'. update_attrib ex_station (eth_packet ex_sta ex_my 0x0806 ex_arp) ex_cleared = Some (True, a, cmds, ad')
    \<and> encrypt a = AES"
proof -
  have m: "\<not> check_fwstate (fw_state ex_station) WIFI_MP_STATE" "dot11AuthAlgrthm (security ex_station) = 2"
    by (simp_all add: ex_station_def ex_driver_def check_fwstate_def WIFI_MP_STATE_def ex_net_sel)
  have e: "ether_type ex_a \<noteq> 0x888E" "\<not> IS_MCAST (attrib_ra ex_a)" by (simp_all add: ex_a_sel ex_conditions [unfolded ex_a_sel])
  obtain i where "encrypt ex_a = (if IS_MCAST (attrib_ra ex_a) then ucast (dot118021XGrpPrivacy (security ex_station))
      else ucast (dot118021XPrivacy (peers ex_station ! i)))" "attrib_psta ex_a = Some i"
    using packet_is_protected [OF ex_update m(2) e(1) m(1)] by auto
  then show ?thesis using ex_update ex_a_sel(1) by auto
qed

section \<open>A run of packets\<close>

text \<open>The packet numbers of a station: 48 bits, and back to zero.\<close>

definition next_pn :: "u64 \<Rightarrow> u64" where
  "next_pn n = (if n = 0xffffffffffff then 0 else n + 1)"

lemma next_pn_unat:
  assumes "unat n < 2 ^ 48"
  shows "unat (next_pn n) = (unat n + 1) mod 2 ^ 48"
proof (cases "n = 0xffffffffffff")
  case True
  then show ?thesis by (simp add: next_pn_def)
next
  case False
  then have "unat n \<noteq> unat (0xffffffffffff :: u64)" by (simp only: word_unat_eq_iff not_False_eq_True)
  then have "unat n + 1 < 2 ^ 48" using assms by simp
  then show ?thesis using False by (simp add: next_pn_def unat_word_ariths)
qed

lemma next_pn_power: "unat n < 2 ^ 48 \<Longrightarrow> unat ((next_pn ^^ k) n) = (unat n + k) mod 2 ^ 48"
proof (induction k)
  case (Suc k)
  have "unat ((next_pn ^^ k) n) < 2 ^ 48" using Suc by simp
  then show ?case using next_pn_unat Suc by (simp add: mod_Suc_eq)
qed simp

lemma next_pn_distinct:
  assumes "unat n < 2 ^ 48" "i < j" "j < 2 ^ 48"
  shows "(next_pn ^^ i) n \<noteq> (next_pn ^^ j) n"
proof
  assume "(next_pn ^^ i) n = (next_pn ^^ j) n"
  then have "(unat n + i) mod 2 ^ 48 = (unat n + j) mod 2 ^ 48" using next_pn_power assms(1) by metis
  then have "(2::nat) ^ 48 dvd j - i" using assms(2) by (metis add_diff_cancel_left le_add1 less_imp_le mod_eq_dvd_iff_nat add_le_cancel_left)
  then show False using assms(2,3) by (auto dest: dvd_imp_le)
qed

lemma iv_packet_number:
  assumes "unat m < 2 ^ 48" "unat n < 2 ^ 48"
  shows "fst (TKIP_IV m k) = fst (TKIP_IV n l) \<Longrightarrow> m = n" "fst (AES_IV m k) = fst (AES_IV n l) \<Longrightarrow> m = n"
proof -
  have lt: "m < 2 ^ 48" "n < 2 ^ 48" using assms by (simp_all add: word_less_nat_alt)
  have *: "m = n" if "pn_bytes m ! 0 = pn_bytes n ! 0" "pn_bytes m ! 1 = pn_bytes n ! 1" "pn_bytes m ! 2 = pn_bytes n ! 2"
    "pn_bytes m ! 3 = pn_bytes n ! 3" "pn_bytes m ! 4 = pn_bytes n ! 4" "pn_bytes m ! 5 = pn_bytes n ! 5"
  proof -
    have "pn_bytes m = pn_bytes n"
      by (rule nth_equalityI) (use that in \<open>auto simp: less_Suc_eq numeral_eq_Suc\<close>)
    then show ?thesis using pn_val_bytes lt by metis
  qed
  show "fst (TKIP_IV m k) = fst (TKIP_IV n l) \<Longrightarrow> m = n" "fst (AES_IV m k) = fst (AES_IV n l) \<Longrightarrow> m = n"
    using * by (simp_all add: TKIP_IV_def AES_IV_def Let_def)
qed

text \<open>\<open>update_attrib\<close> on one packet after the other; the attributes of those that are accepted.\<close>

fun tx_run :: "adapter \<Rightarrow> (bytes \<times> tx_attrib) list \<Rightarrow> (tx_attrib list \<times> adapter) option" where
  "tx_run ad [] = Some ([], ad)"
| "tx_run ad ((skb, a0) # ps) = do {
     (ok, a, _, ad) \<leftarrow> update_attrib ad skb a0;
     (as, ad) \<leftarrow> tx_run ad ps;
     Some (if ok then a # as else as, ad) }"

text \<open>The packets that use up a packet number of station \<open>k\<close>.\<close>

definition sealed_to :: "nat \<Rightarrow> tx_attrib list \<Rightarrow> tx_attrib list" where
  "sealed_to k as = filter (\<lambda>a. attrib_psta a = Some k \<and> (encrypt a = TKIP \<or> encrypt a = AES)) as"

definition iv_for :: "u8 \<Rightarrow> u64 \<Rightarrow> u8 \<Rightarrow> bytes" where
  "iv_for enc pn key = (if enc = TKIP then fst (TKIP_IV pn key) else fst (AES_IV pn key))"

lemma iv_for_inject: "iv_for e m x = iv_for e n y \<Longrightarrow> unat m < 2 ^ 48 \<Longrightarrow> unat n < 2 ^ 48 \<Longrightarrow> m = n"
  unfolding iv_for_def by (metis iv_packet_number)

definition pn_of :: "adapter \<Rightarrow> nat \<Rightarrow> u64" where
  "pn_of ad k = dot11txpn (peers ad ! k)"

lemma tx_iv_pn:
  assumes "tx_iv sec mc p a = (True, a', p')"
  shows "encrypt a' = TKIP \<or> encrypt a' = AES \<Longrightarrow>
      dot11txpn p' = next_pn (dot11txpn p) \<and> (\<exists>key. attrib_iv a' = iv_for (encrypt a') (dot11txpn p) key)"
    "encrypt a' \<noteq> TKIP \<Longrightarrow> encrypt a' \<noteq> AES \<Longrightarrow> encrypt a' \<noteq> WEP40 \<Longrightarrow> encrypt a' \<noteq> WEP104 \<Longrightarrow> p' = p"
proof -
  have w: "TKIP \<noteq> WEP40" "TKIP \<noteq> WEP104" "AES \<noteq> WEP40" "AES \<noteq> WEP104" "AES \<noteq> TKIP"
    by (simp_all add: WEP40_def WEP104_def TKIP_def AES_def)
  have e: "encrypt a' = encrypt a" using assms by (auto simp: tx_iv_def Let_def split: if_split_asm prod.split_asm)
  show "dot11txpn p' = next_pn (dot11txpn p) \<and> (\<exists>key. attrib_iv a' = iv_for (encrypt a') (dot11txpn p) key)"
    if c: "encrypt a' = TKIP \<or> encrypt a' = AES"
  proof (cases "encrypt a = TKIP")
    case True
    obtain iv pn where n: "TKIP_IV (dot11txpn p) (if mc then key_idx a else 0) = (iv, pn)" by fastforce
    then have "pn = next_pn (dot11txpn p)" by (auto simp: TKIP_IV_def next_pn_def Let_def)
    moreover have "attrib_iv a' = iv \<and> dot11txpn p' = pn"
      using assms True w n by (auto simp: tx_iv_def Let_def split: if_split_asm)
    ultimately show ?thesis using n True e by (metis fst_conv iv_for_def)
  next
    case False
    then have A: "encrypt a = AES" using c e by simp
    obtain iv pn where n: "AES_IV (dot11txpn p) (if mc then key_idx a else 0) = (iv, pn)" by fastforce
    then have "pn = next_pn (dot11txpn p)" by (auto simp: AES_IV_def next_pn_def Let_def)
    moreover have "attrib_iv a' = iv \<and> dot11txpn p' = pn"
      using assms A w n by (auto simp: tx_iv_def Let_def split: if_split_asm)
    ultimately show ?thesis using n A e w by (metis fst_conv iv_for_def)
  qed
  show "p' = p" if "encrypt a' \<noteq> TKIP" "encrypt a' \<noteq> AES" "encrypt a' \<noteq> WEP40" "encrypt a' \<noteq> WEP104"
    using assms that e by (simp add: tx_iv_def)
qed

lemma sec_info_iv:
  assumes "update_attrib_sec_info fw sec mid p a = (True, a2, p')"
  obtains c b where "tx_iv sec (IS_MCAST (attrib_ra a)) p c = (True, b, p')" "encrypt a2 = encrypt b" "attrib_iv a2 = attrib_iv b"
  using assms by (fastforce simp: update_attrib_sec_info_def Let_def split: if_split_asm prod.split_asm)

lemma update_attrib_pn:
  assumes u: "update_attrib ad skb a0 = Some (True, a, cmds, ad')" and k: "k < length (peers ad)"
    and w: "attrib_psta a = Some k \<Longrightarrow> encrypt a \<noteq> WEP40 \<and> encrypt a \<noteq> WEP104"
  shows "length (peers ad') = length (peers ad)"
    "sealed_to k [a] = [] \<Longrightarrow> pn_of ad' k = pn_of ad k"
    "sealed_to k [a] \<noteq> [] \<Longrightarrow> pn_of ad' k = next_pn (pn_of ad k) \<and> (\<exists>key. attrib_iv a = iv_for (encrypt a) (pn_of ad k) key)"
proof -
  obtain i a1 a2 p mid where s: "attrib_psta a = Some i" "encrypt a = encrypt a2" "attrib_iv a = attrib_iv a2"
    "update_attrib_sec_info (fw_state ad) (security ad) mid (peers ad ! i) a1 = (True, a2, p)" "ad' = ad\<lparr>peers := (peers ad)[i := p]\<rparr>"
    using update_attrib_sec [OF u] by metis
  obtain c b where x: "tx_iv (security ad) (IS_MCAST (attrib_ra a1)) (peers ad ! i) c = (True, b, p)" "encrypt a2 = encrypt b" "attrib_iv a2 = attrib_iv b"
    using sec_info_iv [OF s(4)] by blast
  note T = tx_iv_pn [OF x(1), folded x(2,3) s(2,3)]
  have o: "pn_of ad' k = (if i = k then dot11txpn p else pn_of ad k)" using s(5) k by (simp add: pn_of_def)
  show "length (peers ad') = length (peers ad)" by (simp add: s(5))
  show "pn_of ad' k = pn_of ad k" if "sealed_to k [a] = []"
    using that T(2) w s(1) o by (auto simp: sealed_to_def pn_of_def split: if_split_asm)
  show "pn_of ad' k = next_pn (pn_of ad k) \<and> (\<exists>key. attrib_iv a = iv_for (encrypt a) (pn_of ad k) key)" if "sealed_to k [a] \<noteq> []"
  proof -
    have "i = k" "encrypt a = TKIP \<or> encrypt a = AES" using that s(1) by (auto simp: sealed_to_def split: if_split_asm)
    then show ?thesis using T(1) o by (simp add: pn_of_def)
  qed
qed

lemma sealed_to_Cons: "sealed_to k (a # as) = sealed_to k [a] @ sealed_to k as" "sealed_to k [a] = [] \<or> sealed_to k [a] = [a]"
  by (simp_all add: sealed_to_def)

lemma tx_run_numbers:
  assumes "tx_run ad ps = Some (as, ad')" "k < length (peers ad)"
    and "list_all (\<lambda>a. attrib_psta a = Some k \<longrightarrow> encrypt a \<noteq> WEP40 \<and> encrypt a \<noteq> WEP104) as" "n < length (sealed_to k as)"
  shows "\<exists>key. attrib_iv (sealed_to k as ! n) = iv_for (encrypt (sealed_to k as ! n)) ((next_pn ^^ n) (pn_of ad k)) key"
  using assms
proof (induction ps arbitrary: ad as n)
  case Nil
  then show ?case by (simp add: sealed_to_def)
next
  case (Cons p ps)
  obtain skb a0 where p: "p = (skb, a0)" by fastforce
  obtain ok a cmds ad1 as1 ad2 where u: "update_attrib ad skb a0 = Some (ok, a, cmds, ad1)" "tx_run ad1 ps = Some (as1, ad')"
    "as = (if ok then a # as1 else as1)" using Cons.prems(1) by (auto simp: p split: bind_splits)
  show ?case
  proof (cases ok)
    case False
    then have "ad1 = ad" using update_attrib_fails u(1) by auto
    then show ?thesis using Cons.IH [OF u(2)] Cons.prems(2-4) u(3) False by auto
  next
    case True
    then have w: "attrib_psta a = Some k \<Longrightarrow> encrypt a \<noteq> WEP40 \<and> encrypt a \<noteq> WEP104" using Cons.prems(3) u(3) by auto
    have u1: "update_attrib ad skb a0 = Some (True, a, cmds, ad1)" using u(1) True by simp
    note P = update_attrib_pn [OF u1 Cons.prems(2)]
    have P2: "sealed_to k [a] = [] \<Longrightarrow> pn_of ad1 k = pn_of ad k"
      and P3: "sealed_to k [a] \<noteq> [] \<Longrightarrow> pn_of ad1 k = next_pn (pn_of ad k) \<and> (\<exists>key. attrib_iv a = iv_for (encrypt a) (pn_of ad k) key)"
      using P(2,3) w by blast+
    have as: "sealed_to k as = sealed_to k [a] @ sealed_to k as1" using u(3) True sealed_to_Cons(1) [of k a as1] by simp
    have IH: "\<exists>key. attrib_iv (sealed_to k as1 ! m) = iv_for (encrypt (sealed_to k as1 ! m)) ((next_pn ^^ m) (pn_of ad1 k)) key"
      if "m < length (sealed_to k as1)" for m
      using Cons.IH [OF u(2) _ _ that] Cons.prems(2,3) P(1) w u(3) True by auto
    show ?thesis
    proof (cases "sealed_to k [a] = []")
      case True
      then show ?thesis using IH [of n] P2 as Cons.prems(4) by simp
    next
      case False
      then have a: "sealed_to k [a] = [a]" using sealed_to_Cons(2) by blast
      show ?thesis
      proof (cases n)
        case 0
        then show ?thesis using P3 [OF False] by (simp add: as a)
      next
        case (Suc m)
        then show ?thesis using IH [of m] P3 [OF False] Cons.prems(4) by (simp add: as a funpow_swap1)
      qed
    qed
  qed
qed

text \<open>C3. No packet number is used twice: of all packets that \<open>update_attrib\<close> seals for a station with TKIP or CCMP,
  any two have different IVs, as long as there are at most 2 to the 48 of them (and no WEP packet in between). With
  the keys of the station unchanged, no key stream is used for two packets.\<close>

theorem packet_numbers_unique:
  assumes "tx_run ad ps = Some (as, ad')" "k < length (peers ad)" "unat (pn_of ad k) < 2 ^ 48"
    and "list_all (\<lambda>a. attrib_psta a = Some k \<longrightarrow> encrypt a \<noteq> WEP40 \<and> encrypt a \<noteq> WEP104) as"
    and "length (sealed_to k as) \<le> 2 ^ 48" "i < j" "j < length (sealed_to k as)"
    and "encrypt (sealed_to k as ! i) = encrypt (sealed_to k as ! j)"
  shows "attrib_iv (sealed_to k as ! i) \<noteq> attrib_iv (sealed_to k as ! j)"
proof
  assume eq: "attrib_iv (sealed_to k as ! i) = attrib_iv (sealed_to k as ! j)"
  define e where "e = encrypt (sealed_to k as ! j)"
  obtain x y where "attrib_iv (sealed_to k as ! i) = iv_for e ((next_pn ^^ i) (pn_of ad k)) x"
    "attrib_iv (sealed_to k as ! j) = iv_for e ((next_pn ^^ j) (pn_of ad k)) y"
    using tx_run_numbers [OF assms(1,2,4), of i] tx_run_numbers [OF assms(1,2,4), of j] assms(6-8) by (auto simp: e_def)
  moreover have "unat ((next_pn ^^ n) (pn_of ad k)) < 2 ^ 48" for n using next_pn_power [OF assms(3)] by simp
  ultimately have "(next_pn ^^ i) (pn_of ad k) = (next_pn ^^ j) (pn_of ad k)"
    using eq iv_for_inject by metis
  moreover have "j < 2 ^ 48" using assms(5,7) by linarith
  ultimately show False using next_pn_distinct [OF assms(3,6)] by blast
qed

lemma ex_two_packets: "case tx_run ex_station [(eth_packet ex_sta ex_my 0x0806 ex_arp, ex_cleared), (eth_packet ex_sta ex_my 0x0806 ex_arp, ex_cleared)] of
    None \<Rightarrow> False
  | Some (as, ad') \<Rightarrow> length (sealed_to 0 as) = 2 \<and> encrypt (sealed_to 0 as ! 0) = AES \<and> encrypt (sealed_to 0 as ! 1) = AES
      \<and> list_all (\<lambda>a. encrypt a = AES) as"
  by code_simp

theorem packet_numbers_unique_witness:
  "\<exists>as ad'. tx_run ex_station [(eth_packet ex_sta ex_my 0x0806 ex_arp, ex_cleared), (eth_packet ex_sta ex_my 0x0806 ex_arp, ex_cleared)]
      = Some (as, ad')
    \<and> length (sealed_to 0 as) = 2 \<and> attrib_iv (sealed_to 0 as ! 0) \<noteq> attrib_iv (sealed_to 0 as ! 1)"
proof -
  obtain as ad' where r: "tx_run ex_station [(eth_packet ex_sta ex_my 0x0806 ex_arp, ex_cleared),
      (eth_packet ex_sta ex_my 0x0806 ex_arp, ex_cleared)] = Some (as, ad')"
    and c: "length (sealed_to 0 as) = 2" "encrypt (sealed_to 0 as ! 0) = encrypt (sealed_to 0 as ! 1)" "list_all (\<lambda>a. encrypt a = AES) as"
    using ex_two_packets by (auto split: option.split_asm)
  have k: "0 < length (peers ex_station)" "unat (pn_of ex_station 0) < 2 ^ 48"
    by (simp_all add: ex_station_def ex_driver_def pn_of_def ex_link_def)
  have w: "list_all (\<lambda>a. attrib_psta a = Some 0 \<longrightarrow> encrypt a \<noteq> WEP40 \<and> encrypt a \<noteq> WEP104) as"
    using c(3) by (auto simp: list_all_iff AES_def WEP40_def WEP104_def)
  show ?thesis using packet_numbers_unique [OF r k w, of 0 1] r c by simp
qed

end
