(* ===== verification/Tx_Queue.thy ===== *)
theory Tx_Queue
  imports Mgmt_Protect Sta_Table
begin

text \<open>
  The queues of data frames to be sent, \<^verbatim>\<open>core/rtw_xmit.c\<close> and
  \<^verbatim>\<open>hal/rtl8723bu_xmit.c\<close>: the pool of frames, the pending queues of the stations by access
  category, and the scheduler.

  A frame is an index in the pool, the lists of the C code are lists of indices, and the attributes of the
  frames are a store indexed by them. The station table is the one of \<open>Sta_Table\<close>; \<open>ps_sta\<close> has the
  further fields of an entry. \<open>in_flight\<close> has the frames handed to the chip, \<open>events\<close> what other
  parts of the driver are asked to do.
\<close>

section \<open>State\<close>

definition NR_XMITFRAME :: nat where "NR_XMITFRAME = 256"

record xframe =
  xf_ra :: bytes
  xf_psta :: "nat option"
  xf_priority :: u8
  xf_triggered :: bool
  xf_mdata :: bool
  xf_eosp :: bool
  xf_qsel :: u8
  xf_ether_type :: u16
  xf_dhcp :: bool

record ps_sta =
  asleep :: bool
  alive_chk :: bool
  expire_to :: u32
  qos_option :: bool
  qos_info :: u8
  has_legacy_ac :: bool
  uapsd_vo :: u8
  uapsd_vi :: u8
  uapsd_be :: u8
  uapsd_bk :: u8
  sleepq_len :: u32
  sleepq_ac_len :: u32

text \<open>What the module asks other parts to do.\<close>

datatype event = UpdateBeacon | ChkBmcSleepq | ChkHiQueue | NullData nat | QosNull nat u8

record tx_priv =
  tbl :: sta_priv
  ps :: "ps_sta list"
  frames :: "nat \<Rightarrow> xframe"
  free_xmit_queue :: "nat list"
  free_xmitframe_cnt :: nat
  sta_queue :: "nat list list"
  in_flight :: "nat list"
  fw_state :: u32
  hiq_filter :: nat
  max_expire :: u32
  events :: "event list"

definition FW_UNDER_SURVEY :: u32 where "FW_UNDER_SURVEY = 0x800"
definition FW_UNDER_LINKING :: u32 where "FW_UNDER_LINKING = 0x80"

definition sta :: "tx_priv \<Rightarrow> nat \<Rightarrow> sta_info" where "sta s i = pool (tbl s) ! i"

definition upd_sta :: "nat \<Rightarrow> (sta_info \<Rightarrow> sta_info) \<Rightarrow> tx_priv \<Rightarrow> tx_priv" where
  "upd_sta i f s = s\<lparr>tbl := (tbl s)\<lparr>pool := (pool (tbl s))[i := f (sta s i)]\<rparr>\<rparr>"

definition upd_ps :: "nat \<Rightarrow> (ps_sta \<Rightarrow> ps_sta) \<Rightarrow> tx_priv \<Rightarrow> tx_priv" where
  "upd_ps i f s = s\<lparr>ps := (ps s)[i := f (ps s ! i)]\<rparr>"

definition upd_frame :: "nat \<Rightarrow> (xframe \<Rightarrow> xframe) \<Rightarrow> tx_priv \<Rightarrow> tx_priv" where
  "upd_frame x f s = s\<lparr>frames := (frames s)(x := f (frames s x))\<rparr>"

definition emit :: "event \<Rightarrow> tx_priv \<Rightarrow> tx_priv" where
  "emit e s = s\<lparr>events := events s @ [e]\<rparr>"

definition get_sta :: "tx_priv \<Rightarrow> bytes \<Rightarrow> nat option" where
  "get_sta s a = rtw_get_stainfo (tbl s) (Some a)"

text \<open>\<open>BIT(n)\<close> in a \<open>u16\<close>: nothing for \<open>n\<close> above 15.\<close>

definition BIT16 :: "nat \<Rightarrow> u16" where "BIT16 n = push_bit n 1"

definition set_tim :: "nat \<Rightarrow> tx_priv \<Rightarrow> tx_priv" where
  "set_tim a s = s\<lparr>tbl := (tbl s)\<lparr>tim_bitmap := tim_bitmap (tbl s) OR BIT16 a\<rparr>\<rparr>"

definition clear_tim :: "nat \<Rightarrow> tx_priv \<Rightarrow> tx_priv" where
  "clear_tim a s = s\<lparr>tbl := (tbl s)\<lparr>tim_bitmap := tim_bitmap (tbl s) AND NOT (BIT16 a)\<rparr>\<rparr>"

definition set_dz :: "nat \<Rightarrow> tx_priv \<Rightarrow> tx_priv" where
  "set_dz a s = s\<lparr>tbl := (tbl s)\<lparr>sta_dz_bitmap := sta_dz_bitmap (tbl s) OR BIT16 a\<rparr>\<rparr>"

definition clear_dz :: "nat \<Rightarrow> tx_priv \<Rightarrow> tx_priv" where
  "clear_dz a s = s\<lparr>tbl := (tbl s)\<lparr>sta_dz_bitmap := sta_dz_bitmap (tbl s) AND NOT (BIT16 a)\<rparr>\<rparr>"

definition tim_has :: "nat \<Rightarrow> tx_priv \<Rightarrow> bool" where
  "tim_has a s \<longleftrightarrow> tim_bitmap (tbl s) AND BIT16 a \<noteq> 0"

definition dz_has :: "nat \<Rightarrow> tx_priv \<Rightarrow> bool" where
  "dz_has a s \<longleftrightarrow> sta_dz_bitmap (tbl s) AND BIT16 a \<noteq> 0"

section \<open>The pool of frames\<close>

definition init_xframe :: xframe where
  "init_xframe = \<lparr>xf_ra = replicate 6 0, xf_psta = None, xf_priority = 0, xf_triggered = False,
     xf_mdata = False, xf_eosp = False, xf_qsel = 0, xf_ether_type = 0, xf_dhcp = False\<rparr>"

definition rtw_alloc_xmitframe :: "tx_priv \<Rightarrow> nat option \<times> tx_priv" where
  "rtw_alloc_xmitframe s =
     (case free_xmit_queue s of [] \<Rightarrow> (None, s)
      | x # q \<Rightarrow> (Some x, upd_frame x (\<lambda>_. init_xframe)
          (s\<lparr>free_xmit_queue := q, free_xmitframe_cnt := free_xmitframe_cnt s - 1\<rparr>)))"

definition rtw_free_xmitframe :: "nat \<Rightarrow> tx_priv \<Rightarrow> tx_priv" where
  "rtw_free_xmitframe x s =
     s\<lparr>free_xmit_queue := free_xmit_queue s @ [x], free_xmitframe_cnt := free_xmitframe_cnt s + 1\<rparr>"

section \<open>Pending queues\<close>

text \<open>The access category of a priority, as an index in the order vo, vi, be, bk.\<close>

definition ac_of :: "u8 \<Rightarrow> nat" where
  "ac_of up = (if up = 1 \<or> up = 2 then 3 else if up = 4 \<or> up = 5 then 1 else if up = 6 \<or> up = 7 then 0 else 2)"

definition pending :: "tx_priv \<Rightarrow> nat \<Rightarrow> nat \<Rightarrow> nat list" where
  "pending s i ac = sta_pending (sta s i) ! ac"

definition set_pending :: "nat \<Rightarrow> nat \<Rightarrow> nat list \<Rightarrow> tx_priv \<Rightarrow> tx_priv" where
  "set_pending i ac q = upd_sta i (\<lambda>p. p\<lparr>sta_pending := (sta_pending p)[ac := q]\<rparr>)"

definition add_qcnt :: "nat \<Rightarrow> nat \<Rightarrow> int \<Rightarrow> tx_priv \<Rightarrow> tx_priv" where
  "add_qcnt i ac d = upd_sta i (\<lambda>p. p\<lparr>qcnt := (qcnt p)[ac := qcnt p ! ac + d]\<rparr>)"

definition add_accnt :: "nat \<Rightarrow> int \<Rightarrow> tx_priv \<Rightarrow> tx_priv" where
  "add_accnt ac d s = s\<lparr>tbl := (tbl s)\<lparr>hw_accnt := (hw_accnt (tbl s))[ac := hw_accnt (tbl s) ! ac + d]\<rparr>\<rparr>"

definition set_sta_queue :: "nat \<Rightarrow> nat list \<Rightarrow> tx_priv \<Rightarrow> tx_priv" where
  "set_sta_queue ac q s = s\<lparr>sta_queue := (sta_queue s)[ac := q]\<rparr>"

text \<open>The flag is \<open>_SUCCESS\<close>. \<open>tx_pending\<close> of a queue is in a list when its station is in
  \<open>sta_queue\<close> of that category.\<close>

definition rtw_xmit_classifier :: "nat \<Rightarrow> tx_priv \<Rightarrow> bool \<times> tx_priv" where
  "rtw_xmit_classifier x s =
     (let a = frames s x in
      case get_sta s (xf_ra a) of
        None \<Rightarrow> (False, s)
      | Some i \<Rightarrow>
          if xf_psta a \<noteq> Some i \<or> \<not> linked (sta s i) then (False, s)
          else (let ac = ac_of (xf_priority a);
                    s = (if i \<in> set (sta_queue s ! ac) then s else set_sta_queue ac (sta_queue s ! ac @ [i]) s)
                in (True, add_accnt ac 1 (add_qcnt i ac 1 (set_pending i ac (pending s i ac @ [x]) s)))))"

text \<open>\<open>rtl8723bu_hal_xmitframe_enqueue\<close>\<close>

definition hal_xmitframe_enqueue :: "nat \<Rightarrow> tx_priv \<Rightarrow> tx_priv" where
  "hal_xmitframe_enqueue x s =
     (let (ok, s) = rtw_xmit_classifier x s in if ok then s else rtw_free_xmitframe x s)"

definition rtw_txframes_sta_ac_pending :: "nat \<Rightarrow> tx_priv \<Rightarrow> int" where
  "rtw_txframes_sta_ac_pending x s =
     (let a = frames s x in
      case get_sta s (xf_ra a) of
        None \<Rightarrow> 0
      | Some i \<Rightarrow> if xf_psta a \<noteq> Some i \<or> \<not> linked (sta s i) then 0 else qcnt (sta s i) ! ac_of (xf_priority a))"

text \<open>\<open>xmitbuf_ok\<close>: a buffer is free; \<open>direct_ok\<close>: \<open>xmitframe_direct\<close> succeeds.\<close>

definition pre_xmitframe :: "bool \<Rightarrow> bool \<Rightarrow> nat \<Rightarrow> tx_priv \<Rightarrow> tx_priv" where
  "pre_xmitframe xmitbuf_ok direct_ok x s =
     (if 0 < rtw_txframes_sta_ac_pending x s
        \<or> check_fwstate (fw_state s) (FW_UNDER_SURVEY OR FW_UNDER_LINKING) \<or> \<not> xmitbuf_ok
      then hal_xmitframe_enqueue x s
      else if direct_ok then s\<lparr>in_flight := in_flight s @ [x]\<rparr> else rtw_free_xmitframe x s)"

text \<open>The scheduler: categories in the order \<open>inx\<close>, in each the stations in the order of
  \<open>sta_queue\<close>, the head of the first queue that has one.\<close>

fun dequeue_sta :: "nat \<Rightarrow> nat list \<Rightarrow> tx_priv \<Rightarrow> (nat \<times> tx_priv) option" where
  "dequeue_sta ac [] s = None"
| "dequeue_sta ac (i # is) s =
     (case pending s i ac of
        [] \<Rightarrow> dequeue_sta ac is s
      | x # q \<Rightarrow>
          (let s = add_accnt ac (- 1) (add_qcnt i ac (- 1) (set_pending i ac q s));
               s = (if q = [] then set_sta_queue ac (remove1 i (sta_queue s ! ac)) s else s)
           in Some (x, s)))"

fun rtw_dequeue_xframe :: "nat list \<Rightarrow> tx_priv \<Rightarrow> (nat \<times> tx_priv) option" where
  "rtw_dequeue_xframe [] s = None"
| "rtw_dequeue_xframe (ac # inx) s =
     (case dequeue_sta ac (sta_queue s ! ac) s of None \<Rightarrow> rtw_dequeue_xframe inx s | Some r \<Rightarrow> Some r)"

section \<open>Observations\<close>

definition nsta :: "tx_priv \<Rightarrow> nat" where "nsta s = length (pool (tbl s))"

text \<open>The part of the station table that no operation here changes.\<close>

definition table :: "tx_priv \<Rightarrow> nat \<times> (bytes \<Rightarrow> nat option) \<times> nat option \<times> (nat \<Rightarrow> nat \<times> bool)" where
  "table s = (nsta s, get_sta s, rtw_get_bcmc_stainfo (tbl s), \<lambda>i. (aid (sta s i), linked (sta s i)))"

lemma sta_upd_sta: "sta (upd_sta i f s) j = (if j = i \<and> i < nsta s then f (sta s i) else sta s j)"
  by (cases "i < nsta s") (auto simp: sta_def upd_sta_def nsta_def nth_list_update list_update_beyond)

lemma nsta_upd_sta [simp]: "nsta (upd_sta i f s) = nsta s"
  by (simp add: nsta_def upd_sta_def)

lemma lookup_upd_sta:
  assumes "\<And>p. hwaddr (f p) = hwaddr p"
  shows "rtw_get_stainfo (tbl (upd_sta i f s)) a = rtw_get_stainfo (tbl s) a"
proof -
  have "hwaddr (pool (tbl (upd_sta i f s)) ! j) = hwaddr (pool (tbl s) ! j)" for j
    using sta_upd_sta [of i f s j] assms by (simp add: sta_def split: if_splits)
  moreover have "sta_hash (tbl (upd_sta i f s)) = sta_hash (tbl s)" by (simp add: upd_sta_def)
  ultimately show ?thesis by (simp add: rtw_get_stainfo_def cong: option.case_cong)
qed

lemma table_upd_sta:
  assumes "\<And>p. hwaddr (f p) = hwaddr p" "\<And>p. aid (f p) = aid p" "\<And>p. linked (f p) = linked p"
  shows "table (upd_sta i f s) = table s"
  by (auto simp: table_def sta_upd_sta assms fun_eq_iff get_sta_def rtw_get_bcmc_stainfo_def lookup_upd_sta [OF assms(1)])

lemma tbl_fields:
  "rtw_get_stainfo (t\<lparr>tim_bitmap := x\<rparr>) a = rtw_get_stainfo t a"
  "rtw_get_stainfo (t\<lparr>sta_dz_bitmap := x\<rparr>) a = rtw_get_stainfo t a"
  "rtw_get_stainfo (t\<lparr>hw_accnt := y\<rparr>) a = rtw_get_stainfo t a"
  by (auto simp: rtw_get_stainfo_def Let_def split: option.split)

lemmas prim_defs = upd_ps_def upd_frame_def emit_def set_tim_def clear_tim_def set_dz_def clear_dz_def
  add_accnt_def set_sta_queue_def rtw_free_xmitframe_def

lemma table_simps [simp]:
  "table (upd_ps i g s) = table s" "table (upd_frame x h s) = table s" "table (emit e s) = table s"
  "table (set_tim a s) = table s" "table (clear_tim a s) = table s" "table (set_dz a s) = table s"
  "table (clear_dz a s) = table s" "table (add_accnt ac d s) = table s" "table (set_sta_queue ac q s) = table s"
  "table (rtw_free_xmitframe x s) = table s"
  "table (set_pending i ac q s) = table s" "table (add_qcnt i ac d s) = table s"
  by (simp_all add: set_pending_def add_qcnt_def table_upd_sta)
    (simp_all add: table_def nsta_def sta_def get_sta_def fun_eq_iff rtw_get_bcmc_stainfo_def tbl_fields prim_defs)

lemma sta_simps [simp]:
  "sta (upd_ps i g s) = sta s" "sta (upd_frame x h s) = sta s" "sta (emit e s) = sta s"
  "sta (set_tim a s) = sta s" "sta (clear_tim a s) = sta s" "sta (set_dz a s) = sta s"
  "sta (clear_dz a s) = sta s" "sta (add_accnt ac d s) = sta s" "sta (set_sta_queue ac q s) = sta s"
  "sta (rtw_free_xmitframe x s) = sta s"
  by (simp_all add: fun_eq_iff sta_def prim_defs)

lemma keeps_upd_sta [simp]:
  "ps (upd_sta i f s) = ps s" "frames (upd_sta i f s) = frames s" "free_xmit_queue (upd_sta i f s) = free_xmit_queue s"
  "sta_queue (upd_sta i f s) = sta_queue s" "in_flight (upd_sta i f s) = in_flight s" "fw_state (upd_sta i f s) = fw_state s"
  "tim_has a (upd_sta i f s) = tim_has a s" "dz_has a (upd_sta i f s) = dz_has a s"
  "sta_dz_bitmap (tbl (upd_sta i f s)) = sta_dz_bitmap (tbl s)" "hw_accnt (tbl (upd_sta i f s)) = hw_accnt (tbl s)"
  by (simp_all add: upd_sta_def tim_has_def dz_has_def)

lemma frames_upd_frame [simp]: "frames (upd_frame x h s) = (frames s)(x := h (frames s x))"
  by (simp add: upd_frame_def)

lemma frames_simps [simp]:
  "frames (upd_ps i g s) = frames s" "frames (emit e s) = frames s"
  "frames (set_tim a s) = frames s" "frames (clear_tim a s) = frames s" "frames (set_dz a s) = frames s"
  "frames (clear_dz a s) = frames s" "frames (add_accnt ac d s) = frames s" "frames (set_sta_queue ac q s) = frames s"
  "frames (rtw_free_xmitframe x s) = frames s"
  by (simp_all add: prim_defs)

lemma free_simps [simp]:
  "free_xmit_queue (upd_ps i g s) = free_xmit_queue s" "free_xmit_queue (upd_frame x h s) = free_xmit_queue s"
  "free_xmit_queue (emit e s) = free_xmit_queue s" "free_xmit_queue (set_tim a s) = free_xmit_queue s"
  "free_xmit_queue (clear_tim a s) = free_xmit_queue s" "free_xmit_queue (set_dz a s) = free_xmit_queue s"
  "free_xmit_queue (clear_dz a s) = free_xmit_queue s" "free_xmit_queue (add_accnt ac d s) = free_xmit_queue s"
  "free_xmit_queue (set_sta_queue ac q s) = free_xmit_queue s"
  "free_xmit_queue (rtw_free_xmitframe x s) = free_xmit_queue s @ [x]"
  by (simp_all add: prim_defs)

lemma flight_simps [simp]:
  "in_flight (upd_ps i g s) = in_flight s" "in_flight (upd_frame x h s) = in_flight s"
  "in_flight (emit e s) = in_flight s" "in_flight (set_tim a s) = in_flight s"
  "in_flight (clear_tim a s) = in_flight s" "in_flight (set_dz a s) = in_flight s"
  "in_flight (clear_dz a s) = in_flight s" "in_flight (add_accnt ac d s) = in_flight s"
  "in_flight (set_sta_queue ac q s) = in_flight s" "in_flight (rtw_free_xmitframe x s) = in_flight s"
  by (simp_all add: prim_defs)

lemma fw_simps [simp]:
  "fw_state (upd_ps i g s) = fw_state s" "fw_state (upd_frame x h s) = fw_state s"
  "fw_state (emit e s) = fw_state s" "fw_state (set_tim a s) = fw_state s"
  "fw_state (clear_tim a s) = fw_state s" "fw_state (set_dz a s) = fw_state s"
  "fw_state (clear_dz a s) = fw_state s" "fw_state (add_accnt ac d s) = fw_state s"
  "fw_state (set_sta_queue ac q s) = fw_state s" "fw_state (rtw_free_xmitframe x s) = fw_state s"
  by (simp_all add: prim_defs)

lemma ps_upd_ps: "ps (upd_ps i g s) ! j = (if j = i \<and> i < length (ps s) then g (ps s ! i) else ps s ! j)"
  by (auto simp: upd_ps_def nth_list_update list_update_beyond)

lemma length_ps_upd [simp]: "length (ps (upd_ps i g s)) = length (ps s)"
  by (simp add: upd_ps_def)

lemma ps_simps [simp]:
  "ps (upd_frame x h s) = ps s" "ps (emit e s) = ps s"
  "ps (set_tim a s) = ps s" "ps (clear_tim a s) = ps s" "ps (set_dz a s) = ps s"
  "ps (clear_dz a s) = ps s" "ps (add_accnt ac d s) = ps s" "ps (set_sta_queue ac q s) = ps s"
  "ps (rtw_free_xmitframe x s) = ps s"
  by (simp_all add: prim_defs)

lemma sta_queue_simps [simp]:
  "sta_queue (upd_ps i g s) = sta_queue s" "sta_queue (upd_frame x h s) = sta_queue s"
  "sta_queue (emit e s) = sta_queue s" "sta_queue (set_tim a s) = sta_queue s"
  "sta_queue (clear_tim a s) = sta_queue s" "sta_queue (set_dz a s) = sta_queue s"
  "sta_queue (clear_dz a s) = sta_queue s" "sta_queue (add_accnt ac d s) = sta_queue s"
  "sta_queue (set_sta_queue ac q s) = (sta_queue s)[ac := q]" "sta_queue (rtw_free_xmitframe x s) = sta_queue s"
  by (simp_all add: prim_defs)

lemma dz_simps [simp]:
  "sta_dz_bitmap (tbl (upd_ps i g s)) = sta_dz_bitmap (tbl s)" "sta_dz_bitmap (tbl (upd_frame x h s)) = sta_dz_bitmap (tbl s)"
  "sta_dz_bitmap (tbl (emit e s)) = sta_dz_bitmap (tbl s)" "sta_dz_bitmap (tbl (set_tim a s)) = sta_dz_bitmap (tbl s)"
  "sta_dz_bitmap (tbl (clear_tim a s)) = sta_dz_bitmap (tbl s)"
  "sta_dz_bitmap (tbl (add_accnt ac d s)) = sta_dz_bitmap (tbl s)"
  "sta_dz_bitmap (tbl (set_sta_queue ac q s)) = sta_dz_bitmap (tbl s)"
  "sta_dz_bitmap (tbl (rtw_free_xmitframe x s)) = sta_dz_bitmap (tbl s)"
  by (simp_all add: prim_defs)

lemma tim_simps [simp]:
  "tim_bitmap (tbl (upd_ps i g s)) = tim_bitmap (tbl s)" "tim_bitmap (tbl (upd_frame x h s)) = tim_bitmap (tbl s)"
  "tim_bitmap (tbl (emit e s)) = tim_bitmap (tbl s)" "tim_bitmap (tbl (set_dz a s)) = tim_bitmap (tbl s)"
  "tim_bitmap (tbl (clear_dz a s)) = tim_bitmap (tbl s)"
  "tim_bitmap (tbl (add_accnt ac d s)) = tim_bitmap (tbl s)"
  "tim_bitmap (tbl (set_sta_queue ac q s)) = tim_bitmap (tbl s)"
  "tim_bitmap (tbl (rtw_free_xmitframe x s)) = tim_bitmap (tbl s)"
  by (simp_all add: prim_defs)

lemma bit_BIT16 [simp]: "bit (BIT16 a) n \<longleftrightarrow> n = a \<and> a < 16"
  by (auto simp: BIT16_def bit_push_bit_iff bit_simps)

lemma has_bit: "v AND BIT16 a \<noteq> 0 \<longleftrightarrow> bit v a"
proof
  assume "v AND BIT16 a \<noteq> 0"
  then obtain n where "bit (v AND BIT16 a) n" using bit_eq_iff [of "v AND BIT16 a" 0] by auto
  then show "bit v a" by (auto simp: bit_and_iff)
next
  assume b: "bit v a"
  then have "a < 16" using bit_imp_le_length [OF b] by simp
  then have "bit (v AND BIT16 a) a" using b by (simp add: bit_and_iff)
  then show "v AND BIT16 a \<noteq> 0" by auto
qed

lemma tim_has_bit: "tim_has a s \<longleftrightarrow> bit (tim_bitmap (tbl s)) a" by (simp add: tim_has_def has_bit)

lemma dz_has_bit: "dz_has a s \<longleftrightarrow> bit (sta_dz_bitmap (tbl s)) a" by (simp add: dz_has_def has_bit)

lemma tim_has_simps [simp]:
  "tim_has a (set_tim b s) \<longleftrightarrow> tim_has a s \<or> (a = b \<and> b < 16)"
  "tim_has a (clear_tim b s) \<longleftrightarrow> tim_has a s \<and> a \<noteq> b"
  using bit_imp_le_length [of "tim_bitmap (tbl s)" a]
  by (auto simp: tim_has_bit set_tim_def clear_tim_def bit_or_iff bit_and_iff bit_not_iff possible_bit_def)

lemma dz_has_simps [simp]:
  "dz_has a (set_dz b s) \<longleftrightarrow> dz_has a s \<or> (a = b \<and> b < 16)"
  "dz_has a (clear_dz b s) \<longleftrightarrow> dz_has a s \<and> a \<noteq> b"
  using bit_imp_le_length [of "sta_dz_bitmap (tbl s)" a]
  by (auto simp: dz_has_bit set_dz_def clear_dz_def bit_or_iff bit_and_iff bit_not_iff possible_bit_def)

lemma bit_keeps [simp]:
  "tim_has a (upd_ps i g s) = tim_has a s" "tim_has a (upd_frame x h s) = tim_has a s" "tim_has a (emit e s) = tim_has a s"
  "tim_has a (set_dz b s) = tim_has a s" "tim_has a (clear_dz b s) = tim_has a s" "tim_has a (add_accnt ac d s) = tim_has a s"
  "tim_has a (set_sta_queue ac q s) = tim_has a s" "tim_has a (rtw_free_xmitframe x s) = tim_has a s"
  "dz_has a (upd_ps i g s) = dz_has a s" "dz_has a (upd_frame x h s) = dz_has a s" "dz_has a (emit e s) = dz_has a s"
  "dz_has a (set_tim b s) = dz_has a s" "dz_has a (clear_tim b s) = dz_has a s" "dz_has a (add_accnt ac d s) = dz_has a s"
  "dz_has a (set_sta_queue ac q s) = dz_has a s" "dz_has a (rtw_free_xmitframe x s) = dz_has a s"
  by (simp_all add: tim_has_bit dz_has_bit)

lemma table_obs:
  assumes "table s' = table s"
  shows "nsta s' = nsta s" "get_sta s' = get_sta s" "rtw_get_bcmc_stainfo (tbl s') = rtw_get_bcmc_stainfo (tbl s)"
    "aid (sta s' i) = aid (sta s i)" "linked (sta s' i) = linked (sta s i)"
  using assms by (auto simp: table_def fun_eq_iff)

lemmas table_keeps [simp] = table_simps [THEN table_obs(1)] table_simps [THEN table_obs(2)] table_simps [THEN table_obs(3)]

end
