(* ===== verification/Ap_Sleep.thy ===== *)
theory Ap_Sleep
  imports Tx_Queue
begin

text \<open>
  An access point's buffering of frames for stations in power save: \<open>xmitframe_enqueue_for_sleeping_sta\<close>
  to \<open>xmit_delivery_enabled_frames\<close> of \<^verbatim>\<open>core/rtw_xmit.c\<close>, and what drives them: the power
  management bit, U-APSD triggers and PS-Poll frames of \<^verbatim>\<open>core/rtw_recv.c\<close>, the flush of group
  frames (\<open>chk_bmc_sleepq_hdl\<close> of \<^verbatim>\<open>core/rtw_mlme_ext.c\<close>, \<open>rtw_chk_hi_queue_hdl\<close> of
  \<^verbatim>\<open>core/rtw_cmd.c\<close>).
\<close>

section \<open>Operations\<close>

text \<open>The U-APSD setting of the category of a priority: bit 0 delivery-enabled, bit 1 trigger-enabled.\<close>

definition uapsd_of :: "ps_sta \<Rightarrow> u8 \<Rightarrow> u8" where
  "uapsd_of p priority =
     (if priority = 1 \<or> priority = 2 then uapsd_bk p
      else if priority = 4 \<or> priority = 5 then uapsd_vi p
      else if priority = 6 \<or> priority = 7 then uapsd_vo p
      else uapsd_be p)"

text \<open>\<open>hiq_filter\<close> 0 allows all frames, 1 special ones, 2 none; the interface is USB.\<close>

definition xmitframe_hiq_filter :: "tx_priv \<Rightarrow> nat \<Rightarrow> bool" where
  "xmitframe_hiq_filter s x =
     (if hiq_filter s = 1
      then xf_ether_type (frames s x) = 0x0806 \<or> xf_ether_type (frames s x) = 0x888e \<or> xf_dhcp (frames s x)
      else hiq_filter s = 0)"

text \<open>The frame goes to the end of a sleep queue.\<close>

definition push_sleep_q :: "nat \<Rightarrow> nat \<Rightarrow> tx_priv \<Rightarrow> tx_priv" where
  "push_sleep_q i x s =
     upd_ps i (\<lambda>p. p\<lparr>sleepq_len := sleepq_len p + 1\<rparr>) (upd_sta i (\<lambda>p. p\<lparr>sleep_q := sleep_q p @ [x]\<rparr>) s)"

definition enqueue_group :: "nat \<Rightarrow> nat \<Rightarrow> tx_priv \<Rightarrow> tx_priv" where
  "enqueue_group i x s =
     (let update_tim = (\<not> tim_has 0 s);
          s = set_dz 0 (set_tim 0 (push_sleep_q i x s))
      in emit (if update_tim then UpdateBeacon else ChkBmcSleepq) s)"

definition enqueue_unicast :: "nat \<Rightarrow> nat \<Rightarrow> tx_priv \<Rightarrow> tx_priv" where
  "enqueue_unicast i x s =
     (let s = push_sleep_q i x s;
          p = ps s ! i;
          a = aid (sta s i);
          wmmps_ac = (uapsd_of p (xf_priority (frames s x)) AND 1 \<noteq> 0);
          s = (if wmmps_ac then upd_ps i (\<lambda>p. p\<lparr>sleepq_ac_len := sleepq_ac_len p + 1\<rparr>) s else s)
      in if has_legacy_ac p \<and> \<not> wmmps_ac \<or> \<not> has_legacy_ac p \<and> wmmps_ac
         then (let update_tim = (\<not> tim_has a s);
                   s = set_tim a s
               in if update_tim then emit UpdateBeacon s else s)
         else s)"

text \<open>The flag says that the frame is buffered.\<close>

definition xmitframe_enqueue_for_sleeping_sta :: "nat \<Rightarrow> tx_priv \<Rightarrow> bool \<times> tx_priv" where
  "xmitframe_enqueue_for_sleeping_sta x s =
     (let a = frames s x; bmcst = IS_MCAST (xf_ra a) in
      if \<not> check_fwstate (fw_state s) WIFI_AP_STATE then (False, s)
      else case get_sta s (xf_ra a) of
        None \<Rightarrow> (False, s)
      | Some i \<Rightarrow>
          if xf_psta a \<noteq> Some i then (False, s)
          else if \<not> linked (sta s i) then (False, s)
          else if xf_triggered a then
            (False, if bmcst \<and> xmitframe_hiq_filter s x then upd_frame x (\<lambda>a. a\<lparr>xf_qsel := 0x11\<rparr>) s else s)
          else if bmcst then
            (if sta_dz_bitmap (tbl s) \<noteq> 0 then (True, enqueue_group i x s) else (False, s))
          else if asleep (ps s ! i) \<and> dz_has (aid (sta s i)) s then (True, enqueue_unicast i x s)
          else (False, s))"

text \<open>A frame that is buffered leaves the pending queue \<open>(i, q)\<close> it is in; the counters that go down are
  those of the category of its priority.\<close>

fun dequeue_loop :: "nat \<Rightarrow> nat \<Rightarrow> nat list \<Rightarrow> tx_priv \<Rightarrow> tx_priv" where
  "dequeue_loop i q [] s = s"
| "dequeue_loop i q (x # xs) s =
     (let s = upd_frame x (\<lambda>a. a\<lparr>xf_triggered := False\<rparr>) s;
          (ret, s) = xmitframe_enqueue_for_sleeping_sta x s;
          ac = ac_of (xf_priority (frames s x));
          s = (if ret then add_accnt ac (- 1) (add_qcnt i ac (- 1) (set_pending i q (remove1 x (pending s i q)) s)) else s)
      in dequeue_loop i q xs s)"

definition dequeue_xmitframes_to_sleeping_queue :: "nat \<Rightarrow> nat \<Rightarrow> tx_priv \<Rightarrow> tx_priv" where
  "dequeue_xmitframes_to_sleeping_queue i q s = dequeue_loop i q (pending s i q) s"

text \<open>One pending queue of \<open>stop_sta_xmit\<close>.\<close>

definition stop_queue :: "nat \<Rightarrow> nat \<Rightarrow> tx_priv \<Rightarrow> tx_priv" where
  "stop_queue i q s =
     (let s = dequeue_xmitframes_to_sleeping_queue i q s
      in set_sta_queue q (remove1 i (sta_queue s ! q)) s)"

text \<open>\<^term>\<open>None\<close>: the entry for group frames is missing, a null pointer access.\<close>

definition stop_sta_xmit :: "nat \<Rightarrow> tx_priv \<Rightarrow> tx_priv option" where
  "stop_sta_xmit i s =
     (case rtw_get_bcmc_stainfo (tbl s) of None \<Rightarrow> None
      | Some b \<Rightarrow>
         (let s = set_dz (aid (sta s i)) (upd_ps i (\<lambda>p. p\<lparr>asleep := True\<rparr>) s);
              s = stop_queue i 3 (stop_queue i 2 (stop_queue i 1 (stop_queue i 0 s)))
          in Some (stop_queue b 2 s)))"

text \<open>A frame is taken off a sleep queue; \<open>mdata\<close> tells whether more follow.\<close>

definition unlink_sleep_q :: "nat \<Rightarrow> nat \<Rightarrow> tx_priv \<Rightarrow> tx_priv" where
  "unlink_sleep_q i x s =
     upd_ps i (\<lambda>p. p\<lparr>sleepq_len := sleepq_len p - 1\<rparr>)
       (upd_sta i (\<lambda>p. p\<lparr>sleep_q := remove1 x (sleep_q p)\<rparr>) s)"

definition pop_sleep_q :: "nat \<Rightarrow> nat \<Rightarrow> tx_priv \<Rightarrow> tx_priv" where
  "pop_sleep_q i x s =
     (let s = unlink_sleep_q i x s
      in upd_frame x (\<lambda>a. a\<lparr>xf_mdata := (0 < sleepq_len (ps s ! i))\<rparr>) s)"

definition trigger_frame :: "nat \<Rightarrow> tx_priv \<Rightarrow> tx_priv" where
  "trigger_frame x s = hal_xmitframe_enqueue x (upd_frame x (\<lambda>a. a\<lparr>xf_triggered := True\<rparr>) s)"

text \<open>The counter of delivery-enabled frames goes down; the last one ends the service period.\<close>

definition count_ac :: "nat \<Rightarrow> nat \<Rightarrow> tx_priv \<Rightarrow> tx_priv" where
  "count_ac i x s =
     (let s = upd_ps i (\<lambda>p. p\<lparr>sleepq_ac_len := sleepq_ac_len p - 1\<rparr>) s;
          left = (0 < sleepq_ac_len (ps s ! i))
      in upd_frame x (\<lambda>a. a\<lparr>xf_mdata := left, xf_eosp := \<not> left\<rparr>) s)"

definition wm_trigger :: "nat \<Rightarrow> nat \<Rightarrow> tx_priv \<Rightarrow> bool" where
  "wm_trigger i x s \<longleftrightarrow> uapsd_of (ps s ! i) (xf_priority (frames s x)) AND 2 \<noteq> 0"

fun wakeup_loop :: "nat \<Rightarrow> nat list \<Rightarrow> tx_priv \<Rightarrow> tx_priv" where
  "wakeup_loop i [] s = s"
| "wakeup_loop i (x # xs) s =
     (let wmmps_ac = wm_trigger i x s;
          s = pop_sleep_q i x s;
          s = (if wmmps_ac then count_ac i x s else s)
      in wakeup_loop i xs (trigger_frame x s))"

fun group_loop :: "nat \<Rightarrow> bool \<Rightarrow> nat list \<Rightarrow> tx_priv \<Rightarrow> tx_priv" where
  "group_loop b hiq [] s = s"
| "group_loop b hiq (x # xs) s =
     (let s = pop_sleep_q b x s;
          s = upd_frame x (\<lambda>a. a\<lparr>xf_triggered := True\<rparr>) s;
          s = (if hiq \<and> xmitframe_hiq_filter s x then upd_frame x (\<lambda>a. a\<lparr>xf_qsel := 0x11\<rparr>) s else s)
      in group_loop b hiq xs (hal_xmitframe_enqueue x s))"

text \<open>A station whose presence was being checked is present.\<close>

definition is_alive :: "nat \<Rightarrow> tx_priv \<Rightarrow> tx_priv" where
  "is_alive i s =
     (if alive_chk (ps s ! i) then upd_ps i (\<lambda>p. p\<lparr>expire_to := max_expire s, alive_chk := False\<rparr>) s else s)"

text \<open>What \<open>wakeup_sta_to_xmit\<close> does when the sleep queue is empty; the flag is \<open>update_mask\<close>.\<close>

definition leave_sleep :: "nat \<Rightarrow> tx_priv \<Rightarrow> bool \<times> tx_priv" where
  "leave_sleep i s =
     (if sleepq_len (ps s ! i) = 0 then
        (let a = aid (sta s i);
             upd = tim_has a s;
             s = upd_ps i (\<lambda>p. p\<lparr>asleep := False\<rparr>) (clear_tim a s);
             s = is_alive i s
         in (upd, clear_dz a s))
      else (False, s))"

definition wake_group :: "nat \<Rightarrow> tx_priv \<Rightarrow> bool \<times> tx_priv" where
  "wake_group b s =
     (if sta_dz_bitmap (tbl s) AND 0xfffe = 0 then
        (let s = group_loop b False (sleep_q (sta s b)) s
         in if sleepq_len (ps s ! b) = 0 then (tim_has 0 s, clear_dz 0 (clear_tim 0 s)) else (False, s))
      else (False, s))"

definition wakeup_sta_to_xmit :: "nat \<Rightarrow> tx_priv \<Rightarrow> tx_priv" where
  "wakeup_sta_to_xmit i s =
     (let bmc = rtw_get_bcmc_stainfo (tbl s);
          s = wakeup_loop i (sleep_q (sta s i)) s;
          (upd1, s) = leave_sleep i s;
          (upd2, s) = (case bmc of None \<Rightarrow> (False, s) | Some b \<Rightarrow> wake_group b s)
      in if upd1 \<or> upd2 then emit UpdateBeacon s else s)"

fun delivery_loop :: "nat \<Rightarrow> nat list \<Rightarrow> tx_priv \<Rightarrow> tx_priv" where
  "delivery_loop i [] s = s"
| "delivery_loop i (x # xs) s =
     (if \<not> wm_trigger i x s then delivery_loop i xs s
      else (let s = trigger_frame x (count_ac i x (unlink_sleep_q i x s));
                s = (if sleepq_ac_len (ps s ! i) = 0 \<and> \<not> has_legacy_ac (ps s ! i)
                  then emit UpdateBeacon (clear_tim (aid (sta s i)) s) else s)
            in delivery_loop i xs s))"

definition xmit_delivery_enabled_frames :: "nat \<Rightarrow> tx_priv \<Rightarrow> tx_priv" where
  "xmit_delivery_enabled_frames i s = delivery_loop i (sleep_q (sta s i)) s"

section \<open>What drives the buffering\<close>

text \<open>\<open>src\<close> and \<open>priority\<close> are attributes of the received frame, \<open>pwrbit\<close> its power management bit.\<close>

definition process_pwrbit_data :: "bytes \<Rightarrow> bool \<Rightarrow> tx_priv \<Rightarrow> tx_priv option" where
  "process_pwrbit_data src pwrbit s =
     (case get_sta s src of None \<Rightarrow> Some s
      | Some i \<Rightarrow>
          if pwrbit then (if \<not> asleep (ps s ! i) then stop_sta_xmit i s else Some s)
          else Some (if asleep (ps s ! i) then wakeup_sta_to_xmit i s else s))"

definition process_wmmps_data :: "bytes \<Rightarrow> u8 \<Rightarrow> tx_priv \<Rightarrow> tx_priv" where
  "process_wmmps_data src priority s =
     (case get_sta s src of None \<Rightarrow> s
      | Some i \<Rightarrow>
          (let p = ps s ! i in
           if \<not> qos_option p \<or> qos_info p AND 0xf = 0 then s
           else if asleep p \<and> uapsd_of p priority AND 2 \<noteq> 0 then
             (if 0 < sleepq_ac_len p then xmit_delivery_enabled_frames i s else emit (QosNull i priority) s)
           else s))"

text \<open>A PS-Poll frame of station \<open>i\<close> with association id \<open>poll_aid\<close>.\<close>

definition pspoll :: "nat \<Rightarrow> nat \<Rightarrow> u8 \<Rightarrow> tx_priv \<Rightarrow> tx_priv" where
  "pspoll i poll_aid priority s =
     (if aid (sta s i) \<noteq> poll_aid \<or> uapsd_of (ps s ! i) priority AND 1 \<noteq> 0 then s
      else
        (let s = is_alive i s;
             a = aid (sta s i)
         in if \<not> (asleep (ps s ! i) \<and> dz_has a s) then s
            else case sleep_q (sta s i) of
              x # xs \<Rightarrow>
                (let s = trigger_frame x (pop_sleep_q i x s)
                 in if sleepq_len (ps s ! i) = 0 then emit UpdateBeacon (clear_tim a s) else s)
            | [] \<Rightarrow>
                if tim_has a s then
                  (let s = (if sleepq_len (ps s ! i) = 0 then emit (NullData i) s
                       else upd_ps i (\<lambda>p. p\<lparr>sleepq_len := 0\<rparr>) s)
                   in emit UpdateBeacon (clear_tim a s))
                else s))"

definition WIFI_CTRL_TYPE :: u16 where "WIFI_CTRL_TYPE = 0x04"
definition WIFI_PSPOLL :: u16 where "WIFI_PSPOLL = 0xA4"

text \<open>The handler of control frames; \<^term>\<open>None\<close>: a read outside the frame.\<close>

definition validate_recv_ctrl_frame :: "bytes \<Rightarrow> bytes \<Rightarrow> u8 \<Rightarrow> tx_priv \<Rightarrow> tx_priv option" where
  "validate_recv_ctrl_frame myid pframe priority s = do {
     ty \<leftarrow> GetFrameType pframe;
     if ty \<noteq> WIFI_CTRL_TYPE then Some s
     else do {
       a1 \<leftarrow> rdn pframe 4 6;
       if a1 \<noteq> myid then Some s
       else do {
         a2 \<leftarrow> rdn pframe 10 6;
         case get_sta s a2 of None \<Rightarrow> Some s
         | Some i \<Rightarrow> do {
             subtype \<leftarrow> GetFrameSubType pframe;
             if subtype = WIFI_PSPOLL then do {
               v \<leftarrow> RTW_GET_LE16 pframe 2;
               Some (pspoll i (unat (v AND 0x3fff)) priority s) }
             else Some s } } } }"

text \<open>The flush of group frames after a beacon with a DTIM.\<close>

definition chk_bmc_sleepq_hdl :: "tx_priv \<Rightarrow> tx_priv" where
  "chk_bmc_sleepq_hdl s =
     (case rtw_get_bcmc_stainfo (tbl s) of None \<Rightarrow> s
      | Some b \<Rightarrow>
          if tim_has 0 s \<and> 0 < sleepq_len (ps s ! b)
          then emit ChkHiQueue (group_loop b True (sleep_q (sta s b)) s)
          else s)"

text \<open>\<open>is_empty\<close>: the high queue of the chip is empty when the waiting ends.\<close>

definition rtw_chk_hi_queue_hdl :: "bool \<Rightarrow> tx_priv \<Rightarrow> tx_priv" where
  "rtw_chk_hi_queue_hdl is_empty s =
     (case rtw_get_bcmc_stainfo (tbl s) of None \<Rightarrow> s
      | Some b \<Rightarrow>
          if sleepq_len (ps s ! b) \<noteq> 0 then s
          else if is_empty then
            (let update_tim = tim_has 0 s; s = clear_dz 0 (clear_tim 0 s)
             in if update_tim then emit UpdateBeacon s else s)
          else emit ChkHiQueue s)"

text \<open>The end of \<open>rtw_xmit\<close>: a new frame is buffered, or goes to the hardware or a pending queue.\<close>

definition rtw_xmit_frame :: "bool \<Rightarrow> bool \<Rightarrow> nat \<Rightarrow> tx_priv \<Rightarrow> tx_priv" where
  "rtw_xmit_frame xmitbuf_ok direct_ok x s =
     (let (ret, s) = xmitframe_enqueue_for_sleeping_sta x s
      in if ret then s else pre_xmitframe xmitbuf_ok direct_ok x s)"

section \<open>The invariant of the queues\<close>

definition fkey :: "tx_priv \<Rightarrow> nat \<Rightarrow> bytes \<times> nat option \<times> u8" where
  "fkey s x = (xf_ra (frames s x), xf_psta (frames s x), xf_priority (frames s x))"

text \<open>The frame belongs to the linked station \<open>i\<close>.\<close>

definition routed :: "tx_priv \<Rightarrow> nat \<Rightarrow> nat \<Rightarrow> bool" where
  "routed s x i \<longleftrightarrow> get_sta s (xf_ra (frames s x)) = Some i \<and> xf_psta (frames s x) = Some i \<and> linked (sta s i)"

definition held :: "tx_priv \<Rightarrow> nat multiset" where
  "held s = mset (free_xmit_queue s) + mset (in_flight s)
     + (\<Sum>i<nsta s. mset (sleep_q (sta s i)) + mset (concat (sta_pending (sta s i))))"

definition all_frames :: "nat multiset" where "all_frames = mset [0..<NR_XMITFRAME]"

definition wf_sta :: "tx_priv \<Rightarrow> nat \<Rightarrow> bool" where
  "wf_sta s i \<longleftrightarrow> length (sta_pending (sta s i)) = 4 \<and> length (qcnt (sta s i)) = 4
     \<and> (\<forall>ac < 4. qcnt (sta s i) ! ac = int (length (pending s i ac)))
     \<and> (\<forall>ac < 4. \<forall>x \<in> set (pending s i ac). routed s x i \<and> ac_of (xf_priority (frames s x)) = ac)
     \<and> (\<forall>x \<in> set (sleep_q (sta s i)). routed s x i)
     \<and> sleepq_len (ps s ! i) = of_nat (length (sleep_q (sta s i)))"

text \<open>Every queue is counted, a station with pending frames is scheduled, and no frame is lost or in two
  lists; \<open>out\<close> counts the frames an operation has in hand, negatively those it has put in a second list.\<close>

definition wf_tx :: "(nat \<Rightarrow> int) \<Rightarrow> tx_priv \<Rightarrow> bool" where
  "wf_tx out s \<longleftrightarrow> length (ps s) = nsta s \<and> length (sta_queue s) = 4
     \<and> (\<forall>a i. get_sta s a = Some i \<longrightarrow> i < nsta s)
     \<and> (\<forall>i < nsta s. wf_sta s i)
     \<and> (\<forall>ac < 4. distinct (sta_queue s ! ac) \<and> set (sta_queue s ! ac) \<subseteq> {..<nsta s})
     \<and> (\<forall>ac < 4. \<forall>i < nsta s. pending s i ac \<noteq> [] \<longrightarrow> i \<in> set (sta_queue s ! ac))
     \<and> (\<forall>x. int (count (held s) x) + out x = int (count all_frames x))"

definition give :: "nat \<Rightarrow> (nat \<Rightarrow> int) \<Rightarrow> nat \<Rightarrow> int" where "give x out = out(x := out x + 1)"

definition have_less :: "nat \<Rightarrow> (nat \<Rightarrow> int) \<Rightarrow> nat \<Rightarrow> int" where "have_less x out = out(x := out x - 1)"

lemma give_less [simp]: "give x (have_less x out) = out" "have_less x (give x out) = out"
  by (simp_all add: give_def have_less_def)

text \<open>What the invariant reads.\<close>

definition view :: "tx_priv \<Rightarrow> (nat \<Rightarrow> sta_info) \<times> (nat \<times> (bytes \<Rightarrow> nat option) \<times> nat option \<times> (nat \<Rightarrow> nat \<times> bool))
    \<times> (nat \<times> (nat \<Rightarrow> u32) \<times> (nat \<Rightarrow> bytes \<times> nat option \<times> u8) \<times> nat list list \<times> nat list \<times> nat list)" where
  "view s = (sta s, table s, length (ps s), (\<lambda>i. sleepq_len (ps s ! i)), fkey s, sta_queue s, free_xmit_queue s, in_flight s)"

lemma view_obs:
  assumes "view s' = view s"
  shows "sta s' = sta s" "table s' = table s" "length (ps s') = length (ps s)"
    "sleepq_len (ps s' ! i) = sleepq_len (ps s ! i)" "fkey s' = fkey s" "sta_queue s' = sta_queue s"
    "free_xmit_queue s' = free_xmit_queue s" "in_flight s' = in_flight s"
proof -
  have "(\<lambda>i. sleepq_len (ps s' ! i)) = (\<lambda>i. sleepq_len (ps s ! i))" using assms by (simp add: view_def)
  then show "sleepq_len (ps s' ! i) = sleepq_len (ps s ! i)" by (rule fun_cong)
qed (use assms in \<open>simp_all add: view_def\<close>)

lemma fkey_obs:
  assumes "fkey s' x = fkey s x"
  shows "xf_ra (frames s' x) = xf_ra (frames s x)" "xf_psta (frames s' x) = xf_psta (frames s x)"
    "xf_priority (frames s' x) = xf_priority (frames s x)"
  using assms by (auto simp: fkey_def)

lemma routed_cong: "table s' = table s \<Longrightarrow> fkey s' x = fkey s x \<Longrightarrow> routed s' x i = routed s x i"
  by (simp add: routed_def fkey_obs [of s' x s] table_obs [of s' s])

lemma wf_sta_cong:
  assumes "sta s' i = sta s i" "table s' = table s" "sleepq_len (ps s' ! i) = sleepq_len (ps s ! i)" "fkey s' = fkey s"
  shows "wf_sta s' i = wf_sta s i"
proof -
  have "fkey s' x = fkey s x" for x using assms(4) by simp
  note k = fkey_obs [OF this] routed_cong [OF assms(2) this]
  show ?thesis using assms(1,3) by (simp add: wf_sta_def k pending_def)
qed

lemma wf_tx_cong:
  assumes "view s' = view s" shows "wf_tx out s' = wf_tx out s"
proof -
  note v = view_obs [OF assms] table_obs [OF view_obs(2) [OF assms]]
  have "wf_sta s' i = wf_sta s i" for i using v by (intro wf_sta_cong) auto
  then show ?thesis by (simp add: wf_tx_def held_def pending_def v)
qed

lemma fkey_upd_frame:
  "(\<And>a. xf_ra (h a) = xf_ra a \<and> xf_psta (h a) = xf_psta a \<and> xf_priority (h a) = xf_priority a) \<Longrightarrow>
   fkey (upd_frame x h s) = fkey s"
  by (auto simp: fkey_def fun_eq_iff)

lemma fkey_simps [simp]:
  "fkey (upd_ps i g s) = fkey s" "fkey (emit e s) = fkey s" "fkey (set_tim a s) = fkey s" "fkey (clear_tim a s) = fkey s"
  "fkey (set_dz a s) = fkey s" "fkey (clear_dz a s) = fkey s" "fkey (add_accnt ac d s) = fkey s"
  "fkey (set_sta_queue ac q s) = fkey s" "fkey (rtw_free_xmitframe x s) = fkey s" "fkey (upd_sta i f s) = fkey s"
  by (simp_all add: fkey_def fun_eq_iff)

lemma view_upd_frame [simp]:
  "(\<And>a. xf_ra (h a) = xf_ra a \<and> xf_psta (h a) = xf_psta a \<and> xf_priority (h a) = xf_priority a) \<Longrightarrow>
   view (upd_frame x h s) = view s"
  by (simp add: view_def fkey_upd_frame)

lemma view_upd_ps [simp]: "(\<And>p. sleepq_len (g p) = sleepq_len p) \<Longrightarrow> view (upd_ps i g s) = view s"
  by (auto simp: view_def fun_eq_iff ps_upd_ps)

lemma view_simps [simp]:
  "view (emit e s) = view s" "view (set_tim a s) = view s" "view (clear_tim a s) = view s"
  "view (set_dz a s) = view s" "view (clear_dz a s) = view s" "view (add_accnt ac d s) = view s"
  by (simp_all add: view_def)

section \<open>Moving frames\<close>

lemma sum_upd:
  fixes f :: "nat \<Rightarrow> nat multiset"
  assumes "i < n" "g i + a = f i + b" "\<And>j. j \<noteq> i \<Longrightarrow> g j = f j"
  shows "(\<Sum>j<n. g j) + a = (\<Sum>j<n. f j) + b"
proof -
  have "(\<Sum>j<n. h j) = h i + (\<Sum>j\<in>{..<n} - {i}. h j)" for h :: "nat \<Rightarrow> nat multiset"
    using assms(1) by (subst sum.remove [of _ i]) auto
  moreover have "(\<Sum>j\<in>{..<n} - {i}. g j) = (\<Sum>j\<in>{..<n} - {i}. f j)" using assms(3) by (intro sum.cong) auto
  ultimately show ?thesis using assms(2) by (metis add.assoc add.commute)
qed

lemma wf_step:
  assumes "wf_tx out s" "table s' = table s" "fkey s' = fkey s" "length (ps s') = length (ps s)"
    "\<And>j. j \<noteq> i \<Longrightarrow> sta s' j = sta s j \<and> sleepq_len (ps s' ! j) = sleepq_len (ps s ! j)"
    "wf_sta s' i" "length (sta_queue s') = 4"
    "\<And>ac. ac < 4 \<Longrightarrow> distinct (sta_queue s' ! ac) \<and> set (sta_queue s' ! ac) \<subseteq> {..<nsta s}"
    "\<And>ac j. ac < 4 \<Longrightarrow> j < nsta s \<Longrightarrow> pending s' j ac \<noteq> [] \<Longrightarrow> j \<in> set (sta_queue s' ! ac)"
    "\<And>x. int (count (held s') x) + out' x = int (count (held s) x) + out x"
  shows "wf_tx out' s'"
proof -
  note t = table_obs [OF assms(2)]
  have "wf_sta s' j" if "j < nsta s" for j
    using wf_sta_cong [OF _ assms(2) _ assms(3), of j] assms(1,5,6) that by (cases "j = i") (auto simp: wf_tx_def)
  then show ?thesis using assms(1,4,7-10) by (simp add: wf_tx_def t)
qed

lemma held_upd:
  assumes "i < nsta s" "table s' = table s" "\<And>j. j \<noteq> i \<Longrightarrow> sta s' j = sta s j"
    "mset (sleep_q (sta s' i)) + mset (concat (sta_pending (sta s' i))) + a
      = mset (sleep_q (sta s i)) + mset (concat (sta_pending (sta s i))) + b"
    "mset (free_xmit_queue s') + mset (in_flight s') + c = mset (free_xmit_queue s) + mset (in_flight s) + d"
  shows "held s' + (a + c) = held s + (b + d)"
proof -
  let ?g = "\<lambda>s i. mset (sleep_q (sta s i)) + mset (concat (sta_pending (sta s i)))"
  have "sum (?g s') {..<nsta s} + a = sum (?g s) {..<nsta s} + b"
    using assms(1,3,4) by (intro sum_upd) auto
  then show ?thesis using assms(5) unfolding held_def table_obs(1) [OF assms(2)]
    by (metis (no_types, lifting) add.assoc add.commute)
qed

lemma wf_tx_push:
  assumes "wf_tx out s" "routed s x i"
  shows "wf_tx (have_less x out) (push_sleep_q i x s)"
proof (rule wf_step [OF assms(1), where i = i])
  have i: "i < nsta s" using assms by (auto simp: wf_tx_def routed_def)
  let ?s = "push_sleep_q i x s"
  show t: "table ?s = table s" and k: "fkey ?s = fkey s" by (simp_all add: push_sleep_q_def table_upd_sta)
  have "fkey ?s y = fkey s y" for y using k by simp
  note k = fkey_obs [OF this] routed_cong [OF t this]
  show "wf_sta ?s i" using assms i unfolding wf_sta_def k
    by (auto simp: push_sleep_q_def sta_upd_sta ps_upd_ps pending_def wf_tx_def wf_sta_def)
  have "held ?s + ({#} + {#}) = held s + ({#x#} + {#})"
    using i by (intro held_upd [OF _ t, where i = i]) (auto simp: push_sleep_q_def sta_upd_sta)
  then show "int (count (held ?s) y) + have_less x out y = int (count (held s) y) + out y" for y
    by (simp add: have_less_def)
qed (use assms in \<open>auto simp: push_sleep_q_def sta_upd_sta ps_upd_ps wf_tx_def pending_def split: if_splits\<close>)

lemma wf_unlink:
  assumes "wf_tx out s" "i < nsta s" "x \<in> set (sleep_q (sta s i))"
  shows "wf_tx (give x out) (unlink_sleep_q i x s)"
proof (rule wf_step [OF assms(1), where i = i])
  let ?s = "unlink_sleep_q i x s"
  show t: "table ?s = table s" and k: "fkey ?s = fkey s" by (simp_all add: unlink_sleep_q_def table_upd_sta)
  have "fkey ?s y = fkey s y" for y using k by simp
  note k = fkey_obs [OF this] routed_cong [OF t this]
  have "of_nat (length (sleep_q (sta s i))) - 1 = (of_nat (length (sleep_q (sta s i)) - 1) :: u32)"
    using assms(3) by (cases "sleep_q (sta s i)") auto
  then show "wf_sta ?s i" using assms set_remove1_subset [of x "sleep_q (sta s i)"] unfolding wf_sta_def k
    by (auto simp: unlink_sleep_q_def sta_upd_sta ps_upd_ps pending_def wf_tx_def wf_sta_def length_remove1)
  have "held ?s + ({#x#} + {#}) = held s + ({#} + {#})"
    using assms by (intro held_upd [OF _ t, where i = i]) (auto simp: unlink_sleep_q_def sta_upd_sta)
  then have h: "held s = add_mset x (held ?s)" by simp
  show "int (count (held ?s) y) + give x out y = int (count (held s) y) + out y" for y
    unfolding h by (simp add: give_def)
qed (use assms in \<open>auto simp: unlink_sleep_q_def sta_upd_sta ps_upd_ps wf_tx_def pending_def split: if_splits\<close>)

lemma mset_concat_update:
  "ac < length xs \<Longrightarrow> mset (concat (xs[ac := q])) + mset (xs ! ac) = mset (concat xs) + mset q"
proof (induction xs arbitrary: ac)
  case (Cons a xs)
  then show ?case by (cases ac) (auto simp: add.assoc add.commute add.left_commute)
qed simp

lemma held_free: "held (rtw_free_xmitframe x s) = add_mset x (held s)"
  by (simp add: held_def)

lemma wf_free: "wf_tx out s \<Longrightarrow> wf_tx (have_less x out) (rtw_free_xmitframe x s)"
  by (auto simp: have_less_def wf_tx_def held_free pending_def wf_sta_cong [of "rtw_free_xmitframe x s" _ s])

definition to_flight :: "nat \<Rightarrow> tx_priv \<Rightarrow> tx_priv" where
  "to_flight x s = s\<lparr>in_flight := in_flight s @ [x]\<rparr>"

lemma to_flight_simps [simp]:
  "sta (to_flight x s) = sta s" "table (to_flight x s) = table s" "ps (to_flight x s) = ps s" "fkey (to_flight x s) = fkey s"
  "sta_queue (to_flight x s) = sta_queue s" "frames (to_flight x s) = frames s"
  "free_xmit_queue (to_flight x s) = free_xmit_queue s" "in_flight (to_flight x s) = in_flight s @ [x]"
  "tim_has a (to_flight x s) = tim_has a s" "dz_has a (to_flight x s) = dz_has a s" "fw_state (to_flight x s) = fw_state s"
  by (simp_all add: to_flight_def fun_eq_iff sta_def table_def nsta_def get_sta_def fkey_def tim_has_def dz_has_def)

lemma held_flight: "held (to_flight x s) = add_mset x (held s)"
  using table_obs [of "to_flight x s" s] by (simp add: held_def)

lemma wf_flight: "wf_tx out s \<Longrightarrow> wf_tx (have_less x out) (to_flight x s)"
  using table_obs [of "to_flight x s" s]
  by (auto simp: have_less_def wf_tx_def held_flight pending_def wf_sta_cong [of "to_flight x s" _ s])

text \<open>A frame enters a pending queue, or leaves it.\<close>

lemma pending_set:
  "pending (set_pending i ac q s) j c =
     (if j = i \<and> c = ac \<and> i < nsta s \<and> ac < length (sta_pending (sta s i)) then q else pending s j c)"
  by (auto simp: pending_def set_pending_def sta_upd_sta nth_list_update list_update_beyond)

lemma pending_simps [simp]:
  "pending (add_qcnt i ac d s) = pending s" "pending (add_accnt ac d s) = pending s"
  "pending (set_sta_queue ac q s) = pending s"
  by (auto simp: fun_eq_iff pending_def add_qcnt_def sta_upd_sta)

definition relink :: "nat \<Rightarrow> nat \<Rightarrow> nat list \<Rightarrow> int \<Rightarrow> tx_priv \<Rightarrow> tx_priv" where
  "relink i ac q d s = add_accnt ac d (add_qcnt i ac d (set_pending i ac q s))"

lemma relink_simps [simp]:
  "ps (relink i ac q d s) = ps s" "frames (relink i ac q d s) = frames s" "sta_queue (relink i ac q d s) = sta_queue s"
  "free_xmit_queue (relink i ac q d s) = free_xmit_queue s" "in_flight (relink i ac q d s) = in_flight s"
  "table (relink i ac q d s) = table s" "fkey (relink i ac q d s) = fkey s" "fw_state (relink i ac q d s) = fw_state s"
  "tim_has a (relink i ac q d s) = tim_has a s" "dz_has a (relink i ac q d s) = dz_has a s"
  "sta_dz_bitmap (tbl (relink i ac q d s)) = sta_dz_bitmap (tbl s)"
  by (simp_all add: relink_def add_qcnt_def set_pending_def table_upd_sta)

lemma sta_relink:
  "sta (relink i ac q d s) j = (if j = i \<and> i < nsta s
     then (sta s i)\<lparr>sta_pending := (sta_pending (sta s i))[ac := q], qcnt := (qcnt (sta s i))[ac := qcnt (sta s i) ! ac + d]\<rparr>
     else sta s j)"
  by (simp add: relink_def add_qcnt_def set_pending_def sta_upd_sta)

lemma sleep_q_relink [simp]: "sleep_q (sta (relink i ac q d s) j) = sleep_q (sta s j)"
  by (simp add: sta_relink)

lemma pending_relink:
  "pending (relink i ac q d s) j c =
     (if j = i \<and> c = ac \<and> i < nsta s \<and> ac < length (sta_pending (sta s i)) then q else pending s j c)"
  by (simp add: relink_def pending_set)

lemma wf_relink:
  assumes "wf_tx out s" "i < nsta s" "ac < 4" "int (length q) = int (length (pending s i ac)) + d"
    "\<And>x. x \<in> set q \<Longrightarrow> routed s x i \<and> ac_of (xf_priority (frames s x)) = ac"
    "q \<noteq> [] \<Longrightarrow> i \<in> set (sta_queue s ! ac)"
    "\<And>x. int (count (mset q) x) + out' x = int (count (mset (pending s i ac)) x) + out x"
  shows "wf_tx out' (relink i ac q d s)"
proof (rule wf_step [OF assms(1), where i = i])
  let ?s = "relink i ac q d s"
  show t: "table ?s = table s" and k: "fkey ?s = fkey s" by simp_all
  have "fkey ?s y = fkey s y" for y using k by simp
  note k = fkey_obs [OF this] routed_cong [OF t this]
  have wi: "wf_sta s i" using assms by (simp add: wf_tx_def)
  show "wf_sta ?s i" unfolding wf_sta_def k pending_relink using wi assms(2-5)
    by (auto simp: sta_relink wf_sta_def nth_list_update)
  have 4: "length (sta_pending (sta s i)) = 4" using wi by (simp add: wf_sta_def)
  have "held ?s + (mset (pending s i ac) + {#}) = held s + (mset q + {#})"
    using assms(2,3) 4 mset_concat_update [of ac "sta_pending (sta s i)" q]
    by (intro held_upd [OF _ t, where i = i]) (auto simp: sta_relink pending_def add.assoc)
  then have h: "held ?s + mset (pending s i ac) = held s + mset q" by simp
  show "int (count (held ?s) x) + out' x = int (count (held s) x) + out x" for x
    using arg_cong [where f = "\<lambda>m. int (count m x)", OF h] assms(7) [of x] by simp
  show "j \<in> set (sta_queue ?s ! c)" if "c < 4" "j < nsta s" "pending ?s j c \<noteq> []" for c j
    using that assms(1,6) by (auto simp: pending_relink wf_tx_def split: if_splits)
qed (use assms(1) in \<open>auto simp: sta_relink wf_tx_def\<close>)

lemma wf_schedule:
  assumes "wf_tx out s" "i < nsta s" "ac < 4" "i \<notin> set (sta_queue s ! ac)"
  shows "wf_tx out (set_sta_queue ac (sta_queue s ! ac @ [i]) s)"
  using assms by (auto simp: wf_tx_def held_def nth_list_update wf_sta_cong [of "set_sta_queue ac (sta_queue s ! ac @ [i]) s" _ s])

lemma wf_unschedule:
  assumes "wf_tx out s" "pending s i ac = []" "ac < 4"
  shows "wf_tx out (set_sta_queue ac (remove1 i (sta_queue s ! ac)) s)"
proof -
  have "set (remove1 i (sta_queue s ! c)) = set (sta_queue s ! c) - {i}" if "c < 4" for c
    using assms that by (simp add: wf_tx_def set_remove1_eq)
  then show ?thesis using assms
    by (auto simp: wf_tx_def held_def nth_list_update wf_sta_cong [of "set_sta_queue ac (remove1 i (sta_queue s ! ac)) s" _ s])
qed

section \<open>Operations keep the invariant\<close>

lemma ac_of_less [simp]: "ac_of up < 4" by (simp add: ac_of_def)

definition sched :: "nat \<Rightarrow> nat \<Rightarrow> tx_priv \<Rightarrow> tx_priv" where
  "sched i ac s = (if i \<in> set (sta_queue s ! ac) then s else set_sta_queue ac (sta_queue s ! ac @ [i]) s)"

lemma sched_simps [simp]:
  "sta (sched i ac s) = sta s" "table (sched i ac s) = table s" "ps (sched i ac s) = ps s" "fkey (sched i ac s) = fkey s"
  "frames (sched i ac s) = frames s" "fw_state (sched i ac s) = fw_state s" "pending (sched i ac s) = pending s"
  "tim_has a (sched i ac s) = tim_has a s" "dz_has a (sched i ac s) = dz_has a s" "nsta (sched i ac s) = nsta s"
  "sta_dz_bitmap (tbl (sched i ac s)) = sta_dz_bitmap (tbl s)"
  "free_xmit_queue (sched i ac s) = free_xmit_queue s" "in_flight (sched i ac s) = in_flight s"
  by (simp_all add: sched_def)

lemma routed_unique: "routed s x i \<Longrightarrow> routed s x j \<Longrightarrow> i = j" by (simp add: routed_def)

lemma classifier_routed:
  assumes "routed s x i"
  shows "rtw_xmit_classifier x s = (True,
    relink i (ac_of (xf_priority (frames s x))) (pending s i (ac_of (xf_priority (frames s x))) @ [x]) 1
      (sched i (ac_of (xf_priority (frames s x))) s))"
  using assms by (auto simp: rtw_xmit_classifier_def routed_def relink_def sched_def Let_def)

lemma classifier_unrouted: "(\<And>i. \<not> routed s x i) \<Longrightarrow> rtw_xmit_classifier x s = (False, s)"
  by (auto simp: rtw_xmit_classifier_def routed_def Let_def split: option.split)

lemma wf_pendingD:
  assumes "wf_tx out s" "i < nsta s" "ac < 4" "x \<in> set (pending s i ac)"
  shows "routed s x i" "ac_of (xf_priority (frames s x)) = ac"
  using assms by (simp_all add: wf_tx_def wf_sta_def)

lemma wf_routedD: "wf_tx out s \<Longrightarrow> routed s x i \<Longrightarrow> i < nsta s"
  by (auto simp: wf_tx_def routed_def)

lemma hal_cases:
  obtains (free) "\<And>i. \<not> routed s x i" "hal_xmitframe_enqueue x s = rtw_free_xmitframe x s"
  | (link) i where "routed s x i" "hal_xmitframe_enqueue x s
      = relink i (ac_of (xf_priority (frames s x))) (pending s i (ac_of (xf_priority (frames s x))) @ [x]) 1
          (sched i (ac_of (xf_priority (frames s x))) s)"
  using classifier_routed [of s x] classifier_unrouted [of s x]
  by (cases "\<exists>i. routed s x i") (auto simp: hal_xmitframe_enqueue_def)

lemma hal_keeps [simp]:
  "table (hal_xmitframe_enqueue x s) = table s" "ps (hal_xmitframe_enqueue x s) = ps s"
  "frames (hal_xmitframe_enqueue x s) = frames s" "fkey (hal_xmitframe_enqueue x s) = fkey s"
  "fw_state (hal_xmitframe_enqueue x s) = fw_state s" "in_flight (hal_xmitframe_enqueue x s) = in_flight s"
  "tim_has a (hal_xmitframe_enqueue x s) = tim_has a s" "dz_has a (hal_xmitframe_enqueue x s) = dz_has a s"
  "sleep_q (sta (hal_xmitframe_enqueue x s) j) = sleep_q (sta s j)"
  "sta_dz_bitmap (tbl (hal_xmitframe_enqueue x s)) = sta_dz_bitmap (tbl s)"
  by (rule hal_cases [of s x]; simp)+

lemma wf_hal:
  assumes "wf_tx out s" shows "wf_tx (have_less x out) (hal_xmitframe_enqueue x s)"
proof (rule hal_cases [of s x])
  fix i
  let ?ac = "ac_of (xf_priority (frames s x))"
  assume r: "routed s x i" and e: "hal_xmitframe_enqueue x s = relink i ?ac (pending s i ?ac @ [x]) 1 (sched i ?ac s)"
  have i: "i < nsta s" by (rule wf_routedD [OF assms r])
  have w: "wf_tx out (sched i ?ac s)" using assms i wf_schedule [of out s i ?ac] by (simp add: sched_def)
  have m: "i \<in> set (sta_queue (sched i ?ac s) ! ?ac)"
    using assms by (auto simp: sched_def wf_tx_def)
  have rs: "routed (sched i ?ac s) y j = routed s y j" for y j by (rule routed_cong) simp_all
  have p: "routed (sched i ?ac s) y i \<and> ac_of (xf_priority (frames s y)) = ?ac" if "y \<in> set (pending s i ?ac @ [x])" for y
  proof (cases "y = x")
    case False
    then have "y \<in> set (pending s i ?ac)" using that by simp
    then show ?thesis using wf_pendingD [OF assms i ac_of_less] by (simp add: rs)
  qed (simp add: rs r)
  show ?thesis unfolding e
  proof (rule wf_relink [OF w])
    show "routed (sched i ?ac s) y i \<and> ac_of (xf_priority (frames (sched i ?ac s) y)) = ?ac"
      if "y \<in> set (pending s i ?ac @ [x])" for y
      using p [OF that] by simp
  qed (use i m in \<open>simp_all add: have_less_def\<close>)
qed (use assms wf_free in simp)

lemma keeps_enqueue_parts [simp]:
  "table (push_sleep_q i x s) = table s" "frames (push_sleep_q i x s) = frames s" "fw_state (push_sleep_q i x s) = fw_state s"
  "pending (push_sleep_q i x s) = pending s" "sta_queue (push_sleep_q i x s) = sta_queue s"
  "dz_has a (push_sleep_q i x s) = dz_has a s" "tim_has a (push_sleep_q i x s) = tim_has a s"
  "sta_dz_bitmap (tbl (push_sleep_q i x s)) = sta_dz_bitmap (tbl s)" "in_flight (push_sleep_q i x s) = in_flight s"
  "free_xmit_queue (push_sleep_q i x s) = free_xmit_queue s"
  by (simp_all add: push_sleep_q_def table_upd_sta fun_eq_iff pending_def sta_upd_sta)

lemma view_unicast: "view (enqueue_unicast i x s) = view (push_sleep_q i x s)"
  by (simp add: enqueue_unicast_def Let_def)

lemma view_group: "view (enqueue_group i x s) = view (push_sleep_q i x s)"
  by (simp add: enqueue_group_def Let_def)

lemma enqueue_routed:
  assumes "routed s x i" "check_fwstate (fw_state s) WIFI_AP_STATE"
  shows "xmitframe_enqueue_for_sleeping_sta x s =
    (if xf_triggered (frames s x) then
       (False, if IS_MCAST (xf_ra (frames s x)) \<and> xmitframe_hiq_filter s x then upd_frame x (\<lambda>a. a\<lparr>xf_qsel := 0x11\<rparr>) s else s)
     else if IS_MCAST (xf_ra (frames s x)) then
       (if sta_dz_bitmap (tbl s) \<noteq> 0 then (True, enqueue_group i x s) else (False, s))
     else if asleep (ps s ! i) \<and> dz_has (aid (sta s i)) s then (True, enqueue_unicast i x s) else (False, s))"
  using assms by (simp add: xmitframe_enqueue_for_sleeping_sta_def routed_def Let_def)

lemma enqueue_unrouted:
  assumes "\<not> check_fwstate (fw_state s) WIFI_AP_STATE \<or> (\<forall>i. \<not> routed s x i)"
  shows "xmitframe_enqueue_for_sleeping_sta x s = (False, s)"
  using assms by (auto simp: xmitframe_enqueue_for_sleeping_sta_def routed_def Let_def split: option.split)

lemma enqueue_cases:
  assumes "xmitframe_enqueue_for_sleeping_sta x s = (ret, s')"
  obtains (group) i where "ret" "routed s x i" "s' = enqueue_group i x s" "IS_MCAST (xf_ra (frames s x))"
      "\<not> xf_triggered (frames s x)" "sta_dz_bitmap (tbl s) \<noteq> 0"
  | (unicast) i where "ret" "routed s x i" "s' = enqueue_unicast i x s" "\<not> IS_MCAST (xf_ra (frames s x))"
      "\<not> xf_triggered (frames s x)" "asleep (ps s ! i)" "dz_has (aid (sta s i)) s"
  | (no) "\<not> ret" "s' = s"
  | (hiq) "\<not> ret" "xf_triggered (frames s x)" "s' = upd_frame x (\<lambda>a. a\<lparr>xf_qsel := 0x11\<rparr>) s"
proof (cases "check_fwstate (fw_state s) WIFI_AP_STATE \<and> (\<exists>i. routed s x i)")
  case True
  then obtain i where r: "routed s x i" and f: "check_fwstate (fw_state s) WIFI_AP_STATE" by blast
  note e = assms [unfolded enqueue_routed [OF r f]]
  show ?thesis
  proof (cases "xf_triggered (frames s x)")
    case True then show ?thesis using e no hiq by (simp split: if_splits)
  next
    case False then show ?thesis using e group [OF _ r] unicast [OF _ r] no by (simp split: if_splits)
  qed
next
  case False
  then show ?thesis using assms no enqueue_unrouted [of s x] by auto
qed

lemma enqueue_success:
  assumes "check_fwstate (fw_state s) WIFI_AP_STATE" "routed s x i" "\<not> xf_triggered (frames s x)"
    "sta_dz_bitmap (tbl s) \<noteq> 0" "IS_MCAST (xf_ra (frames s x)) \<or> asleep (ps s ! i) \<and> dz_has (aid (sta s i)) s"
  shows "fst (xmitframe_enqueue_for_sleeping_sta x s)"
  using assms by (auto simp: xmitframe_enqueue_for_sleeping_sta_def routed_def Let_def)

lemma wf_enqueue:
  assumes "wf_tx out s" "xmitframe_enqueue_for_sleeping_sta x s = (ret, s')"
  shows "wf_tx (if ret then have_less x out else out) s'"
  using assms(2)
proof (cases rule: enqueue_cases)
  case hiq
  then show ?thesis using assms(1) wf_tx_cong [of s' s] by simp
qed (use assms(1) in \<open>simp_all add: wf_tx_cong [OF view_group] wf_tx_cong [OF view_unicast] wf_tx_push\<close>)

lemma unicast_keeps [simp]:
  "table (enqueue_unicast i x s) = table s" "frames (enqueue_unicast i x s) = frames s" "fw_state (enqueue_unicast i x s) = fw_state s"
  "pending (enqueue_unicast i x s) = pending s" "sta_queue (enqueue_unicast i x s) = sta_queue s"
  "dz_has a (enqueue_unicast i x s) = dz_has a s" "asleep (ps (enqueue_unicast i x s) ! j) = asleep (ps s ! j)"
  "in_flight (enqueue_unicast i x s) = in_flight s" "free_xmit_queue (enqueue_unicast i x s) = free_xmit_queue s"
  by (simp_all add: enqueue_unicast_def Let_def ps_upd_ps) (simp_all add: fun_eq_iff push_sleep_q_def pending_def sta_upd_sta ps_upd_ps)

lemma group_keeps [simp]:
  "table (enqueue_group i x s) = table s" "frames (enqueue_group i x s) = frames s" "fw_state (enqueue_group i x s) = fw_state s"
  "pending (enqueue_group i x s) = pending s" "sta_queue (enqueue_group i x s) = sta_queue s"
  "dz_has a s \<Longrightarrow> dz_has a (enqueue_group i x s)" "asleep (ps (enqueue_group i x s) ! j) = asleep (ps s ! j)"
  "in_flight (enqueue_group i x s) = in_flight s" "free_xmit_queue (enqueue_group i x s) = free_xmit_queue s"
  by (simp_all add: enqueue_group_def Let_def ps_upd_ps) (simp_all add: fun_eq_iff push_sleep_q_def pending_def sta_upd_sta ps_upd_ps)

lemma pending_upd_frame [simp]: "pending (upd_frame x h s) = pending s" by (simp add: pending_def fun_eq_iff)

lemma fkey_flags [simp]:
  "fkey (upd_frame x (\<lambda>a. a\<lparr>xf_qsel := v\<rparr>) s) = fkey s" "fkey (upd_frame x (\<lambda>a. a\<lparr>xf_triggered := b\<rparr>) s) = fkey s"
  "fkey (upd_frame x (\<lambda>a. a\<lparr>xf_mdata := b\<rparr>) s) = fkey s" "fkey (upd_frame x (\<lambda>a. a\<lparr>xf_mdata := b, xf_eosp := c\<rparr>) s) = fkey s"
  by (simp_all add: fkey_upd_frame)

lemma fkey_buffer [simp]: "fkey (enqueue_unicast i x s) = fkey s" "fkey (enqueue_group i x s) = fkey s"
  by (simp_all add: fkey_def fun_eq_iff)

lemma enqueue_keeps:
  assumes "xmitframe_enqueue_for_sleeping_sta x s = (ret, s')"
  shows "table s' = table s" "fkey s' = fkey s" "fw_state s' = fw_state s" "pending s' = pending s"
    "sta_queue s' = sta_queue s" "asleep (ps s' ! j) = asleep (ps s ! j)"
    "dz_has a s \<Longrightarrow> dz_has a s'" "xf_triggered (frames s' y) = xf_triggered (frames s y)"
    "in_flight s' = in_flight s" "free_xmit_queue s' = free_xmit_queue s"
  using assms by (cases rule: enqueue_cases; simp)+

text \<open>Moving the pending frames of a queue to the sleep queue.\<close>

definition loop_step :: "nat \<Rightarrow> nat \<Rightarrow> nat \<Rightarrow> tx_priv \<Rightarrow> tx_priv" where
  "loop_step i q x s = dequeue_loop i q [x] s"

lemma dequeue_loop_step: "dequeue_loop i q (x # xs) s = dequeue_loop i q xs (loop_step i q x s)"
  by (simp add: loop_step_def case_prod_beta Let_def)

lemma loop_step_cases:
  assumes "wf_tx out s" "i < nsta s" "q < 4" "x \<in> set (pending s i q)"
  obtains ret s1 where "xmitframe_enqueue_for_sleeping_sta x (upd_frame x (\<lambda>a. a\<lparr>xf_triggered := False\<rparr>) s) = (ret, s1)"
    "loop_step i q x s = (if ret then relink i q (remove1 x (pending s i q)) (- 1) s1 else s1)"
proof -
  let ?t = "upd_frame x (\<lambda>a. a\<lparr>xf_triggered := False\<rparr>) s"
  obtain ret s1 where e: "xmitframe_enqueue_for_sleeping_sta x ?t = (ret, s1)" by fastforce
  note k = enqueue_keeps [OF e]
  have "xf_priority (frames s1 x) = xf_priority (frames s x)"
    using fkey_obs(3) [of s1 x s] k(2) by simp
  then have "ac_of (xf_priority (frames s1 x)) = q" using wf_pendingD [OF assms] by simp
  then have "loop_step i q x s = (if ret then relink i q (remove1 x (pending s i q)) (- 1) s1 else s1)"
    using e k(4) by (simp add: loop_step_def relink_def Let_def)
  then show thesis by (rule that [OF e])
qed

lemma loop_step_keeps:
  assumes "wf_tx out s" "i < nsta s" "q < 4" "x \<in> set (pending s i q)"
  shows "wf_tx out (loop_step i q x s)" "table (loop_step i q x s) = table s" "fkey (loop_step i q x s) = fkey s"
    "fw_state (loop_step i q x s) = fw_state s" "sta_queue (loop_step i q x s) = sta_queue s"
    "asleep (ps (loop_step i q x s) ! j) = asleep (ps s ! j)" "dz_has a s \<Longrightarrow> dz_has a (loop_step i q x s)"
    "j \<noteq> i \<or> c \<noteq> q \<Longrightarrow> pending (loop_step i q x s) j c = pending s j c"
    "\<And>xs. mset (x # xs) \<subseteq># mset (pending s i q) \<Longrightarrow> mset xs \<subseteq># mset (pending (loop_step i q x s) i q)"
    "\<And>xs. check_fwstate (fw_state s) WIFI_AP_STATE \<Longrightarrow> sta_dz_bitmap (tbl s) \<noteq> 0 \<Longrightarrow>
      IS_MCAST (xf_ra (frames s x)) \<or> asleep (ps s ! i) \<and> dz_has (aid (sta s i)) s \<Longrightarrow>
      mset (x # xs) = mset (pending s i q) \<Longrightarrow> mset xs = mset (pending (loop_step i q x s) i q)"
proof -
  let ?t = "upd_frame x (\<lambda>a. a\<lparr>xf_triggered := False\<rparr>) s"
  obtain ret s1 where e: "xmitframe_enqueue_for_sleeping_sta x ?t = (ret, s1)"
    and l: "loop_step i q x s = (if ret then relink i q (remove1 x (pending s i q)) (- 1) s1 else s1)"
    using loop_step_cases [OF assms] .
  note k = enqueue_keeps [OF e, simplified]
  have r: "routed s x i" by (rule wf_pendingD [OF assms])
  have rt: "routed ?t y j = routed s y j" for y j by (rule routed_cong) simp_all
  have w: "wf_tx (if ret then have_less x out else out) s1"
    by (rule wf_enqueue [OF _ e]) (use assms(1) wf_tx_cong [of ?t s] in simp)
  have 4: "length (sta_pending (sta s1 i)) = 4"
    using w table_obs(1) [OF k(1)] assms(2) by (simp add: wf_tx_def wf_sta_def)
  have i1: "i < nsta s1" using table_obs(1) [OF k(1)] assms(2) by simp
  have rs: "routed s1 y j = routed s y j" for y j by (rule routed_cong) (simp_all add: k)
  have pr: "xf_priority (frames s1 y) = xf_priority (frames s y)" for y using fkey_obs(3) [of s1 y s] k(2) by simp
  show "wf_tx out (loop_step i q x s)"
  proof (cases ret)
    case True
    have "wf_tx out (relink i q (remove1 x (pending s i q)) (- 1) s1)"
    proof (rule wf_relink [OF w [unfolded if_P [OF True]] i1 assms(3)])
      show "int (length (remove1 x (pending s i q))) = int (length (pending s1 i q)) + - 1"
        using assms(4) by (cases "length (pending s i q)") (auto simp: k length_remove1)
      show "routed s1 y i \<and> ac_of (xf_priority (frames s1 y)) = q" if "y \<in> set (remove1 x (pending s i q))" for y
        using wf_pendingD [OF assms(1-3)] that set_remove1_subset [of x] by (auto simp: rs pr)
      show "i \<in> set (sta_queue s1 ! q)" if "remove1 x (pending s i q) \<noteq> []"
        using assms that by (cases "pending s i q = []") (simp_all add: k wf_tx_def)
      show "int (count (mset (remove1 x (pending s i q))) y) + out y
        = int (count (mset (pending s1 i q)) y) + have_less x out y" for y
        using assms(4) count_greater_zero_iff [of "mset (pending s i q)" x] by (auto simp: k have_less_def)
    qed
    then show ?thesis by (simp add: l True)
  qed (use w l in simp)
  show "table (loop_step i q x s) = table s" "fkey (loop_step i q x s) = fkey s"
    "fw_state (loop_step i q x s) = fw_state s" "sta_queue (loop_step i q x s) = sta_queue s"
    "asleep (ps (loop_step i q x s) ! j) = asleep (ps s ! j)"
    by (simp_all add: l k)
  show "dz_has a s \<Longrightarrow> dz_has a (loop_step i q x s)" by (simp add: l k)
  show "j \<noteq> i \<or> c \<noteq> q \<Longrightarrow> pending (loop_step i q x s) j c = pending s j c"
    by (auto simp: l k pending_relink)
  have p: "pending (loop_step i q x s) i q = (if ret then remove1 x (pending s i q) else pending s i q)"
    using i1 4 assms(3) by (simp add: l pending_relink k)
  show "mset xs \<subseteq># mset (pending (loop_step i q x s) i q)" if "mset (x # xs) \<subseteq># mset (pending s i q)" for xs
    using that unfolding p by (auto simp: insert_subset_eq_iff dest: subset_mset.order_trans [OF _ diff_subset_eq_self])
  show "mset xs = mset (pending (loop_step i q x s) i q)"
    if "check_fwstate (fw_state s) WIFI_AP_STATE" "sta_dz_bitmap (tbl s) \<noteq> 0"
      "IS_MCAST (xf_ra (frames s x)) \<or> asleep (ps s ! i) \<and> dz_has (aid (sta s i)) s"
      "mset (x # xs) = mset (pending s i q)" for xs
  proof -
    have "ret" using enqueue_success [of ?t x i] that e r by (simp add: rt)
    moreover have "mset xs = mset (pending s i q) - {#x#}" unfolding that(4) [symmetric] by simp
    ultimately show ?thesis by (simp add: p)
  qed
qed

lemma wf_dequeue_loop:
  assumes "wf_tx out s" "i < nsta s" "q < 4" "mset xs \<subseteq># mset (pending s i q)"
  shows "wf_tx out (dequeue_loop i q xs s) \<and> table (dequeue_loop i q xs s) = table s
    \<and> fkey (dequeue_loop i q xs s) = fkey s
    \<and> fw_state (dequeue_loop i q xs s) = fw_state s \<and> sta_queue (dequeue_loop i q xs s) = sta_queue s
    \<and> (\<forall>j. asleep (ps (dequeue_loop i q xs s) ! j) = asleep (ps s ! j))
    \<and> (\<forall>a. dz_has a s \<longrightarrow> dz_has a (dequeue_loop i q xs s))
    \<and> (\<forall>j c. j \<noteq> i \<or> c \<noteq> q \<longrightarrow> pending (dequeue_loop i q xs s) j c = pending s j c)"
  using assms
proof (induction xs arbitrary: s)
  case (Cons x xs)
  have x: "x \<in> set (pending s i q)" using mset_subset_eqD [OF Cons.prems(4), of x] by simp
  note l = loop_step_keeps [OF Cons.prems(1-3) x]
  have "i < nsta (loop_step i q x s)" using Cons.prems(2) table_obs(1) [OF l(2)] by simp
  from Cons.IH [OF l(1) this Cons.prems(3) l(9) [OF Cons.prems(4)]] show ?case
    unfolding dequeue_loop_step using l(2-8) by metis
qed simp

text \<open>The frames of station \<open>i\<close> are buffered, all of them.\<close>

definition buffers :: "tx_priv \<Rightarrow> nat \<Rightarrow> bool" where
  "buffers s i \<longleftrightarrow> check_fwstate (fw_state s) WIFI_AP_STATE \<and> (\<exists>a. dz_has a s)
     \<and> (asleep (ps s ! i) \<and> dz_has (aid (sta s i)) s \<or> (\<forall>x. routed s x i \<longrightarrow> IS_MCAST (xf_ra (frames s x))))"

lemma dequeue_loop_empties:
  assumes "wf_tx out s" "i < nsta s" "q < 4" "mset xs = mset (pending s i q)" "buffers s i"
  shows "pending (dequeue_loop i q xs s) i q = []"
  using assms
proof (induction xs arbitrary: s)
  case (Cons x xs)
  have "mset (pending s i q) = mset (x # xs)" using Cons.prems(4) by simp
  then have x: "x \<in> set (pending s i q)" by (metis list.set_intros(1) mset_eq_setD)
  note l = loop_step_keeps [OF Cons.prems(1-3) x]
  have r: "routed s x i" by (rule wf_pendingD [OF Cons.prems(1-3) x])
  have dz: "sta_dz_bitmap (tbl s) \<noteq> 0" using Cons.prems(5) by (auto simp: buffers_def dz_has_def)
  have c: "check_fwstate (fw_state s) WIFI_AP_STATE"
    "IS_MCAST (xf_ra (frames s x)) \<or> asleep (ps s ! i) \<and> dz_has (aid (sta s i)) s"
    using Cons.prems(5) r by (auto simp: buffers_def)
  have rs: "routed (loop_step i q x s) y j = routed s y j" for y j by (rule routed_cong) (simp_all add: l)
  have ra: "xf_ra (frames (loop_step i q x s) y) = xf_ra (frames s y)" for y
    using fkey_obs(1) [of "loop_step i q x s" y s] l(3) by simp
  have "buffers (loop_step i q x s) i"
    using Cons.prems(5) l(7) unfolding buffers_def rs ra l(4) l(6) table_obs(4) [OF l(2)] by blast
  moreover have "i < nsta (loop_step i q x s)" using Cons.prems(2) table_obs(1) [OF l(2)] by simp
  ultimately show ?case unfolding dequeue_loop_step
    using Cons.IH [OF l(1) _ Cons.prems(3) l(10) [OF c(1) dz c(2) Cons.prems(4)]] by simp
qed simp

lemma stop_queue_keeps:
  assumes "wf_tx out s" "i < nsta s" "q < 4" "buffers s i"
  shows "wf_tx out (stop_queue i q s)" "table (stop_queue i q s) = table s" "fkey (stop_queue i q s) = fkey s"
    "fw_state (stop_queue i q s) = fw_state s" "asleep (ps (stop_queue i q s) ! j) = asleep (ps s ! j)"
    "dz_has a s \<Longrightarrow> dz_has a (stop_queue i q s)" "pending (stop_queue i q s) i q = []"
    "j \<noteq> i \<or> c \<noteq> q \<Longrightarrow> pending (stop_queue i q s) j c = pending s j c"
    "buffers s j \<Longrightarrow> buffers (stop_queue i q s) j"
proof -
  let ?d = "dequeue_loop i q (pending s i q) s"
  have d: "stop_queue i q s = set_sta_queue q (remove1 i (sta_queue ?d ! q)) ?d"
    by (simp add: stop_queue_def dequeue_xmitframes_to_sleeping_queue_def Let_def)
  note l = wf_dequeue_loop [OF assms(1-3) subset_mset.order_refl]
  have e: "pending ?d i q = []" using dequeue_loop_empties [OF assms(1-3) refl assms(4)] .
  show "wf_tx out (stop_queue i q s)" unfolding d using l e assms(3) by (intro wf_unschedule) auto
  show "table (stop_queue i q s) = table s" "fkey (stop_queue i q s) = fkey s"
    "fw_state (stop_queue i q s) = fw_state s" "asleep (ps (stop_queue i q s) ! j) = asleep (ps s ! j)"
    using l by (simp_all add: d)
  show "dz_has a s \<Longrightarrow> dz_has a (stop_queue i q s)" using l by (simp add: d)
  show "pending (stop_queue i q s) i q = []" by (simp add: d e)
  show "j \<noteq> i \<or> c \<noteq> q \<Longrightarrow> pending (stop_queue i q s) j c = pending s j c" using l by (simp add: d)
  have t: "table (stop_queue i q s) = table s" and f: "fkey (stop_queue i q s) = fkey s" using l by (simp_all add: d)
  have rs: "routed (stop_queue i q s) y k = routed s y k" for y k by (rule routed_cong) (simp_all add: t f)
  have ra: "xf_ra (frames (stop_queue i q s) y) = xf_ra (frames s y)" for y
    using fkey_obs(1) [of "stop_queue i q s" y s] f by simp
  have z: "fw_state (stop_queue i q s) = fw_state s" "\<And>j. asleep (ps (stop_queue i q s) ! j) = asleep (ps s ! j)"
    "\<And>a. dz_has a s \<Longrightarrow> dz_has a (stop_queue i q s)" using l by (simp_all add: d)
  show "buffers s j \<Longrightarrow> buffers (stop_queue i q s) j"
    using z(3) unfolding buffers_def rs ra z(1,2) table_obs(4) [OF t] by blast
qed

lemma is_alive_keeps [simp]:
  "view (is_alive i s) = view s" "table (is_alive i s) = table s" "fkey (is_alive i s) = fkey s" "fw_state (is_alive i s) = fw_state s"
  "in_flight (is_alive i s) = in_flight s" "length (ps (is_alive i s)) = length (ps s)" "nsta (is_alive i s) = nsta s"
  "sta (is_alive i s) = sta s" "tim_has a (is_alive i s) = tim_has a s" "dz_has a (is_alive i s) = dz_has a s"
  "frames (is_alive i s) = frames s" "pending (is_alive i s) = pending s"
  "asleep (ps (is_alive i s) ! j) = asleep (ps s ! j)" "sleepq_len (ps (is_alive i s) ! j) = sleepq_len (ps s ! j)"
  "sleepq_ac_len (ps (is_alive i s) ! j) = sleepq_ac_len (ps s ! j)"
  "has_legacy_ac (ps (is_alive i s) ! j) = has_legacy_ac (ps s ! j)" "uapsd_of (ps (is_alive i s) ! j) pr = uapsd_of (ps s ! j) pr"
  by (simp_all add: is_alive_def ps_upd_ps uapsd_of_def pending_def fun_eq_iff)

text \<open>What the loops over a sleep queue keep.\<close>

definition pcfg :: "ps_sta \<Rightarrow> bool \<times> u8 \<times> u8 \<times> u8 \<times> u8" where
  "pcfg p = (has_legacy_ac p, uapsd_vo p, uapsd_vi p, uapsd_be p, uapsd_bk p)"

lemma pcfg_upd_ps: "(\<And>p. pcfg (g p) = pcfg p) \<Longrightarrow> (\<lambda>j. pcfg (ps (upd_ps i g s) ! j)) = (\<lambda>j. pcfg (ps s ! j))"
  by (simp add: fun_eq_iff ps_upd_ps)

lemma pcfg_is_alive [simp]: "pcfg (ps (is_alive i s) ! j) = pcfg (ps s ! j)"
  by (simp add: is_alive_def ps_upd_ps pcfg_def)

definition idle_part :: "tx_priv \<Rightarrow> _" where
  "idle_part s = (table s, fkey s, fw_state s, in_flight s, length (ps s), \<lambda>i. pcfg (ps s ! i))"

lemma idle_obs:
  assumes "idle_part s' = idle_part s"
  shows "table s' = table s" "fkey s' = fkey s" "fw_state s' = fw_state s" "in_flight s' = in_flight s"
    "nsta s' = nsta s" "routed s' x i = routed s x i" "aid (sta s' i) = aid (sta s i)"
    "linked (sta s' i) = linked (sta s i)" "xf_priority (frames s' x) = xf_priority (frames s x)"
    "rtw_get_bcmc_stainfo (tbl s') = rtw_get_bcmc_stainfo (tbl s)" "get_sta s' = get_sta s"
    "pcfg (ps s' ! i) = pcfg (ps s ! i)"
proof -
  show *: "table s' = table s" "fkey s' = fkey s" "fw_state s' = fw_state s" "in_flight s' = in_flight s"
    using assms by (simp_all add: idle_part_def)
  have "(\<lambda>i. pcfg (ps s' ! i)) = (\<lambda>i. pcfg (ps s ! i))" using assms by (simp add: idle_part_def)
  then show "pcfg (ps s' ! i) = pcfg (ps s ! i)" by (rule fun_cong)
  show "routed s' x i = routed s x i" by (rule routed_cong) (simp_all add: *)
  show "xf_priority (frames s' x) = xf_priority (frames s x)" using fkey_obs(3) [of s' x s] *(2) by simp
  show "nsta s' = nsta s" "aid (sta s' i) = aid (sta s i)" "linked (sta s' i) = linked (sta s i)"
    "rtw_get_bcmc_stainfo (tbl s') = rtw_get_bcmc_stainfo (tbl s)" "get_sta s' = get_sta s"
    using table_obs [OF *(1)] by auto
qed

lemma idle_upd_ps [simp]: "(\<And>p. pcfg (g p) = pcfg p) \<Longrightarrow> idle_part (upd_ps i g s) = idle_part s"
  by (simp add: idle_part_def pcfg_upd_ps)

lemma pcfg_fields [simp]:
  "pcfg (p\<lparr>sleepq_len := n\<rparr>) = pcfg p" "pcfg (p\<lparr>sleepq_ac_len := n\<rparr>) = pcfg p" "pcfg (p\<lparr>asleep := b\<rparr>) = pcfg p"
  by (simp_all add: pcfg_def)

lemma idle_simps [simp]:
  "idle_part (unlink_sleep_q i x s) = idle_part s"
  "idle_part (emit e s) = idle_part s" "idle_part (set_tim a s) = idle_part s" "idle_part (clear_tim a s) = idle_part s"
  "idle_part (set_dz a s) = idle_part s" "idle_part (clear_dz a s) = idle_part s"
  "idle_part (hal_xmitframe_enqueue x s) = idle_part s" "idle_part (pop_sleep_q i x s) = idle_part s"
  "idle_part (count_ac i x s) = idle_part s" "idle_part (trigger_frame x s) = idle_part s"
  "idle_part (is_alive i s) = idle_part s"
  "idle_part (upd_frame x (\<lambda>a. a\<lparr>xf_qsel := v\<rparr>) s) = idle_part s"
  "idle_part (upd_frame x (\<lambda>a. a\<lparr>xf_triggered := b\<rparr>) s) = idle_part s"
  by (simp_all add: idle_part_def pcfg_upd_ps unlink_sleep_q_def pop_sleep_q_def count_ac_def trigger_frame_def Let_def table_upd_sta)

lemma idle_loops [simp]:
  "idle_part (wakeup_loop i xs s) = idle_part s" "idle_part (group_loop b h xs s) = idle_part s"
  "idle_part (delivery_loop i xs s) = idle_part s"
  by (induction xs arbitrary: s) (simp_all add: Let_def)

lemma idle_ops [simp]:
  "idle_part (snd (leave_sleep i s)) = idle_part s" "idle_part (snd (wake_group b s)) = idle_part s"
  "idle_part (wakeup_sta_to_xmit i s) = idle_part s" "idle_part (xmit_delivery_enabled_frames i s) = idle_part s"
  "idle_part (pspoll i a pr s) = idle_part s" "idle_part (chk_bmc_sleepq_hdl s) = idle_part s"
  "idle_part (rtw_chk_hi_queue_hdl e s) = idle_part s" "idle_part (process_wmmps_data src pr s) = idle_part s"
  by (simp_all add: leave_sleep_def wake_group_def wakeup_sta_to_xmit_def xmit_delivery_enabled_frames_def
      pspoll_def chk_bmc_sleepq_hdl_def rtw_chk_hi_queue_hdl_def process_wmmps_data_def
      Let_def case_prod_beta split: option.split list.split)

lemma sleep_q_unlink:
  "sleep_q (sta (unlink_sleep_q i x s) j) = (if j = i \<and> i < nsta s then remove1 x (sleep_q (sta s i)) else sleep_q (sta s j))"
  by (simp add: unlink_sleep_q_def sta_upd_sta)

lemma sleep_q_parts [simp]:
  "sleep_q (sta (trigger_frame x s) j) = sleep_q (sta s j)" "sleep_q (sta (count_ac i x s) j) = sleep_q (sta s j)"
  "sleep_q (sta (pop_sleep_q i x s) j) = sleep_q (sta (unlink_sleep_q i x s) j)"
  by (simp_all add: trigger_frame_def count_ac_def pop_sleep_q_def Let_def)

lemma view_pop [simp]: "view (pop_sleep_q i x s) = view (unlink_sleep_q i x s)" "view (count_ac i x s) = view s"
  by (simp_all add: pop_sleep_q_def count_ac_def Let_def)

lemma wf_trigger:
  assumes "wf_tx (give x out) s" shows "wf_tx out (trigger_frame x s)"
proof -
  have "wf_tx (give x out) (upd_frame x (\<lambda>a. a\<lparr>xf_triggered := True\<rparr>) s)"
    using assms wf_tx_cong [of "upd_frame x (\<lambda>a. a\<lparr>xf_triggered := True\<rparr>) s" s] by simp
  from wf_hal [OF this, of x] show ?thesis by (simp add: trigger_frame_def)
qed

lemma wf_pop_hal:
  assumes "wf_tx out s" "i < nsta s" "x \<in> set (sleep_q (sta s i))" "view s' = view (unlink_sleep_q i x s)"
  shows "wf_tx out (trigger_frame x s')" "wf_tx out (hal_xmitframe_enqueue x s')"
proof -
  have w: "wf_tx (give x out) s'" using wf_unlink [OF assms(1-3)] wf_tx_cong [OF assms(4)] by simp
  show "wf_tx out (trigger_frame x s')" by (rule wf_trigger [OF w])
  show "wf_tx out (hal_xmitframe_enqueue x s')" using wf_hal [OF w, of x] by simp
qed

lemma sub_remove1: "mset (x # xs) \<subseteq># mset q \<Longrightarrow> mset xs \<subseteq># mset (remove1 x q)"
  by (simp add: insert_subset_eq_iff)

lemma sub_member: "mset (x # xs) \<subseteq># mset q \<Longrightarrow> x \<in> set q"
  using mset_subset_eqD [of "mset (x # xs)" "mset q" x] by simp

lemma wf_wakeup_loop:
  assumes "wf_tx out s" "i < nsta s" "mset xs \<subseteq># mset (sleep_q (sta s i))"
  shows "wf_tx out (wakeup_loop i xs s)"
  using assms
proof (induction xs arbitrary: s)
  case (Cons x xs)
  let ?p = "pop_sleep_q i x s"
  let ?t = "if wm_trigger i x s then count_ac i x ?p else ?p"
  have v: "view ?t = view (unlink_sleep_q i x s)" by simp
  have "wf_tx out (trigger_frame x ?t)" by (rule wf_pop_hal [OF Cons.prems(1,2) sub_member [OF Cons.prems(3)] v])
  moreover have "nsta (trigger_frame x ?t) = nsta s" by (rule idle_obs(5)) simp
  moreover have "mset xs \<subseteq># mset (sleep_q (sta (trigger_frame x ?t) i))"
    using sub_remove1 [OF Cons.prems(3)] Cons.prems(2) by (simp add: sleep_q_unlink)
  ultimately show ?case using Cons.IH Cons.prems(2) by (simp add: Let_def)
qed simp

lemma wf_group_loop:
  assumes "wf_tx out s" "i < nsta s" "mset xs \<subseteq># mset (sleep_q (sta s i))"
  shows "wf_tx out (group_loop i h xs s)"
  using assms
proof (induction xs arbitrary: s)
  case (Cons x xs)
  let ?p = "upd_frame x (\<lambda>a. a\<lparr>xf_triggered := True\<rparr>) (pop_sleep_q i x s)"
  let ?t = "if h \<and> xmitframe_hiq_filter ?p x then upd_frame x (\<lambda>a. a\<lparr>xf_qsel := 0x11\<rparr>) ?p else ?p"
  have v: "view ?t = view (unlink_sleep_q i x s)" by simp
  have "wf_tx out (hal_xmitframe_enqueue x ?t)" by (rule wf_pop_hal [OF Cons.prems(1,2) sub_member [OF Cons.prems(3)] v])
  moreover have "nsta (hal_xmitframe_enqueue x ?t) = nsta s" by (rule idle_obs(5)) simp
  moreover have "mset xs \<subseteq># mset (sleep_q (sta (hal_xmitframe_enqueue x ?t) i))"
    using sub_remove1 [OF Cons.prems(3)] Cons.prems(2) by (simp add: sleep_q_unlink)
  ultimately show ?case using Cons.IH Cons.prems(2) by (simp add: Let_def)
qed simp

lemma wf_delivery_loop:
  assumes "wf_tx out s" "i < nsta s" "mset xs \<subseteq># mset (sleep_q (sta s i))"
  shows "wf_tx out (delivery_loop i xs s)"
  using assms
proof (induction xs arbitrary: s)
  case (Cons x xs)
  show ?case
  proof (cases "wm_trigger i x s")
    case True
    let ?t = "trigger_frame x (count_ac i x (unlink_sleep_q i x s))"
    let ?e = "if sleepq_ac_len (ps ?t ! i) = 0 \<and> \<not> has_legacy_ac (ps ?t ! i)
      then emit UpdateBeacon (clear_tim (aid (sta ?t i)) ?t) else ?t"
    have "wf_tx out ?t" by (rule wf_pop_hal [OF Cons.prems(1,2) sub_member [OF Cons.prems(3)]]) simp
    then have "wf_tx out ?e" using wf_tx_cong [of ?e ?t] by simp
    moreover have "nsta ?e = nsta s" by (rule idle_obs(5)) simp
    moreover have "mset xs \<subseteq># mset (sleep_q (sta ?e i))"
      using sub_remove1 [OF Cons.prems(3)] Cons.prems(2) by (simp add: sleep_q_unlink)
    ultimately show ?thesis using Cons.IH Cons.prems(2) True by (simp add: Let_def)
  next
    case False
    have "mset xs \<subseteq># mset (x # xs)" by simp
    then have "mset xs \<subseteq># mset (sleep_q (sta s i))" using Cons.prems(3) by (rule subset_mset.order_trans)
    then show ?thesis using Cons False by simp
  qed
qed simp

lemma view_leave [simp]: "view (snd (leave_sleep i s)) = view s"
  by (simp add: leave_sleep_def Let_def)

lemma wf_wake_group:
  assumes "wf_tx out s" "b < nsta s" shows "wf_tx out (snd (wake_group b s))"
proof -
  let ?g = "group_loop b False (sleep_q (sta s b)) s"
  have "wf_tx out ?g" by (rule wf_group_loop [OF assms]) simp
  then have "wf_tx out (clear_dz 0 (clear_tim 0 ?g))" using wf_tx_cong [of "clear_dz 0 (clear_tim 0 ?g)" ?g] by simp
  then show ?thesis using \<open>wf_tx out ?g\<close> assms(1) by (simp add: wake_group_def Let_def)
qed

lemma wf_bcmcD: "wf_tx out s \<Longrightarrow> rtw_get_bcmc_stainfo (tbl s) = Some b \<Longrightarrow> b < nsta s"
  by (auto simp: wf_tx_def rtw_get_bcmc_stainfo_def get_sta_def)

lemma wf_wakeup:
  assumes "wf_tx out s" "i < nsta s" shows "wf_tx out (wakeup_sta_to_xmit i s)"
proof -
  let ?w = "wakeup_loop i (sleep_q (sta s i)) s"
  have "wf_tx out ?w" by (rule wf_wakeup_loop [OF assms]) simp
  then have l: "wf_tx out (snd (leave_sleep i ?w))" using wf_tx_cong [OF view_leave] by simp
  have t: "rtw_get_bcmc_stainfo (tbl s) = Some b \<Longrightarrow> b < nsta (snd (leave_sleep i ?w))" for b
    using wf_bcmcD [OF assms(1)] idle_obs(5) [of "snd (leave_sleep i ?w)" s] by simp
  let ?g = "case rtw_get_bcmc_stainfo (tbl s) of None \<Rightarrow> (False, snd (leave_sleep i ?w))
    | Some b \<Rightarrow> wake_group b (snd (leave_sleep i ?w))"
  have g: "wf_tx out (snd ?g)" using l wf_wake_group [OF l t] by (simp split: option.split)
  moreover have "wf_tx out (emit UpdateBeacon (snd ?g))" using g wf_tx_cong [of "emit UpdateBeacon (snd ?g)" "snd ?g"] by simp
  ultimately show ?thesis by (simp add: wakeup_sta_to_xmit_def Let_def case_prod_beta)
qed

lemma wf_delivery: "wf_tx out s \<Longrightarrow> i < nsta s \<Longrightarrow> wf_tx out (xmit_delivery_enabled_frames i s)"
  unfolding xmit_delivery_enabled_frames_def by (rule wf_delivery_loop) simp_all

lemma wf_pspoll:
  assumes "wf_tx out s" "i < nsta s" shows "wf_tx out (pspoll i a pr s)"
proof -
  let ?s = "is_alive i s"
  have q: "sleep_q (sta ?s i) = sleep_q (sta s i)" by simp
  have n: "nsta ?s = nsta s" by (rule idle_obs(5)) simp
  have w: "wf_tx out ?s" using wf_tx_cong [of ?s s] assms(1) by simp
  show ?thesis
  proof (cases "sleep_q (sta s i)")
    case Nil
    let ?z = "upd_ps i (\<lambda>p. p\<lparr>sleepq_len := 0\<rparr>) ?s"
    have "sleepq_len (ps ?s ! i) = 0" using w assms(2) n q Nil by (simp add: wf_tx_def wf_sta_def)
    moreover have "wf_tx out (emit UpdateBeacon (clear_tim c (emit (NullData i) ?s)))" for c
      using w wf_tx_cong [of "emit UpdateBeacon (clear_tim c (emit (NullData i) ?s))" ?s] by simp
    ultimately show ?thesis using w Nil assms(1) by (simp add: pspoll_def Let_def)
  next
    case (Cons x xs)
    let ?t = "trigger_frame x (pop_sleep_q i x ?s)"
    have "wf_tx out ?t" by (rule wf_pop_hal [OF w]) (use assms n q Cons in simp_all)
    moreover have "wf_tx out (emit UpdateBeacon (clear_tim c ?t))" for c
      using \<open>wf_tx out ?t\<close> wf_tx_cong [of "emit UpdateBeacon (clear_tim c ?t)" ?t] by simp
    ultimately show ?thesis using w Cons assms(1) by (simp add: pspoll_def Let_def)
  qed
qed

lemma wf_chk_bmc:
  assumes "wf_tx out s" shows "wf_tx out (chk_bmc_sleepq_hdl s)"
proof (cases "rtw_get_bcmc_stainfo (tbl s)")
  case (Some b)
  let ?g = "group_loop b True (sleep_q (sta s b)) s"
  have "wf_tx out ?g" by (rule wf_group_loop [OF assms wf_bcmcD [OF assms Some]]) simp
  then have "wf_tx out (emit ChkHiQueue ?g)" using wf_tx_cong [of "emit ChkHiQueue ?g" ?g] by simp
  then show ?thesis using Some assms by (simp add: chk_bmc_sleepq_hdl_def)
qed (use assms in \<open>simp add: chk_bmc_sleepq_hdl_def\<close>)

lemma view_chk_hi [simp]: "view (rtw_chk_hi_queue_hdl e s) = view s"
  by (simp add: rtw_chk_hi_queue_hdl_def Let_def split: option.split)

lemma wf_dequeue_sta:
  assumes "wf_tx out s" "ac < 4" "set is \<subseteq> {..<nsta s}" "dequeue_sta ac is s = Some (x, s')"
  shows "wf_tx (give x out) s'"
  using assms
proof (induction "is")
  case (Cons i "is")
  show ?case
  proof (cases "pending s i ac")
    case Nil
    then show ?thesis using Cons by simp
  next
    case (Cons y q)
    let ?r = "relink i ac q (- 1) s"
    have i: "i < nsta s" using Cons.prems(3) by simp
    have w: "wf_tx (give y out) ?r"
    proof (rule wf_relink [OF Cons.prems(1) i Cons.prems(2)])
      show "routed s z i \<and> ac_of (xf_priority (frames s z)) = ac" if "z \<in> set q" for z
        using wf_pendingD [OF Cons.prems(1) i Cons.prems(2), of z] that Cons by simp
      show "i \<in> set (sta_queue s ! ac)" using Cons.prems(1,2) i Cons by (simp add: wf_tx_def)
    qed (simp_all add: Cons give_def)
    have "length (sta_pending (sta s i)) = 4" using Cons.prems(1) i by (simp add: wf_tx_def wf_sta_def)
    then have p: "pending ?r i ac = q" using i Cons.prems(2) by (simp add: pending_relink)
    have e: "x = y" "s' = (if q = [] then set_sta_queue ac (remove1 i (sta_queue ?r ! ac)) ?r else ?r)"
      using Cons.prems(4) Cons by (auto simp: Let_def relink_def)
    show ?thesis using wf_unschedule [OF w, of i ac] Cons.prems(2) p w by (cases "q = []") (simp_all add: e)
  qed
qed simp

lemma wf_dequeue:
  assumes "wf_tx out s" "set inx \<subseteq> {..<4}" "rtw_dequeue_xframe inx s = Some (x, s')"
  shows "wf_tx (give x out) s'"
  using assms(2,3)
proof (induction inx)
  case (Cons ac inx)
  have ac: "ac < 4" "set (sta_queue s ! ac) \<subseteq> {..<nsta s}" using Cons.prems assms(1) by (simp_all add: wf_tx_def)
  show ?case
  proof (cases "dequeue_sta ac (sta_queue s ! ac) s")
    case (Some r)
    then have "dequeue_sta ac (sta_queue s ! ac) s = Some (x, s')" using Cons.prems(2) by simp
    then show ?thesis by (rule wf_dequeue_sta [OF assms(1) ac])
  qed (use Cons in simp)
qed simp

lemma wf_pre:
  assumes "wf_tx (give x out) s" shows "wf_tx out (pre_xmitframe b d x s)"
  using wf_hal [OF assms, of x] wf_flight [OF assms, of x] wf_free [OF assms, of x]
  by (simp add: pre_xmitframe_def to_flight_def)

lemma wf_xmit:
  assumes "wf_tx (give x out) s" shows "wf_tx out (rtw_xmit_frame b d x s)"
proof -
  obtain ret s' where e: "xmitframe_enqueue_for_sleeping_sta x s = (ret, s')" by fastforce
  note w = wf_enqueue [OF assms e]
  show ?thesis using w wf_pre [of x out s'] by (cases ret) (simp_all add: rtw_xmit_frame_def e)
qed

lemma bcmc_mcast:
  assumes "rtw_get_bcmc_stainfo (tbl s) = Some b" "get_sta s a = Some b"
  shows "IS_MCAST a"
proof (rule ccontr)
  assume m: "\<not> IS_MCAST a"
  have "hwaddr (sta s b) = take 6 a"
    using assms(2) m find_Some_iff [of "\<lambda>i. hwaddr (pool (tbl s) ! i) = take 6 a" "sta_hash (tbl s) ! wifi_mac_hash a" b]
    by (auto simp: get_sta_def rtw_get_stainfo_def sta_def)
  moreover have "hwaddr (sta s b) = take 6 bc_addr"
    using assms(1) find_Some_iff [of "\<lambda>i. hwaddr (pool (tbl s) ! i) = take 6 bc_addr" "sta_hash (tbl s) ! wifi_mac_hash bc_addr" b]
    by (auto simp: rtw_get_bcmc_stainfo_def rtw_get_stainfo_def sta_def)
  ultimately have "take 6 a = bc_addr" by (simp add: bc_addr_def)
  then have "a ! 0 = 0xFF" using nth_take [of 0 6 a] by (simp add: bc_addr_def)
  then show False using m by (simp add: IS_MCAST_def)
qed

lemma wf_stop:
  assumes "wf_tx out s" "i < nsta s" "aid (sta s i) < 16" "check_fwstate (fw_state s) WIFI_AP_STATE"
    "stop_sta_xmit i s = Some s'"
  shows "wf_tx out s'"
proof -
  obtain b where b: "rtw_get_bcmc_stainfo (tbl s) = Some b" using assms(5) by (auto simp: stop_sta_xmit_def split: option.splits)
  let ?s0 = "set_dz (aid (sta s i)) (upd_ps i (\<lambda>p. p\<lparr>asleep := True\<rparr>) s)"
  let ?s4 = "stop_queue i 3 (stop_queue i 2 (stop_queue i 1 (stop_queue i 0 ?s0)))"
  have s': "s' = stop_queue b 2 ?s4" using assms(5) b by (simp add: stop_sta_xmit_def Let_def)
  have t0: "table ?s0 = table s" by simp
  have n0: "nsta ?s0 = nsta s" by simp
  have "length (ps s) = nsta s" using assms(1) by (simp add: wf_tx_def)
  then have bi: "buffers ?s0 i" using assms(2-4) by (auto simp: buffers_def ps_upd_ps)
  have bb: "buffers ?s0 b"
    using bi bcmc_mcast [of ?s0 b] b by (auto simp: buffers_def routed_def)
  have w0: "wf_tx out ?s0" using assms(1) wf_tx_cong [of ?s0 s] by simp
  have step: "wf_tx out (stop_queue j q t) \<and> buffers (stop_queue j q t) i \<and> buffers (stop_queue j q t) b
      \<and> nsta (stop_queue j q t) = nsta t"
    if "wf_tx out t" "j < nsta t" "q < 4" "buffers t j" "buffers t i" "buffers t b" for t j q
    using stop_queue_keeps [OF that(1-4)] that(5,6) table_obs(1) by blast
  have "b < nsta s" by (rule wf_bcmcD [OF assms(1) b])
  then show ?thesis unfolding s' using step [of _ i] step [of _ b] w0 bi bb assms(2) n0 by simp
qed

end
