(* ===== verification/Ap_Sleep_Safe.thy ===== *)
theory Ap_Sleep_Safe
  imports Ap_Sleep
begin

text \<open>
  What the buffering of \<open>Ap_Sleep\<close> guarantees to sleeping stations, in every state that an access point
  reaches: the invariant, that each operation keeps it, the step relation and the properties.
\<close>

section \<open>The invariant of the sleeping stations\<close>

text \<open>The access point is set up: association ids up to 15 and different, 0 for the entry of group frames; a
  category is delivery- and trigger-enabled or neither, and \<open>has_legacy_ac\<close> tells whether all are. The driver gives out
  association ids up to \<open>NUM_STA\<close> = 32 (\<^verbatim>\<open>core/rtw_sta_mgt.c\<close>); what holds for those above 15 is in
  \<open>stop_sta_xmit_strands_high_aid\<close>.\<close>

definition ap_cfg :: "tx_priv \<Rightarrow> bool" where
  "ap_cfg s \<longleftrightarrow> check_fwstate (fw_state s) WIFI_AP_STATE \<and> rtw_get_bcmc_stainfo (tbl s) \<noteq> None
     \<and> (\<forall>i < nsta s. aid (sta s i) < 16 \<and> (rtw_get_bcmc_stainfo (tbl s) = Some i \<longrightarrow> aid (sta s i) = 0)
          \<and> (linked (sta s i) \<and> aid (sta s i) = 0 \<longrightarrow> rtw_get_bcmc_stainfo (tbl s) = Some i))
     \<and> (\<forall>i < nsta s. \<forall>j < nsta s. linked (sta s i) \<and> linked (sta s j) \<and> aid (sta s i) = aid (sta s j) \<longrightarrow> i = j)
     \<and> (\<forall>i < nsta s. \<forall>up. uapsd_of (ps s ! i) up AND 1 \<noteq> 0 \<longleftrightarrow> uapsd_of (ps s ! i) up AND 2 \<noteq> 0)
     \<and> (\<forall>i < nsta s. has_legacy_ac (ps s ! i) \<longleftrightarrow> (\<exists>up. uapsd_of (ps s ! i) up AND 1 = 0))"

text \<open>A frame whose arrival the beacon announces is announced, and the counter of a station without
  legacy categories counts its frames.\<close>

definition announced :: "tx_priv \<Rightarrow> nat \<Rightarrow> nat \<Rightarrow> bool" where
  "announced s i x \<longleftrightarrow> aid (sta s i) = 0 \<or> has_legacy_ac (ps s ! i) \<noteq> (uapsd_of (ps s ! i) (xf_priority (frames s x)) AND 1 \<noteq> 0)"

definition tim_ok :: "tx_priv \<Rightarrow> nat \<Rightarrow> bool" where
  "tim_ok s i \<longleftrightarrow> (\<forall>x \<in> set (sleep_q (sta s i)). announced s i x \<longrightarrow> tim_has (aid (sta s i)) s)
     \<and> (aid (sta s i) \<noteq> 0 \<and> \<not> has_legacy_ac (ps s ! i) \<longrightarrow> sleepq_ac_len (ps s ! i) = of_nat (length (sleep_q (sta s i))))"

text \<open>A sleeping station is marked, and only frames it has called for are on their way to it.\<close>

definition doze_ok :: "tx_priv \<Rightarrow> nat \<Rightarrow> bool" where
  "doze_ok s i \<longleftrightarrow> (linked (sta s i) \<and> aid (sta s i) \<noteq> 0 \<and> asleep (ps s ! i) \<longrightarrow>
     dz_has (aid (sta s i)) s \<and> (\<forall>ac < 4. \<forall>x \<in> set (pending s i ac). xf_triggered (frames s x)))"

lemma pcfg_obs:
  assumes "pcfg p' = pcfg p"
  shows "has_legacy_ac p' = has_legacy_ac p" "uapsd_of p' up = uapsd_of p up"
  using assms by (auto simp: pcfg_def uapsd_of_def)

lemma ap_cfg_cong:
  assumes "table s' = table s" "fw_state s' = fw_state s" "\<And>i. pcfg (ps s' ! i) = pcfg (ps s ! i)"
  shows "ap_cfg s' = ap_cfg s"
  by (simp add: ap_cfg_def assms(2) table_obs [OF assms(1)] pcfg_obs [OF assms(3)])

lemma ap_cfg_idle: "idle_part s' = idle_part s \<Longrightarrow> ap_cfg s' = ap_cfg s"
  by (rule ap_cfg_cong) (erule idle_obs(1), erule idle_obs(3), erule idle_obs(12))

lemma tim_ok_mono:
  assumes "tim_ok s j" "table s' = table s" "fkey s' = fkey s" "pcfg (ps s' ! j) = pcfg (ps s ! j)"
    "set (sleep_q (sta s' j)) \<subseteq> set (sleep_q (sta s j))"
    "sleep_q (sta s' j) \<noteq> [] \<Longrightarrow> tim_has (aid (sta s j)) s \<Longrightarrow> tim_has (aid (sta s j)) s'"
    "aid (sta s j) \<noteq> 0 \<Longrightarrow> \<not> has_legacy_ac (ps s ! j) \<Longrightarrow> sleepq_ac_len (ps s ! j) = of_nat (length (sleep_q (sta s j))) \<Longrightarrow>
      sleepq_ac_len (ps s' ! j) = of_nat (length (sleep_q (sta s' j)))"
  shows "tim_ok s' j"
proof -
  have "fkey s' x = fkey s x" for x using assms(3) by simp
  note o = pcfg_obs [OF assms(4)] table_obs(4) [OF assms(2)] fkey_obs(3) [OF this]
  have a: "announced s' j x = announced s j x" for x by (simp add: announced_def o)
  have "tim_has (aid (sta s j)) s'" if "x \<in> set (sleep_q (sta s' j))" "announced s j x" for x
  proof (rule assms(6))
    show "sleep_q (sta s' j) \<noteq> []" using that(1) by auto
    show "tim_has (aid (sta s j)) s" using assms(1,5) that by (auto simp: tim_ok_def)
  qed
  then show ?thesis using assms(1,7) by (simp add: tim_ok_def a o)
qed

lemma doze_ok_mono:
  assumes "doze_ok s j" "table s' = table s"
    "asleep (ps s' ! j) \<Longrightarrow> asleep (ps s ! j)"
    "asleep (ps s' ! j) \<Longrightarrow> linked (sta s j) \<Longrightarrow> aid (sta s j) \<noteq> 0 \<Longrightarrow> dz_has (aid (sta s j)) s \<Longrightarrow> dz_has (aid (sta s j)) s'"
    "\<And>ac x. ac < 4 \<Longrightarrow> x \<in> set (pending s' j ac) \<Longrightarrow>
      xf_triggered (frames s' x) \<or> x \<in> set (pending s j ac) \<and> xf_triggered (frames s' x) = xf_triggered (frames s x)"
  shows "doze_ok s' j"
  using assms(1,3-5) by (fastforce simp: doze_ok_def table_obs [OF assms(2)])

lemma get_sta_mcast: "IS_MCAST a \<Longrightarrow> get_sta s a = rtw_get_bcmc_stainfo (tbl s)"
  by (simp add: get_sta_def rtw_get_bcmc_stainfo_def rtw_get_stainfo_def)

lemma routed_aid:
  assumes "ap_cfg s" "wf_tx out s" "routed s x i"
  shows "aid (sta s i) < 16" "IS_MCAST (xf_ra (frames s x)) \<longleftrightarrow> aid (sta s i) = 0"
    "rtw_get_bcmc_stainfo (tbl s) = Some i \<longleftrightarrow> aid (sta s i) = 0"
proof -
  have i: "i < nsta s" by (rule wf_routedD [OF assms(2,3)])
  have l: "linked (sta s i)" "get_sta s (xf_ra (frames s x)) = Some i" using assms(3) by (simp_all add: routed_def)
  have c: "aid (sta s i) < 16 \<and> (rtw_get_bcmc_stainfo (tbl s) = Some i \<longrightarrow> aid (sta s i) = 0)
      \<and> (linked (sta s i) \<and> aid (sta s i) = 0 \<longrightarrow> rtw_get_bcmc_stainfo (tbl s) = Some i)"
    using assms(1) i unfolding ap_cfg_def by blast
  then show "aid (sta s i) < 16" by blast
  show b: "rtw_get_bcmc_stainfo (tbl s) = Some i \<longleftrightarrow> aid (sta s i) = 0"
    using c l(1) by blast
  show "IS_MCAST (xf_ra (frames s x)) \<longleftrightarrow> aid (sta s i) = 0"
  proof
    assume "IS_MCAST (xf_ra (frames s x))"
    then show "aid (sta s i) = 0" using l(2) b by (simp add: get_sta_mcast)
  next
    assume "aid (sta s i) = 0"
    then show "IS_MCAST (xf_ra (frames s x))" using bcmc_mcast [OF _ l(2)] b by simp
  qed
qed

lemma tim_unicast:
  assumes "tim_ok s j" "ap_cfg s" "wf_tx out s" "routed s x i" "\<not> IS_MCAST (xf_ra (frames s x))"
  shows "tim_ok (enqueue_unicast i x s) j"
proof -
  let ?s = "enqueue_unicast i x s"
  have a: "aid (sta s i) < 16" "aid (sta s i) \<noteq> 0" using routed_aid [OF assms(2-4)] assms(5) by auto
  have i: "i < nsta s" "i < length (ps s)" using wf_routedD [OF assms(3,4)] assms(3) by (simp_all add: wf_tx_def)
  have p: "pcfg (ps ?s ! k) = pcfg (ps s ! k)" for k
    by (simp add: enqueue_unicast_def push_sleep_q_def Let_def ps_upd_ps)
  have q: "sleep_q (sta ?s k) = (if k = i then sleep_q (sta s i) @ [x] else sleep_q (sta s k))" for k
    using i by (simp add: enqueue_unicast_def push_sleep_q_def Let_def sta_upd_sta)
  let ?w = "uapsd_of (ps s ! i) (xf_priority (frames s x)) AND 1 \<noteq> 0"
  have ac: "sleepq_ac_len (ps ?s ! k) = (if k = i \<and> ?w then sleepq_ac_len (ps s ! k) + 1 else sleepq_ac_len (ps s ! k))" for k
    using i by (simp add: enqueue_unicast_def push_sleep_q_def Let_def ps_upd_ps sta_upd_sta uapsd_of_def)
  have t: "tim_has b ?s \<longleftrightarrow> tim_has b s \<or> b = aid (sta s i) \<and> has_legacy_ac (ps s ! i) \<noteq> ?w" for b
    using i a(1) by (auto simp: enqueue_unicast_def push_sleep_q_def Let_def ps_upd_ps sta_upd_sta uapsd_of_def)
  show ?thesis
  proof (cases "j = i")
    case False
    then show ?thesis using assms(1) by (intro tim_ok_mono [OF assms(1)]) (simp_all add: p q ac t)
  next
    case True
    have "\<not> has_legacy_ac (ps s ! i) \<Longrightarrow> ?w" using assms(2) i by (simp add: ap_cfg_def)
    then show ?thesis using assms(1) unfolding True
      by (auto simp: tim_ok_def announced_def q ac t a pcfg_obs [OF p] table_obs(4) [of ?s s])
  qed
qed

lemma tim_group:
  assumes "tim_ok s j" "ap_cfg s" "wf_tx out s" "routed s x i" "IS_MCAST (xf_ra (frames s x))"
  shows "tim_ok (enqueue_group i x s) j"
proof -
  let ?s = "enqueue_group i x s"
  have a: "aid (sta s i) = 0" using routed_aid [OF assms(2-4)] assms(5) by auto
  have i: "i < nsta s" "i < length (ps s)" using wf_routedD [OF assms(3,4)] assms(3) by (simp_all add: wf_tx_def)
  have p: "pcfg (ps ?s ! k) = pcfg (ps s ! k)" "sleepq_ac_len (ps ?s ! k) = sleepq_ac_len (ps s ! k)" for k
    by (simp_all add: enqueue_group_def push_sleep_q_def Let_def ps_upd_ps)
  have q: "sleep_q (sta ?s k) = (if k = i then sleep_q (sta s i) @ [x] else sleep_q (sta s k))" for k
    using i by (simp add: enqueue_group_def push_sleep_q_def Let_def sta_upd_sta)
  have t: "tim_has b ?s \<longleftrightarrow> tim_has b s \<or> b = 0" for b by (auto simp: enqueue_group_def Let_def)
  show ?thesis
  proof (cases "j = i")
    case False
    then show ?thesis using assms(1) by (intro tim_ok_mono [OF assms(1)]) (simp_all add: p q t)
  next
    case True
    then show ?thesis using a by (simp add: tim_ok_def table_obs(4) [of ?s s] t)
  qed
qed

lemma wf_len_bound:
  assumes "wf_tx (\<lambda>_. 0) s" "i < nsta s" shows "length (sleep_q (sta s i)) \<le> NR_XMITFRAME"
proof -
  let ?f = "\<lambda>i. mset (sleep_q (sta s i)) + mset (concat (sta_pending (sta s i)))"
  have "(\<Sum>i<nsta s. ?f i) = ?f i + (\<Sum>i\<in>{..<nsta s} - {i}. ?f i)"
    using assms(2) by (subst sum.remove [of _ i]) auto
  then have "size (mset (sleep_q (sta s i))) \<le> size (held s)" by (simp add: held_def)
  moreover have "held s = all_frames" using assms(1) by (intro multiset_eqI) (simp add: wf_tx_def)
  ultimately show ?thesis by (simp add: all_frames_def)
qed

lemma of_nat_len_0:
  assumes "wf_tx (\<lambda>_. 0) s" "i < nsta s" "(of_nat (length (sleep_q (sta s i))) :: u32) = 0"
  shows "sleep_q (sta s i) = []"
proof -
  have "length (sleep_q (sta s i)) < 2 ^ 32" using wf_len_bound [OF assms(1,2)] by (simp add: NR_XMITFRAME_def)
  then have "unat (of_nat (length (sleep_q (sta s i))) :: u32) = length (sleep_q (sta s i))"
    by (simp add: unat_of_nat)
  then show ?thesis using assms(3) by simp
qed

lemma sleepq_len_0:
  assumes "wf_tx (\<lambda>_. 0) s" "i < nsta s" "sleepq_len (ps s ! i) = 0"
  shows "sleep_q (sta s i) = []"
  by (rule of_nat_len_0 [OF assms(1,2)]) (use assms in \<open>simp add: wf_tx_def wf_sta_def\<close>)

section \<open>Parts that keep it\<close>

lemma tim_keep:
  assumes "tim_ok s j" "idle_part s' = idle_part s" "sleep_q (sta s' j) = sleep_q (sta s j)"
    "sleepq_ac_len (ps s' ! j) = sleepq_ac_len (ps s ! j)" "\<And>a. tim_has a s \<Longrightarrow> tim_has a s'"
  shows "tim_ok s' j"
  by (rule tim_ok_mono [OF assms(1) idle_obs(1,2) idle_obs(12)]) (use assms in simp_all)

lemma tim_hal [simp]: "tim_ok s j \<Longrightarrow> tim_ok (hal_xmitframe_enqueue x s) j"
  by (erule tim_keep) simp_all

lemma tim_clear:
  assumes "tim_ok s j" "aid (sta s j) = a \<Longrightarrow> sleep_q (sta s j) = []"
  shows "tim_ok (clear_tim a s) j"
  by (rule tim_ok_mono [OF assms(1)]) (use assms(2) in auto)

lemma pending_free [simp]: "pending (rtw_free_xmitframe x s) = pending s" by (simp add: pending_def fun_eq_iff)

lemma pending_trigger:
  assumes "z \<in> set (pending (hal_xmitframe_enqueue x s) j c)"
  shows "z \<in> set (pending s j c) \<or> z = x \<and> routed s x j"
  by (rule hal_cases [of s x]) (use assms in \<open>auto simp: pending_relink split: if_splits\<close>)

lemma doze_hal:
  assumes "doze_ok s j" "xf_triggered (frames s x) \<or> \<not> (routed s x j \<and> aid (sta s j) \<noteq> 0 \<and> asleep (ps s ! j))"
  shows "doze_ok (hal_xmitframe_enqueue x s) j"
proof (cases "xf_triggered (frames s x)")
  case True
  then show ?thesis by (intro doze_ok_mono [OF assms(1)]) (auto dest: pending_trigger)
next
  case False
  let ?s = "hal_xmitframe_enqueue x s"
  have "table ?s = table s" by simp
  note t = table_obs [OF this]
  show ?thesis using assms False pending_trigger [of _ x s j] unfolding doze_ok_def t
    by (auto simp: routed_def)
qed

lemma pending_unlink [simp]: "pending (unlink_sleep_q i x s) = pending s"
  by (simp add: fun_eq_iff pending_def unlink_sleep_q_def sta_upd_sta)

lemma unlink_keeps [simp]:
  "frames (unlink_sleep_q i x s) = frames s" "asleep (ps (unlink_sleep_q i x s) ! j) = asleep (ps s ! j)"
  "tim_has a (unlink_sleep_q i x s) = tim_has a s" "dz_has a (unlink_sleep_q i x s) = dz_has a s"
  "sleepq_ac_len (ps (unlink_sleep_q i x s) ! j) = sleepq_ac_len (ps s ! j)"
  "sta_dz_bitmap (tbl (unlink_sleep_q i x s)) = sta_dz_bitmap (tbl s)"
  by (simp_all add: unlink_sleep_q_def ps_upd_ps)

lemma pop_keeps [simp]:
  "pending (pop_sleep_q i x s) = pending s" "asleep (ps (pop_sleep_q i x s) ! j) = asleep (ps s ! j)"
  "tim_has a (pop_sleep_q i x s) = tim_has a s" "dz_has a (pop_sleep_q i x s) = dz_has a s"
  "sleepq_ac_len (ps (pop_sleep_q i x s) ! j) = sleepq_ac_len (ps s ! j)"
  "xf_triggered (frames (pop_sleep_q i x s) y) = xf_triggered (frames s y)"
  "sta_dz_bitmap (tbl (pop_sleep_q i x s)) = sta_dz_bitmap (tbl s)"
  by (simp_all add: pop_sleep_q_def Let_def)

lemma count_keeps [simp]:
  "pending (count_ac i x s) = pending s" "asleep (ps (count_ac i x s) ! j) = asleep (ps s ! j)"
  "tim_has a (count_ac i x s) = tim_has a s" "dz_has a (count_ac i x s) = dz_has a s"
  "xf_triggered (frames (count_ac i x s) y) = xf_triggered (frames s y)"
  "sta_dz_bitmap (tbl (count_ac i x s)) = sta_dz_bitmap (tbl s)"
  by (simp_all add: count_ac_def Let_def ps_upd_ps) (simp add: pending_def fun_eq_iff)

lemma ac_len_count: "sleepq_ac_len (ps (count_ac i x s) ! j) =
    (if j = i \<and> i < length (ps s) then sleepq_ac_len (ps s ! j) - 1 else sleepq_ac_len (ps s ! j))"
  by (simp add: count_ac_def Let_def ps_upd_ps)

lemma trigger_keeps [simp]:
  "ps (trigger_frame x s) = ps s" "tim_has a (trigger_frame x s) = tim_has a s" "dz_has a (trigger_frame x s) = dz_has a s"
  "sta_dz_bitmap (tbl (trigger_frame x s)) = sta_dz_bitmap (tbl s)"
  by (simp_all add: trigger_frame_def)

lemma tim_trigger [simp]: "tim_ok s j \<Longrightarrow> tim_ok (trigger_frame x s) j"
  by (erule tim_keep) simp_all

lemma doze_triggered [simp]:
  assumes "doze_ok s j" shows "doze_ok (upd_frame x (\<lambda>a. a\<lparr>xf_triggered := True\<rparr>) s) j"
  by (rule doze_ok_mono [OF assms]) auto

lemma doze_trigger [simp]: "doze_ok s j \<Longrightarrow> doze_ok (trigger_frame x s) j"
  unfolding trigger_frame_def by (rule doze_hal) simp_all

lemma doze_keep [simp]:
  "doze_ok s j \<Longrightarrow> doze_ok (unlink_sleep_q i x s) j" "doze_ok s j \<Longrightarrow> doze_ok (pop_sleep_q i x s) j"
  "doze_ok s j \<Longrightarrow> doze_ok (count_ac i x s) j" "doze_ok s j \<Longrightarrow> doze_ok (emit e s) j"
  "doze_ok s j \<Longrightarrow> doze_ok (clear_tim a s) j" "doze_ok s j \<Longrightarrow> doze_ok (is_alive i s) j"
  "doze_ok s j \<Longrightarrow> doze_ok (upd_frame x (\<lambda>a. a\<lparr>xf_qsel := v\<rparr>) s) j"
  by (erule doze_ok_mono; auto simp: pending_def idle_obs(1) [of "unlink_sleep_q i x s" s]
      idle_obs(1) [of "pop_sleep_q i x s" s] idle_obs(1) [of "count_ac i x s" s])+

lemma tim_emit [simp]: "tim_ok s j \<Longrightarrow> tim_ok (emit e s) j" "tim_ok s j \<Longrightarrow> tim_ok (is_alive i s) j"
  "tim_ok s j \<Longrightarrow> tim_ok (clear_dz a s) j" "tim_ok s j \<Longrightarrow> tim_ok (set_dz a s) j"
  "tim_ok s j \<Longrightarrow> tim_ok (upd_frame x (\<lambda>a. a\<lparr>xf_triggered := b\<rparr>) s) j"
  "tim_ok s j \<Longrightarrow> tim_ok (upd_frame x (\<lambda>a. a\<lparr>xf_qsel := v\<rparr>) s) j"
  by (erule tim_keep; simp)+

text \<open>A frame leaves a sleep queue: the counter goes down with it, or does not count.\<close>

lemma tim_unlink:
  assumes "tim_ok s j" "wf_tx out s" "i < nsta s" "x \<in> set (sleep_q (sta s i))"
    "j = i \<Longrightarrow> aid (sta s i) = 0 \<or> has_legacy_ac (ps s ! i)"
  shows "tim_ok (unlink_sleep_q i x s) j" "tim_ok (pop_sleep_q i x s) j"
proof -
  have "tim_ok s' j" if "idle_part s' = idle_part s" "sleep_q (sta s' j) = sleep_q (sta (unlink_sleep_q i x s) j)"
    "\<And>a. tim_has a s' = tim_has a s" "sleepq_ac_len (ps s' ! j) = sleepq_ac_len (ps s ! j)" for s'
  proof (rule tim_ok_mono [OF assms(1) idle_obs(1,2) [OF that(1)] idle_obs(12) [OF that(1)]])
    show "set (sleep_q (sta s' j)) \<subseteq> set (sleep_q (sta s j))"
      using set_remove1_subset [of x "sleep_q (sta s i)"] by (auto simp: that(2) sleep_q_unlink)
  qed (use assms(5) that in \<open>auto simp: sleep_q_unlink\<close>)
  then show "tim_ok (unlink_sleep_q i x s) j" "tim_ok (pop_sleep_q i x s) j" by simp_all
qed

lemma tim_unlink_count:
  assumes "tim_ok s j" "wf_tx out s" "i < nsta s" "x \<in> set (sleep_q (sta s i))"
  shows "tim_ok (count_ac i x (unlink_sleep_q i x s)) j" "tim_ok (count_ac i x (pop_sleep_q i x s)) j"
proof -
  have l: "i < length (ps s)" using assms(2,3) by (simp add: wf_tx_def)
  have "of_nat (length (sleep_q (sta s i))) - 1 = (of_nat (length (sleep_q (sta s i)) - 1) :: u32)"
    using assms(4) by (cases "sleep_q (sta s i)") auto
  then have c: "sleepq_ac_len (ps s ! i) = of_nat (length (sleep_q (sta s i))) \<Longrightarrow>
      sleepq_ac_len (ps s ! i) - 1 = of_nat (length (remove1 x (sleep_q (sta s i))))"
    using assms(4) by (simp add: length_remove1)
  have "tim_ok s' j" if "idle_part s' = idle_part s" "sleep_q (sta s' j) = sleep_q (sta (unlink_sleep_q i x s) j)"
    "\<And>a. tim_has a s' = tim_has a s"
    "sleepq_ac_len (ps s' ! j) = (if j = i then sleepq_ac_len (ps s ! i) - 1 else sleepq_ac_len (ps s ! j))" for s'
  proof (rule tim_ok_mono [OF assms(1) idle_obs(1,2) [OF that(1)] idle_obs(12) [OF that(1)]])
    show "set (sleep_q (sta s' j)) \<subseteq> set (sleep_q (sta s j))"
      using set_remove1_subset [of x "sleep_q (sta s i)"] by (auto simp: that(2) sleep_q_unlink)
    show "sleepq_ac_len (ps s' ! j) = of_nat (length (sleep_q (sta s' j)))"
      if "sleepq_ac_len (ps s ! j) = of_nat (length (sleep_q (sta s j)))"
      using that c assms(3) \<open>sleepq_ac_len (ps s' ! j) = _\<close> \<open>sleep_q (sta s' j) = _\<close>
      by (cases "j = i") (simp_all add: sleep_q_unlink)
  qed (use that(3) in simp)
  moreover have "length (ps (unlink_sleep_q i x s)) = length (ps s)" "length (ps (pop_sleep_q i x s)) = length (ps s)"
    by (simp_all add: pop_sleep_q_def unlink_sleep_q_def Let_def)
  ultimately show "tim_ok (count_ac i x (unlink_sleep_q i x s)) j" "tim_ok (count_ac i x (pop_sleep_q i x s)) j"
    using l by (simp_all add: ac_len_count)
qed

section \<open>Operations\<close>

definition ap_inv :: "tx_priv \<Rightarrow> bool" where
  "ap_inv s \<longleftrightarrow> wf_tx (\<lambda>_. 0) s \<and> ap_cfg s \<and> (\<forall>j < nsta s. tim_ok s j \<and> doze_ok s j)"

lemma ap_invD:
  assumes "ap_inv s" shows "wf_tx (\<lambda>_. 0) s" "ap_cfg s" "j < nsta s \<Longrightarrow> tim_ok s j" "j < nsta s \<Longrightarrow> doze_ok s j"
  using assms by (simp_all add: ap_inv_def)

lemma ap_invI:
  assumes "ap_inv s" "idle_part s' = idle_part s" "wf_tx (\<lambda>_. 0) s'"
    "\<And>j. j < nsta s \<Longrightarrow> tim_ok s j \<Longrightarrow> doze_ok s j \<Longrightarrow> tim_ok s' j \<and> doze_ok s' j"
  shows "ap_inv s'"
  using assms(1,3,4) ap_cfg_idle [OF assms(2)] idle_obs(5) [OF assms(2)] by (simp add: ap_inv_def)

lemma legacy_iff:
  assumes "ap_cfg s" "i < nsta s"
  shows "\<not> wm_trigger i x s \<Longrightarrow> has_legacy_ac (ps s ! i)"
    "uapsd_of (ps s ! i) up AND 1 = 0 \<Longrightarrow> has_legacy_ac (ps s ! i)"
proof -
  have c: "(\<forall>up. uapsd_of (ps s ! i) up AND 1 \<noteq> 0 \<longleftrightarrow> uapsd_of (ps s ! i) up AND 2 \<noteq> 0)"
    "has_legacy_ac (ps s ! i) \<longleftrightarrow> (\<exists>up. uapsd_of (ps s ! i) up AND 1 = 0)"
    using assms unfolding ap_cfg_def by blast+
  show "\<not> wm_trigger i x s \<Longrightarrow> has_legacy_ac (ps s ! i)" using c unfolding wm_trigger_def by metis
  show "uapsd_of (ps s ! i) up AND 1 = 0 \<Longrightarrow> has_legacy_ac (ps s ! i)" using c by blast
qed

lemma pop_step:
  assumes "ap_inv s" "i < nsta s" "x \<in> set (sleep_q (sta s i))"
  shows "ap_inv (trigger_frame x (count_ac i x (pop_sleep_q i x s)))"
    "ap_inv (trigger_frame x (count_ac i x (unlink_sleep_q i x s)))"
    "aid (sta s i) = 0 \<or> has_legacy_ac (ps s ! i) \<Longrightarrow> ap_inv (trigger_frame x (pop_sleep_q i x s))"
proof -
  note d = ap_invD [OF assms(1)]
  show "ap_inv (trigger_frame x (count_ac i x (pop_sleep_q i x s)))"
    by (rule ap_invI [OF assms(1) _ wf_pop_hal(1) [OF d(1) assms(2,3)]])
      (simp_all add: tim_unlink_count(2) [OF _ d(1) assms(2,3)])
  show "ap_inv (trigger_frame x (count_ac i x (unlink_sleep_q i x s)))"
    by (rule ap_invI [OF assms(1) _ wf_pop_hal(1) [OF d(1) assms(2,3)]])
      (simp_all add: tim_unlink_count(1) [OF _ d(1) assms(2,3)])
  show "ap_inv (trigger_frame x (pop_sleep_q i x s))" if "aid (sta s i) = 0 \<or> has_legacy_ac (ps s ! i)"
    by (rule ap_invI [OF assms(1) _ wf_pop_hal(1) [OF d(1) assms(2,3)]])
      (simp_all add: tim_unlink(2) [OF _ d(1) assms(2,3)] that)
qed

lemma inv_wakeup_loop:
  assumes "ap_inv s" "i < nsta s" "mset xs \<subseteq># mset (sleep_q (sta s i))"
  shows "ap_inv (wakeup_loop i xs s)"
  using assms
proof (induction xs arbitrary: s)
  case (Cons x xs)
  let ?p = "pop_sleep_q i x s"
  let ?t = "trigger_frame x (if wm_trigger i x s then count_ac i x ?p else ?p)"
  note p = pop_step [OF Cons.prems(1,2) sub_member [OF Cons.prems(3)]]
  have "ap_inv ?t" using p(1,3) legacy_iff(1) [OF ap_invD(2) [OF Cons.prems(1)] Cons.prems(2), of x] by simp
  moreover have "nsta ?t = nsta s" by (rule idle_obs(5)) simp
  moreover have "mset xs \<subseteq># mset (sleep_q (sta ?t i))"
    using sub_remove1 [OF Cons.prems(3)] Cons.prems(2) by (simp add: sleep_q_unlink)
  ultimately show ?case using Cons.IH Cons.prems(2) by (simp add: Let_def)
qed simp

lemma wakeup_loop_empties:
  assumes "i < nsta s" "mset xs = mset (sleep_q (sta s i))"
  shows "sleep_q (sta (wakeup_loop i xs s) i) = []"
  using assms
proof (induction xs arbitrary: s)
  case (Cons x xs)
  let ?p = "pop_sleep_q i x s"
  let ?t = "trigger_frame x (if wm_trigger i x s then count_ac i x ?p else ?p)"
  have "nsta ?t = nsta s" by (rule idle_obs(5)) simp
  moreover have "mset xs = mset (sleep_q (sta ?t i))"
    using Cons.prems(1) by (simp add: sleep_q_unlink flip: Cons.prems(2))
  ultimately show ?case using Cons.IH Cons.prems(1) by (simp add: Let_def)
qed simp

lemma group_step:
  assumes "ap_inv s" "i < nsta s" "x \<in> set (sleep_q (sta s i))" "aid (sta s i) = 0"
    "t = upd_frame x (\<lambda>a. a\<lparr>xf_triggered := True\<rparr>) (pop_sleep_q i x s)"
    "t' = t \<or> t' = upd_frame x (\<lambda>a. a\<lparr>xf_qsel := 0x11\<rparr>) t"
  shows "ap_inv (hal_xmitframe_enqueue x t')"
proof -
  note d = ap_invD [OF assms(1)]
  have v: "view t' = view (unlink_sleep_q i x s)" and f: "xf_triggered (frames t' x)" and "idle_part t' = idle_part s"
    using assms(5,6) by auto
  moreover have "tim_ok t' j \<and> doze_ok t' j" if "j < nsta s" "tim_ok s j" "doze_ok s j" for j
  proof -
    have "tim_ok (pop_sleep_q i x s) j" by (rule tim_unlink(2) [OF that(2) d(1) assms(2,3)]) (use assms(4) in simp)
    then show ?thesis using that(3) assms(5,6) by auto
  qed
  ultimately show ?thesis
    by (intro ap_invI [OF assms(1) _ wf_pop_hal(2) [OF d(1) assms(2,3)]]) (auto intro: doze_hal)
qed

lemma inv_group_loop:
  assumes "ap_inv s" "i < nsta s" "mset xs \<subseteq># mset (sleep_q (sta s i))" "aid (sta s i) = 0"
  shows "ap_inv (group_loop i h xs s)"
  using assms
proof (induction xs arbitrary: s)
  case (Cons x xs)
  let ?p = "upd_frame x (\<lambda>a. a\<lparr>xf_triggered := True\<rparr>) (pop_sleep_q i x s)"
  let ?t = "if h \<and> xmitframe_hiq_filter ?p x then upd_frame x (\<lambda>a. a\<lparr>xf_qsel := 0x11\<rparr>) ?p else ?p"
  have "ap_inv (hal_xmitframe_enqueue x ?t)"
    by (rule group_step [OF Cons.prems(1,2) sub_member [OF Cons.prems(3)] Cons.prems(4) refl]) simp
  moreover have i: "idle_part (hal_xmitframe_enqueue x ?t) = idle_part s" by simp
  moreover have "mset xs \<subseteq># mset (sleep_q (sta (hal_xmitframe_enqueue x ?t) i))"
    using sub_remove1 [OF Cons.prems(3)] Cons.prems(2) by (simp add: sleep_q_unlink)
  ultimately show ?case using Cons.IH Cons.prems(2,4) idle_obs(5) [OF i] idle_obs(7) [OF i] by (simp add: Let_def)
qed simp

lemma group_loop_empties:
  assumes "i < nsta s" "mset xs = mset (sleep_q (sta s i))"
  shows "sleep_q (sta (group_loop i h xs s) i) = []"
  using assms
proof (induction xs arbitrary: s)
  case (Cons x xs)
  let ?p = "upd_frame x (\<lambda>a. a\<lparr>xf_triggered := True\<rparr>) (pop_sleep_q i x s)"
  let ?t = "hal_xmitframe_enqueue x
    (if h \<and> xmitframe_hiq_filter ?p x then upd_frame x (\<lambda>a. a\<lparr>xf_qsel := 0x11\<rparr>) ?p else ?p)"
  have "nsta ?t = nsta s" by (rule idle_obs(5)) simp
  moreover have "mset xs = mset (sleep_q (sta ?t i))"
    using Cons.prems(1) by (simp add: sleep_q_unlink flip: Cons.prems(2))
  ultimately show ?case using Cons.IH Cons.prems(1) by (simp add: Let_def)
qed simp

text \<open>A bit of the TIM is cleared when the queues it speaks for are empty.\<close>

lemma same_aid:
  assumes "ap_inv s" "i < nsta s" "linked (sta s i)" "j < nsta s" "aid (sta s j) = aid (sta s i)" "j \<noteq> i"
  shows "sleep_q (sta s j) = []"
proof (rule ccontr)
  assume "sleep_q (sta s j) \<noteq> []"
  then obtain x where "x \<in> set (sleep_q (sta s j))" by (cases "sleep_q (sta s j)") auto
  then have "routed s x j" using ap_invD(1) [OF assms(1)] assms(4) by (simp add: wf_tx_def wf_sta_def)
  then have "linked (sta s j)" by (simp add: routed_def)
  then show False using ap_invD(2) [OF assms(1)] assms(2-6) unfolding ap_cfg_def by blast
qed

lemma ap_inv_view:
  assumes "ap_inv s" "idle_part s' = idle_part s" "view s' = view s"
    "\<And>j. j < nsta s \<Longrightarrow> tim_ok s j \<Longrightarrow> doze_ok s j \<Longrightarrow> tim_ok s' j \<and> doze_ok s' j"
  shows "ap_inv s'"
  by (rule ap_invI [OF assms(1,2) _ assms(4)]) (simp_all add: wf_tx_cong [OF assms(3)] ap_invD(1) [OF assms(1)])

lemma inv_emit [simp]: "ap_inv s \<Longrightarrow> ap_inv (emit e s)"
  by (erule ap_inv_view) auto

lemma inv_is_alive [simp]: "ap_inv s \<Longrightarrow> ap_inv (is_alive i s)"
  by (erule ap_inv_view) auto

lemma inv_clear_tim:
  assumes "ap_inv s" "i < nsta s" "linked (sta s i)" "sleep_q (sta s i) = []"
  shows "ap_inv (clear_tim (aid (sta s i)) s)"
proof (rule ap_inv_view [OF assms(1)])
  show "tim_ok (clear_tim (aid (sta s i)) s) j \<and> doze_ok (clear_tim (aid (sta s i)) s) j"
    if "j < nsta s" "tim_ok s j" "doze_ok s j" for j
    using that same_aid [OF assms(1-3) that(1)] assms(4) by (cases "j = i") (auto intro: tim_clear)
qed simp_all

text \<open>The entry of group frames, also when it is not linked.\<close>

lemma bmc_aid:
  assumes "ap_inv s" "rtw_get_bcmc_stainfo (tbl s) = Some b"
  shows "b < nsta s" "aid (sta s b) = 0"
proof -
  show b: "b < nsta s" by (rule wf_bcmcD [OF ap_invD(1) [OF assms(1)] assms(2)])
  show "aid (sta s b) = 0" using ap_invD(2) [OF assms(1)] b assms(2) unfolding ap_cfg_def by blast
qed

lemma zero_aid:
  assumes "ap_inv s" "rtw_get_bcmc_stainfo (tbl s) = Some b" "j < nsta s" "aid (sta s j) = 0" "j \<noteq> b"
  shows "sleep_q (sta s j) = []"
proof (rule ccontr)
  assume "sleep_q (sta s j) \<noteq> []"
  then obtain x where "x \<in> set (sleep_q (sta s j))" by (cases "sleep_q (sta s j)") auto
  then have "routed s x j" using ap_invD(1) [OF assms(1)] assms(3) by (simp add: wf_tx_def wf_sta_def)
  then have "linked (sta s j)" by (simp add: routed_def)
  then have "rtw_get_bcmc_stainfo (tbl s) = Some j"
    using ap_invD(2) [OF assms(1)] assms(3,4) unfolding ap_cfg_def by blast
  then show False using assms(2,5) by simp
qed

lemma doze_clear_dz_0: "doze_ok s j \<Longrightarrow> doze_ok (clear_dz 0 s) j"
  by (erule doze_ok_mono) (auto simp: pending_def)

lemma inv_clear_bmc:
  assumes "ap_inv s" "rtw_get_bcmc_stainfo (tbl s) = Some b" "sleepq_len (ps s ! b) = 0"
  shows "ap_inv (clear_dz 0 (clear_tim 0 s))"
proof (rule ap_inv_view [OF assms(1)])
  have "sleep_q (sta s b) = []" by (rule sleepq_len_0 [OF ap_invD(1) [OF assms(1)] bmc_aid(1) [OF assms(1,2)] assms(3)])
  then show "tim_ok (clear_dz 0 (clear_tim 0 s)) j \<and> doze_ok (clear_dz 0 (clear_tim 0 s)) j"
    if "j < nsta s" "tim_ok s j" "doze_ok s j" for j
    using that zero_aid [OF assms(1,2) that(1)] by (cases "j = b") (simp_all add: tim_clear doze_clear_dz_0)
qed simp_all

lemma inv_leave_sleep:
  assumes "ap_inv s" "i < nsta s" "linked (sta s i)"
  shows "ap_inv (snd (leave_sleep i s))"
proof (cases "sleepq_len (ps s ! i) = 0")
  case True
  let ?a = "aid (sta s i)"
  let ?u = "upd_ps i (\<lambda>p. p\<lparr>asleep := False\<rparr>) (clear_tim ?a s)"
  have "sleep_q (sta s i) = []" by (rule sleepq_len_0 [OF ap_invD(1) [OF assms(1)] assms(2) True])
  then have c: "ap_inv (clear_tim ?a s)" by (rule inv_clear_tim [OF assms])
  have "ap_inv (clear_dz ?a (is_alive i ?u))"
  proof (rule ap_inv_view [OF c])
    fix j
    assume j: "j < nsta (clear_tim ?a s)" "tim_ok (clear_tim ?a s) j" "doze_ok (clear_tim ?a s) j"
    have l: "i < length (ps s)" using ap_invD(1) [OF assms(1)] assms(2) by (simp add: wf_tx_def)
    have "\<forall>i < nsta s. \<forall>j < nsta s. linked (sta s i) \<and> linked (sta s j) \<and> aid (sta s i) = aid (sta s j) \<longrightarrow> i = j"
      using ap_invD(2) [OF assms(1)] unfolding ap_cfg_def by blast
    moreover have "j < nsta s" using j(1) by simp
    ultimately have other: "aid (sta s j) \<noteq> ?a" if "j \<noteq> i" "linked (sta s j)" using assms(2,3) that by metis
    have "doze_ok (clear_dz ?a (is_alive i ?u)) j"
      by (rule doze_ok_mono [OF j(3)])
        (use other l in \<open>auto simp: ps_upd_ps pending_def split: if_splits\<close>)
    moreover have "tim_ok ?u j" by (rule tim_keep [OF j(2)]) (auto simp: ps_upd_ps)
    ultimately show "tim_ok (clear_dz ?a (is_alive i ?u)) j \<and> doze_ok (clear_dz ?a (is_alive i ?u)) j" by simp
  qed simp_all
  then show ?thesis using True by (simp add: leave_sleep_def Let_def)
qed (use assms in \<open>simp add: leave_sleep_def\<close>)

lemma inv_wake_group:
  assumes "ap_inv s" "rtw_get_bcmc_stainfo (tbl s) = Some b"
  shows "ap_inv (snd (wake_group b s))"
proof -
  let ?g = "group_loop b False (sleep_q (sta s b)) s"
  have g: "ap_inv ?g" by (rule inv_group_loop [OF assms(1) bmc_aid(1) [OF assms] _ bmc_aid(2) [OF assms]]) simp
  have "rtw_get_bcmc_stainfo (tbl ?g) = Some b" using assms(2) idle_obs(10) [of ?g s] by simp
  then show ?thesis using g assms(1) inv_clear_bmc [OF g] by (simp add: wake_group_def Let_def)
qed

lemma inv_wakeup:
  assumes "ap_inv s" "i < nsta s" "linked (sta s i)"
  shows "ap_inv (wakeup_sta_to_xmit i s)"
proof -
  let ?w = "wakeup_loop i (sleep_q (sta s i)) s"
  have w: "ap_inv ?w" by (rule inv_wakeup_loop [OF assms(1,2)]) simp
  have l: "ap_inv (snd (leave_sleep i ?w))"
    by (rule inv_leave_sleep [OF w]) (use assms idle_obs(5,8) [of ?w s] in simp_all)
  let ?g = "case rtw_get_bcmc_stainfo (tbl s) of None \<Rightarrow> (False, snd (leave_sleep i ?w))
    | Some b \<Rightarrow> wake_group b (snd (leave_sleep i ?w))"
  have "rtw_get_bcmc_stainfo (tbl (snd (leave_sleep i ?w))) = rtw_get_bcmc_stainfo (tbl s)"
    by (rule idle_obs(10)) simp
  then have "ap_inv (snd ?g)" using l inv_wake_group [OF l] by (auto split: option.split)
  then show ?thesis by (simp add: wakeup_sta_to_xmit_def Let_def case_prod_beta)
qed

lemma inv_delivery_loop:
  assumes "ap_inv s" "i < nsta s" "mset xs \<subseteq># mset (sleep_q (sta s i))" "linked (sta s i)" "aid (sta s i) \<noteq> 0"
  shows "ap_inv (delivery_loop i xs s)"
  using assms
proof (induction xs arbitrary: s)
  case (Cons x xs)
  show ?case
  proof (cases "wm_trigger i x s")
    case True
    let ?t = "trigger_frame x (count_ac i x (unlink_sleep_q i x s))"
    let ?e = "if sleepq_ac_len (ps ?t ! i) = 0 \<and> \<not> has_legacy_ac (ps ?t ! i)
      then emit UpdateBeacon (clear_tim (aid (sta ?t i)) ?t) else ?t"
    have t: "ap_inv ?t" by (rule pop_step(2) [OF Cons.prems(1,2) sub_member [OF Cons.prems(3)]])
    have it: "idle_part ?t = idle_part s" by simp
    have n: "i < nsta ?t" "linked (sta ?t i)" "aid (sta ?t i) \<noteq> 0" using Cons.prems idle_obs(5,7,8) [OF it] by simp_all
    have "sleep_q (sta ?t i) = []" if "sleepq_ac_len (ps ?t ! i) = 0 \<and> \<not> has_legacy_ac (ps ?t ! i)"
      by (rule of_nat_len_0 [OF ap_invD(1) [OF t] n(1)]) (use ap_invD(3) [OF t n(1)] that n in \<open>simp add: tim_ok_def\<close>)
    then have "ap_inv ?e" using t inv_clear_tim [OF t n(1,2)] by simp
    moreover have ie: "idle_part ?e = idle_part s" by simp
    moreover have "mset xs \<subseteq># mset (sleep_q (sta ?e i))"
      using sub_remove1 [OF Cons.prems(3)] Cons.prems(2) by (simp add: sleep_q_unlink)
    ultimately have "ap_inv (delivery_loop i xs ?e)"
      using Cons.prems(2,4,5) idle_obs(5,7,8) [OF ie] by (intro Cons.IH) simp_all
    then show ?thesis using True by (simp add: Let_def)
  next
    case False
    have "mset xs \<subseteq># mset (x # xs)" by simp
    then have "mset xs \<subseteq># mset (sleep_q (sta s i))" using Cons.prems(3) by (rule subset_mset.order_trans)
    then show ?thesis using Cons False by simp
  qed
qed simp

lemma inv_delivery:
  "ap_inv s \<Longrightarrow> i < nsta s \<Longrightarrow> linked (sta s i) \<Longrightarrow> aid (sta s i) \<noteq> 0 \<Longrightarrow> ap_inv (xmit_delivery_enabled_frames i s)"
  unfolding xmit_delivery_enabled_frames_def by (rule inv_delivery_loop) simp_all

lemma inv_pspoll:
  assumes "ap_inv s" "i < nsta s" "linked (sta s i)"
  shows "ap_inv (pspoll i a pr s)"
proof (cases "uapsd_of (ps s ! i) pr AND 1 \<noteq> 0")
  case False
  let ?s = "is_alive i s"
  have s: "ap_inv ?s" using assms(1) by simp
  have i: "i < nsta ?s" "linked (sta ?s i)" using assms by simp_all
  have wi: "sleepq_len (ps ?s ! i) = of_nat (length (sleep_q (sta ?s i)))"
    using ap_invD(1) [OF s] i(1) by (simp add: wf_tx_def wf_sta_def)
  have lg: "has_legacy_ac (ps ?s ! i)"
    using legacy_iff(2) [OF ap_invD(2) [OF assms(1)] assms(2), of pr] False by simp
  show ?thesis
  proof (cases "sleep_q (sta s i)")
    case Nil
    have "ap_inv (emit (NullData i) ?s)" using s by simp
    from inv_clear_tim [OF this] i Nil have "ap_inv (clear_tim (aid (sta s i)) (emit (NullData i) ?s))" by simp
    then show ?thesis using Nil wi s assms(1) by (auto simp: pspoll_def Let_def)
  next
    case (Cons x xs)
    let ?t = "trigger_frame x (pop_sleep_q i x ?s)"
    have t: "ap_inv ?t" by (rule pop_step(3) [OF s i(1)]) (use Cons lg in simp_all)
    have it: "idle_part ?t = idle_part s" by simp
    have n: "i < nsta ?t" "linked (sta ?t i)" "aid (sta ?t i) = aid (sta s i)"
      using assms idle_obs(5,7,8) [OF it] by simp_all
    have "ap_inv (clear_tim (aid (sta s i)) ?t)" if "sleepq_len (ps ?t ! i) = 0"
      using inv_clear_tim [OF t n(1,2) sleepq_len_0 [OF ap_invD(1) [OF t] n(1) that]] n(3) by simp
    then show ?thesis using t Cons assms(1) by (auto simp: pspoll_def Let_def)
  qed
qed (use assms in \<open>simp add: pspoll_def\<close>)

lemma inv_chk_bmc:
  assumes "ap_inv s" shows "ap_inv (chk_bmc_sleepq_hdl s)"
proof (cases "rtw_get_bcmc_stainfo (tbl s)")
  case (Some b)
  let ?g = "group_loop b True (sleep_q (sta s b)) s"
  have "ap_inv ?g" by (rule inv_group_loop [OF assms bmc_aid(1) [OF assms Some] _ bmc_aid(2) [OF assms Some]]) simp
  then show ?thesis using Some assms by (simp add: chk_bmc_sleepq_hdl_def)
qed (use assms in \<open>simp add: chk_bmc_sleepq_hdl_def\<close>)

lemma inv_chk_hi: "ap_inv s \<Longrightarrow> ap_inv (rtw_chk_hi_queue_hdl e s)"
  using inv_clear_bmc [of s] by (auto simp: rtw_chk_hi_queue_hdl_def Let_def split: option.split)

text \<open>A frame is buffered, or not.\<close>

lemma tim_enqueue:
  assumes "xmitframe_enqueue_for_sleeping_sta x s = (ret, s')" "ap_cfg s" "wf_tx out s" "tim_ok s j"
  shows "tim_ok s' j"
  using assms(1)
  by (cases rule: enqueue_cases) (simp_all add: tim_group tim_unicast assms(2-4) tim_group [OF assms(4,2,3)] tim_unicast [OF assms(4,2,3)])

lemma doze_enqueue:
  assumes "xmitframe_enqueue_for_sleeping_sta x s = (ret, s')" "doze_ok s j"
  shows "doze_ok s' j"
  by (rule doze_ok_mono [OF assms(2)]) (use enqueue_keeps [OF assms(1)] in simp_all)

lemma pcfg_enqueue:
  assumes "xmitframe_enqueue_for_sleeping_sta x s = (ret, s')"
  shows "pcfg (ps s' ! k) = pcfg (ps s ! k)"
  using assms
  by (cases rule: enqueue_cases)
    (simp_all add: enqueue_unicast_def enqueue_group_def push_sleep_q_def Let_def ps_upd_ps)

lemma ap_cfg_enqueue:
  assumes "xmitframe_enqueue_for_sleeping_sta x s = (ret, s')" shows "ap_cfg s' = ap_cfg s"
  by (rule ap_cfg_cong [OF enqueue_keeps(1,3) [OF assms] pcfg_enqueue [OF assms]])

text \<open>A frame leaves a pending queue.\<close>

lemma idle_relink [simp]: "idle_part (relink i ac q d s) = idle_part s"
  by (simp add: idle_part_def)

lemma tim_relink [simp]: "tim_ok s j \<Longrightarrow> tim_ok (relink i ac q d s) j"
  by (erule tim_keep) simp_all

lemma doze_relink:
  assumes "doze_ok s j" "set q \<subseteq> set (pending s i ac)"
  shows "doze_ok (relink i ac q d s) j"
  by (rule doze_ok_mono [OF assms(1)]) (use assms(2) in \<open>auto simp: pending_relink split: if_splits\<close>)

lemma idle_sched [simp]: "idle_part (set_sta_queue ac q s) = idle_part s"
  by (simp add: idle_part_def)

lemma sched_ok [simp]:
  "tim_ok s j \<Longrightarrow> tim_ok (set_sta_queue ac q s) j" "doze_ok s j \<Longrightarrow> doze_ok (set_sta_queue ac q s) j"
  by (erule tim_keep; simp) (erule doze_ok_mono; auto)

lemma loop_step_safe:
  assumes "wf_tx out s" "ap_cfg s" "i < nsta s" "q < 4" "x \<in> set (pending s i q)"
  shows "ap_cfg (loop_step i q x s)" "tim_ok s j \<Longrightarrow> tim_ok (loop_step i q x s) j"
    "doze_ok s j \<Longrightarrow> j < nsta s \<Longrightarrow> j \<noteq> i \<or> aid (sta s i) = 0 \<Longrightarrow> doze_ok (loop_step i q x s) j"
proof -
  let ?t = "upd_frame x (\<lambda>a. a\<lparr>xf_triggered := False\<rparr>) s"
  obtain ret s1 where e: "xmitframe_enqueue_for_sleeping_sta x ?t = (ret, s1)"
    and l: "loop_step i q x s = (if ret then relink i q (remove1 x (pending s i q)) (- 1) s1 else s1)"
    using loop_step_cases [OF assms(1,3-5)] .
  have wt: "wf_tx out ?t" and ct: "ap_cfg ?t"
    using assms(1,2) wf_tx_cong [of ?t s] ap_cfg_idle [of ?t s] by simp_all
  have c: "ap_cfg s1" using ct ap_cfg_enqueue [OF e] by simp
  show "ap_cfg (loop_step i q x s)" using c ap_cfg_idle [OF idle_relink] by (simp add: l)
  show "tim_ok (loop_step i q x s) j" if "tim_ok s j"
    using tim_enqueue [OF e ct wt] that by (simp add: l)
  show "doze_ok (loop_step i q x s) j" if "doze_ok s j" "j < nsta s" "j \<noteq> i \<or> aid (sta s i) = 0"
  proof -
    have "x \<notin> set (pending s j ac)" if "ac < 4" "j \<noteq> i" for ac
      using wf_pendingD(1) [OF assms(1) \<open>j < nsta s\<close> that(1), of x] wf_pendingD(1) [OF assms(1,3-5)] routed_unique that(2) by blast
    then have "doze_ok ?t j" using that(1,3) by (cases "j = i") (auto simp: doze_ok_def)
    from doze_enqueue [OF e this] have "doze_ok s1 j" .
    moreover have "set (remove1 x (pending s i q)) \<subseteq> set (pending s1 i q)"
      using set_remove1_subset [of x] enqueue_keeps(4) [OF e] by simp
    ultimately show ?thesis using doze_relink by (simp add: l)
  qed
qed

lemma dequeue_loop_safe:
  assumes "wf_tx out s" "ap_cfg s" "i < nsta s" "q < 4" "mset xs \<subseteq># mset (pending s i q)"
  shows "ap_cfg (dequeue_loop i q xs s) \<and> (tim_ok s j \<longrightarrow> tim_ok (dequeue_loop i q xs s) j)
    \<and> (doze_ok s j \<and> j < nsta s \<and> (j \<noteq> i \<or> aid (sta s i) = 0) \<longrightarrow> doze_ok (dequeue_loop i q xs s) j)"
  using assms
proof (induction xs arbitrary: s)
  case (Cons x xs)
  have x: "x \<in> set (pending s i q)" using mset_subset_eqD [OF Cons.prems(5), of x] by simp
  note l = loop_step_keeps [OF Cons.prems(1,3,4) x] and f = loop_step_safe [OF Cons.prems(1-4) x]
  have "i < nsta (loop_step i q x s)" using Cons.prems(3) table_obs(1) [OF l(2)] by simp
  from Cons.IH [OF l(1) f(1) this Cons.prems(4) l(9) [OF Cons.prems(5)]] show ?case
    unfolding dequeue_loop_step table_obs(1,4) [OF l(2)] using f(2,3) by blast
qed simp

lemma stop_queue_safe:
  assumes "wf_tx out s" "ap_cfg s" "i < nsta s" "q < 4"
  shows "ap_cfg (stop_queue i q s)" "tim_ok s j \<Longrightarrow> tim_ok (stop_queue i q s) j"
    "doze_ok s j \<Longrightarrow> j < nsta s \<Longrightarrow> j \<noteq> i \<or> aid (sta s i) = 0 \<Longrightarrow> doze_ok (stop_queue i q s) j"
  using dequeue_loop_safe [OF assms subset_mset.order_refl, of j] ap_cfg_idle [OF idle_sched]
  by (simp_all add: stop_queue_def dequeue_xmitframes_to_sleeping_queue_def Let_def)

lemma doze_stopped:
  assumes "\<forall>ac < 4. pending s i ac = []" "dz_has (aid (sta s i)) s" shows "doze_ok s i"
  using assms by (simp add: doze_ok_def)

lemma inv_stop:
  assumes "ap_inv s" "i < nsta s" "linked (sta s i)" "aid (sta s i) \<noteq> 0" "stop_sta_xmit i s = Some s'"
  shows "ap_inv s'" "\<forall>ac < 4. pending s' i ac = []"
proof -
  note d = ap_invD [OF assms(1)]
  obtain b where b: "rtw_get_bcmc_stainfo (tbl s) = Some b" using assms(5) by (auto simp: stop_sta_xmit_def split: option.splits)
  let ?s0 = "set_dz (aid (sta s i)) (upd_ps i (\<lambda>p. p\<lparr>asleep := True\<rparr>) s)"
  let ?s1 = "stop_queue i 0 ?s0" let ?s2 = "stop_queue i 1 ?s1" let ?s3 = "stop_queue i 2 ?s2" let ?s4 = "stop_queue i 3 ?s3"
  have s': "s' = stop_queue b 2 ?s4" using assms(5) b by (simp add: stop_sta_xmit_def Let_def)
  have bi: "b \<noteq> i" using bmc_aid(2) [OF assms(1) b] assms(4) by auto
  have lp: "length (ps s) = nsta s" using d(1) by (simp add: wf_tx_def)
  have a16: "aid (sta s i) < 16" "check_fwstate (fw_state s) WIFI_AP_STATE"
    using d(2) assms(2) unfolding ap_cfg_def by blast+
  define Q where "Q t \<longleftrightarrow> wf_tx (\<lambda>_. 0) t \<and> ap_cfg t \<and> table t = table s \<and> buffers t i \<and> buffers t b
    \<and> (\<forall>j < nsta s. tim_ok t j) \<and> (\<forall>j < nsta s. j \<noteq> i \<longrightarrow> doze_ok t j) \<and> dz_has (aid (sta s i)) t" for t
  have Q0: "Q ?s0"
  proof -
    have "tim_ok ?s0 j \<and> (j \<noteq> i \<longrightarrow> doze_ok ?s0 j)" if j: "j < nsta s" for j
    proof
      have "tim_ok (upd_ps i (\<lambda>p. p\<lparr>asleep := True\<rparr>) s) j" by (rule tim_keep [OF d(3) [OF j]]) (simp_all add: ps_upd_ps)
      then show "tim_ok ?s0 j" by simp
      show "j \<noteq> i \<longrightarrow> doze_ok ?s0 j"
        by (intro impI doze_ok_mono [OF d(4) [OF j]]) (auto simp: ps_upd_ps pending_def)
    qed
    moreover have "wf_tx (\<lambda>_. 0) ?s0" "ap_cfg ?s0" using d(1,2) wf_tx_cong [of ?s0 s] ap_cfg_idle [of ?s0 s] by simp_all
    moreover have "buffers ?s0 i" "buffers ?s0 b"
      using bcmc_mcast [of ?s0 b] b lp a16 assms(2) by (auto simp: buffers_def ps_upd_ps routed_def)
    ultimately show ?thesis using a16 by (simp add: Q_def)
  qed
  have step: "Q (stop_queue k q t) \<and> pending (stop_queue k q t) k q = []
      \<and> (\<forall>j c. j \<noteq> k \<or> c \<noteq> q \<longrightarrow> pending (stop_queue k q t) j c = pending t j c)"
    if "Q t" "q < 4" "k = i \<or> k = b" for t q k
  proof -
    have q: "wf_tx (\<lambda>_. 0) t" "ap_cfg t" "table t = table s" "buffers t i" "buffers t b" "dz_has (aid (sta s i)) t"
      "\<And>j. j < nsta s \<Longrightarrow> tim_ok t j" "\<And>j. j < nsta s \<Longrightarrow> j \<noteq> i \<Longrightarrow> doze_ok t j" using that(1) by (simp_all add: Q_def)
    have k: "k < nsta t" "buffers t k" "k \<noteq> i \<Longrightarrow> aid (sta t k) = 0"
      using that(3) assms(2) bmc_aid [OF assms(1) b] q(4,5) table_obs(1,4) [OF q(3)] by auto
    note sk = stop_queue_keeps [OF q(1) k(1) that(2) k(2)] and sf = stop_queue_safe [OF q(1,2) k(1) that(2)]
    have "doze_ok (stop_queue k q t) j" if "j < nsta s" "j \<noteq> i" for j
      using sf(3) [OF q(8) [OF that]] that k(3) table_obs(1) [OF q(3)] by (cases "k = i") auto
    then show ?thesis using sk sf(1,2) q by (simp add: Q_def)
  qed
  have s1: "Q ?s1" "pending ?s1 i 0 = []" using step [OF Q0, of 0 i] by simp_all
  have s2: "Q ?s2" "pending ?s2 i 0 = []" "pending ?s2 i 1 = []" using step [OF s1(1), of 1 i] s1 by simp_all
  have s3: "Q ?s3" "pending ?s3 i 0 = []" "pending ?s3 i 1 = []" "pending ?s3 i 2 = []"
    using step [OF s2(1), of 2 i] s2 by simp_all
  have s4: "Q ?s4" "pending ?s4 i 0 = []" "pending ?s4 i 1 = []" "pending ?s4 i 2 = []" "pending ?s4 i 3 = []"
    using step [OF s3(1), of 3 i] s3 by simp_all
  have Q': "Q s'" using step [OF s4(1), of 2 b] by (simp add: s')
  have p: "pending s' i ac = []" if "ac < 4" for ac
  proof -
    have "ac = 0 \<or> ac = 1 \<or> ac = 2 \<or> ac = 3" using that by auto
    then have "pending ?s4 i ac = []" using s4(2-5) by auto
    then show ?thesis using step [OF s4(1), of 2 b] bi by (simp add: s')
  qed
  then show "\<forall>ac < 4. pending s' i ac = []" by simp
  have t: "table s' = table s" using Q' by (simp add: Q_def)
  have "doze_ok s' i" using p Q' table_obs(4) [OF t] by (intro doze_stopped) (simp_all add: Q_def)
  then have "doze_ok s' j" if "j < nsta s" for j using that Q' by (cases "j = i") (simp_all add: Q_def)
  then show "ap_inv s'" using Q' table_obs(1) [OF t] by (simp add: ap_inv_def Q_def)
qed

section \<open>The steps of an access point\<close>

definition associated :: "tx_priv \<Rightarrow> nat \<Rightarrow> bool" where
  "associated s i \<longleftrightarrow> i < nsta s \<and> linked (sta s i) \<and> aid (sta s i) \<noteq> 0"

text \<open>A frame of the network stack is sent, the scheduler hands a frame to the chip, the chip is done with
  one, a data frame or a control frame of an associated station is received, the work of the command thread is
  done, the state of the interface changes. The table of stations stays as it is: no station is associated or released in a run. The
  code takes the frames of any station that has an entry (\<open>sta2ap_data_frame\<close>), associated or not; what those of a station without
  association can do is in \<open>unassociated_wakeup_hides_group_frames\<close>.\<close>

inductive ap_step :: "tx_priv \<Rightarrow> tx_priv \<Rightarrow> bool" where
  submit: "rtw_alloc_xmitframe s = (Some x, s1) \<Longrightarrow> \<not> xf_triggered a \<Longrightarrow>
    ap_step s (rtw_xmit_frame xmitbuf_ok direct_ok x (upd_frame x (\<lambda>_. a) s1))"
| schedule: "set inx \<subseteq> {..<4} \<Longrightarrow> rtw_dequeue_xframe inx s = Some (x, s1) \<Longrightarrow> ap_step s (to_flight x s1)"
| complete: "x \<in> set (in_flight s) \<Longrightarrow> ap_step s (rtw_free_xmitframe x (s\<lparr>in_flight := remove1 x (in_flight s)\<rparr>))"
| pwrbit: "(\<forall>i. get_sta s src = Some i \<longrightarrow> associated s i) \<Longrightarrow> process_pwrbit_data src p s = Some s1 \<Longrightarrow> ap_step s s1"
| wmmps: "(\<forall>i. get_sta s src = Some i \<longrightarrow> associated s i) \<Longrightarrow> ap_step s (process_wmmps_data src pr s)"
| control: "(\<forall>a2 i. rdn pframe 10 6 = Some a2 \<and> get_sta s a2 = Some i \<longrightarrow> associated s i) \<Longrightarrow>
    validate_recv_ctrl_frame myid pframe pr s = Some s1 \<Longrightarrow> ap_step s s1"
| bmc: "ap_step s (chk_bmc_sleepq_hdl s)"
| hiq: "ap_step s (rtw_chk_hi_queue_hdl is_empty s)"
| state: "check_fwstate f WIFI_AP_STATE \<Longrightarrow> ap_step s (s\<lparr>fw_state := f, hiq_filter := h, max_expire := e\<rparr>)"

text \<open>The start: every frame is free, no station sleeps.\<close>

definition ap_start :: "tx_priv \<Rightarrow> bool" where
  "ap_start s \<longleftrightarrow> ap_cfg s \<and> length (ps s) = nsta s \<and> length (sta_queue s) = 4
     \<and> (\<forall>a i. get_sta s a = Some i \<longrightarrow> i < nsta s)
     \<and> (\<forall>i < nsta s. sta_pending (sta s i) = replicate 4 [] \<and> qcnt (sta s i) = replicate 4 0 \<and> sleep_q (sta s i) = []
          \<and> sleepq_len (ps s ! i) = 0 \<and> sleepq_ac_len (ps s ! i) = 0 \<and> \<not> asleep (ps s ! i))
     \<and> sta_queue s = replicate 4 [] \<and> mset (free_xmit_queue s) = all_frames \<and> in_flight s = []"

inductive ap_reachable :: "tx_priv \<Rightarrow> bool" where
  init: "ap_start s \<Longrightarrow> ap_reachable s"
| step: "ap_reachable s \<Longrightarrow> ap_step s s' \<Longrightarrow> ap_reachable s'"

lemma inv_start:
  assumes "ap_start s" shows "ap_inv s"
proof -
  have p: "pending s i ac = []" if "i < nsta s" "ac < 4" for i ac
    using assms that by (simp add: ap_start_def pending_def)
  have 4: "replicate 4 [] = [[], [], [], [] :: nat list]" by (simp add: numeral_eq_Suc)
  have "(\<Sum>i<nsta s. mset (sleep_q (sta s i)) + mset (concat (sta_pending (sta s i)))) = {#}"
    using assms by (intro sum.neutral) (auto simp: ap_start_def 4)
  then have "held s = all_frames" using assms by (simp add: held_def ap_start_def)
  moreover have "wf_sta s i" if "i < nsta s" for i
    using assms that p by (simp add: wf_sta_def ap_start_def)
  moreover have "tim_ok s j \<and> doze_ok s j" if "j < nsta s" for j
    using assms that by (simp add: tim_ok_def doze_ok_def ap_start_def)
  ultimately show ?thesis using assms p by (simp add: ap_inv_def wf_tx_def ap_start_def)
qed

text \<open>A frame in hand is in no queue, and may be written.\<close>

lemma in_hand:
  assumes "wf_tx (give x (\<lambda>_. 0)) s" "i < nsta s"
  shows "x \<notin> set (sleep_q (sta s i))" "x \<notin> set (pending s i ac) \<or> 4 \<le> ac"
proof -
  have "\<forall>y. int (count (held s) y) + give x (\<lambda>_. 0) y = int (count all_frames y)"
    using assms(1) by (simp add: wf_tx_def)
  from spec [OF this, of x] have "int (count (held s) x) + 1 = int (count all_frames x)" by (simp add: give_def)
  moreover have "count all_frames x \<le> 1" using distinct_count_atmost_1 [of "[0..<NR_XMITFRAME]"] by (simp add: all_frames_def)
  ultimately have "x \<notin># held s" by (simp add: not_in_iff)
  moreover have "set_mset (held s) \<supseteq> set (sleep_q (sta s i)) \<union> \<Union> (set ` set (sta_pending (sta s i)))"
    using assms(2) by (auto simp: held_def sum.remove [of "{..<nsta s}" i])
  moreover have "set (pending s i ac) \<subseteq> \<Union> (set ` set (sta_pending (sta s i)))" if "ac < 4"
    using assms that by (fastforce simp: wf_tx_def wf_sta_def pending_def)
  ultimately show "x \<notin> set (sleep_q (sta s i))" "x \<notin> set (pending s i ac) \<or> 4 \<le> ac"
    by (auto simp: not_less [symmetric])
qed

lemma wf_write:
  assumes "wf_tx (give x (\<lambda>_. 0)) s" shows "wf_tx (give x (\<lambda>_. 0)) (upd_frame x h s)"
proof -
  let ?s = "upd_frame x h s"
  have r: "routed ?s y i = routed s y i" if "y \<noteq> x" for y i using that by (simp add: routed_def)
  have "wf_sta ?s i" if i: "i < nsta s" for i
  proof -
    have w: "wf_sta s i" using assms i by (simp add: wf_tx_def)
    have "y \<noteq> x" if "y \<in> set (pending s i ac)" "ac < 4" for y ac using in_hand(2) [OF assms i, of ac] that by auto
    moreover have "y \<noteq> x" if "y \<in> set (sleep_q (sta s i))" for y using in_hand(1) [OF assms i] that by auto
    ultimately show ?thesis using w r by (simp add: wf_sta_def)
  qed
  moreover have "held ?s = held s" by (simp add: held_def)
  ultimately show ?thesis using assms by (simp add: wf_tx_def)
qed

lemma safe_write:
  assumes "wf_tx (give x (\<lambda>_. 0)) s" "j < nsta s" "tim_ok s j" "doze_ok s j"
  shows "tim_ok (upd_frame x h s) j" "doze_ok (upd_frame x h s) j"
proof -
  let ?s = "upd_frame x h s"
  have "y \<noteq> x" if "y \<in> set (sleep_q (sta s j))" for y using in_hand(1) [OF assms(1,2)] that by auto
  then show "tim_ok ?s j" using assms(3) by (simp add: tim_ok_def announced_def)
  have "y \<noteq> x" if "y \<in> set (pending s j ac)" "ac < 4" for y ac using in_hand(2) [OF assms(1,2), of ac] that by auto
  then show "doze_ok ?s j" using assms(4) by (simp add: doze_ok_def)
qed

lemma inv_alloc:
  assumes "ap_inv s" "rtw_alloc_xmitframe s = (Some x, s1)"
  shows "wf_tx (give x (\<lambda>_. 0)) s1" "ap_cfg s1" "nsta s1 = nsta s" "j < nsta s \<Longrightarrow> tim_ok s1 j \<and> doze_ok s1 j"
proof -
  note d = ap_invD [OF assms(1)]
  obtain q where q: "free_xmit_queue s = x # q"
    using assms(2) by (auto simp: rtw_alloc_xmitframe_def split: list.splits)
  define t where "t = s\<lparr>free_xmit_queue := q, free_xmitframe_cnt := free_xmitframe_cnt s - 1\<rparr>"
  have s1: "s1 = upd_frame x (\<lambda>_. init_xframe) t"
    using assms(2) by (simp add: rtw_alloc_xmitframe_def q t_def)
  have k: "sta t = sta s" "table t = table s" "ps t = ps s" "fkey t = fkey s" "sta_queue t = sta_queue s"
    "frames t = frames s" "pending t = pending s" "tim_has a t = tim_has a s" "dz_has a t = dz_has a s" "fw_state t = fw_state s" "in_flight t = in_flight s"
    "free_xmit_queue t = q" for a
    by (simp_all add: t_def fun_eq_iff sta_def table_def nsta_def get_sta_def fkey_def pending_def tim_has_def dz_has_def)
  have it: "idle_part t = idle_part s" by (simp add: idle_part_def k)
  have hs: "held s = add_mset x (held t)"
    using table_obs(1) [OF k(2)] by (simp add: held_def q k)
  have hc: "int (count (held t) y) + give x (\<lambda>_. 0) y = int (count (held s) y)" for y
    unfolding hs by (simp add: give_def)
  have ws: "wf_sta t i = wf_sta s i" for i by (rule wf_sta_cong) (simp_all add: k)
  have w: "wf_tx (give x (\<lambda>_. 0)) t"
    using d(1) by (simp add: wf_tx_def k ws hc table_obs [OF k(2)])
  have c: "ap_cfg t" using d(2) ap_cfg_idle [OF it] by simp
  have tj: "tim_ok t j \<and> doze_ok t j" if "j < nsta s" for j
    using tim_keep [OF d(3) [OF that] it] doze_ok_mono [OF d(4) [OF that] k(2)] by (simp add: k)
  show "nsta s1 = nsta s" using table_obs(1) [OF k(2)] by (simp add: s1)
  show "wf_tx (give x (\<lambda>_. 0)) s1" unfolding s1 by (rule wf_write [OF w])
  show "ap_cfg s1" using c by (simp add: s1 ap_cfg_cong [of "upd_frame x (\<lambda>_. init_xframe) t" t])
  show "tim_ok s1 j \<and> doze_ok s1 j" if "j < nsta s"
    using safe_write [OF w, of j] tj [OF that] that table_obs(1) [OF k(2)] by (simp add: s1)
qed

lemma to_flight_safe [simp]: "tim_ok s j \<Longrightarrow> tim_ok (to_flight x s) j" "doze_ok s j \<Longrightarrow> doze_ok (to_flight x s) j"
  by (erule tim_ok_mono; simp) (erule doze_ok_mono; simp add: pending_def)

lemma free_safe [simp]:
  "tim_ok s j \<Longrightarrow> tim_ok (rtw_free_xmitframe x s) j" "doze_ok s j \<Longrightarrow> doze_ok (rtw_free_xmitframe x s) j"
  by (erule tim_ok_mono; simp) (erule doze_ok_mono; simp)

lemma nsta_to_flight [simp]: "nsta (to_flight x s) = nsta s" by (rule table_obs(1)) simp

lemma inv_pre:
  assumes "wf_tx (give x (\<lambda>_. 0)) s" "ap_cfg s" "\<And>j. j < nsta s \<Longrightarrow> tim_ok s j \<and> doze_ok s j"
    "\<And>j. xf_triggered (frames s x) \<or> \<not> (routed s x j \<and> aid (sta s j) \<noteq> 0 \<and> asleep (ps s ! j))"
  shows "ap_inv (pre_xmitframe b d x s)"
proof -
  have c: "ap_cfg (hal_xmitframe_enqueue x s)" "ap_cfg (to_flight x s)" "ap_cfg (rtw_free_xmitframe x s)"
    by (simp_all add: assms(2) ap_cfg_cong [of "hal_xmitframe_enqueue x s" s] ap_cfg_cong [of "to_flight x s" s]
        ap_cfg_cong [of "rtw_free_xmitframe x s" s])
  have n: "nsta (hal_xmitframe_enqueue x s) = nsta s" by (rule table_obs(1)) simp
  have "doze_ok (hal_xmitframe_enqueue x s) j" if "j < nsta s" for j
    by (rule doze_hal) (use assms(3) [OF that] assms(4) [of j] in auto)
  then show ?thesis using wf_pre [OF assms(1), of b d] assms(3) c n
    by (auto simp: pre_xmitframe_def ap_inv_def to_flight_def [symmetric])
qed

lemma inv_xmit:
  assumes "wf_tx (give x (\<lambda>_. 0)) s" "ap_cfg s" "\<And>j. j < nsta s \<Longrightarrow> tim_ok s j \<and> doze_ok s j"
    "\<not> xf_triggered (frames s x)"
  shows "ap_inv (rtw_xmit_frame b d x s)"
proof -
  obtain ret s' where e: "xmitframe_enqueue_for_sleeping_sta x s = (ret, s')" by fastforce
  show ?thesis
  proof (cases ret)
    case True
    have "wf_tx (\<lambda>_. 0) s'" using wf_enqueue [OF assms(1) e] True by simp
    moreover have "nsta s' = nsta s" by (rule table_obs(1) [OF enqueue_keeps(1) [OF e]])
    ultimately show ?thesis using True assms(2,3) ap_cfg_enqueue [OF e] tim_enqueue [OF e assms(2,1)] doze_enqueue [OF e]
      by (simp add: rtw_xmit_frame_def e ap_inv_def)
  next
    case False
    then have s': "s' = s" using e assms(4) by (auto elim: enqueue_cases)
    have "\<not> (aid (sta s j) \<noteq> 0 \<and> asleep (ps s ! j))" if r: "routed s x j" for j
    proof
      assume a: "aid (sta s j) \<noteq> 0 \<and> asleep (ps s ! j)"
      have j: "j < nsta s" by (rule wf_routedD [OF assms(1) r])
      have "linked (sta s j)" using r by (simp add: routed_def)
      then have dz: "dz_has (aid (sta s j)) s" using assms(3) [OF j] a by (simp add: doze_ok_def)
      then have "sta_dz_bitmap (tbl s) \<noteq> 0" by (auto simp: dz_has_def)
      moreover have "check_fwstate (fw_state s) WIFI_AP_STATE" using assms(2) unfolding ap_cfg_def by blast
      ultimately have "fst (xmitframe_enqueue_for_sleeping_sta x s)" using enqueue_success [OF _ r assms(4)] a dz by simp
      then show False using e False by simp
    qed
    then show ?thesis using inv_pre [OF assms(1-3), of b d] False by (auto simp: rtw_xmit_frame_def e s')
  qed
qed

lemma sta_queue_pend [simp]:
  "sta_queue (add_qcnt i ac d s) = sta_queue s" "sta_queue (set_pending i ac q s) = sta_queue s"
  by (simp_all add: add_qcnt_def set_pending_def)

lemma dequeue_sta_Some:
  assumes "dequeue_sta ac is s = Some (x, s')"
  shows "\<exists>i q. i \<in> set is \<and> pending s i ac = x # q
    \<and> (s' = relink i ac q (- 1) s \<or> s' = set_sta_queue ac (remove1 i (sta_queue s ! ac)) (relink i ac q (- 1) s))"
  using assms
proof (induction "is")
  case (Cons i "is")
  show ?case
  proof (cases "pending s i ac")
    case Nil
    then show ?thesis using Cons by auto
  next
    case (Cons y q)
    then show ?thesis using Cons.prems by (intro exI [of _ i] exI [of _ q]) (auto simp: Let_def relink_def)
  qed
qed simp

lemma dequeue_Some:
  assumes "rtw_dequeue_xframe inx s = Some (x, s')"
  shows "\<exists>ac i q. ac \<in> set inx \<and> i \<in> set (sta_queue s ! ac) \<and> pending s i ac = x # q
    \<and> (s' = relink i ac q (- 1) s \<or> s' = set_sta_queue ac (remove1 i (sta_queue s ! ac)) (relink i ac q (- 1) s))"
  using assms
proof (induction inx)
  case (Cons ac inx)
  show ?case
  proof (cases "dequeue_sta ac (sta_queue s ! ac) s")
    case None
    then have "rtw_dequeue_xframe inx s = Some (x, s')" using Cons.prems by simp
    with Cons.IH obtain c i q where "c \<in> set inx" "i \<in> set (sta_queue s ! c)" "pending s i c = x # q"
      "s' = relink i c q (- 1) s \<or> s' = set_sta_queue c (remove1 i (sta_queue s ! c)) (relink i c q (- 1) s)" by blast
    then show ?thesis by (intro exI [of _ c] exI [of _ i] exI [of _ q]) simp
  next
    case (Some r)
    then have "dequeue_sta ac (sta_queue s ! ac) s = Some (x, s')" using Cons.prems by simp
    from dequeue_sta_Some [OF this] obtain i q where "i \<in> set (sta_queue s ! ac)" "pending s i ac = x # q"
      "s' = relink i ac q (- 1) s \<or> s' = set_sta_queue ac (remove1 i (sta_queue s ! ac)) (relink i ac q (- 1) s)" by blast
    then show ?thesis by (intro exI [of _ ac] exI [of _ i] exI [of _ q]) simp
  qed
qed simp

lemma inv_schedule:
  assumes "ap_inv s" "set inx \<subseteq> {..<4}" "rtw_dequeue_xframe inx s = Some (x, s1)"
  shows "ap_inv (to_flight x s1)"
proof -
  note d = ap_invD [OF assms(1)]
  obtain ac i q where q: "pending s i ac = x # q"
    "s1 = relink i ac q (- 1) s \<or> s1 = set_sta_queue ac (remove1 i (sta_queue s ! ac)) (relink i ac q (- 1) s)"
    using dequeue_Some [OF assms(3)] by blast
  have w: "wf_tx (give x (\<lambda>_. 0)) s1" by (rule wf_dequeue [OF d(1) assms(2,3)])
  have i1: "idle_part s1 = idle_part s" using q(2) by auto
  have "tim_ok s1 j \<and> doze_ok s1 j" if "j < nsta s" for j
  proof -
    have "set q \<subseteq> set (pending s i ac)" using q(1) by auto
    then show ?thesis using q(2) doze_relink [OF d(4) [OF that], of q i ac] tim_relink [OF d(3) [OF that]] by auto
  qed
  moreover have "ap_cfg (to_flight x s1) = ap_cfg s1" by (rule ap_cfg_cong) simp_all
  ultimately show ?thesis using wf_flight [OF w, of x] ap_cfg_idle [OF i1] idle_obs(5) [OF i1] d(2)
    by (simp add: ap_inv_def)
qed

lemma inv_complete:
  assumes "ap_inv s" "x \<in> set (in_flight s)"
  shows "ap_inv (rtw_free_xmitframe x (s\<lparr>in_flight := remove1 x (in_flight s)\<rparr>))"
proof -
  note d = ap_invD [OF assms(1)]
  define t where "t = s\<lparr>in_flight := remove1 x (in_flight s)\<rparr>"
  have k: "sta t = sta s" "table t = table s" "ps t = ps s" "fkey t = fkey s" "sta_queue t = sta_queue s"
    "frames t = frames s" "pending t = pending s" "tim_has a t = tim_has a s" "dz_has a t = dz_has a s" "fw_state t = fw_state s"
    "in_flight t = remove1 x (in_flight s)" "free_xmit_queue t = free_xmit_queue s" for a
    by (simp_all add: t_def fun_eq_iff sta_def table_def nsta_def get_sta_def fkey_def pending_def tim_has_def dz_has_def)
  have hs: "held s = add_mset x (held t)"
    using table_obs(1) [OF k(2)] assms(2) by (simp add: held_def k)
  have hc: "int (count (held t) y) + give x (\<lambda>_. 0) y = int (count (held s) y)" for y
    unfolding hs by (simp add: give_def)
  have ws: "wf_sta t i = wf_sta s i" for i by (rule wf_sta_cong) (simp_all add: k)
  have w: "wf_tx (give x (\<lambda>_. 0)) t"
    using d(1) by (simp add: wf_tx_def k ws hc table_obs [OF k(2)])
  have "tim_ok t j \<and> doze_ok t j" if "j < nsta s" for j
    using tim_ok_mono [OF d(3) [OF that] k(2)] doze_ok_mono [OF d(4) [OF that] k(2)] by (simp add: k)
  moreover have "ap_cfg (rtw_free_xmitframe x t) = ap_cfg s" by (rule ap_cfg_cong) (simp_all add: k)
  ultimately show ?thesis using wf_free [OF w, of x] d(2) table_obs(1) [OF k(2)] unfolding t_def [symmetric]
    by (simp add: ap_inv_def)
qed

lemma inv_pwrbit:
  assumes "ap_inv s" "\<forall>i. get_sta s src = Some i \<longrightarrow> associated s i" "process_pwrbit_data src p s = Some s'"
  shows "ap_inv s'"
proof (cases "get_sta s src")
  case (Some i)
  then have a: "i < nsta s" "linked (sta s i)" "aid (sta s i) \<noteq> 0" using assms(2) by (simp_all add: associated_def)
  show ?thesis using assms(1,3) inv_stop(1) [OF assms(1) a] inv_wakeup [OF assms(1) a(1,2)] Some
    by (auto simp: process_pwrbit_data_def split: if_splits)
qed (use assms in \<open>simp add: process_pwrbit_data_def\<close>)

lemma inv_wmmps:
  assumes "ap_inv s" "\<forall>i. get_sta s src = Some i \<longrightarrow> associated s i"
  shows "ap_inv (process_wmmps_data src pr s)"
  using assms inv_delivery [of s] by (auto simp: process_wmmps_data_def associated_def Let_def split: option.split)

lemma inv_control:
  assumes "ap_inv s" "\<forall>a2 i. rdn pframe 10 6 = Some a2 \<and> get_sta s a2 = Some i \<longrightarrow> associated s i"
    "validate_recv_ctrl_frame myid pframe pr s = Some s'"
  shows "ap_inv s'"
  using assms inv_pspoll [of s]
  by (auto simp: validate_recv_ctrl_frame_def associated_def bind_eq_Some_conv split: if_splits option.splits)

lemma inv_state:
  assumes "ap_inv s" "check_fwstate f WIFI_AP_STATE"
  shows "ap_inv (s\<lparr>fw_state := f, hiq_filter := h, max_expire := e\<rparr>)"
proof -
  note d = ap_invD [OF assms(1)]
  define t where "t = s\<lparr>fw_state := f, hiq_filter := h, max_expire := e\<rparr>"
  have k: "sta t = sta s" "table t = table s" "ps t = ps s" "fkey t = fkey s" "sta_queue t = sta_queue s"
    "frames t = frames s" "pending t = pending s" "tim_has a t = tim_has a s" "dz_has a t = dz_has a s" "fw_state t = f"
    "in_flight t = in_flight s" "free_xmit_queue t = free_xmit_queue s" for a
    by (simp_all add: t_def fun_eq_iff sta_def table_def nsta_def get_sta_def fkey_def pending_def tim_has_def dz_has_def)
  have "wf_tx (\<lambda>_. 0) t" using d(1) wf_tx_cong [of t s] by (simp add: view_def k)
  moreover have "ap_cfg t" using d(2) assms(2) unfolding ap_cfg_def table_obs [OF k(2)] k by blast
  moreover have "tim_ok t j \<and> doze_ok t j" if "j < nsta s" for j
    using tim_ok_mono [OF d(3) [OF that] k(2)] doze_ok_mono [OF d(4) [OF that] k(2)] by (simp add: k)
  ultimately show ?thesis unfolding t_def [symmetric] by (simp add: ap_inv_def table_obs(1) [OF k(2)])
qed

lemma inv_step: "ap_step s s' \<Longrightarrow> ap_inv s \<Longrightarrow> ap_inv s'"
proof (induction rule: ap_step.induct)
  case (submit s x s1 a b d)
  note al = inv_alloc [OF submit.prems submit.hyps(1)]
  show ?case
  proof (rule inv_xmit [OF wf_write [OF al(1)]])
    show "ap_cfg (upd_frame x (\<lambda>_. a) s1)" using al(2) by (simp add: ap_cfg_cong [of "upd_frame x (\<lambda>_. a) s1" s1])
    show "tim_ok (upd_frame x (\<lambda>_. a) s1) j \<and> doze_ok (upd_frame x (\<lambda>_. a) s1) j"
      if "j < nsta (upd_frame x (\<lambda>_. a) s1)" for j
      using safe_write [OF al(1), of j] al(3,4) that by simp
  qed (use submit.hyps(2) in simp)
qed (auto intro: inv_schedule inv_complete inv_pwrbit inv_wmmps inv_control inv_chk_bmc inv_chk_hi inv_state)

lemma inv_reachable: "ap_reachable s \<Longrightarrow> ap_inv s"
  by (induction rule: ap_reachable.induct) (auto intro: inv_start inv_step)

section \<open>Waking up and the scheduler\<close>

lemma dequeue_sta_None: "dequeue_sta ac is s = None \<longleftrightarrow> (\<forall>i \<in> set is. pending s i ac = [])"
  by (induction "is") (auto simp: Let_def split: list.split)

lemma dequeue_None:
  "rtw_dequeue_xframe inx s = None \<longleftrightarrow> (\<forall>ac \<in> set inx. \<forall>i \<in> set (sta_queue s ! ac). pending s i ac = [])"
proof (induction inx)
  case (Cons ac inx)
  then show ?case using dequeue_sta_None [of ac "sta_queue s ! ac" s] by (auto split: option.split)
qed simp

lemma pending_hal:
  assumes "i < nsta s" "length (sta_pending (sta s i)) = 4"
  shows "pending (hal_xmitframe_enqueue x s) i ac =
    pending s i ac @ (if routed s x i \<and> ac_of (xf_priority (frames s x)) = ac then [x] else [])"
proof (cases rule: hal_cases [of s x])
  case (link k)
  have "routed s x i \<longleftrightarrow> i = k" using link(1) routed_unique by blast
  then show ?thesis using assms by (auto simp: link(2) pending_relink)
qed simp

lemma routed_flags [simp]:
  "routed (upd_frame y (\<lambda>a. a\<lparr>xf_triggered := b\<rparr>) s) x i = routed s x i"
  by (rule routed_cong) simp_all

lemma pending_trigger_frame:
  assumes "i < nsta s" "length (sta_pending (sta s i)) = 4"
  shows "pending (trigger_frame x s) i ac =
    pending s i ac @ (if routed s x i \<and> ac_of (xf_priority (frames s x)) = ac then [x] else [])"
  using pending_hal [of i "upd_frame x (\<lambda>a. a\<lparr>xf_triggered := True\<rparr>) s" x ac] assms by (simp add: trigger_frame_def)

lemma wakeup_loop_pending:
  assumes "wf_tx out s" "i < nsta s" "\<forall>x \<in> set xs. routed s x i" "mset xs \<subseteq># mset (sleep_q (sta s i))"
  shows "pending (wakeup_loop i xs s) i ac = pending s i ac @ filter (\<lambda>x. ac_of (xf_priority (frames s x)) = ac) xs"
  using assms
proof (induction xs arbitrary: s)
  case (Cons x xs)
  let ?p = "if wm_trigger i x s then count_ac i x (pop_sleep_q i x s) else pop_sleep_q i x s"
  let ?t = "trigger_frame x ?p"
  have ip: "idle_part ?p = idle_part s" and it: "idle_part ?t = idle_part s" by simp_all
  have v: "view ?p = view (unlink_sleep_q i x s)" by simp
  have w: "wf_tx out ?t" by (rule wf_pop_hal(1) [OF Cons.prems(1,2) sub_member [OF Cons.prems(4)] v])
  have pp: "pending ?p = pending s" by simp
  have "wf_tx (give x out) ?p"
    using wf_unlink [OF Cons.prems(1,2) sub_member [OF Cons.prems(4)]] wf_tx_cong [OF v] by simp
  then have "length (sta_pending (sta ?p i)) = 4" using Cons.prems(2) idle_obs(5) [OF ip] by (simp add: wf_tx_def wf_sta_def)
  from pending_trigger_frame [OF _ this, of x ac]
  have "pending ?t i ac = pending s i ac @ (if ac_of (xf_priority (frames s x)) = ac then [x] else [])"
    unfolding pp idle_obs(5,6,9) [OF ip] using Cons.prems(2,3) by simp
  moreover have "pending (wakeup_loop i xs ?t) i ac = pending ?t i ac @ filter (\<lambda>x. ac_of (xf_priority (frames ?t x)) = ac) xs"
  proof (rule Cons.IH [OF w])
    show "i < nsta ?t" "\<forall>x \<in> set xs. routed ?t x i" using Cons.prems(2,3) by (simp_all add: idle_obs(5,6) [OF it])
    show "mset xs \<subseteq># mset (sleep_q (sta ?t i))"
      using sub_remove1 [OF Cons.prems(4)] Cons.prems(2) by (simp add: sleep_q_unlink)
  qed
  moreover have e: "wakeup_loop i (x # xs) s = wakeup_loop i xs ?t" by (simp add: Let_def)
  ultimately show ?case unfolding e by (simp add: idle_obs(9) [OF it])
qed simp

lemma group_loop_other:
  assumes "wf_tx out s" "i < nsta s" "b < nsta s" "b \<noteq> i" "\<forall>x \<in> set xs. \<not> routed s x i" "mset xs \<subseteq># mset (sleep_q (sta s b))"
  shows "pending (group_loop b h xs s) i ac = pending s i ac"
  using assms
proof (induction xs arbitrary: s)
  case (Cons x xs)
  let ?p = "upd_frame x (\<lambda>a. a\<lparr>xf_triggered := True\<rparr>) (pop_sleep_q b x s)"
  let ?q = "if h \<and> xmitframe_hiq_filter ?p x then upd_frame x (\<lambda>a. a\<lparr>xf_qsel := 0x11\<rparr>) ?p else ?p"
  let ?t = "hal_xmitframe_enqueue x ?q"
  have iq: "idle_part ?q = idle_part s" and it: "idle_part ?t = idle_part s" by simp_all
  have v: "view ?q = view (unlink_sleep_q b x s)" by simp
  have w: "wf_tx out ?t" by (rule wf_pop_hal(2) [OF Cons.prems(1,3) sub_member [OF Cons.prems(6)] v])
  have "wf_tx (give x out) ?q"
    using wf_unlink [OF Cons.prems(1,3) sub_member [OF Cons.prems(6)]] wf_tx_cong [OF v] by simp
  then have "length (sta_pending (sta ?q i)) = 4" using Cons.prems(2) idle_obs(5) [OF iq] by (simp add: wf_tx_def wf_sta_def)
  from pending_hal [OF _ this, of x ac] have "pending ?t i ac = pending ?q i ac"
    unfolding idle_obs(5,6) [OF iq] using Cons.prems(2,5) by simp
  moreover have "pending (group_loop b h xs ?t) i ac = pending ?t i ac"
  proof (rule Cons.IH [OF w])
    show "i < nsta ?t" "b < nsta ?t" "b \<noteq> i" "\<forall>x \<in> set xs. \<not> routed ?t x i"
      using Cons.prems(2-5) by (simp_all add: idle_obs(5,6) [OF it])
    show "mset xs \<subseteq># mset (sleep_q (sta ?t b))"
      using sub_remove1 [OF Cons.prems(6)] Cons.prems(3) by (simp add: sleep_q_unlink)
  qed
  moreover have e: "group_loop b h (x # xs) s = group_loop b h xs ?t" by (simp add: Let_def)
  ultimately show ?case unfolding e by simp
qed simp

lemma wakeup_loop_keeps [simp]:
  "asleep (ps (wakeup_loop i xs s) ! j) = asleep (ps s ! j)" "tim_has a (wakeup_loop i xs s) = tim_has a s"
  "dz_has a (wakeup_loop i xs s) = dz_has a s"
  by (induction xs arbitrary: s) (simp_all add: Let_def)

lemma group_loop_keeps [simp]:
  "asleep (ps (group_loop b h xs s) ! j) = asleep (ps s ! j)" "tim_has a (group_loop b h xs s) = tim_has a s"
  "dz_has a (group_loop b h xs s) = dz_has a s" "j \<noteq> b \<Longrightarrow> sleep_q (sta (group_loop b h xs s) j) = sleep_q (sta s j)"
  by (induction xs arbitrary: s) (simp_all add: Let_def sleep_q_unlink)

lemma leave_sleep_empty:
  assumes "sleepq_len (ps s ! i) = 0" "i < length (ps s)"
  shows "snd (leave_sleep i s) = clear_dz (aid (sta s i)) (is_alive i (upd_ps i (\<lambda>p. p\<lparr>asleep := False\<rparr>) (clear_tim (aid (sta s i)) s)))"
  using assms by (simp add: leave_sleep_def Let_def)

lemma wake_group_keeps:
  assumes "ap_inv s" "rtw_get_bcmc_stainfo (tbl s) = Some b" "i < nsta s" "i \<noteq> b"
  shows "pending (snd (wake_group b s)) i ac = pending s i ac" "sleep_q (sta (snd (wake_group b s)) i) = sleep_q (sta s i)"
    "asleep (ps (snd (wake_group b s)) ! i) = asleep (ps s ! i)" "tim_has a (snd (wake_group b s)) \<Longrightarrow> tim_has a s"
    "dz_has a (snd (wake_group b s)) \<Longrightarrow> dz_has a s"
proof -
  let ?q = "sleep_q (sta s b)"
  have b: "b < nsta s" by (rule bmc_aid(1) [OF assms(1,2)])
  have "\<forall>x \<in> set ?q. routed s x b" using ap_invD(1) [OF assms(1)] b by (simp add: wf_tx_def wf_sta_def)
  then have "\<forall>x \<in> set ?q. \<not> routed s x i" using assms(4) routed_unique by blast
  from group_loop_other [OF ap_invD(1) [OF assms(1)] assms(3) b assms(4) [symmetric] this subset_mset.order_refl]
  have "pending (group_loop b False ?q s) i ac = pending s i ac" .
  then show "pending (snd (wake_group b s)) i ac = pending s i ac"
    by (simp add: wake_group_def Let_def) (simp add: pending_def)
  show "sleep_q (sta (snd (wake_group b s)) i) = sleep_q (sta s i)"
    "asleep (ps (snd (wake_group b s)) ! i) = asleep (ps s ! i)" "tim_has a (snd (wake_group b s)) \<Longrightarrow> tim_has a s"
    "dz_has a (snd (wake_group b s)) \<Longrightarrow> dz_has a s"
    using assms(4) by (auto simp: wake_group_def Let_def split: if_splits)
qed

lemma wakeup_effect:
  assumes "ap_inv s" "associated s i" "ac < 4"
  shows "pending (wakeup_sta_to_xmit i s) i ac
      = pending s i ac @ filter (\<lambda>x. ac_of (xf_priority (frames s x)) = ac) (sleep_q (sta s i))"
    "sleep_q (sta (wakeup_sta_to_xmit i s) i) = []" "\<not> asleep (ps (wakeup_sta_to_xmit i s) ! i)"
    "\<not> tim_has (aid (sta s i)) (wakeup_sta_to_xmit i s)" "\<not> dz_has (aid (sta s i)) (wakeup_sta_to_xmit i s)"
proof -
  have a: "i < nsta s" "linked (sta s i)" "aid (sta s i) \<noteq> 0" using assms(2) by (simp_all add: associated_def)
  let ?q = "sleep_q (sta s i)" let ?w = "wakeup_loop i ?q s" let ?l = "snd (leave_sleep i ?w)"
  have r: "\<forall>x \<in> set ?q. routed s x i" using ap_invD(1) [OF assms(1)] a(1) by (simp add: wf_tx_def wf_sta_def)
  have p: "pending ?w i ac = pending s i ac @ filter (\<lambda>x. ac_of (xf_priority (frames s x)) = ac) ?q"
    by (rule wakeup_loop_pending [OF ap_invD(1) [OF assms(1)] a(1) r]) simp
  have iw: "idle_part ?w = idle_part s" and il: "idle_part ?l = idle_part s" by simp_all
  have w: "ap_inv ?w" by (rule inv_wakeup_loop [OF assms(1) a(1)]) simp
  have e: "sleep_q (sta ?w i) = []" by (rule wakeup_loop_empties [OF a(1)]) simp
  have n: "i < nsta ?w" "linked (sta ?w i)" using a by (simp_all add: idle_obs(5,8) [OF iw])
  have l0: "sleepq_len (ps ?w ! i) = 0" using ap_invD(1) [OF w] n(1) e by (simp add: wf_tx_def wf_sta_def)
  have lp: "i < length (ps ?w)" using ap_invD(1) [OF w] n(1) by (simp add: wf_tx_def)
  have l: "ap_inv ?l" by (rule inv_leave_sleep [OF w n])
  note le = leave_sleep_empty [OF l0 lp]
  have "sleep_q (sta ?l i) = []" "\<not> asleep (ps ?l ! i)" "\<not> tim_has (aid (sta s i)) ?l" "\<not> dz_has (aid (sta s i)) ?l"
    "pending ?l i ac = pending ?w i ac"
    using e lp by (simp_all add: le ps_upd_ps idle_obs(7) [OF iw]) (simp add: pending_def)
  moreover obtain b where b: "rtw_get_bcmc_stainfo (tbl s) = Some b"
    using ap_invD(2) [OF assms(1)] unfolding ap_cfg_def by blast
  moreover have "rtw_get_bcmc_stainfo (tbl ?l) = Some b" using b by (simp add: idle_obs(10) [OF il])
  note wg = wake_group_keeps [OF l this, of i]
  moreover have "i < nsta ?l" "i \<noteq> b" using a bmc_aid(2) [OF assms(1) b] by (auto simp: idle_obs(5) [OF il])
  ultimately show "pending (wakeup_sta_to_xmit i s) i ac
      = pending s i ac @ filter (\<lambda>x. ac_of (xf_priority (frames s x)) = ac) ?q"
    "sleep_q (sta (wakeup_sta_to_xmit i s) i) = []" "\<not> asleep (ps (wakeup_sta_to_xmit i s) ! i)"
    "\<not> tim_has (aid (sta s i)) (wakeup_sta_to_xmit i s)" "\<not> dz_has (aid (sta s i)) (wakeup_sta_to_xmit i s)"
    using p by (auto simp: wakeup_sta_to_xmit_def Let_def case_prod_beta pending_def)
qed

section \<open>An access point with three stations\<close>

text \<open>Entry 0 is for group frames; 1 is a legacy station, 2 has U-APSD for all categories, 3 is authenticated
  and not associated.\<close>

definition ap_sta :: "bytes \<Rightarrow> nat \<Rightarrow> bool \<Rightarrow> sta_info" where
  "ap_sta a n l = rtw_init_stainfo\<lparr>hwaddr := a, aid := n, linked := l\<rparr>"

definition ap_pool :: "sta_info list" where
  "ap_pool = [ap_sta bc_addr 0 True, ap_sta [2, 0, 0, 0, 0, 1] 1 True, ap_sta [2, 0, 0, 0, 0, 2] 2 True,
     ap_sta [2, 0, 0, 0, 0, 3] 0 False]"

definition ap_ps :: "bool \<Rightarrow> u8 \<Rightarrow> ps_sta" where
  "ap_ps l u = \<lparr>asleep = False, alive_chk = False, expire_to = 0, qos_option = True, qos_info = (if l then 0 else 15),
     has_legacy_ac = l, uapsd_vo = u, uapsd_vi = u, uapsd_be = u, uapsd_bk = u, sleepq_len = 0, sleepq_ac_len = 0\<rparr>"

definition ap_demo :: "nat list \<Rightarrow> tx_priv" where
  "ap_demo q = \<lparr>
     tbl = \<lparr>pool = ap_pool, free_sta_queue = [],
       sta_hash = map (\<lambda>k. filter (\<lambda>i. wifi_mac_hash (hwaddr (ap_pool ! i)) = k) [0, 1, 2, 3]) [0..<NUM_STA],
       asoc_sta_count = 4, auth_list = [], auth_list_cnt = 0, sta_aid = [Some 1, Some 2],
       sta_dz_bitmap = 0, tim_bitmap = 0, macid = replicate 32 False, hw_accnt = [0, 0, 0, 0]\<rparr>,
     ps = [ap_ps True 0, ap_ps True 0, ap_ps False 3, ap_ps True 0],
     frames = (\<lambda>_. init_xframe), free_xmit_queue = q, free_xmitframe_cnt = NR_XMITFRAME,
     sta_queue = replicate 4 [], in_flight = [], fw_state = WIFI_AP_STATE, hiq_filter = 0, max_expire = 60, events = []\<rparr>"

lemma find_in: "List.find P xs = Some x \<Longrightarrow> x \<in> set xs"
  by (induction xs) (auto split: if_splits)

lemma demo_lookup:
  assumes "get_sta (ap_demo q) a = Some i" shows "i < 4"
proof -
  obtain P k where "List.find P (sta_hash (tbl (ap_demo q)) ! wifi_mac_hash k) = Some i"
    using assms by (auto simp: get_sta_def rtw_get_stainfo_def Let_def)
  then have "i \<in> set (sta_hash (tbl (ap_demo q)) ! wifi_mac_hash k)" by (rule find_in)
  also have "sta_hash (tbl (ap_demo q)) ! wifi_mac_hash k
      = filter (\<lambda>i. wifi_mac_hash (hwaddr (ap_pool ! i)) = wifi_mac_hash k) [0, 1, 2, 3]"
    using wifi_mac_hash_less [of k] by (simp add: ap_demo_def)
  finally have "i \<in> {0, 1, 2, 3}" unfolding set_filter by simp
  then show ?thesis by auto
qed

lemma all_less_4: "(\<forall>i < (4::nat). P i) \<longleftrightarrow> P 0 \<and> P 1 \<and> P 2 \<and> P 3"
proof -
  have "i < 4 \<longleftrightarrow> i = 0 \<or> i = 1 \<or> i = 2 \<or> i = 3" for i :: nat by auto
  then show ?thesis by auto
qed

lemma demo_start:
  assumes "mset q = all_frames" shows "ap_start (ap_demo q)"
proof -
  have n: "nsta (ap_demo q) = 4" by (simp add: nsta_def ap_demo_def ap_pool_def)
  have b: "rtw_get_bcmc_stainfo (tbl (ap_demo q)) = Some 0" by code_simp
  have s: "sta (ap_demo q) 0 = ap_sta bc_addr 0 True" "sta (ap_demo q) 1 = ap_sta [2, 0, 0, 0, 0, 1] 1 True"
    "sta (ap_demo q) 2 = ap_sta [2, 0, 0, 0, 0, 2] 2 True" "sta (ap_demo q) 3 = ap_sta [2, 0, 0, 0, 0, 3] 0 False"
    by (simp_all add: sta_def ap_demo_def ap_pool_def)
  have p: "ps (ap_demo q) ! 0 = ap_ps True 0" "ps (ap_demo q) ! 1 = ap_ps True 0" "ps (ap_demo q) ! 2 = ap_ps False 3" "ps (ap_demo q) ! 3 = ap_ps True 0"
    by (simp_all add: ap_demo_def)
  have a: "aid (ap_sta x n l) = n" "linked (ap_sta x n l) = l" "sta_pending (ap_sta x n l) = replicate 4 []"
    "qcnt (ap_sta x n l) = replicate 4 0" "sleep_q (ap_sta x n l) = []" for x n l
    by (simp_all add: ap_sta_def rtw_init_stainfo_def)
  have u: "uapsd_of (ap_ps l v) up = v" "has_legacy_ac (ap_ps l v) = l" "sleepq_len (ap_ps l v) = 0" "sleepq_ac_len (ap_ps l v) = 0"
    "asleep (ap_ps l v) = False" for l v up
    by (simp_all add: uapsd_of_def ap_ps_def)
  have "check_fwstate (fw_state (ap_demo q)) WIFI_AP_STATE" by code_simp
  then have c: "ap_cfg (ap_demo q)" unfolding ap_cfg_def n b all_less_4 s p a u by simp
  have "length (ps (ap_demo q)) = 4" "sta_queue (ap_demo q) = replicate 4 []" "free_xmit_queue (ap_demo q) = q" "in_flight (ap_demo q) = []"
    by (simp_all add: ap_demo_def)
  then show ?thesis unfolding ap_start_def n all_less_4 s p a u using c demo_lookup assms by simp
qed

text \<open>Station 1 falls asleep and a frame for it is buffered.\<close>

definition ap_frame :: "bytes \<Rightarrow> nat \<Rightarrow> u8 \<Rightarrow> xframe" where
  "ap_frame ra i pr = init_xframe\<lparr>xf_ra := ra, xf_psta := Some i, xf_priority := pr\<rparr>"

definition ap_submit :: "xframe \<Rightarrow> tx_priv \<Rightarrow> tx_priv" where
  "ap_submit a s = (case rtw_alloc_xmitframe s of (Some x, s) \<Rightarrow> rtw_xmit_frame True True x (upd_frame x (\<lambda>_. a) s) | _ \<Rightarrow> s)"

definition ap_power :: "bytes \<Rightarrow> bool \<Rightarrow> tx_priv \<Rightarrow> tx_priv" where
  "ap_power src p s = (case process_pwrbit_data src p s of Some s \<Rightarrow> s | None \<Rightarrow> s)"

definition ap_asleep :: "nat list \<Rightarrow> tx_priv" where
  "ap_asleep q = ap_submit (ap_frame [2, 0, 0, 0, 0, 1] 1 0) (ap_power [2, 0, 0, 0, 0, 1] True (ap_demo (0 # q)))"

lemma reach_submit:
  assumes "ap_reachable s" "\<not> xf_triggered a" shows "ap_reachable (ap_submit a s)"
proof (cases "rtw_alloc_xmitframe s")
  case (Pair o' s1)
  show ?thesis
  proof (cases o')
    case None then show ?thesis using assms Pair by (simp add: ap_submit_def)
  next
    case (Some x)
    then have "ap_step s (rtw_xmit_frame True True x (upd_frame x (\<lambda>_. a) s1))"
      using Pair assms(2) by (intro ap_step.submit) simp_all
    then show ?thesis using Pair Some assms(1) ap_reachable.step by (simp add: ap_submit_def)
  qed
qed

lemma reach_power:
  assumes "ap_reachable s" "get_sta s src = Some i" "associated s i" shows "ap_reachable (ap_power src p s)"
proof (cases "process_pwrbit_data src p s")
  case (Some s1)
  then have "ap_step s s1" using assms(2,3) by (intro ap_step.pwrbit) auto
  then show ?thesis using Some assms(1) ap_reachable.step by (simp add: ap_power_def)
qed (use assms(1) in \<open>simp add: ap_power_def\<close>)

definition ap_rest :: "nat list" where "ap_rest = [1..<NR_XMITFRAME]"

lemma all_frames_rest: "mset (0 # ap_rest) = all_frames"
  by (simp add: ap_rest_def all_frames_def NR_XMITFRAME_def upt_conv_Cons del: mset_upt)

lemma reach_asleep: "ap_reachable (ap_asleep ap_rest)"
proof -
  have "get_sta (ap_demo (0 # q)) [2, 0, 0, 0, 0, 1] = Some 1" for q by code_simp
  moreover have "associated (ap_demo (0 # q)) 1" for q by code_simp
  ultimately have "ap_reachable (ap_power [2, 0, 0, 0, 0, 1] True (ap_demo (0 # ap_rest)))"
    using ap_reachable.init [OF demo_start [OF all_frames_rest]] by (rule reach_power [rotated])
  then show ?thesis unfolding ap_asleep_def by (intro reach_submit) (simp_all add: ap_frame_def init_xframe_def)
qed

definition ap_view :: "tx_priv \<Rightarrow> nat \<times> bool \<times> bool \<times> nat list \<times> nat list \<times> nat \<times> bool \<times> u8 \<times> u8" where
  "ap_view s = (nsta s, associated s 1, asleep (ps s ! 1), sleep_q (sta s 1), pending s 1 2, aid (sta s 1),
     has_legacy_ac (ps s ! 1), uapsd_be (ps s ! 1), xf_priority (frames s 0))"

lemma asleep_view: "ap_view (ap_asleep q) = (4, True, True, [0], [], 1, True, 0, 0)"
  by code_simp

lemmas asleep_facts = asleep_view [unfolded ap_view_def prod.inject]

section \<open>Properties\<close>

text \<open>C38. In every state of \<open>ap_reachable\<close> (a fixed set of stations, association ids below 16), every frame of the pool
  is in exactly one place: free, with the chip, in a sleep queue or in a pending queue; and every queue has the length its counter
  says.\<close>

theorem ap_frames_conserved:
  assumes "ap_reachable s"
  shows "held s = mset [0..<NR_XMITFRAME]
    \<and> (\<forall>i < nsta s. sleepq_len (ps s ! i) = of_nat (length (sleep_q (sta s i)))
         \<and> (\<forall>ac < 4. qcnt (sta s i) ! ac = int (length (pending s i ac))))"
proof -
  have w: "wf_tx (\<lambda>_. 0) s" by (rule ap_invD(1) [OF inv_reachable [OF assms]])
  have "held s = all_frames" by (rule multiset_eqI) (use w in \<open>simp add: wf_tx_def\<close>)
  then show ?thesis using w by (simp add: wf_tx_def wf_sta_def all_frames_def)
qed

lemma ap_frames_conserved_witness:
  "held (ap_asleep ap_rest) = mset [0..<NR_XMITFRAME] \<and> sleepq_len (ps (ap_asleep ap_rest) ! 1) = 1
    \<and> qcnt (sta (ap_asleep ap_rest) 1) ! 2 = 0"
proof -
  note c = ap_frames_conserved [OF reach_asleep]
  then have "sleepq_len (ps (ap_asleep ap_rest) ! 1) = of_nat (length (sleep_q (sta (ap_asleep ap_rest) 1)))
      \<and> qcnt (sta (ap_asleep ap_rest) 1) ! 2 = int (length (pending (ap_asleep ap_rest) 1 2))"
    using asleep_facts(1) [of ap_rest] by simp
  then show ?thesis using c asleep_facts [of ap_rest] by simp
qed

text \<open>C39. In every state of \<open>ap_reachable\<close> (a fixed set of stations with association ids below 16, data and PS-Poll
  frames only from associated stations): while an associated station sleeps it is marked and only frames it has called for are
  on their way to it, and the TIM announces its buffered frames that are \<open>announced\<close>: those of its legacy
  categories, all frames if it has none, and the group frames. Frames of the delivery-enabled categories of a station that
  also has legacy ones are not announced, by design. Outside these conditions it fails: \<open>stop_sta_xmit_strands_high_aid\<close>
  (association id of 16 or more) and \<open>unassociated_wakeup_hides_group_frames\<close> (a sender that is not associated).\<close>

theorem ap_sleep_safe:
  assumes "ap_reachable s" "i < nsta s"
  shows "(associated s i \<and> asleep (ps s ! i) \<longrightarrow>
      dz_has (aid (sta s i)) s \<and> (\<forall>ac < 4. \<forall>x \<in> set (pending s i ac). xf_triggered (frames s x)))
    \<and> (\<forall>x \<in> set (sleep_q (sta s i)). announced s i x \<longrightarrow> tim_has (aid (sta s i)) s)"
  using ap_invD(3,4) [OF inv_reachable [OF assms(1)] assms(2)]
  by (simp add: tim_ok_def doze_ok_def associated_def)

lemma ap_sleep_safe_witness:
  "asleep (ps (ap_asleep ap_rest) ! 1) \<and> dz_has 1 (ap_asleep ap_rest) \<and> tim_has 1 (ap_asleep ap_rest)"
  using ap_sleep_safe [OF reach_asleep, of 1] asleep_facts by (simp add: announced_def uapsd_of_def)

text \<open>The scheduler finds no frame exactly when no frame is pending.\<close>

theorem scheduler_finds_pending:
  assumes "ap_reachable s" "set inx = {..<4}"
  shows "rtw_dequeue_xframe inx s = None \<longleftrightarrow> (\<forall>i < nsta s. \<forall>ac < 4. pending s i ac = [])"
proof -
  have w: "wf_tx (\<lambda>_. 0) s" by (rule ap_invD(1) [OF inv_reachable [OF assms(1)]])
  have sub: "\<forall>ac < 4. set (sta_queue s ! ac) \<subseteq> {..<nsta s}"
    and sch: "\<forall>ac < 4. \<forall>i < nsta s. pending s i ac \<noteq> [] \<longrightarrow> i \<in> set (sta_queue s ! ac)"
    using w by (simp_all add: wf_tx_def)
  have "(\<forall>ac \<in> {..<4}. \<forall>i \<in> set (sta_queue s ! ac). pending s i ac = []) \<longleftrightarrow> (\<forall>i < nsta s. \<forall>ac < 4. pending s i ac = [])"
  proof
    assume *: "\<forall>ac \<in> {..<4}. \<forall>i \<in> set (sta_queue s ! ac). pending s i ac = []"
    show "\<forall>i < nsta s. \<forall>ac < 4. pending s i ac = []" using * sch by blast
  qed (use sub in blast)
  then show ?thesis unfolding dequeue_None assms(2) .
qed

lemma scheduler_finds_pending_witness: "rtw_dequeue_xframe [2, 0, 1, 3] (ap_demo (0 # ap_rest)) = None"
proof -
  have "ap_reachable (ap_demo (0 # ap_rest))" by (rule ap_reachable.init [OF demo_start [OF all_frames_rest]])
  moreover have "set [2, 0, 1, 3] = {..<4::nat}" by auto
  ultimately show ?thesis using scheduler_finds_pending [of "ap_demo (0 # ap_rest)" "[2, 0, 1, 3]"]
      demo_start [OF all_frames_rest] by (simp add: ap_start_def pending_def)
qed

text \<open>A station that wakes up gets its buffered frames: each goes to the end of the pending queue of its
  category, in the order in which they were buffered, and the marks of the station are gone.\<close>

theorem wakeup_sta_to_xmit_delivers:
  assumes "ap_reachable s" "associated s i" "ac < 4"
  shows "pending (wakeup_sta_to_xmit i s) i ac
      = pending s i ac @ filter (\<lambda>x. ac_of (xf_priority (frames s x)) = ac) (sleep_q (sta s i))
    \<and> sleep_q (sta (wakeup_sta_to_xmit i s) i) = [] \<and> \<not> asleep (ps (wakeup_sta_to_xmit i s) ! i)
    \<and> \<not> tim_has (aid (sta s i)) (wakeup_sta_to_xmit i s) \<and> \<not> dz_has (aid (sta s i)) (wakeup_sta_to_xmit i s)"
  using wakeup_effect [OF inv_reachable [OF assms(1)] assms(2,3)] by simp

lemma wakeup_sta_to_xmit_delivers_witness:
  "pending (wakeup_sta_to_xmit 1 (ap_asleep ap_rest)) 1 2 = [0] \<and> \<not> asleep (ps (wakeup_sta_to_xmit 1 (ap_asleep ap_rest)) ! 1)"
  using wakeup_sta_to_xmit_delivers [OF reach_asleep, of 1 2] asleep_facts by (simp add: ac_of_def)

section \<open>Where the code differs from what it means to do\<close>

lemma sleepq_len_unlink:
  "sleepq_len (ps (unlink_sleep_q i x s) ! j) = (if j = i \<and> i < length (ps s) then sleepq_len (ps s ! i) - 1 else sleepq_len (ps s ! j))"
  by (simp add: unlink_sleep_q_def ps_upd_ps)

lemma sleepq_len_parts [simp]:
  "sleepq_len (ps (pop_sleep_q i x s) ! j) = sleepq_len (ps (unlink_sleep_q i x s) ! j)"
  by (simp add: pop_sleep_q_def Let_def)

text \<open>A PS-Poll frame takes the first buffered frame also when its category is delivery-enabled, and leaves the
  counter of these frames: the only frame of the next service period then announces another one, and does not
  end the period.\<close>

theorem pspoll_breaks_service_period:
  assumes "i < nsta s" "length (ps s) = nsta s" "uapsd_of (ps s ! i) pr AND 1 = 0"
    "asleep (ps s ! i)" "dz_has (aid (sta s i)) s"
    "sleep_q (sta s i) = [x, y]" "x \<noteq> y" "sleepq_len (ps s ! i) = 2" "sleepq_ac_len (ps s ! i) = 2"
    "has_legacy_ac (ps s ! i)" "wm_trigger i x s" "wm_trigger i y s"
  shows "let s1 = pspoll i (aid (sta s i)) pr s; s2 = xmit_delivery_enabled_frames i s1
    in sleep_q (sta s1 i) = [y] \<and> sleepq_ac_len (ps s1 ! i) = 2
      \<and> sleep_q (sta s2 i) = [] \<and> xf_mdata (frames s2 y) \<and> \<not> xf_eosp (frames s2 y)"
proof -
  let ?a = "is_alive i s"
  let ?s1 = "trigger_frame x (pop_sleep_q i x ?a)"
  have i1: "idle_part ?s1 = idle_part s" by simp
  have p1: "pspoll i (aid (sta s i)) pr s = ?s1"
    using assms by (simp add: pspoll_def Let_def sleepq_len_unlink)
  have q1: "sleep_q (sta ?s1 i) = [y]" using assms(1,6,7) by (simp add: sleep_q_unlink)
  have a1: "sleepq_ac_len (ps ?s1 ! i) = 2" using assms(9) by simp
  have n1: "i < nsta ?s1" "i < length (ps ?s1)" using assms(1,2) i1 by (simp_all add: idle_part_def idle_obs(5) [OF i1])
  have w1: "wm_trigger i y ?s1" "has_legacy_ac (ps ?s1 ! i)"
    using assms(10,12) unfolding wm_trigger_def idle_obs(9) [OF i1] pcfg_obs [OF idle_obs(12) [OF i1]] by simp_all
  let ?c = "count_ac i y (unlink_sleep_q i y ?s1)"
  have "has_legacy_ac (ps ?c ! i)" using w1(2) by (simp add: count_ac_def unlink_sleep_q_def Let_def ps_upd_ps)
  then have p2: "xmit_delivery_enabled_frames i ?s1 = trigger_frame y ?c"
    using w1 unfolding xmit_delivery_enabled_frames_def q1 by (simp add: Let_def)
  have "sleep_q (sta (trigger_frame y ?c) i) = []" using q1 n1 by (simp add: sleep_q_unlink)
  moreover have "xf_mdata (frames (trigger_frame y ?c) y) \<and> \<not> xf_eosp (frames (trigger_frame y ?c) y)"
    using n1 a1 by (simp add: trigger_frame_def count_ac_def Let_def ps_upd_ps unlink_sleep_q_def)
  ultimately show ?thesis unfolding Let_def p1 p2 using q1 a1 by simp
qed

lemmas ap_demo_defs = ap_demo_def ap_pool_def ap_sta_def rtw_init_stainfo_def ap_ps_def sta_def nsta_def uapsd_of_def dz_has_def tim_has_def BIT16_def
  wm_trigger_def ap_frame_def init_xframe_def pending_def routed_def

definition ap_polled :: "nat list \<Rightarrow> tx_priv" where
  "ap_polled q = (ap_demo q)\<lparr>
     tbl := (tbl (ap_demo q))\<lparr>pool := ap_pool[1 := (ap_pool ! 1)\<lparr>sleep_q := [0, 1]\<rparr>], sta_dz_bitmap := 2\<rparr>,
     ps := [ap_ps True 0, (ap_ps True 0)\<lparr>uapsd_vo := 3, asleep := True, sleepq_len := 2, sleepq_ac_len := 2\<rparr>,
       ap_ps False 3, ap_ps True 0],
     frames := (\<lambda>_. ap_frame [2, 0, 0, 0, 0, 1] 1 6)\<rparr>"

lemma pspoll_breaks_service_period_witness:
  "let s2 = xmit_delivery_enabled_frames 1 (pspoll 1 1 0 (ap_polled []))
   in sleep_q (sta s2 1) = [] \<and> xf_mdata (frames s2 1) \<and> \<not> xf_eosp (frames s2 1)"
proof -
  note d = ap_polled_def ap_demo_defs
  have h: "1 < nsta (ap_polled [])" "length (ps (ap_polled [])) = nsta (ap_polled [])" "uapsd_of (ps (ap_polled []) ! 1) 0 AND 1 = 0"
    "asleep (ps (ap_polled []) ! 1)" "dz_has (aid (sta (ap_polled []) 1)) (ap_polled [])"
    "sleep_q (sta (ap_polled []) 1) = [0, 1]" "(0::nat) \<noteq> 1" "sleepq_len (ps (ap_polled []) ! 1) = 2" "sleepq_ac_len (ps (ap_polled []) ! 1) = 2"
    "has_legacy_ac (ps (ap_polled []) ! 1)" "wm_trigger 1 0 (ap_polled [])" "wm_trigger 1 1 (ap_polled [])"
    by (simp_all add: d)
  have "aid (sta (ap_polled []) 1) = 1" by (simp add: d)
  then show ?thesis using pspoll_breaks_service_period [OF h] by (simp add: Let_def)
qed

text \<open>A station that is authenticated and not associated has association id 0, the one of the group frames: when
  it sends a data frame without the power management bit, the announcement of the buffered group frames is
  withdrawn though other stations sleep, and the flush after the next beacon does nothing.\<close>

theorem unassociated_wakeup_hides_group_frames:
  assumes "rtw_get_bcmc_stainfo (tbl s) = Some b" "get_sta s src = Some i" "i \<noteq> b" "aid (sta s i) = 0"
    "asleep (ps s ! i)" "sleep_q (sta s i) = []" "sleepq_len (ps s ! i) = 0"
    "sta_dz_bitmap (tbl s) AND 0xfffe \<noteq> 0" "process_pwrbit_data src False s = Some s'"
  shows "\<not> tim_has 0 s' \<and> sleep_q (sta s' b) = sleep_q (sta s b) \<and> chk_bmc_sleepq_hdl s' = s'"
proof -
  let ?l = "snd (leave_sleep i s)"
  have il: "idle_part ?l = idle_part s" by simp
  have "sta_dz_bitmap (tbl ?l) = sta_dz_bitmap (tbl s) AND NOT (BIT16 0)"
    using assms(4,7) by (simp add: leave_sleep_def Let_def clear_dz_def is_alive_def)
  then have "sta_dz_bitmap (tbl ?l) AND 0xfffe = sta_dz_bitmap (tbl s) AND (NOT (BIT16 0) AND 0xfffe)"
    by (simp only: and.assoc)
  also have "NOT (BIT16 0) AND 0xfffe = (0xfffe :: u16)" by (simp add: BIT16_def)
  finally have g: "wake_group b ?l = (False, ?l)" using assms(8) by (simp add: wake_group_def)
  have "s' = (if fst (leave_sleep i s) then emit UpdateBeacon ?l else ?l)"
    using assms(1,2,5,6,9) g by (auto simp: process_pwrbit_data_def wakeup_sta_to_xmit_def Let_def case_prod_beta)
  moreover have "\<not> tim_has 0 ?l" "sleep_q (sta ?l b) = sleep_q (sta s b)"
    using assms(4,7) by (simp_all add: leave_sleep_def Let_def)
  ultimately have "\<not> tim_has 0 s'" "sleep_q (sta s' b) = sleep_q (sta s b)" by auto
  then show ?thesis by (simp add: chk_bmc_sleepq_hdl_def split: option.split)
qed

definition ap_auth :: tx_priv where
  "ap_auth = (ap_demo [])\<lparr>
     tbl := (tbl (ap_demo []))\<lparr>pool := ap_pool[0 := (ap_pool ! 0)\<lparr>sleep_q := [0]\<rparr>], sta_dz_bitmap := 3, tim_bitmap := 1\<rparr>,
     ps := [(ap_ps True 0)\<lparr>sleepq_len := 1\<rparr>, (ap_ps True 0)\<lparr>asleep := True\<rparr>, ap_ps False 3, (ap_ps True 0)\<lparr>asleep := True\<rparr>],
     frames := (\<lambda>_. ap_frame bc_addr 0 0)\<rparr>"

lemma unassociated_wakeup_hides_group_frames_witness:
  "tim_has 0 ap_auth \<and> (\<exists>s'. process_pwrbit_data [2, 0, 0, 0, 0, 3] False ap_auth = Some s'
     \<and> \<not> tim_has 0 s' \<and> sleep_q (sta s' 0) = [0] \<and> chk_bmc_sleepq_hdl s' = s')"
proof -
  note d = ap_auth_def ap_demo_defs
  have g: "rtw_get_bcmc_stainfo (tbl ap_auth) = Some 0" "get_sta ap_auth [2, 0, 0, 0, 0, 3] = Some 3"
    by code_simp+
  have h: "(3::nat) \<noteq> 0" "aid (sta ap_auth 3) = 0" "asleep (ps ap_auth ! 3)" "sleep_q (sta ap_auth 3) = []"
    "sleepq_len (ps ap_auth ! 3) = 0" "sta_dz_bitmap (tbl ap_auth) AND 0xfffe \<noteq> 0"
    by (simp_all add: d)
  have q: "sleep_q (sta ap_auth 0) = [0]" "tim_has 0 ap_auth" by (simp_all add: d)
  obtain s' where s': "process_pwrbit_data [2, 0, 0, 0, 0, 3] False ap_auth = Some s'"
    using g by (simp add: process_pwrbit_data_def)
  show ?thesis using unassociated_wakeup_hides_group_frames [OF g h s'] s' q by simp
qed

text \<open>Stations with an association id above 15.\<close>

lemma dz_high: "16 \<le> a \<Longrightarrow> \<not> dz_has a s"
  using bit_imp_le_length [of "sta_dz_bitmap (tbl s)" a] by (auto simp: dz_has_bit)

lemma high_not_buffered:
  assumes "routed s x i" "16 \<le> aid (sta s i)" "rtw_get_bcmc_stainfo (tbl s) = Some b" "b \<noteq> i" "\<not> xf_triggered (frames s x)"
  shows "xmitframe_enqueue_for_sleeping_sta x s = (False, s)"
proof (cases "check_fwstate (fw_state s) WIFI_AP_STATE")
  case True
  have "\<not> IS_MCAST (xf_ra (frames s x))" using assms(1,3,4) get_sta_mcast by (auto simp: routed_def)
  then show ?thesis using enqueue_routed [OF assms(1) True] assms(2,5) dz_high by simp
qed (simp add: enqueue_unrouted)

lemma dequeue_loop_high:
  assumes "\<forall>x \<in> set xs. routed s x i" "16 \<le> aid (sta s i)" "rtw_get_bcmc_stainfo (tbl s) = Some b" "b \<noteq> i"
  shows "sta (dequeue_loop i q xs s) = sta s \<and> sta_queue (dequeue_loop i q xs s) = sta_queue s
    \<and> table (dequeue_loop i q xs s) = table s \<and> fkey (dequeue_loop i q xs s) = fkey s"
  using assms
proof (induction xs arbitrary: s)
  case (Cons x xs)
  let ?t = "upd_frame x (\<lambda>a. a\<lparr>xf_triggered := False\<rparr>) s"
  have "xmitframe_enqueue_for_sleeping_sta x ?t = (False, ?t)"
    by (rule high_not_buffered [where i = i and b = b]) (use Cons.prems in simp_all)
  then have "dequeue_loop i q (x # xs) s = dequeue_loop i q xs ?t" by (simp add: Let_def)
  then show ?case using Cons.IH [of ?t] Cons.prems by simp
qed simp

lemma dequeue_loop_other:
  assumes "\<forall>x \<in> set xs. routed s x b" "b \<noteq> i"
  shows "sta (dequeue_loop b q xs s) i = sta s i \<and> sta_queue (dequeue_loop b q xs s) = sta_queue s"
  using assms
proof (induction xs arbitrary: s)
  case (Cons x xs)
  let ?t = "upd_frame x (\<lambda>a. a\<lparr>xf_triggered := False\<rparr>) s"
  obtain ret s1 where e: "xmitframe_enqueue_for_sleeping_sta x ?t = (ret, s1)" by fastforce
  let ?c = "ac_of (xf_priority (frames s1 x))"
  let ?u = "if ret then add_accnt ?c (- 1) (add_qcnt b ?c (- 1) (set_pending b q (remove1 x (pending s1 b q)) s1)) else s1"
  have l: "dequeue_loop b q (x # xs) s = dequeue_loop b q xs ?u" by (simp add: e Let_def)
  note k = enqueue_keeps [OF e]
  have "sta s1 i = sta s i"
    using e
  proof (cases rule: enqueue_cases)
    case (group j)
    then have "j = b" using Cons.prems(1) routed_unique [of s x] by simp
    then show ?thesis using group(3) Cons.prems(2) by (simp add: enqueue_group_def push_sleep_q_def Let_def sta_upd_sta)
  next
    case (unicast j)
    then have "j = b" using Cons.prems(1) routed_unique [of s x] by simp
    then show ?thesis using unicast(3) Cons.prems(2) by (simp add: enqueue_unicast_def push_sleep_q_def Let_def sta_upd_sta)
  qed simp_all
  then have "sta ?u i = sta s i \<and> sta_queue ?u = sta_queue s"
    using Cons.prems(2) k(5) by (simp add: add_qcnt_def set_pending_def sta_upd_sta)
  moreover have "routed ?u y b = routed s y b" for y
    using k(1,2) by (intro routed_cong) (simp_all add: add_qcnt_def set_pending_def table_upd_sta)
  ultimately show ?case unfolding l using Cons.IH [of ?u] Cons.prems by simp
qed simp

text \<open>C40. A station with association id 16 or more is outside the bitmaps: when it falls asleep its pending frames
  are not buffered, and as their queues are taken out of the schedule they are stuck.\<close>

theorem stop_sta_xmit_strands_high_aid:
  assumes "rtw_get_bcmc_stainfo (tbl s) = Some b" "b \<noteq> i" "16 \<le> aid (sta s i)" "length (sta_queue s) = 4"
    "\<forall>ac < 4. distinct (sta_queue s ! ac) \<and> (\<forall>x \<in> set (pending s i ac). routed s x i)"
    "\<forall>x \<in> set (pending s b 2). routed s x b" "stop_sta_xmit i s = Some s'" "ac < 4"
  shows "sleep_q (sta s' i) = sleep_q (sta s i) \<and> pending s' i ac = pending s i ac \<and> i \<notin> set (sta_queue s' ! ac)"
proof -
  let ?s0 = "set_dz (aid (sta s i)) (upd_ps i (\<lambda>p. p\<lparr>asleep := True\<rparr>) s)"
  define Q where "Q n t \<longleftrightarrow> sta t = sta s \<and> table t = table s \<and> fkey t = fkey s \<and> length (sta_queue t) = 4
    \<and> (\<forall>c < 4. distinct (sta_queue t ! c)) \<and> (\<forall>c < n. i \<notin> set (sta_queue t ! c))" for n t
  have Q0: "Q 0 ?s0" using assms(4,5) by (simp add: Q_def)
  have step: "Q (Suc n) (stop_queue i n t)" if "Q n t" "n < 4" for n t
  proof -
    have t: "sta t = sta s" "table t = table s" "fkey t = fkey s" using that(1) by (simp_all add: Q_def)
    have "routed t x i = routed s x i" for x by (rule routed_cong) (simp_all add: t)
    then have r: "\<forall>x \<in> set (pending t i n). routed t x i" using assms(5) that(2) t by (simp add: pending_def)
    let ?d = "dequeue_loop i n (pending t i n) t"
    have d: "sta ?d = sta t \<and> sta_queue ?d = sta_queue t \<and> table ?d = table t \<and> fkey ?d = fkey t"
      by (rule dequeue_loop_high [OF r]) (use assms(1-3) t table_obs(3) [OF t(2)] in simp_all)
    have "stop_queue i n t = set_sta_queue n (remove1 i (sta_queue t ! n)) ?d"
      using d by (simp add: stop_queue_def dequeue_xmitframes_to_sleeping_queue_def Let_def)
    then show ?thesis using d that by (auto simp: Q_def t nth_list_update less_Suc_eq)
  qed
  define s4 where "s4 = stop_queue i 3 (stop_queue i 2 (stop_queue i 1 (stop_queue i 0 ?s0)))"
  have q4: "Q 4 s4" using step [OF step [OF step [OF step [OF Q0]]]] by (simp add: s4_def numeral_eq_Suc)
  then have t: "sta s4 = sta s" "table s4 = table s" "fkey s4 = fkey s" by (simp_all add: Q_def)
  have "routed s4 x b = routed s x b" for x by (rule routed_cong) (simp_all add: t)
  then have r: "\<forall>x \<in> set (pending s4 b 2). routed s4 x b" using assms(6) t by (simp add: pending_def)
  note o = dequeue_loop_other [OF r assms(2), of 2]
  have "s' = stop_queue b 2 s4" using assms(1,7) by (simp add: stop_sta_xmit_def Let_def s4_def)
  then have "sta s' i = sta s i" "sta_queue s' = (sta_queue s4)[2 := remove1 b (sta_queue s4 ! 2)]"
    using o t by (simp_all add: stop_queue_def dequeue_xmitframes_to_sleeping_queue_def Let_def)
  moreover have "i \<notin> set (sta_queue s4 ! ac)" "i \<notin> set (remove1 b (sta_queue s4 ! 2))"
    using q4 assms(8) notin_set_remove1 [of i "sta_queue s4 ! 2" b] by (simp_all add: Q_def)
  ultimately show ?thesis using q4 assms(8) by (cases "ac = 2") (simp_all add: pending_def Q_def)
qed

definition ap_high :: tx_priv where
  "ap_high = (ap_demo [])\<lparr>
     tbl := (tbl (ap_demo []))\<lparr>pool := ap_pool[1 := (ap_pool ! 1)\<lparr>aid := 16, sta_pending := [[], [], [0], []], qcnt := [0, 0, 1, 0]\<rparr>]\<rparr>,
     sta_queue := [[], [], [1], []], frames := (\<lambda>_. ap_frame [2, 0, 0, 0, 0, 1] 1 0)\<rparr>"

lemma stop_sta_xmit_strands_high_aid_witness:
  "\<exists>s'. process_pwrbit_data [2, 0, 0, 0, 0, 1] True ap_high = Some s' \<and> sleep_q (sta s' 1) = []
     \<and> pending s' 1 2 = [0] \<and> 1 \<notin> set (sta_queue s' ! 2)"
proof -
  note d = ap_high_def ap_demo_defs
  have g: "rtw_get_bcmc_stainfo (tbl ap_high) = Some 0" "get_sta ap_high [2, 0, 0, 0, 0, 1] = Some 1"
    by code_simp+
  have h: "(0::nat) \<noteq> 1" "16 \<le> aid (sta ap_high 1)" "length (sta_queue ap_high) = 4" by (simp_all add: d)
  have p: "pending ap_high 1 0 = []" "pending ap_high 1 1 = []" "pending ap_high 1 2 = [0]" "pending ap_high 1 3 = []"
    "pending ap_high 0 2 = []" "sta_queue ap_high = [[], [], [1], []]" "\<not> asleep (ps ap_high ! 1)" "sleep_q (sta ap_high 1) = []"
    "linked (sta ap_high 1)" "frames ap_high 0 = ap_frame [2, 0, 0, 0, 0, 1] 1 0"
    by (simp_all add: d)
  have "routed ap_high 0 1" using g(2) p(9,10) by (simp add: routed_def ap_frame_def init_xframe_def)
  then have r: "\<forall>ac < 4. distinct (sta_queue ap_high ! ac) \<and> (\<forall>x \<in> set (pending ap_high 1 ac). routed ap_high x 1)"
    unfolding all_less_4 using p by simp
  obtain s' where s': "stop_sta_xmit 1 ap_high = Some s'" using g(1) by (simp add: stop_sta_xmit_def Let_def)
  have "sleep_q (sta s' 1) = [] \<and> pending s' 1 2 = [0] \<and> 1 \<notin> set (sta_queue s' ! 2)"
    using stop_sta_xmit_strands_high_aid [OF g(1) h r _ s', of 2] p by simp
  then show ?thesis using s' g(2) p(7) by (simp add: process_pwrbit_data_def)
qed

end
