(* ===== verification/Cam.thy ===== *)
theory Cam
  imports Bytes
begin

text \<open>
  The key table of the hardware (security CAM) as \<^verbatim>\<open>core/rtw_wlan_util.c\<close> manages it: the
  bitmap of used entries, the cached contents, the choice of an entry for a key
  (\<open>rtw_camid_alloc\<close>), and the six 32-bit words an entry is written as and read from.

  The hardware is the memory of words behind the registers: a write is an event, and reading
  takes the memory as an argument.
\<close>

section \<open>State\<close>

definition TOTAL_CAM_ENTRY :: nat where "TOTAL_CAM_ENTRY = 32"

record cam_entry_cache =
  ctrl :: u16
  mac :: bytes
  key :: bytes

record cam_ctl =
  bitmap :: u64
  cam_cache :: "cam_entry_cache list"

text \<open>\<open>BIT(x)\<close> is an \<open>int\<close>, sign extended when it meets the 64-bit bitmap.\<close>

definition BIT :: "nat \<Rightarrow> u64" where
  "BIT i = scast (push_bit i 1 :: 32 word)"

definition camid_used :: "u64 \<Rightarrow> nat \<Rightarrow> bool" where
  "camid_used b i \<longleftrightarrow> b AND BIT i \<noteq> 0"

section \<open>Contents\<close>

definition null_entry :: cam_entry_cache where
  "null_entry = \<lparr>ctrl = 0, mac = replicate 6 0, key = replicate 16 0\<rparr>"

definition write_cam_cache :: "nat \<Rightarrow> u16 \<Rightarrow> bytes \<Rightarrow> bytes \<Rightarrow> cam_ctl \<Rightarrow> cam_ctl" where
  "write_cam_cache i c m k s = s\<lparr>cam_cache := (cam_cache s)[i := \<lparr>ctrl = c, mac = take 6 m, key = take 16 k\<rparr>]\<rparr>"

definition clear_cam_cache :: "nat \<Rightarrow> cam_ctl \<Rightarrow> cam_ctl" where
  "clear_cam_cache i s = s\<lparr>cam_cache := (cam_cache s)[i := null_entry]\<rparr>"

definition le32 :: "u8 \<Rightarrow> u8 \<Rightarrow> u8 \<Rightarrow> u8 \<Rightarrow> u32" where
  "le32 a b c d = ucast a OR push_bit 8 (ucast b) OR push_bit 16 (ucast c) OR push_bit 24 (ucast d)"

text \<open>The words of an entry; word \<open>j\<close> goes to address \<open>8 * entry + j\<close>, word 5 first.\<close>

definition cam_word :: "u16 \<Rightarrow> bytes \<Rightarrow> bytes \<Rightarrow> nat \<Rightarrow> u32" where
  "cam_word c m k j =
     (if j = 0 then ucast c OR push_bit 16 (ucast (m ! 0)) OR push_bit 24 (ucast (m ! 1))
      else if j = 1 then le32 (m ! 2) (m ! 3) (m ! 4) (m ! 5)
      else (let i = 4 * (j - 2) in le32 (k ! i) (k ! (i + 1)) (k ! (i + 2)) (k ! (i + 3))))"

definition hw_write_cam :: "nat \<Rightarrow> u16 \<Rightarrow> bytes \<Rightarrow> bytes \<Rightarrow> (nat \<times> u32) list" where
  "hw_write_cam entry c m k = map (\<lambda>j. (8 * entry + j, cam_word c m k j)) [5, 4, 3, 2, 1, 0]"

definition write_cam :: "nat \<Rightarrow> u16 \<Rightarrow> bytes \<Rightarrow> bytes \<Rightarrow> cam_ctl \<Rightarrow> cam_ctl \<times> (nat \<times> u32) list" where
  "write_cam i c m k s = (write_cam_cache i c m k s, hw_write_cam i c m k)"

definition clear_cam_entry :: "nat \<Rightarrow> cam_ctl \<Rightarrow> cam_ctl \<times> (nat \<times> u32) list" where
  "clear_cam_entry i s = (clear_cam_cache i s, hw_write_cam i 0 (replicate 6 0) (replicate 16 0))"

definition write_cam_from_cache :: "nat \<Rightarrow> cam_ctl \<Rightarrow> (nat \<times> u32) list" where
  "write_cam_from_cache i s = (let e = cam_cache s ! i in hw_write_cam i (ctrl e) (mac e) (key e))"

text \<open>The words 2 to 5 of an entry, in memory order of a little-endian machine.\<close>

definition read_cam :: "(nat \<Rightarrow> u32) \<Rightarrow> nat \<Rightarrow> bytes" where
  "read_cam mem entry = concat (map (\<lambda>j. let w = mem (8 * entry + j)
     in [ucast w, ucast (drop_bit 8 w), ucast (drop_bit 16 w), ucast (drop_bit 24 w)]) [2, 3, 4, 5])"

section \<open>Choice of an entry\<close>

definition camid_is_gk :: "cam_ctl \<Rightarrow> nat \<Rightarrow> bool" where
  "camid_is_gk s i \<longleftrightarrow> i < TOTAL_CAM_ENTRY \<and> camid_used (bitmap s) i \<and> ctrl (cam_cache s ! i) AND 0x40 \<noteq> 0"

text \<open>The first entry with the address (any, for \<^term>\<open>None\<close>) and key index (any, if negative).\<close>

definition camid_search :: "cam_ctl \<Rightarrow> bytes option \<Rightarrow> int \<Rightarrow> nat option" where
  "camid_search s addr kid =
     List.find (\<lambda>i. (case addr of None \<Rightarrow> True | Some a \<Rightarrow> mac (cam_cache s ! i) = a)
         \<and> \<not> (0 \<le> kid \<and> kid \<noteq> uint (ctrl (cam_cache s ! i) AND 3)))
       [0..<TOTAL_CAM_ENTRY]"

definition WIFI_FW_AP_STATE :: u32 where "WIFI_FW_AP_STATE = 3"

definition WIFI_FW_ADHOC_STATE :: u32 where "WIFI_FW_ADHOC_STATE = 1"

definition WIFI_FW_ASSOC_SUCCESS :: u32 where "WIFI_FW_ASSOC_SUCCESS = 0x4000"

definition camid_first_free :: "u64 \<Rightarrow> nat option" where
  "camid_first_free b = List.find (\<lambda>i. \<not> camid_used b i) [4..<TOTAL_CAM_ENTRY]"

text \<open>\<open>state\<close> is \<open>pmlmeinfo->state\<close>, \<open>sta\<close> the address of the peer for a pairwise key and
  \<^term>\<open>None\<close> for a group key. \<^term>\<open>None\<close> is the result -1.\<close>

definition camid_choose :: "u32 \<Rightarrow> bytes \<Rightarrow> bytes option \<Rightarrow> nat \<Rightarrow> cam_ctl \<Rightarrow> nat option" where
  "camid_choose state bssid sta kid s =
     (if (state AND 3 = WIFI_FW_AP_STATE \<or> state AND 3 = WIFI_FW_ADHOC_STATE) \<and> sta = None
      then (if 3 < kid then None else Some kid)
      else if sta = None \<and> state AND WIFI_FW_ASSOC_SUCCESS = 0 then None
      else (case camid_search s (Some (case sta of None \<Rightarrow> bssid | Some a \<Rightarrow> a)) (int kid) of
              Some i \<Rightarrow> if sta \<noteq> None \<or> camid_is_gk s i then Some i else None
            | None \<Rightarrow> camid_first_free (bitmap s)))"

definition rtw_camid_alloc :: "u32 \<Rightarrow> bytes \<Rightarrow> bytes option \<Rightarrow> nat \<Rightarrow> cam_ctl \<Rightarrow> nat option \<times> cam_ctl" where
  "rtw_camid_alloc state bssid sta kid s =
     (case camid_choose state bssid sta kid s of
        None \<Rightarrow> (None, s)
      | Some i \<Rightarrow> (Some i, s\<lparr>bitmap := bitmap s OR BIT i\<rparr>))"

definition rtw_camid_free :: "nat \<Rightarrow> cam_ctl \<Rightarrow> cam_ctl" where
  "rtw_camid_free i s = (if i < TOTAL_CAM_ENTRY then s\<lparr>bitmap := bitmap s AND NOT (BIT i)\<rparr> else s)"

text \<open>The static assignment, for a driver built without \<open>DYNAMIC_CAMID_ALLOC\<close>.\<close>

definition rtw_get_camid :: "u32 \<Rightarrow> nat option \<Rightarrow> int" where
  "rtw_get_camid state macid =
     (case macid of
        None \<Rightarrow> - 1
      | Some m \<Rightarrow>
          if state AND 3 = WIFI_FW_AP_STATE \<and> (m = 1 \<or> 28 < m) then - 1
          else if m = 0 then 4
          else if 2 \<le> m then int m + 3
          else 4)"

section \<open>Key handlers\<close>

text \<open>\<open>setkey_hdl\<close>, \<open>set_stakey_hdl\<close> of \<^verbatim>\<open>core/rtw_mlme_ext.c\<close>, \<open>rtw_clearstakey_cmd\<close> without
  the queue of \<^verbatim>\<open>core/rtw_cmd.c\<close>, and \<open>flush_all_cam_entry\<close> of a driver with one interface.
  What they write besides the table is an event: registers, and the fields \<open>key_index\<close>, \<open>enc_algo\<close> and
  \<open>FW_sta_info\<close> of \<open>mlme_ext_info\<close>.\<close>

datatype cam_event = Cam_write nat u32 | Cam_invalid_all | Sec_dk_cfg bool | On_rcr_am
  | Key_index u8 | Enc_algo u8 | Fw_sta_info_reset

datatype h2c_result = H2C_SUCCESS | H2C_SUCCESS_RSP | H2C_REJECTED

definition cam_writes :: "(nat \<times> u32) list \<Rightarrow> cam_event list" where
  "cam_writes = map (\<lambda>(a, v). Cam_write a v)"

definition setkey_hdl ::
  "u32 \<Rightarrow> bytes \<Rightarrow> u8 \<Rightarrow> u8 \<Rightarrow> u8 \<Rightarrow> bytes \<Rightarrow> cam_ctl \<Rightarrow> nat option \<times> cam_ctl \<times> cam_event list" where
  "setkey_hdl state bssid set_tx algorithm keyid k s =
     (let tx = (if set_tx \<noteq> 0 then [Key_index keyid] else [])
      in case rtw_camid_alloc state bssid None (unat keyid) s of
           (None, s) \<Rightarrow> (None, s, tx @ [On_rcr_am])
         | (Some i, s) \<Rightarrow>
             (let addr = (if 3 < i then bssid else replicate 6 0);
                  c = 0x8000 OR 0x40 OR push_bit 2 (ucast algorithm) OR ucast keyid;
                  (s, ws) = write_cam i c addr k s
              in (Some i, s, tx @ cam_writes ws @ (if i \<le> 3 then [Sec_dk_cfg True] else []) @ [On_rcr_am])))"

text \<open>The loop ends when no entry has the address; \<^term>\<open>None\<close> is no end.\<close>

partial_function (option) clear_peer :: "bytes \<Rightarrow> cam_ctl \<Rightarrow> cam_event list \<Rightarrow> (cam_ctl \<times> cam_event list) option" where
  "clear_peer addr s evs =
     (case camid_search s (Some addr) (- 1) of
        None \<Rightarrow> Some (s, evs)
      | Some i \<Rightarrow>
          (let (s, ws) = clear_cam_entry i s in clear_peer addr (rtw_camid_free i s) (evs @ cam_writes ws)))"

text \<open>\<open>known\<close>: the station table has an entry for \<open>addr\<close>.\<close>

definition set_stakey_hdl ::
  "u32 \<Rightarrow> bytes \<Rightarrow> bool \<Rightarrow> bytes \<Rightarrow> u8 \<Rightarrow> u8 \<Rightarrow> bytes \<Rightarrow> cam_ctl
    \<Rightarrow> (h2c_result \<times> cam_ctl \<times> cam_event list) option" where
  "set_stakey_hdl state bssid known addr algorithm keyid k s =
     (if algorithm = 0 then
        (case clear_peer addr s [] of None \<Rightarrow> None | Some (s, evs) \<Rightarrow> Some (H2C_SUCCESS_RSP, s, evs))
      else if \<not> known then Some (H2C_REJECTED, s, [])
      else (case rtw_camid_alloc state bssid (Some addr) 0 s of
              (None, s) \<Rightarrow> Some (H2C_SUCCESS, s, [Enc_algo algorithm])
            | (Some i, s) \<Rightarrow>
                (let c = 0x8000 OR push_bit 2 (ucast algorithm) OR ucast keyid;
                     (s, ws) = write_cam i c addr k s
                 in Some (H2C_SUCCESS_RSP, s, Enc_algo algorithm # cam_writes ws))))"

definition rtw_clearstakey_cmd :: "bytes \<Rightarrow> cam_ctl \<Rightarrow> (cam_ctl \<times> cam_event list) option" where
  "rtw_clearstakey_cmd addr s = clear_peer addr s []"

definition invalidate_cam_all :: "cam_ctl \<Rightarrow> cam_ctl \<times> cam_event list" where
  "invalidate_cam_all s = (s\<lparr>bitmap := 0, cam_cache := replicate TOTAL_CAM_ENTRY null_entry\<rparr>, [Cam_invalid_all])"

definition flush_all_cam_entry :: "cam_ctl \<Rightarrow> cam_ctl \<times> cam_event list" where
  "flush_all_cam_entry s =
     (let (s, evs) = invalidate_cam_all s in (s, evs @ [Sec_dk_cfg False, Fw_sta_info_reset]))"

section \<open>Pools of ids\<close>

text \<open>What the allocators of numbered resources promise: a fresh id of the pool, unless all are taken.\<close>

locale id_pool =
  fixes ids :: "nat set" and good :: "'s \<Rightarrow> bool" and taken :: "'s \<Rightarrow> nat set"
    and take_id :: "'s \<Rightarrow> (nat \<times> 's) option" and drop_id :: "nat \<Rightarrow> 's \<Rightarrow> 's"
  assumes finite_ids: "finite ids"
    and take_law: "good s \<Longrightarrow> take_id s = Some (i, s') \<Longrightarrow>
      i \<in> ids \<and> i \<notin> taken s \<and> taken s' = insert i (taken s) \<and> good s'"
    and take_none_law: "good s \<Longrightarrow> take_id s = None \<Longrightarrow> ids \<subseteq> taken s"
    and drop_law: "good s \<Longrightarrow> i \<in> ids \<Longrightarrow> taken (drop_id i s) = taken s - {i} \<and> good (drop_id i s)"
begin

fun take_ids :: "nat \<Rightarrow> 's \<Rightarrow> (nat list \<times> 's) option" where
  "take_ids 0 s = Some ([], s)"
| "take_ids (Suc n) s = (case take_id s of None \<Rightarrow> None
     | Some (i, s) \<Rightarrow> (case take_ids n s of None \<Rightarrow> None | Some (is, s) \<Rightarrow> Some (i # is, s)))"

lemma take_ids_fresh:
  "good s \<Longrightarrow> take_ids n s = Some (is, s') \<Longrightarrow>
    distinct is \<and> length is = n \<and> set is \<subseteq> ids - taken s \<and> taken s' = taken s \<union> set is \<and> good s'"
proof (induction n arbitrary: s "is")
  case (Suc n)
  then obtain i s1 js where t: "take_id s = Some (i, s1)" "take_ids n s1 = Some (js, s')" "is = i # js"
    by (auto split: option.splits)
  with take_law [OF Suc.prems(1) t(1)] Suc.IH [OF _ t(2)] show ?case by auto
qed simp

lemma take_ids_available: "good s \<Longrightarrow> n \<le> card (ids - taken s) \<Longrightarrow> take_ids n s \<noteq> None"
proof (induction n arbitrary: s)
  case (Suc n)
  have "ids - taken s \<noteq> {}"
  proof
    assume "ids - taken s = {}"
    then have "card (ids - taken s) = 0" by (simp only: card.empty)
    then show False using Suc.prems(2) by simp
  qed
  then have "take_id s \<noteq> None" using take_none_law [OF Suc.prems(1)] by blast
  then obtain i s1 where t: "take_id s = Some (i, s1)" by auto
  note l = take_law [OF Suc.prems(1) t]
  have "ids - taken s1 = (ids - taken s) - {i}" using l by auto
  then have "n \<le> card (ids - taken s1)" using Suc.prems(2) l finite_ids by simp
  then show ?case using Suc.IH [of s1] l t by (auto split: option.splits)
qed simp

lemma take_drop: "good s \<Longrightarrow> take_id s = Some (i, s') \<Longrightarrow> taken (drop_id i s') = taken s"
  using take_law [of s i s'] drop_law [of s' i] by auto

end

section \<open>The bitmap\<close>

lemma bit_BIT: "i < 32 \<Longrightarrow> bit (BIT i) k \<longleftrightarrow> k < 64 \<and> (k = i \<or> (i = 31 \<and> 31 \<le> k))"
  by (auto simp: BIT_def bit_signed_iff bit_push_bit_iff bit_exp_iff min_def)

lemma camid_used_iff: "i < 32 \<Longrightarrow> camid_used b i \<longleftrightarrow> bit b i \<or> (i = 31 \<and> (\<exists>k \<ge> 31. bit b k))"
proof -
  assume i: "i < 32"
  have "camid_used b i \<longleftrightarrow> (\<exists>k. bit (b AND BIT i) k)"
    unfolding camid_used_def by (metis bit_0_eq bit_eqI bot_apply bot_bool_def)
  also have "\<dots> \<longleftrightarrow> (\<exists>k. bit b k \<and> k < 64 \<and> (k = i \<or> (i = 31 \<and> 31 \<le> k)))"
    by (auto simp: bit_and_iff bit_BIT [OF i])
  also have "\<dots> \<longleftrightarrow> bit b i \<or> (i = 31 \<and> (\<exists>k \<ge> 31. bit b k))"
    using i bit_imp_le_length [of b] by fastforce
  finally show ?thesis .
qed

lemma camid_used_or: "i < 32 \<Longrightarrow> j < 32 \<Longrightarrow> camid_used (b OR BIT i) j \<longleftrightarrow> i = j \<or> camid_used b j"
  by (auto simp: camid_used_iff bit_or_iff bit_BIT)

lemma camid_used_and_not: "i < 32 \<Longrightarrow> j < 32 \<Longrightarrow> camid_used (b AND NOT (BIT i)) j \<longleftrightarrow> i \<noteq> j \<and> camid_used b j"
  using bit_imp_le_length [of b] by (auto simp: camid_used_iff bit_and_iff bit_not_iff bit_BIT)

lemma camid_used_0: "\<not> camid_used 0 i"
  by (simp add: camid_used_def)

section \<open>Invariant\<close>

definition null_mac :: bytes where "null_mac = replicate 6 0"

text \<open>Entries not in the bitmap hold no address, and the four default entries never do.\<close>

definition cam_wf :: "cam_ctl \<Rightarrow> bool" where
  "cam_wf s \<longleftrightarrow> length (cam_cache s) = TOTAL_CAM_ENTRY
     \<and> (\<forall>i < TOTAL_CAM_ENTRY. (i < 4 \<or> \<not> camid_used (bitmap s) i) \<longrightarrow> mac (cam_cache s ! i) = null_mac)"

lemma find_Some_iff: "List.find P xs = Some x \<Longrightarrow> P x \<and> x \<in> set xs"
  by (induction xs) (auto split: if_splits)

lemma find_None_iff2: "List.find P xs = None \<longleftrightarrow> (\<forall>x \<in> set xs. \<not> P x)"
  by (induction xs) auto

lemma camid_search_Some:
  "camid_search s (Some a) k = Some i \<Longrightarrow> i < TOTAL_CAM_ENTRY \<and> mac (cam_cache s ! i) = a"
  unfolding camid_search_def by (auto dest!: find_Some_iff)

lemma camid_search_None:
  "camid_search s (Some a) (- 1) = None \<longleftrightarrow> (\<forall>i < TOTAL_CAM_ENTRY. mac (cam_cache s ! i) \<noteq> a)"
  unfolding camid_search_def find_None_iff2 by auto

lemma camid_first_free_Some:
  "camid_first_free b = Some i \<Longrightarrow> 4 \<le> i \<and> i < TOTAL_CAM_ENTRY \<and> \<not> camid_used b i"
  unfolding camid_first_free_def by (auto dest!: find_Some_iff)

lemma camid_first_free_None:
  "camid_first_free b = None \<longleftrightarrow> (\<forall>i. 4 \<le> i \<and> i < TOTAL_CAM_ENTRY \<longrightarrow> camid_used b i)"
  unfolding camid_first_free_def find_None_iff2 by auto

lemma invalidate_wf: "cam_wf (fst (invalidate_cam_all s))"
  by (simp add: cam_wf_def invalidate_cam_all_def null_entry_def null_mac_def)

text \<open>The dynamic entries are a pool of ids.\<close>

definition camid_take :: "u64 \<Rightarrow> (nat \<times> u64) option" where
  "camid_take b = (case camid_first_free b of None \<Rightarrow> None | Some i \<Rightarrow> Some (i, b OR BIT i))"

interpretation cam_pool: id_pool "{4..<TOTAL_CAM_ENTRY}" "\<lambda>_. True" "\<lambda>b. {i. i < TOTAL_CAM_ENTRY \<and> camid_used b i}"
  camid_take "\<lambda>i b. bitmap (rtw_camid_free i \<lparr>bitmap = b, cam_cache = []\<rparr>)"
proof (unfold_locales, goal_cases)
  case (2 s i s')
  then show ?case
    by (auto simp: camid_take_def TOTAL_CAM_ENTRY_def camid_used_or split: option.splits
        dest!: camid_first_free_Some)
next
  case (3 s)
  then show ?case by (auto simp: camid_take_def camid_first_free_None split: option.splits)
next
  case (4 s i)
  then show ?case by (auto simp: rtw_camid_free_def TOTAL_CAM_ENTRY_def camid_used_and_not)
qed simp

section \<open>Clearing the keys of a peer\<close>

definition clear_one :: "nat \<Rightarrow> cam_ctl \<Rightarrow> cam_ctl" where
  "clear_one i s = rtw_camid_free i (clear_cam_cache i s)"

lemma clear_peer_step:
  "camid_search s (Some a) (- 1) = Some i \<Longrightarrow> clear_peer a s evs
    = clear_peer a (clear_one i s) (evs @ cam_writes (hw_write_cam i 0 (replicate 6 0) (replicate 16 0)))"
  by (subst clear_peer.simps) (simp add: clear_cam_entry_def clear_one_def)

lemma clear_one_cache:
  "length (cam_cache s) = TOTAL_CAM_ENTRY \<Longrightarrow> i < TOTAL_CAM_ENTRY \<Longrightarrow>
    cam_cache (clear_one i s) ! j = (if j = i then null_entry else cam_cache s ! j)"
  by (simp add: clear_one_def rtw_camid_free_def clear_cam_cache_def)

lemma clear_one_used:
  "i < TOTAL_CAM_ENTRY \<Longrightarrow> j < TOTAL_CAM_ENTRY \<Longrightarrow>
    camid_used (bitmap (clear_one i s)) j \<longleftrightarrow> j \<noteq> i \<and> camid_used (bitmap s) j"
  by (auto simp: clear_one_def rtw_camid_free_def clear_cam_cache_def TOTAL_CAM_ENTRY_def camid_used_and_not)

lemma clear_one_wf: "cam_wf s \<Longrightarrow> i < TOTAL_CAM_ENTRY \<Longrightarrow> cam_wf (clear_one i s)"
  using clear_one_cache [of s i] clear_one_used [of i _ s]
  by (simp add: cam_wf_def null_entry_def null_mac_def)
    (simp add: clear_one_def rtw_camid_free_def clear_cam_cache_def)

definition held :: "bytes \<Rightarrow> cam_ctl \<Rightarrow> nat set" where
  "held a s = {i. i < TOTAL_CAM_ENTRY \<and> mac (cam_cache s ! i) = a}"

lemma clear_peer_ends:
  assumes "cam_wf s" "a \<noteq> null_mac"
  shows "\<exists>s' evs'. clear_peer a s evs = Some (s', evs') \<and> cam_wf s'
    \<and> (\<forall>i < TOTAL_CAM_ENTRY. cam_cache s' ! i = (if i \<in> held a s then null_entry else cam_cache s ! i)
        \<and> (camid_used (bitmap s') i \<longleftrightarrow> i \<notin> held a s \<and> camid_used (bitmap s) i))"
  using assms
proof (induction "card (held a s)" arbitrary: s evs)
  case 0
  have "finite (held a s)" by (simp add: held_def)
  then have h: "held a s = {}" using 0(1) by simp
  then have "camid_search s (Some a) (- 1) = None" by (auto simp: camid_search_None held_def)
  then have "clear_peer a s evs = Some (s, evs)" by (subst clear_peer.simps) simp
  then show ?case using h 0(2) by simp
next
  case (Suc n)
  have "camid_search s (Some a) (- 1) \<noteq> None"
  proof
    assume "camid_search s (Some a) (- 1) = None"
    then have "held a s = {}" by (auto simp: camid_search_None held_def)
    then show False using Suc.hyps(2) by simp
  qed
  then obtain i where i: "camid_search s (Some a) (- 1) = Some i" by auto
  note si = camid_search_Some [OF i]
  have l: "length (cam_cache s) = TOTAL_CAM_ENTRY" using Suc.prems(1) by (simp add: cam_wf_def)
  have h: "held a (clear_one i s) = held a s - {i}"
    using si Suc.prems(2) by (auto simp: held_def clear_one_cache [OF l] null_entry_def null_mac_def)
  moreover have "i \<in> held a s" using si by (simp add: held_def)
  ultimately have "n = card (held a (clear_one i s))" using Suc.hyps(2) by simp
  from Suc.hyps(1) [OF this clear_one_wf [OF Suc.prems(1)] Suc.prems(2)] si
  obtain s' evs' where r: "clear_peer a (clear_one i s) (evs @ cam_writes (hw_write_cam i 0 (replicate 6 0) (replicate 16 0))) = Some (s', evs')"
    "cam_wf s'" "\<forall>j < TOTAL_CAM_ENTRY. cam_cache s' ! j = (if j \<in> held a (clear_one i s) then null_entry else cam_cache (clear_one i s) ! j)
        \<and> (camid_used (bitmap s') j \<longleftrightarrow> j \<notin> held a (clear_one i s) \<and> camid_used (bitmap (clear_one i s)) j)"
    by blast
  have "cam_cache s' ! j = (if j \<in> held a s then null_entry else cam_cache s ! j)
      \<and> (camid_used (bitmap s') j \<longleftrightarrow> j \<notin> held a s \<and> camid_used (bitmap s) j)" if "j < TOTAL_CAM_ENTRY" for j
    using r(3) that si \<open>i \<in> held a s\<close> by (auto simp: h clear_one_cache [OF l] clear_one_used)
  then show ?case using clear_peer_step [OF i] r(1,2) by auto
qed

lemma clear_peer_no_null:
  assumes "clear_peer a s evs = Some r"
  shows "a = null_mac \<longrightarrow> length (cam_cache s) = TOTAL_CAM_ENTRY
    \<longrightarrow> (\<forall>i < TOTAL_CAM_ENTRY. mac (cam_cache s ! i) \<noteq> null_mac)"
proof (rule clear_peer.raw_induct [OF _ assms], intro impI)
  fix f a s evs r
  assume ih: "\<And>a s evs r. f a s evs = Some r \<Longrightarrow> a = null_mac \<longrightarrow> length (cam_cache s) = TOTAL_CAM_ENTRY
      \<longrightarrow> (\<forall>i < TOTAL_CAM_ENTRY. mac (cam_cache s ! i) \<noteq> null_mac)"
    and r: "(case camid_search s (Some a) (- 1) of None \<Rightarrow> Some (s, evs)
      | Some i \<Rightarrow> let (s, ws) = clear_cam_entry i s in f a (rtw_camid_free i s) (evs @ cam_writes ws)) = Some r"
    and a: "a = null_mac" "length (cam_cache s) = TOTAL_CAM_ENTRY"
  show "\<forall>i < TOTAL_CAM_ENTRY. mac (cam_cache s ! i) \<noteq> null_mac"
  proof (cases "camid_search s (Some null_mac) (- 1)")
    case None
    then show ?thesis by (simp add: camid_search_None)
  next
    case (Some i)
    let ?s = "clear_one i s"
    obtain e where "f a ?s e = Some r" using r Some a(1) by (auto simp: clear_cam_entry_def clear_one_def)
    moreover have "length (cam_cache ?s) = TOTAL_CAM_ENTRY"
      using a(2) by (simp add: clear_one_def rtw_camid_free_def clear_cam_cache_def)
    moreover have "mac (cam_cache ?s ! i) = null_mac"
      using camid_search_Some [OF Some] clear_one_cache [OF a(2), of i i] by (simp add: null_entry_def null_mac_def)
    ultimately have False using ih a(1) camid_search_Some [OF Some] by blast
    then show ?thesis ..
  qed
qed

lemma clear_peer_null_loops:
  "length (cam_cache s) = TOTAL_CAM_ENTRY \<Longrightarrow> \<exists>i < TOTAL_CAM_ENTRY. mac (cam_cache s ! i) = null_mac
    \<Longrightarrow> clear_peer null_mac s evs = None"
  using clear_peer_no_null [of null_mac s evs] by (cases "clear_peer null_mac s evs") auto

section \<open>Installing keys\<close>

lemma or_bit_wf:
  assumes "cam_wf s" "i < TOTAL_CAM_ENTRY" "i < 4 \<longrightarrow> m = null_mac" "m = take 6 m'"
  shows "cam_wf (write_cam_cache i c m' k (s\<lparr>bitmap := bitmap s OR BIT i\<rparr>))"
  using assms unfolding cam_wf_def
  by (auto simp: write_cam_cache_def nth_list_update TOTAL_CAM_ENTRY_def camid_used_or)

lemma camid_alloc_state:
  "rtw_camid_alloc state bssid sta kid s = (r, s') \<longleftrightarrow> r = camid_choose state bssid sta kid s
    \<and> s' = (case r of None \<Rightarrow> s | Some i \<Rightarrow> s\<lparr>bitmap := bitmap s OR BIT i\<rparr>)"
  by (auto simp: rtw_camid_alloc_def split: option.splits)

lemma choose_pairwise:
  assumes "cam_wf s" "a \<noteq> null_mac" "camid_choose state bssid (Some a) kid s = Some i"
  shows "4 \<le> i" "i < TOTAL_CAM_ENTRY" "mac (cam_cache s ! i) = a \<or> (\<not> camid_used (bitmap s) i \<and> mac (cam_cache s ! i) = null_mac)"
proof -
  have "(i < TOTAL_CAM_ENTRY \<and> mac (cam_cache s ! i) = a) \<or> (4 \<le> i \<and> i < TOTAL_CAM_ENTRY \<and> \<not> camid_used (bitmap s) i)"
    using assms(3) camid_search_Some [of s a "int kid" i] camid_first_free_Some [of "bitmap s" i]
    by (auto simp: camid_choose_def split: option.splits if_splits)
  with assms(1,2) show "4 \<le> i" "i < TOTAL_CAM_ENTRY"
    "mac (cam_cache s ! i) = a \<or> (\<not> camid_used (bitmap s) i \<and> mac (cam_cache s ! i) = null_mac)"
    by (auto simp: cam_wf_def not_less [symmetric])
qed

lemma choose_group:
  assumes "cam_wf s" "bssid \<noteq> null_mac" "camid_choose state bssid None kid s = Some i"
  shows "i < TOTAL_CAM_ENTRY" "mac (cam_cache s ! i) = null_mac \<or> ctrl (cam_cache s ! i) AND 0x40 \<noteq> 0"
proof -
  have "i \<le> 3 \<or> (i < TOTAL_CAM_ENTRY \<and> (camid_is_gk s i \<or> \<not> camid_used (bitmap s) i))"
    using assms(3) camid_search_Some [of s bssid "int kid" i] camid_first_free_Some [of "bitmap s" i]
    by (auto simp: camid_choose_def split: option.splits if_splits)
  with assms(1) show "i < TOTAL_CAM_ENTRY" "mac (cam_cache s ! i) = null_mac \<or> ctrl (cam_cache s ! i) AND 0x40 \<noteq> 0"
    by (auto simp: cam_wf_def camid_is_gk_def TOTAL_CAM_ENTRY_def)
qed

section \<open>Words of an entry\<close>

lemma le32_bytes:
  "ucast (le32 a b c d) = a" "ucast (drop_bit 8 (le32 a b c d)) = b"
  "ucast (drop_bit 16 (le32 a b c d)) = c" "ucast (drop_bit 24 (le32 a b c d)) = d"
  unfolding le32_def by (rule bit_word_eqI; auto simp: bit_simps dest: bit_imp_le_length)+

text \<open>The memory after the writes.\<close>

definition cam_memory :: "(nat \<times> u32) list \<Rightarrow> (nat \<Rightarrow> u32) \<Rightarrow> nat \<Rightarrow> u32" where
  "cam_memory ws mem = foldl (\<lambda>m (a, v). m(a := v)) mem ws"

lemma cam_memory_write:
  "j < 6 \<Longrightarrow> cam_memory (hw_write_cam e c m k) mem (8 * e + j) = cam_word c m k j"
  "a div 8 \<noteq> e \<Longrightarrow> cam_memory (hw_write_cam e c m k) mem a = mem a"
proof -
  assume "j < 6"
  then have "j = 0 \<or> j = 1 \<or> j = 2 \<or> j = 3 \<or> j = 4 \<or> j = 5" by auto
  then show "cam_memory (hw_write_cam e c m k) mem (8 * e + j) = cam_word c m k j"
    by (auto simp: cam_memory_def hw_write_cam_def)
next
  assume "a div 8 \<noteq> e"
  then have "a \<noteq> 8 * e + j" if "j < 6" for j using that by auto
  from this [of 0] this [of 1] this [of 2] this [of 3] this [of 4] this [of 5]
  show "cam_memory (hw_write_cam e c m k) mem a = mem a"
    by (simp add: cam_memory_def hw_write_cam_def)
qed

lemma read_cam_write:
  assumes "length k = 16"
  shows "read_cam (cam_memory (hw_write_cam e c m k) mem) e = k"
    "e' \<noteq> e \<Longrightarrow> read_cam (cam_memory (hw_write_cam e c m k) mem) e' = read_cam mem e'"
proof -
  have w: "cam_memory (hw_write_cam e c m k) mem (8 * e + j) = le32 (k ! (4 * (j - 2))) (k ! (4 * (j - 2) + 1))
      (k ! (4 * (j - 2) + 2)) (k ! (4 * (j - 2) + 3))" if "2 \<le> j" "j < 6" for j
    using that by (simp add: cam_memory_write cam_word_def Let_def)
  have "map ((!) k) [0..<16] = k" using assms by (metis map_nth)
  then have k: "[k ! 0, k ! 1, k ! 2, k ! 3, k ! 4, k ! 5, k ! 6, k ! 7, k ! 8, k ! 9, k ! 10, k ! 11,
      k ! 12, k ! 13, k ! 14, k ! 15] = k"
    by (simp add: upt_rec numeral_eq_Suc)
  show "read_cam (cam_memory (hw_write_cam e c m k) mem) e = k"
    by (subst (2) k [symmetric]) (simp add: read_cam_def w [of 2, simplified] w [of 3] w [of 4] w [of 5] le32_bytes Let_def flip: numeral_2_eq_2)
  assume "e' \<noteq> e"
  then show "read_cam (cam_memory (hw_write_cam e c m k) mem) e' = read_cam mem e'"
    by (simp add: read_cam_def cam_memory_write(2))
qed

section \<open>Cache and hardware\<close>

text \<open>The memory holds what the cache says of every entry.\<close>

definition cam_mirrors :: "(nat \<Rightarrow> u32) \<Rightarrow> cam_ctl \<Rightarrow> bool" where
  "cam_mirrors mem s \<longleftrightarrow> (\<forall>i < TOTAL_CAM_ENTRY. \<forall>j < 6.
     mem (8 * i + j) = cam_word (ctrl (cam_cache s ! i)) (mac (cam_cache s ! i)) (key (cam_cache s ! i)) j)"

definition cam_effect :: "cam_event list \<Rightarrow> (nat \<Rightarrow> u32) \<Rightarrow> nat \<Rightarrow> u32" where
  "cam_effect evs mem = foldl (\<lambda>m e. case e of Cam_write a v \<Rightarrow> m(a := v) | _ \<Rightarrow> m) mem evs"

lemma cam_effect_append: "cam_effect (xs @ ys) mem = cam_effect ys (cam_effect xs mem)"
  by (simp add: cam_effect_def)

lemma cam_effect_writes: "cam_effect (cam_writes ws) mem = cam_memory ws mem"
  unfolding cam_effect_def cam_memory_def cam_writes_def by (induction ws arbitrary: mem) auto

lemma cam_effect_other:
  "cam_effect (Enc_algo a # evs) mem = cam_effect evs mem" "cam_effect (Key_index a # evs) mem = cam_effect evs mem"
  "cam_effect (Sec_dk_cfg b # evs) mem = cam_effect evs mem" "cam_effect (On_rcr_am # evs) mem = cam_effect evs mem"
  "cam_effect [] mem = mem"
  by (simp_all add: cam_effect_def)

lemma cam_word_take: "length m = 6 \<Longrightarrow> j < 6 \<Longrightarrow> length k = 16 \<Longrightarrow> cam_word c (take 6 m) (take 16 k) j = cam_word c m k j"
  by (simp add: cam_word_def Let_def)

lemma mirrors_update:
  assumes "cam_mirrors mem s" "cam_cache s' = (cam_cache s)[i := e]" "length (cam_cache s) = TOTAL_CAM_ENTRY" "i < TOTAL_CAM_ENTRY"
    and "\<And>j. j < 6 \<Longrightarrow> cam_word c m k j = cam_word (ctrl e) (mac e) (key e) j"
  shows "cam_mirrors (cam_memory (hw_write_cam i c m k) mem) s'"
  unfolding cam_mirrors_def
proof (intro allI impI)
  fix i' j :: nat
  assume "i' < TOTAL_CAM_ENTRY" "j < 6"
  then show "cam_memory (hw_write_cam i c m k) mem (8 * i' + j)
      = cam_word (ctrl (cam_cache s' ! i')) (mac (cam_cache s' ! i')) (key (cam_cache s' ! i')) j"
    using assms by (cases "i' = i") (simp_all add: cam_memory_write cam_mirrors_def)
qed

lemma clear_peer_mirrors:
  assumes "clear_peer a s evs = Some (s', evs')"
  shows "cam_mirrors (cam_effect evs mem) s \<longrightarrow> length (cam_cache s) = TOTAL_CAM_ENTRY \<longrightarrow> cam_mirrors (cam_effect evs' mem) s'"
proof -
  have "cam_mirrors (cam_effect evs mem) s \<longrightarrow> length (cam_cache s) = TOTAL_CAM_ENTRY
      \<longrightarrow> (\<lambda>(s', evs'). cam_mirrors (cam_effect evs' mem) s') (s', evs')"
  proof (rule clear_peer.raw_induct [OF _ assms, where P = "\<lambda>a s evs r. cam_mirrors (cam_effect evs mem) s
        \<longrightarrow> length (cam_cache s) = TOTAL_CAM_ENTRY \<longrightarrow> (\<lambda>(s', evs'). cam_mirrors (cam_effect evs' mem) s') r"], intro impI)
    fix f a s evs r
    assume ih: "\<And>a s evs r. f a s evs = Some r \<Longrightarrow> cam_mirrors (cam_effect evs mem) s
        \<longrightarrow> length (cam_cache s) = TOTAL_CAM_ENTRY \<longrightarrow> (\<lambda>(s', evs'). cam_mirrors (cam_effect evs' mem) s') r"
      and r: "(case camid_search s (Some a) (- 1) of None \<Rightarrow> Some (s, evs)
        | Some i \<Rightarrow> let (s, ws) = clear_cam_entry i s in f a (rtw_camid_free i s) (evs @ cam_writes ws)) = Some r"
      and a: "cam_mirrors (cam_effect evs mem) s" "length (cam_cache s) = TOTAL_CAM_ENTRY"
    show "(\<lambda>(s', evs'). cam_mirrors (cam_effect evs' mem) s') r"
    proof (cases "camid_search s (Some a) (- 1)")
      case None
      then show ?thesis using r a by auto
    next
      case (Some i)
      note i = camid_search_Some [OF Some]
      let ?s = "rtw_camid_free i (clear_cam_cache i s)"
        and ?ws = "hw_write_cam i 0 (replicate 6 0) (replicate 16 0)"
      have f: "f a ?s (evs @ cam_writes ?ws) = Some r" using r Some by (simp add: clear_cam_entry_def)
      have c: "cam_cache ?s = (cam_cache s)[i := null_entry]"
        by (simp add: rtw_camid_free_def clear_cam_cache_def)
      have "cam_mirrors (cam_memory ?ws (cam_effect evs mem)) ?s"
        by (rule mirrors_update [OF a(1) c a(2)]) (use i in \<open>simp_all add: null_entry_def\<close>)
      then show ?thesis using ih [OF f] a(2) c by (simp add: cam_effect_append cam_effect_writes)
    qed
  qed
  then show ?thesis by simp
qed

lemma handler_writes:
  assumes "cam_mirrors mem s" "length (cam_cache s) = TOTAL_CAM_ENTRY" "i < TOTAL_CAM_ENTRY" "length m = 6" "length k = 16"
  shows "cam_mirrors (cam_memory (hw_write_cam i c m k) mem) (write_cam_cache i c m k (s\<lparr>bitmap := b\<rparr>))"
  by (rule mirrors_update [OF assms(1), where e = "\<lparr>ctrl = c, mac = take 6 m, key = take 16 k\<rparr>"])
    (use assms in \<open>simp_all add: write_cam_cache_def cam_word_take\<close>)

section \<open>Sequences of key commands\<close>

text \<open>The addresses and keys of the commands have the lengths of their arrays.\<close>

datatype cam_cmd = Set_key u32 bytes u8 u8 u8 bytes | Set_stakey u32 bytes bool bytes u8 u8 bytes | Clear_stakey bytes

fun cam_cmd_ok :: "cam_cmd \<Rightarrow> bool" where
  "cam_cmd_ok (Set_key state bssid set_tx algorithm keyid k) \<longleftrightarrow> length bssid = 6 \<and> length k = 16"
| "cam_cmd_ok (Set_stakey state bssid known a algorithm keyid k) \<longleftrightarrow> length a = 6 \<and> a \<noteq> null_mac \<and> length k = 16"
| "cam_cmd_ok (Clear_stakey a) \<longleftrightarrow> a \<noteq> null_mac"

fun cam_cmd_run :: "cam_cmd \<Rightarrow> cam_ctl \<Rightarrow> (cam_ctl \<times> cam_event list) option" where
  "cam_cmd_run (Set_key state bssid set_tx algorithm keyid k) s = Some (snd (setkey_hdl state bssid set_tx algorithm keyid k s))"
| "cam_cmd_run (Set_stakey state bssid known a algorithm keyid k) s = map_option snd (set_stakey_hdl state bssid known a algorithm keyid k s)"
| "cam_cmd_run (Clear_stakey a) s = rtw_clearstakey_cmd a s"

fun cam_cmds :: "cam_cmd list \<Rightarrow> cam_ctl \<Rightarrow> (cam_ctl \<times> cam_event list) option" where
  "cam_cmds [] s = Some (s, [])"
| "cam_cmds (c # cs) s = (case cam_cmd_run c s of None \<Rightarrow> None
     | Some (s, evs) \<Rightarrow> map_option (\<lambda>(s, evs'). (s, evs @ evs')) (cam_cmds cs s))"

lemma setkey_run:
  assumes "cam_wf s" "length bssid = 6" "length k = 16" "cam_mirrors mem s"
    and "setkey_hdl state bssid set_tx algorithm keyid k s = (r, s', evs)"
  shows "cam_wf s' \<and> cam_mirrors (cam_effect evs mem) s'"
proof (cases "camid_choose state bssid None (unat keyid) s")
  case None
  then show ?thesis using assms by (auto simp: setkey_hdl_def rtw_camid_alloc_def Let_def cam_effect_other)
next
  case (Some i)
  have i: "i < TOTAL_CAM_ENTRY"
  proof -
    have "i \<le> 3 \<or> i < TOTAL_CAM_ENTRY"
      using Some camid_search_Some [of s bssid "int (unat keyid)" i] camid_first_free_Some [of "bitmap s" i]
      by (auto simp: camid_choose_def split: option.splits if_splits)
    then show ?thesis by (auto simp: TOTAL_CAM_ENTRY_def)
  qed
  let ?c = "0x8000 OR 0x40 OR push_bit 2 (ucast algorithm) OR ucast keyid :: u16"
    and ?a = "if 3 < i then bssid else replicate 6 0"
  have a: "length ?a = 6" using assms(2) by simp
  have l: "length (cam_cache s) = TOTAL_CAM_ENTRY" using assms(1) by (simp add: cam_wf_def)
  have s': "s' = write_cam_cache i ?c ?a k (s\<lparr>bitmap := bitmap s OR BIT i\<rparr>)"
    and e: "cam_effect evs mem = cam_memory (hw_write_cam i ?c ?a k) mem"
    using assms(5) Some
    by (auto simp: setkey_hdl_def rtw_camid_alloc_def Let_def write_cam_def cam_effect_append cam_effect_other cam_effect_writes)
  have "cam_wf s'" unfolding s'
    by (rule or_bit_wf [OF assms(1) i, where m = "take 6 ?a"]) (simp_all add: null_mac_def)
  then show ?thesis unfolding e using handler_writes [OF assms(4) l i a assms(3)] s' by simp
qed

lemma set_stakey_installs:
  assumes "cam_wf s" "a \<noteq> null_mac" "algorithm \<noteq> 0"
    and "camid_choose state bssid (Some a) 0 s = Some i"
  shows "set_stakey_hdl state bssid True a algorithm keyid k s
    = (let c = 0x8000 OR push_bit 2 (ucast algorithm) OR ucast keyid
       in Some (H2C_SUCCESS_RSP, write_cam_cache i c a k (s\<lparr>bitmap := bitmap s OR BIT i\<rparr>),
            Enc_algo algorithm # cam_writes (hw_write_cam i c a k)))"
  using assms by (simp add: set_stakey_hdl_def rtw_camid_alloc_def write_cam_def Let_def)

lemma clear_run:
  assumes "cam_wf s" "a \<noteq> null_mac" "cam_mirrors mem s" "clear_peer a s [] = Some (s', evs)"
  shows "cam_wf s' \<and> cam_mirrors (cam_effect evs mem) s'"
  using assms clear_peer_ends [OF assms(1,2), of "[]"] clear_peer_mirrors [OF assms(4), of mem]
  by (auto simp: cam_effect_other cam_wf_def)

lemma set_stakey_run:
  assumes "cam_wf s" "length a = 6" "a \<noteq> null_mac" "length k = 16" "cam_mirrors mem s"
    and "set_stakey_hdl state bssid known a algorithm keyid k s = Some (r, s', evs)"
  shows "cam_wf s' \<and> cam_mirrors (cam_effect evs mem) s'"
proof (cases "algorithm = 0")
  case True
  then have "clear_peer a s [] = Some (s', evs)"
    using assms(6) by (auto simp: set_stakey_hdl_def split: option.splits)
  then show ?thesis using clear_run [OF assms(1,3,5)] by simp
next
  case alg: False
  have l: "length (cam_cache s) = TOTAL_CAM_ENTRY" using assms(1) by (simp add: cam_wf_def)
  consider "\<not> known" | "camid_choose state bssid (Some a) 0 s = None" | i where "known" "camid_choose state bssid (Some a) 0 s = Some i"
    by (cases known; cases "camid_choose state bssid (Some a) 0 s") auto
  then show ?thesis
  proof cases
    case (3 i)
    note ch = choose_pairwise [OF assms(1,3) 3(2)]
    let ?c = "0x8000 OR push_bit 2 (ucast algorithm) OR ucast keyid :: u16"
    have s': "s' = write_cam_cache i ?c a k (s\<lparr>bitmap := bitmap s OR BIT i\<rparr>)"
      and e: "cam_effect evs mem = cam_memory (hw_write_cam i ?c a k) mem"
      using assms(6) 3(1) set_stakey_installs [OF assms(1,3) alg 3(2)]
      by (auto simp: Let_def cam_effect_other cam_effect_writes)
    have "cam_wf s'" unfolding s'
      by (rule or_bit_wf [OF assms(1) ch(2), where m = a]) (use ch assms(2) in simp_all)
    then show ?thesis unfolding e using handler_writes [OF assms(5) l ch(2) assms(2,4)] s' by simp
  qed (use assms alg in \<open>auto simp: set_stakey_hdl_def rtw_camid_alloc_def cam_effect_other split: if_splits\<close>)
qed

lemma cam_cmd_run_ok:
  assumes "cam_wf s" "cam_mirrors mem s" "cam_cmd_ok c"
  shows "\<exists>s' evs. cam_cmd_run c s = Some (s', evs) \<and> cam_wf s' \<and> cam_mirrors (cam_effect evs mem) s'"
proof (cases c)
  case (Set_key state bssid set_tx algorithm keyid k)
  obtain r s' evs where h: "setkey_hdl state bssid set_tx algorithm keyid k s = (r, s', evs)"
    by (metis prod_cases3)
  have "length bssid = 6" "length k = 16" using assms(3) Set_key by simp_all
  then show ?thesis using setkey_run [OF assms(1) _ _ assms(2) h] h Set_key by simp
next
  case (Set_stakey state bssid known a algorithm keyid k)
  then have a: "length a = 6" "a \<noteq> null_mac" "length k = 16" using assms(3) by simp_all
  have "set_stakey_hdl state bssid known a algorithm keyid k s \<noteq> None"
    using clear_peer_ends [OF assms(1) a(2), of "[]"]
    by (auto simp: set_stakey_hdl_def write_cam_def Let_def split: option.splits prod.splits)
  then obtain r s' evs where "set_stakey_hdl state bssid known a algorithm keyid k s = Some (r, s', evs)" by auto
  then show ?thesis using set_stakey_run [OF assms(1) a assms(2)] Set_stakey by simp
next
  case (Clear_stakey a)
  then have a: "a \<noteq> null_mac" using assms(3) by simp
  obtain s' evs where "clear_peer a s [] = Some (s', evs)" using clear_peer_ends [OF assms(1) a, of "[]"] by blast
  then show ?thesis using clear_run [OF assms(1) a assms(2)] Clear_stakey by (simp add: rtw_clearstakey_cmd_def)
qed

section \<open>Properties\<close>

text \<open>The six words of an entry round trip: reading an entry back gives the 16 bytes of the key
  written to it, and every other entry reads as before.\<close>

theorem read_cam_after_write_cam:
  assumes "length k = 16"
  shows "read_cam (cam_memory (hw_write_cam e c m k) mem) = (read_cam mem)(e := k)"
  using read_cam_write [OF assms] by auto

theorem read_cam_after_write_cam_witness:
  "read_cam (cam_memory (hw_write_cam 5 0x8010 [0, 1, 2, 3, 4, 5] (map of_nat [20..<36])) (\<lambda>_. 7))
     = (read_cam (\<lambda>_. 7))(5 := map of_nat [20..<36])"
  by (rule read_cam_after_write_cam) simp

text \<open>C30. Clearing the keys of a peer ends exactly when its address is not all zero, and then
  removes the peer's entries from the cache and the bitmap and changes no other entry. For the address
  of the unused entries the loop never ends.\<close>

theorem rtw_clearstakey_cmd_ends_iff:
  assumes "cam_wf s"
  shows "case rtw_clearstakey_cmd a s of
      None \<Rightarrow> a = null_mac
    | Some (s', evs) \<Rightarrow> a \<noteq> null_mac \<and> cam_wf s'
        \<and> (\<forall>i < TOTAL_CAM_ENTRY. if mac (cam_cache s ! i) = a
             then cam_cache s' ! i = null_entry \<and> \<not> camid_used (bitmap s') i
             else cam_cache s' ! i = cam_cache s ! i \<and> (camid_used (bitmap s') i \<longleftrightarrow> camid_used (bitmap s) i))"
proof (cases "a = null_mac")
  case True
  have "\<exists>i < TOTAL_CAM_ENTRY. mac (cam_cache s ! i) = null_mac"
    using assms by (intro exI [of _ 0]) (simp add: cam_wf_def TOTAL_CAM_ENTRY_def)
  then show ?thesis
    using clear_peer_null_loops [of s "[]"] assms True by (simp add: rtw_clearstakey_cmd_def cam_wf_def)
next
  case False
  then show ?thesis
    using clear_peer_ends [OF assms False, of "[]"] by (auto simp: rtw_clearstakey_cmd_def held_def)
qed

definition sample_cam :: cam_ctl where
  "sample_cam = \<lparr>bitmap = 0x10, cam_cache = (replicate 32 null_entry)[4 := \<lparr>ctrl = 0x8010, mac = [2, 0, 0, 0, 0, 1], key = replicate 16 9\<rparr>]\<rparr>"

lemma sample_cam_wf: "cam_wf sample_cam"
  unfolding cam_wf_def sample_cam_def TOTAL_CAM_ENTRY_def
  by (auto simp: nth_list_update camid_used_def BIT_def null_entry_def null_mac_def nth_replicate)

theorem rtw_clearstakey_cmd_ends_iff_witness:
  "rtw_clearstakey_cmd null_mac sample_cam = None
   \<and> (\<exists>s' evs. rtw_clearstakey_cmd [2, 0, 0, 0, 0, 1] sample_cam = Some (s', evs) \<and> cam_cache s' ! 4 = null_entry)"
  using rtw_clearstakey_cmd_ends_iff [OF sample_cam_wf, of null_mac]
    rtw_clearstakey_cmd_ends_iff [OF sample_cam_wf, of "[2, 0, 0, 0, 0, 1]"]
  by (auto simp: null_mac_def numeral_eq_Suc TOTAL_CAM_ENTRY_def sample_cam_def split: option.splits dest!: spec [of _ "4::nat"])

text \<open>C31. The cache mirrors the hardware table: after any sequence of key commands (group keys,
  pairwise keys, removals for nonzero addresses), each of which returns, the table is well formed and
  every word of the hardware memory is the one the cached entry stands for.\<close>

theorem cam_cache_mirrors_hardware:
  assumes "cam_wf s" "cam_mirrors mem s" "\<forall>c \<in> set cs. cam_cmd_ok c"
  shows "\<exists>s' evs. cam_cmds cs s = Some (s', evs) \<and> cam_wf s' \<and> cam_mirrors (cam_effect evs mem) s'"
  using assms
proof (induction cs arbitrary: s mem)
  case Nil
  then show ?case by (simp add: cam_effect_other)
next
  case (Cons c cs)
  obtain s1 e1 where c: "cam_cmd_run c s = Some (s1, e1)" "cam_wf s1" "cam_mirrors (cam_effect e1 mem) s1"
    using cam_cmd_run_ok [OF Cons.prems(1,2), of c] Cons.prems(3) by auto
  obtain s2 e2 where "cam_cmds cs s1 = Some (s2, e2)" "cam_wf s2" "cam_mirrors (cam_effect e2 (cam_effect e1 mem)) s2"
    using Cons.IH [OF c(2,3)] Cons.prems(3) by auto
  then show ?case using c(1) by (simp add: cam_effect_append)
qed

theorem cam_cache_mirrors_hardware_witness:
  "\<exists>s' evs. cam_cmds [Set_stakey 3 null_mac True [2, 0, 0, 0, 0, 1] 4 0 (replicate 16 9), Clear_stakey [2, 0, 0, 0, 0, 1]]
     (fst (flush_all_cam_entry sample_cam)) = Some (s', evs) \<and> cam_wf s' \<and> cam_mirrors (cam_effect evs (\<lambda>_. 0)) s'"
proof (rule cam_cache_mirrors_hardware)
  show "cam_wf (fst (flush_all_cam_entry sample_cam))"
    using invalidate_wf by (simp add: flush_all_cam_entry_def split_beta)
  show "cam_mirrors (\<lambda>_. 0) (fst (flush_all_cam_entry sample_cam))"
    by (simp add: cam_mirrors_def flush_all_cam_entry_def invalidate_cam_all_def null_entry_def cam_word_def le32_def Let_def)
qed (simp add: null_mac_def numeral_eq_Suc)

text \<open>Setting a pairwise key succeeds unless all 28 dynamic entries are taken; it uses the entry the
  peer already has or a free one, and leaves the entries of all other peers as they are. When there is no
  room it changes nothing.\<close>

theorem set_stakey_hdl_installs:
  assumes "cam_wf s" "a \<noteq> null_mac" "algorithm \<noteq> 0" "length a = 6" "length k = 16"
  shows "case set_stakey_hdl state bssid True a algorithm keyid k s of
      None \<Rightarrow> False
    | Some (r, s', evs) \<Rightarrow>
        if r = H2C_SUCCESS_RSP
        then (\<exists>i \<ge> 4. i < TOTAL_CAM_ENTRY
          \<and> (mac (cam_cache s ! i) = a \<or> \<not> camid_used (bitmap s) i) \<and> camid_used (bitmap s') i
          \<and> cam_cache s' = (cam_cache s)[i := \<lparr>ctrl = 0x8000 OR push_bit 2 (ucast algorithm) OR ucast keyid, mac = a, key = k\<rparr>])
        else s' = s \<and> (\<forall>i. 4 \<le> i \<and> i < TOTAL_CAM_ENTRY \<longrightarrow> camid_used (bitmap s) i)"
proof (cases "camid_choose state bssid (Some a) 0 s")
  case None
  then have "camid_first_free (bitmap s) = None"
    by (auto simp: camid_choose_def split: option.splits if_splits)
  then show ?thesis
    using None assms(3) by (simp add: set_stakey_hdl_def rtw_camid_alloc_def camid_first_free_None)
next
  case (Some i)
  note ch = choose_pairwise [OF assms(1,2) Some]
  have "camid_used (bitmap s OR BIT i) i" using ch by (simp add: camid_used_or TOTAL_CAM_ENTRY_def)
  then show ?thesis
    unfolding set_stakey_installs [OF assms(1-3) Some]
    using ch assms(4,5) by (auto simp: write_cam_cache_def Let_def)
qed

theorem set_stakey_hdl_installs_witness:
  "\<exists>s' evs. set_stakey_hdl 3 null_mac True [2, 0, 0, 0, 0, 3] 4 0 (replicate 16 9) sample_cam
     = Some (H2C_SUCCESS_RSP, s', evs)"
proof -
  have a: "[2, 0, 0, 0, 0, 3] \<noteq> null_mac" "length [2, 0, 0, 0, 0, 3 :: u8] = 6"
    by (simp_all add: null_mac_def numeral_eq_Suc)
  have "\<not> camid_used (bitmap sample_cam) 5" by (simp add: sample_cam_def camid_used_def BIT_def)
  then have "\<not> (\<forall>i. 4 \<le> i \<and> i < TOTAL_CAM_ENTRY \<longrightarrow> camid_used (bitmap sample_cam) i)"
    by (auto simp: TOTAL_CAM_ENTRY_def intro!: exI [of _ 5])
  then show ?thesis
    using set_stakey_hdl_installs [OF sample_cam_wf a(1) _ a(2), where algorithm = 4
        and k = "replicate 16 9" and state = 3 and bssid = null_mac and keyid = 0]
    by (simp split: option.splits prod.splits if_splits)
qed

text \<open>A group key never replaces a pairwise key: the command changes at most one entry, and an entry
  that belongs to a peer and is not marked as a group key stays.\<close>

theorem setkey_hdl_spares_pairwise_keys:
  assumes "cam_wf s" "bssid \<noteq> null_mac" "i < TOTAL_CAM_ENTRY"
    and "mac (cam_cache s ! i) \<noteq> null_mac" "ctrl (cam_cache s ! i) AND 0x40 = 0"
  shows "cam_cache (fst (snd (setkey_hdl state bssid set_tx algorithm keyid k s))) ! i = cam_cache s ! i"
proof (cases "camid_choose state bssid None (unat keyid) s")
  case None
  then show ?thesis by (simp add: setkey_hdl_def rtw_camid_alloc_def Let_def)
next
  case (Some j)
  have "i \<noteq> j" using choose_group [OF assms(1,2) Some] assms(4,5) by auto
  then show ?thesis
    using Some by (simp add: setkey_hdl_def rtw_camid_alloc_def Let_def write_cam_def write_cam_cache_def split_beta)
qed

theorem setkey_hdl_spares_pairwise_keys_witness:
  "cam_cache (fst (snd (setkey_hdl 0x4002 [2, 0, 0, 0, 0, 1] 0 4 0 (replicate 16 3) sample_cam))) ! 4 = cam_cache sample_cam ! 4"
  by (rule setkey_hdl_spares_pairwise_keys [OF sample_cam_wf])
    (simp_all add: null_mac_def TOTAL_CAM_ENTRY_def sample_cam_def eval_nat_numeral)

text \<open>The pool: from an empty bitmap 28 allocations give 28 different entries.\<close>

lemma camid_capacity: "cam_pool.take_ids 28 0 \<noteq> None"
proof -
  have "{4..<TOTAL_CAM_ENTRY} - {i. i < TOTAL_CAM_ENTRY \<and> camid_used 0 i} = {4..<32}"
    by (auto simp: camid_used_0 TOTAL_CAM_ENTRY_def)
  moreover have "28 \<le> card {4..<32::nat}" by simp
  ultimately show ?thesis using cam_pool.take_ids_available [where n = 28 and s = 0] by (metis (lifting))
qed

end
