(* ===== verification/Assoc_Ie.thy ===== *)
theory Assoc_Ie
  imports Ie_Attr
begin

text \<open>
  What an association response brings: the walk of \<open>OnAssocRsp\<close> (\<^verbatim>\<open>core/rtw_mlme_ext.c\<close>) over the elements behind
  its fixed fields, and the handlers of \<^verbatim>\<open>core/rtw_wlan_util.c\<close> it calls for the WMM, HT capability, HT
  information, ERP and WFD elements, with the rate tables that are marked when a BSS is joined.

  The result is \<^term>\<open>None\<close> when the code reads behind the frame or accesses a structure behind its end.
\<close>

section \<open>State\<close>

text \<open>The fields of \<open>mlme_ext_info\<close> the handlers write, and what they read of the adapter. \<open>qos_on\<close> is
  \<open>qospriv.qos_option\<close>, \<open>ht_on\<close> is \<open>htpriv.ht_option\<close>, \<open>rf_type\<close> is what \<open>HW_VAR_RF_TYPE\<close> gives.\<close>

record ie_info =
  qos_on :: bool
  ht_on :: bool
  rf_type :: nat
  default_supported_mcs_set :: bytes
  ldpc_cap :: u8
  stbc_cap :: u8
  WMM_enable :: bool
  WMM_param :: bytes
  ERP_enable :: bool
  ERP_IE :: u8
  HT_caps_enable :: bool
  HT_cap :: bytes
  HT_info_enable :: bool
  HT_info :: bytes
  peer_rtsp_ctrlport :: u16

definition wf_ie_info :: "ie_info \<Rightarrow> bool" where
  "wf_ie_info m \<longleftrightarrow> length (default_supported_mcs_set m) = 16 \<and> length (WMM_param m) = 18
     \<and> length (HT_cap m) = 26 \<and> length (HT_info m) = 22"

definition WMM_PARA_OUI :: bytes where "WMM_PARA_OUI = [0x00, 0x50, 0xf2, 0x02, 0x01, 0x01]"

section \<open>Handlers\<close>

text \<open>\<open>p\<close> is the offset of the element in the frame: its length byte is at \<open>p + 1\<close>, its data at \<open>p + 2\<close>.\<close>

definition WMM_param_handler :: "bytes \<Rightarrow> nat \<Rightarrow> ie_info \<Rightarrow> (bool \<times> ie_info) option" where
  "WMM_param_handler frame p m =
     (if \<not> qos_on m then Some (False, m\<lparr>WMM_enable := False\<rparr>)
      else do {
        d \<leftarrow> rdn frame (p + 2 + 6) 18;
        if WMM_param m = d then Some (False, m)
        else Some (True, m\<lparr>WMM_param := d, WMM_enable := True\<rparr>) })"

text \<open>One byte of the capability element: all are masked, but for the A-MPDU parameters (byte 2), which become the
  smaller length and the larger spacing.\<close>

definition ampdu_para :: "u8 \<Rightarrow> u8 \<Rightarrow> u8" where
  "ampdu_para own peer =
     (let max_AMPDU_len = (if own AND 0x3 > peer AND 0x3 then peer AND 0x3 else own AND 0x3);
          min_MPDU_spacing = (if own AND 0x1c > peer AND 0x1c then own AND 0x1c else peer AND 0x1c)
      in max_AMPDU_len OR min_MPDU_spacing)"

fun ht_caps_loop :: "bytes \<Rightarrow> nat \<Rightarrow> nat \<Rightarrow> nat \<Rightarrow> bytes \<Rightarrow> bytes option" where
  "ht_caps_loop frame data i 0 cap = Some cap"
| "ht_caps_loop frame data i (Suc n) cap = do {
     d \<leftarrow> rd frame (data + i);
     c \<leftarrow> rd cap i;
     ht_caps_loop frame data (i + 1) n (cap[i := if i \<noteq> 2 then c AND d else ampdu_para c d]) }"

definition set_mcs_rate_by_mask :: "bytes \<Rightarrow> u32 \<Rightarrow> bytes" where
  "set_mcs_rate_by_mask mcs_set msk =
     (let mcs_rate_1r = (ucast (msk AND 0xff) :: u8);
          mcs_rate_2r = (ucast (drop_bit 8 msk AND 0xff) :: u8);
          mcs_rate_3r = (ucast (drop_bit 16 msk AND 0xff) :: u8);
          mcs_rate_4r = (ucast (drop_bit 24 msk AND 0xff) :: u8)
      in mcs_set[0 := mcs_set ! 0 AND mcs_rate_1r, 1 := mcs_set ! 1 AND mcs_rate_2r,
           2 := mcs_set ! 2 AND mcs_rate_3r, 3 := mcs_set ! 3 AND mcs_rate_4r])"

definition RF_1T1R :: nat where "RF_1T1R = 3"
definition RF_1T2R :: nat where "RF_1T2R = 0"

definition ht_mcs_set :: "nat \<Rightarrow> bytes \<Rightarrow> bytes \<Rightarrow> bytes" where
  "ht_mcs_set rf own mcs =
     (let mcs = map2 (AND) mcs own
      in set_mcs_rate_by_mask mcs (if rf = RF_1T1R \<or> rf = RF_1T2R then 0x000000ff else 0x0000ffff))"

text \<open>\<open>ap\<close> is \<open>check_fwstate(pmlmepriv, WIFI_AP_STATE)\<close>. The flags are \<open>LDPC_HT_ENABLE_TX\<close> and \<open>STBC_HT_ENABLE_TX\<close>
  (bit 1) and \<open>LDPC_HT_CAP_TX\<close> and \<open>STBC_HT_CAP_TX\<close> (bit 3).\<close>

definition HT_caps_handler :: "bool \<Rightarrow> bytes \<Rightarrow> nat \<Rightarrow> ie_info \<Rightarrow> ie_info option" where
  "HT_caps_handler ap frame p m =
     (if \<not> ht_on m then Some m
      else do {
        len \<leftarrow> rd frame (p + 1);
        cap \<leftarrow> ht_caps_loop frame (p + 2) 0 (unat len) (HT_cap m);
        let cap = take 3 cap @ ht_mcs_set (rf_type m) (default_supported_mcs_set m) (take 16 (drop 3 cap)) @ drop 19 cap;
        let m = m\<lparr>HT_caps_enable := True, HT_cap := cap\<rparr>;
        if ap then do {
          d0 \<leftarrow> (if stbc_cap m AND 2 \<noteq> 0 then rd frame (p + 2) else Some 0);
          Some (m\<lparr>stbc_cap := if drop_bit 7 d0 AND 1 \<noteq> 0 then 2 else 0\<rparr>) }
        else do {
          d0 \<leftarrow> (if ldpc_cap m AND 2 \<noteq> 0 then rd frame (p + 2) else Some 0);
          d1 \<leftarrow> (if stbc_cap m AND 2 \<noteq> 0 then rd frame (p + 3) else Some 0);
          Some (m\<lparr>ldpc_cap := if d0 AND 1 \<noteq> 0 then 2 OR 8 else 0,
            stbc_cap := if d1 AND 3 \<noteq> 0 then 2 OR 8 else 0\<rparr>) } })"

definition HT_info_handler :: "bytes \<Rightarrow> nat \<Rightarrow> ie_info \<Rightarrow> ie_info option" where
  "HT_info_handler frame p m =
     (if \<not> ht_on m then Some m
      else do {
        len \<leftarrow> rd frame (p + 1);
        if unat len > 22 then Some m
        else do {
          d \<leftarrow> rdn frame (p + 2) (unat len);
          info \<leftarrow> wrn (HT_info m) 0 d;
          Some (m\<lparr>HT_info_enable := True, HT_info := info\<rparr>) } })"

definition ERP_IE_handler :: "bytes \<Rightarrow> nat \<Rightarrow> ie_info \<Rightarrow> ie_info option" where
  "ERP_IE_handler frame p m = do {
     len \<leftarrow> rd frame (p + 1);
     if len > 1 then Some m
     else if len = 1 then do {
       d \<leftarrow> rd frame (p + 2);
       Some (m\<lparr>ERP_enable := True, ERP_IE := d\<rparr>) }
     else Some (m\<lparr>ERP_enable := True\<rparr>) }"

text \<open>The element is copied to a local buffer of 128 bytes and its device information to one of 10 bytes. The search
  for a WFD attribute always ends, so only its faults are kept.\<close>

definition ended_run :: "'a run \<Rightarrow> 'a option" where
  "ended_run r = (case r of None \<Rightarrow> None | Some x \<Rightarrow> x)"

definition WFD_info_handler :: "bytes \<Rightarrow> nat \<Rightarrow> ie_info \<Rightarrow> (bool \<times> ie_info) option" where
  "WFD_info_handler frame p m = do {
     len \<leftarrow> rd frame (p + 1);
     (found, wfd_ielen, wfd_ie) \<leftarrow> rtw_get_wfd_ie (drop p frame) (uint len) (Some (replicate 128 0));
     case wfd_ie of
       Some ie \<Rightarrow>
         if found \<noteq> 0 then do {
           (n, buf) \<leftarrow> ended_run (rtw_get_wfd_attr_content ie wfd_ielen 0 (Some (replicate 10 0)));
           case buf of
             Some content \<Rightarrow>
               if n \<noteq> None \<and> n \<noteq> Some 0 then do {
                 port \<leftarrow> RTW_GET_BE16 content 2;
                 Some (True, m\<lparr>peer_rtsp_ctrlport := port\<rparr>) }
               else Some (False, m)
           | None \<Rightarrow> None }
         else Some (False, m)
     | None \<Rightarrow> None }"

section \<open>The walk of an association response\<close>

definition assoc_rsp_ie :: "bytes \<Rightarrow> nat \<Rightarrow> ie_info \<Rightarrow> ie_info option" where
  "assoc_rsp_ie frame p m = do {
     eid \<leftarrow> rd frame p;
     if eid = 221 then do {
       oui \<leftarrow> rdn frame (p + 2) 6;
       if oui = WMM_PARA_OUI then map_option snd (WMM_param_handler frame p m)
       else if take 4 oui = wfd_oui then map_option snd (WFD_info_handler frame p m)
       else Some m }
     else if eid = 45 then HT_caps_handler False frame p m
     else if eid = 61 then HT_info_handler frame p m
     else if eid = 42 then ERP_IE_handler frame p m
     else Some m }"

function assoc_rsp_ies :: "bytes \<Rightarrow> nat \<Rightarrow> nat \<Rightarrow> ie_info \<Rightarrow> ie_info option" where
  "assoc_rsp_ies frame pkt_len i m =
     (if i < pkt_len then do {
        m \<leftarrow> assoc_rsp_ie frame i m;
        len \<leftarrow> rd frame (i + 1);
        assoc_rsp_ies frame pkt_len (i + (unat len + 2)) m }
      else Some m)"
  by pat_completeness auto
termination by (relation "measure (\<lambda>(frame, pkt_len, i, m). pkt_len - i)") auto

declare assoc_rsp_ies.simps [simp del]

section \<open>Basic rates\<close>

text \<open>1, 2, 5.5, 11, 6, 12 and 24 Mbit/s are marked as basic rates; the access point marks the first four.\<close>

definition mark_basic :: "u8 list \<Rightarrow> u8 \<Rightarrow> u8" where
  "mark_basic rates r = (if r AND 0x7f \<in> set rates then r OR 0x80 else r)"

definition UpdateBrateTbl :: "bytes \<Rightarrow> bytes" where
  "UpdateBrateTbl mBratesOS =
     map (mark_basic [0x02, 0x04, 0x0B, 0x16, 0x0C, 0x18, 0x30]) (take 16 mBratesOS) @ drop 16 mBratesOS"

definition UpdateBrateTblForSoftAP :: "bytes \<Rightarrow> nat \<Rightarrow> bytes" where
  "UpdateBrateTblForSoftAP bssrateset bssratelen =
     map (mark_basic [0x02, 0x04, 0x0B, 0x16]) (take bssratelen bssrateset) @ drop bssratelen bssrateset"

lemma mark_basic_rate: "mark_basic rates r AND 0x7f = r AND 0x7f"
  by (simp add: mark_basic_def bit.conj_disj_distrib2)

lemma map_mark_basic: "map (\<lambda>r. r AND 0x7f) (map (mark_basic rates) (take n rs) @ drop n rs) = map (\<lambda>r. r AND 0x7f) rs"
  by (simp add: comp_def mark_basic_rate) (metis append_take_drop_id map_append)

text \<open>Marking changes no rate.\<close>

lemma UpdateBrateTbl_rates:
  "map (\<lambda>r. r AND 0x7f) (UpdateBrateTbl rs) = map (\<lambda>r. r AND 0x7f) rs"
  "map (\<lambda>r. r AND 0x7f) (UpdateBrateTblForSoftAP rs n) = map (\<lambda>r. r AND 0x7f) rs"
  by (simp_all only: UpdateBrateTbl_def UpdateBrateTblForSoftAP_def map_mark_basic)

section \<open>The capability loop\<close>

definition merge_cap :: "nat \<Rightarrow> u8 \<Rightarrow> u8 \<Rightarrow> u8" where
  "merge_cap i own peer = (if i \<noteq> 2 then own AND peer else ampdu_para own peer)"

lemma ht_caps_loop_spec:
  "data + i + n \<le> length frame \<Longrightarrow> i + n \<le> length cap \<Longrightarrow> ht_caps_loop frame data i n cap
    = Some (map (\<lambda>j. if i \<le> j \<and> j < i + n then merge_cap j (cap ! j) (frame ! (data + j)) else cap ! j) [0..<length cap])"
proof (induction n arbitrary: i cap)
  case 0
  then show ?case by (auto intro!: nth_equalityI)
next
  case (Suc n)
  let ?cap = "cap[i := merge_cap i (cap ! i) (frame ! (data + i))]"
  have "ht_caps_loop frame data i (Suc n) cap = ht_caps_loop frame data (i + 1) n ?cap"
    using Suc.prems by (simp add: rd_def merge_cap_def)
  also have "\<dots> = Some (map (\<lambda>j. if i + 1 \<le> j \<and> j < i + 1 + n then merge_cap j (?cap ! j) (frame ! (data + j)) else ?cap ! j)
      [0..<length ?cap])"
    using Suc.prems by (intro Suc.IH) simp_all
  finally show ?case using Suc.prems by (auto simp: nth_list_update intro!: map_cong)
qed

lemma ht_caps_loop_overrun:
  "i \<le> length cap \<Longrightarrow> length cap < i + n \<Longrightarrow> ht_caps_loop frame data i n cap = None"
proof (induction n arbitrary: i cap)
  case (Suc n)
  show ?case
  proof (cases "i < length cap")
    case True
    then show ?thesis using Suc.prems Suc.IH [of "i + 1" "cap[i := c]" for c]
      by (auto simp: rd_def Option.bind_eq_None_conv)
  qed (auto simp: rd_def Option.bind_eq_None_conv)
qed simp

lemma length_set_mcs [simp]: "length (set_mcs_rate_by_mask mcs k) = length mcs"
  by (simp add: set_mcs_rate_by_mask_def Let_def)

lemma length_ht_mcs_set [simp]: "length (ht_mcs_set rf own mcs) = min (length mcs) (length own)"
  by (simp add: ht_mcs_set_def Let_def)

lemma bit_set_mcs:
  assumes "4 \<le> length mcs" "bit (set_mcs_rate_by_mask mcs k ! i) n"
  shows "bit (mcs ! i) n"
proof -
  have "mcs \<noteq> []" "1 < length mcs" "2 < length mcs" "3 < length mcs" using assms(1) by auto
  then show ?thesis
    using assms(2) by (auto simp: set_mcs_rate_by_mask_def Let_def nth_list_update bit_and_iff split: if_splits)
qed

lemma bit_ht_mcs_set:
  "i < 16 \<Longrightarrow> length own = 16 \<Longrightarrow> length mcs = 16 \<Longrightarrow> bit (ht_mcs_set rf own mcs ! i) n
    \<Longrightarrow> bit (mcs ! i) n \<and> bit (own ! i) n"
  using bit_set_mcs [of "map2 (AND) mcs own" _ i n] by (auto simp: ht_mcs_set_def Let_def bit_and_iff)

text \<open>What the handler makes of the capability bytes.\<close>

definition merged_caps :: "ie_info \<Rightarrow> bytes \<Rightarrow> bytes" where
  "merged_caps m d =
     (let cap = map (\<lambda>j. if j < length d then merge_cap j (HT_cap m ! j) (d ! j) else HT_cap m ! j) [0..<26]
      in take 3 cap @ ht_mcs_set (rf_type m) (default_supported_mcs_set m) (take 16 (drop 3 cap)) @ drop 19 cap)"

lemma length_merged_caps: "wf_ie_info m \<Longrightarrow> length (merged_caps m d) = 26"
  by (simp add: merged_caps_def Let_def wf_ie_info_def)

definition after_caps :: "bool \<Rightarrow> ie_info \<Rightarrow> bytes \<Rightarrow> ie_info" where
  "after_caps ap m d =
     (let m' = m\<lparr>HT_caps_enable := True, HT_cap := merged_caps m d\<rparr>
      in if ap then m'\<lparr>stbc_cap := if stbc_cap m AND 2 \<noteq> 0 \<and> drop_bit 7 (d ! 0) AND 1 \<noteq> 0 then 2 else 0\<rparr>
         else m'\<lparr>ldpc_cap := if ldpc_cap m AND 2 \<noteq> 0 \<and> d ! 0 AND 1 \<noteq> 0 then 2 OR 8 else 0,
           stbc_cap := if stbc_cap m AND 2 \<noteq> 0 \<and> d ! 1 AND 3 \<noteq> 0 then 2 OR 8 else 0\<rparr>)"

lemma HT_caps_handler_spec:
  assumes "wf_ie_info m" "ht_on m" "2 \<le> length d" "length d \<le> 26" "p = length pre"
  shows "HT_caps_handler ap (pre @ e # of_nat (length d) # d @ s) p m = Some (after_caps ap m d)"
proof -
  let ?f = "pre @ e # of_nat (length d) # d @ s"
  have r: "rd ?f (p + 1) = Some (of_nat (length d))" using assms(5) by (rule_tac rd_next) simp
  have n: "?f ! (p + 2 + j) = d ! j" if "j < length d" for j using that assms(5) by (simp add: nth_append)
  have "ht_caps_loop ?f (p + 2) 0 (length d) (HT_cap m)
      = Some (map (\<lambda>j. if 0 \<le> j \<and> j < 0 + length d then merge_cap j (HT_cap m ! j) (?f ! (p + 2 + j)) else HT_cap m ! j) [0..<length (HT_cap m)])"
    using assms by (intro ht_caps_loop_spec) (simp_all add: wf_ie_info_def)
  also have "\<dots> = Some (map (\<lambda>j. if j < length d then merge_cap j (HT_cap m ! j) (d ! j) else HT_cap m ! j) [0..<26])"
    using assms(1) n by (simp add: wf_ie_info_def cong: if_cong)
  finally have l: "ht_caps_loop ?f (p + 2) 0 (length d) (HT_cap m) = \<dots>" .
  have d: "rd ?f (p + 2) = Some (d ! 0)" "rd ?f (p + 3) = Some (d ! 1)"
    using assms(3,5) by (cases d; auto simp: rd_def nth_append)+
  show ?thesis
    using assms(2,4) r l d
    by (simp add: HT_caps_handler_def unat_length_byte after_caps_def merged_caps_def Let_def)
qed

text \<open>A station with 40 MHz capabilities and one antenna, for the witnesses.\<close>

definition ex_ie_info :: ie_info where
  "ex_ie_info = \<lparr>qos_on = True, ht_on = True, rf_type = 3, default_supported_mcs_set = [0xff, 0xff] @ replicate 14 0,
     ldpc_cap = 2, stbc_cap = 0, WMM_enable = False, WMM_param = replicate 18 0, ERP_enable = False, ERP_IE = 0,
     HT_caps_enable = False, HT_cap = [0x6e, 0x00, 0x1b, 0xff] @ replicate 22 0, HT_info_enable = False,
     HT_info = replicate 22 0, peer_rtsp_ctrlport = 0\<rparr>"

text \<open>C9. An HT capability element that ends inside the frame makes \<open>HT_caps_handler\<close> access memory behind the
  26 bytes of \<open>HT_caps\<close> exactly when its length byte, which the sender chooses, is above 26.\<close>

theorem ht_caps_overflow:
  assumes "wf_ie_info m" and "ht_on m" and "2 \<le> length d" and "length d < 256"
  shows "HT_caps_handler ap (pre @ 45 # of_nat (length d) # d @ s) (length pre) m = None \<longleftrightarrow> 26 < length d"
proof (cases "26 < length d")
  case True
  have "rd (pre @ 45 # of_nat (length d) # d @ s) (length pre + 1) = Some (of_nat (length d))" by (rule rd_next) simp
  moreover have "ht_caps_loop (pre @ 45 # of_nat (length d) # d @ s) (length pre + 2) 0 (length d) (HT_cap m) = None"
    using True assms(1) by (intro ht_caps_loop_overrun) (simp_all add: wf_ie_info_def)
  ultimately show ?thesis using True assms(2,4) by (simp add: HT_caps_handler_def unat_length_byte)
next
  case False
  then show ?thesis using HT_caps_handler_spec [of m d "length pre" pre ap 45 s] assms by simp
qed

theorem ht_caps_overflow_witness:
  "HT_caps_handler False ([] @ 45 # of_nat (length (replicate 27 (0xff :: u8))) # replicate 27 0xff @ []) (length ([] :: bytes)) ex_ie_info
    = None \<longleftrightarrow> 26 < length (replicate 27 (0xff :: u8))"
  by (rule ht_caps_overflow) (simp_all add: ex_ie_info_def wf_ie_info_def)

lemma and_u8_3_28: "((x AND 3) OR (y AND 0x1c)) AND 3 = (x AND 3 :: u8)" "((x AND 3) OR (y AND 0x1c)) AND 0x1c = (y AND 0x1c :: u8)"
  by (simp_all add: bit.conj_disj_distrib2 and.assoc)

lemma ampdu_para_bounds:
  "ampdu_para own peer AND 3 = min (own AND 3) (peer AND 3)" "ampdu_para own peer AND 0x1c = max (own AND 0x1c) (peer AND 0x1c)"
  by (auto simp: ampdu_para_def Let_def and_u8_3_28 min_def max_def)

lemma merged_caps_nth:
  assumes "wf_ie_info m" "i < 26" "i < 3 \<or> 19 \<le> i"
  shows "merged_caps m d ! i = (if i < length d then merge_cap i (HT_cap m ! i) (d ! i) else HT_cap m ! i)"
  using assms by (auto simp: merged_caps_def Let_def nth_append wf_ie_info_def)

lemma merged_caps_mcs:
  assumes "wf_ie_info m" "3 \<le> i" "i < 19" "bit (merged_caps m d ! i) n"
  shows "bit (if i < length d then merge_cap i (HT_cap m ! i) (d ! i) else HT_cap m ! i) n \<and> bit (default_supported_mcs_set m ! (i - 3)) n"
proof -
  let ?cap = "map (\<lambda>j. if j < length d then merge_cap j (HT_cap m ! j) (d ! j) else HT_cap m ! j) [0..<26]"
  have "merged_caps m d ! i = ht_mcs_set (rf_type m) (default_supported_mcs_set m) (take 16 (drop 3 ?cap)) ! (i - 3)"
    using assms(1-3) by (auto simp: merged_caps_def Let_def nth_append wf_ie_info_def)
  then have "bit (take 16 (drop 3 ?cap) ! (i - 3)) n \<and> bit (default_supported_mcs_set m ! (i - 3)) n"
    using assms bit_ht_mcs_set [of "i - 3" "default_supported_mcs_set m" "take 16 (drop 3 ?cap)" "rf_type m" n]
    by (simp add: wf_ie_info_def)
  moreover have "take 16 (drop 3 ?cap) ! (i - 3) = (if i < length d then merge_cap i (HT_cap m ! i) (d ! i) else HT_cap m ! i)"
    using assms(2,3) by simp
  ultimately show ?thesis by (simp only:)
qed

lemma merged_caps_common:
  assumes "wf_ie_info m" "i < 26" "i \<noteq> 2" "bit (merged_caps m d ! i) n"
  shows "bit (HT_cap m ! i) n \<and> (i < length d \<longrightarrow> bit (d ! i) n)
    \<and> (3 \<le> i \<and> i < 19 \<longrightarrow> bit (default_supported_mcs_set m ! (i - 3)) n)"
proof (cases "i < 3 \<or> 19 \<le> i")
  case True
  then show ?thesis
    using assms merged_caps_nth [OF assms(1,2) True, of d] by (auto simp: merge_cap_def bit_and_iff split: if_splits)
next
  case False
  then show ?thesis
    using assms merged_caps_mcs [of m i d n] by (auto simp: merge_cap_def bit_and_iff split: if_splits)
qed

text \<open>C11. After an HT capability element of at most 26 bytes the station holds only capabilities that both sides have:
  every bit is one of its own and one of the peer's element, the rates are in its rate set, and of the A-MPDU
  parameters it has the smaller length and the larger spacing.\<close>

theorem ht_caps_negotiated:
  assumes "wf_ie_info m" and "ht_on m" and "3 \<le> length d" and "length d \<le> 26"
  shows "\<exists>m'. HT_caps_handler ap (pre @ 45 # of_nat (length d) # d @ s) (length pre) m = Some m'
    \<and> (\<forall>i < 26. i \<noteq> 2 \<longrightarrow> (\<forall>n. bit (HT_cap m' ! i) n \<longrightarrow> bit (HT_cap m ! i) n \<and> (i < length d \<longrightarrow> bit (d ! i) n)
          \<and> (3 \<le> i \<and> i < 19 \<longrightarrow> bit (default_supported_mcs_set m ! (i - 3)) n)))
    \<and> HT_cap m' ! 2 AND 3 = min (HT_cap m ! 2 AND 3) (d ! 2 AND 3)
    \<and> HT_cap m' ! 2 AND 0x1c = max (HT_cap m ! 2 AND 0x1c) (d ! 2 AND 0x1c)"
proof -
  have c: "HT_cap (after_caps ap m d) = merged_caps m d" by (simp add: after_caps_def Let_def)
  have "merged_caps m d ! 2 = ampdu_para (HT_cap m ! 2) (d ! 2)"
    using assms(1,3) merged_caps_nth [of m 2 d] by (simp add: merge_cap_def)
  then show ?thesis
    using HT_caps_handler_spec [of m d "length pre" pre ap 45 s] assms merged_caps_common [OF assms(1)]
    by (intro exI [of _ "after_caps ap m d"]) (simp add: c ampdu_para_bounds)
qed

theorem ht_caps_negotiated_witness:
  "\<exists>m'. HT_caps_handler False ([] @ 45 # of_nat (length (replicate 26 (0x17 :: u8))) # replicate 26 0x17 @ [])
        (length ([] :: bytes)) ex_ie_info = Some m'
    \<and> (\<forall>i < 26. i \<noteq> 2 \<longrightarrow> (\<forall>n. bit (HT_cap m' ! i) n \<longrightarrow> bit (HT_cap ex_ie_info ! i) n
          \<and> (i < length (replicate 26 (0x17 :: u8)) \<longrightarrow> bit (replicate 26 (0x17 :: u8) ! i) n)
          \<and> (3 \<le> i \<and> i < 19 \<longrightarrow> bit (default_supported_mcs_set ex_ie_info ! (i - 3)) n)))
    \<and> HT_cap m' ! 2 AND 3 = min (HT_cap ex_ie_info ! 2 AND 3) (replicate 26 0x17 ! 2 AND 3)
    \<and> HT_cap m' ! 2 AND 0x1c = max (HT_cap ex_ie_info ! 2 AND 0x1c) (replicate 26 0x17 ! 2 AND 0x1c)"
  by (rule ht_caps_negotiated) (simp_all add: ex_ie_info_def wf_ie_info_def)

section \<open>The walk as a fold\<close>

text \<open>What each element of a response means for the station.\<close>

definition ie_effect :: "element \<Rightarrow> ie_info \<Rightarrow> ie_info" where
  "ie_effect x m = (case x of (e, d) \<Rightarrow>
     if e = 221 then
       (if take 6 d \<noteq> WMM_PARA_OUI then m
        else if \<not> qos_on m then m\<lparr>WMM_enable := False\<rparr>
        else if WMM_param m = take 18 (drop 6 d) then m
        else m\<lparr>WMM_param := take 18 (drop 6 d), WMM_enable := True\<rparr>)
     else if e = 45 then (if ht_on m then after_caps False m d else m)
     else if e = 61 then
       (if \<not> ht_on m \<or> 22 < length d then m
        else m\<lparr>HT_info_enable := True, HT_info := d @ drop (length d) (HT_info m)\<rparr>)
     else if e = 42 then
       (case d of [] \<Rightarrow> m\<lparr>ERP_enable := True\<rparr> | [v] \<Rightarrow> m\<lparr>ERP_enable := True, ERP_IE := v\<rparr> | _ \<Rightarrow> m)
     else m)"

text \<open>The elements the handlers process without leaving them: a vendor element holds the OUI, and the parameters if
  it is the WMM element; an HT capability element has 2 to 26 bytes.\<close>

definition sound_ie :: "element \<Rightarrow> bool" where
  "sound_ie x = (case x of (e, d) \<Rightarrow> length d < 256
     \<and> (e = 221 \<longrightarrow> 6 \<le> length d \<and> take 4 d \<noteq> wfd_oui \<and> (take 6 d = WMM_PARA_OUI \<longrightarrow> 24 \<le> length d))
     \<and> (e = 45 \<longrightarrow> 2 \<le> length d \<and> length d \<le> 26))"

lemma rdn_data:
  "i + n \<le> length d \<Longrightarrow> k = length pre + 2 + i \<Longrightarrow> rdn (pre @ e # l # d @ s) k n = Some (take n (drop i d))"
  by (simp add: rdn_def)

lemma assoc_rsp_ie_effect:
  assumes "sound_ie (e, d)" "wf_ie_info m"
  shows "assoc_rsp_ie (pre @ e # of_nat (length d) # d @ s) (length pre) m = Some (ie_effect (e, d) m)"
proof -
  let ?f = "pre @ e # of_nat (length d) # d @ s" and ?p = "length pre"
  have l: "length d < 256" using assms(1) by (simp add: sound_ie_def)
  have e: "rd ?f ?p = Some e" by (rule rd_here) simp
  have r: "rd ?f (?p + 1) = Some (of_nat (length d))" by (rule rd_next) simp
  consider "e = 221" | "e = 45" | "e = 61" | "e = 42" | "e \<notin> {221, 45, 61, 42}" by auto
  then show ?thesis
  proof cases
    case 1
    then have o: "rdn ?f (?p + 2) 6 = Some (take 6 d)" using assms(1) by (simp add: sound_ie_def rdn_def)
    have q: "rdn ?f (?p + 2 + 6) 18 = Some (take 18 (drop 6 d))" if "take 6 d = WMM_PARA_OUI"
      using 1 that assms(1) by (simp add: sound_ie_def rdn_def)
    have "take 4 (take 6 d) \<noteq> wfd_oui" using 1 assms(1) by (simp add: sound_ie_def)
    then show ?thesis using 1 e o q by (auto simp: assoc_rsp_ie_def ie_effect_def WMM_param_handler_def simp del: take_take)
  next
    case 2
    then show ?thesis
      using e assms HT_caps_handler_spec [of m d ?p pre False e s]
      by (cases "ht_on m") (simp_all add: assoc_rsp_ie_def ie_effect_def sound_ie_def HT_caps_handler_def)
  next
    case 3
    have "rdn ?f (?p + 2) (length d) = Some d" by (simp add: rdn_def)
    then show ?thesis
      using 3 e r l assms(2)
      by (auto simp: assoc_rsp_ie_def ie_effect_def HT_info_handler_def unat_length_byte wrn_def wf_ie_info_def)
  next
    case 4
    have u: "(of_nat (length d) :: u8) = 1 \<longleftrightarrow> length d = 1" "1 < (of_nat (length d) :: u8) \<longleftrightarrow> 1 < length d"
      using l by (simp_all add: word_unat_eq_iff word_less_nat_alt unat_length_byte)
    have "rd ?f (?p + 2) = Some (d ! 0)" if "length d = 1" using that by (cases d) (auto simp: rd_def nth_append)
    then have "assoc_rsp_ie ?f ?p m = Some (if 1 < length d then m
        else if length d = 1 then m\<lparr>ERP_enable := True, ERP_IE := d ! 0\<rparr> else m\<lparr>ERP_enable := True\<rparr>)"
      using 4 e r by (simp add: assoc_rsp_ie_def ERP_IE_handler_def u)
    also have "\<dots> = Some (ie_effect (e, d) m)" using 4 by (auto simp: ie_effect_def split: list.split)
    finally show ?thesis .
  next
    case 5
    then show ?thesis using e by (simp add: assoc_rsp_ie_def ie_effect_def)
  qed
qed

lemma wf_ie_effect:
  assumes "sound_ie (e, d)" "wf_ie_info m"
  shows "wf_ie_info (ie_effect (e, d) m)"
proof -
  have "length (take 18 (drop 6 d)) = 18" if "e = 221" "take 6 d = WMM_PARA_OUI"
    using that assms(1) by (auto simp: sound_ie_def)
  then show ?thesis
    using assms length_merged_caps [of m d]
    by (simp add: ie_effect_def wf_ie_info_def after_caps_def Let_def del: length_take split: list.split)
qed

definition walk :: "bytes \<Rightarrow> bytes \<Rightarrow> ie_info \<Rightarrow> ie_info option" where
  "walk hdr rest m = assoc_rsp_ies (hdr @ rest) (length (hdr @ rest)) (length hdr) m"

lemma walk_step:
  assumes "sound_ie (e, d)" "wf_ie_info m"
  shows "walk hdr (ie_bytes (e, d) @ s) m = walk (hdr @ ie_bytes (e, d)) s (ie_effect (e, d) m)"
proof -
  let ?f = "hdr @ ie_bytes (e, d) @ s"
  have f: "?f = hdr @ e # of_nat (length d) # d @ s" by (simp add: ie_bytes_def)
  have "rd ?f (length hdr + 1) = Some (of_nat (length d))" unfolding f by (rule rd_next) simp
  moreover have l: "length hdr + (unat (of_nat (length d) :: u8) + 2) = length (hdr @ ie_bytes (e, d))"
    using assms(1) by (simp add: ie_bytes_def sound_ie_def unat_length_byte)
  moreover have "assoc_rsp_ie ?f (length hdr) m = Some (ie_effect (e, d) m)"
    unfolding f using assms by (rule assoc_rsp_ie_effect)
  moreover have "length hdr < length ?f" by (simp add: f)
  ultimately have "assoc_rsp_ies ?f (length ?f) (length hdr) m
      = assoc_rsp_ies ?f (length ?f) (length hdr + (unat (of_nat (length d) :: u8) + 2)) (ie_effect (e, d) m)"
    by (subst assoc_rsp_ies.simps) (simp del: length_append)
  then show ?thesis by (simp only: walk_def l append_assoc)
qed

lemma walk_Cons:
  "sound_ie x \<Longrightarrow> wf_ie_info m \<Longrightarrow> walk hdr (ies_of (x # es) @ s) m = walk (hdr @ ie_bytes x) (ies_of es @ s) (ie_effect x m)"
  using walk_step [of "fst x" "snd x" m hdr "ies_of es @ s"] by (cases x) (simp add: ie_bytes_def)

lemma walk_append:
  "list_all sound_ie es \<Longrightarrow> wf_ie_info m
    \<Longrightarrow> walk hdr (ies_of es @ s) m = walk (hdr @ ies_of es) s (fold ie_effect es m) \<and> wf_ie_info (fold ie_effect es m)"
proof (induction es arbitrary: hdr m)
  case (Cons x es)
  then have "wf_ie_info (ie_effect x m)" by (cases x) (simp add: wf_ie_effect)
  moreover have "hdr @ ies_of (x # es) = (hdr @ ie_bytes x) @ ies_of es" by (cases x) (simp add: ie_bytes_def)
  ultimately show ?case
    using Cons.IH [of "ie_effect x m" "hdr @ ie_bytes x"] Cons.prems walk_Cons [of x m hdr es s] by simp
qed simp

text \<open>C10. The walk of \<open>OnAssocRsp\<close> over a well-formed response stays inside the frame and inside the structures it
  fills, ends, and has the effect of each element on the station, one after the other.\<close>

theorem assoc_rsp_ies_effect:
  assumes "list_all sound_ie es" and "wf_ie_info m"
  shows "assoc_rsp_ies (hdr @ ies_of es) (length (hdr @ ies_of es)) (length hdr) m = Some (fold ie_effect es m)
    \<and> wf_ie_info (fold ie_effect es m)"
  using walk_append [OF assms, of hdr "[]"] by (simp add: walk_def assoc_rsp_ies.simps)

theorem assoc_rsp_ies_effect_witness:
  "assoc_rsp_ies (replicate 30 0 @ ies_of [(42, [4]), (61, replicate 22 1)])
      (length (replicate 30 (0 :: u8) @ ies_of [(42, [4]), (61, replicate 22 1)])) (length (replicate 30 (0 :: u8))) ex_ie_info
      = Some (fold ie_effect [(42, [4]), (61, replicate 22 1)] ex_ie_info)
    \<and> wf_ie_info (fold ie_effect [(42, [4]), (61, replicate 22 1)] ex_ie_info)"
  by (rule assoc_rsp_ies_effect) (simp_all add: sound_ie_def ex_ie_info_def wf_ie_info_def)

section \<open>A response that overruns a buffer\<close>

text \<open>A WFD element of more than 126 bytes does not fit the buffer \<open>WFD_info_handler\<close> copies it to.\<close>

lemma WFD_info_handler_overrun:
  assumes "take 4 d = wfd_oui" "126 < length d" "length d < 256"
  shows "WFD_info_handler (pre @ 221 # of_nat (length d) # d @ s) (length pre) m = None"
proof -
  let ?f = "221 # of_nat (length d) # d @ s"
  have u: "uint (of_nat (length d) :: u8) = int (length d)" unfolding uint_nat using assms(3) by (simp add: unat_length_byte)
  have o: "rdn ?f 2 4 = Some wfd_oui" using assms(1,2) by (simp add: rdn_def)
  have "copy_out ?f 0 (length d + 2) (Some (replicate 128 0)) = None"
    using assms(2) by (simp add: copy_out_def rdn_def wrn_def)
  then have "vendor_ie_loop wfd_oui ?f (length d) (Some (replicate 128 0)) 0 = None"
    using assms o [unfolded numeral_2_eq_2]
    by (subst vendor_ie_loop.simps) (auto simp: rd_def unat_length_byte)
  then have "rtw_get_wfd_ie ?f (uint (of_nat (length d) :: u8)) (Some (replicate 128 0)) = None"
    by (simp add: rtw_get_wfd_ie_def u)
  moreover have "rd (pre @ ?f) (length pre + 1) = Some (of_nat (length d))" by (rule rd_next) simp
  ultimately show ?thesis by (simp add: WFD_info_handler_def)
qed

text \<open>An association response with a WFD element of more than 126 bytes, however well-formed the frame is, makes
  the station write behind the 128-byte local buffer of \<open>WFD_info_handler\<close>.\<close>

theorem assoc_rsp_wfd_overflow:
  assumes "list_all sound_ie es" and "wf_ie_info m"
    and "take 4 d = wfd_oui" and "126 < length d" and "length d < 256"
  shows "assoc_rsp_ies (hdr @ ies_of (es @ [(221, d)]) @ s) (length (hdr @ ies_of (es @ [(221, d)]) @ s)) (length hdr) m = None"
proof -
  let ?h = "hdr @ ies_of es" and ?m = "fold ie_effect es m"
  have "take 6 d \<noteq> WMM_PARA_OUI"
  proof
    assume "take 6 d = WMM_PARA_OUI"
    then have "take 4 (take 6 d) = [0x00, 0x50, 0xf2, 0x02]" by (simp add: WMM_PARA_OUI_def)
    then show False using assms(3) by (simp add: wfd_oui_def)
  qed
  moreover have "rdn (?h @ 221 # of_nat (length d) # d @ s) (length ?h + 2) 6 = Some (take 6 d)"
    using assms(4) by (simp add: rdn_def)
  moreover have "take 4 (take 6 d) = wfd_oui" using assms(3) by simp
  moreover have "rd (?h @ 221 # of_nat (length d) # d @ s) (length ?h) = Some 221" by (rule rd_here) simp
  ultimately have "assoc_rsp_ie (?h @ 221 # of_nat (length d) # d @ s) (length ?h) ?m = None"
    using WFD_info_handler_overrun [OF assms(3-5), of ?h s ?m] by (simp add: assoc_rsp_ie_def del: take_take append_assoc length_append)
  then have "walk ?h (ies_of [(221, d)] @ s) ?m = None"
    unfolding walk_def by (subst assoc_rsp_ies.simps) (simp del: append_assoc)
  then show ?thesis using walk_append [OF assms(1,2), of hdr "ies_of [(221, d)] @ s"] by (simp add: walk_def)
qed

theorem assoc_rsp_wfd_overflow_witness:
  "assoc_rsp_ies (replicate 30 0 @ ies_of ([(42, [4])] @ [(221, wfd_oui @ replicate 123 0)]) @ [])
     (length (replicate 30 (0 :: u8) @ ies_of ([(42, [4])] @ [(221, wfd_oui @ replicate 123 0)]) @ []))
     (length (replicate 30 (0 :: u8))) ex_ie_info = None"
  by (rule assoc_rsp_wfd_overflow) (simp_all add: sound_ie_def ex_ie_info_def wf_ie_info_def wfd_oui_def)

end
