(* ===== verification/Spec2Isabelle.thy ===== *)
theory Spec2Isabelle
  imports Arc4 Crc32 Michael Tkip_Mix Ccmp Sha256 Cmac Frame_Crypto Ie_Core Ie_Security Ie_Attr Rx_Reorder Rx_Deliver Mgmt_Protect Tx_Coalesce Rx_Validate Data_Path Tx_Fragment Ap_Sleep_Safe Sta_Table Cam Assoc_Ie
begin

text \<open>
  A model of the RTL8723BU wireless driver in Isabelle/HOL, written from the C sources under
  \<^verbatim>\<open>src/\<close>, with the properties that make its parts correct.

  \<^bold>\<open>The driver\<close>. A frame received from the chip becomes a \<open>recv_frame\<close>; it is checked for
  duplicates, decrypted in software unless the chip has done so, collected with its fragments, checked
  for integrity, put in order within its block-acknowledgement session, turned into one or several
  Ethernet packets and handed to the network stack. A packet to be sent gets its header, is cut into fragments, and is
  encrypted in software or left to the chip.
  The management code reads and writes lists of information elements, keeps the table of stations and
  installs keys in the key table (CAM) of the chip.

  \<^bold>\<open>Theories\<close>.
  \<^item> \<open>Bytes\<close>: prelude. C integer types, buffers with checked access (\<open>rd\<close>, \<open>rdn\<close>, \<open>wrn\<close>: an access
    outside the buffer is \<^term>\<open>None\<close>), byte-order macros of \<^verbatim>\<open>include/osdep_service.h\<close>, and the
    collection \<open>mem_simps\<close> of the facts on buffers that the component proofs share.
  \<^item> \<open>Arc4\<close>, \<open>Crc32\<close>, \<open>Michael\<close>, \<open>Tkip_Mix\<close>, \<open>Aes_Block\<close>, \<open>Sha256\<close>, \<open>Cmac\<close>: the primitives of
    \<^verbatim>\<open>core/rtw_security.c\<close>, each with its state (\<open>arc4context\<close>, \<open>mic_data\<close>, the SHA-256 state) as a record
    and proved equal to a direct definition of the algorithm, or to a second implementation in the same file.
  \<^item> \<open>Block_Modes\<close>: reference definitions of CBC chaining and counter mode over an arbitrary block
    cipher, and the locale \<open>block_cipher\<close>.
  \<^item> \<open>Ccmp\<close>: \<open>aes_cipher\<close> and \<open>aes_decipher\<close>, refined to CCM.
  \<^item> \<open>Frame_Crypto\<close>: \<open>rtw_wep_encrypt\<close> to \<open>rtw_aes_decrypt\<close> over the key state \<open>security_priv\<close>.
  \<^item> \<open>Ie_Core\<close>, \<open>Ie_Security\<close>, \<open>Ie_Attr\<close>: \<^verbatim>\<open>core/rtw_ieee80211.c\<close>, writers, search and removal of
    information elements, the parsers of the WPA, RSN and WAPI elements, and the attributes of the WPS, P2P and WFD
    elements.
  \<^item> \<open>Assoc_Ie\<close>: the elements of an association response: the walk of \<open>OnAssocRsp\<close> (\<^verbatim>\<open>core/rtw_mlme_ext.c\<close>) and
    the handlers of \<^verbatim>\<open>core/rtw_wlan_util.c\<close> for the WMM, HT, ERP and WFD elements; its lemmas give the effect of each
    element and the elements that overrun a structure.
  \<^item> \<open>Rx_Reorder\<close>, \<open>Rx_Frame\<close>, \<open>Rx_Deliver\<close>: \<^verbatim>\<open>core/rtw_recv.c\<close>, \<^verbatim>\<open>include/rtw_recv.h\<close> and
    \<^verbatim>\<open>os_dep/recv_linux.c\<close>: the reordering window with its timer, frame buffers and defragmentation, header
    conversion and A-MSDU splitting.
  \<^item> \<open>Mgmt_Protect\<close>: protection of management frames (802.11w) in \<^verbatim>\<open>core/rtw_xmit.c\<close>,
    \<^verbatim>\<open>core/rtw_security.c\<close> and \<^verbatim>\<open>core/rtw_recv.c\<close>, and the decryption dispatcher \<open>decryptor\<close>.
  \<^item> \<open>Adapter\<close>: the state of one interface that the paths of data frames share (addresses, security settings,
    station entries), \<^verbatim>\<open>include/drv_types.h\<close> and the headers of its parts.
  \<^item> \<open>Tx_Coalesce\<close>: an Ethernet packet becomes a frame, \<^verbatim>\<open>core/rtw_xmit.c\<close>: \<open>update_attrib\<close> (addresses, station,
    cipher, packet number, priority), \<open>rtw_make_wlanhdr\<close>, \<open>rtw_xmitframe_coalesce\<close> with its loop over fragments,
    Michael code and software encryption; the packet reader of \<^verbatim>\<open>os_dep/xmit_linux.c\<close>. Its lemmas say what header,
    attributes and frame result.
  \<^item> \<open>Rx_Validate\<close>: the way back, \<^verbatim>\<open>core/rtw_recv.c\<close>: \<open>recv_func\<close> with \<open>validate_recv_frame\<close>, the checks of
    the addresses by mode, \<open>recv_func_posthandle\<close>, \<open>process_recv_indicatepkts\<close>, and delivery or forwarding by
    \<open>rtw_os_recv_indicate_pkt\<close> (\<^verbatim>\<open>os_dep/recv_linux.c\<close>). It composes the operations of the theories above.
  \<^item> \<open>Data_Path\<close>: both paths together: a packet through two drivers, frames without protection, which frames pass
    the address checks, failed delivery. \<open>Tx_Fragment\<close>: packets in several fragments, the transfers
    \<open>rtw_dump_xframe\<close> (\<^verbatim>\<open>hal/rtl8723bu_xmit.c\<close>) makes of them, and packet numbers over runs of packets.
  \<^item> \<open>Tx_Queue\<close>: the pool of data frames and the pending queues, \<^verbatim>\<open>core/rtw_xmit.c\<close> and
    \<^verbatim>\<open>hal/rtl8723bu_xmit.c\<close>. \<open>Ap_Sleep\<close>: an access point's buffering for sleeping stations
    (\<^verbatim>\<open>core/rtw_xmit.c\<close>, with the handlers in \<^verbatim>\<open>core/rtw_recv.c\<close>, \<^verbatim>\<open>core/rtw_mlme_ext.c\<close>,
    \<^verbatim>\<open>core/rtw_cmd.c\<close>) and the invariant \<open>wf_tx\<close> of the queues. \<open>Ap_Sleep_Safe\<close>: the invariant of the
    sleeping stations, the step relation \<open>ap_step\<close> and what holds in every reachable state.
  \<^item> \<open>Sta_Table\<close>: \<^verbatim>\<open>core/rtw_sta_mgt.c\<close> with the MAC-id bitmap of \<^verbatim>\<open>core/rtw_wlan_util.c\<close>.
  \<^item> \<open>Cam\<close>: the key table, \<^verbatim>\<open>core/rtw_wlan_util.c\<close> and the key handlers of \<^verbatim>\<open>core/rtw_mlme_ext.c\<close>
    and \<^verbatim>\<open>core/rtw_cmd.c\<close>.

  \<^bold>\<open>Interfaces\<close>. The locales state what a client relies on: a stream cipher, a block cipher,
  a table of stations, a pool of ids, an attribute format. Each is interpreted on the definitions of the component that
  provides it, and the properties rest on the facts of the interpretation.

  \<^bold>\<open>Conventions\<close>. Integers that wrap have their width; lengths and offsets are natural numbers
  where the code keeps them in range, integers where it subtracts. A C array is a list. A result
  \<^term>\<open>None\<close> of type \<open>option\<close> around the result of a function is an access outside a buffer, or a loop that does not
  end (\<open>partial_function\<close>); every other failure is a value of the result. The loops that always end are
  structural or carry their measure; where the code has a bound of its own (64 subframes, 2048 octets of CCMP
  message, 768 octets of copied elements) the bound is in the definition. Allocation results are arguments.

  \<^bold>\<open>Properties\<close>. They are numbered C1 onwards across the theories, each with a natural-language statement
  before it and, when it has hypotheses, a witness \<open>..._witness\<close> after it that applies it. They state: invariants of every reachable
  state (cipher state, reordering sessions, station table, key table, transmit queues), equivalence of each primitive with
  its definition, refinement (CCM, Ethernet packet of the sender's fragments, cache and hardware of the
  key table), round trips (a packet from driver to driver, management frames), safety (no frame delivered
  out of order, lost or twice; which elements a parser reads beyond), bounds, error and termination behaviour; some show
  where the code fails: unprotected frames accepted in a protected network, fragments sent from the wrong place,
  a frame freed twice, an access beyond a buffer, a loop that never ends.

  \<^bold>\<open>Limits of the runs\<close>. \<open>sta_reach\<close> has no release of the broadcast entry and no ad-hoc overwriting of MAC ids. \<open>ap_reachable\<close>
  has a fixed set of stations with association ids below 16 and takes frames only from associated ones; two theorems show what happens
  beyond these limits. The packet numbers of \<open>rtw_BIP_verify\<close> and of \<open>update_attrib\<close> are followed within one association: the
  counters are not set back in a run.

  \<^bold>\<open>Not modelled\<close>. The operating system glue, register and USB input and output, generated
  hardware tables and firmware, radio calibration and coexistence; they act on hardware or on
  kernel structures whose behaviour is not in the sources. The contents of the chip descriptors in front of a frame, USB
  aggregation, TDLS, WAPI and the bridge extension on the data path. Spin locks: every operation is one
  step. Logging, statistics and timers that only arm a later call. The event-driven MLME code is modelled only
  in its key handlers and in the elements of an association response: its other handlers work on most structures of
  the driver at once.
\<close>

end
